(* ===== verification/Prelude.thy ===== *)
theory Prelude
  imports Main "HOL-Library.Word"
begin

text \<open>
  Shared vocabulary of the development.

  \<^item> \<open>'a res\<close> is Rust's \<^verbatim>\<open>anyhow::Result<T>\<close>: \<open>Inl\<close> carries the failure, \<open>Inr\<close> the value.
    \<open>err\<close> has one constructor per way of failing that the code or a caller tells apart.
    \<open>Panic\<close> stands for an abort of the process: a failed \<^verbatim>\<open>assert!\<close>, a slice or
    array index out of range, or an integer overflow (the dev profile's overflow check,
    which the workspace's \<^verbatim>\<open>Cargo.toml\<close> leaves at its default).
  \<^item> \<open>rbind\<close> and \<open>ensure\<close> are the \<^verbatim>\<open>?\<close> operator and \<^verbatim>\<open>anyhow::ensure!\<close>.
  \<^item> bytes are \<open>8 word\<close>s; big-endian encodings are \<open>be_bytes\<close> and \<open>be_nat\<close>.
  \<^item> a field element (\<^verbatim>\<open>Felt\<close>) is its canonical representative, a natural number below
    the Stark prime.
\<close>

section \<open>Results\<close>

datatype decode_err = BadHex | TooShort | BadShape | NotU64 | NotU32 | NotU128 | NotAscii

datatype crypto_err = BadSecret | BadKem | NotOnCurve | AeadFailed | BadPadding | MessageTooLong

datatype wallet_err =
    WrongStore
  | TicketNotInTreeYet nat
  | NoTicket
  | NoTicketPending
  | EpochAhead
  | QuotaUsed
  | NotContiguous
  | RegisteredTwice
  | NotInTree
  | NotRegistered
  | BadCount

datatype policy_err =
    TipOverCap | GasUnderMin | GasTooDear | FeeOverCap | FactsMismatch | SlotOverQuota | BadPath

datatype gateway_err =
    Rejected string string
  | HashMismatch string string
  | Reverted string string

datatype net_err = Transport | HttpStatus nat | TxDropped | TimedOut | RpcError

datatype lock_err = AppLocked | NoPin | PinExists | BadPin | BadId | KeyGone | WasWiped

datatype file_err = Missing | RefusedOverwrite | NotMatching | BadTarget | NothingToResume | IoError

datatype err =
    Panic
  | Overflow
  | Decode decode_err
  | Crypto crypto_err
  | Tickets wallet_err
  | Policy policy_err
  | Gateway gateway_err
  | Net net_err
  | Lock lock_err
  | File file_err

type_synonym 'a res = "err + 'a"

definition rbind :: "'a res \<Rightarrow> ('a \<Rightarrow> 'b res) \<Rightarrow> 'b res" where
  "rbind m f = (case m of Inl e \<Rightarrow> Inl e | Inr x \<Rightarrow> f x)"

definition ensure :: "bool \<Rightarrow> err \<Rightarrow> 'a res \<Rightarrow> 'a res" where
  "ensure b e k = (if b then k else Inl e)"

definition of_opt :: "err \<Rightarrow> 'a option \<Rightarrow> 'a res" where
  "of_opt e m = (case m of None \<Rightarrow> Inl e | Some x \<Rightarrow> Inr x)"

text \<open>\<^verbatim>\<open>iter().map(f).collect::<Result<Vec<_>>>()\<close>: the first failure wins.\<close>

fun rmap :: "('a \<Rightarrow> 'b res) \<Rightarrow> 'a list \<Rightarrow> 'b list res" where
  "rmap f [] = Inr []"
| "rmap f (x # xs) = rbind (f x) (\<lambda>y. rbind (rmap f xs) (\<lambda>ys. Inr (y # ys)))"

definition is_ok :: "'a res \<Rightarrow> bool" where
  "is_ok m = (case m of Inl _ \<Rightarrow> False | Inr _ \<Rightarrow> True)"

definition ok_opt :: "'a res \<Rightarrow> 'a option" where
  "ok_opt m = (case m of Inl _ \<Rightarrow> None | Inr x \<Rightarrow> Some x)"

named_theorems res_simps \<open>the result monad\<close>

lemma rbind_simps [simp, res_simps]:
  "rbind (Inl e) f = Inl e"
  "rbind (Inr x) f = f x"
  by (simp_all add: rbind_def)

lemma ensure_simps [simp, res_simps]:
  "ensure True e k = k"
  "ensure False e k = Inl e"
  by (simp_all add: ensure_def)

lemma of_opt_simps [simp, res_simps]:
  "of_opt e None = Inl e"
  "of_opt e (Some x) = Inr x"
  by (simp_all add: of_opt_def)

lemma is_ok_simps [simp, res_simps]:
  "\<not> is_ok (Inl e)"
  "is_ok (Inr x)"
  by (simp_all add: is_ok_def)

lemma ok_opt_simps [simp, res_simps]:
  "ok_opt (Inl e) = None"
  "ok_opt (Inr x) = Some x"
  by (simp_all add: ok_opt_def)

lemma rbind_eq_Inr: "rbind m f = Inr y \<longleftrightarrow> (\<exists>x. m = Inr x \<and> f x = Inr y)"
  by (cases m) auto

lemma rbind_eq_Inl: "rbind m f = Inl e \<longleftrightarrow> m = Inl e \<or> (\<exists>x. m = Inr x \<and> f x = Inl e)"
  by (cases m) auto

lemma ensure_eq_Inr: "ensure b e k = Inr y \<longleftrightarrow> b \<and> k = Inr y"
  by (simp add: ensure_def)

lemma ensure_eq_Inl: "ensure b e k = Inl e' \<longleftrightarrow> (if b then k = Inl e' else e = e')"
  by (simp add: ensure_def)

lemma of_opt_eq_Inr: "of_opt e m = Inr x \<longleftrightarrow> m = Some x"
  by (cases m) auto

lemma ok_opt_eq_Some: "ok_opt m = Some x \<longleftrightarrow> m = Inr x"
  by (cases m) auto

lemmas res_inv = rbind_eq_Inr ensure_eq_Inr of_opt_eq_Inr ok_opt_eq_Some

lemma rmap_Inr_map: "(\<And>x. x \<in> set xs \<Longrightarrow> f x = Inr (g x)) \<Longrightarrow> rmap f xs = Inr (map g xs)"
  by (induction xs) auto

lemma rmap_map: "rmap f (map g xs) = rmap (\<lambda>x. f (g x)) xs"
  by (induction xs) auto

lemma rmap_length: "rmap f xs = Inr ys \<Longrightarrow> length ys = length xs"
  by (induction xs arbitrary: ys) (auto simp: res_inv)

lemma rmap_nth: "rmap f xs = Inr ys \<Longrightarrow> i < length xs \<Longrightarrow> f (xs ! i) = Inr (ys ! i)"
proof (induction xs arbitrary: ys i)
  case Nil
  then show ?case by simp
next
  case (Cons x xs)
  then show ?case by (cases i) (auto simp: res_inv)
qed

lemma rmap_in_set: "rmap f xs = Inr ys \<Longrightarrow> y \<in> set ys \<Longrightarrow> \<exists>x \<in> set xs. f x = Inr y"
  by (induction xs arbitrary: ys) (auto simp: res_inv)

section \<open>Bytes and big-endian numbers\<close>

type_synonym byte = "8 word"
type_synonym bytes = "byte list"

definition be_nat :: "bytes \<Rightarrow> nat" where
  "be_nat bs = foldl (\<lambda>a b. a * 256 + unat b) 0 bs"

fun be_bytes :: "nat \<Rightarrow> nat \<Rightarrow> bytes" where
  "be_bytes 0 x = []"
| "be_bytes (Suc n) x = be_bytes n (x div 256) @ [word_of_nat x]"

lemma length_be_bytes [simp]: "length (be_bytes n x) = n"
  by (induction n arbitrary: x) auto

lemma be_nat_Nil [simp]: "be_nat [] = 0"
  by (simp add: be_nat_def)

lemma be_nat_snoc [simp]: "be_nat (bs @ [b]) = be_nat bs * 256 + unat b"
  by (simp add: be_nat_def)

lemma be_nat_append: "be_nat (xs @ ys) = be_nat xs * 256 ^ length ys + be_nat ys"
proof (induction ys rule: rev_induct)
  case Nil
  then show ?case by simp
next
  case (snoc y ys)
  have "be_nat (xs @ ys @ [y]) = be_nat ((xs @ ys) @ [y])" by simp
  also have "\<dots> = be_nat (xs @ ys) * 256 + unat y" by (rule be_nat_snoc)
  finally show ?case using snoc by (simp add: algebra_simps)
qed

lemma be_nat_Cons: "be_nat (b # bs) = unat b * 256 ^ length bs + be_nat bs"
  using be_nat_append [of "[b]" bs] by (simp add: be_nat_def)

lemma unat_byte_less: "unat (b :: byte) < 256"
  by (rule order_less_le_trans [OF unsigned_less]) simp

lemma be_nat_less: "be_nat bs < 256 ^ length bs"
proof (induction bs rule: rev_induct)
  case Nil
  then show ?case by simp
next
  case (snoc b bs)
  have "be_nat bs * 256 + unat b < (be_nat bs + 1) * 256"
    using unat_byte_less [of b] by simp
  also have "\<dots> \<le> 256 ^ length bs * 256"
    using snoc by (intro mult_right_mono) auto
  finally show ?case by simp
qed

lemma unat_of_nat_byte: "unat (word_of_nat x :: byte) = x mod 256"
  by (simp add: unat_of_nat)

lemma be_nat_be_bytes: "be_nat (be_bytes n x) = x mod 256 ^ n"
proof (induction n arbitrary: x)
  case 0
  then show ?case by simp
next
  case (Suc n)
  have "be_nat (be_bytes (Suc n) x) = (x div 256) mod 256 ^ n * 256 + x mod 256"
    by (simp add: Suc unat_of_nat_byte)
  also have "\<dots> = x mod (256 * 256 ^ n)"
    by (subst mod_mult2_eq) (simp add: mult.commute)
  finally show ?case by simp
qed

lemma be_bytes_be_nat: "be_bytes (length bs) (be_nat bs) = bs"
proof (induction bs rule: rev_induct)
  case Nil
  then show ?case by simp
next
  case (snoc b bs)
  have "(be_nat bs * 256 + unat b) div 256 = be_nat bs"
    using unat_byte_less [of b] by simp
  moreover have "(word_of_nat (be_nat bs * 256 + unat b) :: byte) = b"
  proof -
    have "word_of_nat (be_nat bs * 256 + unat b) = word_of_nat (be_nat bs) * (256 :: byte) + b" by simp
    also have "(256 :: byte) = 0" by simp
    finally show ?thesis by simp
  qed
  ultimately show ?case using snoc by simp
qed

lemma be_nat_inj: "length xs = length ys \<Longrightarrow> be_nat xs = be_nat ys \<Longrightarrow> xs = ys"
  by (metis be_bytes_be_nat)

lemma be_nat_zeros [simp]: "be_nat (replicate n 0) = 0"
  by (induction n) (auto simp: be_nat_Cons)

lemma be_nat_zeros_append [simp]: "be_nat (replicate n 0 @ bs) = be_nat bs"
  by (simp add: be_nat_append)

section \<open>Field elements\<close>

type_synonym felt = nat

definition STARK_PRIME :: nat where
  "STARK_PRIME = 2 ^ 251 + 17 * 2 ^ 192 + 1"

definition felt_ok :: "felt \<Rightarrow> bool" where
  "felt_ok f = (f < STARK_PRIME)"

text \<open>\<^verbatim>\<open>Felt::from_bytes_be\<close> (and \<open>_slice\<close>): big-endian, reduced into the field.\<close>

definition felt_from_be :: "bytes \<Rightarrow> felt" where
  "felt_from_be bs = be_nat bs mod STARK_PRIME"

text \<open>\<^verbatim>\<open>Felt::to_bytes_be\<close>: 32 bytes.\<close>

definition felt_to_be :: "felt \<Rightarrow> bytes" where
  "felt_to_be f = be_bytes 32 f"

lemma STARK_PRIME_gt_248: "256 ^ 31 < STARK_PRIME"
  by (simp add: STARK_PRIME_def)

lemma STARK_PRIME_lt_256: "STARK_PRIME < 256 ^ 32"
  by (simp add: STARK_PRIME_def)

lemma felt_from_be_small: "length bs \<le> 31 \<Longrightarrow> felt_from_be bs = be_nat bs"
proof -
  assume "length bs \<le> 31"
  then have "(256::nat) ^ length bs \<le> 256 ^ 31" by (intro power_increasing) auto
  with be_nat_less [of bs] STARK_PRIME_gt_248 show ?thesis
    by (simp add: felt_from_be_def)
qed

lemma felt_from_be_ok [simp]: "felt_ok (felt_from_be bs)"
  by (simp add: felt_ok_def felt_from_be_def STARK_PRIME_def)

lemma length_felt_to_be [simp]: "length (felt_to_be f) = 32"
  by (simp add: felt_to_be_def)

lemma felt_from_to_be: "felt_ok f \<Longrightarrow> felt_from_be (felt_to_be f) = f"
  using STARK_PRIME_lt_256
  by (simp add: felt_ok_def felt_from_be_def felt_to_be_def be_nat_be_bytes)

lemma felt_to_be_inj: "felt_ok f \<Longrightarrow> felt_ok g \<Longrightarrow> felt_to_be f = felt_to_be g \<Longrightarrow> f = g"
  by (metis felt_from_to_be)

text \<open>A short byte string, right aligned in 32 bytes, is its own value.\<close>

lemma be_bytes_pad: "be_nat bs < 256 ^ k \<Longrightarrow> be_bytes (k + n) (be_nat bs) = replicate n 0 @ be_bytes k (be_nat bs)"
proof -
  assume a: "be_nat bs < 256 ^ k"
  have "be_nat (be_bytes (k + n) (be_nat bs)) = be_nat bs"
    using less_le_trans [OF a, of "256 ^ (k + n)"] by (simp add: be_nat_be_bytes power_increasing)
  moreover have "be_nat (replicate n 0 @ be_bytes k (be_nat bs)) = be_nat bs"
    using a by (simp add: be_nat_be_bytes)
  ultimately show ?thesis by (intro be_nat_inj) auto
qed

section \<open>Lists and maps\<close>

lemma nth_take_drop_split: "n \<le> length xs \<Longrightarrow> take n xs @ drop n xs = xs"
  by simp

lemma length_filter_le' [simp]: "length (filter P xs) \<le> length xs"
  by simp

text \<open>The position of the first element satisfying \<open>P\<close> (\<^verbatim>\<open>Iterator::position\<close>).\<close>

fun position :: "('a \<Rightarrow> bool) \<Rightarrow> 'a list \<Rightarrow> nat option" where
  "position P [] = None"
| "position P (x # xs) = (if P x then Some 0 else map_option Suc (position P xs))"

lemma position_Some:
  "position P xs = Some i \<longleftrightarrow> i < length xs \<and> P (xs ! i) \<and> (\<forall>j < i. \<not> P (xs ! j))"
proof (induction xs arbitrary: i)
  case Nil
  then show ?case by simp
next
  case (Cons x xs)
  show ?case
  proof (cases i)
    case 0
    then show ?thesis by auto
  next
    case (Suc k)
    then show ?thesis using Cons [of k] by (auto simp: less_Suc_eq_0_disj)
  qed
qed

lemma position_None: "position P xs = None \<longleftrightarrow> (\<forall>x \<in> set xs. \<not> P x)"
  by (induction xs) auto

lemma position_less: "position P xs = Some i \<Longrightarrow> i < length xs"
  by (simp add: position_Some)

lemma position_cong: "(\<And>x. x \<in> set xs \<Longrightarrow> P x = Q x) \<Longrightarrow> position P xs = position Q xs"
  by (induction xs) auto

end
