(* ===== verification/Crates.thy ===== *)
theory Crates
  imports Prelude
begin

text \<open>
  The functions of third-party crates the program calls, as one record of parameters.
  Nothing is assumed of them here; the predicates below state the documented behaviour a
  property needs, and \<open>demo_crates\<close> is a concrete instance that meets all of them, so the
  properties can be evaluated.

  \<^item> \<^verbatim>\<open>starknet-types-core\<close>: \<open>felt_of_hex\<close> (\<^verbatim>\<open>Felt::from_hex\<close>), \<open>felt_to_hex\<close>
    (\<^verbatim>\<open>format!("{:#x}")\<close>), \<open>ec_gen_x\<close> and \<open>ec_shared_x\<close> (x coordinates of
    scalar multiples of the generator and of a point lifted from its x), \<open>ec_order\<close> (the
    order of the generator, of \<^verbatim>\<open>starknet-curve\<close>).
  \<^item> \<^verbatim>\<open>starknet-crypto\<close>: \<open>poseidon_many\<close>, \<open>poseidon_two\<close> (\<^verbatim>\<open>poseidon_hash\<close>), \<open>ecdsa_sign\<close>, \<open>public_key\<close>.
  \<^item> \<^verbatim>\<open>hex\<close>, \<^verbatim>\<open>sha3\<close>, \<^verbatim>\<open>hkdf\<close>, \<^verbatim>\<open>aes-gcm\<close>, \<^verbatim>\<open>ml-kem\<close>, \<^verbatim>\<open>argon2\<close>.
\<close>

record crates =
  felt_of_hex :: "string \<Rightarrow> felt option"
  felt_to_hex :: "felt \<Rightarrow> string"
  hex_encode :: "bytes \<Rightarrow> string"
  hex_decode :: "string \<Rightarrow> bytes option"
  poseidon_many :: "felt list \<Rightarrow> felt"
  poseidon_two :: "felt \<Rightarrow> felt \<Rightarrow> felt"
  keccak256 :: "bytes \<Rightarrow> bytes"
  sha3_256 :: "bytes \<Rightarrow> bytes"
  ec_order :: felt
  ec_gen_x :: "felt \<Rightarrow> felt"
  ec_shared_x :: "felt \<Rightarrow> felt \<Rightarrow> felt option"
  kem_ek :: "bytes \<Rightarrow> bytes"
  kem_encap :: "bytes \<Rightarrow> bytes \<Rightarrow> (bytes \<times> bytes) option"
  kem_decap :: "bytes \<Rightarrow> bytes \<Rightarrow> bytes"
  hkdf_extract :: "bytes \<Rightarrow> bytes \<Rightarrow> bytes"
  hkdf_expand :: "bytes \<Rightarrow> bytes \<Rightarrow> nat \<Rightarrow> bytes"
  gcm_seal :: "bytes \<Rightarrow> bytes \<Rightarrow> bytes \<Rightarrow> bytes \<Rightarrow> bytes"
  gcm_open :: "bytes \<Rightarrow> bytes \<Rightarrow> bytes \<Rightarrow> bytes \<Rightarrow> bytes option"
  argon2id :: "bytes \<Rightarrow> bytes \<Rightarrow> nat \<times> nat \<times> nat \<Rightarrow> bytes option"
  public_key :: "felt \<Rightarrow> felt"
  ecdsa_sign :: "felt \<Rightarrow> felt \<Rightarrow> (felt \<times> felt) option"

text \<open>A string's bytes (\<^verbatim>\<open>str::as_bytes\<close>): one character of the model is one UTF-8 byte.\<close>

definition str_bytes :: "string \<Rightarrow> bytes" where
  "str_bytes s = map of_char s"

lemma length_str_bytes [simp]: "length (str_bytes s) = length s"
  by (simp add: str_bytes_def)

text \<open>The standard library's \<^verbatim>\<open>{:x}\<close> of an unsigned integer: no leading zeros, lower case.\<close>

definition hex_digits :: string where
  "hex_digits = ''0123456789abcdef''"

fun hex_nat :: "nat \<Rightarrow> string" where
  "hex_nat n = (if n < 16 then [hex_digits ! n] else hex_nat (n div 16) @ [hex_digits ! (n mod 16)])"

declare hex_nat.simps [simp del]

text \<open>\<^verbatim>\<open>format!("{:#x}", n)\<close>.\<close>

definition hex0x :: "nat \<Rightarrow> string" where
  "hex0x n = ''0x'' @ hex_nat n"

section \<open>Documented behaviour\<close>

definition felt_hex_ok :: "crates \<Rightarrow> bool" where
  "felt_hex_ok C = ((\<forall>f. felt_ok f \<longrightarrow> felt_of_hex C (felt_to_hex C f) = Some f)
    \<and> (\<forall>s f. felt_of_hex C s = Some f \<longrightarrow> felt_ok f)
    \<and> (\<forall>n. felt_ok n \<longrightarrow> felt_of_hex C (hex0x n) = Some n))"

definition hex_ok :: "crates \<Rightarrow> bool" where
  "hex_ok C = (\<forall>b. hex_decode C (hex_encode C b) = Some b \<and> set (hex_encode C b) \<subseteq> set hex_digits)"

definition poseidon_ok :: "crates \<Rightarrow> bool" where
  "poseidon_ok C = (\<forall>xs. felt_ok (poseidon_many C xs))"

text \<open>Diffie-Hellman: both parties reach the same x.\<close>

definition ecdh_ok :: "crates \<Rightarrow> bool" where
  "ecdh_ok C = ((\<forall>a b. ec_shared_x C a (ec_gen_x C b) = ec_shared_x C b (ec_gen_x C a))
    \<and> (\<forall>a. felt_ok (ec_gen_x C a)))"

text \<open>ML-KEM-768: the holder of the seed decapsulates what was encapsulated to its key.\<close>

definition kem_ok :: "crates \<Rightarrow> bool" where
  "kem_ok C = (\<forall>seed m ct ss. kem_encap C (kem_ek C seed) m = Some (ct, ss) \<longrightarrow>
     length ct = 1088 \<and> kem_decap C seed ct = ss)"

definition hkdf_ok :: "crates \<Rightarrow> bool" where
  "hkdf_ok C = (\<forall>prk info n. length (hkdf_expand C prk info n) = n)"

text \<open>AES-256-GCM: decrypting an encryption under the same key, nonce and data gives the
  message back, and the ciphertext is the message and a 16-byte tag.\<close>

definition gcm_ok :: "crates \<Rightarrow> bool" where
  "gcm_ok C = ((\<forall>k n a m. gcm_open C k n a (gcm_seal C k n a m) = Some m)
    \<and> (\<forall>k n a m. length (gcm_seal C k n a m) = length m + 16))"

section \<open>A concrete instance\<close>

definition demo_hex_byte :: "byte \<Rightarrow> string" where
  "demo_hex_byte b = [hex_digits ! (unat b div 16), hex_digits ! (unat b mod 16)]"

definition demo_hex_encode :: "bytes \<Rightarrow> string" where
  "demo_hex_encode bs = concat (map demo_hex_byte bs)"

fun demo_hex_decode :: "string \<Rightarrow> bytes option" where
  "demo_hex_decode [] = Some []"
| "demo_hex_decode [c] = None"
| "demo_hex_decode (c # d # s) =
     (case (position (\<lambda>x. x = c) hex_digits, position (\<lambda>x. x = d) hex_digits, demo_hex_decode s) of
        (Some i, Some j, Some bs) \<Rightarrow> Some (word_of_nat (16 * i + j) # bs)
      | _ \<Rightarrow> None)"

fun demo_hex_value :: "nat \<Rightarrow> string \<Rightarrow> nat option" where
  "demo_hex_value a [] = Some a"
| "demo_hex_value a (c # s) =
     (case position (\<lambda>x. x = c) hex_digits of
        None \<Rightarrow> None
      | Some i \<Rightarrow> demo_hex_value (16 * a + i) s)"

definition demo_felt_of_hex :: "string \<Rightarrow> felt option" where
  "demo_felt_of_hex s =
     (case demo_hex_value 0 (if take 2 s = ''0x'' then drop 2 s else s) of
        None \<Rightarrow> None
      | Some n \<Rightarrow> if n < STARK_PRIME then Some n else None)"

definition demo_mac :: "bytes \<Rightarrow> bytes \<Rightarrow> bytes \<Rightarrow> bytes" where
  "demo_mac k n a = be_bytes 16 (be_nat k + 3 * be_nat n + 5 * be_nat a)"

definition demo_crates :: crates where
  "demo_crates =
    \<lparr> felt_of_hex = demo_felt_of_hex,
      felt_to_hex = hex0x,
      hex_encode = demo_hex_encode,
      hex_decode = demo_hex_decode,
      poseidon_many = (\<lambda>xs. foldl (\<lambda>a x. (31 * a + x + 7) mod STARK_PRIME) 1 xs),
      poseidon_two = (\<lambda>a b. (31 * a + 37 * b + 3) mod STARK_PRIME),
      keccak256 = (\<lambda>b. replicate 31 0 @ [sum_list b]),
      sha3_256 = (\<lambda>b. be_bytes 32 (be_nat b * 263 + 13)),
      ec_order = STARK_PRIME - 2,
      ec_gen_x = (\<lambda>a. a mod STARK_PRIME),
      ec_shared_x = (\<lambda>k x. Some ((k mod STARK_PRIME) * x mod STARK_PRIME)),
      kem_ek = (\<lambda>seed. take 1184 (seed @ replicate 1184 0)),
      kem_encap = (\<lambda>ek m. if length m = 32 then Some (m @ replicate 1056 0, m) else None),
      kem_decap = (\<lambda>seed ct. take 32 ct),
      hkdf_extract = (\<lambda>salt ikm. be_bytes 32 (be_nat salt + be_nat ikm)),
      hkdf_expand = (\<lambda>prk info n. be_bytes n (be_nat prk + be_nat info)),
      gcm_seal = (\<lambda>k n a m. m @ demo_mac k n a),
      gcm_open = (\<lambda>k n a c. if 16 \<le> length c \<and> drop (length c - 16) c = demo_mac k n a
                            then Some (take (length c - 16) c) else None),
      argon2id = (\<lambda>pin salt p. Some (be_bytes 32 (be_nat pin + be_nat salt))),
      public_key = (\<lambda>k. k mod STARK_PRIME),
      ecdsa_sign = (\<lambda>k h. Some ((k + h) mod STARK_PRIME, (k + 2 * h) mod STARK_PRIME)) \<rparr>"

lemma position_hex_digits: "i < 16 \<Longrightarrow> position (\<lambda>x. x = hex_digits ! i) hex_digits = Some i"
proof -
  have "\<forall>i \<in> {..<16::nat}. position (\<lambda>x. x = hex_digits ! i) hex_digits = Some i"
    by (simp add: hex_digits_def lessThan_nat_numeral lessThan_Suc)
  then show "i < 16 \<Longrightarrow> ?thesis" by blast
qed

lemma demo_hex_round: "demo_hex_decode (demo_hex_encode bs) = Some bs"
proof (induction bs)
  case Nil
  then show ?case by (simp add: demo_hex_encode_def)
next
  case (Cons b bs)
  have "unat b div 16 < 16" using unat_byte_less [of b] by simp
  then show ?case
    using Cons position_hex_digits [of "unat b div 16"] position_hex_digits [of "unat b mod 16"]
    by (simp add: demo_hex_encode_def demo_hex_byte_def)
qed

lemma demo_hex_set: "set (demo_hex_encode bs) \<subseteq> set hex_digits"
proof -
  have len: "length hex_digits = 16" by (simp add: hex_digits_def)
  have "unat b div 16 < 16" for b :: byte using unat_byte_less [of b] by simp
  then show ?thesis
    by (auto simp: demo_hex_encode_def demo_hex_byte_def len intro!: nth_mem)
qed

lemma demo_hex_ok: "hex_ok demo_crates"
  by (simp add: hex_ok_def demo_crates_def demo_hex_round demo_hex_set)

lemma demo_hex_value_snoc:
  "demo_hex_value a (s @ [c]) =
     (case demo_hex_value a s of None \<Rightarrow> None
      | Some v \<Rightarrow> map_option (\<lambda>i. 16 * v + i) (position (\<lambda>x. x = c) hex_digits))"
  by (induction s arbitrary: a) (auto split: option.splits)

lemma demo_hex_value_nat: "demo_hex_value 0 (hex_nat n) = Some n"
proof (induction n rule: hex_nat.induct)
  case (1 n)
  show ?case
  proof (cases "n < 16")
    case True
    then show ?thesis by (simp add: hex_nat.simps [of n] position_hex_digits)
  next
    case False
    then show ?thesis
      using "1.IH" by (simp add: hex_nat.simps [of n] demo_hex_value_snoc position_hex_digits)
  qed
qed

lemma demo_felt_of_hex0x: "felt_ok n \<Longrightarrow> demo_felt_of_hex (hex0x n) = Some n"
  by (simp add: demo_felt_of_hex_def hex0x_def demo_hex_value_nat felt_ok_def)

lemma demo_felt_hex_ok: "felt_hex_ok demo_crates"
proof -
  have "demo_felt_of_hex s = Some f \<Longrightarrow> felt_ok f" for s f
    by (auto simp: demo_felt_of_hex_def felt_ok_def split: option.splits if_splits)
  then show ?thesis by (simp add: felt_hex_ok_def demo_crates_def demo_felt_of_hex0x)
qed

lemma STARK_PRIME_pos [simp]: "0 < STARK_PRIME"
  by (simp add: STARK_PRIME_def)

lemma demo_poseidon_ok: "poseidon_ok demo_crates"
proof -
  have "foldl (\<lambda>a x. (31 * a + x + 7) mod STARK_PRIME) 1 xs < STARK_PRIME" for xs
    by (induction xs rule: rev_induct) (simp_all add: STARK_PRIME_def)
  then show ?thesis by (simp add: poseidon_ok_def demo_crates_def felt_ok_def)
qed

lemma demo_ecdh_ok: "ecdh_ok demo_crates"
  by (simp add: ecdh_ok_def demo_crates_def felt_ok_def mult.commute mod_mult_right_eq)

lemma demo_kem_ok: "kem_ok demo_crates"
  by (auto simp: kem_ok_def demo_crates_def split: if_splits)

lemma demo_hkdf_ok: "hkdf_ok demo_crates"
  by (simp add: hkdf_ok_def demo_crates_def)

lemma demo_gcm_ok: "gcm_ok demo_crates"
  by (simp add: gcm_ok_def demo_crates_def demo_mac_def)

lemmas demo_ok = demo_hex_ok demo_felt_hex_ok demo_poseidon_ok demo_ecdh_ok demo_kem_ok
  demo_hkdf_ok demo_gcm_ok

end
