(* ===== verification/Serde.thy ===== *)
theory Serde
  imports Crates
begin

text \<open>
  Cairo calldata encodings: \<^verbatim>\<open>chain.rs\<close> (span and ByteArray serialization, its inverse,
  felts to \<^verbatim>\<open>u64\<close>), \<^verbatim>\<open>crypto.rs\<close> (\<open>bytearray_felts\<close>) and the short strings of
  \<^verbatim>\<open>invoke_v3.rs\<close> and \<^verbatim>\<open>app.rs\<close>. The two locales state what the clients of an encoding
  rely on: a decoder that inverts the encoder, and, for a frame followed by other data, one
  that also says how much it consumed.
\<close>

section \<open>Encodings as interfaces\<close>

locale wire_codec =
  fixes ok :: "'a \<Rightarrow> bool"
    and enc :: "'a \<Rightarrow> 'b"
    and dec :: "'b \<Rightarrow> 'a res"
  assumes dec_enc: "ok x \<Longrightarrow> dec (enc x) = Inr x"
begin

lemma enc_inj:
  assumes "ok x" and "ok y" and "enc x = enc y"
  shows "x = y"
proof -
  have "Inr x = dec (enc y)" using dec_enc [OF assms(1)] assms(3) by simp
  then show ?thesis using dec_enc [OF assms(2)] by simp
qed

lemma rmap_dec_enc: "(\<And>x. x \<in> set xs \<Longrightarrow> ok x) \<Longrightarrow> rmap dec (map enc xs) = Inr xs"
  by (induction xs) (auto simp: dec_enc)

end

locale framed_codec =
  fixes fok :: "'a \<Rightarrow> bool"
    and fenc :: "'a \<Rightarrow> 'b list"
    and fdec :: "'b list \<Rightarrow> ('a \<times> nat) res"
  assumes fdec_fenc: "fok x \<Longrightarrow> fdec (fenc x @ rest) = Inr (x, length (fenc x))"
begin

text \<open>The strict reader of a frame: trailing data is refused.\<close>

lemma strict_dec_enc:
  "fok x \<Longrightarrow> rbind (fdec (fenc x)) (\<lambda>(y, n). ensure (n = length (fenc x)) e (Inr y)) = Inr x"
  using fdec_fenc [of x "[]"] by simp

lemma frame_inj:
  assumes "fok x" and "fok y" and "fenc x @ r = fenc y @ s"
  shows "x = y \<and> r = s"
proof -
  have "Inr (x, length (fenc x)) = fdec (fenc y @ s)"
    using fdec_fenc [OF assms(1), of r] assms(3) by simp
  then have "x = y" using fdec_fenc [OF assms(2), of s] by simp
  then show ?thesis using assms(3) by simp
qed

end

sublocale framed_codec \<subseteq> strict: wire_codec fok fenc "\<lambda>d. rbind (fdec d) (\<lambda>(y, n). ensure (n = length d) (Decode BadShape) (Inr y))"
  by unfold_locales (rule strict_dec_enc)

section \<open>Numbers\<close>

text \<open>\<^verbatim>\<open>chain::felt_to_u64\<close>: the top 24 bytes must be zero.\<close>

definition felt_to_u64 :: "felt \<Rightarrow> nat res" where
  "felt_to_u64 f =
     (let bytes = felt_to_be f
      in if \<exists>b \<in> set (take 24 bytes). b \<noteq> 0 then Inl (Decode NotU64)
         else Inr (be_nat (drop 24 bytes)))"

text \<open>\<^verbatim>\<open>u32::try_from\<close> of a \<^verbatim>\<open>u64\<close>.\<close>

definition to_u32 :: "nat \<Rightarrow> nat res" where
  "to_u32 n = (if n < 2 ^ 32 then Inr n else Inl (Decode NotU32))"

lemma all_zero_replicate: "(\<forall>b \<in> set bs. b = (0 :: byte)) \<longleftrightarrow> bs = replicate (length bs) 0"
  by (metis in_set_replicate replicate_length_same)

lemma felt_to_be_split:
  "felt_ok f \<Longrightarrow> be_nat (take 24 (felt_to_be f)) * 256 ^ 8 + be_nat (drop 24 (felt_to_be f)) = f"
proof -
  assume f: "felt_ok f"
  have "be_nat (take 24 (felt_to_be f) @ drop 24 (felt_to_be f)) = f"
    using f STARK_PRIME_lt_256 by (simp add: felt_to_be_def be_nat_be_bytes felt_ok_def)
  then show ?thesis by (simp only: be_nat_append) simp
qed

lemma be_nat_eq_0: "be_nat bs = 0 \<Longrightarrow> b \<in> set bs \<Longrightarrow> b = 0"
proof -
  assume a: "be_nat bs = 0" and b: "b \<in> set bs"
  have "bs = replicate (length bs) 0"
    using a by (intro be_nat_inj) auto
  with b show ?thesis by (metis in_set_replicate)
qed

lemma felt_to_u64_eq:
  assumes "felt_ok f"
  shows "felt_to_u64 f = (if f < 2 ^ 64 then Inr f else Inl (Decode NotU64))"
proof (cases "\<exists>b \<in> set (take 24 (felt_to_be f)). b \<noteq> 0")
  case True
  then have "0 < be_nat (take 24 (felt_to_be f))" using be_nat_eq_0 by blast
  then have "1 * 256 ^ 8 \<le> be_nat (take 24 (felt_to_be f)) * 256 ^ 8" by (intro mult_right_mono) auto
  with felt_to_be_split [OF assms] have "\<not> f < 2 ^ 64" by simp
  with True show ?thesis by (simp add: felt_to_u64_def Let_def)
next
  case False
  then have "take 24 (felt_to_be f) = replicate 24 0"
    using all_zero_replicate [of "take 24 (felt_to_be f)"] by simp
  then have "f = be_nat (drop 24 (felt_to_be f))"
    using felt_to_be_split [OF assms] by simp
  moreover have "be_nat (drop 24 (felt_to_be f)) < 2 ^ 64"
    using be_nat_less [of "drop 24 (felt_to_be f)"] by simp
  ultimately show ?thesis using False by (simp add: felt_to_u64_def Let_def)
qed

lemma small_felt_ok: "n < 2 ^ 128 \<Longrightarrow> felt_ok n"
  by (simp add: felt_ok_def STARK_PRIME_def)

lemma u64_felt_ok: "n < 2 ^ 64 \<Longrightarrow> felt_ok n"
  by (simp add: felt_ok_def STARK_PRIME_def)

interpretation u64: wire_codec "\<lambda>n. n < 2 ^ 64" "\<lambda>n. n" felt_to_u64
  by unfold_locales (simp add: felt_to_u64_eq u64_felt_ok)

text \<open>\<^verbatim>\<open>Felt::from_hex\<close> as the event readers call it.\<close>

definition felt_from_hex :: "crates \<Rightarrow> string \<Rightarrow> felt res" where
  "felt_from_hex C s = of_opt (Decode BadHex) (felt_of_hex C s)"

lemma felt_from_hex_print [simp]: "felt_hex_ok C \<Longrightarrow> felt_ok f \<Longrightarrow> felt_from_hex C (felt_to_hex C f) = Inr f"
  by (simp add: felt_hex_ok_def felt_from_hex_def)

section \<open>ByteArray\<close>

text \<open>\<^verbatim>\<open>slice::chunks\<close> on a slice whose length is a multiple of the chunk size (or shorter).\<close>

function chunks :: "nat \<Rightarrow> 'a list \<Rightarrow> 'a list list" where
  "chunks n xs = (if xs = [] \<or> n = 0 then [] else take n xs # chunks n (drop n xs))"
  by pat_completeness auto
termination
  by (relation "measure (\<lambda>(n, xs). length xs)") auto

declare chunks.simps [simp del]

lemma chunks_Nil [simp]: "chunks n [] = []"
  by (simp add: chunks.simps)

lemma chunks_step: "0 < n \<Longrightarrow> xs \<noteq> [] \<Longrightarrow> chunks n xs = take n xs # chunks n (drop n xs)"
  by (simp add: chunks.simps [of n xs])

lemma chunks_concat: "0 < n \<Longrightarrow> concat (chunks n xs) = xs"
proof (induction n xs rule: chunks.induct)
  case (1 n xs)
  then show ?case by (cases "xs = []") (simp_all add: chunks_step)
qed

lemma chunks_lengths: "0 < n \<Longrightarrow> n dvd length xs \<Longrightarrow> c \<in> set (chunks n xs) \<Longrightarrow> length c = n"
proof (induction n xs rule: chunks.induct)
  case (1 n xs)
  show ?case
  proof (cases "xs = []")
    case True
    then show ?thesis using "1.prems" by simp
  next
    case False
    then have "n \<le> length xs" using "1.prems" by (simp add: dvd_imp_le)
    then show ?thesis
      using "1.IH" "1.prems" False
      by (auto simp: chunks_step dvd_diff_nat)
  qed
qed

lemma chunks_count: "0 < n \<Longrightarrow> n dvd length xs \<Longrightarrow> length (chunks n xs) = length xs div n"
proof (induction n xs rule: chunks.induct)
  case (1 n xs)
  show ?case
  proof (cases "xs = []")
    case True
    then show ?thesis by simp
  next
    case False
    then have le: "n \<le> length xs" using "1.prems" by (simp add: dvd_imp_le)
    then show ?thesis
      using "1.IH" "1.prems" False le_div_geq [of n "length xs"]
      by (simp add: chunks_step dvd_diff_nat)
  qed
qed

text \<open>\<^verbatim>\<open>chain::felt_from_be_bytes\<close>: right aligned in a 32-byte buffer; more than 32 bytes
  underflow the slice index.\<close>

definition felt_from_be_bytes :: "bytes \<Rightarrow> felt res" where
  "felt_from_be_bytes bs =
     (if length bs \<le> 32 then Inr (felt_from_be (replicate (32 - length bs) 0 @ bs)) else Inl Panic)"

text \<open>\<^verbatim>\<open>crypto::bytearray_felts\<close>.\<close>

definition bytearray_felts :: "bytes \<Rightarrow> felt list" where
  "bytearray_felts bs =
     (let full_words = length bs div 31;
          pending = drop (full_words * 31) bs
      in full_words # map felt_from_be (chunks 31 (take (full_words * 31) bs))
           @ [felt_from_be pending, length pending])"

text \<open>\<^verbatim>\<open>chain::bytearray_calldata\<close>: the same layout, each felt printed.\<close>

definition bytearray_calldata :: "crates \<Rightarrow> bytes \<Rightarrow> string list res" where
  "bytearray_calldata C bs =
     (let full_words = length bs div 31;
          pending = drop (full_words * 31) bs
      in rbind (rmap felt_from_be_bytes (chunks 31 (take (full_words * 31) bs))) (\<lambda>words.
         rbind (felt_from_be_bytes pending) (\<lambda>p.
         Inr (hex0x full_words # map (felt_to_hex C) words @ [felt_to_hex C p, hex0x (length pending)]))))"

text \<open>\<^verbatim>\<open>chain::span_calldata\<close>.\<close>

definition span_calldata :: "crates \<Rightarrow> felt list \<Rightarrow> string list" where
  "span_calldata C items = felt_to_hex C (length items) # map (felt_to_hex C) items"

text \<open>\<^verbatim>\<open>chain::bytearray_decode\<close>. \<open>n_words + 3\<close> is \<^verbatim>\<open>usize\<close> arithmetic, and the pending
  word is sliced from \<open>32 - pending_len\<close>.\<close>

definition bytearray_decode :: "felt list \<Rightarrow> (bytes \<times> nat) res" where
  "bytearray_decode data =
     rbind (of_opt (Decode TooShort) (case data of [] \<Rightarrow> None | d # _ \<Rightarrow> Some d)) (\<lambda>d0.
     rbind (felt_to_u64 d0) (\<lambda>n_words.
     ensure (n_words + 3 < 2 ^ 64) Panic (
     ensure (n_words + 3 \<le> length data) (Decode TooShort) (
     let bytes = concat (map (\<lambda>w. drop 1 (felt_to_be w)) (take n_words (drop 1 data)))
     in rbind (felt_to_u64 (data ! (1 + n_words + 1))) (\<lambda>pending_len.
        let pending = felt_to_be (data ! (1 + n_words))
        in ensure (pending_len \<le> 32) Panic (
           Inr (bytes @ drop (32 - pending_len) pending, 1 + n_words + 2)))))))"

lemma felt_to_be_from_be:
  assumes "length bs \<le> 31"
  shows "felt_to_be (felt_from_be bs) = replicate (32 - length bs) 0 @ bs"
proof -
  have "felt_to_be (felt_from_be bs) = be_bytes (length bs + (32 - length bs)) (be_nat bs)"
    using assms by (simp add: felt_to_be_def felt_from_be_small)
  also have "\<dots> = replicate (32 - length bs) 0 @ bs"
    by (subst be_bytes_pad) (auto simp: be_nat_less be_bytes_be_nat)
  finally show ?thesis .
qed

lemma felt_from_be_bytes_small: "length bs \<le> 31 \<Longrightarrow> felt_from_be_bytes bs = Inr (felt_from_be bs)"
  by (simp add: felt_from_be_bytes_def felt_from_be_def)

lemma length_full_words: "length (take (length bs div 31 * 31) bs) = length bs div 31 * 31"
  by (simp add: div_times_less_eq_dividend min_absorb2)

lemma full_words_dvd: "31 dvd length (take (length bs div 31 * 31) bs)"
  by (simp only: length_full_words dvd_triv_right)

lemma full_words_count: "length (chunks 31 (take (length bs div 31 * 31) bs)) = length bs div 31"
  using chunks_count [OF _ full_words_dvd, of bs] by (simp only: length_full_words)

lemma pending_length: "length (drop (length bs div 31 * 31) bs) < 31"
proof -
  have "length bs - length bs div 31 * 31 = length bs mod 31"
    by (rule minus_div_mult_eq_mod)
  then show ?thesis by simp
qed

lemma length_bytearray_felts: "length (bytearray_felts bs) = length bs div 31 + 3"
  by (simp add: bytearray_felts_def Let_def full_words_count)

lemma chunk_words:
  assumes "\<forall>c \<in> set cs. length c = 31"
  shows "concat (map (\<lambda>w. drop 1 (felt_to_be w)) (map felt_from_be cs)) = concat cs"
  using assms by (induction cs) (auto simp: felt_to_be_from_be)

lemma chunk_full_words: "\<forall>c \<in> set (chunks 31 (take (length bs div 31 * 31) bs)). length c = 31"
  by (intro ballI chunks_lengths [OF _ full_words_dvd]) simp_all

lemma chunk_full_concat: "concat (chunks 31 (take (length bs div 31 * 31) bs)) = take (length bs div 31 * 31) bs"
  by (rule chunks_concat) simp

lemma bytearray_decode_felts:
  assumes "length bs < 2 ^ 64"
  shows "bytearray_decode (bytearray_felts bs @ rest) = Inr (bs, length (bytearray_felts bs))"
proof -
  define w where "w = length bs div 31"
  define cs where "cs = chunks 31 (take (w * 31) bs)"
  define p where "p = drop (w * 31) bs"
  have w64: "w + 3 < 2 ^ 64" using assms by (simp add: w_def)
  have lcs: "length cs = w"
    unfolding cs_def w_def by (rule full_words_count)
  have p31: "length p < 31"
    unfolding p_def w_def by (rule pending_length)
  have enc: "bytearray_felts bs = w # map felt_from_be cs @ [felt_from_be p, length p]"
    by (simp add: bytearray_felts_def Let_def w_def cs_def p_def)
  have words: "concat (map (\<lambda>x. drop 1 (felt_to_be x)) (map felt_from_be cs)) = take (w * 31) bs"
    unfolding cs_def w_def by (simp only: chunk_words [OF chunk_full_words] chunk_full_concat)
  have "felt_to_u64 w = Inr w" using w64 by (simp add: felt_to_u64_eq u64_felt_ok)
  moreover have "felt_to_u64 (length p) = Inr (length p)"
    using p31 by (simp add: felt_to_u64_eq u64_felt_ok)
  moreover have "drop (32 - length p) (felt_to_be (felt_from_be p)) = p"
    using p31 by (simp add: felt_to_be_from_be)
  moreover have "take (w * 31) bs @ p = bs" by (simp add: p_def)
  ultimately show ?thesis
    using w64 p31 words lcs
    by (simp add: enc bytearray_decode_def Let_def nth_append del: map_map)
qed

interpretation bytearray: framed_codec "\<lambda>bs :: bytes. length bs < 2 ^ 64" bytearray_felts bytearray_decode
  by unfold_locales (rule bytearray_decode_felts)

lemma bytearray_felts_ok: "length bs < 2 ^ 64 \<Longrightarrow> f \<in> set (bytearray_felts bs) \<Longrightarrow> felt_ok f"
  by (auto simp: bytearray_felts_def Let_def intro: u64_felt_ok)

text \<open>The printed form is the felt form, printed: parsing it back gives \<open>bytearray_felts\<close>.\<close>

lemma bytearray_calldata_eq:
  assumes w: "w = length bs div 31"
  shows "bytearray_calldata C bs =
     Inr (hex0x w # map (felt_to_hex C) (map felt_from_be (chunks 31 (take (w * 31) bs)))
            @ [felt_to_hex C (felt_from_be (drop (w * 31) bs)), hex0x (length (drop (w * 31) bs))])"
proof -
  have cs: "rmap felt_from_be_bytes (chunks 31 (take (w * 31) bs))
      = Inr (map felt_from_be (chunks 31 (take (w * 31) bs)))"
    unfolding w by (rule rmap_Inr_map, rule felt_from_be_bytes_small)
      (drule chunk_full_words [rule_format], simp)
  have p: "felt_from_be_bytes (drop (w * 31) bs) = Inr (felt_from_be (drop (w * 31) bs))"
    unfolding w by (rule felt_from_be_bytes_small, rule less_imp_le, rule pending_length)
  show ?thesis
    unfolding bytearray_calldata_def Let_def w [symmetric]
    by (simp only: cs p rbind_simps)
qed

lemma rmap_append: "rmap f (xs @ ys) = rbind (rmap f xs) (\<lambda>a. rbind (rmap f ys) (\<lambda>b. Inr (a @ b)))"
proof (induction xs)
  case Nil
  then show ?case by (cases "rmap f ys") auto
next
  case (Cons x xs)
  then show ?case by (cases "f x"; cases "rmap f xs"; cases "rmap f ys") auto
qed

lemma rmap_felt_hex:
  "felt_hex_ok C \<Longrightarrow> (\<And>f. f \<in> set fs \<Longrightarrow> felt_ok f) \<Longrightarrow>
     rmap (\<lambda>s. of_opt e (felt_of_hex C s)) (map (felt_to_hex C) fs) = Inr fs"
  by (induction fs) (auto simp: felt_hex_ok_def)

lemma bytearray_calldata_parses:
  assumes C: "felt_hex_ok C" and len: "length bs < 2 ^ 64"
  shows "rbind (bytearray_calldata C bs) (rmap (\<lambda>s. of_opt e (felt_of_hex C s))) = Inr (bytearray_felts bs)"
proof -
  define w where "w = length bs div 31"
  define p where "p = drop (w * 31) bs"
  have h: "felt_of_hex C (hex0x n) = Some n" if "n < 2 ^ 64" for n
    using C u64_felt_ok [OF that] by (simp add: felt_hex_ok_def)
  have f: "felt_of_hex C (felt_to_hex C (felt_from_be b)) = Some (felt_from_be b)" for b
    using C by (simp add: felt_hex_ok_def)
  have cs: "rmap (\<lambda>s. of_opt e (felt_of_hex C s)) (map (felt_to_hex C) (map felt_from_be cs)) = Inr (map felt_from_be cs)" for cs
    by (rule rmap_felt_hex [OF C]) auto
  have w64: "w < 2 ^ 64" and p64: "length p < 2 ^ 64"
    using len by (simp_all add: w_def p_def)
  have lhs: "bytearray_calldata C bs = Inr (hex0x w # map (felt_to_hex C) (map felt_from_be (chunks 31 (take (w * 31) bs)))
            @ [felt_to_hex C (felt_from_be p), hex0x (length p)])"
    unfolding p_def by (rule bytearray_calldata_eq) (rule w_def)
  have rhs: "bytearray_felts bs = w # map felt_from_be (chunks 31 (take (w * 31) bs)) @ [felt_from_be p, length p]"
    unfolding bytearray_felts_def Let_def w_def [symmetric] p_def [symmetric] ..
  show ?thesis
    unfolding lhs rhs rbind_simps
    by (simp add: rmap_append cs h [OF w64] h [OF p64] f del: map_map)
qed

section \<open>Short strings\<close>

definition ascii :: "string \<Rightarrow> bool" where
  "ascii s = (\<forall>c \<in> set s. (of_char c :: nat) < 128)"

definition bytes_str :: "bytes \<Rightarrow> string" where
  "bytes_str bs = map (\<lambda>b. char_of (unat b)) bs"

text \<open>\<^verbatim>\<open>app::short_string_felt\<close>.\<close>

definition short_string_felt :: "string \<Rightarrow> felt res" where
  "short_string_felt s =
     ensure (length s \<le> 31 \<and> ascii s) (Decode NotAscii)
       (Inr (felt_from_be (replicate (32 - length s) 0 @ str_bytes s)))"

text \<open>\<^verbatim>\<open>invoke_v3::short_string\<close> asserts instead.\<close>

definition short_string :: "string \<Rightarrow> felt res" where
  "short_string s =
     ensure (length s \<le> 31 \<and> ascii s) Panic
       (Inr (felt_from_be (replicate (32 - length s) 0 @ str_bytes s)))"

text \<open>\<^verbatim>\<open>invoke_v3::short_string_text\<close>.\<close>

definition short_string_text :: "felt \<Rightarrow> string res" where
  "short_string_text f =
     (let text = bytes_str (dropWhile (\<lambda>b. b = 0) (felt_to_be f))
      in ensure (ascii text) (Decode NotAscii) (Inr text))"

lemma bytes_str_bytes [simp]: "bytes_str (str_bytes s) = s"
proof -
  have "char_of (unat (of_char c :: byte)) = c" for c :: char
  proof -
    have "unat (of_char c :: byte) = (of_char c :: nat)"
      by (metis of_char_mod_256 of_nat_of_char unat_of_nat_byte)
    then show ?thesis by simp
  qed
  then show ?thesis by (simp add: bytes_str_def str_bytes_def o_def map_idI)
qed

lemma felt_from_be_zeros: "felt_from_be (replicate n 0 @ bs) = felt_from_be bs"
  by (simp add: felt_from_be_def)

definition short_ok :: "string \<Rightarrow> bool" where
  "short_ok s = (length s \<le> 31 \<and> ascii s \<and> (s \<noteq> [] \<longrightarrow> hd s \<noteq> CHR 0x00))"

lemma of_char_0: "(of_char c :: byte) = 0 \<longleftrightarrow> c = CHR 0x00"
proof
  assume "(of_char c :: byte) = 0"
  then have "bytes_str (str_bytes [c]) = bytes_str [0]" by (simp add: str_bytes_def)
  then have "[c] = bytes_str [0]" by (simp only: bytes_str_bytes)
  then show "c = CHR 0x00" by (simp add: bytes_str_def char_of_def)
qed simp

lemma short_string_text_felt:
  assumes "short_ok s"
  shows "short_string_text (felt_from_be (replicate (32 - length s) 0 @ str_bytes s)) = Inr s"
proof -
  have "dropWhile (\<lambda>b. b = 0) (str_bytes s) = str_bytes s"
    using assms by (cases s) (auto simp: short_ok_def str_bytes_def of_char_0)
  then have "dropWhile (\<lambda>b. b = 0) (replicate n 0 @ str_bytes s) = str_bytes s" for n
    by (induction n) auto
  then show ?thesis
    using assms
    by (simp add: short_ok_def short_string_text_def felt_from_be_zeros felt_to_be_from_be
        Let_def)
qed

lemma short_string_Inr: "short_ok s \<Longrightarrow> short_string s = Inr (felt_from_be (str_bytes s))"
  by (simp add: short_string_def short_ok_def felt_from_be_zeros)

interpretation shortstr: wire_codec short_ok "\<lambda>s. felt_from_be (replicate (32 - length s) 0 @ str_bytes s)" short_string_text
  by unfold_locales (rule short_string_text_felt)

lemma short_string_felt_inj:
  assumes "short_ok s" and "short_ok t" and "short_string_felt s = short_string_felt t"
  shows "s = t"
  using shortstr.enc_inj [OF assms(1,2)] assms by (simp add: short_string_felt_def short_ok_def)

section \<open>Properties\<close>

text \<open>A byte string serialized as a Cairo ByteArray, printed as calldata and parsed back, is
  the felt serialization that is hashed, and decoding that (whatever data follows it) gives the
  byte string and exactly the felts consumed.\<close>

theorem bytearray_roundtrip:
  assumes "felt_hex_ok C" and "length bs < 2 ^ 64"
  shows "\<exists>cd. bytearray_calldata C bs = Inr cd \<and> rmap (felt_from_hex C) cd = Inr (bytearray_felts bs)
     \<and> bytearray_decode (bytearray_felts bs @ rest) = Inr (bs, length bs div 31 + 3)"
proof -
  obtain cd where cd: "bytearray_calldata C bs = Inr cd"
    using bytearray_calldata_eq [OF refl, of C bs] by blast
  moreover have "rmap (felt_from_hex C) cd = Inr (bytearray_felts bs)"
    using bytearray_calldata_parses [OF assms, of "Decode BadHex"] cd by (simp add: felt_from_hex_def [abs_def])
  moreover have "bytearray_decode (bytearray_felts bs @ rest) = Inr (bs, length bs div 31 + 3)"
    using bytearray.fdec_fenc [OF assms(2), of rest] by (simp add: length_bytearray_felts)
  ultimately show ?thesis by blast
qed

theorem bytearray_roundtrip_witness:
  "\<exists>cd. bytearray_calldata demo_crates (replicate 40 7) = Inr cd
     \<and> bytearray_decode (bytearray_felts (replicate 40 7) @ [9]) = Inr (replicate 40 7, 4)"
  using bytearray_roundtrip [OF demo_felt_hex_ok, of "replicate 40 7" "[9]"] by auto

text \<open>When \<open>bytearray_decode\<close> aborts the process instead of returning an error: exactly when
  the claimed word count is within 3 of \<open>2 ^ 64\<close>, or the array is long enough and the claimed
  length of the pending word is a number above 32.\<close>

theorem bytearray_decode_panics:
  assumes "\<forall>f \<in> set data. felt_ok f"
  shows "bytearray_decode data = Inl Panic \<longleftrightarrow>
     data \<noteq> [] \<and> hd data < 2 ^ 64 \<and> (2 ^ 64 \<le> hd data + 3
        \<or> hd data + 3 \<le> length data \<and> 32 < data ! (hd data + 2) \<and> data ! (hd data + 2) < 2 ^ 64)"
proof (cases data)
  case Nil
  then show ?thesis by (simp add: bytearray_decode_def)
next
  case (Cons d ds)
  then have d: "felt_to_u64 d = (if d < 2 ^ 64 then Inr d else Inl (Decode NotU64))"
    using assms by (simp add: felt_to_u64_eq)
  have l: "felt_to_u64 (data ! (d + 2)) = (if data ! (d + 2) < 2 ^ 64 then Inr (data ! (d + 2)) else Inl (Decode NotU64))"
    if "d + 3 \<le> length data"
    using assms that by (intro felt_to_u64_eq) simp
  show ?thesis
  proof (cases "d < 2 ^ 64 \<and> d + 3 < 2 ^ 64 \<and> d + 3 \<le> length data")
    case True
    then have "bytearray_decode data = rbind (felt_to_u64 (data ! (d + 2))) (\<lambda>pending_len. ensure (pending_len \<le> 32) Panic
        (Inr (concat (map (\<lambda>w. drop 1 (felt_to_be w)) (take d (drop 1 data))) @ drop (32 - pending_len) (felt_to_be (data ! (1 + d))), 1 + d + 2)))"
      using Cons d by (simp add: bytearray_decode_def Let_def)
    then show ?thesis using l True Cons by (auto simp: ensure_def)
  next
    case False
    then show ?thesis using Cons d by (auto simp: bytearray_decode_def Let_def ensure_def)
  qed
qed

theorem bytearray_decode_panics_witness: "bytearray_decode [0, 0, 33] = Inl Panic"
proof -
  have "\<forall>f \<in> set [0, 0, 33 :: nat]. felt_ok f" by (simp add: felt_ok_def STARK_PRIME_def)
  from bytearray_decode_panics [OF this] show ?thesis by simp
qed

end
