(* ===== verification/Tree.thy ===== *)
theory Tree
  imports Crates
begin

text \<open>
  \<^verbatim>\<open>core/src/tree.rs\<close>: the depth-20 incremental Poseidon tree. \<open>spec_node\<close> is the
  specification (the root of the subtree above a range of the leaf list, missing leaves zero),
  \<open>mt_ok\<close> relates the sparse node store to it, and the locale \<open>accumulator\<close> is what the
  registry and the ticket tree rely on.
\<close>

section \<open>The interface\<close>

fun insert_all :: "('t \<Rightarrow> 'x \<Rightarrow> (nat \<times> 't) res) \<Rightarrow> 't \<Rightarrow> 'x list \<Rightarrow> 't res" where
  "insert_all ins t [] = Inr t"
| "insert_all ins t (x # xs) = rbind (ins t x) (\<lambda>(_, t'). insert_all ins t' xs)"

locale accumulator =
  fixes acc_ok :: "'t \<Rightarrow> 'x list \<Rightarrow> bool"
    and acc_new :: "'t"
    and acc_insert :: "'t \<Rightarrow> 'x \<Rightarrow> (nat \<times> 't) res"
    and acc_root :: "'t \<Rightarrow> 'd"
    and acc_path :: "'t \<Rightarrow> nat \<Rightarrow> 'p"
    and acc_fold :: "'x \<Rightarrow> nat \<Rightarrow> 'p \<Rightarrow> 'd res"
    and acc_cap :: nat
  assumes ok_new: "acc_ok acc_new []"
    and ok_insert: "acc_ok t xs \<Longrightarrow> length xs < acc_cap \<Longrightarrow>
      \<exists>t'. acc_insert t x = Inr (length xs, t') \<and> acc_ok t' (xs @ [x])"
    and insert_full: "acc_ok t xs \<Longrightarrow> \<not> length xs < acc_cap \<Longrightarrow> acc_insert t x = Inl Panic"
    and root_det: "acc_ok t xs \<Longrightarrow> acc_ok t' xs \<Longrightarrow> acc_root t = acc_root t'"
    and member_proof: "acc_ok t xs \<Longrightarrow> length xs \<le> acc_cap \<Longrightarrow> i < length xs \<Longrightarrow>
      acc_fold (xs ! i) i (acc_path t i) = Inr (acc_root t)"
begin

lemma insert_all_ok:
  "acc_ok t ys \<Longrightarrow> length ys + length xs \<le> acc_cap \<Longrightarrow>
     \<exists>t'. insert_all acc_insert t xs = Inr t' \<and> acc_ok t' (ys @ xs)"
proof (induction xs arbitrary: t ys)
  case Nil
  then show ?case by simp
next
  case (Cons x xs)
  from Cons.prems obtain t1 where "acc_insert t x = Inr (length ys, t1)" and "acc_ok t1 (ys @ [x])"
    using ok_insert [of t ys x] by auto
  with Cons.IH [of t1 "ys @ [x]"] Cons.prems show ?case by simp
qed

lemma build_ok:
  "length xs \<le> acc_cap \<Longrightarrow> \<exists>t. insert_all acc_insert acc_new xs = Inr t \<and> acc_ok t xs"
  using insert_all_ok [OF ok_new] by simp

lemma build_proves:
  assumes "insert_all acc_insert acc_new xs = Inr t" and "length xs \<le> acc_cap" and "i < length xs"
  shows "acc_fold (xs ! i) i (acc_path t i) = Inr (acc_root t)"
  using build_ok [OF assms(2)] assms member_proof by auto

end

section \<open>The tree\<close>

definition TREE_DEPTH :: nat where
  "TREE_DEPTH = 20"

definition hash_pair :: "crates \<Rightarrow> felt \<Rightarrow> felt \<Rightarrow> felt" where
  "hash_pair C l r = poseidon_many C [l, r]"

record merkle_tree =
  nodes :: "nat \<times> nat \<Rightarrow> felt option"
  next_leaf :: nat
  zeros :: "felt list"

text \<open>The \<open>zeros\<close> vector as \<open>new\<close> fills it: level \<open>l\<close> from level \<open>l - 1\<close>.\<close>

fun zeros_upto :: "crates \<Rightarrow> nat \<Rightarrow> felt list" where
  "zeros_upto C 0 = [0]"
| "zeros_upto C (Suc n) = (let z = zeros_upto C n in z @ [hash_pair C (z ! n) (z ! n)])"

definition mt_new :: "crates \<Rightarrow> merkle_tree" where
  "mt_new C = \<lparr>nodes = Map.empty, next_leaf = 0, zeros = zeros_upto C TREE_DEPTH\<rparr>"

definition node :: "merkle_tree \<Rightarrow> nat \<Rightarrow> nat \<Rightarrow> felt" where
  "node t level index = (case nodes t (level, index) of Some v \<Rightarrow> v | None \<Rightarrow> zeros t ! level)"

definition sibling :: "nat \<Rightarrow> nat" where
  "sibling index = (if index mod 2 = 0 then index + 1 else index - 1)"

text \<open>The loop of \<open>insert\<close> over the levels from \<open>level\<close>, \<open>k\<close> of them left.\<close>

fun climb :: "crates \<Rightarrow> nat \<Rightarrow> nat \<Rightarrow> nat \<Rightarrow> felt \<Rightarrow> merkle_tree \<Rightarrow> merkle_tree" where
  "climb C 0 level index current t = t"
| "climb C (Suc k) level index current t =
     (let sib = node t level (sibling index);
          current' = (if index mod 2 = 0 then hash_pair C current sib else hash_pair C sib current);
          index' = index div 2
      in climb C k (Suc level) index' current' (t\<lparr>nodes := (nodes t)((level + 1, index') \<mapsto> current')\<rparr>))"

definition mt_insert :: "crates \<Rightarrow> merkle_tree \<Rightarrow> felt \<Rightarrow> (nat \<times> merkle_tree) res" where
  "mt_insert C t leaf =
     (let leaf_index = next_leaf t
      in ensure (leaf_index < 2 ^ TREE_DEPTH) Panic
           (let t0 = t\<lparr>nodes := (nodes t)((0, leaf_index) \<mapsto> leaf)\<rparr>;
                t1 = climb C TREE_DEPTH 0 leaf_index leaf t0
            in Inr (leaf_index, t1\<lparr>next_leaf := leaf_index + 1\<rparr>)))"

definition mt_root :: "merkle_tree \<Rightarrow> felt" where
  "mt_root t = node t TREE_DEPTH 0"

fun path_from :: "merkle_tree \<Rightarrow> nat \<Rightarrow> nat \<Rightarrow> nat \<Rightarrow> felt list" where
  "path_from t 0 level index = []"
| "path_from t (Suc k) level index = node t level (sibling index) # path_from t k (Suc level) (index div 2)"

definition mt_path :: "merkle_tree \<Rightarrow> nat \<Rightarrow> felt list" where
  "mt_path t leaf_index = path_from t TREE_DEPTH 0 leaf_index"

fun fold_from :: "crates \<Rightarrow> felt \<Rightarrow> nat \<Rightarrow> felt list \<Rightarrow> felt" where
  "fold_from C current index [] = current"
| "fold_from C current index (s # ss) =
     fold_from C (if index mod 2 = 0 then hash_pair C current s else hash_pair C s current) (index div 2) ss"

definition fold_path :: "crates \<Rightarrow> felt \<Rightarrow> nat \<Rightarrow> felt list \<Rightarrow> felt res" where
  "fold_path C leaf leaf_index path =
     ensure (length path = TREE_DEPTH) Panic (Inr (fold_from C leaf leaf_index path))"

section \<open>Specification\<close>

fun spec_node :: "crates \<Rightarrow> felt list \<Rightarrow> nat \<Rightarrow> nat \<Rightarrow> felt" where
  "spec_node C xs 0 i = (if i < length xs then xs ! i else 0)"
| "spec_node C xs (Suc l) i = hash_pair C (spec_node C xs l (2 * i)) (spec_node C xs l (2 * i + 1))"

definition mt_ok :: "crates \<Rightarrow> merkle_tree \<Rightarrow> felt list \<Rightarrow> bool" where
  "mt_ok C t xs = (next_leaf t = length xs \<and> (\<forall>l \<le> TREE_DEPTH. \<forall>i. node t l i = spec_node C xs l i))"

lemma length_zeros_upto [simp]: "length (zeros_upto C n) = Suc n"
  by (induction n) (auto simp: Let_def)

lemma zeros_upto_nth: "l \<le> n \<Longrightarrow> zeros_upto C n ! l = spec_node C [] l i"
proof (induction n arbitrary: l i)
  case 0
  then show ?case by simp
next
  case (Suc n)
  show ?case
  proof (cases "l = Suc n")
    case True
    then show ?thesis
      using Suc.IH [of n "2 * i"] Suc.IH [of n "2 * i + 1"] by (simp add: Let_def nth_append)
  next
    case False
    then show ?thesis using Suc by (simp add: Let_def nth_append)
  qed
qed

lemma mt_new_ok: "mt_ok C (mt_new C) []"
  using zeros_upto_nth [of _ TREE_DEPTH C]
  by (simp add: mt_ok_def mt_new_def node_def)

lemma spec_node_snoc:
  "i \<noteq> length xs div 2 ^ l \<Longrightarrow> spec_node C (xs @ [x]) l i = spec_node C xs l i"
proof (induction l arbitrary: i)
  case 0
  then show ?case by (auto simp: nth_append)
next
  case (Suc l)
  have d: "length xs div 2 ^ Suc l = (length xs div 2 ^ l) div 2"
    by (simp add: div_mult2_eq [symmetric] mult.commute)
  have "2 * i \<noteq> length xs div 2 ^ l" and "2 * i + 1 \<noteq> length xs div 2 ^ l"
    using Suc.prems unfolding d by auto
  with Suc.IH show ?case by simp
qed

lemma hash_step:
  "(if i mod 2 = 0 then hash_pair C (spec_node C xs l i) (spec_node C xs l (sibling i))
    else hash_pair C (spec_node C xs l (sibling i)) (spec_node C xs l i))
   = spec_node C xs (Suc l) (i div 2)"
proof (cases "i mod 2 = 0")
  case True
  then have "2 * (i div 2) = i" by presburger
  with True show ?thesis by (simp add: sibling_def)
next
  case False
  then have "2 * (i div 2) = i - 1" and "Suc (i - 1) = i" by presburger+
  with False show ?thesis by (simp add: sibling_def)
qed

lemma climb_next_leaf [simp]: "next_leaf (climb C k l i c t) = next_leaf t"
  by (induction k arbitrary: l i c t) (auto simp: Let_def)

lemma node_upd [simp]:
  "node (t\<lparr>nodes := (nodes t)(k \<mapsto> v)\<rparr>) l i = (if (l, i) = k then v else node t l i)"
  by (simp add: node_def split: option.split)

lemma node_next_leaf [simp]: "node (t\<lparr>next_leaf := n\<rparr>) l i = node t l i"
  by (simp add: node_def split: option.split)

text \<open>The state of the loop: the levels up to \<open>l\<close> already hold the new tree, the rest the old.\<close>

lemma climb_spec:
  assumes "\<And>l' i. l' \<le> l + k \<Longrightarrow> node t l' i = spec_node C (if l' \<le> l then xs @ [x] else xs) l' i"
    and "index = length xs div 2 ^ l"
    and "current = spec_node C (xs @ [x]) l index"
    and "l' \<le> l + k"
  shows "node (climb C k l index current t) l' i = spec_node C (xs @ [x]) l' i"
  using assms
proof (induction k arbitrary: l index current t l' i)
  case 0
  then show ?case by simp
next
  case (Suc k)
  have sib: "node t l (sibling index) = spec_node C (xs @ [x]) l (sibling index)"
    using Suc.prems(1) [of l "sibling index"] by simp
  define cur where "cur = spec_node C (xs @ [x]) (Suc l) (index div 2)"
  define t1 where "t1 = t\<lparr>nodes := (nodes t)((l + 1, index div 2) \<mapsto> cur)\<rparr>"
  have step: "climb C (Suc k) l index current t = climb C k (Suc l) (index div 2) cur t1"
    using hash_step [where C = C and xs = "xs @ [x]" and l = l and i = index]
    by (simp add: Let_def Suc.prems(3) sib cur_def t1_def del: spec_node.simps)
  have idx: "index div 2 = length xs div 2 ^ Suc l"
    by (simp add: Suc.prems(2) div_mult2_eq [symmetric] mult.commute)
  have "node t1 m j = spec_node C (if m \<le> Suc l then xs @ [x] else xs) m j" if "m \<le> Suc l + k" for m j
  proof (cases "m = Suc l \<and> j = index div 2")
    case True
    then show ?thesis by (simp add: t1_def cur_def)
  next
    case False
    then have "node t1 m j = node t m j" by (auto simp: t1_def)
    moreover have "spec_node C xs (Suc l) j = spec_node C (xs @ [x]) (Suc l) j" if "m = Suc l"
      using False that idx by (metis spec_node_snoc)
    ultimately show ?thesis
      using Suc.prems(1) [of m j] \<open>m \<le> Suc l + k\<close> by (auto simp: le_Suc_eq simp del: spec_node.simps)
  qed
  from Suc.IH [OF this idx] Suc.prems(4) show ?case
    by (simp add: step cur_def del: spec_node.simps climb.simps)
qed

lemma mt_insert_ok:
  assumes "mt_ok C t xs" and "length xs < 2 ^ TREE_DEPTH"
  shows "\<exists>t'. mt_insert C t x = Inr (length xs, t') \<and> mt_ok C t' (xs @ [x])"
proof -
  define t0 where "t0 = t\<lparr>nodes := (nodes t)((0, length xs) \<mapsto> x)\<rparr>"
  have n: "next_leaf t = length xs" using assms(1) by (simp add: mt_ok_def)
  have "node t0 l i = spec_node C (if l \<le> 0 then xs @ [x] else xs) l i" if "l \<le> 0 + TREE_DEPTH" for l i
    using assms(1) that
    by (cases l) (auto simp: t0_def mt_ok_def nth_append simp del: spec_node.simps(2))
  then have "node (climb C TREE_DEPTH 0 (length xs) x t0) l i = spec_node C (xs @ [x]) l i" if "l \<le> TREE_DEPTH" for l i
    by (rule climb_spec) (use that in auto)
  then show ?thesis
    using assms(2) n by (simp add: mt_insert_def Let_def t0_def [symmetric] mt_ok_def)
qed

lemma path_from_spec:
  assumes "\<And>l i. l \<le> level + k \<Longrightarrow> node t l i = spec_node C xs l i"
  shows "fold_from C (spec_node C xs level i) i (path_from t k level i) = spec_node C xs (level + k) (i div 2 ^ k)"
  using assms
proof (induction k arbitrary: level i)
  case 0
  then show ?case by simp
next
  case (Suc k)
  have "node t level (sibling i) = spec_node C xs level (sibling i)" using Suc.prems by simp
  then have "fold_from C (spec_node C xs level i) i (path_from t (Suc k) level i)
      = fold_from C (spec_node C xs (Suc level) (i div 2)) (i div 2) (path_from t k (Suc level) (i div 2))"
    using hash_step [where C = C and xs = xs and l = level and i = i] by (simp del: spec_node.simps)
  also have "\<dots> = spec_node C xs (Suc level + k) (i div 2 div 2 ^ k)"
    by (rule Suc.IH) (use Suc.prems in simp)
  finally show ?case by (simp add: div_mult2_eq [symmetric] del: spec_node.simps)
qed

lemma length_path_from [simp]: "length (path_from t k l i) = k"
  by (induction k arbitrary: l i) auto

lemma mt_path_folds:
  assumes "mt_ok C t xs" and "i < 2 ^ TREE_DEPTH"
  shows "fold_path C (if i < length xs then xs ! i else 0) i (mt_path t i) = Inr (mt_root t)"
proof -
  have "fold_from C (spec_node C xs 0 i) i (path_from t TREE_DEPTH 0 i) = spec_node C xs (0 + TREE_DEPTH) (i div 2 ^ TREE_DEPTH)"
    by (rule path_from_spec) (use assms(1) in \<open>simp add: mt_ok_def\<close>)
  moreover have "mt_root t = spec_node C xs TREE_DEPTH 0"
    using assms(1) by (simp add: mt_ok_def mt_root_def)
  ultimately show ?thesis
    using assms(2) by (simp add: fold_path_def mt_path_def)
qed

lemma mt_root_spec: "mt_ok C t xs \<Longrightarrow> mt_root t = spec_node C xs TREE_DEPTH 0"
  by (simp add: mt_ok_def mt_root_def)

interpretation mt: accumulator "mt_ok C" "mt_new C" "mt_insert C" mt_root mt_path "fold_path C" "2 ^ TREE_DEPTH" for C
proof
  show "mt_ok C (mt_new C) []" by (rule mt_new_ok)
  show "\<exists>t'. mt_insert C t x = Inr (length xs, t') \<and> mt_ok C t' (xs @ [x])"
    if "mt_ok C t xs" and "length xs < 2 ^ TREE_DEPTH" for t xs x
    using that by (rule mt_insert_ok)
  show "mt_insert C t x = Inl Panic" if "mt_ok C t xs" and "\<not> length xs < 2 ^ TREE_DEPTH" for t xs x
    using that by (simp add: mt_ok_def mt_insert_def)
  show "mt_root t = mt_root t'" if "mt_ok C t xs" and "mt_ok C t' xs" for t xs t'
    using that by (simp add: mt_root_spec)
  show "fold_path C (xs ! i) i (mt_path t i) = Inr (mt_root t)"
    if "mt_ok C t xs" and "length xs \<le> 2 ^ TREE_DEPTH" and "i < length xs" for t xs i
    using mt_path_folds [OF that(1), of i] that by simp
qed

section \<open>Binding\<close>

text \<open>Two different openings of one root at one index exhibit a hash collision.\<close>

definition pair_collision :: "crates \<Rightarrow> bool" where
  "pair_collision C = (\<exists>a b c d. (a, b) \<noteq> (c, d) \<and> hash_pair C a b = hash_pair C c d)"

lemma fold_from_binding:
  "length p = length q \<Longrightarrow> fold_from C x i p = fold_from C y i q \<Longrightarrow> (x = y \<and> p = q) \<or> pair_collision C"
proof (induction p arbitrary: x y i q)
  case Nil
  then show ?case by simp
next
  case (Cons s p)
  then obtain r q' where q: "q = r # q'" by (cases q) auto
  let ?hx = "if i mod 2 = 0 then hash_pair C x s else hash_pair C s x"
  let ?hy = "if i mod 2 = 0 then hash_pair C y r else hash_pair C r y"
  have "(?hx = ?hy \<and> p = q') \<or> pair_collision C"
    using Cons.IH [of q' ?hx "i div 2" ?hy] Cons.prems q by simp
  then show ?case
  proof
    assume h: "?hx = ?hy \<and> p = q'"
    show ?thesis
    proof (cases "x = y \<and> s = r")
      case True
      with h q show ?thesis by simp
    next
      case False
      with h have "pair_collision C"
        unfolding pair_collision_def by (auto split: if_splits)
      then show ?thesis ..
    qed
  qed simp
qed

section \<open>Properties\<close>

text \<open>C5: The incremental tree computes the specification: inserting any list of leaves that fits
  returns, its root is the root of the full binary tree over them (missing leaves zero), and the
  path of every index below \<open>2 ^ 20\<close> folds from its leaf (zero where none was inserted) to that
  root; inserting into a full tree panics.\<close>

theorem tree_refines_spec:
  assumes "length xs \<le> 2 ^ 20"
  shows "\<exists>t. insert_all (mt_insert C) (mt_new C) xs = Inr t
      \<and> mt_root t = spec_node C xs 20 0
      \<and> (\<forall>i < 2 ^ 20. fold_path C (if i < length xs then xs ! i else 0) i (mt_path t i) = Inr (mt_root t))
      \<and> (length xs = 2 ^ 20 \<longrightarrow> mt_insert C t x = Inl Panic)"
proof -
  obtain t where t: "insert_all (mt_insert C) (mt_new C) xs = Inr t" "mt_ok C t xs"
    using mt.build_ok [of xs C] assms by (auto simp: TREE_DEPTH_def)
  show ?thesis
  proof (intro exI conjI allI impI)
    show "insert_all (mt_insert C) (mt_new C) xs = Inr t" by (rule t)
    show "mt_root t = spec_node C xs 20 0" using mt_root_spec [OF t(2)] by (simp only: TREE_DEPTH_def)
    show "fold_path C (if i < length xs then xs ! i else 0) i (mt_path t i) = Inr (mt_root t)" if "i < 2 ^ 20" for i
      by (rule mt_path_folds [OF t(2)]) (use that in \<open>simp add: TREE_DEPTH_def\<close>)
    show "mt_insert C t x = Inl Panic" if "length xs = 2 ^ 20"
      by (rule mt.insert_full [OF t(2)]) (simp add: that TREE_DEPTH_def)
  qed
qed

theorem tree_refines_spec_witness:
  "\<exists>t. insert_all (mt_insert demo_crates) (mt_new demo_crates) [3, 4, 5] = Inr t
     \<and> fold_path demo_crates 5 2 (mt_path t 2) = Inr (spec_node demo_crates [3, 4, 5] 20 0)"
proof -
  obtain t where t: "insert_all (mt_insert demo_crates) (mt_new demo_crates) [3, 4, 5] = Inr t"
    "mt_root t = spec_node demo_crates [3, 4, 5] 20 0"
    "\<forall>i < 2 ^ 20. fold_path demo_crates (if i < length [3, 4, 5 :: nat] then [3, 4, 5] ! i else 0) i (mt_path t i) = Inr (mt_root t)"
    using tree_refines_spec [of "[3, 4, 5]" demo_crates 0] by auto
  from t(3) [rule_format, of 2] have "fold_path demo_crates 5 2 (mt_path t 2) = Inr (mt_root t)" by simp
  with t(1,2) show ?thesis by auto
qed

text \<open>Openings bind: if two leaves with two paths fold to the same root at the same index,
  they are the same leaf and the same path, or two different pairs hash alike.\<close>

theorem tree_openings_bind:
  assumes "fold_path C x i p = Inr r" and "fold_path C y i q = Inr r"
  shows "(x = y \<and> p = q) \<or> (\<exists>a b c d. (a, b) \<noteq> (c, d) \<and> hash_pair C a b = hash_pair C c d)"
proof -
  have "length p = length q" and "fold_from C x i p = fold_from C y i q"
    using assms by (auto simp: fold_path_def res_inv)
  from fold_from_binding [OF this] show ?thesis by (simp only: pair_collision_def)
qed

theorem tree_openings_bind_witness:
  "\<exists>r. fold_path demo_crates 5 2 (replicate 20 0) = Inr r
    \<and> (((5::nat) = 5 \<and> replicate 20 (0::nat) = replicate 20 0)
       \<or> (\<exists>a b c d. (a, b) \<noteq> (c, d) \<and> hash_pair demo_crates a b = hash_pair demo_crates c d))"
proof -
  obtain r where r: "fold_path demo_crates 5 2 (replicate 20 0) = Inr r"
    by (simp add: fold_path_def TREE_DEPTH_def)
  from tree_openings_bind [OF r r] r show ?thesis by blast
qed

end
