(* ===== verification/TxPolicy.thy ===== *)
theory TxPolicy
  imports Prelude
begin

text \<open>
  \<^verbatim>\<open>core/src/txpolicy.rs\<close>: the shared transaction shape. Prices and fees are \<^verbatim>\<open>u128\<close>,
  amounts and block numbers \<^verbatim>\<open>u64\<close>: both are naturals here, with the overflow of the
  plain operators a failure and the saturating operators written out. \<open>two_sf\<close> is the
  specification of the rounding: the numbers with at most two significant figures.
\<close>

definition u128_mul :: "nat \<Rightarrow> nat \<Rightarrow> nat res" where
  "u128_mul a b = (if a * b < 2 ^ 128 then Inr (a * b) else Inl Overflow)"

definition u64_add :: "nat \<Rightarrow> nat \<Rightarrow> nat res" where
  "u64_add a b = (if a + b < 2 ^ 64 then Inr (a + b) else Inl Overflow)"

definition sat128 :: "nat \<Rightarrow> nat" where
  "sat128 n = min n (2 ^ 128 - 1)"

definition div_ceil :: "nat \<Rightarrow> nat \<Rightarrow> nat" where
  "div_ceil a b = (if a mod b = 0 then a div b else a div b + 1)"

section \<open>Kinds and bounds\<close>

definition TIP :: nat where "TIP = 100000000"
definition L1_DATA_GAS :: nat where "L1_DATA_GAS = 4096"
definition MAX_TICKETS_PER_PURCHASE :: nat where "MAX_TICKETS_PER_PURCHASE = 8"

datatype tx_kind = Publish_Tx | Register_Tx | BuyTickets_Tx | Transfer_Tx

fun kind_l2_gas :: "tx_kind \<Rightarrow> nat" where
  "kind_l2_gas Publish_Tx = 100000000"
| "kind_l2_gas Register_Tx = 30000000"
| "kind_l2_gas BuyTickets_Tx = 80000000"
| "kind_l2_gas Transfer_Tx = 10000000"

fun kind_name :: "tx_kind \<Rightarrow> string" where
  "kind_name Publish_Tx = ''publish''"
| "kind_name Register_Tx = ''register''"
| "kind_name BuyTickets_Tx = ''buy_tickets''"
| "kind_name Transfer_Tx = ''transfer''"

record resource_bounds =
  max_amount :: nat
  max_price_per_unit :: nat

record fee_bounds =
  l1_gas :: resource_bounds
  l2_gas :: resource_bounds
  l1_data_gas :: resource_bounds

text \<open>The \<^verbatim>\<open>while x / scale >= 100\<close> loop of both roundings.\<close>

function scale_for :: "nat \<Rightarrow> nat \<Rightarrow> nat" where
  "scale_for x scale = (if 0 < scale \<and> 100 \<le> x div scale then scale_for x (scale * 10) else scale)"
  by pat_completeness auto
termination
proof (relation "measure (\<lambda>(x, scale). x - scale)")
  show "((x, scale * 10), (x, scale)) \<in> measure (\<lambda>(x, scale). x - scale)"
    if "0 < scale \<and> 100 \<le> x div scale" for x scale :: nat
  proof -
    have "100 * scale \<le> x" using that by (metis less_eq_div_iff_mult_less_eq)
    with that show ?thesis by (simp add: diff_less_mono2)
  qed
qed simp

declare scale_for.simps [simp del]

definition scale_of :: "nat \<Rightarrow> nat" where
  "scale_of x = scale_for x 1"

definition round_up_2sf :: "nat \<Rightarrow> nat res" where
  "round_up_2sf x = (let scale = scale_of x in u128_mul (div_ceil x scale) scale)"

definition round_down_2sf :: "nat \<Rightarrow> nat" where
  "round_down_2sf x = (let scale = scale_of x in x div scale * scale)"

definition price_bound :: "nat \<Rightarrow> nat res" where
  "price_bound price = rbind (u128_mul price 3) (\<lambda>p3. round_up_2sf (div_ceil p3 2))"

definition bounds :: "tx_kind \<Rightarrow> nat \<times> nat \<times> nat \<Rightarrow> fee_bounds res" where
  "bounds kind prices =
     (case prices of (l1, l2, l1_data) \<Rightarrow>
        rbind (price_bound l1) (\<lambda>p1.
        rbind (price_bound l2) (\<lambda>p2.
        rbind (price_bound l1_data) (\<lambda>p3.
        Inr \<lparr> l1_gas = \<lparr>max_amount = 0, max_price_per_unit = p1\<rparr>,
              l2_gas = \<lparr>max_amount = kind_l2_gas kind, max_price_per_unit = p2\<rparr>,
              l1_data_gas = \<lparr>max_amount = L1_DATA_GAS, max_price_per_unit = p3\<rparr> \<rparr>))))"

definition max_fee :: "fee_bounds \<Rightarrow> nat \<Rightarrow> nat" where
  "max_fee b tip =
     sat128 (foldl (\<lambda>a x. sat128 (a + x)) 0
               (map (\<lambda>r. sat128 (max_amount r * max_price_per_unit r)) [l1_gas b, l2_gas b, l1_data_gas b])
             + sat128 (max_amount (l2_gas b) * tip))"

definition publish_bounds :: "nat \<times> nat \<times> nat \<Rightarrow> nat \<Rightarrow> nat \<Rightarrow> nat \<Rightarrow> fee_bounds res" where
  "publish_bounds prices pool_max_fee pool_max_tip pool_min_l2_gas =
     ensure (TIP \<le> pool_max_tip) (Policy TipOverCap) (
     ensure (pool_min_l2_gas \<le> kind_l2_gas Publish_Tx) (Policy GasUnderMin) (
     rbind (bounds Publish_Tx prices) (\<lambda>b.
     rbind (u128_mul L1_DATA_GAS (max_price_per_unit (l1_data_gas b))) (\<lambda>l1_data.
     let cap = (if max_amount (l2_gas b) = 0 then 0 else (pool_max_fee - l1_data) div max_amount (l2_gas b)) - TIP;
         b' = (if cap < max_price_per_unit (l2_gas b)
               then b\<lparr>l2_gas := (l2_gas b)\<lparr>max_price_per_unit := round_down_2sf cap\<rparr>\<rparr> else b)
     in rbind (u128_mul (fst (snd prices)) 11) (\<lambda>p11.
        ensure (div_ceil p11 10 \<le> max_price_per_unit (l2_gas b')) (Policy GasTooDear) (
        ensure (max_fee b' TIP \<le> pool_max_fee) (Policy FeeOverCap) (Inr b')))))))"

section \<open>The schedule\<close>

definition BASE_ROUND :: nat where "BASE_ROUND = 32"
definition BASE_MIN_AGE :: nat where "BASE_MIN_AGE = 10"
definition PUBLISH_DELAY :: nat where "PUBLISH_DELAY = 90"
definition PUBLISH_JITTER :: nat where "PUBLISH_JITTER = 20"

definition base_block :: "nat \<Rightarrow> nat" where
  "base_block head = (head - BASE_MIN_AGE) div BASE_ROUND * BASE_ROUND"

definition publish_after :: "nat \<Rightarrow> nat \<Rightarrow> nat res" where
  "publish_after base j = rbind (u64_add base PUBLISH_DELAY) (\<lambda>b. u64_add b (min j PUBLISH_JITTER))"

section \<open>Rounding\<close>

definition two_sf :: "nat \<Rightarrow> bool" where
  "two_sf y = (\<exists>m k. m < 100 \<and> y = m * 10 ^ k)"

lemma scale_for_from:
  "scale = 10 ^ j \<Longrightarrow> j = 0 \<or> 100 * 10 ^ (j - 1) \<le> x \<Longrightarrow>
     \<exists>k. scale_for x scale = 10 ^ k \<and> x div 10 ^ k < 100 \<and> (k = 0 \<or> 100 * 10 ^ (k - 1) \<le> x)"
proof (induction x scale arbitrary: j rule: scale_for.induct)
  case (1 x scale)
  show ?case
  proof (cases "100 \<le> x div scale")
    case True
    then have le: "100 * 10 ^ j \<le> x"
      using "1.prems"(1) by (metis less_eq_div_iff_mult_less_eq zero_less_numeral zero_less_power)
    have "scale_for x scale = scale_for x (scale * 10)"
      using "1.prems"(1) True by (subst scale_for.simps) simp
    moreover have "\<exists>k. scale_for x (scale * 10) = 10 ^ k \<and> x div 10 ^ k < 100 \<and> (k = 0 \<or> 100 * 10 ^ (k - 1) \<le> x)"
      by (rule "1.IH" [of "Suc j"]) (use "1.prems"(1) True le in simp_all)
    ultimately show ?thesis by simp
  next
    case False
    then have "scale_for x scale = scale" by (subst scale_for.simps) simp
    with False show ?thesis using "1.prems" by (intro exI [of _ j]) (simp add: not_le)
  qed
qed

lemma scale_for_spec:
  obtains k where "scale_of x = 10 ^ k" and "x div 10 ^ k < 100" and "k = 0 \<or> 100 * 10 ^ (k - 1) \<le> x"
  using scale_for_from [of 1 0 x] unfolding scale_of_def by auto

lemma div_ceil_ge: "0 < s \<Longrightarrow> x \<le> div_ceil x s * s"
proof -
  assume s: "0 < s"
  obtain d r where dr: "d = x div s" "r = x mod s" by simp
  then have "x = d * s + r" and "r < s" using s by simp_all
  then show ?thesis by (simp add: div_ceil_def dr [symmetric])
qed

lemma div_ceil_least: "0 < s \<Longrightarrow> x \<le> c * s \<Longrightarrow> div_ceil x s \<le> c"
proof -
  assume s: "0 < s" and le: "x \<le> c * s"
  have "x div s \<le> c" using div_le_mono [OF le, of s] s by simp
  moreover have "x mod s = 0" if "x div s = c"
    using that le s by (metis add_le_same_cancel1 div_mult_mod_eq le_zero_eq)
  ultimately show ?thesis by (cases "x div s = c") (auto simp: div_ceil_def)
qed

lemma div_ceil_lt: "0 < s \<Longrightarrow> div_ceil x s * s < x + s"
proof -
  assume s: "0 < s"
  obtain d r where dr: "d = x div s" "r = x mod s" by simp
  then have "x = d * s + r" and "r < s" using s by simp_all
  then show ?thesis using s by (simp add: div_ceil_def dr [symmetric])
qed

lemma scaled_two_sf: "x div 10 ^ k < 100 \<Longrightarrow> two_sf (div_ceil x (10 ^ k) * 10 ^ k)"
proof -
  assume lt: "x div 10 ^ k < 100"
  show ?thesis
  proof (cases "div_ceil x (10 ^ k) < 100")
    case True
    then show ?thesis by (auto simp: two_sf_def)
  next
    case False
    then have "div_ceil x (10 ^ k) = 100" using lt by (auto simp: div_ceil_def split: if_splits)
    then have "div_ceil x (10 ^ k) * 10 ^ k = 10 * 10 ^ Suc k" by simp
    then show ?thesis unfolding two_sf_def by (intro exI [of _ 10] exI [of _ "Suc k"]) simp
  qed
qed

text \<open>A two-figure number at or above \<open>x\<close> is a multiple of \<open>x\<close>'s scale.\<close>

lemma two_sf_multiple:
  assumes "two_sf y" and "x \<le> y" and k: "k = 0 \<or> 100 * 10 ^ (k - 1) \<le> x"
  obtains c where "y = c * 10 ^ k"
proof -
  from assms(1) obtain m j where m: "m < 100" and y: "y = m * 10 ^ j" by (auto simp: two_sf_def)
  have "k \<le> j"
  proof (rule ccontr)
    assume "\<not> k \<le> j"
    then have "j \<le> k - 1" and "k \<noteq> 0" by auto
    then have "(10::nat) ^ j \<le> 10 ^ (k - 1)" by (intro power_increasing) auto
    then have "y < 100 * 10 ^ (k - 1)"
      using m y by (metis le_less_trans less_le_trans mult_le_mono2 mult_less_mono1 zero_less_numeral zero_less_power mult_less_cancel2 order_less_le_trans)
    with k \<open>k \<noteq> 0\<close> assms(2) show False by simp
  qed
  then have "y = (m * 10 ^ (j - k)) * 10 ^ k"
    using y by (simp add: power_add [symmetric] mult.assoc)
  then show ?thesis by (rule that)
qed

definition up2 :: "nat \<Rightarrow> nat" where
  "up2 x = div_ceil x (scale_of x) * scale_of x"

lemma round_up_2sf_up2: "round_up_2sf x = (if up2 x < 2 ^ 128 then Inr (up2 x) else Inl Overflow)"
  by (simp add: round_up_2sf_def up2_def u128_mul_def Let_def)

lemma up2_ge: "x \<le> up2 x"
  using div_ceil_ge by (rule_tac x = x in scale_for_spec) (simp add: up2_def)

lemma up2_two_sf: "two_sf (up2 x)"
  using scaled_two_sf by (rule_tac x = x in scale_for_spec) (simp add: up2_def)

lemma up2_least: "two_sf y \<Longrightarrow> x \<le> y \<Longrightarrow> up2 x \<le> y"
proof -
  assume y: "two_sf y" "x \<le> y"
  obtain k where k: "scale_of x = 10 ^ k" "k = 0 \<or> 100 * 10 ^ (k - 1) \<le> x"
    by (rule scale_for_spec)
  obtain c where c: "y = c * 10 ^ k" by (rule two_sf_multiple [OF y k(2)])
  with y(2) have "div_ceil x (10 ^ k) \<le> c" by (intro div_ceil_least) auto
  then show ?thesis by (simp add: up2_def k(1) c)
qed

lemma up2_excess: "10 * up2 x \<le> 11 * x + 9"
proof -
  obtain k where k: "scale_of x = 10 ^ k" "k = 0 \<or> 100 * 10 ^ (k - 1) \<le> x"
    by (rule scale_for_spec)
  show ?thesis
  proof (cases k)
    case 0
    then show ?thesis by (simp add: up2_def k(1) div_ceil_def)
  next
    case (Suc j)
    then have "10 * 10 ^ k \<le> x" using k(2) by simp
    moreover have "up2 x < x + 10 ^ k" by (simp add: up2_def k(1) div_ceil_lt)
    ultimately show ?thesis by linarith
  qed
qed

lemma round_down_two_sf: "two_sf (round_down_2sf x)"
proof -
  obtain k where "scale_of x = 10 ^ k" "x div 10 ^ k < 100" by (rule scale_for_spec)
  then show ?thesis by (auto simp: two_sf_def round_down_2sf_def Let_def)
qed

lemma round_down_le: "round_down_2sf x \<le> x"
  by (simp add: round_down_2sf_def Let_def)

lemma round_down_greatest: "two_sf y \<Longrightarrow> y \<le> x \<Longrightarrow> y \<le> round_down_2sf x"
proof -
  assume y: "two_sf y" "y \<le> x"
  obtain k where k: "scale_of x = 10 ^ k" "k = 0 \<or> 100 * 10 ^ (k - 1) \<le> x"
    by (rule scale_for_spec)
  show ?thesis
  proof (cases "100 * 10 ^ (k - 1) \<le> y")
    case True
    obtain c where "y = c * 10 ^ k"
      using two_sf_multiple [OF y(1) order_refl, of k] True by blast
    then show ?thesis
      using y(2) div_le_mono [of y x "10 ^ k"] by (simp add: round_down_2sf_def k(1) Let_def)
  next
    case False
    show ?thesis
    proof (cases k)
      case 0
      then show ?thesis using y(2) k(1) by (simp add: round_down_2sf_def Let_def)
    next
      case (Suc j)
      then have "100 * 10 ^ j \<le> x" using k(2) by simp
      then have "10 \<le> x div 10 ^ k" using Suc by (simp add: less_eq_div_iff_mult_less_eq)
      then have "10 * 10 ^ k \<le> x div 10 ^ k * 10 ^ k" by (rule mult_le_mono1)
      moreover have "y < 10 * 10 ^ k" using False Suc by simp
      ultimately have "y \<le> x div 10 ^ k * 10 ^ k" by linarith
      then show ?thesis by (simp add: round_down_2sf_def k(1) Let_def)
    qed
  qed
qed

section \<open>Prices and fees\<close>

lemma price_bound_Inr:
  assumes "price_bound p = Inr q"
  shows "3 * p \<le> 2 * q" and "20 * q \<le> 33 * p + 29" and "two_sf q" and "q < 2 ^ 128"
proof -
  have q: "q = up2 (div_ceil (p * 3) 2)" "up2 (div_ceil (p * 3) 2) < 2 ^ 128"
    using assms by (auto simp: price_bound_def u128_mul_def round_up_2sf_up2 split: if_splits)
  have "3 * p \<le> 2 * div_ceil (p * 3) 2" and h: "2 * div_ceil (p * 3) 2 \<le> 3 * p + 1"
    by (auto simp: div_ceil_def) presburger+
  then show "3 * p \<le> 2 * q" using up2_ge [of "div_ceil (p * 3) 2"] q by linarith
  show "20 * q \<le> 33 * p + 29" using up2_excess [of "div_ceil (p * 3) 2"] h q by linarith
  show "two_sf q" using q up2_two_sf by simp
  show "q < 2 ^ 128" using q by simp
qed

lemma price_bound_total:
  assumes "p < 2 ^ 120"
  shows "\<exists>q. price_bound p = Inr q \<and> q < 2 ^ 122"
proof -
  have h: "2 * div_ceil (p * 3) 2 \<le> 3 * p + 1" by (auto simp: div_ceil_def) presburger+
  have u: "20 * up2 (div_ceil (p * 3) 2) \<le> 33 * p + 29"
    using up2_excess [of "div_ceil (p * 3) 2"] h by linarith
  then have "up2 (div_ceil (p * 3) 2) < 2 ^ 122" using assms by simp
  moreover have "p * 3 < 2 ^ 128" using assms by simp
  ultimately show ?thesis by (simp add: price_bound_def u128_mul_def round_up_2sf_up2)
qed

lemma max_fee_exact:
  assumes "max_amount (l1_gas b) * max_price_per_unit (l1_gas b) + max_amount (l2_gas b) * max_price_per_unit (l2_gas b)
      + max_amount (l1_data_gas b) * max_price_per_unit (l1_data_gas b) + max_amount (l2_gas b) * tip < 2 ^ 128"
  shows "max_fee b tip = max_amount (l1_gas b) * max_price_per_unit (l1_gas b) + max_amount (l2_gas b) * max_price_per_unit (l2_gas b)
      + max_amount (l1_data_gas b) * max_price_per_unit (l1_data_gas b) + max_amount (l2_gas b) * tip"
  using assms by (simp add: max_fee_def sat128_def)

lemma max_fee_sat:
  "max_fee b tip = sat128 (max_amount (l1_gas b) * max_price_per_unit (l1_gas b) + max_amount (l2_gas b) * max_price_per_unit (l2_gas b)
      + max_amount (l1_data_gas b) * max_price_per_unit (l1_data_gas b) + max_amount (l2_gas b) * tip)"
  by (simp add: max_fee_def sat128_def min_def)

lemma scale_of_small: "x < 100 \<Longrightarrow> scale_of x = 1"
  unfolding scale_of_def by (subst scale_for.simps) simp

lemma price_bound_0 [simp]: "price_bound 0 = Inr 0"
  by (simp add: price_bound_def u128_mul_def round_up_2sf_def scale_of_small div_ceil_def)

section \<open>Publish bounds\<close>

lemma bounds_Inr:
  assumes "bounds kind (l1, l2, ld) = Inr b"
  obtains p1 p2 p3 where "price_bound l1 = Inr p1" and "price_bound l2 = Inr p2" and "price_bound ld = Inr p3"
    and "b = \<lparr> l1_gas = \<lparr>max_amount = 0, max_price_per_unit = p1\<rparr>,
              l2_gas = \<lparr>max_amount = kind_l2_gas kind, max_price_per_unit = p2\<rparr>,
              l1_data_gas = \<lparr>max_amount = L1_DATA_GAS, max_price_per_unit = p3\<rparr> \<rparr>"
  using assms by (auto simp: bounds_def res_inv)

text \<open>What \<open>publish_bounds\<close> has decided before its last check: the L2 price is within the cap.\<close>

definition publish_cap :: "nat \<Rightarrow> nat \<Rightarrow> nat" where
  "publish_cap fee p3 = (fee - L1_DATA_GAS * p3) div 100000000 - TIP"

lemma publish_bounds_cases:
  assumes "publish_bounds (l1, l2, ld) fee tip mn = r"
  obtains (early) e where "r = Inl e" and "e \<noteq> Policy FeeOverCap"
  | (late) b p1 p2 p3 q where "price_bound l1 = Inr p1" and "price_bound l2 = Inr p2" and "price_bound ld = Inr p3"
    and "q = (if publish_cap fee p3 < p2 then round_down_2sf (publish_cap fee p3) else p2)"
    and "b = \<lparr> l1_gas = \<lparr>max_amount = 0, max_price_per_unit = p1\<rparr>,
              l2_gas = \<lparr>max_amount = 100000000, max_price_per_unit = q\<rparr>,
              l1_data_gas = \<lparr>max_amount = L1_DATA_GAS, max_price_per_unit = p3\<rparr> \<rparr>"
    and "TIP \<le> tip" and "mn \<le> 100000000" and "11 * l2 \<le> 10 * q"
    and "r = ensure (max_fee b TIP \<le> fee) (Policy FeeOverCap) (Inr b)"
proof -
  have e: "m = Inl x \<Longrightarrow> m = u128_mul a c \<Longrightarrow> x = Overflow" for m x a c
    by (simp add: u128_mul_def split: if_splits)
  have pb: "price_bound p = Inl x \<Longrightarrow> x = Overflow" for p x
    by (auto simp: price_bound_def u128_mul_def round_up_2sf_def rbind_eq_Inl Let_def split: if_splits)
  have bb: "bounds Publish_Tx (l1, l2, ld) = Inl x \<Longrightarrow> x = Overflow" for x
    by (auto simp: bounds_def rbind_eq_Inl dest: pb)
  show ?thesis
  proof (cases "TIP \<le> tip \<and> mn \<le> 100000000")
    case False
    then show ?thesis using assms early by (auto simp: publish_bounds_def ensure_def split: if_splits)
  next
    case ok: True
    show ?thesis
    proof (cases "bounds Publish_Tx (l1, l2, ld)")
      case (Inl x)
      then have "r = Inl x" using assms ok by (simp add: publish_bounds_def)
      moreover have "x = Overflow" using Inl by (rule bb)
      ultimately show ?thesis using early [of x] by simp
    next
      case (Inr b0)
      then obtain p1 p2 p3 where p: "price_bound l1 = Inr p1" "price_bound l2 = Inr p2" "price_bound ld = Inr p3"
        and b0: "b0 = \<lparr> l1_gas = \<lparr>max_amount = 0, max_price_per_unit = p1\<rparr>,
              l2_gas = \<lparr>max_amount = kind_l2_gas Publish_Tx, max_price_per_unit = p2\<rparr>,
              l1_data_gas = \<lparr>max_amount = L1_DATA_GAS, max_price_per_unit = p3\<rparr> \<rparr>"
        by (rule bounds_Inr)
      define q where "q = (if publish_cap fee p3 < p2 then round_down_2sf (publish_cap fee p3) else p2)"
      define b where "b = \<lparr> l1_gas = \<lparr>max_amount = 0, max_price_per_unit = p1\<rparr>,
              l2_gas = \<lparr>max_amount = 100000000, max_price_per_unit = q\<rparr>,
              l1_data_gas = \<lparr>max_amount = L1_DATA_GAS, max_price_per_unit = p3\<rparr> \<rparr>"
      have r: "r = rbind (u128_mul L1_DATA_GAS p3) (\<lambda>_. rbind (u128_mul l2 11) (\<lambda>p11.
          ensure (div_ceil p11 10 \<le> q) (Policy GasTooDear) (ensure (max_fee b TIP \<le> fee) (Policy FeeOverCap) (Inr b))))"
        using assms ok Inr unfolding b0
        by (auto simp: publish_bounds_def Let_def u128_mul_def publish_cap_def q_def b_def)
      show ?thesis
      proof (cases "L1_DATA_GAS * p3 < 2 ^ 128 \<and> l2 * 11 < 2 ^ 128 \<and> div_ceil (l2 * 11) 10 \<le> q")
        case True
        then have "11 * l2 \<le> 10 * q" using div_ceil_ge [of 10 "l2 * 11"] by linarith
        moreover have "r = ensure (max_fee b TIP \<le> fee) (Policy FeeOverCap) (Inr b)"
          using r True by (simp add: u128_mul_def)
        ultimately show ?thesis using late p q_def b_def ok by blast
      next
        case False
        then show ?thesis
          using r early by (auto simp: u128_mul_def ensure_def split: if_splits)
      qed
    qed
  qed
qed

lemma publish_q_le_cap: "(if c < p then round_down_2sf c else p) \<le> (c :: nat)"
  using round_down_le [of c] by simp

lemma publish_cap_fits:
  assumes "q \<le> publish_cap fee p3" and "0 < q"
  shows "100000000 * q + L1_DATA_GAS * p3 + 100000000 * TIP \<le> fee"
proof -
  have "q + TIP \<le> (fee - L1_DATA_GAS * p3) div 100000000"
    using assms by (simp add: publish_cap_def)
  then have "(q + TIP) * 100000000 \<le> fee - L1_DATA_GAS * p3"
    by (simp add: less_eq_div_iff_mult_less_eq)
  moreover have "0 < (q + TIP) * 100000000" using assms by simp
  ultimately have "L1_DATA_GAS * p3 + (q + TIP) * 100000000 \<le> fee" by linarith
  then show ?thesis by (simp add: algebra_simps)
qed

section \<open>Properties\<close>

text \<open>\<open>round_up_2sf\<close> of any \<open>x\<close> up to half the \<open>u128\<close> range does not overflow and is the
  least number with at most two significant figures at or above \<open>x\<close>, within 10 per cent (plus
  one) of it; \<open>round_down_2sf\<close> is the greatest one at or below \<open>x\<close>.\<close>

theorem rounding_is_two_significant_figures:
  assumes "x \<le> 2 ^ 127"
  shows "\<exists>r. round_up_2sf x = Inr r \<and> two_sf r \<and> x \<le> r \<and> 10 * r \<le> 11 * x + 9
      \<and> (\<forall>y. two_sf y \<and> x \<le> y \<longrightarrow> r \<le> y)
      \<and> two_sf (round_down_2sf x) \<and> round_down_2sf x \<le> x
      \<and> (\<forall>y. two_sf y \<and> y \<le> x \<longrightarrow> y \<le> round_down_2sf x)"
proof -
  have "up2 x < 2 ^ 128" using up2_excess [of x] assms by simp
  then show ?thesis
    using up2_ge up2_two_sf up2_least up2_excess round_down_two_sf round_down_le round_down_greatest
    by (auto simp: round_up_2sf_up2)
qed

theorem rounding_is_two_significant_figures_witness:
  "(27136347273::nat) \<le> 2 ^ 127 \<and> (\<exists>r. round_up_2sf 27136347273 = Inr r \<and> two_sf r \<and> 27136347273 \<le> r)"
  using rounding_is_two_significant_figures [of 27136347273] by auto

text \<open>The price bound of a current price is between 1.5 and 1.65 times it (plus two), has two
  significant figures, and is computed without overflow for every price below \<open>2 ^ 120\<close>.\<close>

theorem price_bound_range:
  assumes "p < 2 ^ 120"
  shows "\<exists>q. price_bound p = Inr q \<and> 3 * p \<le> 2 * q \<and> 20 * q \<le> 33 * p + 29 \<and> two_sf q"
  using price_bound_total [OF assms] price_bound_Inr by blast

theorem price_bound_range_witness:
  "(18090898182::nat) < 2 ^ 120 \<and> (\<exists>q. price_bound 18090898182 = Inr q \<and> 3 * 18090898182 \<le> 2 * q \<and> two_sf q)"
  using price_bound_range [of 18090898182] by auto

text \<open>C13: For a pool fee below \<open>2 ^ 128 - 1\<close>, the ceiling of the arithmetic, the bounds that
  \<open>publish_bounds\<close> returns fit the pool's policy: the true (unsaturated) worst-case fee, tip
  included, is at most the pool's cap; the tip and the L2 gas amount are the ones the pool admits;
  the L2 price is at least 1.1 times the current one, at most 1.65 times it and 29/20 more (the
  rounding up of small prices), and has two significant figures.\<close>

theorem publish_bounds_within_policy:
  assumes "publish_bounds (l1, l2, ld) fee tip mn = Inr b" and "fee < 2 ^ 128 - 1"
  shows "max_amount (l1_gas b) * max_price_per_unit (l1_gas b)
      + max_amount (l2_gas b) * (max_price_per_unit (l2_gas b) + TIP)
      + max_amount (l1_data_gas b) * max_price_per_unit (l1_data_gas b) \<le> fee
    \<and> TIP \<le> tip \<and> mn \<le> max_amount (l2_gas b)
    \<and> 11 * l2 \<le> 10 * max_price_per_unit (l2_gas b)
    \<and> 20 * max_price_per_unit (l2_gas b) \<le> 33 * l2 + 29
    \<and> two_sf (max_price_per_unit (l2_gas b))"
  using assms(1)
proof (cases rule: publish_bounds_cases)
  case (early e)
  then show ?thesis by simp
next
  case (late b' p1 p2 p3 q)
  have b: "b = b'" and fee: "max_fee b TIP \<le> fee"
    using late(9) [symmetric] by (auto simp: ensure_eq_Inr)
  have "q \<le> p2" using late(4) publish_q_le_cap [of "publish_cap fee p3" p2] by (auto split: if_splits)
  moreover have "two_sf q"
    using late(4) round_down_two_sf price_bound_Inr(3) [OF late(2)] by simp
  ultimately show ?thesis
    using late(5-8) fee price_bound_Inr(2) [OF late(2)] assms(2)
    by (simp add: b max_fee_sat sat128_def min_def algebra_simps split: if_splits)
qed

theorem publish_bounds_within_policy_witness:
  "\<exists>b. publish_bounds (0, 0, 0) (10 ^ 18) (10 ^ 9) (10 ^ 8) = Inr b
     \<and> max_amount (l2_gas b) * (max_price_per_unit (l2_gas b) + TIP) \<le> 10 ^ 18"
proof -
  have "\<exists>b. publish_bounds (0, 0, 0) (10 ^ 18) (10 ^ 9) (10 ^ 8) = Inr b"
    by (simp add: publish_bounds_def bounds_def price_bound_0 u128_mul_def div_ceil_def Let_def max_fee_sat sat128_def round_down_2sf_def
        TIP_def L1_DATA_GAS_def)
  then obtain b where b: "publish_bounds (0, 0, 0) (10 ^ 18) (10 ^ 9) (10 ^ 8) = Inr b" ..
  with publish_bounds_within_policy [OF b] show ?thesis by auto
qed

text \<open>The last check of \<open>publish_bounds\<close> is never what stops a send at a real price: it can
  only fail when the current L2 price is zero, because otherwise the capped price already leaves
  room for the data gas and the tip.\<close>

theorem fee_cap_check_only_at_zero_price:
  assumes "publish_bounds (l1, l2, ld) fee tip mn = Inl (Policy FeeOverCap)"
  shows "l2 = 0"
  using assms
proof (cases rule: publish_bounds_cases)
  case (early e)
  then show ?thesis by simp
next
  case (late b p1 p2 p3 q)
  show ?thesis
  proof (rule ccontr)
    assume "l2 \<noteq> 0"
    then have "0 < q" using late(8) by simp
    moreover have "q \<le> publish_cap fee p3" unfolding late(4) by (rule publish_q_le_cap)
    ultimately have "100000000 * q + L1_DATA_GAS * p3 + 100000000 * TIP \<le> fee"
      by (rule publish_cap_fits [rotated])
    then have "max_fee b TIP \<le> fee" by (simp add: late(5) max_fee_sat sat128_def)
    then show False using late(9) by simp
  qed
qed

theorem fee_cap_check_only_at_zero_price_witness:
  "publish_bounds (0, 0, 0) 0 (10 ^ 9) 0 = Inl (Policy FeeOverCap) \<and> (0::nat) = 0"
proof -
  have h: "publish_bounds (0, 0, 0) 0 (10 ^ 9) 0 = Inl (Policy FeeOverCap)"
    by (simp add: publish_bounds_def bounds_def price_bound_0 u128_mul_def div_ceil_def Let_def max_fee_sat sat128_def round_down_2sf_def
        TIP_def L1_DATA_GAS_def)
  from fee_cap_check_only_at_zero_price [OF h] h show ?thesis by simp
qed

text \<open>The schedule: from a head of at least 10, the base block is a multiple of 32 between 10
  and 41 blocks behind it, the same for every head of one 32-block window, and the publish goes
  out between 49 and 110 blocks after the head it was prepared at.\<close>

theorem publish_schedule:
  assumes "10 \<le> head" and "head < 2 ^ 64 - 110"
  shows "\<exists>k t. base_block head = 32 * k
      \<and> base_block head + 10 \<le> head \<and> head \<le> base_block head + 41
      \<and> (\<forall>h. 32 * k + 10 \<le> h \<and> h < 32 * (k + 1) + 10 \<longrightarrow> base_block h = base_block head)
      \<and> publish_after (base_block head) j = Inr t
      \<and> base_block head + 90 \<le> t \<and> t \<le> base_block head + 110 \<and> head + 49 \<le> t"
proof -
  define k where "k = (head - 10) div 32"
  have b: "base_block head = 32 * k"
    by (simp add: base_block_def BASE_MIN_AGE_def BASE_ROUND_def k_def)
  have "base_block h = 32 * k" if "32 * k + 10 \<le> h" and "h < 32 * (k + 1) + 10" for h
  proof -
    have "(h - 10) div 32 = k" using that by (intro div_nat_eqI) auto
    then show ?thesis by (simp add: base_block_def BASE_MIN_AGE_def BASE_ROUND_def)
  qed
  moreover have lo: "32 * k + 10 \<le> head" and hi: "head \<le> 32 * k + 41"
    using assms(1) unfolding k_def by presburger+
  moreover have "publish_after (32 * k) j = Inr (32 * k + 90 + min j 20)"
    using assms(2) lo by (simp add: publish_after_def u64_add_def PUBLISH_DELAY_def PUBLISH_JITTER_def)
  ultimately show ?thesis using b by auto
qed

theorem publish_schedule_witness:
  "(10::nat) \<le> 16257200 \<and> (\<exists>t. publish_after (base_block 16257200) 7 = Inr t \<and> 16257200 + 49 \<le> t)"
  using publish_schedule [of 16257200 7] by auto

end
