(* ===== verification/Crypto.thy ===== *)
theory Crypto
  imports Serde "HOL-Library.Monad_Syntax"
begin

text \<open>
  \<^verbatim>\<open>core/src/crypto.rs\<close>: leaves, nullifiers and commitments, the hybrid ML-KEM and ECDH key
  schedule, sealing and opening, the v4 padding, and the membership secrets. The primitives
  are those of \<open>crates\<close>; randomness is an explicit argument (\<open>draws\<close> is the sequence of
  32-byte outputs the operating system's generator returns, and a rejection loop that runs
  out of them has not returned: \<open>None\<close>). An ML-KEM decapsulation key is its 64-byte seed.
\<close>

unbundle bit_operations_syntax

section \<open>Hashes, leaves and nullifiers\<close>

definition poseidon2 :: "crates \<Rightarrow> felt \<Rightarrow> felt \<Rightarrow> felt" where
  "poseidon2 C a b = poseidon_two C a b"

definition bytearray_hash :: "crates \<Rightarrow> bytes \<Rightarrow> felt" where
  "bytearray_hash C bs = poseidon_many C (bytearray_felts bs)"

definition content_hash_of :: "crates \<Rightarrow> bytes \<Rightarrow> felt" where
  "content_hash_of C content = bytearray_hash C content"

definition kem_digest_of :: "crates \<Rightarrow> bytes \<Rightarrow> felt" where
  "kem_digest_of C ek = bytearray_hash C ek"

definition domain_felt :: "string \<Rightarrow> felt" where
  "domain_felt s = felt_from_be (str_bytes s)"

definition leaf_v2_domain :: felt where "leaf_v2_domain = domain_felt ''zkmsg-leaf-v2''"
definition member_v3_domain :: felt where "member_v3_domain = domain_felt ''zkmsg-member-v3''"
definition leaf_v3_domain :: felt where "leaf_v3_domain = domain_felt ''zkmsg-leaf-v3''"
definition nullifier_v4_domain :: felt where "nullifier_v4_domain = domain_felt ''zkmsg-nullifier-v4''"
definition ticket_v4_domain :: felt where "ticket_v4_domain = domain_felt ''zkmsg-ticket-v4''"
definition ticket_null_v4_domain :: felt where "ticket_null_v4_domain = domain_felt ''zkmsg-ticket-null-v4''"

definition leaf_v2 :: "crates \<Rightarrow> felt \<Rightarrow> felt \<Rightarrow> felt" where
  "leaf_v2 C scan_pub kem_digest = poseidon_many C [leaf_v2_domain, scan_pub, kem_digest]"

definition member_commit :: "crates \<Rightarrow> felt \<Rightarrow> felt" where
  "member_commit C m = poseidon_many C [member_v3_domain, m]"

definition leaf_v3 :: "crates \<Rightarrow> felt \<Rightarrow> felt \<Rightarrow> felt \<Rightarrow> felt" where
  "leaf_v3 C scan_pub kem_digest m_commit = poseidon_many C [leaf_v3_domain, scan_pub, kem_digest, m_commit]"

definition nullifier_v4 :: "crates \<Rightarrow> felt \<Rightarrow> felt \<Rightarrow> nat \<Rightarrow> nat \<Rightarrow> felt" where
  "nullifier_v4 C store m epoch slot = poseidon_many C [nullifier_v4_domain, store, m, epoch, slot]"

definition ticket_leaf :: "crates \<Rightarrow> felt \<Rightarrow> felt" where
  "ticket_leaf C t = poseidon_many C [ticket_v4_domain, t]"

definition ticket_nullifier :: "crates \<Rightarrow> felt \<Rightarrow> felt \<Rightarrow> felt" where
  "ticket_nullifier C store t = poseidon_many C [ticket_null_v4_domain, store, t]"

definition envelope_key :: "crates \<Rightarrow> felt \<Rightarrow> felt \<Rightarrow> felt" where
  "envelope_key C commitment content_hash = poseidon_many C [commitment, content_hash]"

section \<open>Keys\<close>

definition ec_mul_gen_x :: "crates \<Rightarrow> felt \<Rightarrow> felt" where
  "ec_mul_gen_x C private = ec_gen_x C private"

definition ecdh_shared_x :: "crates \<Rightarrow> felt \<Rightarrow> felt \<Rightarrow> felt res" where
  "ecdh_shared_x C private peer_pub_x = of_opt (Crypto NotOnCurve) (ec_shared_x C private peer_pub_x)"

fun scan_keygen :: "crates \<Rightarrow> bytes list \<Rightarrow> (felt \<times> felt) option" where
  "scan_keygen C [] = None"
| "scan_keygen C (bytes # draws) =
     (let candidate = felt_from_be bytes mod ec_order C
      in if candidate \<noteq> 0 then Some (candidate, ec_mul_gen_x C candidate) else scan_keygen C draws)"

definition MEMBER_SECRET_LEN :: nat where "MEMBER_SECRET_LEN = 32"

fun member_secret_gen :: "bytes list \<Rightarrow> bytes option" where
  "member_secret_gen [] = None"
| "member_secret_gen (bytes # draws) =
     (let m = bytes[0 := bytes ! 0 AND 0x07]
      in if \<exists>b \<in> set m. b \<noteq> 0 then Some m else member_secret_gen draws)"

definition ticket_secret_gen :: "bytes list \<Rightarrow> bytes option" where
  "ticket_secret_gen draws = member_secret_gen draws"

definition member_secret_felt :: "bytes \<Rightarrow> felt res" where
  "member_secret_felt m =
     ensure (length m = MEMBER_SECRET_LEN) (Crypto BadSecret) (
     ensure (m ! 0 AND 0xf8 = 0) (Crypto BadSecret) (
     ensure (\<not> (\<forall>b \<in> set m. b = 0)) (Crypto BadSecret) (
     Inr (felt_from_be m))))"

definition kem_keygen_from_seed :: "crates \<Rightarrow> bytes \<Rightarrow> bytes \<times> bytes" where
  "kem_keygen_from_seed C seed = (seed, kem_ek C seed)"

section \<open>The key schedule\<close>

definition NONCE_LEN :: nat where "NONCE_LEN = 12"
definition KEM_SEED_LEN :: nat where "KEM_SEED_LEN = 64"
definition KEM_EK_LEN :: nat where "KEM_EK_LEN = 1184"
definition KEM_CT_LEN :: nat where "KEM_CT_LEN = 1088"
definition MIN_CONTENT_V2_LEN :: nat where "MIN_CONTENT_V2_LEN = KEM_CT_LEN + NONCE_LEN + 16"

record hybrid_keys =
  prk :: bytes
  aead_k :: bytes
  tag :: felt

datatype sealing = V2 | V4

fun labels :: "sealing \<Rightarrow> bytes \<times> bytes \<times> bytes" where
  "labels V2 = (str_bytes ''zkmsg-v2'', str_bytes ''zkmsg-v2 aead'', str_bytes ''zkmsg-v2 tag'')"
| "labels V4 = (str_bytes ''zkmsg-v4'', str_bytes ''zkmsg-v4 aead'', str_bytes ''zkmsg-v4 tag'')"

definition derive :: "crates \<Rightarrow> sealing \<Rightarrow> bytes \<Rightarrow> felt \<Rightarrow> felt \<Rightarrow> felt \<Rightarrow> bytes \<Rightarrow> hybrid_keys" where
  "derive C sealing ss_kem ss_ec ephemeral_pub recipient_scan_pub kem_ct =
     (case labels sealing of (salt, info_aead, info_tag) \<Rightarrow>
        let ikm = ss_kem @ felt_to_be ss_ec @ felt_to_be ephemeral_pub @ felt_to_be recipient_scan_pub
                    @ sha3_256 C kem_ct;
            p = hkdf_extract C salt ikm
        in \<lparr> prk = p, aead_k = hkdf_expand C p info_aead 32,
             tag = felt_from_be (hkdf_expand C p info_tag 31) \<rparr>)"

definition derive_v2 :: "crates \<Rightarrow> bytes \<Rightarrow> felt \<Rightarrow> felt \<Rightarrow> felt \<Rightarrow> bytes \<Rightarrow> hybrid_keys" where
  "derive_v2 C = derive C V2"

record encap_v2 =
  ephemeral_pub :: felt
  kem_ct :: bytes
  ss_kem :: bytes
  ss_ec :: felt
  encap_keys :: hybrid_keys

definition encap_deterministic :: "crates \<Rightarrow> sealing \<Rightarrow> felt \<Rightarrow> felt \<Rightarrow> bytes \<Rightarrow> bytes \<Rightarrow> encap_v2 res" where
  "encap_deterministic C sealing ephemeral_priv recipient_scan_pub recipient_ek m =
     ensure (length recipient_ek = KEM_EK_LEN) (Crypto BadKem) (
     rbind (of_opt (Crypto BadKem) (kem_encap C recipient_ek m)) (\<lambda>(ct, ss).
     let E = ec_mul_gen_x C ephemeral_priv
     in rbind (ecdh_shared_x C ephemeral_priv recipient_scan_pub) (\<lambda>s.
     Inr \<lparr> ephemeral_pub = E, kem_ct = ct, ss_kem = ss, ss_ec = s,
           encap_keys = derive C sealing ss s E recipient_scan_pub ct \<rparr>)))"

definition encap_v2_deterministic :: "crates \<Rightarrow> felt \<Rightarrow> felt \<Rightarrow> bytes \<Rightarrow> bytes \<Rightarrow> encap_v2 res" where
  "encap_v2_deterministic C = encap_deterministic C V2"

definition encap :: "crates \<Rightarrow> sealing \<Rightarrow> bytes list \<Rightarrow> bytes \<Rightarrow> felt \<Rightarrow> bytes \<Rightarrow> encap_v2 res option" where
  "encap C sealing draws m recipient_scan_pub recipient_ek =
     map_option (\<lambda>(e, _). encap_deterministic C sealing e recipient_scan_pub recipient_ek m) (scan_keygen C draws)"

definition decap_tag :: "crates \<Rightarrow> sealing \<Rightarrow> felt \<Rightarrow> bytes \<Rightarrow> felt \<Rightarrow> bytes \<Rightarrow> hybrid_keys res" where
  "decap_tag C sealing scan_priv dk E ct =
     ensure (length ct = KEM_CT_LEN) (Crypto BadKem) (
     let ss = kem_decap C dk ct
     in rbind (ecdh_shared_x C scan_priv E) (\<lambda>s.
        Inr (derive C sealing ss s E (ec_mul_gen_x C scan_priv) ct)))"

definition decap_tag_v2 :: "crates \<Rightarrow> felt \<Rightarrow> bytes \<Rightarrow> felt \<Rightarrow> bytes \<Rightarrow> hybrid_keys res" where
  "decap_tag_v2 C = decap_tag C V2"

section \<open>Sealing\<close>

definition aad_v2 :: "felt \<Rightarrow> felt \<Rightarrow> bytes" where
  "aad_v2 t E = felt_to_be t @ felt_to_be E"

definition seal_v2_with_nonce :: "crates \<Rightarrow> hybrid_keys \<Rightarrow> felt \<Rightarrow> bytes \<Rightarrow> bytes \<Rightarrow> bytes" where
  "seal_v2_with_nonce C keys E nonce plaintext =
     nonce @ gcm_seal C (aead_k keys) nonce (aad_v2 (tag keys) E) plaintext"

definition open_v2 :: "crates \<Rightarrow> hybrid_keys \<Rightarrow> felt \<Rightarrow> bytes \<Rightarrow> bytes res" where
  "open_v2 C keys E blob =
     ensure (\<not> length blob < NONCE_LEN + 16) (Decode TooShort) (
     of_opt (Crypto AeadFailed)
       (gcm_open C (aead_k keys) (take NONCE_LEN blob) (aad_v2 (tag keys) E) (drop NONCE_LEN blob)))"

definition split_content_v2 :: "bytes \<Rightarrow> (bytes \<times> bytes) res" where
  "split_content_v2 content =
     ensure (\<not> length content < MIN_CONTENT_V2_LEN) (Decode TooShort)
       (Inr (take KEM_CT_LEN content, drop KEM_CT_LEN content))"

record sealed_v2 =
  commitment :: felt
  sealed_ephemeral_pub :: felt
  content :: bytes
  content_hash :: felt

definition assemble_v2 :: "crates \<Rightarrow> encap_v2 \<Rightarrow> bytes \<Rightarrow> sealed_v2" where
  "assemble_v2 C en blob =
     (let c = kem_ct en @ blob
      in \<lparr> commitment = tag (encap_keys en), sealed_ephemeral_pub = ephemeral_pub en,
           content = c, content_hash = content_hash_of C c \<rparr>)"

definition send_v2 :: "crates \<Rightarrow> bytes list \<Rightarrow> bytes \<Rightarrow> bytes \<Rightarrow> felt \<Rightarrow> bytes \<Rightarrow> bytes \<Rightarrow> sealed_v2 res option" where
  "send_v2 C draws m nonce recipient_scan_pub recipient_ek plaintext =
     map_option (\<lambda>r. rbind r (\<lambda>en.
         Inr (assemble_v2 C en (seal_v2_with_nonce C (encap_keys en) (ephemeral_pub en) nonce plaintext))))
       (encap C V2 draws m recipient_scan_pub recipient_ek)"

definition receive_v2 :: "crates \<Rightarrow> felt \<Rightarrow> bytes \<Rightarrow> felt \<Rightarrow> felt \<Rightarrow> bytes \<Rightarrow> bytes res option" where
  "receive_v2 C scan_priv dk com E cont =
     do { (ct, blob) \<leftarrow> ok_opt (split_content_v2 cont);
          keys \<leftarrow> ok_opt (decap_tag_v2 C scan_priv dk E ct);
          if tag keys \<noteq> com then None else Some (open_v2 C keys E blob) }"

section \<open>The v4 padding\<close>

definition PAD_BUCKETS :: "nat list" where "PAD_BUCKETS = [256, 1024, 4096]"
definition MAX_PLAINTEXT_V4 :: nat where "MAX_PLAINTEXT_V4 = 4096 - 2"
definition CONTENT_OVERHEAD_V4 :: nat where "CONTENT_OVERHEAD_V4 = KEM_CT_LEN + NONCE_LEN + 16"

definition content_lens_v4 :: "nat list" where
  "content_lens_v4 = map (\<lambda>b. b + CONTENT_OVERHEAD_V4) PAD_BUCKETS"

definition pad_v4 :: "bytes \<Rightarrow> bytes res" where
  "pad_v4 plaintext =
     rbind (of_opt (Crypto MessageTooLong) (List.find (\<lambda>b. length plaintext + 2 \<le> b) PAD_BUCKETS)) (\<lambda>bucket.
     let padded = be_bytes 2 (length plaintext mod 2 ^ 16) @ plaintext
     in Inr (take bucket padded @ replicate (bucket - length padded) 0))"

definition unpad_v4 :: "bytes \<Rightarrow> bytes res" where
  "unpad_v4 padded =
     ensure (length padded \<in> set PAD_BUCKETS) (Crypto BadPadding) (
     let len = be_nat [padded ! 0, padded ! 1]
     in ensure (\<not> length padded - 2 < len) (Crypto BadPadding) (
        ensure (\<not> (\<exists>b \<in> set (drop (2 + len) padded). b \<noteq> 0)) (Crypto BadPadding) (
        Inr (take len (drop 2 padded)))))"

definition send_v4 :: "crates \<Rightarrow> bytes list \<Rightarrow> bytes \<Rightarrow> bytes \<Rightarrow> felt \<Rightarrow> bytes \<Rightarrow> bytes \<Rightarrow> sealed_v2 res option" where
  "send_v4 C draws m nonce recipient_scan_pub recipient_ek plaintext =
     (case pad_v4 plaintext of
        Inl e \<Rightarrow> Some (Inl e)
      | Inr padded \<Rightarrow>
          map_option (\<lambda>r. rbind r (\<lambda>en.
              Inr (assemble_v2 C en (seal_v2_with_nonce C (encap_keys en) (ephemeral_pub en) nonce padded))))
            (encap C V4 draws m recipient_scan_pub recipient_ek))"

definition receive_v4 :: "crates \<Rightarrow> felt \<Rightarrow> bytes \<Rightarrow> felt \<Rightarrow> felt \<Rightarrow> bytes \<Rightarrow> bytes res option" where
  "receive_v4 C scan_priv dk com E cont =
     do { (ct, blob) \<leftarrow> ok_opt (split_content_v2 cont);
          keys \<leftarrow> ok_opt (decap_tag C V4 scan_priv dk E ct);
          if tag keys \<noteq> com then None else Some (rbind (open_v2 C keys E blob) unpad_v4) }"

section \<open>Padding\<close>

lemma pad_v4_Inr:
  "pad_v4 p = Inr q \<longleftrightarrow> length p \<le> MAX_PLAINTEXT_V4
     \<and> q = be_bytes 2 (length p) @ p @ replicate ((if length p \<le> 254 then 256 else if length p \<le> 1022 then 1024 else 4096) - 2 - length p) 0"
  by (auto simp: pad_v4_def PAD_BUCKETS_def MAX_PLAINTEXT_V4_def Let_def)

lemma pad_v4_Inl: "pad_v4 p = Inl e \<longleftrightarrow> MAX_PLAINTEXT_V4 < length p \<and> e = Crypto MessageTooLong"
  by (auto simp: pad_v4_def PAD_BUCKETS_def MAX_PLAINTEXT_V4_def Let_def)

text \<open>The padded forms of a plaintext: any bucket that holds it.\<close>

definition padded_form :: "bytes \<Rightarrow> bytes \<Rightarrow> bool" where
  "padded_form p q = (\<exists>b \<in> set PAD_BUCKETS. length p + 2 \<le> b \<and> q = be_bytes 2 (length p) @ p @ replicate (b - 2 - length p) 0)"

lemma unpad_padded:
  assumes "padded_form p q"
  shows "unpad_v4 q = Inr p"
proof -
  obtain b where b: "b \<in> set PAD_BUCKETS" "length p + 2 \<le> b"
    and q: "q = be_bytes 2 (length p) @ p @ replicate (b - 2 - length p) 0"
    using assms by (auto simp: padded_form_def)
  have p16: "length p < 256 ^ 2" using b by (auto simp: PAD_BUCKETS_def)
  have two: "be_bytes 2 n = [word_of_nat (n div 256), word_of_nat n]" for n
    by (simp add: numeral_2_eq_2)
  have hd: "[q ! 0, q ! 1] = be_bytes 2 (length p)" unfolding q two by simp
  then have len: "be_nat [q ! 0, q ! 1] = length p" using p16 by (simp add: be_nat_be_bytes)
  have "length q = b" using b q by simp
  moreover have "drop (2 + length p) q = replicate (b - 2 - length p) 0" and "take (length p) (drop 2 q) = p"
    unfolding q two by simp_all
  moreover have "\<not> b - 2 < length p" using b(2) by linarith
  ultimately show ?thesis using b len by (simp add: unpad_v4_def Let_def)
qed

lemma replicate_zero: "(\<forall>b \<in> set xs. b = z) \<longleftrightarrow> xs = replicate (length xs) z"
  by (metis in_set_replicate replicate_eqI)

lemma unpad_v4_Inr: "unpad_v4 q = Inr p \<longleftrightarrow> padded_form p q"
proof
  assume a: "unpad_v4 q = Inr p"
  define n where "n = be_nat [q ! 0, q ! 1]"
  from a have b: "length q \<in> set PAD_BUCKETS" and n: "n \<le> length q - 2"
    and z: "\<forall>x \<in> set (drop (2 + n) q). x = 0" and p: "p = take n (drop 2 q)"
    by (auto simp: unpad_v4_def Let_def n_def res_inv not_less)
  have lq: "2 \<le> length q" using b by (auto simp: PAD_BUCKETS_def)
  then have hd: "take 2 q = [q ! 0, q ! 1]"
    by (cases q; cases "tl q") auto
  have lp: "length p = n" using n p by simp
  have "be_bytes (length [q ! 0, q ! 1]) n = [q ! 0, q ! 1]"
    unfolding n_def by (rule be_bytes_be_nat)
  then have "be_bytes 2 n = [q ! 0, q ! 1]" by (simp add: numeral_2_eq_2)
  moreover have "drop (2 + n) q = replicate (length q - 2 - n) 0"
    using z by (subst (asm) replicate_zero) simp
  moreover have "q = take 2 q @ take n (drop 2 q) @ drop (2 + n) q"
    by (metis append_take_drop_id drop_drop add.commute)
  ultimately have "q = be_bytes 2 (length p) @ p @ replicate (length q - 2 - length p) 0"
    using hd p lp by metis
  moreover have "length p + 2 \<le> length q" using n lp lq by simp
  ultimately show "padded_form p q" using b by (auto simp: padded_form_def)
qed (rule unpad_padded)

lemma pad_v4_form: "pad_v4 p = Inr q \<Longrightarrow> padded_form p q"
  by (auto simp: pad_v4_Inr padded_form_def PAD_BUCKETS_def MAX_PLAINTEXT_V4_def)

interpretation padding: wire_codec "\<lambda>p. length p \<le> MAX_PLAINTEXT_V4" "\<lambda>p. case pad_v4 p of Inr q \<Rightarrow> q" unpad_v4
proof
  fix p :: bytes
  assume "length p \<le> MAX_PLAINTEXT_V4"
  then obtain q where "pad_v4 p = Inr q" by (simp add: pad_v4_Inr)
  then show "unpad_v4 (case pad_v4 p of Inr q \<Rightarrow> q) = Inr p"
    using pad_v4_form by (simp add: unpad_padded)
qed

section \<open>Sender and recipient\<close>

lemma encap_decap:
  assumes C: "ecdh_ok C" "kem_ok C"
    and en: "encap_deterministic C sl e (ec_mul_gen_x C scan_priv) (snd (kem_keygen_from_seed C seed)) m = Inr en"
  shows "decap_tag C sl scan_priv (fst (kem_keygen_from_seed C seed)) (ephemeral_pub en) (kem_ct en) = Inr (encap_keys en)"
    and "length (kem_ct en) = KEM_CT_LEN"
proof -
  obtain ct ss s where k: "kem_encap C (kem_ek C seed) m = Some (ct, ss)"
    and s: "ec_shared_x C e (ec_gen_x C scan_priv) = Some s"
    and r: "en = \<lparr> ephemeral_pub = ec_gen_x C e, kem_ct = ct, ss_kem = ss, ss_ec = s,
           encap_keys = derive C sl ss s (ec_gen_x C e) (ec_gen_x C scan_priv) ct \<rparr>"
    using en by (auto simp: encap_deterministic_def res_inv kem_keygen_from_seed_def ecdh_shared_x_def
        ec_mul_gen_x_def Let_def split: prod.splits)
  have "length ct = 1088" and "kem_decap C seed ct = ss"
    using C(2) k by (auto simp: kem_ok_def)
  moreover have "ec_shared_x C scan_priv (ec_gen_x C e) = Some s"
    using C(1) s by (simp add: ecdh_ok_def)
  ultimately show "decap_tag C sl scan_priv (fst (kem_keygen_from_seed C seed)) (ephemeral_pub en) (kem_ct en) = Inr (encap_keys en)"
    and "length (kem_ct en) = KEM_CT_LEN"
    by (simp_all add: r decap_tag_def kem_keygen_from_seed_def KEM_CT_LEN_def Let_def ecdh_shared_x_def ec_mul_gen_x_def)
qed

lemma open_seal:
  assumes "gcm_ok C" and "length nonce = NONCE_LEN"
  shows "open_v2 C keys E (seal_v2_with_nonce C keys E nonce p) = Inr p"
    and "length (seal_v2_with_nonce C keys E nonce p) = NONCE_LEN + 16 + length p"
  using assms by (simp_all add: open_v2_def seal_v2_with_nonce_def gcm_ok_def NONCE_LEN_def)

lemma scan_keygen_Some: "scan_keygen C draws = Some (e, E) \<Longrightarrow> e \<noteq> 0 \<and> E = ec_mul_gen_x C e"
  by (induction draws) (auto simp: Let_def split: if_splits)

lemma receive_assembled:
  assumes C: "ecdh_ok C" "kem_ok C" "gcm_ok C" and n: "length nonce = NONCE_LEN"
    and en: "encap_deterministic C sl e (ec_mul_gen_x C scan_priv) (snd (kem_keygen_from_seed C seed)) m = Inr en"
    and sd: "sd = assemble_v2 C en (seal_v2_with_nonce C (encap_keys en) (ephemeral_pub en) nonce p)"
  shows "split_content_v2 (content sd) = Inr (kem_ct en, seal_v2_with_nonce C (encap_keys en) (ephemeral_pub en) nonce p)"
    and "length (content sd) = KEM_CT_LEN + NONCE_LEN + 16 + length p"
  using encap_decap(2) [OF C(1,2) en] open_seal(2) [OF C(3) n, of "encap_keys en" "ephemeral_pub en" p]
  by (simp_all add: split_content_v2_def sd assemble_v2_def Let_def MIN_CONTENT_V2_LEN_def)

lemma send_v4_cases:
  assumes "send_v4 C draws m nonce R ek p = Some (Inr sd)"
  obtains padded e en where "pad_v4 p = Inr padded" and "encap_deterministic C V4 e R ek m = Inr en"
    and "sd = assemble_v2 C en (seal_v2_with_nonce C (encap_keys en) (ephemeral_pub en) nonce padded)"
  using assms by (auto simp: send_v4_def encap_def res_inv split: sum.splits)

section \<open>Membership secrets\<close>

lemma byte_top_bits: "(b AND 0xf8 = 0) \<longleftrightarrow> unat (b :: byte) < 8"
proof -
  have "\<forall>n \<in> {..<256::nat}. (word_of_nat n AND 0xf8 = (0 :: byte)) \<longleftrightarrow> n < 8"
    by (simp add: lessThan_nat_numeral lessThan_Suc)
  then have "(word_of_nat (unat b) AND 0xf8 = (0 :: byte)) \<longleftrightarrow> unat b < 8"
    using unat_byte_less [of b] by (metis lessThan_iff)
  then show ?thesis by simp
qed

lemma byte_low_bits: "unat (b AND 0x07 :: byte) < 8"
proof -
  have "\<forall>n \<in> {..<256::nat}. unat (word_of_nat n AND 0x07 :: byte) < 8"
    by (simp add: lessThan_nat_numeral lessThan_Suc)
  then have "unat (word_of_nat (unat b) AND 0x07 :: byte) < 8"
    using unat_byte_less [of b] by (metis lessThan_iff)
  then show ?thesis by simp
qed

lemma member_secret_felt_Inr:
  "member_secret_felt m = Inr f \<longleftrightarrow> length m = 32 \<and> f = be_nat m \<and> 0 < f \<and> f < 2 ^ 251"
proof (cases m)
  case Nil
  then show ?thesis by (simp add: member_secret_felt_def MEMBER_SECRET_LEN_def)
next
  case (Cons b bs)
  have z: "(\<forall>x \<in> set m. x = 0) \<longleftrightarrow> be_nat m = 0" if "length m = 32"
  proof
    assume "be_nat m = 0"
    then have "be_bytes (length m) 0 = m" using be_bytes_be_nat [of m] by simp
    then have "be_nat (replicate 32 0) = be_nat m \<and> length (replicate 32 0 :: bytes) = length m"
      using that \<open>be_nat m = 0\<close> by simp
    then have "m = replicate 32 0" by (metis be_nat_inj)
    then show "\<forall>x \<in> set m. x = 0" by simp
  qed (metis be_nat_zeros replicate_eqI)
  show ?thesis
  proof (cases "length m = 32")
    case True
    then have lb: "length bs = 31" using Cons by simp
    have m: "be_nat m = unat b * 256 ^ 31 + be_nat bs" and bs: "be_nat bs < 256 ^ 31"
      using be_nat_less [of bs] by (simp_all add: Cons be_nat_Cons lb)
    have "(unat b < 8) \<longleftrightarrow> be_nat m < 2 ^ 251"
      using m bs by auto
    moreover have "be_nat m < 2 ^ 251 \<Longrightarrow> felt_from_be m = be_nat m"
      by (simp add: felt_from_be_def STARK_PRIME_def)
    ultimately show ?thesis
      using True z
      by (auto simp: member_secret_felt_def MEMBER_SECRET_LEN_def res_inv byte_top_bits Cons)
  next
    case False
    then show ?thesis by (simp add: member_secret_felt_def MEMBER_SECRET_LEN_def)
  qed
qed

lemma member_secret_gen_Some:
  "member_secret_gen draws = Some m \<Longrightarrow> (\<And>d. d \<in> set draws \<Longrightarrow> length d = 32) \<Longrightarrow>
     length m = 32 \<and> unat (m ! 0) < 8 \<and> (\<exists>b \<in> set m. b \<noteq> 0)"
proof (induction draws rule: member_secret_gen.induct)
  case 1
  then show ?case by simp
next
  case (2 d draws)
  show ?case
  proof (cases "\<exists>b \<in> set (d[0 := d ! 0 AND 0x07]). b \<noteq> 0")
    case True
    then have "m = d[0 := d ! 0 AND 0x07]" using "2.prems"(1) by (simp add: Let_def)
    moreover have "length d = 32" using "2.prems"(2) by simp
    ultimately show ?thesis using True byte_low_bits [of "d ! 0"] by simp
  next
    case False
    then have "member_secret_gen draws = Some m" using "2.prems"(1) by (simp add: Let_def)
    then show ?thesis using "2.IH" [OF refl] False "2.prems"(2) by simp
  qed
qed

section \<open>Properties\<close>

text \<open>The v4 padding is exact. \<open>pad_v4\<close> succeeds for a plaintext of at most 4094 bytes and
  only then, with the smallest of the three buckets; \<open>unpad_v4\<close> gives the plaintext back; and
  what \<open>unpad_v4\<close> accepts at all is a two-byte length, the plaintext and zeros filling a
  bucket, so no other bytes decode.\<close>

theorem padding_is_exact:
  "((\<exists>q. pad_v4 p = Inr q) = (length p \<le> 4094))
   \<and> (pad_v4 p = Inr q \<longrightarrow> unpad_v4 q = Inr p \<and> length q = (if length p \<le> 254 then 256 else if length p \<le> 1022 then 1024 else 4096))
   \<and> (unpad_v4 r = Inr p) = (\<exists>b \<in> {256, 1024, 4096}. length p + 2 \<le> b \<and> r = be_bytes 2 (length p) @ p @ replicate (b - 2 - length p) 0)"
proof (intro conjI impI)
  show "(\<exists>q. pad_v4 p = Inr q) = (length p \<le> 4094)"
    by (simp add: pad_v4_Inr MAX_PLAINTEXT_V4_def)
  show "unpad_v4 q = Inr p" if "pad_v4 p = Inr q"
    using that by (intro unpad_padded pad_v4_form)
  show "length q = (if length p \<le> 254 then 256 else if length p \<le> 1022 then 1024 else 4096)" if "pad_v4 p = Inr q"
    using that by (auto simp: pad_v4_Inr MAX_PLAINTEXT_V4_def)
  show "(unpad_v4 r = Inr p) = (\<exists>b \<in> {256, 1024, 4096}. length p + 2 \<le> b \<and> r = be_bytes 2 (length p) @ p @ replicate (b - 2 - length p) 0)"
    by (simp only: unpad_v4_Inr padded_form_def PAD_BUCKETS_def list.set)
qed

theorem padding_is_exact_witness:
  "pad_v4 [1, 2] = Inr ([0, 2, 1, 2] @ replicate 252 0) \<and> unpad_v4 ([0, 2, 1, 2] @ replicate 252 0) = Inr [1, 2]"
proof -
  have "pad_v4 [1, 2] = Inr ([0, 2, 1, 2] @ replicate 252 0)"
    by (simp add: pad_v4_Inr MAX_PLAINTEXT_V4_def numeral_2_eq_2)
  with padding_is_exact [of "[1, 2]" "[0, 2, 1, 2] @ replicate 252 0"] show ?thesis by blast
qed

lemma sent_v4_is_received:
  assumes laws: "ecdh_ok C" "kem_ok C" "gcm_ok C" "hkdf_ok C" and n: "length nonce = NONCE_LEN"
    and draw: "scan_keygen C draws = Some (e, E)"
    and peer: "length (kem_ek C seed) = KEM_EK_LEN" "kem_encap C (kem_ek C seed) m \<noteq> None"
      "ec_shared_x C e (ec_mul_gen_x C scan_priv) \<noteq> None"
    and fits: "length p \<le> 4094"
  shows "\<exists>sd. send_v4 C draws m nonce (ec_mul_gen_x C scan_priv) (kem_ek C seed) p = Some (Inr sd)
      \<and> receive_v4 C scan_priv seed (commitment sd) (sealed_ephemeral_pub sd) (content sd) = Some (Inr p)
      \<and> length (content sd) = (if length p \<le> 254 then 1372 else if length p \<le> 1022 then 2140 else 5212)
      \<and> content_hash sd = content_hash_of C (content sd)
      \<and> commitment sd < 2 ^ 248 \<and> sealed_ephemeral_pub sd = ec_mul_gen_x C e"
proof -
  obtain q where q: "pad_v4 p = Inr q" using fits by (simp add: pad_v4_Inr MAX_PLAINTEXT_V4_def)
  obtain en where en: "encap_deterministic C V4 e (ec_mul_gen_x C scan_priv) (snd (kem_keygen_from_seed C seed)) m = Inr en"
    using peer by (auto simp: encap_deterministic_def ecdh_shared_x_def kem_keygen_from_seed_def Let_def)
  define sd where "sd = assemble_v2 C en (seal_v2_with_nonce C (encap_keys en) (ephemeral_pub en) nonce q)"
  have "send_v4 C draws m nonce (ec_mul_gen_x C scan_priv) (kem_ek C seed) p = Some (Inr sd)"
    using q en draw by (simp add: send_v4_def encap_def kem_keygen_from_seed_def sd_def)
  moreover have "receive_v4 C scan_priv seed (commitment sd) (sealed_ephemeral_pub sd) (content sd) = Some (Inr p)"
    using receive_assembled(1) [OF laws(1-3) n en sd_def] encap_decap(1) [OF laws(1,2) en]
      open_seal(1) [OF laws(3) n, of "encap_keys en" "ephemeral_pub en" q] unpad_padded [OF pad_v4_form [OF q]]
    by (simp add: receive_v4_def sd_def assemble_v2_def kem_keygen_from_seed_def Let_def)
  moreover have "length (content sd) = (if length p \<le> 254 then 1372 else if length p \<le> 1022 then 2140 else 5212)"
    using receive_assembled(2) [OF laws(1-3) n en sd_def] q
    by (auto simp: pad_v4_Inr MAX_PLAINTEXT_V4_def KEM_CT_LEN_def NONCE_LEN_def)
  moreover have "content_hash sd = content_hash_of C (content sd)"
    by (simp add: sd_def assemble_v2_def Let_def)
  moreover have "commitment sd < 2 ^ 248"
  proof -
    obtain bs where bs: "commitment sd = felt_from_be bs" "length bs = 31"
      using en laws(4) by (auto simp: sd_def assemble_v2_def encap_deterministic_def res_inv Let_def derive_def hkdf_ok_def split: prod.splits)
    then show ?thesis using be_nat_less [of bs] by (simp add: felt_from_be_small)
  qed
  moreover have "sealed_ephemeral_pub sd = ec_mul_gen_x C e"
    using en by (auto simp: sd_def assemble_v2_def encap_deterministic_def res_inv Let_def split: prod.splits)
  ultimately show ?thesis by blast
qed

text \<open>C4: End to end: for every plaintext that fits, a v4 send to a member's published keys
  returns, and the member's secret keys receive exactly that plaintext from what is published;
  the published length is one of three and says only which bucket, the published hash is the
  content's, and the commitment is a 31-byte value.\<close>

theorem v4_send_then_receive:
  assumes laws: "ecdh_ok C" "kem_ok C" "gcm_ok C" "hkdf_ok C" and n: "length nonce = NONCE_LEN"
    and draw: "scan_keygen C draws = Some (e, E)"
    and peer: "length (kem_ek C seed) = KEM_EK_LEN" "kem_encap C (kem_ek C seed) m \<noteq> None"
      "ec_shared_x C e (ec_mul_gen_x C scan_priv) \<noteq> None"
    and fits: "length p \<le> 4094"
  shows "\<exists>sd. send_v4 C draws m nonce (ec_mul_gen_x C scan_priv) (kem_ek C seed) p = Some (Inr sd)
      \<and> receive_v4 C scan_priv seed (commitment sd) (sealed_ephemeral_pub sd) (content sd) = Some (Inr p)
      \<and> length (content sd) = (if length p \<le> 254 then 1372 else if length p \<le> 1022 then 2140 else 5212)
      \<and> content_hash sd = content_hash_of C (content sd)
      \<and> commitment sd < 2 ^ 248"
  using sent_v4_is_received [OF assms] by blast

theorem v4_send_then_receive_witness:
  "\<exists>sd. send_v4 demo_crates [be_bytes 32 0, be_bytes 32 5] (replicate 32 3) (replicate 12 4)
      (ec_mul_gen_x demo_crates 9) (kem_ek demo_crates (replicate 64 7)) (str_bytes ''hi'') = Some (Inr sd)
   \<and> receive_v4 demo_crates 9 (replicate 64 7) (commitment sd) (sealed_ephemeral_pub sd) (content sd) = Some (Inr (str_bytes ''hi''))"
proof -
  have z: "felt_from_be (be_bytes 32 k) = k" if "k < 100" for k
    using that by (simp add: felt_from_be_def be_nat_be_bytes STARK_PRIME_def)
  have draw: "scan_keygen demo_crates [be_bytes 32 0, be_bytes 32 5] = Some (5, ec_mul_gen_x demo_crates 5)"
    by (simp add: z demo_crates_def STARK_PRIME_def del: be_bytes.simps)
  have "length (kem_ek demo_crates (replicate 64 7)) = KEM_EK_LEN"
    and "kem_encap demo_crates (kem_ek demo_crates (replicate 64 7)) (replicate 32 3) \<noteq> None"
    and "ec_shared_x demo_crates 5 (ec_mul_gen_x demo_crates 9) \<noteq> None"
    by (simp_all add: demo_crates_def KEM_EK_LEN_def)
  from v4_send_then_receive [OF demo_ecdh_ok demo_kem_ok demo_gcm_ok demo_hkdf_ok _ draw this, of "replicate 12 4" "str_bytes ''hi''"]
  show ?thesis by (auto simp: NONCE_LEN_def)
qed

text \<open>The stored membership and ticket secrets: whatever the generator returns from 32-byte
  draws is accepted by \<open>member_secret_felt\<close>; what it accepts is exactly the 32-byte encodings
  of the values in \<open>[1, 2 ^ 251)\<close>, unreduced, so encoding the value gives the stored bytes back.\<close>

theorem member_secret_range:
  "(member_secret_gen draws = Some g \<and> (\<forall>d \<in> set draws. length d = 32) \<longrightarrow> (\<exists>f. member_secret_felt g = Inr f))
   \<and> (member_secret_felt m = Inr f) = (length m = 32 \<and> m = felt_to_be f \<and> 0 < f \<and> f < 2 ^ 251)"
proof (intro conjI impI)
  assume a: "member_secret_gen draws = Some g \<and> (\<forall>d \<in> set draws. length d = 32)"
  then have "length g = 32 \<and> unat (g ! 0) < 8 \<and> (\<exists>b \<in> set g. b \<noteq> 0)" using member_secret_gen_Some by blast
  then show "\<exists>f. member_secret_felt g = Inr f"
    by (simp add: member_secret_felt_def MEMBER_SECRET_LEN_def byte_top_bits)
next
  have "be_bytes 32 (be_nat m) = m" if "length m = 32"
    using be_bytes_be_nat [of m] that by simp
  moreover have "be_nat (felt_to_be f) = f" if "f < 2 ^ 251"
    using that by (simp add: felt_to_be_def be_nat_be_bytes)
  ultimately show "(member_secret_felt m = Inr f) = (length m = 32 \<and> m = felt_to_be f \<and> 0 < f \<and> f < 2 ^ 251)"
    by (auto simp: member_secret_felt_Inr felt_to_be_def)
qed

theorem member_secret_range_witness:
  "member_secret_gen [replicate 32 0, replicate 31 0 @ [9]] = Some (replicate 31 0 @ [9])
   \<and> (\<exists>f. member_secret_felt (replicate 31 0 @ [9]) = Inr f)"
proof -
  have "replicate 31 0 = (0 :: byte) # replicate 30 0" and "replicate 32 0 = (0 :: byte) # replicate 31 0"
    by (simp_all add: numeral_eq_Suc)
  then have "member_secret_gen [replicate 32 0, replicate 31 0 @ [9]] = Some (replicate 31 0 @ [9])"
    by simp
  moreover have "length (replicate 31 0 @ [9] :: bytes) = 32" by simp
  ultimately show ?thesis
    using conjunct1 [OF member_secret_range [of "[replicate 32 0, replicate 31 0 @ [9]]" "replicate 31 0 @ [9]" "[]" 0]]
    by (simp del: member_secret_gen.simps)
qed

end
