(* ===== verification/Registry.thy ===== *)
theory Registry
  imports Tree Crypto "HOL-Library.Multiset"
begin

text \<open>
  \<^verbatim>\<open>core/src/registry.rs\<close>: the store's registrations rebuilt from its \<^verbatim>\<open>UserRegistered\<close>
  events. The membership tree is reached through the \<open>accumulator\<close> interface of \<open>Tree\<close>.
\<close>

section \<open>Registrations\<close>

record registration =
  owner :: felt
  handle :: felt
  scan_pub :: felt
  leaf_index :: nat
  m_commit :: felt
  kem_pubkey :: bytes
  kem_digest :: felt

record member =
  mem_scan_pub :: felt
  mem_kem_digest :: felt
  mem_m_commit :: felt
  mem_leaf_index :: nat

definition registration_from_event :: "crates \<Rightarrow> string list \<Rightarrow> string list \<Rightarrow> registration res" where
  "registration_from_event C keys data =
     ensure (length keys = 2) (Decode BadShape) (
     ensure (4 < length data) (Decode BadShape) (
     rbind (rmap (felt_from_hex C) data) (\<lambda>fs.
     rbind (bytearray_decode (drop 4 fs)) (\<lambda>(pubkey, used).
     ensure (4 + used = length fs) (Decode BadShape) (
     rbind (felt_from_hex C (keys ! 1)) (\<lambda>own.
     rbind (rbind (felt_to_u64 (fs ! 2)) to_u32) (\<lambda>idx.
     Inr \<lparr> owner = own, handle = fs ! 0, scan_pub = fs ! 1, leaf_index = idx, m_commit = fs ! 3,
           kem_pubkey = pubkey, kem_digest = kem_digest_of C pubkey \<rparr>)))))))"

definition registration_leaf :: "crates \<Rightarrow> registration \<Rightarrow> felt" where
  "registration_leaf C r = leaf_v3 C (scan_pub r) (kem_digest r) (m_commit r)"

definition registration_member :: "registration \<Rightarrow> member" where
  "registration_member r =
     \<lparr> mem_scan_pub = scan_pub r, mem_kem_digest = kem_digest r, mem_m_commit = m_commit r,
       mem_leaf_index = leaf_index r \<rparr>"

section \<open>The registry\<close>

record registry =
  registrations :: "registration list"
  by_handle :: "felt \<Rightarrow> nat option"
  reg_tree :: merkle_tree

fun registry_loop :: "crates \<Rightarrow> nat \<Rightarrow> registration list \<Rightarrow> (felt \<Rightarrow> nat option) \<Rightarrow> merkle_tree
    \<Rightarrow> ((felt \<Rightarrow> nat option) \<times> merkle_tree) res" where
  "registry_loop C i [] handles tree = Inr (handles, tree)"
| "registry_loop C i (r # rs) handles tree =
     ensure (leaf_index r = i) (Tickets NotContiguous) (
     ensure (handles (handle r) = None) (Tickets RegisteredTwice) (
     rbind (mt_insert C tree (registration_leaf C r)) (\<lambda>(_, tree').
     registry_loop C (i + 1) rs (handles(handle r \<mapsto> i)) tree')))"

definition from_registrations :: "crates \<Rightarrow> registration list \<Rightarrow> registry res" where
  "from_registrations C rs =
     (let sorted_rs = sort_key leaf_index rs
      in rbind (registry_loop C 0 sorted_rs Map.empty (mt_new C)) (\<lambda>(handles, tree).
         Inr \<lparr> registrations = sorted_rs, by_handle = handles, reg_tree = tree \<rparr>))"

definition registry_from_events :: "crates \<Rightarrow> (string list \<times> string list) list \<Rightarrow> registry res" where
  "registry_from_events C events =
     rbind (rmap (\<lambda>(keys, data). registration_from_event C keys data) events) (from_registrations C)"

definition registry_len :: "registry \<Rightarrow> nat" where
  "registry_len g = length (registrations g)"

definition registry_get :: "registry \<Rightarrow> string \<Rightarrow> registration res" where
  "registry_get g name =
     rbind (short_string_felt name) (\<lambda>h.
     rbind (of_opt (Tickets NotRegistered) (by_handle g h)) (\<lambda>i.
     Inr (registrations g ! i)))"

definition registry_root :: "registry \<Rightarrow> felt" where
  "registry_root g = mt_root (reg_tree g)"

definition registry_path :: "registry \<Rightarrow> nat \<Rightarrow> felt list res" where
  "registry_path g idx = ensure (idx < registry_len g) (Tickets NotInTree) (Inr (mt_path (reg_tree g) idx))"

section \<open>Building\<close>

definition contiguous_from :: "nat \<Rightarrow> registration list \<Rightarrow> bool" where
  "contiguous_from i rs = (map leaf_index rs = [i..<i + length rs])"

lemma contiguous_Cons: "contiguous_from i (r # rs) \<longleftrightarrow> leaf_index r = i \<and> contiguous_from (i + 1) rs"
  by (auto simp: contiguous_from_def upt_conv_Cons simp del: upt_Suc)

lemma registry_loop_ok:
  assumes "mt_ok C t ls" and "contiguous_from i rs" and "distinct (map handle rs)"
    and "\<And>r. r \<in> set rs \<Longrightarrow> m (handle r) = None" and "length ls + length rs \<le> 2 ^ TREE_DEPTH"
  shows "\<exists>m' t'. registry_loop C i rs m t = Inr (m', t') \<and> mt_ok C t' (ls @ map (registration_leaf C) rs)
     \<and> (\<forall>h. m' h = (case position (\<lambda>r. handle r = h) rs of Some j \<Rightarrow> Some (i + j) | None \<Rightarrow> m h))"
  using assms
proof (induction rs arbitrary: i m t ls)
  case Nil
  then show ?case by simp
next
  case (Cons r rs)
  obtain t1 where t1: "mt_insert C t (registration_leaf C r) = Inr (length ls, t1)"
    and ok1: "mt_ok C t1 (ls @ [registration_leaf C r])"
    using mt_insert_ok [OF Cons.prems(1)] Cons.prems(5) by (metis One_nat_def add_leE length_Cons less_eq_Suc_le add_Suc_right plus_1_eq_Suc add.commute)
  have c: "leaf_index r = i" "contiguous_from (i + 1) rs" using Cons.prems(2) by (auto simp: contiguous_Cons)
  have d: "distinct (map handle rs)" "handle r \<notin> handle ` set rs" using Cons.prems(3) by auto
  have new: "(m(handle r \<mapsto> i)) (handle r') = None" if "r' \<in> set rs" for r'
    using that d Cons.prems(4) by (auto simp: image_iff)
  have len: "length (ls @ [registration_leaf C r]) + length rs \<le> 2 ^ TREE_DEPTH" using Cons.prems(5) by simp
  have "\<exists>m' t'. registry_loop C (i + 1) rs (m(handle r \<mapsto> i)) t1 = Inr (m', t')
    \<and> mt_ok C t' ((ls @ [registration_leaf C r]) @ map (registration_leaf C) rs)
    \<and> (\<forall>h. m' h = (case position (\<lambda>r. handle r = h) rs of Some j \<Rightarrow> Some (i + 1 + j) | None \<Rightarrow> (m(handle r \<mapsto> i)) h))"
    by (rule Cons.IH [OF ok1 c(2) d(1) _ len]) (rule new)
  then obtain m' t' where l: "registry_loop C (i + 1) rs (m(handle r \<mapsto> i)) t1 = Inr (m', t')"
    and ok': "mt_ok C t' ((ls @ [registration_leaf C r]) @ map (registration_leaf C) rs)"
    and m': "\<And>h. m' h = (case position (\<lambda>r. handle r = h) rs of Some j \<Rightarrow> Some (i + 1 + j) | None \<Rightarrow> (m(handle r \<mapsto> i)) h)"
    by blast
  have "m' h = (case position (\<lambda>r. handle r = h) (r # rs) of Some j \<Rightarrow> Some (i + j) | None \<Rightarrow> m h)" for h
  proof (cases "handle r = h")
    case True
    then have "position (\<lambda>r. handle r = h) rs = None" using d(2) by (force simp: position_None image_iff)
    with True m' show ?thesis by simp
  next
    case False
    with m' show ?thesis by (auto split: option.split)
  qed
  then show ?case using l ok' t1 c Cons.prems(4) [of r] by simp
qed

lemma registry_loop_Inr:
  "registry_loop C i rs m t = Inr (m', t') \<Longrightarrow> contiguous_from i rs \<and> distinct (map handle rs)
     \<and> (\<forall>r \<in> set rs. m (handle r) = None)
     \<and> insert_all (mt_insert C) t (map (registration_leaf C) rs) = Inr t'"
proof (induction rs arbitrary: i m t)
  case Nil
  then show ?case by (simp add: contiguous_from_def)
next
  case (Cons r rs)
  then obtain n t1 where s: "leaf_index r = i" "m (handle r) = None"
    "mt_insert C t (registration_leaf C r) = Inr (n, t1)"
    "registry_loop C (i + 1) rs (m(handle r \<mapsto> i)) t1 = Inr (m', t')"
    by (auto simp: res_inv)
  from Cons.IH [OF s(4)] s show ?case
    by (auto simp: contiguous_Cons split: if_splits)
qed

lemma insert_all_length:
  "mt_ok C t ls \<Longrightarrow> length ls \<le> 2 ^ TREE_DEPTH \<Longrightarrow> insert_all (mt_insert C) t xs = Inr t' \<Longrightarrow> length ls + length xs \<le> 2 ^ TREE_DEPTH"
proof (induction xs arbitrary: t ls)
  case Nil
  then show ?case by simp
next
  case (Cons x xs)
  show ?case
  proof (cases "length ls < 2 ^ TREE_DEPTH")
    case True
    then obtain t1 where "mt_insert C t x = Inr (length ls, t1)" "mt_ok C t1 (ls @ [x])"
      using mt_insert_ok [OF Cons.prems(1)] by blast
    then show ?thesis using Cons.IH [of t1 "ls @ [x]"] Cons.prems(3) True by simp
  next
    case False
    then show ?thesis using mt.insert_full [OF Cons.prems(1)] Cons.prems(3) by simp
  qed
qed

definition well_registered :: "registration list \<Rightarrow> bool" where
  "well_registered rs = (sort (map leaf_index rs) = [0..<length rs] \<and> distinct (map handle rs) \<and> length rs \<le> 2 ^ 20)"

lemma sort_key_contiguous: "contiguous_from 0 (sort_key leaf_index rs) \<longleftrightarrow> sort (map leaf_index rs) = [0..<length rs]"
proof -
  have "map leaf_index (sort_key leaf_index rs) = sort (map leaf_index rs)"
    by (metis mset_map mset_sort properties_for_sort sorted_sort_key)
  then show ?thesis by (simp add: contiguous_from_def)
qed

lemma distinct_sorted_handles: "distinct (map handle (sort_key leaf_index rs)) \<longleftrightarrow> distinct (map handle rs)"
  by (simp add: distinct_map)

lemma from_registrations_ok:
  assumes "well_registered rs"
  shows "\<exists>g. from_registrations C rs = Inr g \<and> registrations g = sort_key leaf_index rs
     \<and> mt_ok C (reg_tree g) (map (registration_leaf C) (registrations g))
     \<and> (\<forall>h. by_handle g h = position (\<lambda>r. handle r = h) (registrations g))"
proof -
  have opt: "(case x of Some j \<Rightarrow> Some (0 + j) | None \<Rightarrow> None) = x" for x :: "nat option"
    by (cases x) auto
  have "\<exists>m' t'. registry_loop C 0 (sort_key leaf_index rs) Map.empty (mt_new C) = Inr (m', t')
      \<and> mt_ok C t' ([] @ map (registration_leaf C) (sort_key leaf_index rs))
     \<and> (\<forall>h. m' h = (case position (\<lambda>r. handle r = h) (sort_key leaf_index rs) of Some j \<Rightarrow> Some (0 + j) | None \<Rightarrow> None))"
    by (rule registry_loop_ok [OF mt_new_ok])
      (use assms in \<open>auto simp: well_registered_def sort_key_contiguous distinct_sorted_handles TREE_DEPTH_def\<close>)
  then show ?thesis
    by (auto simp: from_registrations_def Let_def opt)
qed

lemma from_registrations_Inr:
  assumes "from_registrations C rs = Inr g"
  shows "well_registered rs"
proof -
  obtain m' t' where l: "registry_loop C 0 (sort_key leaf_index rs) Map.empty (mt_new C) = Inr (m', t')"
    using assms by (auto simp: from_registrations_def Let_def res_inv)
  from registry_loop_Inr [OF this] insert_all_length [OF mt_new_ok] show ?thesis
    by (force simp: well_registered_def sort_key_contiguous distinct_sorted_handles TREE_DEPTH_def)
qed

section \<open>Looking up and proving\<close>

lemma sorted_nth_leaf_index:
  assumes "well_registered rs" and "i < length rs"
  shows "leaf_index (sort_key leaf_index rs ! i) = i"
proof -
  have "map leaf_index (sort_key leaf_index rs) = [0..<length rs]"
    using assms(1) by (metis contiguous_from_def add_0 length_sort sort_key_contiguous well_registered_def)
  then have "map leaf_index (sort_key leaf_index rs) ! i = [0..<length rs] ! i" by simp
  then show ?thesis using assms(2) by simp
qed

lemma sorted_nth_of:
  assumes "well_registered rs" and "r \<in> set rs"
  shows "leaf_index r < length rs" and "sort_key leaf_index rs ! leaf_index r = r"
proof -
  obtain i where "i < length rs" and "sort_key leaf_index rs ! i = r"
    using assms(2) by (metis in_set_conv_nth length_sort set_sort)
  with sorted_nth_leaf_index [OF assms(1)] show "leaf_index r < length rs" and "sort_key leaf_index rs ! leaf_index r = r"
    by auto
qed

lemma position_handle:
  assumes "well_registered rs" and "r \<in> set rs"
  shows "position (\<lambda>x. handle x = handle r) (sort_key leaf_index rs) = Some (leaf_index r)"
proof -
  have d: "distinct (map handle (sort_key leaf_index rs))"
    using assms(1) by (simp add: well_registered_def distinct_sorted_handles)
  note at = sorted_nth_of [OF assms]
  have "handle (sort_key leaf_index rs ! j) \<noteq> handle r" if j: "j < leaf_index r" for j
    using nth_eq_iff_index_eq [OF d, of j "leaf_index r"] j at by simp
  then show ?thesis using sorted_nth_of [OF assms] by (simp add: position_Some)
qed

lemma well_registered_perm:
  assumes "well_registered rs" and "mset rs' = mset rs"
  shows "well_registered rs'" and "sort_key leaf_index rs' = sort_key leaf_index rs"
proof -
  have "sort (map leaf_index rs') = sort (map leaf_index rs)"
    by (rule properties_for_sort) (simp_all add: assms(2))
  moreover have "distinct (map handle rs') = distinct (map handle rs)"
    by (rule mset_eq_imp_distinct_iff) (simp add: assms(2))
  moreover have "length rs' = length rs" using assms(2) by (rule mset_eq_length)
  ultimately show "well_registered rs'" using assms(1) by (simp add: well_registered_def)
  have "inj_on leaf_index (set rs)"
    using sorted_nth_of(2) [OF assms(1)] by (metis inj_onI)
  then have "inj_on leaf_index (set rs')" using assms(2) by (metis set_mset_mset)
  then show "sort_key leaf_index rs' = sort_key leaf_index rs"
    by (intro sort_key_inj_key_eq) (simp_all add: assms(2))
qed

section \<open>Properties\<close>

text \<open>Rebuilding the registry succeeds exactly when the leaf indices are 0, 1, 2, ... without
  gap or duplicate, no handle is registered twice and the tree holds them all; its root is then
  that of the leaves in index order, and the order the events arrive in does not matter.\<close>

theorem registry_rebuild:
  "is_ok (from_registrations C rs) = (sort (map leaf_index rs) = [0..<length rs] \<and> distinct (map handle rs) \<and> length rs \<le> 2 ^ 20)
   \<and> (from_registrations C rs = Inr g \<longrightarrow>
        registry_root g = spec_node C (map (registration_leaf C) (sort_key leaf_index rs)) TREE_DEPTH 0
        \<and> (\<forall>rs'. mset rs' = mset rs \<longrightarrow> from_registrations C rs' = Inr g))"
proof (intro conjI impI allI)
  show "is_ok (from_registrations C rs) = (sort (map leaf_index rs) = [0..<length rs] \<and> distinct (map handle rs) \<and> length rs \<le> 2 ^ 20)"
  proof (cases "from_registrations C rs")
    case (Inl e)
    have "\<not> well_registered rs"
    proof
      assume "well_registered rs"
      from from_registrations_ok [OF this, of C] obtain g where "from_registrations C rs = Inr g" by blast
      with Inl show False by simp
    qed
    with Inl show ?thesis by (simp add: well_registered_def)
  next
    case (Inr x)
    then have "well_registered rs" by (rule from_registrations_Inr)
    with Inr show ?thesis by (simp add: well_registered_def)
  qed
  assume g: "from_registrations C rs = Inr g"
  then have w: "well_registered rs" by (rule from_registrations_Inr)
  show "registry_root g = spec_node C (map (registration_leaf C) (sort_key leaf_index rs)) TREE_DEPTH 0"
    using from_registrations_ok [OF w, of C] g mt_root_spec by (auto simp: registry_root_def)
  fix rs' assume "mset rs' = mset rs"
  from well_registered_perm [OF w this] g show "from_registrations C rs' = Inr g"
    by (simp add: from_registrations_def Let_def)
qed

definition demo_registration :: "nat \<Rightarrow> nat \<Rightarrow> registration" where
  "demo_registration i h = \<lparr> owner = 1, handle = h, scan_pub = 2, leaf_index = i, m_commit = 3, kem_pubkey = [], kem_digest = 4 \<rparr>"

theorem registry_rebuild_witness:
  "\<exists>g. from_registrations demo_crates [demo_registration 1 10, demo_registration 0 11] = Inr g
     \<and> from_registrations demo_crates [demo_registration 0 11, demo_registration 1 10] = Inr g"
proof -
  have "is_ok (from_registrations demo_crates [demo_registration 1 10, demo_registration 0 11])"
    unfolding conjunct1 [OF registry_rebuild [of demo_crates "[demo_registration 1 10, demo_registration 0 11]"]]
    by (simp add: demo_registration_def)
  then obtain g where g: "from_registrations demo_crates [demo_registration 1 10, demo_registration 0 11] = Inr g"
    by (cases "from_registrations demo_crates [demo_registration 1 10, demo_registration 0 11]") simp_all
  moreover have "mset [demo_registration 0 11, demo_registration 1 10] = mset [demo_registration 1 10, demo_registration 0 11]"
    by simp
  ultimately have "from_registrations demo_crates [demo_registration 0 11, demo_registration 1 10] = Inr g"
    using conjunct2 [OF conjunct2 [OF registry_rebuild [of demo_crates "[demo_registration 1 10, demo_registration 0 11]" g], THEN mp, OF g]]
    by (auto simp only:)
  with g show ?thesis by blast
qed

text \<open>C8: In a rebuilt registry, looking a registered handle up returns its registration, and the
  path of its leaf index proves its leaf against the registry's root; a handle nobody registered
  is refused.\<close>

theorem registered_member_proves:
  assumes "from_registrations C rs = Inr g" and "short_string_felt name = Inr h"
  shows "(r \<in> set rs \<and> handle r = h \<longrightarrow> registry_get g name = Inr r
      \<and> (\<exists>p. registry_path g (leaf_index r) = Inr p
           \<and> fold_path C (registration_leaf C r) (leaf_index r) p = Inr (registry_root g)))
    \<and> (h \<notin> handle ` set rs \<longrightarrow> registry_get g name = Inl (Tickets NotRegistered))"
proof (intro conjI impI)
  have w: "well_registered rs" using assms(1) by (rule from_registrations_Inr)
  have g: "registrations g = sort_key leaf_index rs" "mt_ok C (reg_tree g) (map (registration_leaf C) (registrations g))"
    "\<And>h. by_handle g h = position (\<lambda>r. handle r = h) (registrations g)"
    using from_registrations_ok [OF w, of C] assms(1) by auto
  {
    assume r: "r \<in> set rs \<and> handle r = h"
    then have i: "leaf_index r < length rs" "registrations g ! leaf_index r = r"
      using sorted_nth_of [OF w, of r] g(1) by auto
    show "registry_get g name = Inr r"
      using position_handle [OF w, of r] r g(1,3) i(2) assms(2) by (simp add: registry_get_def)
    have "fold_path C (map (registration_leaf C) (registrations g) ! leaf_index r) (leaf_index r) (mt_path (reg_tree g) (leaf_index r)) = Inr (mt_root (reg_tree g))"
      by (rule mt.member_proof [OF g(2)]) (use i w g(1) in \<open>auto simp: well_registered_def TREE_DEPTH_def\<close>)
    then show "\<exists>p. registry_path g (leaf_index r) = Inr p
           \<and> fold_path C (registration_leaf C r) (leaf_index r) p = Inr (registry_root g)"
      using i g(1) by (simp add: registry_path_def registry_len_def registry_root_def)
  }
  assume "h \<notin> handle ` set rs"
  then have "position (\<lambda>r. handle r = h) (sort_key leaf_index rs) = None" by (auto simp: position_None)
  then show "registry_get g name = Inl (Tickets NotRegistered)"
    using g(1,3) assms(2) by (simp add: registry_get_def)
qed

theorem registered_member_proves_witness:
  "\<exists>g p. from_registrations demo_crates [demo_registration 1 97, demo_registration 0 98] = Inr g
     \<and> registry_get g ''a'' = Inr (demo_registration 1 97) \<and> registry_path g 1 = Inr p"
proof -
  have "well_registered [demo_registration 1 97, demo_registration 0 98]"
    by (simp add: well_registered_def demo_registration_def)
  from from_registrations_ok [OF this]
  obtain g where g: "from_registrations demo_crates [demo_registration 1 97, demo_registration 0 98] = Inr g" by blast
  have "short_string_felt ''a'' = Inr 97"
    by (simp add: short_string_felt_def ascii_def felt_from_be_def be_nat_append str_bytes_def be_nat_Cons STARK_PRIME_def)
  from registered_member_proves [OF g this, of "demo_registration 1 97"] g show ?thesis
    by (auto simp: demo_registration_def)
qed

text \<open>The event as the store's contract emits it.\<close>

definition registration_event :: "crates \<Rightarrow> felt \<Rightarrow> registration \<Rightarrow> string list \<times> string list" where
  "registration_event C key0 r =
     ([felt_to_hex C key0, felt_to_hex C (owner r)],
      map (felt_to_hex C) ([handle r, scan_pub r, leaf_index r, m_commit r] @ bytearray_felts (kem_pubkey r)))"

text \<open>A \<^verbatim>\<open>UserRegistered\<close> event is read back as the registration it was emitted for, key
  bytes and digest included; with one more data felt appended it is refused.\<close>

theorem registration_event_roundtrip:
  assumes C: "felt_hex_ok C" and r: "felt_ok (owner r)" "felt_ok (handle r)" "felt_ok (scan_pub r)" "felt_ok (m_commit r)"
    and i: "leaf_index r < 2 ^ 32" and k: "length (kem_pubkey r) < 2 ^ 64" "kem_digest r = kem_digest_of C (kem_pubkey r)"
    and ev: "(keys, data) = registration_event C key0 r"
  shows "registration_from_event C keys data = Inr r
    \<and> (felt_ok x \<longrightarrow> registration_from_event C keys (data @ [felt_to_hex C x]) = Inl (Decode BadShape))"
proof (intro conjI impI)
  let ?fs = "[handle r, scan_pub r, leaf_index r, m_commit r] @ bytearray_felts (kem_pubkey r)"
  have ok: "felt_ok f" if "f \<in> set ?fs" for f
    using that r i bytearray_felts_ok [OF k(1)] by (auto simp: felt_ok_def STARK_PRIME_def)
  have parse: "rmap (felt_from_hex C) (map (felt_to_hex C) fs) = Inr fs" if "\<And>f. f \<in> set fs \<Longrightarrow> felt_ok f" for fs
    using that by (induction fs) (auto simp: C)
  have idx: "felt_to_u64 (leaf_index r) = Inr (leaf_index r)" using i by (intro u64.dec_enc) simp
  have len: "4 < length ?fs" by (simp add: length_bytearray_felts)
  have e: "keys = [felt_to_hex C key0, felt_to_hex C (owner r)]" "data = map (felt_to_hex C) ?fs"
    using ev by (simp_all add: registration_event_def)
  have d: "bytearray_decode (bytearray_felts (kem_pubkey r) @ rest) = Inr (kem_pubkey r, length (bytearray_felts (kem_pubkey r)))" for rest
    by (rule bytearray.fdec_fenc) (rule k(1))
  have p: "rmap (felt_from_hex C) (map (felt_to_hex C) ?fs) = Inr ?fs"
    by (rule parse) (rule ok)
  show "registration_from_event C keys data = Inr r"
    unfolding registration_from_event_def e p
    using d [of "[]"] idx i r(1) len by (simp add: C k(2) [symmetric] to_u32_def del: map_append)
  assume x: "felt_ok x"
  have p': "rmap (felt_from_hex C) (data @ [felt_to_hex C x]) = Inr (?fs @ [x])"
    unfolding e using parse [of "?fs @ [x]"] ok x by auto
  show "registration_from_event C keys (data @ [felt_to_hex C x]) = Inl (Decode BadShape)"
    unfolding registration_from_event_def p' using d [of "[x]"] len by (simp add: e)
qed

theorem registration_event_roundtrip_witness:
  "(let r = (demo_registration 5 97)\<lparr>kem_pubkey := [1, 2, 3], kem_digest := kem_digest_of demo_crates [1, 2, 3]\<rparr>
    in registration_from_event demo_crates (fst (registration_event demo_crates 9 r)) (snd (registration_event demo_crates 9 r)) = Inr r)"
proof -
  define r where "r = (demo_registration 5 97)\<lparr>kem_pubkey := [1, 2, 3], kem_digest := kem_digest_of demo_crates [1, 2, 3]\<rparr>"
  have "felt_ok (owner r)" "felt_ok (handle r)" "felt_ok (scan_pub r)" "felt_ok (m_commit r)" "leaf_index r < 2 ^ 32"
    "length (kem_pubkey r) < 2 ^ 64" "kem_digest r = kem_digest_of demo_crates (kem_pubkey r)"
    by (simp_all add: r_def demo_registration_def felt_ok_def STARK_PRIME_def)
  from registration_event_roundtrip [OF demo_felt_hex_ok this, of _ _ 9 0] show ?thesis
    by (simp add: r_def [symmetric])
qed

end
