(* ===== verification/Config.thy ===== *)
theory Config
  imports Crypto
begin

text \<open>
  \<^verbatim>\<open>core/src/config.rs\<close>: a profile's configuration and keys. A file of the profile is its
  parsed content, \<open>None\<close> when it does not exist; \<open>io\<close> is what the environment does to one
  call (a vault that is locked, a disk that fails). A write replaces the whole file or leaves it
  (\<open>write_atomic\<close>: a temporary file in the same directory, then a rename).
\<close>

section \<open>Files\<close>

type_synonym 'a stored = "'a option"

record io =
  read_fails :: "err option"
  write_fails :: "err option"

definition io_ok :: io where
  "io_ok = \<lparr>read_fails = None, write_fails = None\<rparr>"

definition read_file :: "io \<Rightarrow> 'a \<Rightarrow> 'a res" where
  "read_file io x = (case read_fails io of Some e \<Rightarrow> Inl e | None \<Rightarrow> Inr x)"

definition write_file :: "io \<Rightarrow> 'a \<Rightarrow> 'a stored \<Rightarrow> 'a stored \<times> unit res" where
  "write_file io x f = (case write_fails io of Some e \<Rightarrow> (f, Inl e) | None \<Rightarrow> (Some x, Inr ()))"

text \<open>\<^verbatim>\<open>write_atomic\<close> on a directory (names to contents): the temporary file, then the rename.
  \<open>fails\<close> says after which step the call stops, if it does.\<close>

datatype write_stop = AtCreate | AtData bytes | AtRename

definition write_atomic :: "string \<Rightarrow> string \<Rightarrow> bytes \<Rightarrow> write_stop option \<Rightarrow> (string \<Rightarrow> bytes option) \<Rightarrow> (string \<Rightarrow> bytes option) \<times> unit res" where
  "write_atomic name pid bs stop dir =
     (let tmp = ''.'' @ name @ ''.tmp-'' @ pid
      in case stop of
           Some AtCreate \<Rightarrow> (dir, Inl (File IoError))
         | Some (AtData part) \<Rightarrow> (dir(tmp \<mapsto> part), Inl (File IoError))
         | Some AtRename \<Rightarrow> (dir(tmp \<mapsto> bs), Inl (File IoError))
         | None \<Rightarrow> ((dir(tmp := None))(name \<mapsto> bs), Inr ()))"

section \<open>Addresses\<close>

definition same_address :: "crates \<Rightarrow> string \<Rightarrow> string \<Rightarrow> bool" where
  "same_address C a b =
     (case (felt_of_hex C a, felt_of_hex C b) of (Some x, Some y) \<Rightarrow> x = y | _ \<Rightarrow> False)"

definition SEPOLIA_POOL_V4 :: string where
  "SEPOLIA_POOL_V4 = ''0x07ba165780beacf1e4dd8fae2cbeb3873afdd0e3b806fb60fb1563fc2860e9eb''"
definition SEPOLIA_POOL_V4_DEPLOY_BLOCK :: nat where "SEPOLIA_POOL_V4_DEPLOY_BLOCK = 16258239"
definition SEPOLIA_V4_TICKET_PRICE_FRI :: nat where "SEPOLIA_V4_TICKET_PRICE_FRI = 3000000000000000000"
definition SEPOLIA_V4_SEND_PROVER :: string where
  "SEPOLIA_V4_SEND_PROVER = ''0x0496b7e39ea515c48e8f37dd588ed1ff16c86b3ff7619c6a30ae7b473f902973''"
definition SEPOLIA_V4_VIRTUAL_SENDER :: string where
  "SEPOLIA_V4_VIRTUAL_SENDER = ''0x01e9fefc5d5848690330af81644736e90cc1e7192357d06fe40080da2ddd94a4''"
definition SEPOLIA_PROVER_RPC :: string where
  "SEPOLIA_PROVER_RPC = ''https://api.zan.top/public/starknet-sepolia/rpc/v0_10''"

definition is_current_store :: "crates \<Rightarrow> string \<Rightarrow> bool" where
  "is_current_store C store = same_address C store SEPOLIA_POOL_V4"

definition store_deploy_block :: "crates \<Rightarrow> string \<Rightarrow> nat" where
  "store_deploy_block C store = (if is_current_store C store then SEPOLIA_POOL_V4_DEPLOY_BLOCK else 0)"

section \<open>Configuration\<close>

record config =
  rpc_url :: string
  account :: string
  store :: string
  burner :: bool
  cfg_prover_rpc_url :: "string option"
  publish_via_rpc :: "bool option"
  publish_rpc_url :: "string option"

definition prover_rpc_url :: "config \<Rightarrow> string" where
  "prover_rpc_url c = (case cfg_prover_rpc_url c of Some u \<Rightarrow> u | None \<Rightarrow> SEPOLIA_PROVER_RPC)"

text \<open>\<open>tor\<close> is \<^verbatim>\<open>net::tor()\<close>.\<close>

definition publish_rpc :: "bool \<Rightarrow> config \<Rightarrow> string option" where
  "publish_rpc tor c =
     (let via_rpc = (case publish_via_rpc c of Some v \<Rightarrow> v | None \<Rightarrow> tor)
      in if via_rpc then Some (case publish_rpc_url c of Some u \<Rightarrow> u | None \<Rightarrow> prover_rpc_url c) else None)"

section \<open>Keys\<close>

record profile_keys =
  scan_priv :: string
  keys_scan_pub :: string
  keys_handle :: "string option"
  keys_leaf_index :: "nat option"
  kem_seed :: "string option"
  member_secret :: "string option"

text \<open>\<^verbatim>\<open>trim_start_matches("0x")\<close>: every leading occurrence.\<close>

fun trim_0x :: "string \<Rightarrow> string" where
  "trim_0x (a # b # s) = (if a = CHR ''0'' \<and> b = CHR ''x'' then trim_0x s else a # b # s)"
| "trim_0x s = s"

definition hex_bytes :: "crates \<Rightarrow> string \<Rightarrow> bytes res" where
  "hex_bytes C s = of_opt (Decode BadHex) (hex_decode C (trim_0x s))"

definition member_secret_hex :: "crates \<Rightarrow> bytes \<Rightarrow> string" where
  "member_secret_hex C m = ''0x'' @ hex_encode C m"

definition kem_seed_hex :: "crates \<Rightarrow> bytes \<Rightarrow> string" where
  "kem_seed_hex C seed = ''0x'' @ hex_encode C seed"

definition keys_kem_seed_bytes :: "crates \<Rightarrow> profile_keys \<Rightarrow> bytes res" where
  "keys_kem_seed_bytes C k =
     rbind (of_opt (File Missing) (kem_seed k)) (\<lambda>h.
     rbind (hex_bytes C h) (\<lambda>bs.
     ensure (length bs = KEM_SEED_LEN) (Crypto BadKem) (Inr bs)))"

definition keys_member_secret_felt :: "crates \<Rightarrow> profile_keys \<Rightarrow> felt res" where
  "keys_member_secret_felt C k =
     rbind (of_opt (File Missing) (member_secret k)) (\<lambda>h.
     rbind (hex_bytes C h) member_secret_felt)"

definition keys_kem_keypair :: "crates \<Rightarrow> profile_keys \<Rightarrow> (bytes \<times> bytes) res" where
  "keys_kem_keypair C k = rbind (keys_kem_seed_bytes C k) (\<lambda>s. Inr (kem_keygen_from_seed C s))"

definition keys_scan_priv_felt :: "crates \<Rightarrow> profile_keys \<Rightarrow> felt res" where
  "keys_scan_priv_felt C k = of_opt (Decode BadHex) (felt_of_hex C (scan_priv k))"

definition keys_scan_pub_felt :: "crates \<Rightarrow> profile_keys \<Rightarrow> felt res" where
  "keys_scan_pub_felt C k = of_opt (Decode BadHex) (felt_of_hex C (keys_scan_pub k))"

definition load_keys :: "io \<Rightarrow> profile_keys stored \<Rightarrow> profile_keys res" where
  "load_keys io f = rbind (of_opt (File Missing) f) (read_file io)"

definition save_new_keys :: "io \<Rightarrow> profile_keys \<Rightarrow> profile_keys stored \<Rightarrow> profile_keys stored \<times> unit res" where
  "save_new_keys io k f = (if f \<noteq> None then (f, Inl (File RefusedOverwrite)) else write_file io k f)"

definition update_keys :: "io \<Rightarrow> profile_keys \<Rightarrow> profile_keys stored \<Rightarrow> profile_keys stored \<times> unit res" where
  "update_keys io k f = write_file io k f"

text \<open>\<open>seed\<close> and \<open>secret\<close> are what the generators return when they are called.\<close>

definition ensure_kem_seed :: "crates \<Rightarrow> io \<Rightarrow> bytes \<Rightarrow> profile_keys stored \<Rightarrow> profile_keys stored \<times> profile_keys res" where
  "ensure_kem_seed C io seed f =
     (case load_keys io f of
        Inl e \<Rightarrow> (f, Inl e)
      | Inr k \<Rightarrow>
          if kem_seed k = None then
            (if keys_handle k \<noteq> None then (f, Inl (File RefusedOverwrite))
             else let k' = k\<lparr>kem_seed := Some (kem_seed_hex C seed)\<rparr>
                  in case update_keys io k' f of (f', r) \<Rightarrow> (f', rbind r (\<lambda>_. Inr k')))
          else (f, Inr k))"

text \<open>\<open>ios\<close>: for each of the two updates.\<close>

definition ensure_register_keys :: "crates \<Rightarrow> io \<times> io \<Rightarrow> bytes \<Rightarrow> bytes \<Rightarrow> profile_keys stored \<Rightarrow> profile_keys stored \<times> profile_keys res" where
  "ensure_register_keys C ios seed secret f =
     (case ensure_kem_seed C (fst ios) seed f of
        (f1, Inl e) \<Rightarrow> (f1, Inl e)
      | (f1, Inr k) \<Rightarrow>
          if member_secret k = None then
            (if keys_handle k \<noteq> None then (f1, Inl (File RefusedOverwrite))
             else let k' = k\<lparr>member_secret := Some (member_secret_hex C secret)\<rparr>
                  in case update_keys (snd ios) k' f1 of (f', r) \<Rightarrow> (f', rbind r (\<lambda>_. Inr k')))
          else (f1, Inr k))"

section \<open>Lemmas\<close>

lemma trim_0x_id: "\<not> (\<exists>t. s = CHR ''0'' # CHR ''x'' # t) \<Longrightarrow> trim_0x s = s"
  by (cases s rule: trim_0x.cases) auto

lemma hex_bytes_print: "hex_ok C \<Longrightarrow> hex_bytes C (''0x'' @ hex_encode C b) = Inr b"
proof -
  assume C: "hex_ok C"
  then have "CHR ''x'' \<notin> set (hex_encode C b)" by (auto simp: hex_ok_def hex_digits_def)
  then have "trim_0x (hex_encode C b) = hex_encode C b" by (intro trim_0x_id) auto
  with C show ?thesis by (simp add: hex_bytes_def hex_ok_def)
qed

lemma same_address_refl: "felt_of_hex C a = Some f \<Longrightarrow> same_address C a a"
  by (simp add: same_address_def)

lemma same_address_trans: "same_address C a b \<Longrightarrow> same_address C b c \<Longrightarrow> same_address C a c"
  by (auto simp: same_address_def split: option.splits)

lemma same_address_sym: "same_address C a b \<Longrightarrow> same_address C b a"
  by (auto simp: same_address_def split: option.splits)

text \<open>What one call of \<open>ensure_register_keys\<close> may do to the stored keys.\<close>

definition keys_extend :: "profile_keys \<Rightarrow> profile_keys \<Rightarrow> bool" where
  "keys_extend k k' = (k' = k
     \<lparr>kem_seed := (if kem_seed k = None then kem_seed k' else kem_seed k),
      member_secret := (if member_secret k = None then member_secret k' else member_secret k)\<rparr>)"

lemma ensure_kem_seed_cases:
  assumes "ensure_kem_seed C io seed (Some k) = (f', r)"
  shows "\<exists>k'. f' = Some k'
     \<and> (k' = k \<or> kem_seed k = None \<and> keys_handle k = None \<and> k' = k\<lparr>kem_seed := Some (kem_seed_hex C seed)\<rparr>)
     \<and> (\<forall>k1. r = Inr k1 \<longrightarrow> k1 = k' \<and> kem_seed k' \<noteq> None)"
  using assms
  by (auto simp: ensure_kem_seed_def load_keys_def read_file_def update_keys_def write_file_def Let_def
      split: option.splits if_splits)

lemma register_keys_extend:
  assumes "ensure_register_keys C ios seed secret (Some k) = (f', r)"
  shows "\<exists>k'. f' = Some k' \<and> keys_extend k k'
     \<and> (keys_handle k \<noteq> None \<longrightarrow> k' = k)
     \<and> (\<forall>k1. r = Inr k1 \<longrightarrow> k1 = k' \<and> kem_seed k' \<noteq> None \<and> member_secret k' \<noteq> None)"
proof -
  obtain f1 r1 where e: "ensure_kem_seed C (fst ios) seed (Some k) = (f1, r1)" by fastforce
  from ensure_kem_seed_cases [OF this] obtain k1 where k1: "f1 = Some k1"
    "k1 = k \<or> kem_seed k = None \<and> keys_handle k = None \<and> k1 = k\<lparr>kem_seed := Some (kem_seed_hex C seed)\<rparr>"
    "\<forall>k2. r1 = Inr k2 \<longrightarrow> k2 = k1 \<and> kem_seed k1 \<noteq> None" by blast
  show ?thesis
  proof (cases r1)
    case (Inl er)
    then show ?thesis using assms e k1 by (auto simp: ensure_register_keys_def keys_extend_def)
  next
    case (Inr k2)
    have "k2 = k1" using Inr k1(3) by auto
    moreover have "kem_seed k1 \<noteq> None" using Inr k1(3) by auto
    ultimately show ?thesis
      using assms e k1(1,2) Inr
      by (auto simp: ensure_register_keys_def keys_extend_def update_keys_def write_file_def Let_def
          split: option.splits if_splits)
  qed
qed

section \<open>Properties\<close>

text \<open>Preparing the keys of a registration keeps what the profile has: whatever the
  environment does, the stored keys change only by gaining a KEM seed or a membership secret
  that was missing, and not at all when the profile holds a handle; the keys returned are the
  stored ones, with both secrets present.\<close>

theorem register_keys_are_kept:
  assumes "ensure_register_keys C ios seed secret (Some k) = (f', r)"
  shows "\<exists>k'. f' = Some k' \<and> keys_extend k k'
     \<and> (keys_handle k \<noteq> None \<longrightarrow> k' = k)
     \<and> (\<forall>k1. r = Inr k1 \<longrightarrow> k1 = k' \<and> kem_seed k' \<noteq> None \<and> member_secret k' \<noteq> None)"
  using register_keys_extend [OF assms] .

definition demo_keys :: profile_keys where
  "demo_keys = \<lparr>scan_priv = ''0x1'', keys_scan_pub = ''0x2'', keys_handle = None, keys_leaf_index = None,
     kem_seed = None, member_secret = None\<rparr>"

theorem register_keys_are_kept_witness:
  "\<exists>k'. ensure_register_keys demo_crates (io_ok, io_ok) [1] [2] (Some demo_keys) = (Some k', Inr k') \<and> keys_extend demo_keys k'"
proof -
  obtain k' where e: "ensure_register_keys demo_crates (io_ok, io_ok) [1] [2] (Some demo_keys) = (Some k', Inr k')"
    by (simp add: ensure_register_keys_def ensure_kem_seed_def load_keys_def read_file_def update_keys_def
        write_file_def io_ok_def demo_keys_def Let_def)
  with register_keys_are_kept [OF e] show ?thesis by auto
qed

end
