(* ===== verification/Tickets.thy ===== *)
theory Tickets
  imports Config Tree "HOL-Library.Multiset"
begin

text \<open>
  \<^verbatim>\<open>core/src/tickets.rs\<close>: the ticket wallet, the ticket tree rebuilt from the pool's
  \<^verbatim>\<open>TicketBought\<close> events, and the per-epoch quota slots. The tree is used through the
  \<open>accumulator\<close> interface.
\<close>

section \<open>Tickets and the wallet\<close>

datatype ticket_state = Pending | Unspent | Reserved string | Spent "string option"

record ticket =
  secret :: string
  index :: "nat option"
  buy_tx :: "string option"
  state :: ticket_state

record wallet =
  wallet_store :: string
  tickets :: "ticket list"

record ticket_counts =
  n_unspent :: nat
  n_reserved :: nat
  n_spent :: nat
  n_pending :: nat

definition ticket_secret_felt :: "crates \<Rightarrow> ticket \<Rightarrow> felt res" where
  "ticket_secret_felt C t = rbind (hex_bytes C (secret t)) member_secret_felt"

definition ticket_leaf_of :: "crates \<Rightarrow> ticket \<Rightarrow> felt res" where
  "ticket_leaf_of C t = rbind (ticket_secret_felt C t) (\<lambda>f. Inr (ticket_leaf C f))"

definition ticket_nullifier_of :: "crates \<Rightarrow> felt \<Rightarrow> ticket \<Rightarrow> felt res" where
  "ticket_nullifier_of C st t = rbind (ticket_secret_felt C t) (\<lambda>f. Inr (ticket_nullifier C st f))"

definition wallet_load :: "crates \<Rightarrow> io \<Rightarrow> string \<Rightarrow> wallet stored \<Rightarrow> wallet res" where
  "wallet_load C io st f =
     (case f of
        None \<Rightarrow> Inr \<lparr>wallet_store = st, tickets = []\<rparr>
      | Some w \<Rightarrow> rbind (read_file io w) (\<lambda>w.
          ensure (same_address C (wallet_store w) st) (Tickets WrongStore) (Inr w)))"

definition wallet_save :: "io \<Rightarrow> wallet \<Rightarrow> wallet stored \<Rightarrow> wallet stored \<times> unit res" where
  "wallet_save io w f = write_file io w f"

fun count_ticket :: "ticket_counts \<Rightarrow> ticket \<Rightarrow> ticket_counts" where
  "count_ticket c t =
     (case state t of
        Pending \<Rightarrow> c\<lparr>n_pending := n_pending c + 1\<rparr>
      | Unspent \<Rightarrow> c\<lparr>n_unspent := n_unspent c + 1\<rparr>
      | Reserved _ \<Rightarrow> c\<lparr>n_reserved := n_reserved c + 1\<rparr>
      | Spent _ \<Rightarrow> c\<lparr>n_spent := n_spent c + 1\<rparr>)"

definition counts :: "wallet \<Rightarrow> ticket_counts" where
  "counts w = foldl count_ticket \<lparr>n_unspent = 0, n_reserved = 0, n_spent = 0, n_pending = 0\<rparr> (tickets w)"

text \<open>\<open>mint\<close>: \<open>secrets\<close> are what \<open>ticket_secret_gen\<close> returns, one per ticket.\<close>

fun mint :: "crates \<Rightarrow> bytes list \<Rightarrow> wallet \<Rightarrow> wallet \<times> felt list res" where
  "mint C [] w = (w, Inr [])"
| "mint C (s # ss) w =
     (let t = \<lparr>secret = member_secret_hex C s, index = None, buy_tx = None, state = Pending\<rparr>
      in case ticket_leaf_of C t of
           Inl e \<Rightarrow> (w, Inl e)
         | Inr leaf \<Rightarrow>
             (case mint C ss (w\<lparr>tickets := tickets w @ [t]\<rparr>) of (w', r) \<Rightarrow> (w', rbind r (\<lambda>ls. Inr (leaf # ls)))))"

section \<open>The ticket tree\<close>

record ticket_tree =
  tt_leaves :: "felt list"
  tt_tree :: merkle_tree

definition ticket_event :: "crates \<Rightarrow> string list \<Rightarrow> string list \<Rightarrow> (nat \<times> felt) res" where
  "ticket_event C keys data =
     ensure (length keys = 1) (Decode BadShape) (
     ensure (length data = 2) (Decode BadShape) (
     rbind (felt_from_hex C (data ! 0)) (\<lambda>leaf.
     rbind (felt_from_hex C (data ! 1)) (\<lambda>i.
     rbind (felt_to_u64 i) (\<lambda>i.
     rbind (to_u32 i) (\<lambda>i.
     Inr (i, leaf)))))))"

fun ticket_tree_loop :: "crates \<Rightarrow> nat \<Rightarrow> (nat \<times> felt) list \<Rightarrow> merkle_tree \<Rightarrow> felt list \<Rightarrow> ticket_tree res" where
  "ticket_tree_loop C i [] tree leaves = Inr \<lparr>tt_leaves = leaves, tt_tree = tree\<rparr>"
| "ticket_tree_loop C i ((idx, leaf) # bought) tree leaves =
     ensure (idx = i) (Tickets NotContiguous) (
     rbind (mt_insert C tree leaf) (\<lambda>(_, tree').
     ticket_tree_loop C (i + 1) bought tree' (leaves @ [leaf])))"

definition ticket_tree_build :: "crates \<Rightarrow> (nat \<times> felt) list \<Rightarrow> ticket_tree res" where
  "ticket_tree_build C bought = ticket_tree_loop C 0 (sort_key fst bought) (mt_new C) []"

definition ticket_tree_from_events :: "crates \<Rightarrow> (string list \<times> string list) list \<Rightarrow> ticket_tree res" where
  "ticket_tree_from_events C events =
     rbind (rmap (\<lambda>(keys, data). ticket_event C keys data) events) (ticket_tree_build C)"

definition tt_len :: "ticket_tree \<Rightarrow> nat" where
  "tt_len tt = length (tt_leaves tt)"

definition tt_root :: "ticket_tree \<Rightarrow> felt" where
  "tt_root tt = mt_root (tt_tree tt)"

definition tt_leaf :: "ticket_tree \<Rightarrow> nat \<Rightarrow> felt option" where
  "tt_leaf tt i = (if i < length (tt_leaves tt) then Some (tt_leaves tt ! i) else None)"

definition tt_index_of :: "ticket_tree \<Rightarrow> felt \<Rightarrow> nat option" where
  "tt_index_of tt leaf = map_option (\<lambda>i. i mod 2 ^ 32) (position (\<lambda>l. l = leaf) (tt_leaves tt))"

definition tt_path :: "ticket_tree \<Rightarrow> nat \<Rightarrow> felt list res" where
  "tt_path tt i = ensure (i < tt_len tt) (Tickets NotInTree) (Inr (mt_path (tt_tree tt) i))"

section \<open>Settling, picking, spending\<close>

text \<open>The loop of \<open>settle\<close>; a secret that does not parse stops it, what was settled stays.\<close>

fun settle_loop :: "crates \<Rightarrow> ticket_tree \<Rightarrow> ticket list \<Rightarrow> nat \<Rightarrow> ticket list \<times> nat res" where
  "settle_loop C tt [] n = ([], Inr n)"
| "settle_loop C tt (t # ts) n =
     (if state t \<noteq> Pending then (case settle_loop C tt ts n of (ts', r) \<Rightarrow> (t # ts', r))
      else case ticket_leaf_of C t of
             Inl e \<Rightarrow> (t # ts, Inl e)
           | Inr leaf \<Rightarrow>
               (case tt_index_of tt leaf of
                  Some i \<Rightarrow> (case settle_loop C tt ts (n + 1) of (ts', r) \<Rightarrow> (t\<lparr>index := Some i, state := Unspent\<rparr> # ts', r))
                | None \<Rightarrow> (case settle_loop C tt ts n of (ts', r) \<Rightarrow> (t # ts', r))))"

definition settle :: "crates \<Rightarrow> ticket_tree \<Rightarrow> wallet \<Rightarrow> wallet \<times> nat res" where
  "settle C tt w = (case settle_loop C tt (tickets w) 0 of (ts, r) \<Rightarrow> (w\<lparr>tickets := ts\<rparr>, r))"

text \<open>The loop of \<open>pick\<close>: \<open>Inr None\<close> when it falls through.\<close>

fun pick_loop :: "crates \<Rightarrow> ticket_tree \<Rightarrow> nat \<Rightarrow> ticket list \<Rightarrow> nat option res" where
  "pick_loop C tt i [] = Inr None"
| "pick_loop C tt i (t # ts) =
     (if state t \<noteq> Unspent then pick_loop C tt (i + 1) ts
      else case index t of
             None \<Rightarrow> pick_loop C tt (i + 1) ts
           | Some idx \<Rightarrow>
               rbind (ticket_leaf_of C t) (\<lambda>leaf.
                 if tt_leaf tt idx = Some leaf then Inr (Some i) else pick_loop C tt (i + 1) ts))"

definition pick :: "crates \<Rightarrow> ticket_tree \<Rightarrow> wallet \<Rightarrow> nat res" where
  "pick C tt w =
     rbind (pick_loop C tt 0 (tickets w)) (\<lambda>found.
       case found of
         Some i \<Rightarrow> Inr i
       | None \<Rightarrow>
           let c = counts w
           in if 0 < n_unspent c then Inl (Tickets (TicketNotInTreeYet (n_unspent c)))
              else if 0 < n_pending c then Inl (Tickets NoTicketPending)
              else Inl (Tickets NoTicket))"

definition position_by_nullifier :: "crates \<Rightarrow> felt \<Rightarrow> felt \<Rightarrow> wallet \<Rightarrow> nat option" where
  "position_by_nullifier C st nf w = position (\<lambda>t. ok_opt (ticket_nullifier_of C st t) = Some nf) (tickets w)"

definition set_state :: "nat \<Rightarrow> ticket_state \<Rightarrow> wallet \<Rightarrow> wallet" where
  "set_state i s w = w\<lparr>tickets := (tickets w)[i := (tickets w ! i)\<lparr>state := s\<rparr>]\<rparr>"

definition mark_spent :: "crates \<Rightarrow> felt \<Rightarrow> felt \<Rightarrow> string option \<Rightarrow> wallet \<Rightarrow> wallet \<times> bool" where
  "mark_spent C st nf tx w =
     (case position_by_nullifier C st nf w of
        Some i \<Rightarrow> (set_state i (Spent tx) w, True)
      | None \<Rightarrow> (w, False))"

definition release :: "crates \<Rightarrow> felt \<Rightarrow> felt \<Rightarrow> wallet \<Rightarrow> wallet \<times> bool" where
  "release C st nf w =
     (case position_by_nullifier C st nf w of
        Some i \<Rightarrow> (case state (tickets w ! i) of
                     Reserved _ \<Rightarrow> (set_state i Unspent w, True)
                   | _ \<Rightarrow> (w, False))
      | None \<Rightarrow> (w, False))"

section \<open>Quota slots\<close>

record quota_log =
  quota_store :: string
  epoch :: nat
  used :: nat

definition quota_load :: "io \<Rightarrow> quota_log stored \<Rightarrow> quota_log option res" where
  "quota_load io f =
     (case f of None \<Rightarrow> Inr None | Some log \<Rightarrow> rbind (read_file io log) (\<lambda>log. Inr (Some log)))"

definition take_slot :: "crates \<Rightarrow> io \<Rightarrow> string \<Rightarrow> nat \<Rightarrow> nat \<Rightarrow> quota_log stored \<Rightarrow> quota_log stored \<times> nat res" where
  "take_slot C io st ep quota f =
     (case quota_load io f of
        Inl e \<Rightarrow> (f, Inl e)
      | Inr existing \<Rightarrow>
          (let fresh = \<lparr>quota_store = st, epoch = ep, used = 0\<rparr>;
               start = (case existing of
                          None \<Rightarrow> Inr fresh
                        | Some log \<Rightarrow>
                            if same_address C (quota_store log) st \<and> epoch log = ep then Inr log
                            else if same_address C (quota_store log) st \<and> ep < epoch log then Inl (Tickets EpochAhead)
                            else Inr fresh)
           in case start of
                Inl e \<Rightarrow> (f, Inl e)
              | Inr log \<Rightarrow>
                  if \<not> used log < quota then (f, Inl (Tickets QuotaUsed))
                  else (let slot = used log
                        in case write_file io (log\<lparr>used := used log + 1\<rparr>) f of
                             (f', r) \<Rightarrow> (f', rbind r (\<lambda>_. Inr slot)))))"

text \<open>A run of \<open>take_slot\<close> calls against one file, and the slots it hands out.\<close>

fun take_slots :: "crates \<Rightarrow> string \<Rightarrow> quota_log stored \<Rightarrow> (io \<times> nat \<times> nat) list \<Rightarrow> (nat \<times> nat) list" where
  "take_slots C st f [] = []"
| "take_slots C st f ((io, ep, quota) # calls) =
     (case take_slot C io st ep quota f of (f', r) \<Rightarrow>
        (case r of Inl _ \<Rightarrow> [] | Inr slot \<Rightarrow> [(ep, slot)]) @ take_slots C st f' calls)"

text \<open>The slots a file still allows.\<close>

definition slot_free :: "crates \<Rightarrow> string \<Rightarrow> quota_log stored \<Rightarrow> nat \<times> nat \<Rightarrow> bool" where
  "slot_free C st f es =
     (case f of None \<Rightarrow> True
      | Some log \<Rightarrow> \<not> same_address C (quota_store log) st \<or> epoch log < fst es \<or> epoch log = fst es \<and> used log \<le> snd es)"

lemma take_slot_cases:
  assumes "take_slot C io st ep quota f = (f', r)" and "same_address C st st"
  obtains (fail) e where "r = Inl e" and "f' = f"
  | (take) slot where "r = Inr slot" and "slot < quota" and "slot_free C st f (ep, slot)"
      and "\<exists>log. f' = Some log \<and> same_address C (quota_store log) st \<and> epoch log = ep \<and> used log = slot + 1"
      and "\<And>es. slot_free C st f' es \<Longrightarrow> slot_free C st f es"
proof (cases r)
  case (Inl e)
  moreover have "f' = f"
    using assms(1) Inl
    by (auto simp: take_slot_def quota_load_def read_file_def write_file_def Let_def split: option.splits sum.splits if_splits)
  ultimately show ?thesis by (rule fail)
next
  case (Inr slot)
  then have "slot < quota \<and> slot_free C st f (ep, slot)
      \<and> (\<exists>log. f' = Some log \<and> same_address C (quota_store log) st \<and> epoch log = ep \<and> used log = slot + 1)
      \<and> (\<forall>es. slot_free C st f' es \<longrightarrow> slot_free C st f es)"
    using assms
    by (auto simp: take_slot_def quota_load_def read_file_def write_file_def slot_free_def Let_def
        split: option.splits sum.splits if_splits)
  with Inr show ?thesis using take by blast
qed

lemma take_slots_free:
  "same_address C st st \<Longrightarrow> es \<in> set (take_slots C st f calls) \<Longrightarrow> slot_free C st f es"
proof (induction calls arbitrary: f)
  case Nil
  then show ?case by simp
next
  case (Cons call calls)
  obtain io ep quota where c: "call = (io, ep, quota)" by (cases call) auto
  obtain f' r where t: "take_slot C io st ep quota f = (f', r)" by fastforce
  from t Cons.prems(1) show ?case
  proof (cases rule: take_slot_cases)
    case (fail e)
    then show ?thesis using Cons c t by simp
  next
    case (take slot)
    have "es = (ep, slot) \<or> es \<in> set (take_slots C st f' calls)"
      using Cons.prems(2) c t take(1) by auto
    then show ?thesis using take(3) take(5) [OF Cons.IH [OF Cons.prems(1)]] by blast
  qed
qed

lemma take_slots_distinct: "same_address C st st \<Longrightarrow> distinct (take_slots C st f calls)"
proof (induction calls arbitrary: f)
  case Nil
  then show ?case by simp
next
  case (Cons call calls)
  obtain io ep quota where c: "call = (io, ep, quota)" by (cases call) auto
  obtain f' r where t: "take_slot C io st ep quota f = (f', r)" by fastforce
  from t Cons.prems show ?case
  proof (cases rule: take_slot_cases)
    case (fail e)
    then show ?thesis using Cons c t by simp
  next
    case (take slot)
    have "\<not> slot_free C st f' (ep, slot)" using take(4) by (auto simp: slot_free_def)
    then have "(ep, slot) \<notin> set (take_slots C st f' calls)"
      using take_slots_free [OF Cons.prems] by blast
    with take(1) show ?thesis using Cons c t by simp
  qed
qed

lemma take_slots_quota:
  "same_address C st st \<Longrightarrow> (e, s) \<in> set (take_slots C st f calls) \<Longrightarrow> \<exists>io q. (io, e, q) \<in> set calls \<and> s < q"
proof (induction calls arbitrary: f)
  case Nil
  then show ?case by simp
next
  case (Cons call calls)
  obtain io ep quota where c: "call = (io, ep, quota)" by (cases call) auto
  obtain f' r where t: "take_slot C io st ep quota f = (f', r)" by fastforce
  from t Cons.prems(1) show ?case
  proof (cases rule: take_slot_cases)
    case (fail e)
    then show ?thesis using Cons c t by fastforce
  next
    case (take slot)
    then show ?thesis using Cons c t by fastforce
  qed
qed

lemma take_slots_all:
  assumes "same_address C st st" and "f = None \<and> k = 0 \<or> f = Some \<lparr>quota_store = st, epoch = ep, used = k\<rparr>" and "k \<le> q"
  shows "take_slots C st f (replicate n (io_ok, ep, q)) = map (\<lambda>s. (ep, s)) [k..<min (k + n) q]"
  using assms
proof (induction n arbitrary: f k)
  case 0
  then show ?case by simp
next
  case (Suc n)
  show ?case
  proof (cases "k < q")
    case True
    then have "take_slot C io_ok st ep q f = (Some \<lparr>quota_store = st, epoch = ep, used = k + 1\<rparr>, Inr k)"
      using Suc.prems
      by (auto simp: take_slot_def quota_load_def read_file_def write_file_def io_ok_def Let_def)
    moreover have "[k..<min (k + Suc n) q] = k # [k + 1..<min (k + 1 + n) q]"
      using True by (simp add: upt_conv_Cons)
    ultimately show ?thesis
      using Suc.IH [of "Some \<lparr>quota_store = st, epoch = ep, used = k + 1\<rparr>" "k + 1"] Suc.prems(1) True by simp
  next
    case False
    then have "take_slot C io_ok st ep q f = (f, Inl (Tickets QuotaUsed))"
      using Suc.prems
      by (auto simp: take_slot_def quota_load_def read_file_def write_file_def io_ok_def Let_def)
    then show ?thesis using Suc.IH [of f k] Suc.prems False by simp
  qed
qed

section \<open>Properties of the quota\<close>

text \<open>C6: A quota slot is handed out at most once. Over any run of \<open>take_slot\<close> calls on one
  store, for any epochs and quotas, from any file and with any failing reads and writes in
  between, the (epoch, slot) pairs returned are distinct and each slot is below the quota of its
  call; and with nothing failing, \<open>n\<close> calls from an empty file return the slots 0, 1, 2, ... up
  to the quota.\<close>

theorem quota_slots_never_repeat:
  assumes "felt_of_hex C st = Some a"
  shows "distinct (take_slots C st f calls)
     \<and> (\<forall>e s. (e, s) \<in> set (take_slots C st f calls) \<longrightarrow> (\<exists>io q. (io, e, q) \<in> set calls \<and> s < q))
     \<and> take_slots C st None (replicate n (io_ok, ep, q)) = map (\<lambda>s. (ep, s)) [0..<min n q]"
proof -
  have "same_address C st st" using assms by (rule same_address_refl)
  then show ?thesis
    using take_slots_distinct take_slots_quota take_slots_all [of C st None 0 ep q n] by auto
qed

theorem quota_slots_never_repeat_witness:
  "take_slots demo_crates ''0x1'' None [(io_ok, 7, 2), (io_ok, 7, 2), (io_ok, 7, 2), (io_ok, 7, 2)] = [(7, 0), (7, 1)]"
proof -
  have "felt_of_hex demo_crates ''0x1'' = Some 1"
    by (simp add: demo_crates_def demo_felt_of_hex_def hex_digits_def STARK_PRIME_def)
  from quota_slots_never_repeat [OF this, of None "[]" 4 7 2] show ?thesis
    by (simp add: numeral_eq_Suc)
qed

section \<open>The tree behind the tickets\<close>

definition tt_ok :: "crates \<Rightarrow> ticket_tree \<Rightarrow> bool" where
  "tt_ok C tt = (mt_ok C (tt_tree tt) (tt_leaves tt) \<and> length (tt_leaves tt) \<le> 2 ^ TREE_DEPTH)"

lemma ticket_tree_loop_Inr:
  "mt_ok C tree leaves \<Longrightarrow> length leaves \<le> 2 ^ TREE_DEPTH \<Longrightarrow> ticket_tree_loop C i bought tree leaves = Inr tt \<Longrightarrow>
     tt_ok C tt \<and> tt_leaves tt = leaves @ map snd bought \<and> map fst bought = [i..<i + length bought]"
proof (induction bought arbitrary: i tree leaves)
  case Nil
  then show ?case by (auto simp: tt_ok_def)
next
  case (Cons b bought)
  obtain idx leaf where b: "b = (idx, leaf)" by (cases b)
  show ?case
  proof (cases "length leaves < 2 ^ TREE_DEPTH")
    case True
    obtain t1 where t1: "mt_insert C tree leaf = Inr (length leaves, t1)" "mt_ok C t1 (leaves @ [leaf])"
      using mt_insert_ok [OF Cons.prems(1) True] by blast
    then have "idx = i" "ticket_tree_loop C (i + 1) bought t1 (leaves @ [leaf]) = Inr tt"
      using Cons.prems(3) b by (auto simp: res_inv)
    moreover have "[i..<i + length (b # bought)] = i # [i + 1..<i + 1 + length bought]"
      by (simp add: upt_conv_Cons del: upt_Suc)
    ultimately show ?thesis
      using Cons.IH [OF t1(2)] True b by simp
  next
    case False
    then show ?thesis using mt.insert_full [OF Cons.prems(1)] Cons.prems(3) b by (auto simp: res_inv)
  qed
qed

lemma ticket_tree_build_ok:
  assumes "ticket_tree_build C bought = Inr tt"
  shows "tt_ok C tt" and "tt_leaves tt = map snd (sort_key fst bought)"
    and "sort (map fst bought) = [0..<length bought]"
proof -
  have b: "tt_ok C tt \<and> tt_leaves tt = [] @ map snd (sort_key fst bought)
      \<and> map fst (sort_key fst bought) = [0..<0 + length (sort_key fst bought)]"
    using assms by (intro ticket_tree_loop_Inr [OF mt_new_ok]) (simp_all add: ticket_tree_build_def)
  then show "tt_ok C tt" and "tt_leaves tt = map snd (sort_key fst bought)" by simp_all
  have "sort (map fst bought) = map fst (sort_key fst bought)"
    by (rule properties_for_sort) simp_all
  with b show "sort (map fst bought) = [0..<length bought]" by simp
qed

lemma tt_member_proof:
  assumes "tt_ok C tt" and "tt_leaf tt i = Some leaf"
  shows "\<exists>p. tt_path tt i = Inr p \<and> fold_path C leaf i p = Inr (tt_root tt)"
  using mt.member_proof [of C "tt_tree tt" "tt_leaves tt" i] assms
  by (auto simp: tt_ok_def tt_leaf_def tt_path_def tt_len_def tt_root_def split: if_splits)

lemma tt_index_of_leaf:
  assumes "tt_ok C tt" and "tt_index_of tt leaf = Some i"
  shows "tt_leaf tt i = Some leaf"
proof -
  obtain j where j: "position (\<lambda>l. l = leaf) (tt_leaves tt) = Some j" "i = j mod 2 ^ 32"
    using assms(2) by (auto simp: tt_index_of_def)
  then have "j < length (tt_leaves tt)" "tt_leaves tt ! j = leaf" by (auto simp: position_Some)
  moreover have "j < 2 ^ 32" using \<open>j < length (tt_leaves tt)\<close> assms(1) by (simp add: tt_ok_def TREE_DEPTH_def)
  ultimately show ?thesis using j(2) by (simp add: tt_leaf_def)
qed

section \<open>Counting and picking\<close>

lemma count_fold:
  "n_unspent (foldl count_ticket c ts) = n_unspent c + length (filter (\<lambda>t. state t = Unspent) ts)
   \<and> n_pending (foldl count_ticket c ts) = n_pending c + length (filter (\<lambda>t. state t = Pending) ts)"
proof (induction ts arbitrary: c)
  case Nil
  then show ?case by simp
next
  case (Cons t ts)
  then show ?case by (cases "state t") simp_all
qed

lemma counts_unspent: "n_unspent (counts w) = length (filter (\<lambda>t. state t = Unspent) (tickets w))"
  by (simp add: counts_def count_fold)

lemma counts_pending: "n_pending (counts w) = length (filter (\<lambda>t. state t = Pending) (tickets w))"
  by (simp add: counts_def count_fold)

text \<open>A ticket a send can use: unspent, its leaf in the tree where the wallet has it.\<close>

definition usable :: "crates \<Rightarrow> ticket_tree \<Rightarrow> ticket \<Rightarrow> bool" where
  "usable C tt t = (state t = Unspent \<and> (\<exists>idx leaf. index t = Some idx \<and> ticket_leaf_of C t = Inr leaf \<and> tt_leaf tt idx = Some leaf))"

definition secrets_parse :: "crates \<Rightarrow> wallet \<Rightarrow> bool" where
  "secrets_parse C w = (\<forall>t \<in> set (tickets w). is_ok (ticket_leaf_of C t))"

lemma pick_loop_Some:
  "pick_loop C tt k ts = Inr (Some i) \<Longrightarrow> k \<le> i \<and> i < k + length ts \<and> usable C tt (ts ! (i - k))"
proof (induction ts arbitrary: k)
  case Nil
  then show ?case by simp
next
  case (Cons t ts)
  have step: ?case if "pick_loop C tt (k + 1) ts = Inr (Some i)"
    using Cons.IH [OF that] by (auto simp: nth_Cons')
  show ?case
  proof (cases "state t = Unspent \<and> (\<exists>idx leaf. index t = Some idx \<and> ticket_leaf_of C t = Inr leaf \<and> tt_leaf tt idx = Some leaf)")
    case True
    then show ?thesis using Cons.prems by (auto simp: usable_def)
  next
    case False
    then have "pick_loop C tt (k + 1) ts = Inr (Some i)"
      using Cons.prems by (auto simp: res_inv split: if_splits option.splits)
    then show ?thesis by (rule step)
  qed
qed

lemma pick_loop_total:
  "\<forall>t \<in> set ts. is_ok (ticket_leaf_of C t) \<Longrightarrow>
     (\<exists>t \<in> set ts. usable C tt t) \<and> (\<exists>i. pick_loop C tt k ts = Inr (Some i))
     \<or> \<not> (\<exists>t \<in> set ts. usable C tt t) \<and> pick_loop C tt k ts = Inr None"
proof (induction ts arbitrary: k)
  case Nil
  then show ?case by simp
next
  case (Cons t ts)
  obtain leaf where leaf: "ticket_leaf_of C t = Inr leaf"
    using Cons.prems by (cases "ticket_leaf_of C t") auto
  show ?case
  proof (cases "usable C tt t")
    case True
    then show ?thesis using leaf by (auto simp: usable_def)
  next
    case False
    then have "pick_loop C tt k (t # ts) = pick_loop C tt (k + 1) ts"
      using leaf by (auto simp: usable_def split: option.splits)
    then show ?thesis using Cons.IH [of "k + 1"] Cons.prems False by simp
  qed
qed

lemma settle_loop_total:
  "tt_ok C tt \<Longrightarrow> \<forall>t \<in> set ts. is_ok (ticket_leaf_of C t) \<Longrightarrow> \<exists>ts' m. settle_loop C tt ts n = (ts', Inr m) \<and> n \<le> m
     \<and> (\<forall>t \<in> set ts'. is_ok (ticket_leaf_of C t))
     \<and> ((\<exists>t \<in> set ts. usable C tt t \<or> state t = Pending \<and> (\<exists>leaf \<in> set (tt_leaves tt). ticket_leaf_of C t = Inr leaf))
         \<longrightarrow> (\<exists>t \<in> set ts'. usable C tt t))"
proof (induction ts arbitrary: n)
  case Nil
  then show ?case by simp
next
  case (Cons t ts)
  obtain leaf where leaf: "ticket_leaf_of C t = Inr leaf"
    using Cons.prems by (cases "ticket_leaf_of C t") auto
  show ?case
  proof (cases "state t = Pending")
    case False
    then show ?thesis using Cons.IH [of n] Cons.prems by (force simp: split_beta)
  next
    case p: True
    show ?thesis
    proof (cases "tt_index_of tt leaf")
      case None
      then have "leaf \<notin> set (tt_leaves tt)" by (auto simp: tt_index_of_def position_None)
      moreover have "\<not> usable C tt t" using p by (simp add: usable_def)
      moreover obtain ts' m where "settle_loop C tt ts n = (ts', Inr m)" "n \<le> m"
        "\<forall>t \<in> set ts'. is_ok (ticket_leaf_of C t)"
        "(\<exists>t \<in> set ts. usable C tt t \<or> state t = Pending \<and> (\<exists>leaf \<in> set (tt_leaves tt). ticket_leaf_of C t = Inr leaf))
         \<longrightarrow> (\<exists>t \<in> set ts'. usable C tt t)"
        using Cons.IH [of n] Cons.prems by auto
      ultimately show ?thesis using p None leaf by auto
    next
      case (Some i)
      then have "tt_leaf tt i = Some leaf" by (rule tt_index_of_leaf [OF Cons.prems(1)])
      moreover have "ticket_leaf_of C (t\<lparr>index := Some i, state := Unspent\<rparr>) = Inr leaf"
        using leaf by (simp add: ticket_leaf_of_def ticket_secret_felt_def)
      ultimately have "usable C tt (t\<lparr>index := Some i, state := Unspent\<rparr>)"
        and "is_ok (ticket_leaf_of C (t\<lparr>index := Some i, state := Unspent\<rparr>))" by (simp_all add: usable_def)
      moreover obtain ts' m where "settle_loop C tt ts (n + 1) = (ts', Inr m)" "n + 1 \<le> m"
        "\<forall>t \<in> set ts'. is_ok (ticket_leaf_of C t)"
        using Cons.IH [of "n + 1"] Cons.prems by auto
      ultimately show ?thesis using p Some leaf by simp
    qed
  qed
qed

section \<open>The life of a ticket\<close>

text \<open>The changes the program makes to a wallet between loads and saves. \<open>Reserve\<close> is
  \<^verbatim>\<open>virtual_send::prepare\<close>'s assignment to the ticket it picked.\<close>

inductive wallet_step :: "crates \<Rightarrow> wallet \<Rightarrow> wallet \<Rightarrow> bool" for C where
  Mint: "mint C secrets w = (w', r) \<Longrightarrow> wallet_step C w w'"
| Settle: "settle C tt w = (w', r) \<Longrightarrow> wallet_step C w w'"
| Reserve: "pick C tt w = Inr i \<Longrightarrow> wallet_step C w (set_state i (Reserved sid) w)"
| Spend: "mark_spent C st nf tx w = (w', b) \<Longrightarrow> wallet_step C w w'"
| Release: "release C st nf w = (w', b) \<Longrightarrow> wallet_step C w w'"

definition is_spent :: "ticket \<Rightarrow> bool" where
  "is_spent t = (case state t of Spent _ \<Rightarrow> True | _ \<Rightarrow> False)"

definition on_chain :: "ticket \<Rightarrow> bool" where
  "on_chain t = (case state t of Unspent \<Rightarrow> True | Reserved _ \<Rightarrow> True | _ \<Rightarrow> False)"

text \<open>What a ticket keeps from one wallet to a later one.\<close>

definition ticket_le :: "ticket \<Rightarrow> ticket \<Rightarrow> bool" where
  "ticket_le t t' = (secret t' = secret t \<and> (is_spent t \<longrightarrow> is_spent t')
     \<and> (state t \<noteq> Pending \<longrightarrow> state t' \<noteq> Pending \<and> index t' = index t)
     \<and> ((on_chain t \<longrightarrow> index t \<noteq> None) \<longrightarrow> (on_chain t' \<longrightarrow> index t' \<noteq> None)))"

definition wallet_le :: "wallet \<Rightarrow> wallet \<Rightarrow> bool" where
  "wallet_le w w' = (wallet_store w' = wallet_store w \<and> length (tickets w) \<le> length (tickets w')
     \<and> (\<forall>i < length (tickets w). ticket_le (tickets w ! i) (tickets w' ! i)))"

lemma ticket_le_refl [simp]: "ticket_le t t"
  by (simp add: ticket_le_def)

lemma ticket_le_trans: "ticket_le a b \<Longrightarrow> ticket_le b c \<Longrightarrow> ticket_le a c"
  unfolding ticket_le_def by metis

lemma wallet_le_refl [simp]: "wallet_le w w"
  by (simp add: wallet_le_def)

lemma wallet_le_trans: "wallet_le a b \<Longrightarrow> wallet_le b c \<Longrightarrow> wallet_le a c"
proof -
  assume ab: "wallet_le a b" and bc: "wallet_le b c"
  have len: "length (tickets a) \<le> length (tickets b)" "length (tickets b) \<le> length (tickets c)"
    and st: "wallet_store c = wallet_store a"
    using ab bc unfolding wallet_le_def by simp_all
  have "ticket_le (tickets a ! i) (tickets c ! i)" if i: "i < length (tickets a)" for i
  proof (rule ticket_le_trans)
    show "ticket_le (tickets a ! i) (tickets b ! i)" using ab i unfolding wallet_le_def by blast
    show "ticket_le (tickets b ! i) (tickets c ! i)" using bc order_less_le_trans [OF i len(1)] unfolding wallet_le_def by blast
  qed
  with order_trans [OF len] st show ?thesis unfolding wallet_le_def by blast
qed

lemma mint_wallet_le:
  "mint C ss w = (w', r) \<Longrightarrow> wallet_store w' = wallet_store w
     \<and> (\<exists>new. tickets w' = tickets w @ new \<and> (\<forall>t \<in> set new. state t = Pending))"
proof (induction C ss w arbitrary: w' r rule: mint.induct)
  case (1 C w)
  then show ?case by simp
next
  case (2 C s ss w)
  define t where "t = \<lparr>secret = member_secret_hex C s, index = None, buy_tx = None, state = Pending\<rparr>"
  show ?case
  proof (cases "ticket_leaf_of C t")
    case (Inl e)
    then show ?thesis using "2.prems" by (simp add: t_def Let_def)
  next
    case (Inr leaf)
    then obtain r' where "mint C ss (w\<lparr>tickets := tickets w @ [t]\<rparr>) = (w', r')"
      using "2.prems" by (auto simp: t_def Let_def split: prod.splits)
    from "2.IH" [OF t_def Inr this] have "wallet_store w' = wallet_store w
        \<and> (\<exists>new. tickets w' = (tickets w @ [t]) @ new \<and> (\<forall>t \<in> set new. state t = Pending))" by simp
    moreover have "state t = Pending" by (simp add: t_def)
    ultimately show ?thesis by (metis append.assoc append_Cons append_Nil set_ConsD)
  qed
qed

lemma settle_loop_le:
  "settle_loop C tt ts n = (ts', r) \<Longrightarrow> length ts' = length ts \<and> (\<forall>i < length ts. ticket_le (ts ! i) (ts' ! i))"
proof (induction ts arbitrary: n ts' r)
  case Nil
  then show ?case by simp
next
  case (Cons t ts)
  have "\<exists>a rest. ts' = a # rest \<and> ticket_le t a \<and> (rest = ts \<or> (\<exists>m r'. settle_loop C tt ts m = (rest, r')))"
  proof (cases "state t = Pending")
    case False
    then show ?thesis using Cons.prems by (auto split: prod.splits)
  next
    case True
    then have "ticket_le t (t\<lparr>index := Some i, state := Unspent\<rparr>)" for i
      by (simp add: ticket_le_def is_spent_def on_chain_def)
    then show ?thesis using Cons.prems True by (auto split: sum.splits option.splits prod.splits)
  qed
  then obtain a rest where u: "ts' = a # rest" "ticket_le t a" "rest = ts \<or> (\<exists>m r'. settle_loop C tt ts m = (rest, r'))"
    by blast
  then have "length rest = length ts \<and> (\<forall>i < length ts. ticket_le (ts ! i) (rest ! i))"
    using Cons.IH by auto
  with u(1,2) show ?case by (auto simp: less_Suc_eq_0_disj)
qed

lemma set_state_le:
  assumes "i < length (tickets w)" and "ticket_le (tickets w ! i) ((tickets w ! i)\<lparr>state := s\<rparr>)"
  shows "wallet_le w (set_state i s w)"
  using assms by (auto simp: wallet_le_def set_state_def nth_list_update)

lemma pick_usable:
  assumes "pick C tt w = Inr i"
  shows "i < length (tickets w)" and "usable C tt (tickets w ! i)"
  using assms pick_loop_Some [of C tt 0 "tickets w" i]
  by (auto simp: pick_def res_inv Let_def split: option.splits if_splits)

lemma wallet_step_le: "wallet_step C w w' \<Longrightarrow> wallet_le w w'"
proof (induction rule: wallet_step.induct)
  case (Mint secrets w w' r)
  from mint_wallet_le [OF this] show ?case by (auto simp: wallet_le_def nth_append)
next
  case (Settle tt w w' r)
  then obtain ts r' where "settle_loop C tt (tickets w) 0 = (ts, r')" "w' = w\<lparr>tickets := ts\<rparr>"
    by (auto simp: settle_def split: prod.splits)
  with settle_loop_le [OF this(1)] show ?case by (simp add: wallet_le_def)
next
  case (Reserve tt w i sid)
  from pick_usable [OF this] show ?case
    by (intro set_state_le) (auto simp: usable_def ticket_le_def is_spent_def on_chain_def)
next
  case (Spend st nf tx w w' b)
  then show ?case
    by (auto simp: mark_spent_def position_by_nullifier_def dest: position_less intro!: set_state_le
        split: option.splits) (auto simp: ticket_le_def is_spent_def on_chain_def)
next
  case (Release st nf w w' b)
  show ?case
  proof (cases "w' = w")
    case False
    then obtain i sid where i: "position_by_nullifier C st nf w = Some i" "state (tickets w ! i) = Reserved sid"
      "w' = set_state i Unspent w"
      using Release by (auto simp: release_def split: option.splits ticket_state.splits)
    then have "i < length (tickets w)" by (auto simp: position_by_nullifier_def dest: position_less)
    with i show ?thesis by (auto simp: ticket_le_def is_spent_def on_chain_def intro!: set_state_le)
  qed simp
qed

lemma wallet_steps_le: "(wallet_step C)\<^sup>*\<^sup>* w w' \<Longrightarrow> wallet_le w w'"
  by (induction rule: rtranclp_induct) (auto intro: wallet_le_trans wallet_step_le)

section \<open>Properties of the wallet\<close>

text \<open>C7: Through any sequence of mints, settlements, reservations, spends and releases, no
  ticket secret is lost or moved, a spent ticket stays spent, a bought ticket never goes back to
  pending and keeps its tree index, and a ticket that is unspent or reserved has one.\<close>

theorem tickets_are_never_lost:
  assumes "(wallet_step C)\<^sup>*\<^sup>* w w'" and "i < length (tickets w)"
  shows "i < length (tickets w') \<and> secret (tickets w' ! i) = secret (tickets w ! i)
     \<and> (is_spent (tickets w ! i) \<longrightarrow> is_spent (tickets w' ! i))
     \<and> (state (tickets w ! i) \<noteq> Pending \<longrightarrow> state (tickets w' ! i) \<noteq> Pending \<and> index (tickets w' ! i) = index (tickets w ! i))
     \<and> ((on_chain (tickets w ! i) \<longrightarrow> index (tickets w ! i) \<noteq> None) \<longrightarrow> (on_chain (tickets w' ! i) \<longrightarrow> index (tickets w' ! i) \<noteq> None))"
  using wallet_steps_le [OF assms(1)] assms(2) by (auto simp: wallet_le_def ticket_le_def)

definition demo_wallet :: "ticket_state \<Rightarrow> wallet" where
  "demo_wallet s = \<lparr>wallet_store = ''0x1'', tickets = [\<lparr>secret = ''0x'' @ demo_hex_encode (be_bytes 32 9), index = Some 0, buy_tx = None, state = s\<rparr>]\<rparr>"

theorem tickets_are_never_lost_witness:
  "is_spent (tickets (fst (release demo_crates 1 2 (demo_wallet (Spent None)))) ! 0)"
proof -
  have "(wallet_step demo_crates)\<^sup>*\<^sup>* (demo_wallet (Spent None)) (fst (release demo_crates 1 2 (demo_wallet (Spent None))))"
    by (intro r_into_rtranclp wallet_step.Release [of _ 1 2 _ _ "snd (release demo_crates 1 2 (demo_wallet (Spent None)))"]) simp
  from tickets_are_never_lost [OF this, of 0] show ?thesis
    by (simp add: demo_wallet_def is_spent_def)
qed

text \<open>\<open>pick\<close> is sound: the ticket it returns is unspent, and its leaf is proved by the
  tree's path at its index against the tree's root, for every tree built from purchase events.\<close>

theorem picked_ticket_proves:
  assumes "ticket_tree_from_events C events = Inr tt" and "pick C tt w = Inr i"
  shows "i < length (tickets w) \<and> state (tickets w ! i) = Unspent
    \<and> (\<exists>idx leaf p. index (tickets w ! i) = Some idx \<and> ticket_leaf_of C (tickets w ! i) = Inr leaf
         \<and> tt_path tt idx = Inr p \<and> fold_path C leaf idx p = Inr (tt_root tt))"
proof -
  have "tt_ok C tt" using assms(1) ticket_tree_build_ok(1) by (auto simp: ticket_tree_from_events_def res_inv)
  with pick_usable [OF assms(2)] tt_member_proof [OF this] show ?thesis
    by (fastforce simp: usable_def)
qed

definition demo_leaf :: felt where
  "demo_leaf = ticket_leaf demo_crates 9"

lemma demo_ticket_leaf: "ticket_leaf_of demo_crates (tickets (demo_wallet s) ! 0) = Inr demo_leaf"
proof -
  have "hex_bytes demo_crates (''0x'' @ demo_hex_encode (be_bytes 32 9)) = Inr (be_bytes 32 9)"
    using hex_bytes_print [OF demo_hex_ok] by (simp add: demo_crates_def)
  moreover have "member_secret_felt (be_bytes 32 9) = Inr 9"
    by (simp add: member_secret_felt_Inr be_nat_be_bytes)
  ultimately show ?thesis
    by (simp add: ticket_leaf_of_def ticket_secret_felt_def demo_wallet_def demo_leaf_def del: be_bytes.simps)
qed

lemma demo_tree:
  obtains tt where "ticket_tree_from_events demo_crates [([''x''], [hex0x demo_leaf, hex0x 0])] = Inr tt" and "tt_leaves tt = [demo_leaf]"
proof -
  obtain t where t: "mt_insert demo_crates (mt_new demo_crates) demo_leaf = Inr (0, t)"
    using mt_insert_ok [OF mt_new_ok, of demo_crates demo_leaf] by (auto simp: TREE_DEPTH_def)
  have "felt_ok demo_leaf" using demo_poseidon_ok by (simp add: poseidon_ok_def demo_leaf_def ticket_leaf_def)
  then have "felt_from_hex demo_crates (hex0x demo_leaf) = Inr demo_leaf" and "felt_from_hex demo_crates (hex0x 0) = Inr 0"
    using demo_felt_hex_ok by (simp_all add: felt_from_hex_def felt_hex_ok_def u64_felt_ok)
  moreover have "felt_to_u64 0 = Inr 0" by (rule u64.dec_enc) simp
  ultimately have "ticket_tree_from_events demo_crates [([''x''], [hex0x demo_leaf, hex0x 0])] = Inr \<lparr>tt_leaves = [demo_leaf], tt_tree = t\<rparr>"
    using t by (simp add: ticket_tree_from_events_def ticket_event_def to_u32_def ticket_tree_build_def)
  then show ?thesis by (rule that) simp
qed

theorem picked_ticket_proves_witness:
  "\<exists>tt p. ticket_tree_from_events demo_crates [([''x''], [hex0x demo_leaf, hex0x 0])] = Inr tt
     \<and> pick demo_crates tt (demo_wallet Unspent) = Inr 0 \<and> fold_path demo_crates demo_leaf 0 p = Inr (tt_root tt)"
proof -
  obtain tt where tt: "ticket_tree_from_events demo_crates [([''x''], [hex0x demo_leaf, hex0x 0])] = Inr tt" "tt_leaves tt = [demo_leaf]"
    by (rule demo_tree)
  have "pick demo_crates tt (demo_wallet Unspent) = Inr 0"
    using demo_ticket_leaf [of Unspent] tt(2) by (simp add: pick_def demo_wallet_def tt_leaf_def)
  from picked_ticket_proves [OF tt(1) this] this tt(1) demo_ticket_leaf [of Unspent] show ?thesis
    by (auto simp: demo_wallet_def)
qed

text \<open>C12: A bought ticket becomes usable: when every secret of the wallet parses and the tree
  holds the leaf of a pending ticket, settling succeeds and picking from the settled wallet then
  returns a ticket.\<close>

theorem bought_ticket_is_usable:
  assumes "ticket_tree_from_events C events = Inr tt" and "secrets_parse C w"
  shows "(\<exists>t \<in> set (tickets w). state t = Pending \<and> (\<exists>leaf \<in> set (tt_leaves tt). ticket_leaf_of C t = Inr leaf))
      \<longrightarrow> (\<exists>w' n i. settle C tt w = (w', Inr n) \<and> pick C tt w' = Inr i)"
    (is "?bought \<longrightarrow> ?picked")
proof
  assume ?bought
  have tt: "tt_ok C tt" using assms(1) ticket_tree_build_ok(1) by (auto simp: ticket_tree_from_events_def res_inv)
  from settle_loop_total [OF tt, of "tickets w" 0] \<open>?bought\<close> assms(2)
  obtain ts m where s: "settle_loop C tt (tickets w) 0 = (ts, Inr m)" "\<forall>t \<in> set ts. is_ok (ticket_leaf_of C t)"
    "\<exists>t \<in> set ts. usable C tt t"
    by (auto simp: secrets_parse_def)
  with pick_loop_total [OF s(2), of tt 0] obtain i where "pick_loop C tt 0 ts = Inr (Some i)" by blast
  then show ?picked using s(1) by (simp add: settle_def pick_def)
qed

theorem bought_ticket_is_usable_witness:
  "\<exists>tt w' n i. ticket_tree_from_events demo_crates [([''x''], [hex0x demo_leaf, hex0x 0])] = Inr tt
     \<and> settle demo_crates tt (demo_wallet Pending) = (w', Inr n) \<and> pick demo_crates tt w' = Inr i"
proof -
  obtain tt where tt: "ticket_tree_from_events demo_crates [([''x''], [hex0x demo_leaf, hex0x 0])] = Inr tt" "tt_leaves tt = [demo_leaf]"
    by (rule demo_tree)
  have "secrets_parse demo_crates (demo_wallet Pending)"
    using demo_ticket_leaf [of Pending] by (simp add: secrets_parse_def demo_wallet_def)
  from bought_ticket_is_usable [OF tt(1) this] tt demo_ticket_leaf [of Pending] show ?thesis
    by (simp add: demo_wallet_def)
qed

end
