(* ===== verification/Json.thy ===== *)
theory Json
  imports Config "HOL-Library.AList"
begin

text \<open>
  What the program uses of \<^verbatim>\<open>serde_json::Value\<close> (indexing, \<^verbatim>\<open>as_str\<close>, \<^verbatim>\<open>as_array\<close>, the
  \<^verbatim>\<open>json!\<close> objects) and of the standard library's text functions (\<^verbatim>\<open>contains\<close>, \<^verbatim>\<open>find\<close>,
  \<^verbatim>\<open>from_str_radix\<close>). An object is an association list; the order of its keys has no meaning.
\<close>

section \<open>Values\<close>

datatype json = JNull | JBool bool | JNum int | JStr string | JArr "json list" | JObj "(string \<times> json) list"

fun jget :: "json \<Rightarrow> string \<Rightarrow> json" where
  "jget (JObj kvs) k = (case map_of kvs k of Some v \<Rightarrow> v | None \<Rightarrow> JNull)"
| "jget _ k = JNull"

fun jidx :: "json \<Rightarrow> nat \<Rightarrow> json" where
  "jidx (JArr xs) i = (if i < length xs then xs ! i else JNull)"
| "jidx _ i = JNull"

fun jset :: "string \<Rightarrow> json \<Rightarrow> json \<Rightarrow> json" where
  "jset k v (JObj kvs) = JObj (AList.update k v kvs)"
| "jset k v j = j"

fun as_str :: "json \<Rightarrow> string option" where
  "as_str (JStr s) = Some s"
| "as_str _ = None"

fun as_array :: "json \<Rightarrow> json list option" where
  "as_array (JArr xs) = Some xs"
| "as_array _ = None"

fun as_i64 :: "json \<Rightarrow> int option" where
  "as_i64 (JNum n) = (if - (2 ^ 63) \<le> n \<and> n < 2 ^ 63 then Some n else None)"
| "as_i64 _ = None"

text \<open>\<^verbatim>\<open>str_vec\<close> of \<^verbatim>\<open>chain.rs\<close>: the strings of an array, anything else dropped.\<close>

definition str_vec :: "json \<Rightarrow> string list" where
  "str_vec v = (case as_array v of Some a \<Rightarrow> List.map_filter as_str a | None \<Rightarrow> [])"

lemma jget_jset [simp]: "jget (jset k v (JObj kvs)) k' = (if k' = k then v else jget (JObj kvs) k')"
  by (auto simp: update_conv split: option.split)

lemma map_filter_as_str [simp]: "List.map_filter as_str (map JStr ss) = ss"
  by (induction ss) auto

lemma str_vec_strings [simp]: "str_vec (JArr (map JStr ss)) = ss"
  by (simp add: str_vec_def)

section \<open>Text\<close>

fun starts_with :: "string \<Rightarrow> string \<Rightarrow> bool" where
  "starts_with [] s = True"
| "starts_with (p # ps) [] = False"
| "starts_with (p # ps) (c # s) = (p = c \<and> starts_with ps s)"

text \<open>\<^verbatim>\<open>str::find\<close> gives the position of the first occurrence; \<open>find_after\<close> the text behind it.\<close>

fun find_after :: "string \<Rightarrow> string \<Rightarrow> string option" where
  "find_after p s = (if starts_with p s then Some (drop (length p) s) else case s of [] \<Rightarrow> None | c # s' \<Rightarrow> find_after p s')"

definition str_contains :: "string \<Rightarrow> string \<Rightarrow> bool" where
  "str_contains s p = (find_after p s \<noteq> None)"

declare find_after.simps [simp del]

definition is_space :: "char \<Rightarrow> bool" where
  "is_space c = (c \<in> set [CHR '' '', CHR 0x09, CHR 0x0A, CHR 0x0B, CHR 0x0C, CHR 0x0D])"

definition trim_start :: "string \<Rightarrow> string" where
  "trim_start s = dropWhile is_space s"

definition trim_ws :: "string \<Rightarrow> string" where
  "trim_ws s = rev (dropWhile is_space (rev (trim_start s)))"

definition digit_val :: "char \<Rightarrow> nat option" where
  "digit_val c =
     (let n = of_char c
      in if 48 \<le> n \<and> n \<le> 57 then Some (n - 48)
         else if 97 \<le> n \<and> n \<le> 102 then Some (n - 87)
         else if 65 \<le> n \<and> n \<le> 70 then Some (n - 55)
         else None)"

definition is_hexdigit :: "char \<Rightarrow> bool" where
  "is_hexdigit c = (digit_val c \<noteq> None)"

text \<open>\<^verbatim>\<open>to_lowercase\<close> of the text that matters here, felts and messages in ASCII; other
  characters are kept.\<close>

definition lower_char :: "char \<Rightarrow> char" where
  "lower_char c = (let n = of_char c :: nat in if 65 \<le> n \<and> n \<le> 90 then char_of (n + 32) else c)"

definition is_digit :: "char \<Rightarrow> bool" where
  "is_digit c = (case digit_val c of Some d \<Rightarrow> d < 10 | None \<Rightarrow> False)"

fun digits_value :: "nat \<Rightarrow> nat \<Rightarrow> string \<Rightarrow> nat option" where
  "digits_value radix a [] = Some a"
| "digits_value radix a (c # s) =
     (case digit_val c of
        Some d \<Rightarrow> if d < radix then digits_value radix (radix * a + d) s else None
      | None \<Rightarrow> None)"

text \<open>\<^verbatim>\<open>from_str_radix\<close> of an unsigned type of \<open>w\<close> bits: one leading plus is allowed, the
  digits must not be empty and the value must fit.\<close>

definition parse_radix :: "nat \<Rightarrow> nat \<Rightarrow> string \<Rightarrow> nat option" where
  "parse_radix w radix s =
     (let t = (case s of c # t \<Rightarrow> if c = CHR ''+'' then t else s | [] \<Rightarrow> [])
      in if t = [] then None
         else case digits_value radix 0 t of
                Some n \<Rightarrow> if n < 2 ^ w then Some n else None
              | None \<Rightarrow> None)"

text \<open>Decimal printing (\<^verbatim>\<open>to_string\<close>).\<close>

fun dec_nat :: "nat \<Rightarrow> string" where
  "dec_nat n = (if n < 10 then [hex_digits ! n] else dec_nat (n div 10) @ [hex_digits ! (n mod 10)])"

declare dec_nat.simps [simp del]

lemma digit_val_hex_digits: "i < 16 \<Longrightarrow> digit_val (hex_digits ! i) = Some i"
proof -
  have "\<forall>i \<in> {..<16::nat}. digit_val (hex_digits ! i) = Some i"
    by (simp add: hex_digits_def digit_val_def lessThan_nat_numeral lessThan_Suc)
  then show "i < 16 \<Longrightarrow> ?thesis" by blast
qed

lemma digits_value_snoc:
  "digits_value r a (s @ [c]) = (case digits_value r a s of None \<Rightarrow> None
     | Some v \<Rightarrow> (case digit_val c of Some d \<Rightarrow> if d < r then Some (r * v + d) else None | None \<Rightarrow> None))"
  by (induction s arbitrary: a) (auto split: option.splits)

lemma digits_value_hex: "digits_value 16 0 (hex_nat n) = Some n"
proof (induction n rule: hex_nat.induct)
  case (1 n)
  then show ?case
    by (cases "n < 16") (simp_all add: hex_nat.simps [of n] digits_value_snoc digit_val_hex_digits)
qed

lemma digits_value_dec: "digits_value 10 0 (dec_nat n) = Some n"
proof (induction n rule: dec_nat.induct)
  case (1 n)
  then show ?case
    by (cases "n < 10") (simp_all add: dec_nat.simps [of n] digits_value_snoc digit_val_hex_digits)
qed

lemma is_digit_hex_digits: "i < 10 \<Longrightarrow> is_digit (hex_digits ! i)"
  by (simp add: is_digit_def digit_val_hex_digits)

lemma dec_nat_digits: "\<forall>c \<in> set (dec_nat n). is_digit c"
proof (induction n rule: dec_nat.induct)
  case (1 n)
  then show ?case
    by (cases "n < 10") (auto simp: dec_nat.simps [of n] is_digit_hex_digits)
qed

lemma hex_nat_digits: "\<forall>c \<in> set (hex_nat n). is_hexdigit c"
proof (induction n rule: hex_nat.induct)
  case (1 n)
  then show ?case
    by (cases "n < 16") (auto simp: hex_nat.simps [of n] is_hexdigit_def digit_val_hex_digits)
qed

lemma dec_nat_not_Nil [simp]: "dec_nat n \<noteq> []"
  by (simp add: dec_nat.simps)

lemma hex_nat_not_Nil [simp]: "hex_nat n \<noteq> []"
  by (simp add: hex_nat.simps)

lemma not_plus: "is_hexdigit c \<Longrightarrow> c \<noteq> CHR ''+''"
  by (auto simp: is_hexdigit_def digit_val_def)

lemma parse_radix_digits:
  assumes "\<forall>c \<in> set s. is_hexdigit c" and "s \<noteq> []" and "digits_value r 0 s = Some n" and "n < 2 ^ w"
  shows "parse_radix w r s = Some n"
proof -
  obtain c t where "s = c # t" using assms(2) by (cases s) auto
  moreover have "c \<noteq> CHR ''+''" using assms(1) \<open>s = c # t\<close> by (intro not_plus) simp
  ultimately show ?thesis using assms(2-4) by (simp add: parse_radix_def Let_def)
qed

lemma parse_hex_nat: "n < 2 ^ w \<Longrightarrow> parse_radix w 16 (hex_nat n) = Some n"
  by (rule parse_radix_digits) (simp_all add: hex_nat_digits digits_value_hex)

lemma parse_dec_nat: "n < 2 ^ w \<Longrightarrow> parse_radix w 10 (dec_nat n) = Some n"
proof (rule parse_radix_digits)
  show "\<forall>c \<in> set (dec_nat n). is_hexdigit c"
    using dec_nat_digits [of n] by (auto simp: is_digit_def is_hexdigit_def split: option.splits)
qed (simp_all add: digits_value_dec)

lemma starts_with_append [simp]: "starts_with p (p @ s)"
  by (induction p) auto

lemma starts_with_drop: "starts_with p s \<Longrightarrow> s = p @ drop (length p) s"
  by (induction p s rule: starts_with.induct) auto

lemma find_after_Some: "find_after p s = Some t \<Longrightarrow> \<exists>a. s = a @ p @ t"
proof (induction p s rule: find_after.induct)
  case (1 p s)
  show ?case
  proof (cases "starts_with p s")
    case True
    then have "t = drop (length p) s" using "1.prems" by (simp add: find_after.simps)
    with starts_with_drop [OF True] show ?thesis by (metis append_Nil)
  next
    case False
    then obtain c s' where "s = c # s'" "find_after p s' = Some t"
      using "1.prems" by (auto simp: find_after.simps [of p s] split: list.splits)
    with "1.IH" [OF False, of c s'] show ?thesis by (metis append_Cons)
  qed
qed

lemma trim_0x_hex_nat [simp]: "trim_0x (''0x'' @ hex_nat n) = hex_nat n"
proof -
  have "CHR ''x'' \<notin> set (hex_nat n)"
    using hex_nat_digits [of n] by (auto simp: is_hexdigit_def digit_val_def)
  then have "trim_0x (hex_nat n) = hex_nat n" by (intro trim_0x_id) auto
  then show ?thesis by simp
qed

end
