(* ===== verification/Chain.thy ===== *)
theory Chain
  imports Json TxPolicy
begin

text \<open>
  \<^verbatim>\<open>core/src/chain.rs\<close>: the arguments given to \<^verbatim>\<open>sncast\<close>, the JSON-RPC reads and the loops
  over them. The node is the parameter \<open>rpc\<close> (method and parameters to a result), the
  \<^verbatim>\<open>Transport\<close> seam of the source; a loop that polls gets the node's successive replies as a
  list, each with whether the clock has passed the deadline by then. Walking continuation
  tokens may never end, so \<open>events_loop\<close> is a partial function and its value carries the
  requests made.
\<close>

section \<open>sncast arguments\<close>

record gas_bounds =
  gb_l1_gas :: "nat option"
  gb_l1_gas_price :: "nat option"
  gb_l2_gas :: "nat option"
  gb_l2_gas_price :: "nat option"
  gb_l1_data_gas :: "nat option"
  gb_l1_data_gas_price :: "nat option"

definition push_arg :: "string \<Rightarrow> nat option \<Rightarrow> string list" where
  "push_arg flag v = (case v of Some n \<Rightarrow> [flag, dec_nat n] | None \<Rightarrow> [])"

definition gas_bounds_args :: "gas_bounds \<Rightarrow> string list" where
  "gas_bounds_args b =
     push_arg ''--l1-gas'' (gb_l1_gas b) @ push_arg ''--l1-gas-price'' (gb_l1_gas_price b)
     @ push_arg ''--l2-gas'' (gb_l2_gas b) @ push_arg ''--l2-gas-price'' (gb_l2_gas_price b)
     @ push_arg ''--l1-data-gas'' (gb_l1_data_gas b) @ push_arg ''--l1-data-gas-price'' (gb_l1_data_gas_price b)"

definition sncast_args :: "string \<Rightarrow> string \<Rightarrow> string \<Rightarrow> string list \<Rightarrow> string list" where
  "sncast_args verb contract fn cd =
     [verb, ''--contract-address'', contract, ''--function'', fn]
     @ (if cd \<noteq> [] then ''--calldata'' # cd else [])"

definition invoke_args :: "string \<Rightarrow> string \<Rightarrow> string list \<Rightarrow> gas_bounds \<Rightarrow> string list" where
  "invoke_args contract fn cd b = sncast_args ''invoke'' contract fn cd @ gas_bounds_args b"

definition call_args :: "string \<Rightarrow> string \<Rightarrow> string list \<Rightarrow> string list" where
  "call_args contract fn cd = sncast_args ''call'' contract fn cd"

text \<open>\<^verbatim>\<open>parse_sncast_json\<close>, after the lines are parsed.\<close>

definition parse_sncast_json :: "json list \<Rightarrow> json res" where
  "parse_sncast_json objects =
     (case List.find (\<lambda>v. jget v ''type'' = JStr ''error'') objects of
        Some err \<Rightarrow> Inl (Net RpcError)
      | None \<Rightarrow>
          of_opt (Decode BadShape)
            (case List.find (\<lambda>v. jget v ''type'' = JStr ''response'') objects of
               Some v \<Rightarrow> Some v
             | None \<Rightarrow> if objects = [] then None else Some (last objects)))"

section \<open>Reads\<close>

type_synonym rpc = "string \<Rightarrow> json \<Rightarrow> json res"

text \<open>The body of a JSON-RPC answer: an \<^verbatim>\<open>error\<close> member fails the call.\<close>

definition rpc_result :: "json \<Rightarrow> json res" where
  "rpc_result reply =
     (case reply of
        JObj kvs \<Rightarrow> (case map_of kvs ''error'' of Some _ \<Rightarrow> Inl (Net RpcError) | None \<Rightarrow> Inr (jget reply ''result''))
      | _ \<Rightarrow> Inr (jget reply ''result''))"

definition snkeccak :: "crates \<Rightarrow> string \<Rightarrow> felt" where
  "snkeccak C name =
     (let h = keccak256 C (str_bytes name) in felt_from_be (h[0 := and (h ! 0) 0x03]))"

definition trace_retdata :: "rpc \<Rightarrow> string \<Rightarrow> string list res" where
  "trace_retdata rpc tx_hash =
     rbind (rpc ''starknet_traceTransaction'' (JArr [JStr tx_hash])) (\<lambda>trace.
     rbind (of_opt (Decode BadShape) (as_array (jget (jidx (jget (jget trace ''execute_invocation'') ''calls'') 0) ''result''))) (\<lambda>arr.
     Inr (List.map_filter as_str arr)))"

definition block_price :: "json \<Rightarrow> string \<Rightarrow> nat res" where
  "block_price block key =
     rbind (of_opt (Decode BadShape) (as_str (jget (jget block key) ''price_in_fri''))) (\<lambda>h.
     of_opt (Decode NotU128) (parse_radix 128 16 (trim_0x h)))"

definition gas_prices :: "rpc \<Rightarrow> (nat \<times> nat \<times> nat) res" where
  "gas_prices rpc =
     rbind (rpc ''starknet_getBlockWithTxHashes'' (JArr [JStr ''latest''])) (\<lambda>block.
     rbind (block_price block ''l1_gas_price'') (\<lambda>p1.
     rbind (block_price block ''l2_gas_price'') (\<lambda>p2.
     rbind (block_price block ''l1_data_gas_price'') (\<lambda>p3.
     Inr (p1, p2, p3)))))"

section \<open>Events\<close>

type_synonym event = "string list \<times> string list"

definition event_filter :: "string \<Rightarrow> string \<Rightarrow> nat \<Rightarrow> nat option \<Rightarrow> string option \<Rightarrow> json" where
  "event_filter address key0 from_block to_block token =
     (let f = JObj [(''from_block'', JObj [(''block_number'', JNum (int from_block))]),
                    (''to_block'', case to_block of Some n \<Rightarrow> JObj [(''block_number'', JNum (int n))] | None \<Rightarrow> JStr ''latest''),
                    (''address'', JStr address),
                    (''keys'', JArr [JArr [JStr key0]]),
                    (''chunk_size'', JNum 100)]
      in case token of Some t \<Rightarrow> jset ''continuation_token'' (JStr t) f | None \<Rightarrow> f)"

definition page_events :: "json \<Rightarrow> event list" where
  "page_events page =
     map (\<lambda>ev. (str_vec (jget ev ''keys''), str_vec (jget ev ''data'')))
       (case as_array (jget page ''events'') of Some evs \<Rightarrow> evs | None \<Rightarrow> [])"

partial_function (option) events_loop ::
  "rpc \<Rightarrow> (string option \<Rightarrow> json) \<Rightarrow> event list \<Rightarrow> string option \<Rightarrow> json list \<Rightarrow> (json list \<times> event list res) option" where
  "events_loop rpc flt out token reqs =
     (case rpc ''starknet_getEvents'' (JArr [flt token]) of
        Inl e \<Rightarrow> Some (reqs @ [flt token], Inl e)
      | Inr page \<Rightarrow>
          (case as_str (jget page ''continuation_token'') of
             Some t \<Rightarrow> events_loop rpc flt (out @ page_events page) (Some t) (reqs @ [flt token])
           | None \<Rightarrow> Some (reqs @ [flt token], Inr (out @ page_events page))))"

definition events_through :: "rpc \<Rightarrow> string \<Rightarrow> string \<Rightarrow> nat \<Rightarrow> nat option \<Rightarrow> (json list \<times> event list res) option" where
  "events_through rpc address key0 from_block to_block =
     events_loop rpc (event_filter address key0 from_block to_block) [] None []"

definition events :: "rpc \<Rightarrow> string \<Rightarrow> string \<Rightarrow> nat \<Rightarrow> (json list \<times> event list res) option" where
  "events rpc address key0 from_block = events_through rpc address key0 from_block None"

section \<open>Receipts\<close>

text \<open>\<^verbatim>\<open>wait_receipt\<close>: each poll is the node's reply and whether the deadline has passed after
  it. \<open>None\<close> when the polls given do not decide.\<close>

fun wait_receipt :: "(json res \<times> bool) list \<Rightarrow> json res option" where
  "wait_receipt [] = None"
| "wait_receipt ((reply, late) # polls) =
     (let again = (if late then Some (Inl (Net TimedOut)) else wait_receipt polls)
      in case reply of
           Inl _ \<Rightarrow> again
         | Inr receipt \<Rightarrow>
             (case as_str (jget receipt ''execution_status'') of
                Some st \<Rightarrow>
                  if st = ''SUCCEEDED'' then Some (Inr receipt)
                  else if st = ''REVERTED'' then
                    Some (Inl (Gateway (Reverted [] (case as_str (jget receipt ''revert_reason'') of Some r \<Rightarrow> r | None \<Rightarrow> ''?''))))
                  else again
              | None \<Rightarrow> again))"

section \<open>Lemmas\<close>

text \<open>A node that serves the events in pages: page \<open>i\<close> for the \<open>i\<close>th token, and a token to the
  next page on all but the last.\<close>

definition token_at :: "(nat \<Rightarrow> string) \<Rightarrow> nat \<Rightarrow> string option" where
  "token_at tok i = (if i = 0 then None else Some (tok i))"

definition serves_pages :: "rpc \<Rightarrow> (string option \<Rightarrow> json) \<Rightarrow> (nat \<Rightarrow> string) \<Rightarrow> event list list \<Rightarrow> bool" where
  "serves_pages rpc flt tok pages =
     (pages \<noteq> [] \<and> (\<forall>i < length pages. \<exists>page. rpc ''starknet_getEvents'' (JArr [flt (token_at tok i)]) = Inr page
        \<and> page_events page = pages ! i
        \<and> as_str (jget page ''continuation_token'') = (if Suc i < length pages then Some (tok (Suc i)) else None)))"

lemma events_loop_pages:
  assumes "serves_pages rpc flt tok pages" and "i < length pages"
  shows "events_loop rpc flt out (token_at tok i) reqs
     = Some (reqs @ map (\<lambda>j. flt (token_at tok j)) [i..<length pages], Inr (out @ concat (drop i pages)))"
  using assms(2)
proof (induction "length pages - i" arbitrary: i out reqs)
  case 0
  then show ?case by simp
next
  case (Suc k)
  obtain page where page: "rpc ''starknet_getEvents'' (JArr [flt (token_at tok i)]) = Inr page"
    "page_events page = pages ! i"
    "as_str (jget page ''continuation_token'') = (if Suc i < length pages then Some (tok (Suc i)) else None)"
    using assms(1) Suc.prems unfolding serves_pages_def by blast
  have up: "[i..<length pages] = i # [Suc i..<length pages]" and dr: "drop i pages = pages ! i # drop (Suc i) pages"
    using Suc.prems by (simp_all add: upt_conv_Cons Cons_nth_drop_Suc del: upt_Suc)
  show ?case
  proof (cases "Suc i < length pages")
    case True
    have "events_loop rpc flt (out @ page_events page) (token_at tok (Suc i)) (reqs @ [flt (token_at tok i)])
      = Some ((reqs @ [flt (token_at tok i)]) @ map (\<lambda>j. flt (token_at tok j)) [Suc i..<length pages],
          Inr ((out @ page_events page) @ concat (drop (Suc i) pages)))"
      by (rule Suc.hyps) (use True Suc.hyps(2) in auto)
    then show ?thesis
      using page True up dr by (subst events_loop.simps) (simp add: token_at_def)
  next
    case False
    then show ?thesis using page up dr Suc.prems by (subst events_loop.simps) simp
  qed
qed

lemma wait_receipt_success:
  "wait_receipt polls = Some (Inr r) \<Longrightarrow> \<exists>late. (Inr r, late) \<in> set polls \<and> jget r ''execution_status'' = JStr ''SUCCEEDED''"
proof (induction polls rule: wait_receipt.induct)
  case 1
  then show ?case by simp
next
  case (2 reply late polls)
  show ?case
  proof (cases reply)
    case (Inl e)
    then show ?thesis using 2 by (auto simp: Let_def split: if_splits)
  next
    case (Inr receipt)
    show ?thesis
    proof (cases "jget receipt ''execution_status'' = JStr ''SUCCEEDED''")
      case True
      then show ?thesis using 2 Inr by (auto simp: Let_def)
    next
      case False
      then have "as_str (jget receipt ''execution_status'') \<noteq> Some ''SUCCEEDED''"
        by (cases "jget receipt ''execution_status''") auto
      then show ?thesis using 2 Inr by (auto simp: Let_def split: if_splits option.splits)
    qed
  qed
qed

lemma all_events_walked:
  assumes "serves_pages rpc (event_filter address key0 from_block to_block) tok pages"
  shows "events_through rpc address key0 from_block to_block
     = Some (map (\<lambda>j. event_filter address key0 from_block to_block (token_at tok j)) [0..<length pages], Inr (concat pages))"
proof -
  have "0 < length pages" using assms by (simp add: serves_pages_def)
  moreover have "token_at tok 0 = None" by (simp add: token_at_def)
  ultimately show ?thesis
    using events_loop_pages [OF assms, of 0 "[]" "[]"] by (simp add: events_through_def)
qed

section \<open>Properties\<close>

text \<open>Against a node that serves a filter's events in any number of pages, \<open>events_through\<close>
  returns all of them, in order, after one request per page; and every request it makes is the
  filter of the store, the event and the block range, with nothing added but the node's own
  continuation token, so that no request depends on the user.\<close>

theorem events_walks_every_page:
  assumes "serves_pages rpc (event_filter address key0 from_block to_block) tok pages"
  shows "\<exists>reqs. events_through rpc address key0 from_block to_block = Some (reqs, Inr (concat pages))
     \<and> length reqs = length pages
     \<and> (\<forall>q \<in> set reqs. \<exists>i. q = event_filter address key0 from_block to_block (token_at tok i))"
  using all_events_walked [OF assms] by auto

definition demo_pages :: rpc where
  "demo_pages m req =
     (if jget (jidx req 0) ''continuation_token'' = JNull
      then Inr (JObj [(''events'', JArr [JObj [(''keys'', JArr [JStr ''0x1'']), (''data'', JArr [])]]), (''continuation_token'', JStr ''p'')])
      else Inr (JObj [(''events'', JArr [JObj [(''keys'', JArr [JStr ''0x2'']), (''data'', JArr [])]])]))"

theorem events_walks_every_page_witness:
  "\<exists>reqs. events_through demo_pages ''0xa'' ''0xb'' 7 None = Some (reqs, Inr [([''0x1''], []), ([''0x2''], [])]) \<and> length reqs = 2"
proof -
  have "str_vec (JArr [JStr s]) = [s]" and "str_vec (JArr []) = []" for s
    by (simp_all add: str_vec_def map_filter_simps)
  then have "serves_pages demo_pages (event_filter ''0xa'' ''0xb'' 7 None) (\<lambda>_. ''p'') [[([''0x1''], [])], [([''0x2''], [])]]"
    by (auto simp: serves_pages_def less_Suc_eq token_at_def demo_pages_def event_filter_def page_events_def Let_def)
  from events_walks_every_page [OF this] show ?thesis by auto
qed

end
