(* ===== verification/Invoke.thy ===== *)
theory Invoke
  imports Chain
begin

text \<open>
  \<^verbatim>\<open>core/src/invoke_v3.rs\<close> and \<^verbatim>\<open>core/src/account_tx.rs\<close>: the multicall calldata, the
  INVOKE v3 hash with SNIP-36's facts, signing, and the two JSON spellings of a transaction
  (\<^verbatim>\<open>sequencer.rs\<close> \<open>Gateway::invoke\<close>). \<open>read_body\<close> is the specification of a spelling: what a
  node reads from it.
\<close>

section \<open>Resource bounds\<close>

text \<open>\<open>packed\<close> of \<^verbatim>\<open>ResourceBounds\<close>; the slice index underflows for a name over 8 bytes.\<close>

definition packed :: "resource_bounds \<Rightarrow> string \<Rightarrow> felt res" where
  "packed b name =
     ensure (length name \<le> 8) Panic
       (Inr (felt_from_be (replicate (8 - length name) 0 @ str_bytes name
               @ be_bytes 8 (max_amount b) @ be_bytes 16 (max_price_per_unit b))))"

definition bound_json :: "resource_bounds \<Rightarrow> json" where
  "bound_json b = JObj [(''max_amount'', JStr (hex0x (max_amount b))), (''max_price_per_unit'', JStr (hex0x (max_price_per_unit b)))]"

definition rpc_json :: "fee_bounds \<Rightarrow> json" where
  "rpc_json b = JObj [(''l1_gas'', bound_json (l1_gas b)), (''l2_gas'', bound_json (l2_gas b)), (''l1_data_gas'', bound_json (l1_data_gas b))]"

definition gateway_json :: "fee_bounds \<Rightarrow> json" where
  "gateway_json b = JObj [(''L1_GAS'', bound_json (l1_gas b)), (''L2_GAS'', bound_json (l2_gas b)), (''L1_DATA_GAS'', bound_json (l1_data_gas b))]"

section \<open>Calls\<close>

record call =
  call_to :: felt
  selector :: felt
  call_calldata :: "felt list"

definition call_new :: "crates \<Rightarrow> felt \<Rightarrow> string \<Rightarrow> felt list \<Rightarrow> call" where
  "call_new C dest entrypoint cd = \<lparr>call_to = dest, selector = snkeccak C entrypoint, call_calldata = cd\<rparr>"

definition execute_calldata :: "call list \<Rightarrow> felt list" where
  "execute_calldata calls =
     length calls # concat (map (\<lambda>c. [call_to c, selector c, length (call_calldata c)] @ call_calldata c) calls)"

section \<open>The hash\<close>

record invoke_v3 =
  inv_sender :: felt
  inv_calldata :: "felt list"
  inv_chain_id :: felt
  inv_nonce :: felt
  inv_tip :: nat
  inv_bounds :: fee_bounds
  inv_proof_facts :: "felt list"

definition invoke_hash :: "crates \<Rightarrow> invoke_v3 \<Rightarrow> felt res" where
  "invoke_hash C iv =
     rbind (packed (l1_gas (inv_bounds iv)) ''L1_GAS'') (\<lambda>p1.
     rbind (packed (l2_gas (inv_bounds iv)) ''L2_GAS'') (\<lambda>p2.
     rbind (packed (l1_data_gas (inv_bounds iv)) ''L1_DATA'') (\<lambda>p3.
     rbind (short_string ''invoke'') (\<lambda>pfx.
     let fee_hash = poseidon_many C [inv_tip iv, p1, p2, p3];
         fields = [pfx, 3, inv_sender iv, fee_hash, poseidon_many C [], inv_chain_id iv, inv_nonce iv,
                   0, poseidon_many C [], poseidon_many C (inv_calldata iv)]
     in Inr (poseidon_many C (if inv_proof_facts iv \<noteq> [] then fields @ [poseidon_many C (inv_proof_facts iv)] else fields))))))"

section \<open>Signing and spelling\<close>

record signer =
  address :: felt
  private_key :: felt

definition sign :: "crates \<Rightarrow> signer \<Rightarrow> felt \<Rightarrow> (felt \<times> felt) res" where
  "sign C s hash = of_opt (Crypto BadSecret) (ecdsa_sign C (private_key s) hash)"

text \<open>\<open>from_sncast_account\<close>, on the parsed accounts file.\<close>

definition account_field :: "crates \<Rightarrow> json \<Rightarrow> string \<Rightarrow> felt res" where
  "account_field C entry name = rbind (of_opt (Decode BadShape) (as_str (jget entry name))) (felt_from_hex C)"

definition from_sncast_account :: "crates \<Rightarrow> json \<Rightarrow> string \<Rightarrow> signer res" where
  "from_sncast_account C raw acct =
     (let entry = jget (jget raw ''alpha-sepolia'') acct
      in rbind (account_field C entry ''address'') (\<lambda>a.
         rbind (account_field C entry ''private_key'') (\<lambda>k.
         case account_field C entry ''public_key'' of
           Inr pk \<Rightarrow> ensure (public_key C k = pk) (Crypto BadSecret) (Inr \<lparr>address = a, private_key = k\<rparr>)
         | Inl _ \<Rightarrow> Inr \<lparr>address = a, private_key = k\<rparr>)))"

record proof_attachment =
  att_proof :: string
  att_facts :: "felt list"

record signed_invoke =
  si_hash :: felt
  si_body :: json
  si_rpc_body :: json

definition felts_json :: "crates \<Rightarrow> felt list \<Rightarrow> json" where
  "felts_json C fs = JArr (map (\<lambda>f. JStr (felt_to_hex C f)) fs)"

definition invoke_body :: "crates \<Rightarrow> invoke_v3 \<Rightarrow> (string \<times> json) list \<Rightarrow> (string \<times> json) list" where
  "invoke_body C iv spelling =
     [(''version'', JStr ''0x3''),
      (''sender_address'', JStr (felt_to_hex C (inv_sender iv))),
      (''calldata'', felts_json C (inv_calldata iv)),
      (''signature'', JArr []),
      (''nonce'', JStr (felt_to_hex C (inv_nonce iv))),
      (''tip'', JStr (hex0x (inv_tip iv))),
      (''paymaster_data'', JArr []),
      (''account_deployment_data'', JArr [])] @ spelling"

definition attach :: "crates \<Rightarrow> proof_attachment option \<Rightarrow> json \<Rightarrow> json" where
  "attach C att body =
     (case att of
        None \<Rightarrow> body
      | Some a \<Rightarrow> jset ''proof_facts'' (felts_json C (att_facts a)) (jset ''proof'' (JStr (att_proof a)) body))"

definition gateway_invoke :: "crates \<Rightarrow> felt \<Rightarrow> felt \<Rightarrow> call list \<Rightarrow> felt \<Rightarrow> fee_bounds \<Rightarrow> nat \<Rightarrow> proof_attachment option \<Rightarrow> signed_invoke res" where
  "gateway_invoke C chain_id sender calls nonce b tip att =
     (let cd = execute_calldata calls;
          facts = (case att of Some a \<Rightarrow> att_facts a | None \<Rightarrow> []);
          iv = \<lparr>inv_sender = sender, inv_calldata = cd, inv_chain_id = chain_id, inv_nonce = nonce,
                 inv_tip = tip, inv_bounds = b, inv_proof_facts = facts\<rparr>
      in rbind (invoke_hash C iv) (\<lambda>hash.
         Inr \<lparr>si_hash = hash,
              si_body = attach C att (JObj (invoke_body C iv
                 [(''type'', JStr ''INVOKE_FUNCTION''), (''resource_bounds'', gateway_json b),
                  (''nonce_data_availability_mode'', JNum 0), (''fee_data_availability_mode'', JNum 0)])),
              si_rpc_body = attach C att (JObj (invoke_body C iv
                 [(''type'', JStr ''INVOKE''), (''resource_bounds'', rpc_json b),
                  (''nonce_data_availability_mode'', JStr ''L1''), (''fee_data_availability_mode'', JStr ''L1'')]))\<rparr>))"

definition unsigned_invoke :: "crates \<Rightarrow> felt \<Rightarrow> felt \<Rightarrow> call list \<Rightarrow> felt \<Rightarrow> fee_bounds \<Rightarrow> nat \<Rightarrow> proof_attachment option \<Rightarrow> signed_invoke res" where
  "unsigned_invoke C chain_id sender calls nonce b tip att = gateway_invoke C chain_id sender calls nonce b tip att"

definition sign_invoke :: "crates \<Rightarrow> felt \<Rightarrow> signer \<Rightarrow> call list \<Rightarrow> felt \<Rightarrow> fee_bounds \<Rightarrow> proof_attachment option \<Rightarrow> signed_invoke res" where
  "sign_invoke C chain_id s calls nonce b att =
     rbind (gateway_invoke C chain_id (address s) calls nonce b 0 att) (\<lambda>si.
     rbind (sign C s (si_hash si)) (\<lambda>(r, s').
     Inr (si\<lparr>si_body := jset ''signature'' (felts_json C [r, s']) (si_body si),
             si_rpc_body := jset ''signature'' (felts_json C [r, s']) (si_rpc_body si)\<rparr>)))"

text \<open>\<^verbatim>\<open>account_tx::signed_invoke\<close>: a member's own transaction under the shared tip, no facts.\<close>

definition signed_invoke_tx :: "crates \<Rightarrow> signer \<Rightarrow> call list \<Rightarrow> felt \<Rightarrow> fee_bounds \<Rightarrow> felt \<Rightarrow> (felt \<times> json) res" where
  "signed_invoke_tx C s calls nonce b chain_id =
     (let cd = execute_calldata calls;
          iv = \<lparr>inv_sender = address s, inv_calldata = cd, inv_chain_id = chain_id, inv_nonce = nonce,
                 inv_tip = TIP, inv_bounds = b, inv_proof_facts = []\<rparr>
      in rbind (invoke_hash C iv) (\<lambda>hash.
         rbind (sign C s hash) (\<lambda>(r, s').
         Inr (hash, jset ''signature'' (felts_json C [r, s']) (JObj (invoke_body C iv
               [(''type'', JStr ''INVOKE''), (''resource_bounds'', rpc_json b),
                (''nonce_data_availability_mode'', JStr ''L1''), (''fee_data_availability_mode'', JStr ''L1'')]))))))"

text \<open>\<^verbatim>\<open>account_tx::submit\<close>: the reads, the signature, the submission and the echoed hash.\<close>

definition account_submit :: "crates \<Rightarrow> rpc \<Rightarrow> json \<Rightarrow> string \<Rightarrow> call list \<Rightarrow> tx_kind \<Rightarrow> string res" where
  "account_submit C rpc accounts acct calls kind =
     rbind (from_sncast_account C accounts acct) (\<lambda>s.
     rbind (rbind (rpc ''starknet_chainId'' (JArr [])) (\<lambda>v. of_opt (Decode BadShape) (as_str v))) (\<lambda>cid.
     rbind (felt_from_hex C cid) (\<lambda>chain_id.
     rbind (rbind (rpc ''starknet_getNonce'' (JArr [JStr ''latest'', JStr (felt_to_hex C (address s))])) (\<lambda>v. of_opt (Decode BadShape) (as_str v))) (\<lambda>n.
     rbind (felt_from_hex C n) (\<lambda>nonce.
     rbind (rbind (gas_prices rpc) (bounds kind)) (\<lambda>b.
     rbind (signed_invoke_tx C s calls nonce b chain_id) (\<lambda>(hash, tx).
     rbind (rpc ''starknet_addInvokeTransaction'' (JObj [(''invoke_transaction'', tx)])) (\<lambda>reply.
     rbind (of_opt (Decode BadShape) (as_str (jget reply ''transaction_hash''))) (\<lambda>echoed.
     rbind (felt_from_hex C echoed) (\<lambda>e.
     ensure (e = hash) (Gateway (HashMismatch (felt_to_hex C hash) echoed)) (
     Inr (felt_to_hex C hash))))))))))))"

section \<open>Reading calldata back\<close>

fun read_calls :: "nat \<Rightarrow> felt list \<Rightarrow> (call list \<times> felt list) res" where
  "read_calls 0 fs = Inr ([], fs)"
| "read_calls (Suc n) (dest # sel # len # fs) =
     ensure (len \<le> length fs) (Decode TooShort) (
     rbind (read_calls n (drop len fs)) (\<lambda>(cs, rest).
     Inr (\<lparr>call_to = dest, selector = sel, call_calldata = take len fs\<rparr> # cs, rest)))"
| "read_calls (Suc n) _ = Inl (Decode TooShort)"

definition read_execute :: "felt list \<Rightarrow> (call list \<times> nat) res" where
  "read_execute fs =
     (case fs of
        [] \<Rightarrow> Inl (Decode TooShort)
      | n # cs \<Rightarrow> rbind (read_calls n cs) (\<lambda>(calls, rest). Inr (calls, length fs - length rest)))"

lemma read_calls_write:
  "read_calls (length cs) (concat (map (\<lambda>c. [call_to c, selector c, length (call_calldata c)] @ call_calldata c) cs) @ rest) = Inr (cs, rest)"
  by (induction cs) auto

interpretation multicall: framed_codec "\<lambda>_. True" execute_calldata read_execute
proof
  show "read_execute (execute_calldata cs @ rest) = Inr (cs, length (execute_calldata cs))" for cs rest
    using read_calls_write [of cs rest] by (simp add: read_execute_def execute_calldata_def)
qed

section \<open>The hash binds\<close>

definition bounds_ok :: "fee_bounds \<Rightarrow> bool" where
  "bounds_ok b = (\<forall>r \<in> {l1_gas b, l2_gas b, l1_data_gas b}. max_amount r < 2 ^ 64 \<and> max_price_per_unit r < 2 ^ 128)"

lemma packed_inj:
  assumes eq: "packed a name = packed b name" and n: "length name \<le> 7"
    and a: "max_amount a < 2 ^ 64" "max_price_per_unit a < 2 ^ 128"
    and b: "max_amount b < 2 ^ 64" "max_price_per_unit b < 2 ^ 128"
  shows "a = b"
proof -
  define pre where "pre = replicate (7 - length name) 0 @ str_bytes name"
  have len: "length pre = 7" using n by (simp add: pre_def)
  define f where "f r = pre @ be_bytes 8 (max_amount r) @ be_bytes 16 (max_price_per_unit r)" for r :: resource_bounds
  have "replicate (8 - length name) 0 @ str_bytes name = 0 # pre"
    using n by (simp add: pre_def Suc_diff_le [of "length name" 7, simplified])
  then have z: "replicate (8 - length name) 0 @ str_bytes name @ ys = 0 # pre @ ys" for ys
    by (metis append_assoc append_Cons)
  have p: "packed r name = Inr (felt_from_be (f r))" for r
    using n felt_from_be_zeros [of 1 "f r"] by (simp add: packed_def f_def z)
  have flen: "length (f r) = 31" for r by (simp add: f_def len)
  then have small: "felt_from_be (f r) = be_nat (f r)" for r
    by (intro felt_from_be_small) simp
  have "f a = f b"
    using eq flen by (intro be_nat_inj) (simp_all add: p small)
  then have "be_bytes 8 (max_amount a) = be_bytes 8 (max_amount b)"
    and "be_bytes 16 (max_price_per_unit a) = be_bytes 16 (max_price_per_unit b)"
    by (simp_all add: f_def)
  then have "be_nat (be_bytes 8 (max_amount a)) = be_nat (be_bytes 8 (max_amount b))"
    and "be_nat (be_bytes 16 (max_price_per_unit a)) = be_nat (be_bytes 16 (max_price_per_unit b))" by simp_all
  then show ?thesis using a b by (simp add: be_nat_be_bytes)
qed

lemma packed_Inr: "length name \<le> 8 \<Longrightarrow> packed b name = Inr (felt_from_be (replicate (8 - length name) 0 @ str_bytes name
               @ be_bytes 8 (max_amount b) @ be_bytes 16 (max_price_per_unit b)))"
  by (simp add: packed_def)

definition poseidon_collision :: "crates \<Rightarrow> bool" where
  "poseidon_collision C = (\<exists>xs ys. xs \<noteq> ys \<and> poseidon_many C xs = poseidon_many C ys)"

lemma poseidon_inj: "poseidon_many C xs = poseidon_many C ys \<Longrightarrow> \<not> poseidon_collision C \<Longrightarrow> xs = ys"
  by (auto simp: poseidon_collision_def)

lemma short_invoke: "\<exists>f. short_string ''invoke'' = Inr f"
  by (simp add: short_string_def ascii_def)

lemma invoke_hash_total: "\<exists>h. invoke_hash C iv = Inr h"
  using short_invoke by (auto simp: invoke_hash_def packed_Inr Let_def)

lemma packed_eqD:
  assumes "packed a name = packed b name" and "length name \<le> 7" and "bounds_ok x" and "bounds_ok y"
    and "a \<in> {l1_gas x, l2_gas x, l1_data_gas x}" and "b \<in> {l1_gas y, l2_gas y, l1_data_gas y}"
  shows "a = b"
  using assms(3-6) by (intro packed_inj [OF assms(1,2)]) (auto simp: bounds_ok_def)

text \<open>C9: The INVOKE v3 hash commits to the whole transaction: two transactions with the same
  hash (bounds within \<^verbatim>\<open>u64\<close> and \<^verbatim>\<open>u128\<close>) have the same sender, calldata, chain, nonce, tip,
  resource bounds and proof facts (a fact-less one included), or exhibit a Poseidon collision;
  and the calldata determines the list of calls.\<close>

theorem invoke_hash_binds:
  assumes "invoke_hash C a = invoke_hash C b" and "bounds_ok (inv_bounds a)" and "bounds_ok (inv_bounds b)"
  shows "(a = b \<and> (inv_calldata a = execute_calldata cs \<and> inv_calldata b = execute_calldata ds \<longrightarrow> cs = ds))
     \<or> (\<exists>xs ys. xs \<noteq> ys \<and> poseidon_many C xs = poseidon_many C ys)"
proof (rule disjCI)
  assume "\<not> (\<exists>xs ys. xs \<noteq> ys \<and> poseidon_many C xs = poseidon_many C ys)"
  then have inj: "poseidon_many C xs = poseidon_many C ys \<longleftrightarrow> xs = ys" for xs ys by auto
  have app: "(if P then xs @ [x] else xs) = (if Q then ys @ [y] else ys) \<longleftrightarrow> P = Q \<and> xs = ys \<and> (P \<longrightarrow> x = y)"
    if "length xs = length ys" for P Q and xs ys :: "felt list" and x y
    using that by auto
  have "packed (l1_gas (inv_bounds a)) ''L1_GAS'' = packed (l1_gas (inv_bounds b)) ''L1_GAS''
      \<and> packed (l2_gas (inv_bounds a)) ''L2_GAS'' = packed (l2_gas (inv_bounds b)) ''L2_GAS''
      \<and> packed (l1_data_gas (inv_bounds a)) ''L1_DATA'' = packed (l1_data_gas (inv_bounds b)) ''L1_DATA''
      \<and> inv_tip a = inv_tip b \<and> inv_sender a = inv_sender b \<and> inv_chain_id a = inv_chain_id b
      \<and> inv_nonce a = inv_nonce b \<and> inv_calldata a = inv_calldata b \<and> inv_proof_facts a = inv_proof_facts b"
    using assms(1) short_invoke by (auto simp: invoke_hash_def packed_Inr Let_def inj app)
  moreover from this have "inv_bounds a = inv_bounds b"
    using packed_eqD [OF _ _ assms(2,3)] by (intro fee_bounds.equality) auto
  ultimately have "a = b" by simp
  then show "a = b \<and> (inv_calldata a = execute_calldata cs \<and> inv_calldata b = execute_calldata ds \<longrightarrow> cs = ds)"
    using multicall.frame_inj [of cs "[]" ds "[]"] by auto
qed

definition demo_invoke :: invoke_v3 where
  "demo_invoke = \<lparr>inv_sender = 1, inv_calldata = execute_calldata [], inv_chain_id = 2, inv_nonce = 3, inv_tip = 4,
     inv_bounds = \<lparr>l1_gas = \<lparr>max_amount = 0, max_price_per_unit = 1\<rparr>, l2_gas = \<lparr>max_amount = 5, max_price_per_unit = 1\<rparr>,
       l1_data_gas = \<lparr>max_amount = 6, max_price_per_unit = 1\<rparr>\<rparr>, inv_proof_facts = [7]\<rparr>"

theorem invoke_hash_binds_witness:
  "invoke_hash demo_crates demo_invoke = invoke_hash demo_crates (demo_invoke\<lparr>inv_tip := 2 + 2\<rparr>)
   \<and> (demo_invoke = demo_invoke\<lparr>inv_tip := 2 + 2\<rparr>
     \<or> (\<exists>xs ys. xs \<noteq> ys \<and> poseidon_many demo_crates xs = poseidon_many demo_crates ys))"
proof -
  have "invoke_hash demo_crates demo_invoke = invoke_hash demo_crates (demo_invoke\<lparr>inv_tip := 2 + 2\<rparr>)"
    and "bounds_ok (inv_bounds demo_invoke)" and "bounds_ok (inv_bounds (demo_invoke\<lparr>inv_tip := 2 + 2\<rparr>))"
    by (simp_all add: demo_invoke_def bounds_ok_def)
  from invoke_hash_binds [OF this, of "[]" "[]"] this(1) show ?thesis by blast
qed

section \<open>Both spellings\<close>

definition jfelt :: "crates \<Rightarrow> json \<Rightarrow> felt option" where
  "jfelt C j = Option.bind (as_str j) (felt_of_hex C)"

definition jfelts :: "crates \<Rightarrow> json \<Rightarrow> felt list option" where
  "jfelts C j = Option.bind (as_array j) (\<lambda>xs. those (map (jfelt C) xs))"

definition jbound :: "crates \<Rightarrow> json \<Rightarrow> resource_bounds option" where
  "jbound C j = do { a \<leftarrow> jfelt C (jget j ''max_amount''); p \<leftarrow> jfelt C (jget j ''max_price_per_unit'');
                     Some \<lparr>max_amount = a, max_price_per_unit = p\<rparr> }"

text \<open>The transaction a node reads from a body, given its names for the three resources. An
  absent \<^verbatim>\<open>proof_facts\<close> is an empty one.\<close>

definition read_body :: "crates \<Rightarrow> felt \<Rightarrow> string \<times> string \<times> string \<Rightarrow> json \<Rightarrow> invoke_v3 option" where
  "read_body C chain_id names body =
     (case names of (n1, n2, n3) \<Rightarrow>
       do { sender \<leftarrow> jfelt C (jget body ''sender_address'');
            cd \<leftarrow> jfelts C (jget body ''calldata'');
            nonce \<leftarrow> jfelt C (jget body ''nonce'');
            tip \<leftarrow> jfelt C (jget body ''tip'');
            b1 \<leftarrow> jbound C (jget (jget body ''resource_bounds'') n1);
            b2 \<leftarrow> jbound C (jget (jget body ''resource_bounds'') n2);
            b3 \<leftarrow> jbound C (jget (jget body ''resource_bounds'') n3);
            facts \<leftarrow> (if jget body ''proof_facts'' = JNull then Some [] else jfelts C (jget body ''proof_facts''));
            Some \<lparr>inv_sender = sender, inv_calldata = cd, inv_chain_id = chain_id, inv_nonce = nonce, inv_tip = tip,
                  inv_bounds = \<lparr>l1_gas = b1, l2_gas = b2, l1_data_gas = b3\<rparr>, inv_proof_facts = facts\<rparr> })"

lemma jfelt_print [simp]: "felt_hex_ok C \<Longrightarrow> felt_ok f \<Longrightarrow> jfelt C (JStr (felt_to_hex C f)) = Some f"
  by (simp add: jfelt_def felt_hex_ok_def)

lemma jfelt_hex0x [simp]: "felt_hex_ok C \<Longrightarrow> felt_ok f \<Longrightarrow> jfelt C (JStr (hex0x f)) = Some f"
  by (simp add: jfelt_def felt_hex_ok_def)

lemma jfelts_print [simp]: "felt_hex_ok C \<Longrightarrow> \<forall>f \<in> set fs. felt_ok f \<Longrightarrow> jfelts C (felts_json C fs) = Some fs"
  unfolding jfelts_def felts_json_def by (induction fs) auto

lemma jbound_print [simp]:
  "felt_hex_ok C \<Longrightarrow> max_amount r < 2 ^ 64 \<Longrightarrow> max_price_per_unit r < 2 ^ 128 \<Longrightarrow> jbound C (bound_json r) = Some r"
  using small_felt_ok [of "max_amount r"] small_felt_ok [of "max_price_per_unit r"]
  by (simp add: jbound_def bound_json_def)

lemma felts_json_not_null [simp]: "felts_json C fs \<noteq> JNull"
  by (simp add: felts_json_def)

lemma attach_get:
  assumes "k \<noteq> ''proof''"
  shows "jget (attach C att (JObj kvs)) k
     = (if k = ''proof_facts'' \<and> att \<noteq> None then felts_json C (att_facts (the att)) else jget (JObj kvs) k)"
  using assms by (cases att) (auto simp: attach_def update_conv split: option.splits)

text \<open>C10: The gateway body and the JSON-RPC body of an unsigned invoke spell one transaction: a
  node reading either gets the same sender, calldata, nonce, tip, bounds and facts, and hashing
  that transaction gives the hash recorded before anything is sent.\<close>

theorem both_spellings_are_the_signed_transaction:
  assumes C: "felt_hex_ok C" and si: "unsigned_invoke C chain_id sender calls nonce b tip att = Inr si"
    and ok: "felt_ok sender" "felt_ok nonce" "\<forall>f \<in> set (execute_calldata calls). felt_ok f" "tip < 2 ^ 64" "bounds_ok b"
      "\<forall>a. att = Some a \<longrightarrow> (\<forall>f \<in> set (att_facts a). felt_ok f)"
  shows "\<exists>iv. read_body C chain_id (''L1_GAS'', ''L2_GAS'', ''L1_DATA_GAS'') (si_body si) = Some iv
     \<and> read_body C chain_id (''l1_gas'', ''l2_gas'', ''l1_data_gas'') (si_rpc_body si) = Some iv
     \<and> invoke_hash C iv = Inr (si_hash si)
     \<and> inv_sender iv = sender \<and> inv_calldata iv = execute_calldata calls \<and> inv_bounds iv = b"
proof -
  define iv where "iv = \<lparr>inv_sender = sender, inv_calldata = execute_calldata calls, inv_chain_id = chain_id, inv_nonce = nonce,
     inv_tip = tip, inv_bounds = b, inv_proof_facts = (case att of Some a \<Rightarrow> att_facts a | None \<Rightarrow> [])\<rparr>"
  have tip: "felt_ok tip" using ok(4) by (rule u64_felt_ok)
  have hash: "invoke_hash C iv = Inr (si_hash si)"
    using si by (auto simp: unsigned_invoke_def gateway_invoke_def Let_def res_inv iv_def)
  have body: "si_body si = attach C att (JObj (invoke_body C iv
                 [(''type'', JStr ''INVOKE_FUNCTION''), (''resource_bounds'', gateway_json b),
                  (''nonce_data_availability_mode'', JNum 0), (''fee_data_availability_mode'', JNum 0)]))"
    and rpc: "si_rpc_body si = attach C att (JObj (invoke_body C iv
                 [(''type'', JStr ''INVOKE''), (''resource_bounds'', rpc_json b),
                  (''nonce_data_availability_mode'', JStr ''L1''), (''fee_data_availability_mode'', JStr ''L1'')]))"
    using si by (auto simp: unsigned_invoke_def gateway_invoke_def Let_def res_inv iv_def)
  have "read_body C chain_id (''L1_GAS'', ''L2_GAS'', ''L1_DATA_GAS'') (si_body si) = Some iv"
    using C ok tip unfolding body read_body_def prod.case
    by (cases att) (simp_all add: attach_get invoke_body_def gateway_json_def bounds_ok_def iv_def)
  moreover have "read_body C chain_id (''l1_gas'', ''l2_gas'', ''l1_data_gas'') (si_rpc_body si) = Some iv"
    using C ok tip unfolding rpc read_body_def prod.case
    by (cases att) (simp_all add: attach_get invoke_body_def rpc_json_def bounds_ok_def iv_def)
  ultimately show ?thesis using hash by (auto simp: iv_def)
qed

theorem both_spellings_are_the_signed_transaction_witness:
  "\<exists>si iv. unsigned_invoke demo_crates 2 1 [] 3 (inv_bounds demo_invoke) 4 (Some \<lparr>att_proof = ''p'', att_facts = [7]\<rparr>) = Inr si
     \<and> read_body demo_crates 2 (''l1_gas'', ''l2_gas'', ''l1_data_gas'') (si_rpc_body si) = Some iv \<and> invoke_hash demo_crates iv = Inr (si_hash si)"
proof -
  obtain si where si: "unsigned_invoke demo_crates 2 1 [] 3 (inv_bounds demo_invoke) 4 (Some \<lparr>att_proof = ''p'', att_facts = [7]\<rparr>) = Inr si"
    using invoke_hash_total [of demo_crates] by (simp add: unsigned_invoke_def gateway_invoke_def Let_def) (metis rbind_simps(2))
  have "felt_ok 1" "felt_ok 3" "\<forall>f \<in> set (execute_calldata []). felt_ok f" "(4::nat) < 2 ^ 64" "bounds_ok (inv_bounds demo_invoke)"
    "\<forall>a. Some \<lparr>att_proof = ''p'', att_facts = [7]\<rparr> = Some a \<longrightarrow> (\<forall>f \<in> set (att_facts a). felt_ok f)"
    by (auto simp: small_felt_ok execute_calldata_def bounds_ok_def demo_invoke_def)
  from both_spellings_are_the_signed_transaction [OF demo_felt_hex_ok si this] si show ?thesis by blast
qed

end
