(* ===== verification/Sequencer.thy ===== *)
theory Sequencer
  imports Invoke
begin

text \<open>
  \<^verbatim>\<open>core/src/sequencer.rs\<close>: what the gateway's answers mean. An HTTP round trip is a value
  of \<open>http_reply\<close> (the client library and the network are the environment); a loop that
  sleeps and polls takes the successive answers with what the clock says after each. The URLs
  are left out: which endpoint is asked is decided by \<open>via_rpc\<close>.
\<close>

section \<open>Errors and statuses\<close>

definition expected_nonce :: "gateway_err \<Rightarrow> nat option" where
  "expected_nonce e =
     (case e of
        Rejected code message \<Rightarrow>
          if \<not> str_contains code ''INVALID_TRANSACTION_NONCE'' then None
          else Option.bind (find_after ''Expected: '' message) (\<lambda>after.
            let rest = trim_start after
            in if starts_with ''0x'' rest then parse_radix 64 16 (takeWhile is_hexdigit (drop 2 rest))
               else parse_radix 64 10 (takeWhile is_digit rest))
      | _ \<Rightarrow> None)"

definition refused_with :: "crates \<Rightarrow> string \<Rightarrow> gateway_err \<Rightarrow> bool" where
  "refused_with C reason e =
     (case e of
        Rejected _ message \<Rightarrow> str_contains message reason \<or> str_contains message (hex_encode C (str_bytes reason))
      | _ \<Rightarrow> False)"

definition too_recent :: "gateway_err \<Rightarrow> bool" where
  "too_recent e = (case e of Rejected _ message \<Rightarrow> str_contains message ''too recent'' | _ \<Rightarrow> False)"

record tx_status =
  finality :: string
  execution :: string
  revert_reason :: "string option"

definition is_accepted :: "tx_status \<Rightarrow> bool" where
  "is_accepted s = starts_with ''ACCEPTED'' (finality s)"

definition is_reverted :: "tx_status \<Rightarrow> bool" where
  "is_reverted s = (execution s = ''REVERTED'')"

definition is_dropped :: "tx_status \<Rightarrow> bool" where
  "is_dropped s = (finality s = ''NOT_RECEIVED'' \<or> finality s = ''REJECTED'')"

section \<open>Answers\<close>

text \<open>A 2xx answer, an error status with its body (parsed, where it is JSON), or no answer.\<close>

datatype http_reply = Reply "json option" | StatusReply nat "json option" | NoReply

definition str_or :: "string \<Rightarrow> json \<Rightarrow> string" where
  "str_or d j = (case as_str j of Some s \<Rightarrow> s | None \<Rightarrow> d)"

definition gateway_post :: "http_reply \<Rightarrow> json res" where
  "gateway_post r =
     (case r of
        Reply b \<Rightarrow> of_opt (Decode BadShape) b
      | StatusReply st b \<Rightarrow>
          (case b of
             Some v \<Rightarrow>
               if as_str (jget v ''code'') \<noteq> None
               then Inl (Gateway (Rejected (str_or [] (jget v ''code'')) (str_or [] (jget v ''message''))))
               else Inl (Net (HttpStatus st))
           | None \<Rightarrow> Inl (Net (HttpStatus st)))
      | NoReply \<Rightarrow> Inl (Net Transport))"

definition dec_int :: "int \<Rightarrow> string" where
  "dec_int n = (if n < 0 then ''-'' @ dec_nat (nat (- n)) else dec_nat (nat n))"

text \<open>\<open>text_of\<close> is \<^verbatim>\<open>Value::to_string\<close>.\<close>

definition rpc_error :: "(json \<Rightarrow> string) \<Rightarrow> json \<Rightarrow> gateway_err" where
  "rpc_error text_of err =
     (let code = (case as_i64 (jget err ''code'') of Some c \<Rightarrow> c | None \<Rightarrow> 0);
          data = (case jget err ''data'' of JStr s \<Rightarrow> s | JNull \<Rightarrow> [] | other \<Rightarrow> text_of other);
          message = trim_ws (str_or [] (jget err ''message'') @ '' '' @ data)
      in Rejected (if code = 52 then ''RPC.INVALID_TRANSACTION_NONCE'' else ''RPC.'' @ dec_int code) message)"

definition rpc_call :: "(json \<Rightarrow> string) \<Rightarrow> http_reply \<Rightarrow> json res" where
  "rpc_call text_of r =
     (case r of
        Reply b \<Rightarrow>
          rbind (of_opt (Decode BadShape) b) (\<lambda>reply.
            case reply of
              JObj kvs \<Rightarrow> (case map_of kvs ''error'' of
                             Some err \<Rightarrow> Inl (Gateway (rpc_error text_of err))
                           | None \<Rightarrow> Inr (jget reply ''result''))
            | _ \<Rightarrow> Inr (jget reply ''result''))
      | StatusReply st _ \<Rightarrow> Inl (Net (HttpStatus st))
      | NoReply \<Rightarrow> Inl (Net Transport))"

definition rpc_status :: "(json \<Rightarrow> string) \<Rightarrow> http_reply \<Rightarrow> tx_status res" where
  "rpc_status text_of r =
     (case rpc_call text_of r of
        Inr v \<Rightarrow> Inr \<lparr>finality = str_or ''UNKNOWN'' (jget v ''finality_status''),
                       execution = str_or [] (jget v ''execution_status''),
                       revert_reason = as_str (jget v ''failure_reason'')\<rparr>
      | Inl (Gateway (Rejected code message)) \<Rightarrow>
          if code = ''RPC.29'' then Inr \<lparr>finality = ''NOT_RECEIVED'', execution = [], revert_reason = None\<rparr>
          else Inl (Gateway (Rejected code message))
      | Inl e \<Rightarrow> Inl e)"

text \<open>\<^verbatim>\<open>with_retries\<close>: \<open>n\<close> attempts left, the last error so far; the answers are those the
  requests get, and what is left of them is returned too.\<close>

fun retry_loop :: "nat \<Rightarrow> err option \<Rightarrow> http_reply list \<Rightarrow> (json option res \<times> http_reply list) option" where
  "retry_loop 0 last_err rs = Some (Inl (case last_err of Some e \<Rightarrow> e | None \<Rightarrow> Net Transport), rs)"
| "retry_loop (Suc n) last_err [] = None"
| "retry_loop (Suc n) last_err (r # rs) =
     (case r of
        Reply b \<Rightarrow> Some (Inr b, rs)
      | StatusReply code _ \<Rightarrow>
          if code = 429 \<or> 500 \<le> code then retry_loop n (Some (Net (HttpStatus code))) rs
          else Some (Inl (Net (HttpStatus code)), rs)
      | NoReply \<Rightarrow> retry_loop n (Some (Net Transport)) rs)"

definition with_retries :: "http_reply list \<Rightarrow> (json option res \<times> http_reply list) option" where
  "with_retries rs = retry_loop 6 None rs"

definition feeder_status :: "json option res \<Rightarrow> tx_status res" where
  "feeder_status r =
     rbind r (\<lambda>b. rbind (of_opt (Decode BadShape) b) (\<lambda>v.
       Inr \<lparr>finality = (case as_str (jget v ''finality_status'') of Some s \<Rightarrow> s
                        | None \<Rightarrow> str_or ''UNKNOWN'' (jget v ''tx_status'')),
            execution = str_or [] (jget v ''execution_status''),
            revert_reason = as_str (jget v ''tx_revert_reason'')\<rparr>))"

section \<open>Submitting and waiting\<close>

text \<open>\<open>submit\<close>: \<open>via_rpc\<close> is whether an RPC endpoint is configured.\<close>

definition submit :: "crates \<Rightarrow> (json \<Rightarrow> string) \<Rightarrow> bool \<Rightarrow> http_reply \<Rightarrow> felt \<Rightarrow> unit res" where
  "submit C text_of via_rpc r hash =
     rbind (if via_rpc then rpc_call text_of r else gateway_post r) (\<lambda>reply.
     rbind (of_opt (Decode BadShape) (as_str (jget reply ''transaction_hash''))) (\<lambda>echoed.
     ensure (felt_of_hex C echoed = Some hash) (Gateway (HashMismatch (felt_to_hex C hash) echoed)) (Inr ())))"

text \<open>\<open>await_acceptance\<close>: a poll is the status read, whether \<open>DROP_GRACE\<close> has elapsed and
  whether the deadline has passed.\<close>

fun await_acceptance :: "string \<Rightarrow> (tx_status res \<times> bool \<times> bool) list \<Rightarrow> tx_status res option" where
  "await_acceptance hash [] = None"
| "await_acceptance hash ((s, graced, late) # polls) =
     (case s of
        Inl e \<Rightarrow> Some (Inl e)
      | Inr st \<Rightarrow>
          if is_dropped st \<and> graced then Some (Inl (Net TxDropped))
          else if is_reverted st then
            Some (Inl (Gateway (Reverted hash (case revert_reason st of Some r \<Rightarrow> r | None \<Rightarrow> execution st))))
          else if is_accepted st then Some (Inr st)
          else if late then Some (Inl (Net TimedOut))
          else await_acceptance hash polls)"

section \<open>Lemmas\<close>

lemma find_after_skip: "p \<noteq> [] \<Longrightarrow> hd p \<notin> set a \<Longrightarrow> find_after p (a @ p @ t) = Some t"
proof (induction a)
  case Nil
  then show ?case by (simp add: find_after.simps)
next
  case (Cons c a)
  then have "\<not> starts_with p (c # a @ p @ t)" by (cases p) auto
  then show ?case using Cons by (subst find_after.simps) simp
qed

lemma takeWhile_digits:
  assumes "\<forall>c \<in> set s. P c" and "rest = [] \<or> \<not> P (hd rest)"
  shows "takeWhile P (s @ rest) = s"
proof -
  have "takeWhile P rest = []" using assms(2) by (cases rest) auto
  then show ?thesis using assms(1) by (simp add: takeWhile_append2)
qed

lemma digit_not_space: "is_hexdigit c \<Longrightarrow> \<not> is_space c"
  by (auto simp: is_hexdigit_def is_space_def digit_val_def)

lemma dec_is_hexdigit: "is_digit c \<Longrightarrow> is_hexdigit c"
  by (auto simp: is_digit_def is_hexdigit_def split: option.splits)

lemma trim_start_digits: "\<forall>c \<in> set s. is_hexdigit c \<Longrightarrow> s \<noteq> [] \<Longrightarrow> trim_start (s @ t) = s @ t"
  by (cases s) (auto simp: trim_start_def digit_not_space)

lemma is_digit_x: "\<not> is_digit CHR ''x''" and is_hex_x: "\<not> is_hexdigit CHR ''x''"
  by (simp_all add: is_digit_def is_hexdigit_def digit_val_def)

lemma dec_not_0x:
  assumes "rest = [] \<or> hd rest \<noteq> CHR ''x''"
  shows "\<not> starts_with ''0x'' (dec_nat n @ rest)"
proof
  assume "starts_with ''0x'' (dec_nat n @ rest)"
  then have s: "dec_nat n @ rest = CHR ''0'' # CHR ''x'' # drop 2 (dec_nat n @ rest)"
    using starts_with_drop by fastforce
  show False
  proof (cases "dec_nat n")
    case (Cons c cs)
    show ?thesis
    proof (cases cs)
      case Nil
      then show ?thesis using s Cons assms by (cases rest) auto
    next
      case (Cons d ds)
      then have "d = CHR ''x''" using s \<open>dec_nat n = c # cs\<close> by simp
      moreover have "is_digit d" using dec_nat_digits [of n] \<open>dec_nat n = c # cs\<close> Cons by simp
      ultimately show ?thesis using is_digit_x by simp
    qed
  qed simp
qed

lemma await_Inr:
  "await_acceptance h polls = Some (Inr st) \<Longrightarrow>
     \<exists>i < length polls. fst (polls ! i) = Inr st \<and> is_accepted st \<and> \<not> is_reverted st
       \<and> (\<forall>j < i. \<exists>s. fst (polls ! j) = Inr s \<and> \<not> is_reverted s)"
proof (induction h polls rule: await_acceptance.induct)
  case (1 h)
  then show ?case by simp
next
  case (2 h s graced late polls)
  then obtain s' where s: "s = Inr s'" "\<not> is_reverted s'" by (cases s) (auto split: if_splits)
  show ?case
  proof (cases "is_accepted s'")
    case True
    then have "st = s'" using 2(2) s by (auto split: if_splits)
    then show ?thesis using s True by (intro exI [of _ 0]) simp
  next
    case False
    then have d: "\<not> (is_dropped s' \<and> graced)" "\<not> late" "await_acceptance h polls = Some (Inr st)"
      using 2(2) s by (auto split: if_splits)
    from "2.IH" [OF s(1) d(1) s(2) False d(2,3)] obtain i where i: "i < length polls" "fst (polls ! i) = Inr st"
      "is_accepted st" "\<not> is_reverted st" "\<forall>j < i. \<exists>s. fst (polls ! j) = Inr s \<and> \<not> is_reverted s" by blast
    then show ?thesis using s by (intro exI [of _ "Suc i"]) (auto simp: less_Suc_eq_0_disj)
  qed
qed

lemma await_dropped:
  "await_acceptance h polls = Some (Inl (Net TxDropped)) \<Longrightarrow> \<forall>p \<in> set polls. fst p \<noteq> Inl (Net TxDropped) \<Longrightarrow>
     \<exists>s late. (Inr s, True, late) \<in> set polls \<and> is_dropped s"
  by (induction h polls rule: await_acceptance.induct) (auto split: sum.splits if_splits)

lemma await_reverted:
  "await_acceptance h polls = Some (Inl (Gateway (Reverted h r))) \<Longrightarrow> \<forall>p \<in> set polls. fst p \<noteq> Inl (Gateway (Reverted h r)) \<Longrightarrow>
     \<exists>s g late. (Inr s, g, late) \<in> set polls \<and> is_reverted s"
  by (induction h polls rule: await_acceptance.induct) (auto split: sum.splits if_splits)

definition undecided :: "tx_status res \<times> bool \<times> bool \<Rightarrow> bool" where
  "undecided p = (case p of (s, graced, late) \<Rightarrow> \<not> late \<and> (\<exists>st. s = Inr st \<and> \<not> (is_dropped st \<and> graced) \<and> \<not> is_reverted st \<and> \<not> is_accepted st))"

lemma await_skip: "\<forall>p \<in> set ps. undecided p \<Longrightarrow> await_acceptance h (ps @ polls) = await_acceptance h polls"
  by (induction ps) (auto simp: undecided_def)

lemma accepted_not_dropped: "is_accepted s \<Longrightarrow> \<not> is_dropped s"
  by (auto simp: is_accepted_def is_dropped_def)

section \<open>Properties\<close>

text \<open>The nonce a rejection names is read back exactly, printed in decimal or in hex, from
  any \<^verbatim>\<open>u64\<close>, wherever the phrase stands in the message, as long as the number is not followed
  directly by another digit; other rejections name none.\<close>

theorem expected_nonce_is_read:
  assumes "n < 2 ^ 64" and "CHR ''E'' \<notin> set before"
    and "rest = [] \<or> \<not> is_hexdigit (hd rest) \<and> hd rest \<noteq> CHR ''x''"
  shows "expected_nonce (Rejected code (before @ ''Expected: '' @ dec_nat n @ rest))
       = (if str_contains code ''INVALID_TRANSACTION_NONCE'' then Some n else None)
    \<and> expected_nonce (Rejected code (before @ ''Expected: '' @ hex0x n @ rest))
       = (if str_contains code ''INVALID_TRANSACTION_NONCE'' then Some n else None)"
proof -
  have f: "find_after ''Expected: '' (before @ ''Expected: '' @ t) = Some t" for t
    using assms(2) by (intro find_after_skip) simp_all
  have d: "\<forall>c \<in> set (dec_nat n). is_hexdigit c" using dec_nat_digits [of n] dec_is_hexdigit by blast
  have "trim_start (dec_nat n @ rest) = dec_nat n @ rest" by (rule trim_start_digits [OF d]) simp
  moreover have "takeWhile is_digit (dec_nat n @ rest) = dec_nat n"
    using assms(3) dec_is_hexdigit by (intro takeWhile_digits) (auto simp: dec_nat_digits)
  moreover have "\<not> starts_with ''0x'' (dec_nat n @ rest)" using assms(3) by (intro dec_not_0x) auto
  ultimately have dec: "expected_nonce (Rejected code (before @ ''Expected: '' @ dec_nat n @ rest))
       = (if str_contains code ''INVALID_TRANSACTION_NONCE'' then Some n else None)"
    using f [of "dec_nat n @ rest"] parse_dec_nat [OF assms(1)] by (simp add: expected_nonce_def Let_def)
  have "trim_start (hex0x n @ rest) = hex0x n @ rest"
    by (simp add: trim_start_def hex0x_def is_space_def)
  moreover have "takeWhile is_hexdigit (hex_nat n @ rest) = hex_nat n"
    using assms(3) by (intro takeWhile_digits) (auto simp: hex_nat_digits)
  ultimately have "expected_nonce (Rejected code (before @ ''Expected: '' @ hex0x n @ rest))
       = (if str_contains code ''INVALID_TRANSACTION_NONCE'' then Some n else None)"
    using f [of "hex0x n @ rest"] parse_hex_nat [OF assms(1)]
    by (simp add: expected_nonce_def Let_def) (simp add: hex0x_def)
  with dec show ?thesis ..
qed

theorem expected_nonce_is_read_witness:
  "expected_nonce (Rejected ''StarknetErrorCode.INVALID_TRANSACTION_NONCE'' (''nonce 3. '' @ ''Expected: '' @ dec_nat 7 @ '', got 3'')) = Some 7"
proof -
  have "str_contains ''StarknetErrorCode.INVALID_TRANSACTION_NONCE'' ''INVALID_TRANSACTION_NONCE''"
    unfolding str_contains_def by (simp add: find_after.simps)
  with expected_nonce_is_read [of 7 "''nonce 3. ''" "'', got 3''" "''StarknetErrorCode.INVALID_TRANSACTION_NONCE''"]
  show ?thesis by (simp add: is_hexdigit_def digit_val_def)
qed

text \<open>What waiting for acceptance may conclude. Success means a status that was read says
  accepted and not reverted, and none read before it was a revert; "dropped" is concluded only
  from a status that says so after the grace period, and a revert only from a status that says
  so; and a transaction that is accepted while every earlier status was still undecided is
  reported accepted, however long the wait (a dropped reading within the grace included).\<close>

theorem await_acceptance_verdicts:
  shows "(await_acceptance h polls = Some (Inr st) \<longrightarrow>
       (\<exists>i < length polls. fst (polls ! i) = Inr st \<and> is_accepted st \<and> \<not> is_reverted st
          \<and> (\<forall>j < i. \<exists>s. fst (polls ! j) = Inr s \<and> \<not> is_reverted s)))
   \<and> (await_acceptance h polls = Some (Inl (Net TxDropped)) \<and> (\<forall>p \<in> set polls. fst p \<noteq> Inl (Net TxDropped)) \<longrightarrow>
       (\<exists>s late. (Inr s, True, late) \<in> set polls \<and> is_dropped s))
   \<and> (await_acceptance h polls = Some (Inl (Gateway (Reverted h r))) \<and> (\<forall>p \<in> set polls. fst p \<noteq> Inl (Gateway (Reverted h r))) \<longrightarrow>
       (\<exists>s g late. (Inr s, g, late) \<in> set polls \<and> is_reverted s))
   \<and> ((\<forall>p \<in> set ps. undecided p) \<and> is_accepted st \<and> \<not> is_reverted st \<longrightarrow>
       await_acceptance h (ps @ (Inr st, g', l') # polls) = Some (Inr st))"
  using await_Inr await_dropped await_reverted await_skip accepted_not_dropped by auto

theorem await_acceptance_verdicts_witness:
  "await_acceptance ''0x1''
     ([(Inr \<lparr>finality = ''NOT_RECEIVED'', execution = [], revert_reason = None\<rparr>, False, False)]
       @ (Inr \<lparr>finality = ''ACCEPTED_ON_L2'', execution = ''SUCCEEDED'', revert_reason = None\<rparr>, True, True) # [])
   = Some (Inr \<lparr>finality = ''ACCEPTED_ON_L2'', execution = ''SUCCEEDED'', revert_reason = None\<rparr>)"
  using await_acceptance_verdicts [of "''0x1''" "[]" "\<lparr>finality = ''ACCEPTED_ON_L2'', execution = ''SUCCEEDED'', revert_reason = None\<rparr>" "[]"
      "[(Inr \<lparr>finality = ''NOT_RECEIVED'', execution = [], revert_reason = None\<rparr>, False, False)]" True True]
  by (simp add: undecided_def is_accepted_def is_reverted_def is_dropped_def)

end
