(* ===== verification/Send_State.thy ===== *)
theory Send_State
  imports TxPolicy Config
begin

text \<open>
  \<^verbatim>\<open>core/src/state.rs\<close> and \<^verbatim>\<open>core/src/pipeline.rs\<close>: the checkpoint of a send and the progress
  events. The locale \<open>checkpoints\<close> is what a runner relies on, for a plan of steps that are
  marked done one by one (also \<^verbatim>\<open>setup.rs\<close>).
\<close>

section \<open>Plans of steps\<close>

locale checkpoints =
  fixes dones :: "'s \<Rightarrow> bool list"
    and finish :: "nat \<Rightarrow> 'x \<Rightarrow> 's \<Rightarrow> 's res"
    and pending :: "'s \<Rightarrow> nat option"
  assumes finish_done: "i < length (dones s) \<Longrightarrow> \<exists>s'. finish i x s = Inr s' \<and> dones s' = (dones s)[i := True]"
    and finish_range: "\<not> i < length (dones s) \<Longrightarrow> finish i x s = Inl Panic"
    and pending_first: "pending s = position (\<lambda>d. \<not> d) (dones s)"
begin

lemma pending_None: "pending s = None \<longleftrightarrow> (\<forall>d \<in> set (dones s). d)"
  by (simp add: pending_first position_None)

lemma pending_Some: "pending s = Some i \<longleftrightarrow> i < length (dones s) \<and> \<not> dones s ! i \<and> (\<forall>j < i. dones s ! j)"
  by (simp add: pending_first position_Some)

text \<open>Finishing the pending step moves on to a later one; what was done stays done.\<close>

lemma finish_pending:
  assumes "pending s = Some i"
  obtains s' where "finish i x s = Inr s'" and "\<forall>j < length (dones s). dones s ! j \<longrightarrow> dones s' ! j"
    and "\<And>k. pending s' = Some k \<Longrightarrow> i < k"
proof -
  have i: "i < length (dones s)" "\<forall>j < i. dones s ! j" using assms by (auto simp: pending_Some)
  obtain s' where s': "finish i x s = Inr s'" "dones s' = (dones s)[i := True]" using finish_done [OF i(1)] by blast
  have "i < k" if "pending s' = Some k" for k
  proof (rule ccontr)
    assume "\<not> i < k"
    then have "dones s' ! k" using i s'(2) by (cases "k = i") auto
    with that show False by (simp add: pending_Some)
  qed
  with s' i(1) show ?thesis by (intro that [of s']) (auto simp: nth_list_update)
qed

text \<open>Running the pending steps one after the other ends after at most as many as there are.\<close>

fun run_all :: "nat \<Rightarrow> (nat \<Rightarrow> 'x) \<Rightarrow> 's \<Rightarrow> 's res" where
  "run_all 0 x s = Inr s"
| "run_all (Suc n) x s = (case pending s of None \<Rightarrow> Inr s | Some i \<Rightarrow> rbind (finish i (x i) s) (run_all n x))"

lemma run_all_completes:
  "length (dones s) - (case pending s of Some i \<Rightarrow> i | None \<Rightarrow> length (dones s)) \<le> n \<Longrightarrow>
     \<exists>s'. run_all n x s = Inr s' \<and> pending s' = None"
proof (induction n arbitrary: s)
  case 0
  then have "pending s = None" by (auto simp: pending_Some split: option.splits)
  then show ?case by simp
next
  case (Suc n)
  show ?case
  proof (cases "pending s")
    case None
    then show ?thesis by simp
  next
    case (Some i)
    then have i: "i < length (dones s)" by (simp add: pending_Some)
    obtain s' where s': "finish i (x i) s = Inr s'" "dones s' = (dones s)[i := True]" using finish_done [OF i] by blast
    obtain t where t: "finish i (x i) s = Inr t" "\<And>k. pending t = Some k \<Longrightarrow> i < k" using finish_pending [OF Some] by blast
    have later: "pending s' = Some k \<Longrightarrow> i < k" for k using s'(1) t by simp
    have "length (dones s') - (case pending s' of Some i \<Rightarrow> i | None \<Rightarrow> length (dones s')) \<le> n"
    proof (cases "pending s'")
      case None
      then show ?thesis by simp
    next
      case (Some k)
      then show ?thesis using later [OF Some] Suc.prems \<open>pending s = Some i\<close> s'(2) by simp
    qed
    from Suc.IH [OF this] show ?thesis using Some s'(1) by simp
  qed
qed

end

section \<open>The send's state\<close>

datatype step_kind = Prepare | Prove | Publish

record step_record =
  step_kind :: step_kind
  step_done :: bool
  step_tx_hash :: "string option"
  step_note :: "string option"

record v4_binding =
  b_nullifier :: string
  b_epoch :: nat
  b_quota :: nat
  b_ticket_root :: string
  b_ticket_nullifier :: string

record send_state =
  send_state_id :: string
  recipient_handle :: string
  ciphertext_hex :: string
  expected_commitment :: string
  expected_ephemeral_pubkey :: string
  expected_merkle_root :: string
  steps :: "step_record list"
  st_base_block :: "nat option"
  publish_nonce :: "string option"
  st_publish_bounds :: "fee_bounds option"
  binding :: "v4_binding option"
  publish_after_block :: "nat option"

definition new_step :: "step_kind \<Rightarrow> step_record" where
  "new_step k = \<lparr>step_kind = k, step_done = False, step_tx_hash = None, step_note = None\<rparr>"

definition new_virtual_plan :: "string \<Rightarrow> string \<Rightarrow> string \<Rightarrow> string \<times> string \<times> string \<Rightarrow> nat \<Rightarrow> send_state" where
  "new_virtual_plan i recipient ct expected base =
     (case expected of (c, e, r) \<Rightarrow>
       \<lparr>send_state_id = i, recipient_handle = recipient, ciphertext_hex = ct,
        expected_commitment = c, expected_ephemeral_pubkey = e, expected_merkle_root = r,
        steps = map new_step [Prepare, Prove, Publish], st_base_block = Some base,
        publish_nonce = None, st_publish_bounds = None, binding = None, publish_after_block = None\<rparr>)"

definition next_pending :: "send_state \<Rightarrow> nat option" where
  "next_pending st = position (\<lambda>s. \<not> step_done s) (steps st)"

definition mark_done :: "nat \<Rightarrow> string option \<times> string option \<Rightarrow> send_state \<Rightarrow> send_state res" where
  "mark_done i info st =
     ensure (i < length (steps st)) Panic
       (Inr (st\<lparr>steps := (steps st)[i := (steps st ! i)\<lparr>step_done := True, step_tx_hash := fst info, step_note := snd info\<rparr>]\<rparr>))"

definition record_submission :: "nat \<Rightarrow> string \<Rightarrow> send_state \<Rightarrow> send_state res" where
  "record_submission i h st =
     ensure (i < length (steps st)) Panic
       (Inr (st\<lparr>steps := (steps st)[i := (steps st ! i)\<lparr>step_tx_hash := Some h\<rparr>]\<rparr>))"

definition state_path :: "string \<Rightarrow> string" where
  "state_path i = ''sends/'' @ i @ ''.json''"

definition state_workdir :: "string \<Rightarrow> string" where
  "state_workdir i = ''sends/'' @ i"

definition state_load :: "io \<Rightarrow> send_state stored \<Rightarrow> send_state res" where
  "state_load io f = rbind (of_opt (File Missing) f) (read_file io)"

datatype pipeline_event =
    StepStarted nat nat step_kind
  | TxSubmitted step_kind string
  | StepCompleted step_kind "string option" "string option"
  | Completed
  | Checkpointed string
  | Waiting nat nat

lemma map_done_update:
  "i < length ss \<Longrightarrow> map step_done (ss[i := (ss ! i)\<lparr>step_done := True, step_tx_hash := a, step_note := b\<rparr>]) = (map step_done ss)[i := True]"
  by (simp add: map_update)

lemma position_map: "position P (map f xs) = position (\<lambda>x. P (f x)) xs"
  by (induction xs) auto

interpretation send_steps: checkpoints "\<lambda>st. map step_done (steps st)" mark_done next_pending
proof
  show "\<exists>s'. mark_done i x s = Inr s' \<and> map step_done (steps s') = (map step_done (steps s))[i := True]"
    if "i < length (map step_done (steps s))" for i s and x :: "string option \<times> string option"
    using that by (simp add: mark_done_def map_update)
  show "mark_done i x s = Inl Panic"
    if "\<not> i < length (map step_done (steps s))" for i s and x :: "string option \<times> string option"
    using that by (simp add: mark_done_def)
  show "next_pending s = position (\<lambda>d. \<not> d) (map step_done (steps s))" for s
    by (simp add: next_pending_def position_map)
qed

end
