(* ===== verification/Virtual_Send.thy ===== *)
theory Virtual_Send
  imports Registry Tickets Sequencer Send_State
begin

text \<open>
  \<^verbatim>\<open>core/src/virtual_send.rs\<close>, the part before anything is published: the encodings the
  contracts must agree with, the checks of a proof's facts, and \<open>prepare\<close>, which pins a block,
  rebuilds both trees, picks a ticket, takes a slot and builds the witness. Reads go through
  \<open>rpc\<close>, one per attempt; \<open>None\<close> means the node's continuation tokens never end or the
  generator never returned a usable scalar. \<open>statement\<close> is the specification: what the
  \<^verbatim>\<open>prove_send\<close> contract checks of its calldata.
\<close>

section \<open>The route\<close>

record route =
  r_store :: felt
  r_prover :: felt
  r_virtual_sender :: felt
  r_chain_id :: felt

definition route_for_store :: "crates \<Rightarrow> string \<Rightarrow> route option res" where
  "route_for_store C st =
     (if is_current_store C st then
        rbind (of_opt Panic (felt_of_hex C SEPOLIA_POOL_V4)) (\<lambda>s.
        rbind (of_opt Panic (felt_of_hex C SEPOLIA_V4_SEND_PROVER)) (\<lambda>p.
        rbind (of_opt Panic (felt_of_hex C SEPOLIA_V4_VIRTUAL_SENDER)) (\<lambda>v.
        rbind (short_string ''SN_SEPOLIA'') (\<lambda>c.
        Inr (Some \<lparr>r_store = s, r_prover = p, r_virtual_sender = v, r_chain_id = c\<rparr>)))))
      else Inr None)"

section \<open>The public tuple and the witness\<close>

record public_v4 =
  p_store :: felt
  p_commitment :: felt
  p_ephemeral :: felt
  p_root :: felt
  p_content_hash :: felt
  p_nullifier :: felt
  p_epoch :: nat
  p_quota :: nat
  p_ticket_root :: felt
  p_ticket_nullifier :: felt

definition payload :: "public_v4 \<Rightarrow> felt list" where
  "payload p = [p_store p, p_commitment p, p_ephemeral p, p_root p, p_content_hash p, p_nullifier p,
                p_epoch p, p_quota p, p_ticket_root p, p_ticket_nullifier p]"

definition message_hash :: "crates \<Rightarrow> public_v4 \<Rightarrow> felt \<Rightarrow> felt" where
  "message_hash C p prover = poseidon_many C ([prover, 0, length (payload p)] @ payload p)"

definition binding_of :: "crates \<Rightarrow> public_v4 \<Rightarrow> v4_binding" where
  "binding_of C p =
     \<lparr>b_nullifier = felt_to_hex C (p_nullifier p), b_epoch = p_epoch p, b_quota = p_quota p,
      b_ticket_root = felt_to_hex C (p_ticket_root p), b_ticket_nullifier = felt_to_hex C (p_ticket_nullifier p)\<rparr>"

text \<open>\<open>content_hash\<close> of this module: the printed calldata, parsed and hashed.\<close>

definition vs_content_hash :: "crates \<Rightarrow> bytes \<Rightarrow> felt res" where
  "vs_content_hash C ciphertext =
     rbind (bytearray_calldata C ciphertext) (\<lambda>cd.
     rbind (rmap (\<lambda>h. of_opt Panic (felt_of_hex C h)) cd) (\<lambda>fs.
     Inr (poseidon_many C fs)))"

definition public_from_state :: "crates \<Rightarrow> felt \<Rightarrow> send_state \<Rightarrow> bytes \<Rightarrow> public_v4 res" where
  "public_from_state C st s cont =
     rbind (of_opt (File Missing) (binding s)) (\<lambda>b.
     rbind (felt_from_hex C (expected_commitment s)) (\<lambda>c.
     rbind (felt_from_hex C (expected_ephemeral_pubkey s)) (\<lambda>e.
     rbind (felt_from_hex C (expected_merkle_root s)) (\<lambda>r.
     rbind (vs_content_hash C cont) (\<lambda>h.
     rbind (felt_from_hex C (b_nullifier b)) (\<lambda>n.
     rbind (felt_from_hex C (b_ticket_root b)) (\<lambda>tr.
     rbind (felt_from_hex C (b_ticket_nullifier b)) (\<lambda>tn.
     Inr \<lparr>p_store = st, p_commitment = c, p_ephemeral = e, p_root = r, p_content_hash = h, p_nullifier = n,
          p_epoch = b_epoch b, p_quota = b_quota b, p_ticket_root = tr, p_ticket_nullifier = tn\<rparr>))))))))"

record witness_v4 =
  w_scan_pub :: felt
  w_kem_digest :: felt
  w_member_secret :: felt
  w_slot :: nat
  w_leaf_index :: nat
  w_path :: "felt list"
  w_ticket_secret :: felt
  w_ticket_index :: nat
  w_ticket_path :: "felt list"

definition prove_send_calldata_v4 :: "public_v4 \<Rightarrow> witness_v4 \<Rightarrow> felt list res" where
  "prove_send_calldata_v4 p w =
     ensure (length (w_path w) = 20) (Policy BadPath) (
     ensure (length (w_ticket_path w) = 20) (Policy BadPath) (
     ensure (w_slot w < p_quota p) (Policy SlotOverQuota) (
     Inr ([p_store p, p_content_hash p, p_commitment p, p_ephemeral p, p_root p, p_epoch p, p_quota p, p_ticket_root p,
           w_scan_pub w, w_kem_digest w, w_member_secret w, w_slot w, w_leaf_index w, 20]
          @ w_path w @ [w_ticket_secret w, w_ticket_index w, 20] @ w_ticket_path w))))"

definition send_message_calldata_v4 :: "crates \<Rightarrow> public_v4 \<Rightarrow> bytes \<Rightarrow> felt list res" where
  "send_message_calldata_v4 C p cont =
     rbind (bytearray_calldata C cont) (\<lambda>words.
     rbind (rmap (felt_from_hex C) words) (\<lambda>fs.
     Inr ([p_commitment p, p_ephemeral p, p_root p, p_nullifier p, p_ticket_root p, p_ticket_nullifier p] @ fs)))"

section \<open>The proof\<close>

record virtual_proof =
  vp_proof :: string
  vp_facts :: "string list"

definition proof_facts_of :: "crates \<Rightarrow> virtual_proof \<Rightarrow> felt list res" where
  "proof_facts_of C vp = rmap (felt_from_hex C) (vp_facts vp)"

text \<open>The output file of the prover.\<close>

definition prover_output :: "json \<Rightarrow> virtual_proof res" where
  "prover_output out =
     rbind (of_opt (Decode BadShape) (as_str (jget out ''proof''))) (\<lambda>p.
     rbind (of_opt (Decode BadShape) (as_array (jget out ''proof_facts''))) (\<lambda>fs.
     rbind (rmap (\<lambda>f. of_opt (Decode BadShape) (as_str f)) fs) (\<lambda>ss.
     Inr \<lparr>vp_proof = p, vp_facts = ss\<rparr>)))"

definition check_facts :: "felt list \<Rightarrow> felt \<Rightarrow> nat \<Rightarrow> unit res" where
  "check_facts facts expected block =
     ensure (length facts = 9) (Policy FactsMismatch) (
     ensure (facts ! 4 = block) (Policy FactsMismatch) (
     ensure (facts ! 7 = 1) (Policy FactsMismatch) (
     ensure (facts ! 8 = expected) (Policy FactsMismatch) (Inr ()))))"

definition VIRTUAL_BOUNDS :: fee_bounds where
  "VIRTUAL_BOUNDS = \<lparr>l1_gas = \<lparr>max_amount = 0, max_price_per_unit = 0\<rparr>,
                     l2_gas = \<lparr>max_amount = 0x7000000, max_price_per_unit = 0\<rparr>,
                     l1_data_gas = \<lparr>max_amount = 0x1b0, max_price_per_unit = 0\<rparr>\<rparr>"

definition virtual_invoke :: "crates \<Rightarrow> felt \<Rightarrow> call list \<Rightarrow> felt \<Rightarrow> json" where
  "virtual_invoke C sender calls nonce =
     JObj [(''type'', JStr ''INVOKE''), (''version'', JStr ''0x3''), (''sender_address'', JStr (felt_to_hex C sender)),
           (''calldata'', felts_json C (execute_calldata calls)), (''nonce'', JStr (felt_to_hex C nonce)),
           (''resource_bounds'', rpc_json VIRTUAL_BOUNDS), (''tip'', JStr ''0x0''), (''paymaster_data'', JArr []),
           (''account_deployment_data'', JArr []), (''nonce_data_availability_mode'', JStr ''L1''),
           (''fee_data_availability_mode'', JStr ''L1''), (''signature'', JArr [])]"

record pool_fee_policy =
  fp_max_fee :: nat
  fp_max_tip :: nat
  fp_min_l2_gas :: nat

definition felt_to_u128 :: "felt \<Rightarrow> nat res" where
  "felt_to_u128 f =
     (let bytes = felt_to_be f
      in ensure (\<forall>b \<in> set (take 16 bytes). b = 0) (Decode NotU128) (Inr (be_nat (drop 16 bytes))))"

definition policy_from_felts :: "felt list \<Rightarrow> pool_fee_policy res" where
  "policy_from_felts fs =
     ensure (length fs = 3) (Decode BadShape) (
     rbind (felt_to_u128 (fs ! 0)) (\<lambda>f.
     rbind (felt_to_u128 (fs ! 1)) (\<lambda>t.
     rbind (felt_to_u64 (fs ! 2)) (\<lambda>g.
     Inr \<lparr>fp_max_fee = f, fp_max_tip = t, fp_min_l2_gas = g\<rparr>))))"

definition policy_bounds :: "pool_fee_policy \<Rightarrow> nat \<times> nat \<times> nat \<Rightarrow> fee_bounds res" where
  "policy_bounds p prices = publish_bounds prices (fp_max_fee p) (fp_max_tip p) (fp_min_l2_gas p)"

section \<open>Small functions\<close>

definition send_id :: "crates \<Rightarrow> felt \<Rightarrow> string" where
  "send_id C com = take 10 (trim_0x (felt_to_hex C com))"

definition to_ascii_lowercase :: "string \<Rightarrow> string" where
  "to_ascii_lowercase s = map (\<lambda>c. let n = of_char c in if 65 \<le> n \<and> n \<le> 90 then char_of (n + 32 :: nat) else c) s"

definition is_nonce_rejection :: "gateway_err \<Rightarrow> bool" where
  "is_nonce_rejection e =
     (case e of
        Rejected code message \<Rightarrow> str_contains code ''NONCE'' \<or> str_contains (to_ascii_lowercase message) ''nonce''
      | _ \<Rightarrow> False)"

definition next_nonce :: "felt \<Rightarrow> nat option \<Rightarrow> felt \<Rightarrow> felt" where
  "next_nonce refused expected chain =
     (let candidate = (case expected of Some n \<Rightarrow> n | None \<Rightarrow> chain)
      in if refused < candidate then candidate else (refused + 1) mod STARK_PRIME)"

function redact_felts :: "string \<Rightarrow> string" where
  "redact_felts s =
     (if starts_with ''0x'' s then
        (let digits = takeWhile is_hexdigit (drop 2 s)
         in (if 16 \<le> length digits then ''0x'' @ [CHR 0xE2, CHR 0x80, CHR 0xA6] else ''0x'' @ digits)
            @ redact_felts (drop (2 + length digits) s))
      else (case s of [] \<Rightarrow> [] | c # s' \<Rightarrow> c # redact_felts s'))"
  by pat_completeness auto
termination
proof (relation "measure length")
  fix s digits assume "starts_with ''0x'' s"
  then have "0 < length s" by (cases s) auto
  then show "(drop (2 + length digits) s, s) \<in> measure length" for digits :: string by simp
qed auto

declare redact_felts.simps [simp del]

text \<open>\<open>wait_for_head\<close>: the heads read, the events shown. \<open>None\<close> while the head given is short.\<close>

fun wait_for_head :: "nat \<Rightarrow> bool \<Rightarrow> nat res list \<Rightarrow> (pipeline_event list \<times> unit res) option" where
  "wait_for_head target reported [] = None"
| "wait_for_head target reported (head # heads) =
     (case head of
        Inl e \<Rightarrow> Some ([], Inl e)
      | Inr now \<Rightarrow>
          if target \<le> now then Some ([], Inr ())
          else map_option (\<lambda>(evs, r). ((if reported then [] else [Waiting target (target - now)]) @ evs, r))
                 (wait_for_head target True heads))"

section \<open>Reads\<close>

definition obind :: "'a res option \<Rightarrow> ('a \<Rightarrow> 'b res option) \<Rightarrow> 'b res option" where
  "obind m f = (case m of None \<Rightarrow> None | Some (Inl e) \<Rightarrow> Some (Inl e) | Some (Inr x) \<Rightarrow> f x)"

lemma obind_Inr: "obind m f = Some (Inr y) \<longleftrightarrow> (\<exists>x. m = Some (Inr x) \<and> f x = Some (Inr y))"
  by (auto simp: obind_def split: option.splits sum.splits)

definition block_id :: "nat option \<Rightarrow> json" where
  "block_id b = (case b of Some n \<Rightarrow> JObj [(''block_number'', JNum (int n))] | None \<Rightarrow> JStr ''latest'')"

definition as_u64 :: "json \<Rightarrow> nat option" where
  "as_u64 j = (case j of JNum n \<Rightarrow> if 0 \<le> n \<and> n < 2 ^ 64 then Some (nat n) else None | _ \<Rightarrow> None)"

definition block_number :: "rpc \<Rightarrow> nat res" where
  "block_number rpc = rbind (rpc ''starknet_blockNumber'' (JArr [])) (\<lambda>v. of_opt (Decode NotU64) (as_u64 v))"

definition store_call :: "crates \<Rightarrow> felt \<Rightarrow> rpc \<Rightarrow> string \<Rightarrow> felt list \<Rightarrow> nat option \<Rightarrow> felt list res" where
  "store_call C st rpc entrypoint cd block =
     rbind (rpc ''starknet_call'' (JArr
       [JObj [(''contract_address'', JStr (felt_to_hex C st)),
              (''entry_point_selector'', JStr (felt_to_hex C (snkeccak C entrypoint))),
              (''calldata'', felts_json C cd)],
        block_id block])) (\<lambda>v.
     rbind (of_opt (Decode BadShape) (as_array v)) (\<lambda>xs.
     rmap (\<lambda>x. felt_from_hex C (str_or [] x)) xs))"

definition store_felt :: "crates \<Rightarrow> felt \<Rightarrow> rpc \<Rightarrow> string \<Rightarrow> felt list \<Rightarrow> nat option \<Rightarrow> felt res" where
  "store_felt C st rpc entrypoint cd block =
     rbind (store_call C st rpc entrypoint cd block) (\<lambda>fs.
     of_opt (Decode TooShort) (case fs of [] \<Rightarrow> None | f # _ \<Rightarrow> Some f))"

definition rate_limit :: "crates \<Rightarrow> felt \<Rightarrow> rpc \<Rightarrow> nat \<Rightarrow> (nat \<times> nat \<times> nat) res" where
  "rate_limit C st rpc block =
     rbind (store_call C st rpc ''rate_limit'' [] (Some block)) (\<lambda>v.
     ensure (length v = 3) (Decode BadShape) (
     rbind (felt_to_u64 (v ! 0)) (\<lambda>epoch_blocks.
     ensure (epoch_blocks \<noteq> 0) (Decode BadShape) (
     rbind (felt_to_u64 (v ! 1)) (\<lambda>lag.
     rbind (rbind (felt_to_u64 (v ! 2)) to_u32) (\<lambda>quota.
     Inr (epoch_blocks, lag, quota)))))))"

definition nonce_of :: "crates \<Rightarrow> rpc \<Rightarrow> felt \<Rightarrow> nat option \<Rightarrow> felt res" where
  "nonce_of C rpc addr block =
     rbind (rpc ''starknet_getNonce'' (JArr [block_id block, JStr (felt_to_hex C addr)])) (\<lambda>v.
     rbind (of_opt (Decode BadShape) (as_str v)) (felt_from_hex C))"

definition registry_fetch :: "crates \<Rightarrow> rpc \<Rightarrow> string \<Rightarrow> nat option \<Rightarrow> registry res option" where
  "registry_fetch C rpc st to_block =
     (let key0 = felt_to_hex C (snkeccak C ''UserRegistered'')
      in map_option (\<lambda>(_, r). rbind r (registry_from_events C))
           (events_through rpc st key0 (store_deploy_block C st) to_block))"

definition ticket_tree_fetch :: "crates \<Rightarrow> rpc \<Rightarrow> string \<Rightarrow> nat option \<Rightarrow> ticket_tree res option" where
  "ticket_tree_fetch C rpc st to_block =
     (let key0 = felt_to_hex C (snkeccak C ''TicketBought'')
      in map_option (\<lambda>(_, r). rbind r (ticket_tree_from_events C))
           (events_through rpc st key0 (store_deploy_block C st) to_block))"

text \<open>One round of \<open>pinned_state\<close>, and its two rounds.\<close>

definition pinned_round :: "crates \<Rightarrow> felt \<Rightarrow> rpc \<Rightarrow> (nat \<times> registry \<times> felt \<times> ticket_tree) option res option" where
  "pinned_round C st rpc =
     (let sh = felt_to_hex C st
      in obind (Some (block_number rpc)) (\<lambda>head.
         let block = base_block head
         in obind (registry_fetch C rpc sh (Some block)) (\<lambda>reg.
            obind (Some (store_felt C st rpc ''get_merkle_root'' [] (Some block))) (\<lambda>root.
            obind (ticket_tree_fetch C rpc sh (Some block)) (\<lambda>tt.
            obind (Some (store_felt C st rpc ''get_ticket_root'' [] (Some block))) (\<lambda>troot.
            Some (Inr (if registry_root reg = root \<and> tt_root tt = troot then Some (block, reg, root, tt) else None))))))))"

fun pinned_state :: "crates \<Rightarrow> felt \<Rightarrow> rpc list \<Rightarrow> (nat \<times> registry \<times> felt \<times> ticket_tree) res option" where
  "pinned_state C st [] = Some (Inl (Net RpcError))"
| "pinned_state C st (rpc # rpcs) =
     obind (pinned_round C st rpc) (\<lambda>r. case r of Some x \<Rightarrow> Some (Inr x) | None \<Rightarrow> pinned_state C st rpcs)"

section \<open>Prepare\<close>

text \<open>What \<open>prepare\<close> knows after the registry part.\<close>

record prep_member =
  pm_block :: nat
  pm_registry :: registry
  pm_root :: felt
  pm_tickets :: ticket_tree
  pm_recipient :: registration
  pm_sender :: registration
  pm_path :: "felt list"
  pm_scan_pub :: felt
  pm_digest :: felt
  pm_secret :: felt

definition prepare_member :: "crates \<Rightarrow> route \<Rightarrow> rpc list \<Rightarrow> profile_keys \<Rightarrow> string \<Rightarrow> string \<Rightarrow> prep_member res option" where
  "prepare_member C rt rpcs keys name msg =
     obind (Some (of_opt (Tickets NotRegistered) (keys_handle keys))) (\<lambda>sender_name.
     obind (Some (pad_v4 (str_bytes msg))) (\<lambda>_.
     obind (Some (keys_scan_pub_felt C keys)) (\<lambda>R.
     obind (Some (keys_kem_keypair C keys)) (\<lambda>(dk, ek).
     let digest = kem_digest_of C ek
     in obind (Some (keys_member_secret_felt C keys)) (\<lambda>m.
     let mc = member_commit C m
     in obind (pinned_state C (r_store rt) (take 2 rpcs)) (\<lambda>(block, reg, root, tt).
     obind (Some (registry_get reg name)) (\<lambda>recipient.
     obind (Some (registry_get reg sender_name)) (\<lambda>sender.
     obind (Some (ensure (scan_pub sender = R \<and> kem_digest sender = digest \<and> m_commit sender = mc) (Tickets NotRegistered) (Inr ()))) (\<lambda>_.
     obind (Some (registry_path reg (leaf_index sender))) (\<lambda>path.
     obind (Some (fold_path C (leaf_v3 C R digest mc) (leaf_index sender) path)) (\<lambda>r.
     obind (Some (ensure (r = root) (Policy BadPath) (Inr ()))) (\<lambda>_.
     Some (Inr \<lparr>pm_block = block, pm_registry = reg, pm_root = root, pm_tickets = tt, pm_recipient = recipient,
                pm_sender = sender, pm_path = path, pm_scan_pub = R, pm_digest = digest, pm_secret = m\<rparr>)))))))))))))"

text \<open>A settlement that found something is saved. The file, the wallet and the save's outcome.\<close>

definition settle_and_save :: "crates \<Rightarrow> io \<Rightarrow> ticket_tree \<Rightarrow> wallet \<Rightarrow> wallet stored \<Rightarrow> wallet stored \<times> wallet res" where
  "settle_and_save C io tt w f =
     (case settle C tt w of
        (w', Inl e) \<Rightarrow> (f, Inl e)
      | (w', Inr n) \<Rightarrow>
          if 0 < n then (case wallet_save io w' f of (f', r) \<Rightarrow> (f', rbind r (\<lambda>_. Inr w')))
          else (f, Inr w'))"

record prep_ticket =
  pt_wallet :: wallet
  pt_pos :: nat
  pt_secret :: felt
  pt_index :: nat
  pt_path :: "felt list"

definition picked_ticket :: "crates \<Rightarrow> ticket_tree \<Rightarrow> wallet \<Rightarrow> nat \<Rightarrow> prep_ticket res" where
  "picked_ticket C tt w ti =
     rbind (ticket_secret_felt C (tickets w ! ti)) (\<lambda>s.
     rbind (of_opt (Tickets NotInTree) (index (tickets w ! ti))) (\<lambda>i.
     rbind (tt_path tt i) (\<lambda>path.
     rbind (fold_path C (ticket_leaf C s) i path) (\<lambda>r.
     ensure (r = tt_root tt) (Policy BadPath) (
     Inr \<lparr>pt_wallet = w, pt_pos = ti, pt_secret = s, pt_index = i, pt_path = path\<rparr>)))))"

definition prepare_ticket :: "crates \<Rightarrow> io \<Rightarrow> felt \<Rightarrow> rpc \<Rightarrow> ticket_tree \<Rightarrow> wallet stored \<Rightarrow> (wallet stored \<times> prep_ticket res) option" where
  "prepare_ticket C io st rpc tt f =
     (let sh = felt_to_hex C st
      in case rbind (wallet_load C io sh f) (\<lambda>w. Inr (settle_and_save C io tt w f)) of
           Inl e \<Rightarrow> Some (f, Inl e)
         | Inr (f1, Inl e) \<Rightarrow> Some (f1, Inl e)
         | Inr (f1, Inr w) \<Rightarrow>
             (case pick C tt w of
                Inr ti \<Rightarrow> Some (f1, picked_ticket C tt w ti)
              | Inl e \<Rightarrow>
                  if 0 < n_pending (counts w) then
                    (case ticket_tree_fetch C rpc sh None of
                       None \<Rightarrow> None
                     | Some (Inl e') \<Rightarrow> Some (f1, Inl e')
                     | Some (Inr latest) \<Rightarrow>
                         (case settle_and_save C io latest w f1 of
                            (f2, Inl e') \<Rightarrow> Some (f2, Inl e')
                          | (f2, Inr w2) \<Rightarrow> Some (f2, rbind (pick C tt w2) (picked_ticket C tt w2))))
                  else Some (f1, Inl e)))"

record prepared =
  pr_id :: string
  pr_block :: nat
  pr_nonce :: felt
  pr_public :: public_v4
  pr_content :: bytes
  pr_calldata :: "felt list"

text \<open>The randomness of one \<open>send_v4\<close>.\<close>

record entropy =
  en_draws :: "bytes list"
  en_m :: bytes
  en_nonce :: bytes

text \<open>From the slot on: seal, build the tuple and the witness, reserve the ticket.\<close>

definition build_send :: "crates \<Rightarrow> io \<Rightarrow> route \<Rightarrow> entropy \<Rightarrow> string \<Rightarrow> prep_member \<Rightarrow> prep_ticket \<Rightarrow> nat \<Rightarrow> nat \<Rightarrow> felt \<Rightarrow> nat
    \<Rightarrow> wallet stored \<Rightarrow> (wallet stored \<times> prepared res) option" where
  "build_send C io rt en msg pm pt ep quota nonce slot f =
     (case send_v4 C (en_draws en) (en_m en) (en_nonce en) (scan_pub (pm_recipient pm)) (kem_pubkey (pm_recipient pm)) (str_bytes msg) of
        None \<Rightarrow> None
      | Some (Inl e) \<Rightarrow> Some (f, Inl e)
      | Some (Inr sd) \<Rightarrow>
          (let p = \<lparr>p_store = r_store rt, p_commitment = commitment sd, p_ephemeral = sealed_ephemeral_pub sd,
                    p_root = pm_root pm, p_content_hash = content_hash sd,
                    p_nullifier = nullifier_v4 C (r_store rt) (pm_secret pm) ep slot,
                    p_epoch = ep, p_quota = quota, p_ticket_root = tt_root (pm_tickets pm),
                    p_ticket_nullifier = ticket_nullifier C (r_store rt) (pt_secret pt)\<rparr>;
               w = \<lparr>w_scan_pub = pm_scan_pub pm, w_kem_digest = pm_digest pm, w_member_secret = pm_secret pm,
                    w_slot = slot, w_leaf_index = leaf_index (pm_sender pm), w_path = pm_path pm,
                    w_ticket_secret = pt_secret pt, w_ticket_index = pt_index pt, w_ticket_path = pt_path pt\<rparr>
           in case prove_send_calldata_v4 p w of
                Inl e \<Rightarrow> Some (f, Inl e)
              | Inr cd \<Rightarrow>
                  (let i = send_id C (commitment sd);
                       w' = set_state (pt_pos pt) (Reserved i) (pt_wallet pt)
                   in case wallet_save io w' f of
                        (f', r) \<Rightarrow> Some (f', rbind r (\<lambda>_. Inr \<lparr>pr_id = i, pr_block = pm_block pm, pr_nonce = nonce,
                            pr_public = p, pr_content = content sd, pr_calldata = cd\<rparr>)))))"

text \<open>\<open>rpcs\<close> are the node during the two rounds of \<open>pinned_state\<close>, \<open>rpc\<close> after them.\<close>

definition prepare :: "crates \<Rightarrow> io \<Rightarrow> route \<Rightarrow> rpc list \<Rightarrow> rpc \<Rightarrow> entropy \<Rightarrow> profile_keys \<Rightarrow> string \<Rightarrow> string
    \<Rightarrow> wallet stored \<Rightarrow> quota_log stored \<Rightarrow> (wallet stored \<times> quota_log stored \<times> prepared res) option" where
  "prepare C io rt rpcs rpc en keys name msg wal qf =
     (case prepare_member C rt rpcs keys name msg of
        None \<Rightarrow> None
      | Some (Inl e) \<Rightarrow> Some (wal, qf, Inl e)
      | Some (Inr pm) \<Rightarrow>
          (case prepare_ticket C io (r_store rt) rpc (pm_tickets pm) wal of
             None \<Rightarrow> None
           | Some (wf1, Inl e) \<Rightarrow> Some (wf1, qf, Inl e)
           | Some (wf1, Inr pt) \<Rightarrow>
               (case rbind (rate_limit C (r_store rt) rpc (pm_block pm)) (\<lambda>(epoch_blocks, _, quota).
                     rbind (nonce_of C rpc (r_virtual_sender rt) (Some (pm_block pm))) (\<lambda>nonce.
                     Inr (pm_block pm div epoch_blocks, quota, nonce))) of
                  Inl e \<Rightarrow> Some (wf1, qf, Inl e)
                | Inr (ep, quota, nonce) \<Rightarrow>
                    (case take_slot C io (felt_to_hex C (r_store rt)) ep quota qf of
                       (qf1, Inl e) \<Rightarrow> Some (wf1, qf1, Inl e)
                     | (qf1, Inr slot) \<Rightarrow>
                         map_option (\<lambda>(wf2, r). (wf2, qf1, r))
                           (build_send C io rt en msg pm pt ep quota nonce slot wf1)))))"

section \<open>What the prover contract checks\<close>

definition statement :: "crates \<Rightarrow> public_v4 \<Rightarrow> witness_v4 \<Rightarrow> bool" where
  "statement C p w =
     (fold_path C (leaf_v3 C (w_scan_pub w) (w_kem_digest w) (member_commit C (w_member_secret w))) (w_leaf_index w) (w_path w) = Inr (p_root p)
      \<and> fold_path C (ticket_leaf C (w_ticket_secret w)) (w_ticket_index w) (w_ticket_path w) = Inr (p_ticket_root p)
      \<and> w_slot w < p_quota p
      \<and> p_nullifier p = nullifier_v4 C (p_store p) (w_member_secret w) (p_epoch p) (w_slot w)
      \<and> p_ticket_nullifier p = ticket_nullifier C (p_store p) (w_ticket_secret w))"

text \<open>The contract's reader of its calldata.\<close>

definition read_prove_send :: "felt list \<Rightarrow> (felt list \<times> witness_v4) option" where
  "read_prove_send cd =
     (if length cd = 57 \<and> cd ! 13 = 20 \<and> cd ! 36 = 20 then
        Some (take 8 cd, \<lparr>w_scan_pub = cd ! 8, w_kem_digest = cd ! 9, w_member_secret = cd ! 10, w_slot = cd ! 11,
               w_leaf_index = cd ! 12, w_path = take 20 (drop 14 cd), w_ticket_secret = cd ! 34,
               w_ticket_index = cd ! 35, w_ticket_path = drop 37 cd\<rparr>)
      else None)"

lemma read_prove_send_write:
  assumes "prove_send_calldata_v4 p w = Inr cd"
  shows "read_prove_send cd = Some ([p_store p, p_content_hash p, p_commitment p, p_ephemeral p, p_root p, p_epoch p, p_quota p, p_ticket_root p], w)"
  using assms
  by (auto simp: prove_send_calldata_v4_def res_inv read_prove_send_def nth_append)

section \<open>What a prepared send rests on\<close>

lemma prepare_member_Inr:
  assumes "prepare_member C rt rpcs keys name msg = Some (Inr pm)"
  shows "fold_path C (leaf_v3 C (pm_scan_pub pm) (pm_digest pm) (member_commit C (pm_secret pm))) (leaf_index (pm_sender pm)) (pm_path pm) = Inr (pm_root pm)"
    and "keys_member_secret_felt C keys = Inr (pm_secret pm)"
    and "registry_get (pm_registry pm) name = Inr (pm_recipient pm)"
  using assms
  by (auto simp: prepare_member_def obind_Inr res_inv Let_def split: prod.splits)

lemma pinned_state_Inr:
  "pinned_state C st rpcs = Some (Inr (block, reg, root, tt)) \<Longrightarrow>
     registry_root reg = root \<and> block mod 32 = 0
     \<and> (\<exists>events. registry_from_events C events = Inr reg) \<and> (\<exists>events. ticket_tree_from_events C events = Inr tt)"
proof (induction C st rpcs rule: pinned_state.induct)
  case (1 C st)
  then show ?case by simp
next
  case (2 C st rpc rpcs)
  then obtain r where r: "pinned_round C st rpc = Some (Inr r)"
    "(case r of Some x \<Rightarrow> Some (Inr x) | None \<Rightarrow> pinned_state C st rpcs) = Some (Inr (block, reg, root, tt))"
    by (auto simp: obind_Inr)
  show ?case
  proof (cases r)
    case None
    then show ?thesis using 2 r by auto
  next
    case (Some x)
    then have "r = Some (block, reg, root, tt)" using r(2) by simp
    then show ?thesis using r(1)
      by (auto simp: pinned_round_def obind_Inr Let_def base_block_def BASE_ROUND_def registry_fetch_def ticket_tree_fetch_def res_inv
          split: if_splits)
  qed
qed

lemma prepare_member_pinned:
  assumes "prepare_member C rt rpcs keys name msg = Some (Inr pm)"
  shows "registry_root (pm_registry pm) = pm_root pm" and "pm_block pm mod 32 = 0"
    and "\<exists>events. ticket_tree_from_events C events = Inr (pm_tickets pm)"
proof -
  have "pinned_state C (r_store rt) (take 2 rpcs) = Some (Inr (pm_block pm, pm_registry pm, pm_root pm, pm_tickets pm))"
    using assms by (auto simp: prepare_member_def obind_Inr res_inv Let_def split: prod.splits)
  from pinned_state_Inr [OF this]
  show "registry_root (pm_registry pm) = pm_root pm" and "pm_block pm mod 32 = 0"
    and "\<exists>events. ticket_tree_from_events C events = Inr (pm_tickets pm)" by auto
qed

lemma picked_ticket_Inr:
  assumes "picked_ticket C tt w ti = Inr pt"
  shows "pt_wallet pt = w" and "pt_pos pt = ti" and "ticket_secret_felt C (tickets w ! ti) = Inr (pt_secret pt)"
    and "fold_path C (ticket_leaf C (pt_secret pt)) (pt_index pt) (pt_path pt) = Inr (tt_root tt)"
  using assms by (auto simp: picked_ticket_def res_inv)

lemma prepare_ticket_Inr:
  assumes "prepare_ticket C io st rpc tt f = Some (f', Inr pt)"
  obtains w ti where "pick C tt w = Inr ti" and "picked_ticket C tt w ti = Inr pt"
  using assms
  by (auto simp: prepare_ticket_def Let_def res_inv split: sum.splits prod.splits if_splits option.splits)

lemma build_send_Inr:
  assumes "build_send C io rt en msg pm pt ep quota nonce slot f = Some (f', Inr p)"
  obtains sd w where "send_v4 C (en_draws en) (en_m en) (en_nonce en) (scan_pub (pm_recipient pm)) (kem_pubkey (pm_recipient pm)) (str_bytes msg) = Some (Inr sd)"
    and "w = \<lparr>w_scan_pub = pm_scan_pub pm, w_kem_digest = pm_digest pm, w_member_secret = pm_secret pm,
                    w_slot = slot, w_leaf_index = leaf_index (pm_sender pm), w_path = pm_path pm,
                    w_ticket_secret = pt_secret pt, w_ticket_index = pt_index pt, w_ticket_path = pt_path pt\<rparr>"
    and "pr_public p = \<lparr>p_store = r_store rt, p_commitment = commitment sd, p_ephemeral = sealed_ephemeral_pub sd,
                    p_root = pm_root pm, p_content_hash = content_hash sd,
                    p_nullifier = nullifier_v4 C (r_store rt) (pm_secret pm) ep slot,
                    p_epoch = ep, p_quota = quota, p_ticket_root = tt_root (pm_tickets pm),
                    p_ticket_nullifier = ticket_nullifier C (r_store rt) (pt_secret pt)\<rparr>"
    and "prove_send_calldata_v4 (pr_public p) w = Inr (pr_calldata p)"
    and "pr_content p = content sd" and "pr_block p = pm_block pm" and "pr_id p = send_id C (commitment sd)"
    and "f' = Some (set_state (pt_pos pt) (Reserved (pr_id p)) (pt_wallet pt))"
  using assms
  by (auto simp: build_send_def Let_def res_inv wallet_save_def write_file_def split: option.splits sum.splits prod.splits)

lemma prepare_Inr:
  assumes "prepare C io rt rpcs rpc en keys name msg wal qf = Some (wal', qf', Inr p)"
  obtains pm pt ep quota nonce slot wal1 where "prepare_member C rt rpcs keys name msg = Some (Inr pm)"
    and "prepare_ticket C io (r_store rt) rpc (pm_tickets pm) wal = Some (wal1, Inr pt)"
    and "take_slot C io (felt_to_hex C (r_store rt)) ep quota qf = (qf', Inr slot)"
    and "build_send C io rt en msg pm pt ep quota nonce slot wal1 = Some (wal', Inr p)"
  using assms
  by (auto simp: prepare_def res_inv split: option.splits sum.splits prod.splits)

lemma ticket_secret_felt_state: "ticket_secret_felt C (t\<lparr>state := x\<rparr>) = ticket_secret_felt C t"
  by (simp add: ticket_secret_felt_def)

lemma take_slot_Inr:
  "take_slot C io st ep quota f = (f', Inr slot) \<Longrightarrow> slot < quota \<and> (\<exists>log. f' = Some log \<and> epoch log = ep \<and> used log = slot + 1)"
  by (auto simp: take_slot_def quota_load_def read_file_def write_file_def Let_def
      split: option.splits sum.splits if_splits)

section \<open>Properties\<close>

text \<open>A prepared send is provable and paid for. The calldata given to the prover, read the
  way the prover contract reads it, carries the public tuple and a witness for which the
  contract's checks hold: the member's leaf and the ticket's leaf fold to the two roots, the slot
  is below the quota, and both nullifiers are those of the secrets on this store. The content
  hash is the content's; the saved wallet has the spent ticket reserved for this send; and the
  saved quota log has the slot taken in the tuple's epoch.\<close>

theorem prepared_send_satisfies_the_statement:
  assumes "prepare C io rt rpcs rpc en keys name msg wal qf = Some (wal', qf', Inr p)"
  shows "\<exists>w. read_prove_send (pr_calldata p) = Some ([p_store (pr_public p), p_content_hash (pr_public p), p_commitment (pr_public p),
        p_ephemeral (pr_public p), p_root (pr_public p), p_epoch (pr_public p), p_quota (pr_public p), p_ticket_root (pr_public p)], w)
    \<and> statement C (pr_public p) w
    \<and> p_content_hash (pr_public p) = content_hash_of C (pr_content p)
    \<and> pr_block p mod 32 = 0
    \<and> (\<exists>w' i. wal' = Some w' \<and> i < length (tickets w') \<and> state (tickets w' ! i) = Reserved (pr_id p)
         \<and> ticket_nullifier_of C (r_store rt) (tickets w' ! i) = Inr (p_ticket_nullifier (pr_public p)))
    \<and> (\<exists>log. qf' = Some log \<and> epoch log = p_epoch (pr_public p) \<and> w_slot w < used log)"
proof -
  from prepare_Inr [OF assms] obtain pm pt ep quota nonce slot wal1
    where pm: "prepare_member C rt rpcs keys name msg = Some (Inr pm)"
      and pt: "prepare_ticket C io (r_store rt) rpc (pm_tickets pm) wal = Some (wal1, Inr pt)"
      and sl: "take_slot C io (felt_to_hex C (r_store rt)) ep quota qf = (qf', Inr slot)"
      and bs: "build_send C io rt en msg pm pt ep quota nonce slot wal1 = Some (wal', Inr p)" .
  from prepare_ticket_Inr [OF pt] obtain w0 ti where pk: "pick C (pm_tickets pm) w0 = Inr ti"
    and pd: "picked_ticket C (pm_tickets pm) w0 ti = Inr pt" .
  from build_send_Inr [OF bs] obtain sd w where sd: "send_v4 C (en_draws en) (en_m en) (en_nonce en) (scan_pub (pm_recipient pm)) (kem_pubkey (pm_recipient pm)) (str_bytes msg) = Some (Inr sd)"
    and w: "w = \<lparr>w_scan_pub = pm_scan_pub pm, w_kem_digest = pm_digest pm, w_member_secret = pm_secret pm,
                    w_slot = slot, w_leaf_index = leaf_index (pm_sender pm), w_path = pm_path pm,
                    w_ticket_secret = pt_secret pt, w_ticket_index = pt_index pt, w_ticket_path = pt_path pt\<rparr>"
    and pub: "pr_public p = \<lparr>p_store = r_store rt, p_commitment = commitment sd, p_ephemeral = sealed_ephemeral_pub sd,
                    p_root = pm_root pm, p_content_hash = content_hash sd,
                    p_nullifier = nullifier_v4 C (r_store rt) (pm_secret pm) ep slot,
                    p_epoch = ep, p_quota = quota, p_ticket_root = tt_root (pm_tickets pm),
                    p_ticket_nullifier = ticket_nullifier C (r_store rt) (pt_secret pt)\<rparr>"
    and cd: "prove_send_calldata_v4 (pr_public p) w = Inr (pr_calldata p)"
    and rest: "pr_content p = content sd" "pr_block p = pm_block pm" "pr_id p = send_id C (commitment sd)"
      "wal' = Some (set_state (pt_pos pt) (Reserved (pr_id p)) (pt_wallet pt))" .
  note slot = take_slot_Inr [OF sl]
  have st: "statement C (pr_public p) w"
    using prepare_member_Inr(1) [OF pm] picked_ticket_Inr(4) [OF pd] slot by (simp add: statement_def pub w)
  have hash: "p_content_hash (pr_public p) = content_hash_of C (pr_content p)"
  proof -
    obtain en' blob where "sd = assemble_v2 C en' blob" by (rule send_v4_cases [OF sd])
    then show ?thesis by (simp add: pub rest(1) assemble_v2_def Let_def)
  qed
  have tick: "\<exists>w' i. wal' = Some w' \<and> i < length (tickets w') \<and> state (tickets w' ! i) = Reserved (pr_id p)
         \<and> ticket_nullifier_of C (r_store rt) (tickets w' ! i) = Inr (p_ticket_nullifier (pr_public p))"
  proof (intro exI conjI)
    show "wal' = Some (set_state ti (Reserved (pr_id p)) w0)" using rest(4) picked_ticket_Inr(1,2) [OF pd] by simp
    show "ti < length (tickets (set_state ti (Reserved (pr_id p)) w0))"
      using pick_usable(1) [OF pk] by (simp add: set_state_def)
    show "state (tickets (set_state ti (Reserved (pr_id p)) w0) ! ti) = Reserved (pr_id p)"
      using pick_usable(1) [OF pk] by (simp add: set_state_def)
    show "ticket_nullifier_of C (r_store rt) (tickets (set_state ti (Reserved (pr_id p)) w0) ! ti) = Inr (p_ticket_nullifier (pr_public p))"
      using pick_usable(1) [OF pk] picked_ticket_Inr(3) [OF pd]
      by (simp add: set_state_def ticket_nullifier_of_def ticket_secret_felt_state pub)
  qed
  have quota: "\<exists>log. qf' = Some log \<and> epoch log = p_epoch (pr_public p) \<and> w_slot w < used log"
    using slot by (auto simp: pub w)
  have base: "pr_block p mod 32 = 0" using prepare_member_pinned(2) [OF pm] rest(2) by simp
  show ?thesis
    by (rule exI [of _ w], intro conjI) (rule read_prove_send_write [OF cd] st hash base tick quota)+
qed

end
