(* ===== verification/Publish.thy ===== *)
theory Publish
  imports Virtual_Send
begin

text \<open>
  \<^verbatim>\<open>core/src/virtual_send.rs\<close>, the executor: proving, publishing, resuming. An action runs on
  the send's state, the files and a trace of what it did; it returns \<open>None\<close> while the answers
  given do not let it end (waiting for a head or for acceptance). The environment's answers are
  a \<open>world\<close>: one per attempt where the code may ask again. The trace is the specification's
  handle: \<open>trace_ok\<close> says what must have happened before each submission and each settlement
  of the ticket.
\<close>

section \<open>Actions\<close>

record files =
  f_sent :: "send_state stored"
  f_stale :: "send_state stored"
  f_proof :: "virtual_proof stored"
  f_wallet :: "wallet stored"

datatype effect =
    Saved send_state
  | Posted felt felt fee_bounds
  | Refusal felt err
  | StatusRead felt "tx_status res"
  | RpcAsked felt "string + json"
  | HeadReached nat
  | RootKnown felt "felt res"
  | Verdict felt "tx_status res"
  | SpentTicket "string option"
  | ReleasedTicket
  | Retired
  | Shown pipeline_event

record run =
  ru_state :: send_state
  ru_files :: files
  ru_trace :: "effect list"

type_synonym 'a act = "run \<Rightarrow> (run \<times> 'a res) option"

definition aret :: "'a \<Rightarrow> 'a act" where
  "aret x = (\<lambda>r. Some (r, Inr x))"

definition afail :: "err \<Rightarrow> 'a act" where
  "afail e = (\<lambda>r. Some (r, Inl e))"

definition alift :: "'a res \<Rightarrow> 'a act" where
  "alift x = (\<lambda>r. Some (r, x))"

definition abind :: "'a act \<Rightarrow> ('a \<Rightarrow> 'b act) \<Rightarrow> 'b act" where
  "abind m f = (\<lambda>r. case m r of
      None \<Rightarrow> None
    | Some (r', Inl e) \<Rightarrow> Some (r', Inl e)
    | Some (r', Inr x) \<Rightarrow> f x r')"

definition snoc :: "'a list \<Rightarrow> 'a \<Rightarrow> 'a list" where
  "snoc xs x = xs @ [x]"

definition emit :: "effect \<Rightarrow> unit act" where
  "emit e = (\<lambda>r. Some (r\<lparr>ru_trace := snoc (ru_trace r) e\<rparr>, Inr ()))"

definition get_run :: "run act" where
  "get_run = (\<lambda>r. Some (r, Inr r))"

definition set_send_state :: "send_state \<Rightarrow> unit act" where
  "set_send_state s = (\<lambda>r. Some (r\<lparr>ru_state := s\<rparr>, Inr ()))"

definition set_files :: "files \<Rightarrow> unit act" where
  "set_files f = (\<lambda>r. Some (r\<lparr>ru_files := f\<rparr>, Inr ()))"

section \<open>The environment\<close>

record gateway =
  gw_chain_id :: felt
  gw_via_rpc :: bool

record world =
  wd_saved_status :: "tx_status res"
  wd_saved_rpc :: "string + json"
  wd_heads :: "nat res list"
  wd_rpc :: rpc
  wd_save :: "nat \<Rightarrow> unit res"
  wd_reply :: "nat \<Rightarrow> http_reply"
  wd_status :: "nat \<Rightarrow> tx_status res"
  wd_rpc_status :: "nat \<Rightarrow> string + json"
  wd_pool_nonce :: "nat \<Rightarrow> felt res"
  wd_polls :: "(tx_status res \<times> bool \<times> bool) list"
  wd_retire :: "unit res"
  wd_wallet_io :: io
  wd_text_of :: "json \<Rightarrow> string"

text \<open>\<open>rpc_agrees_dropped\<close>: the answer, or the text of the error.\<close>

definition rpc_agrees_dropped :: "string + json \<Rightarrow> bool" where
  "rpc_agrees_dropped a =
     (case a of
        Inr v \<Rightarrow> as_str (jget v ''finality_status'') = Some ''REJECTED''
      | Inl msg \<Rightarrow> str_contains msg (CHR 0x22 # ''code'' @ CHR 0x22 # '':29''))"

text \<open>What one publish works with.\<close>

record pub_ctx =
  k_crates :: crates
  k_route :: route
  k_gateway :: gateway
  k_world :: world
  k_index :: nat
  k_public :: public_v4
  k_call :: call
  k_att :: proof_attachment
  k_bounds :: fee_bounds

section \<open>Bookkeeping\<close>

definition save_state :: "unit res \<Rightarrow> unit act" where
  "save_state ok =
     abind (alift ok) (\<lambda>_.
     abind get_run (\<lambda>r.
     abind (set_files ((ru_files r)\<lparr>f_sent := Some (ru_state r)\<rparr>)) (\<lambda>_.
     emit (Saved (ru_state r)))))"

text \<open>Wallet bookkeeping is best effort.\<close>

definition update_wallet :: "crates \<Rightarrow> io \<Rightarrow> felt \<Rightarrow> (wallet \<Rightarrow> wallet \<times> bool) \<Rightarrow> unit act" where
  "update_wallet C io st f =
     abind get_run (\<lambda>r.
       case wallet_load C io (felt_to_hex C st) (f_wallet (ru_files r)) of
         Inl e \<Rightarrow> aret ()
       | Inr w \<Rightarrow>
           (case f w of
              (w', True) \<Rightarrow> set_files ((ru_files r)\<lparr>f_wallet := fst (wallet_save io w' (f_wallet (ru_files r)))\<rparr>)
            | (w', False) \<Rightarrow> aret ()))"

definition spend_ticket :: "crates \<Rightarrow> io \<Rightarrow> route \<Rightarrow> public_v4 \<Rightarrow> string option \<Rightarrow> unit act" where
  "spend_ticket C io rt p tx =
     abind (emit (SpentTicket tx)) (\<lambda>_.
     update_wallet C io (r_store rt) (mark_spent C (p_store p) (p_ticket_nullifier p) tx))"

definition release_ticket :: "crates \<Rightarrow> io \<Rightarrow> route \<Rightarrow> public_v4 \<Rightarrow> unit act" where
  "release_ticket C io rt p =
     abind (emit ReleasedTicket) (\<lambda>_.
     update_wallet C io (r_store rt) (release C (p_store p) (p_ticket_nullifier p)))"

definition retire :: "unit res \<Rightarrow> unit act" where
  "retire ok =
     abind (alift ok) (\<lambda>_.
     abind get_run (\<lambda>r.
     abind (set_files ((ru_files r)\<lparr>f_sent := None, f_stale := f_sent (ru_files r)\<rparr>)) (\<lambda>_.
     emit Retired)))"

definition read_status :: "felt \<Rightarrow> tx_status res \<Rightarrow> tx_status act" where
  "read_status h s = abind (emit (StatusRead h s)) (\<lambda>_. alift s)"

text \<open>\<^verbatim>\<open>status.is_dropped() && rpc_agrees_dropped(hash)\<close>, the RPC asked only when needed.\<close>

definition really_dropped :: "felt \<Rightarrow> tx_status \<Rightarrow> string + json \<Rightarrow> bool act" where
  "really_dropped h s a =
     (if is_dropped s then abind (emit (RpcAsked h a)) (\<lambda>_. aret (rpc_agrees_dropped a)) else aret False)"

section \<open>Publishing\<close>

definition await_and_finish :: "crates \<Rightarrow> route \<Rightarrow> world \<Rightarrow> nat \<Rightarrow> public_v4 \<Rightarrow> felt \<Rightarrow> unit act" where
  "await_and_finish C rt wd idx p hash =
     (let tx_hash = felt_to_hex C hash
      in case await_acceptance tx_hash (wd_polls wd) of
           None \<Rightarrow> (\<lambda>r. None)
         | Some v \<Rightarrow>
             abind (emit (Verdict hash v)) (\<lambda>_.
               case v of
                 Inl e \<Rightarrow>
                   (case e of
                      Gateway (Reverted _ _) \<Rightarrow>
                        abind (spend_ticket C (wd_wallet_io wd) rt p (Some tx_hash)) (\<lambda>_.
                        abind (retire (wd_retire wd)) (\<lambda>_. afail e))
                    | _ \<Rightarrow> afail e)
               | Inr _ \<Rightarrow>
                   abind (spend_ticket C (wd_wallet_io wd) rt p (Some tx_hash)) (\<lambda>_.
                   abind get_run (\<lambda>r.
                   abind (alift (mark_done idx (Some tx_hash, Some ''message published by the pool'') (ru_state r))) (\<lambda>s.
                   abind (set_send_state s) (\<lambda>_.
                   abind (save_state (wd_save wd 12)) (\<lambda>_.
                   abind (emit (Shown (StepCompleted Send_State.Publish (Some tx_hash) None))) (\<lambda>_.
                   emit (Shown Completed)))))))))"

definition FINAL_REFUSALS :: "string list" where
  "FINAL_REFUSALS = [''nullifier spent'', ''envelope consumed'', ''stale epoch'', ''unknown merkle root'']"

definition PUBLISH_ATTEMPTS :: nat where "PUBLISH_ATTEMPTS = 12"

text \<open>The hash, the nonce and the bounds are recorded and saved, then the transaction goes out.\<close>

definition record_and_save :: "pub_ctx \<Rightarrow> nat \<Rightarrow> felt \<Rightarrow> felt \<Rightarrow> unit act" where
  "record_and_save K attempt hash nonce =
     (let C = k_crates K
      in abind get_run (\<lambda>r.
         abind (alift (record_submission (k_index K) (felt_to_hex C hash) (ru_state r))) (\<lambda>s.
         abind (set_send_state (s\<lparr>publish_nonce := Some (felt_to_hex C nonce), st_publish_bounds := Some (k_bounds K)\<rparr>)) (\<lambda>_.
         save_state (wd_save (k_world K) attempt)))))"

text \<open>What a failed submission leads to; \<open>retry\<close> is the next attempt at the nonce given.\<close>

definition on_refusal :: "pub_ctx \<Rightarrow> nat \<Rightarrow> bool \<Rightarrow> felt \<Rightarrow> felt \<Rightarrow> (felt \<Rightarrow> unit act) \<Rightarrow> err \<Rightarrow> unit act" where
  "on_refusal K attempt is_last hash nonce retry e =
     (let C = k_crates K; wd = k_world K; io = wd_wallet_io wd; rt = k_route K; p = k_public K
      in case e of
           Gateway g \<Rightarrow>
             (case g of
                Rejected code message \<Rightarrow>
                  if \<not> is_last \<and> too_recent g then retry nonce
                  else if refused_with C ''ticket spent'' g then
                    abind (spend_ticket C io rt p None) (\<lambda>_. abind (retire (wd_retire wd)) (\<lambda>_. afail e))
                  else if list_ex (\<lambda>reason. refused_with C reason g) FINAL_REFUSALS then
                    abind (release_ticket C io rt p) (\<lambda>_. abind (retire (wd_retire wd)) (\<lambda>_. afail e))
                  else if \<not> is_last \<and> is_nonce_rejection g then
                    abind (read_status hash (wd_status wd attempt)) (\<lambda>s.
                    abind (really_dropped hash s (wd_rpc_status wd attempt)) (\<lambda>dropped.
                    if \<not> dropped then await_and_finish C rt wd (k_index K) p hash
                    else abind (alift (wd_pool_nonce wd attempt)) (\<lambda>pool.
                         retry (next_nonce nonce (expected_nonce g) pool))))
                  else afail e
              | _ \<Rightarrow> afail e)
         | _ \<Rightarrow> afail e)"

definition loop_tx :: "pub_ctx \<Rightarrow> felt \<Rightarrow> signed_invoke res" where
  "loop_tx K nonce = unsigned_invoke (k_crates K) (gw_chain_id (k_gateway K)) (r_store (k_route K)) [k_call K] nonce (k_bounds K) TIP (Some (k_att K))"

fun publish_loop :: "pub_ctx \<Rightarrow> nat \<Rightarrow> felt \<Rightarrow> unit act" where
  "publish_loop K 0 nonce = afail (Net TimedOut)"
| "publish_loop K (Suc k) nonce =
     (let C = k_crates K; wd = k_world K; attempt = PUBLISH_ATTEMPTS - Suc k; is_last = (k = 0)
      in abind (alift (loop_tx K nonce)) (\<lambda>tx.
         abind (record_and_save K attempt (si_hash tx) nonce) (\<lambda>_.
         abind (emit (Posted (si_hash tx) nonce (k_bounds K))) (\<lambda>_.
         case submit C (wd_text_of wd) (gw_via_rpc (k_gateway K)) (wd_reply wd attempt) (si_hash tx) of
           Inr _ \<Rightarrow>
             abind (emit (Shown (TxSubmitted Send_State.Publish (felt_to_hex C (si_hash tx))))) (\<lambda>_.
             await_and_finish C (k_route K) wd (k_index K) (k_public K) (si_hash tx))
         | Inl e \<Rightarrow>
             abind (emit (Refusal (si_hash tx) e)) (\<lambda>_.
             on_refusal K attempt is_last (si_hash tx) nonce (\<lambda>n. publish_loop K k n) e)))))"

definition publish_inputs :: "crates \<Rightarrow> route \<Rightarrow> rpc \<Rightarrow> (felt \<times> fee_bounds) res" where
  "publish_inputs C rt rpc =
     rbind (store_call C (r_store rt) rpc ''fee_policy'' [] None) (\<lambda>fs.
     rbind (policy_from_felts fs) (\<lambda>pol.
     rbind (nonce_of C rpc (r_store rt) None) (\<lambda>n.
     rbind (gas_prices rpc) (\<lambda>prices.
     rbind (policy_bounds pol prices) (\<lambda>b.
     Inr (n, b))))))"

text \<open>From the schedule on: nothing recorded is in flight.\<close>

definition publish_fresh :: "crates \<Rightarrow> route \<Rightarrow> gateway \<Rightarrow> world \<Rightarrow> nat \<Rightarrow> public_v4 \<Rightarrow> bytes \<Rightarrow> unit act" where
  "publish_fresh C rt gw wd idx p cont =
     abind get_run (\<lambda>r.
     abind (case publish_after_block (ru_state r) of
              None \<Rightarrow> aret ()
            | Some target \<Rightarrow>
                (case wait_for_head target False (wd_heads wd) of
                   None \<Rightarrow> (\<lambda>r. None)
                 | Some (evs, res) \<Rightarrow>
                     abind (\<lambda>r. Some (r\<lparr>ru_trace := ru_trace r @ map Shown evs\<rparr>, res)) (\<lambda>_. emit (HeadReached target)))) (\<lambda>_.
     let known = store_felt C (r_store rt) (wd_rpc wd) ''is_known_root'' [p_root p] None
     in abind (emit (RootKnown (p_root p) known)) (\<lambda>_.
        abind (alift known) (\<lambda>known.
        if known \<noteq> 1 then
          abind (release_ticket C (wd_wallet_io wd) rt p) (\<lambda>_.
          abind (retire (wd_retire wd)) (\<lambda>_. afail (Policy BadPath)))
        else
          abind (alift (of_opt (File Missing) (f_proof (ru_files r)))) (\<lambda>vp.
          abind (alift (proof_facts_of C vp)) (\<lambda>facts.
          abind (alift (rbind (of_opt (File Missing) (st_base_block (ru_state r)))
                   (check_facts facts (message_hash C p (r_prover rt))))) (\<lambda>_.
          abind (alift (send_message_calldata_v4 C p cont)) (\<lambda>cd.
          abind (alift (case (publish_nonce (ru_state r), st_publish_bounds (ru_state r)) of
                          (Some n, Some b) \<Rightarrow> rbind (felt_from_hex C n) (\<lambda>n. Inr (n, b))
                        | _ \<Rightarrow> publish_inputs C rt (wd_rpc wd))) (\<lambda>(nonce, b).
          publish_loop
            \<lparr>k_crates = C, k_route = rt, k_gateway = gw, k_world = wd, k_index = idx, k_public = p,
             k_call = call_new C (r_store rt) ''send_message'' cd,
             k_att = \<lparr>att_proof = vp_proof vp, att_facts = facts\<rparr>, k_bounds = b\<rparr>
            PUBLISH_ATTEMPTS nonce)))))))))"

definition publish :: "crates \<Rightarrow> route \<Rightarrow> gateway \<Rightarrow> world \<Rightarrow> unit act" where
  "publish C rt gw wd =
     abind get_run (\<lambda>r.
     abind (alift (of_opt (File Missing) (position (\<lambda>s. step_kind s = Send_State.Publish) (steps (ru_state r))))) (\<lambda>idx.
     abind (emit (Shown (StepStarted idx (length (steps (ru_state r))) Send_State.Publish))) (\<lambda>_.
     abind (alift (of_opt (Decode BadHex) (hex_decode C (ciphertext_hex (ru_state r))))) (\<lambda>cont.
     abind (alift (public_from_state C (r_store rt) (ru_state r) cont)) (\<lambda>p.
     case step_tx_hash (steps (ru_state r) ! idx) of
       None \<Rightarrow> publish_fresh C rt gw wd idx p cont
     | Some saved \<Rightarrow>
         abind (alift (felt_from_hex C saved)) (\<lambda>hash.
         abind (read_status hash (wd_saved_status wd)) (\<lambda>s.
         if is_reverted s then
           abind (spend_ticket C (wd_wallet_io wd) rt p (Some saved)) (\<lambda>_.
           abind (retire (wd_retire wd)) (\<lambda>_.
           afail (Gateway (Reverted saved (case revert_reason s of Some x \<Rightarrow> x | None \<Rightarrow> ''no reason'')))))
         else
           abind (really_dropped hash s (wd_saved_rpc wd)) (\<lambda>dropped.
           if \<not> dropped then await_and_finish C rt wd idx p hash
           else publish_fresh C rt gw wd idx p cont))))))))"

definition resume :: "crates \<Rightarrow> route \<Rightarrow> gateway \<Rightarrow> world \<Rightarrow> unit act" where
  "resume C rt gw wd =
     abind get_run (\<lambda>r.
       case next_pending (ru_state r) of
         None \<Rightarrow> emit (Shown Completed)
       | Some i \<Rightarrow>
           if step_kind (steps (ru_state r) ! i) = Send_State.Publish then publish C rt gw wd
           else afail (File NothingToResume))"

text \<open>\<open>prove_and_save\<close>: \<open>prover\<close> is \<^verbatim>\<open>snip36-prove\<close>, \<open>note\<close> its timing line.\<close>

definition prove_and_save :: "crates \<Rightarrow> route \<Rightarrow> (nat \<Rightarrow> json \<Rightarrow> json res) \<Rightarrow> unit res \<Rightarrow> string \<Rightarrow> prepared \<Rightarrow> unit act" where
  "prove_and_save C rt prover ok nt p =
     (let tx = virtual_invoke C (r_virtual_sender rt) [call_new C (r_prover rt) ''prove_send'' (pr_calldata p)] (pr_nonce p)
      in abind (alift (short_string_text (r_chain_id rt))) (\<lambda>_.
         abind (alift (rbind (prover (pr_block p) tx) prover_output)) (\<lambda>vp.
         abind (alift (proof_facts_of C vp)) (\<lambda>facts.
         abind (alift (check_facts facts (message_hash C (pr_public p) (r_prover rt)) (pr_block p))) (\<lambda>_.
         abind get_run (\<lambda>r.
         abind (set_files ((ru_files r)\<lparr>f_proof := Some vp\<rparr>)) (\<lambda>_.
         abind (alift (mark_done 1 (None, Some nt) (ru_state r))) (\<lambda>s.
         abind (set_send_state s) (\<lambda>_.
         save_state ok)))))))))"

text \<open>The state \<open>send\<close> starts from once Prepare has returned.\<close>

definition sent_plan :: "crates \<Rightarrow> string \<Rightarrow> nat \<Rightarrow> string \<Rightarrow> prepared \<Rightarrow> send_state res" where
  "sent_plan C name jitter nt p =
     rbind (publish_after (pr_block p) jitter) (\<lambda>after.
       mark_done 0 (None, Some nt)
         ((new_virtual_plan (pr_id p) name (hex_encode C (pr_content p))
             (felt_to_hex C (p_commitment (pr_public p)), felt_to_hex C (p_ephemeral (pr_public p)), felt_to_hex C (p_root (pr_public p)))
             (pr_block p))
          \<lparr>binding := Some (binding_of C (pr_public p)), publish_after_block := Some after\<rparr>))"

text \<open>\<open>send\<close> after Prepare: a failure to prove hands the ticket back.\<close>

definition send_prepared :: "crates \<Rightarrow> route \<Rightarrow> gateway \<Rightarrow> world \<Rightarrow> (nat \<Rightarrow> json \<Rightarrow> json res) \<Rightarrow> unit res \<Rightarrow> nat \<Rightarrow> string \<Rightarrow> string \<Rightarrow> string \<Rightarrow> prepared \<Rightarrow> unit act" where
  "send_prepared C rt gw wd prover ok jitter nt0 nt1 name p =
     abind (alift (sent_plan C name jitter nt0 p)) (\<lambda>s.
     abind (set_send_state s) (\<lambda>_.
     abind (emit (Shown (StepCompleted Send_State.Prepare None None))) (\<lambda>_.
     abind (emit (Shown (StepStarted 1 3 Send_State.Prove))) (\<lambda>_.
     abind (\<lambda>r. case prove_and_save C rt prover ok nt1 p r of
                None \<Rightarrow> None
              | Some (r', Inl e) \<Rightarrow> abind (release_ticket C (wd_wallet_io wd) rt (pr_public p)) (\<lambda>_. afail e) r'
              | Some (r', Inr x) \<Rightarrow> Some (r', Inr x)) (\<lambda>_.
     abind (emit (Shown (Checkpointed (pr_id p)))) (\<lambda>_.
     abind (emit (Shown (StepCompleted Send_State.Prove None None))) (\<lambda>_.
     publish C rt gw wd)))))))"

section \<open>What a trace must satisfy\<close>

fun is_post :: "felt \<Rightarrow> effect \<Rightarrow> bool" where
  "is_post h (Posted h' n b) = (h' = h)"
| "is_post h _ = False"

fun any_post :: "effect \<Rightarrow> bool" where
  "any_post (Posted h n b) = True"
| "any_post _ = False"

text \<open>The submissions so far, the one a previous run recorded included.\<close>

definition posted :: "felt option \<Rightarrow> effect list \<Rightarrow> felt set" where
  "posted hs t = set_option hs \<union> {h. \<exists>e \<in> set t. is_post h e}"

text \<open>Since its last submission, the gateway reported \<open>h\<close> dropped and the RPC agreed.\<close>

definition dropped_since :: "felt \<Rightarrow> effect list \<Rightarrow> bool" where
  "dropped_since h t =
     (let after = takeWhile (\<lambda>e. \<not> is_post h e) (rev t)
      in (\<exists>s. StatusRead h (Inr s) \<in> set after \<and> is_dropped s) \<and> (\<exists>a. RpcAsked h a \<in> set after \<and> rpc_agrees_dropped a))"

definition recorded :: "crates \<Rightarrow> send_state \<Rightarrow> felt \<Rightarrow> felt \<Rightarrow> fee_bounds \<Rightarrow> bool" where
  "recorded C s h n b =
     ((\<exists>st \<in> set (steps s). step_kind st = Send_State.Publish \<and> step_tx_hash st = Some (felt_to_hex C h))
      \<and> publish_nonce s = Some (felt_to_hex C n) \<and> st_publish_bounds s = Some b)"

definition settled :: "effect list \<Rightarrow> bool" where
  "settled t = (\<exists>e \<in> set t. case e of SpentTicket _ \<Rightarrow> True | ReleasedTicket \<Rightarrow> True | _ \<Rightarrow> False)"

definition spent_evidence :: "crates \<Rightarrow> effect list \<Rightarrow> string option \<Rightarrow> bool" where
  "spent_evidence C t x =
     (case x of
        Some y \<Rightarrow> \<exists>h. (y = felt_to_hex C h \<or> felt_of_hex C y = Some h)
          \<and> ((\<exists>st. Verdict h (Inr st) \<in> set t) \<or> (\<exists>m r. Verdict h (Inl (Gateway (Reverted m r))) \<in> set t)
             \<or> (\<exists>s. StatusRead h (Inr s) \<in> set t \<and> is_reverted s))
      | None \<Rightarrow> \<exists>h g. Refusal h (Gateway g) \<in> set t \<and> refused_with C ''ticket spent'' g)"

definition release_evidence :: "crates \<Rightarrow> effect list \<Rightarrow> bool" where
  "release_evidence C t =
     ((\<exists>root v. RootKnown root (Inr v) \<in> set t \<and> v \<noteq> 1)
      \<or> (\<exists>h g. Refusal h (Gateway g) \<in> set t \<and> list_ex (\<lambda>reason. refused_with C reason g) FINAL_REFUSALS))"

record trace_spec =
  ts_crates :: crates
  ts_saved :: "felt option"
  ts_target :: "nat option"
  ts_tx :: "felt \<Rightarrow> felt \<Rightarrow> fee_bounds \<Rightarrow> bool"

fun ok_next :: "trace_spec \<Rightarrow> effect list \<Rightarrow> effect \<Rightarrow> bool" where
  "ok_next S t (Posted h n b) =
     ((\<exists>s. t \<noteq> [] \<and> last t = Saved s \<and> recorded (ts_crates S) s h n b)
      \<and> (\<forall>h' \<in> posted (ts_saved S) t. h' = h \<or> dropped_since h' t)
      \<and> (case ts_target S of Some x \<Rightarrow> HeadReached x \<in> set t | None \<Rightarrow> True)
      \<and> (\<exists>root. RootKnown root (Inr 1) \<in> set t)
      \<and> ts_tx S h n b \<and> \<not> settled t)"
| "ok_next S t (SpentTicket x) = (\<not> settled t \<and> spent_evidence (ts_crates S) t x)"
| "ok_next S t ReleasedTicket = (\<not> settled t \<and> release_evidence (ts_crates S) t)"
| "ok_next S t _ = True"

definition trace_ok :: "trace_spec \<Rightarrow> effect list \<Rightarrow> bool" where
  "trace_ok S t = (\<forall>i < length t. ok_next S (take i t) (t ! i))"

definition n_posts :: "effect list \<Rightarrow> nat" where
  "n_posts t = length (filter any_post t)"

lemma trace_ok_Nil [simp]: "trace_ok S []"
  by (simp add: trace_ok_def)

lemma Nil_simps [simp]: "n_posts [] = 0" "\<not> settled []"
  by (simp_all add: n_posts_def settled_def)

lemma trace_ok_snoc [simp]: "trace_ok S (snoc t e) \<longleftrightarrow> trace_ok S t \<and> ok_next S t e"
  by (auto simp: trace_ok_def snoc_def nth_append less_Suc_eq)

lemma n_posts_snoc [simp]: "n_posts (snoc t e) = n_posts t + (if any_post e then 1 else 0)"
  by (simp add: n_posts_def snoc_def)

lemma posted_snoc [simp]: "posted hs (snoc t e) = posted hs t \<union> {h. is_post h e}"
  by (auto simp: posted_def snoc_def)

lemma settled_snoc [simp]:
  "settled (snoc t e) = (settled t \<or> (case e of SpentTicket _ \<Rightarrow> True | ReleasedTicket \<Rightarrow> True | _ \<Rightarrow> False))"
  by (auto simp: settled_def snoc_def)

lemma dropped_since_snoc: "dropped_since h t \<Longrightarrow> \<not> is_post h e \<Longrightarrow> dropped_since h (snoc t e)"
  by (auto simp: dropped_since_def snoc_def Let_def)

lemma snoc_simps [simp]: "set (snoc t e) = insert e (set t)" "last (snoc t e) = e" "snoc t e \<noteq> []"
  by (simp_all add: snoc_def)

text \<open>The evidence is what the action has just read.\<close>

lemma evidence_now [simp]:
  "spent_evidence C (snoc t (Verdict h (Inr st))) (Some (felt_to_hex C h))"
  "spent_evidence C (snoc t (Verdict h (Inl (Gateway (Reverted m r))))) (Some (felt_to_hex C h))"
  "is_reverted s \<Longrightarrow> felt_of_hex C y = Some h \<Longrightarrow> spent_evidence C (snoc t (StatusRead h (Inr s))) (Some y)"
  "refused_with C ''ticket spent'' g \<Longrightarrow> spent_evidence C (snoc t (Refusal h (Gateway g))) None"
  "v \<noteq> 1 \<Longrightarrow> release_evidence C (snoc t (RootKnown root (Inr v)))"
  "list_ex (\<lambda>reason. refused_with C reason g) FINAL_REFUSALS \<Longrightarrow> release_evidence C (snoc t (Refusal h (Gateway g)))"
  by (auto simp: spent_evidence_def release_evidence_def)

section \<open>Weakest preconditions\<close>

definition wp :: "'a act \<Rightarrow> ('a res \<Rightarrow> run \<Rightarrow> bool) \<Rightarrow> run \<Rightarrow> bool" where
  "wp m R r = (case m r of None \<Rightarrow> True | Some (r', x) \<Rightarrow> R x r')"

named_theorems wp_simps \<open>weakest preconditions of the actions\<close>

lemma wp_values [wp_simps]:
  "wp (aret x) R r = R (Inr x) r"
  "wp (afail e) R r = R (Inl e) r"
  "wp (alift v) R r = R v r"
  "wp (\<lambda>r. None) R r = True"
  by (simp_all add: wp_def aret_def afail_def alift_def)

lemma wp_effects [wp_simps]:
  "wp (emit ev) R r = R (Inr ()) (r\<lparr>ru_trace := snoc (ru_trace r) ev\<rparr>)"
  "wp (set_send_state s) R r = R (Inr ()) (r\<lparr>ru_state := s\<rparr>)"
  "wp (set_files f) R r = R (Inr ()) (r\<lparr>ru_files := f\<rparr>)"
  by (simp_all add: wp_def emit_def set_send_state_def set_files_def)

lemma wp_get_run [wp_simps]: "wp get_run R r = R (Inr r) r"
  by (simp add: wp_def get_run_def)

lemma wp_abind [wp_simps]:
  "wp (abind m f) R r = wp m (\<lambda>x r'. case x of Inl e \<Rightarrow> R (Inl e) r' | Inr y \<Rightarrow> wp (f y) R r') r"
  by (auto simp: wp_def abind_def split: option.split sum.split)

lemma wp_update_wallet: "(\<And>f. R (Inr ()) (r\<lparr>ru_files := f\<rparr>)) \<Longrightarrow> wp (update_wallet C io st g) R r"
proof -
  assume R: "\<And>f. R (Inr ()) (r\<lparr>ru_files := f\<rparr>)"
  from R [of "ru_files r"] have "R (Inr ()) r" by simp
  with R show ?thesis
    by (auto simp: update_wallet_def wp_simps split: sum.split prod.split bool.split)
qed

lemma wp_spend_ticket:
  "(\<And>f. R (Inr ()) (r\<lparr>ru_trace := snoc (ru_trace r) (SpentTicket tx), ru_files := f\<rparr>)) \<Longrightarrow> wp (spend_ticket C io rt p tx) R r"
  by (simp add: spend_ticket_def wp_simps wp_update_wallet)

lemma wp_release_ticket:
  "(\<And>f. R (Inr ()) (r\<lparr>ru_trace := snoc (ru_trace r) (ReleasedTicket), ru_files := f\<rparr>)) \<Longrightarrow> wp (release_ticket C io rt p) R r"
  by (simp add: release_ticket_def wp_simps wp_update_wallet)

lemma wp_retire:
  "(\<And>e. R (Inl e) r) \<Longrightarrow> (\<And>f. R (Inr ()) (r\<lparr>ru_files := f, ru_trace := snoc (ru_trace r) (Retired)\<rparr>)) \<Longrightarrow> wp (retire ok) R r"
  by (cases ok) (simp_all add: retire_def wp_simps)

lemma wp_save_state:
  "(\<And>e. R (Inl e) r) \<Longrightarrow> (\<And>f. R (Inr ()) (r\<lparr>ru_files := f, ru_trace := snoc (ru_trace r) (Saved (ru_state r))\<rparr>)) \<Longrightarrow> wp (save_state ok) R r"
  by (cases ok) (simp_all add: save_state_def wp_simps)

text \<open>What holds when a publish is over, however it ended.\<close>

definition finished :: "trace_spec \<Rightarrow> unit res \<Rightarrow> run \<Rightarrow> bool" where
  "finished S x r = (trace_ok S (ru_trace r) \<and> n_posts (ru_trace r) \<le> 12
     \<and> (x = Inr () \<longrightarrow> (\<exists>h s. Verdict h (Inr s) \<in> set (ru_trace r) \<and> is_accepted s \<and> SpentTicket (Some (felt_to_hex (ts_crates S) h)) \<in> set (ru_trace r))))"

lemma finished_Inl [simp]: "finished S (Inl e) r \<longleftrightarrow> trace_ok S (ru_trace r) \<and> n_posts (ru_trace r) \<le> 12"
  by (simp add: finished_def)

lemma await_and_finish_ok:
  assumes "trace_ok S (ru_trace r)" and "\<not> settled (ru_trace r)" and "n_posts (ru_trace r) \<le> 12" and "ts_crates S = C"
  shows "wp (await_and_finish C rt wd idx p h) (finished S) r"
proof (cases "await_acceptance (felt_to_hex C h) (wd_polls wd)")
  case None
  then show ?thesis by (simp add: await_and_finish_def wp_simps)
next
  case (Some v)
  show ?thesis
  proof (cases v)
    case (Inl e)
    show ?thesis
    proof (cases "\<exists>m x. e = Gateway (Reverted m x)")
      case True
      then show ?thesis using assms Some Inl
        by (auto simp: await_and_finish_def wp_simps finished_def intro!: wp_spend_ticket wp_retire)
    next
      case False
      then have "(case e of Gateway (Reverted _ _) \<Rightarrow> m | _ \<Rightarrow> afail e) = afail e" for m :: "unit act"
        by (auto split: err.split gateway_err.split)
      then show ?thesis using assms Some Inl
        by (simp add: await_and_finish_def wp_simps finished_def)
    qed
  next
    case (Inr st)
    then have acc: "is_accepted st" using await_Inr [of "felt_to_hex C h" "wd_polls wd" st] Some by auto
    show ?thesis using assms Some Inr acc
      by (cases "mark_done idx (Some (felt_to_hex C h), Some ''message published by the pool'') (ru_state r)";
          auto simp: await_and_finish_def Let_def wp_simps finished_def intro!: wp_spend_ticket wp_save_state)
        (use acc in blast)
  qed
qed

section \<open>The loop\<close>

text \<open>What holds when the loop starts an attempt at \<open>nonce\<close> with \<open>n\<close> attempts left.\<close>

definition loop_inv :: "trace_spec \<Rightarrow> pub_ctx \<Rightarrow> nat \<Rightarrow> felt \<Rightarrow> run \<Rightarrow> bool" where
  "loop_inv S K n nonce r =
     (trace_ok S (ru_trace r) \<and> \<not> settled (ru_trace r) \<and> n_posts (ru_trace r) + n \<le> 12
      \<and> ts_crates S = k_crates K
      \<and> (\<forall>tx h. loop_tx K nonce = Inr tx \<and> h \<in> posted (ts_saved S) (ru_trace r) \<longrightarrow> h = si_hash tx \<or> dropped_since h (ru_trace r))
      \<and> (case ts_target S of Some x \<Rightarrow> HeadReached x \<in> set (ru_trace r) | None \<Rightarrow> True)
      \<and> (\<exists>root. RootKnown root (Inr 1) \<in> set (ru_trace r))
      \<and> (\<forall>nc tx. loop_tx K nc = Inr tx \<longrightarrow> ts_tx S (si_hash tx) nc (k_bounds K))
      \<and> k_index K < length (steps (ru_state r)) \<and> step_kind (steps (ru_state r) ! k_index K) = Send_State.Publish)"

lemma dropped_since_now:
  "is_dropped s \<Longrightarrow> rpc_agrees_dropped a \<Longrightarrow>
     dropped_since h (snoc (snoc (snoc (snoc t (Posted h n b)) (Refusal h e)) (StatusRead h (Inr s))) (RpcAsked h a))"
  by (auto simp: dropped_since_def snoc_def Let_def)

text \<open>After recording and saving, the submission may go out.\<close>

lemma post_ok:
  assumes inv: "loop_inv S K (Suc k) nonce r" and tx: "loop_tx K nonce = Inr tx"
    and s: "s = (ru_state r)\<lparr>steps := (steps (ru_state r))[k_index K := (steps (ru_state r) ! k_index K)\<lparr>step_tx_hash := Some (felt_to_hex (k_crates K) (si_hash tx))\<rparr>],
       publish_nonce := Some (felt_to_hex (k_crates K) nonce), st_publish_bounds := Some (k_bounds K)\<rparr>"
    and t: "t = snoc (snoc (ru_trace r) (Saved s)) (Posted (si_hash tx) nonce (k_bounds K))"
  shows "trace_ok S t" and "\<not> settled t" and "n_posts t + k \<le> 12"
    and "\<And>h. h \<in> posted (ts_saved S) t \<Longrightarrow> h = si_hash tx \<or> dropped_since h t"
proof -
  have rec: "recorded (ts_crates S) s (si_hash tx) nonce (k_bounds K)"
    using inv by (auto simp: recorded_def s loop_inv_def set_update_memI intro!: bexI [OF _ set_update_memI])
  have old: "h = si_hash tx \<or> dropped_since h (snoc (ru_trace r) (Saved s))" if "h \<in> posted (ts_saved S) (ru_trace r)" for h
    using inv tx that dropped_since_snoc [of h "ru_trace r" "Saved s"] by (auto simp: loop_inv_def)
  then show "trace_ok S t"
    using inv tx rec by (auto simp: t loop_inv_def split: option.splits)
  show "\<not> settled t" and "n_posts t + k \<le> 12"
    using inv by (auto simp: t loop_inv_def)
  show "h = si_hash tx \<or> dropped_since h t" if "h \<in> posted (ts_saved S) t" for h
    using that old [of h] by (auto simp: t intro: dropped_since_snoc)
qed

text \<open>What holds right after a submission of \<open>tx\<close> was refused with \<open>e\<close>.\<close>

definition refused_inv :: "trace_spec \<Rightarrow> pub_ctx \<Rightarrow> nat \<Rightarrow> felt \<Rightarrow> felt \<Rightarrow> err \<Rightarrow> run \<Rightarrow> bool" where
  "refused_inv S K k h nonce e r =
     (\<exists>t0 s. ru_trace r = snoc (snoc (snoc t0 (Saved s)) (Posted h nonce (k_bounds K))) (Refusal h e)
      \<and> trace_ok S (ru_trace r) \<and> \<not> settled (ru_trace r) \<and> n_posts (ru_trace r) + k \<le> 12
      \<and> ts_crates S = k_crates K
      \<and> (\<exists>tx. loop_tx K nonce = Inr tx \<and> h = si_hash tx)
      \<and> (\<forall>h' \<in> posted (ts_saved S) (ru_trace r). h' = h \<or> dropped_since h' (ru_trace r))
      \<and> (case ts_target S of Some x \<Rightarrow> HeadReached x \<in> set t0 | None \<Rightarrow> True)
      \<and> (\<exists>root. RootKnown root (Inr 1) \<in> set t0)
      \<and> (\<forall>nc tx. loop_tx K nc = Inr tx \<longrightarrow> ts_tx S (si_hash tx) nc (k_bounds K))
      \<and> k_index K < length (steps (ru_state r)) \<and> step_kind (steps (ru_state r) ! k_index K) = Send_State.Publish)"

lemma refused_retry_same:
  assumes "refused_inv S K k h nonce e r"
  shows "loop_inv S K k nonce r"
  using assms unfolding refused_inv_def loop_inv_def by (auto split: option.splits)

lemma refused_retry_next:
  assumes r: "refused_inv S K k h nonce e r" and d: "is_dropped s" "rpc_agrees_dropped a"
    and t: "r' = r\<lparr>ru_trace := snoc (snoc (ru_trace r) (StatusRead h (Inr s))) (RpcAsked h a)\<rparr>"
  shows "loop_inv S K k nonce' r'"
proof -
  obtain t0 s0 where t0: "ru_trace r = snoc (snoc (snoc t0 (Saved s0)) (Posted h nonce (k_bounds K))) (Refusal h e)"
    using r unfolding refused_inv_def by blast
  have h: "dropped_since h (ru_trace r')"
    unfolding t t0 by (simp add: dropped_since_now [OF d])
  have "dropped_since h' (ru_trace r')" if "h' \<in> posted (ts_saved S) (ru_trace r)" for h'
  proof (cases "h' = h")
    case True
    then show ?thesis using h by simp
  next
    case False
    then have "dropped_since h' (ru_trace r)" using r that unfolding refused_inv_def by blast
    then show ?thesis unfolding t by (auto intro!: dropped_since_snoc)
  qed
  then show ?thesis
    using r unfolding refused_inv_def loop_inv_def by (auto simp: t split: option.splits)
qed

lemma on_refusal_ok:
  assumes r: "refused_inv S K k h nonce e r" and last: "k = 0 \<Longrightarrow> is_last"
    and retry: "\<And>nc r'. loop_inv S K k nc r' \<Longrightarrow> wp (retry nc) (finished S) r'"
  shows "wp (on_refusal K attempt is_last h nonce retry e) (finished S) r"
proof -
  have fin: "finished S (Inl x) r" for x
    using r unfolding refused_inv_def finished_def by auto
  have ok: "trace_ok S (ru_trace r)" "\<not> settled (ru_trace r)" "n_posts (ru_trace r) \<le> 12" "ts_crates S = k_crates K"
    using r unfolding refused_inv_def by auto
  obtain t0 where t0: "ru_trace r = snoc t0 (Refusal h e)" using r unfolding refused_inv_def by blast
  show ?thesis
  proof (cases "\<exists>code msg. e = Gateway (Rejected code msg)")
    case False
    then have "on_refusal K attempt is_last h nonce retry e = afail e"
      by (auto simp: on_refusal_def Let_def split: err.split gateway_err.split)
    then show ?thesis using fin by (simp add: wp_simps)
  next
    case True
    then obtain code msg where e: "e = Gateway (Rejected code msg)" by blast
    let ?g = "Rejected code msg"
    consider (recent) "\<not> is_last" "too_recent ?g"
      | (spent) "is_last \<or> \<not> too_recent ?g" "refused_with (k_crates K) ''ticket spent'' ?g"
      | (final) "is_last \<or> \<not> too_recent ?g" "\<not> refused_with (k_crates K) ''ticket spent'' ?g"
          "list_ex (\<lambda>reason. refused_with (k_crates K) reason ?g) FINAL_REFUSALS"
      | (nonce) "is_last \<or> \<not> too_recent ?g" "\<not> refused_with (k_crates K) ''ticket spent'' ?g"
          "\<not> list_ex (\<lambda>reason. refused_with (k_crates K) reason ?g) FINAL_REFUSALS" "\<not> is_last" "is_nonce_rejection ?g"
      | (other) "is_last \<or> \<not> too_recent ?g" "\<not> refused_with (k_crates K) ''ticket spent'' ?g"
          "\<not> list_ex (\<lambda>reason. refused_with (k_crates K) reason ?g) FINAL_REFUSALS" "is_last \<or> \<not> is_nonce_rejection ?g"
      by blast
    then show ?thesis
    proof cases
      case recent
      then show ?thesis using retry [OF refused_retry_same [OF r]] by (simp add: on_refusal_def Let_def e)
    next
      case spent
      then have "\<not> (\<not> is_last \<and> too_recent ?g)" by blast
      then show ?thesis using spent(2) ok fin t0
        by (auto simp: on_refusal_def Let_def e wp_simps finished_def intro!: wp_spend_ticket wp_retire)
    next
      case final
      then have "\<not> (\<not> is_last \<and> too_recent ?g)" by blast
      then show ?thesis using final(2,3) ok fin t0
        by (auto simp: on_refusal_def Let_def e wp_simps finished_def intro!: wp_release_ticket wp_retire)
    next
      case nonce
      then show ?thesis
      proof (cases "wd_status (k_world K) attempt")
        case (Inl x)
        then show ?thesis using nonce ok by (simp add: on_refusal_def Let_def e wp_simps read_status_def finished_def)
      next
        case (Inr s)
        show ?thesis
        proof (cases "is_dropped s \<and> rpc_agrees_dropped (wd_rpc_status (k_world K) attempt)")
          case True
          then show ?thesis
            using nonce ok Inr retry [OF refused_retry_next [OF r, of s "wd_rpc_status (k_world K) attempt"]]
            by (cases "wd_pool_nonce (k_world K) attempt")
              (simp_all add: on_refusal_def Let_def e wp_simps read_status_def really_dropped_def finished_def)
        next
          case False
          then show ?thesis
            using nonce ok Inr
            by (auto simp: on_refusal_def Let_def e wp_simps read_status_def really_dropped_def intro!: await_and_finish_ok)
        qed
      qed
    next
      case other
      then show ?thesis using fin by (auto simp: on_refusal_def Let_def e wp_simps)
    qed
  qed
qed

text \<open>The state with the submission of \<open>tx\<close> at \<open>nonce\<close> recorded.\<close>

definition recorded_state :: "pub_ctx \<Rightarrow> felt \<Rightarrow> felt \<Rightarrow> send_state \<Rightarrow> send_state" where
  "recorded_state K h nonce st =
     st\<lparr>steps := (steps st)[k_index K := (steps st ! k_index K)\<lparr>step_tx_hash := Some (felt_to_hex (k_crates K) h)\<rparr>],
        publish_nonce := Some (felt_to_hex (k_crates K) nonce), st_publish_bounds := Some (k_bounds K)\<rparr>"

lemma wp_record_and_save:
  assumes "k_index K < length (steps (ru_state r))"
    and "\<And>e. R (Inl e) (r\<lparr>ru_state := recorded_state K h nonce (ru_state r)\<rparr>)"
    and "\<And>f. R (Inr ()) (r\<lparr>ru_state := recorded_state K h nonce (ru_state r), ru_files := f,
                ru_trace := snoc (ru_trace r) (Saved (recorded_state K h nonce (ru_state r)))\<rparr>)"
  shows "wp (record_and_save K attempt h nonce) R r"
  using assms
  by (auto simp: record_and_save_def Let_def wp_simps record_submission_def recorded_state_def intro!: wp_save_state)

lemma post_refused:
  assumes inv: "loop_inv S K (Suc k) nonce r" and tx: "loop_tx K nonce = Inr tx"
    and s: "s = recorded_state K (si_hash tx) nonce (ru_state r)"
    and r': "r' = r\<lparr>ru_state := s, ru_files := f, ru_trace := snoc (snoc (snoc (ru_trace r) (Saved s)) (Posted (si_hash tx) nonce (k_bounds K))) (Refusal (si_hash tx) e)\<rparr>"
  shows "refused_inv S K k (si_hash tx) nonce e r'"
proof -
  let ?t = "snoc (snoc (ru_trace r) (Saved s)) (Posted (si_hash tx) nonce (k_bounds K))"
  note p = post_ok [OF inv tx s [unfolded recorded_state_def] refl]
  have tr: "ru_trace r' = snoc ?t (Refusal (si_hash tx) e)" and st: "ru_state r' = s"
    by (simp_all add: r')
  have "h' = si_hash tx \<or> dropped_since h' (snoc ?t (Refusal (si_hash tx) e))"
    if "h' \<in> posted (ts_saved S) (snoc ?t (Refusal (si_hash tx) e))" for h'
    using that p(4) [of h'] by (auto intro: dropped_since_snoc)
  moreover have "k_index K < length (steps s)" and "step_kind (steps s ! k_index K) = Send_State.Publish"
    using inv by (simp_all add: s recorded_state_def loop_inv_def)
  moreover have "trace_ok S (snoc ?t (Refusal (si_hash tx) e))" "\<not> settled (snoc ?t (Refusal (si_hash tx) e))"
    "n_posts (snoc ?t (Refusal (si_hash tx) e)) + k \<le> 12"
    using p(1-3) by simp_all
  ultimately show ?thesis
    unfolding refused_inv_def tr st
    by (intro exI [of _ "ru_trace r"] exI [of _ s]) (use inv tx in \<open>auto simp: loop_inv_def split: option.splits\<close>)
qed

lemma publish_loop_ok: "loop_inv S K n nonce r \<Longrightarrow> wp (publish_loop K n nonce) (finished S) r"
proof (induction n arbitrary: nonce r)
  case 0
  then show ?case by (auto simp: wp_simps finished_def loop_inv_def)
next
  case (Suc k)
  note inv = Suc.prems
  have base: "trace_ok S (ru_trace r)" "n_posts (ru_trace r) \<le> 12" "k_index K < length (steps (ru_state r))" "ts_crates S = k_crates K"
    using inv by (auto simp: loop_inv_def)
  show ?case
  proof (cases "loop_tx K nonce")
    case (Inl e)
    then show ?thesis using base by (simp add: Let_def wp_simps finished_def)
  next
    case (Inr tx)
    define s where "s = recorded_state K (si_hash tx) nonce (ru_state r)"
    note p = post_ok [OF inv Inr s_def [unfolded recorded_state_def] refl]
    define rp where "rp f = r\<lparr>ru_state := s, ru_files := f,
        ru_trace := snoc (snoc (ru_trace r) (Saved s)) (Posted (si_hash tx) nonce (k_bounds K))\<rparr>" for f
    have go: "wp (case submit (k_crates K) (wd_text_of (k_world K)) (gw_via_rpc (k_gateway K)) (wd_reply (k_world K) (PUBLISH_ATTEMPTS - Suc k)) (si_hash tx) of
           Inr _ \<Rightarrow>
             abind (emit (Shown (TxSubmitted Send_State.Publish (felt_to_hex (k_crates K) (si_hash tx))))) (\<lambda>_.
             await_and_finish (k_crates K) (k_route K) (k_world K) (k_index K) (k_public K) (si_hash tx))
         | Inl e \<Rightarrow>
             abind (emit (Refusal (si_hash tx) e)) (\<lambda>_.
             on_refusal K (PUBLISH_ATTEMPTS - Suc k) (k = 0) (si_hash tx) nonce (\<lambda>n. publish_loop K k n) e)) (finished S) (rp f)" for f
    proof (cases "submit (k_crates K) (wd_text_of (k_world K)) (gw_via_rpc (k_gateway K)) (wd_reply (k_world K) (PUBLISH_ATTEMPTS - Suc k)) (si_hash tx)")
      case (Inl e)
      have "refused_inv S K k (si_hash tx) nonce e ((rp f)\<lparr>ru_trace := snoc (ru_trace (rp f)) (Refusal (si_hash tx) e)\<rparr>)"
        by (rule post_refused [OF inv Inr s_def, where f = f and e = e]) (simp add: rp_def)
      from on_refusal_ok [OF this _ Suc.IH] Inl show ?thesis by (simp add: wp_simps)
    next
      case (Inr u)
      have "wp (await_and_finish (k_crates K) (k_route K) (k_world K) (k_index K) (k_public K) (si_hash tx)) (finished S)
          ((rp f)\<lparr>ru_trace := snoc (ru_trace (rp f)) (Shown (TxSubmitted Send_State.Publish (felt_to_hex (k_crates K) (si_hash tx))))\<rparr>)"
        by (rule await_and_finish_ok) (use p base in \<open>simp_all add: rp_def\<close>)
      then show ?thesis using Inr by (simp add: wp_simps)
    qed
    then show ?thesis
      using base Inr
      by (auto simp: Let_def wp_simps rp_def s_def intro!: wp_record_and_save)
  qed
qed

section \<open>A whole publish\<close>

text \<open>The transaction a publish of this state may send: the saved proof's facts attest exactly
  the state's public tuple on its base block, and the call is that tuple with the content.\<close>

definition proven_tx :: "crates \<Rightarrow> route \<Rightarrow> gateway \<Rightarrow> run \<Rightarrow> felt \<Rightarrow> felt \<Rightarrow> fee_bounds \<Rightarrow> bool" where
  "proven_tx C rt gw r0 h n b =
     (\<exists>cont p vp facts base cd tx.
        hex_decode C (ciphertext_hex (ru_state r0)) = Some cont
        \<and> public_from_state C (r_store rt) (ru_state r0) cont = Inr p
        \<and> f_proof (ru_files r0) = Some vp \<and> proof_facts_of C vp = Inr facts
        \<and> st_base_block (ru_state r0) = Some base
        \<and> check_facts facts (message_hash C p (r_prover rt)) base = Inr ()
        \<and> send_message_calldata_v4 C p cont = Inr cd
        \<and> unsigned_invoke C (gw_chain_id gw) (r_store rt) [call_new C (r_store rt) ''send_message'' cd] n b TIP
             (Some \<lparr>att_proof = vp_proof vp, att_facts = facts\<rparr>) = Inr tx
        \<and> h = si_hash tx)"

definition saved_hash :: "crates \<Rightarrow> send_state \<Rightarrow> felt option" where
  "saved_hash C st =
     Option.bind (position (\<lambda>s. step_kind s = Send_State.Publish) (steps st)) (\<lambda>i.
     Option.bind (step_tx_hash (steps st ! i)) (\<lambda>x. ok_opt (felt_from_hex C x)))"

definition publish_spec :: "crates \<Rightarrow> route \<Rightarrow> gateway \<Rightarrow> run \<Rightarrow> trace_spec" where
  "publish_spec C rt gw r0 =
     \<lparr>ts_crates = C, ts_saved = saved_hash C (ru_state r0), ts_target = publish_after_block (ru_state r0),
      ts_tx = proven_tx C rt gw r0\<rparr>"

lemma shown_append:
  "trace_ok S (t @ map Shown evs) = trace_ok S t" "settled (t @ map Shown evs) = settled t"
  "n_posts (t @ map Shown evs) = n_posts t" "posted hs (t @ map Shown evs) = posted hs t"
  "dropped_since h t \<Longrightarrow> dropped_since h (t @ map Shown evs)"
proof (induction evs rule: rev_induct)
  case (snoc ev evs)
  have e: "t @ map Shown (evs @ [ev]) = Publish.snoc (t @ map Shown evs) (Shown ev)" by (simp add: snoc_def)
  {
    case 1 show ?case unfolding e using snoc.IH(1) by simp
  next
    case 2 show ?case unfolding e using snoc.IH(2) by simp
  next
    case 3 show ?case unfolding e using snoc.IH(3) by simp
  next
    case 4 show ?case unfolding e using snoc.IH(4) by simp
  next
    case 5 show ?case unfolding e using snoc.IH(5) 5 by (intro dropped_since_snoc) simp_all
  }
qed simp_all

text \<open>Before the loop: nothing sent in this run, and a recorded hash is dropped for sure.\<close>

definition fresh_inv :: "trace_spec \<Rightarrow> run \<Rightarrow> bool" where
  "fresh_inv S r = (trace_ok S (ru_trace r) \<and> \<not> settled (ru_trace r) \<and> n_posts (ru_trace r) = 0
     \<and> (\<forall>h \<in> posted (ts_saved S) (ru_trace r). dropped_since h (ru_trace r)))"

lemma fresh_inv_shown: "fresh_inv S r \<Longrightarrow> fresh_inv S (r\<lparr>ru_trace := ru_trace r @ map Shown evs\<rparr>)"
  by (simp add: fresh_inv_def shown_append)

lemma fresh_inv_snoc:
  "fresh_inv S r \<Longrightarrow> ok_next S (ru_trace r) e \<Longrightarrow> \<not> any_post e \<Longrightarrow>
     \<not> (case e of SpentTicket _ \<Rightarrow> True | ReleasedTicket \<Rightarrow> True | _ \<Rightarrow> False) \<Longrightarrow>
     fresh_inv S (r\<lparr>ru_trace := snoc (ru_trace r) e\<rparr>)"
  by (cases e) (auto simp: fresh_inv_def intro: dropped_since_snoc)

lemma fresh_inv_finished: "fresh_inv S r \<Longrightarrow> finished S (Inl e) r"
  by (simp add: fresh_inv_def finished_def)

lemma wp_wait:
  assumes inv: "fresh_inv S r"
    and go: "\<And>r'. fresh_inv S r' \<Longrightarrow> ru_state r' = ru_state r \<Longrightarrow> ru_files r' = ru_files r \<Longrightarrow>
      (case target of Some x \<Rightarrow> HeadReached x \<in> set (ru_trace r') | None \<Rightarrow> True) \<Longrightarrow> wp (f ()) (finished S) r'"
  shows "wp (abind (case target of
              None \<Rightarrow> aret ()
            | Some target \<Rightarrow>
                (case wait_for_head target False heads of
                   None \<Rightarrow> (\<lambda>r. None)
                 | Some (evs, res) \<Rightarrow>
                     abind (\<lambda>r. Some (r\<lparr>ru_trace := ru_trace r @ map Shown evs\<rparr>, res)) (\<lambda>_. emit (HeadReached target)))) f) (finished S) r"
proof (cases target)
  case None
  then show ?thesis using go [of r] inv by (simp add: wp_simps)
next
  case (Some x)
  show ?thesis
  proof (cases "wait_for_head x False heads")
    case None
    then show ?thesis using Some by (simp add: wp_simps)
  next
    case w: (Some er)
    obtain evs res where er: "er = (evs, res)" by (cases er)
    define r1 where "r1 = r\<lparr>ru_trace := ru_trace r @ map Shown evs\<rparr>"
    have i1: "fresh_inv S r1" unfolding r1_def by (rule fresh_inv_shown [OF inv])
    have i2: "fresh_inv S (r1\<lparr>ru_trace := snoc (ru_trace r1) (HeadReached x)\<rparr>)" by (rule fresh_inv_snoc [OF i1]) simp_all
    have raw: "wp (\<lambda>r. Some (r\<lparr>ru_trace := ru_trace r @ map Shown evs\<rparr>, res)) R r = R res r1" for R
      by (simp add: wp_def r1_def)
    show ?thesis
    proof (cases res)
      case (Inl e)
      then show ?thesis using Some w er fresh_inv_finished [OF i1] raw by (simp add: wp_simps)
    next
      case (Inr u)
      have "wp (f ()) (finished S) (r1\<lparr>ru_trace := snoc (ru_trace r1) (HeadReached x)\<rparr>)"
        by (rule go [OF i2]) (simp_all add: r1_def Some)
      then show ?thesis using Some w er Inr raw by (simp add: wp_simps)
    qed
  qed
qed

text \<open>The loop starts from what was checked: the head, the root and the proof.\<close>

lemma fresh_loop_inv:
  assumes inv: "fresh_inv S r" and S: "S = publish_spec C rt gw r0"
    and head: "case publish_after_block (ru_state r0) of Some x \<Rightarrow> HeadReached x \<in> set (ru_trace r) | None \<Rightarrow> True"
    and root: "RootKnown root (Inr 1) \<in> set (ru_trace r)"
    and st: "ru_state r = ru_state r0" and fs: "ru_files r = ru_files r0"
    and idx: "position (\<lambda>s. step_kind s = Send_State.Publish) (steps (ru_state r0)) = Some idx"
    and cont: "hex_decode C (ciphertext_hex (ru_state r0)) = Some cont"
    and p: "public_from_state C (r_store rt) (ru_state r0) cont = Inr p"
    and vp: "f_proof (ru_files r0) = Some vp" and facts: "proof_facts_of C vp = Inr facts"
    and base: "st_base_block (ru_state r0) = Some base" "check_facts facts (message_hash C p (r_prover rt)) base = Inr ()"
    and cd: "send_message_calldata_v4 C p cont = Inr cd"
    and K: "K = \<lparr>k_crates = C, k_route = rt, k_gateway = gw, k_world = wd, k_index = idx, k_public = p,
             k_call = call_new C (r_store rt) ''send_message'' cd,
             k_att = \<lparr>att_proof = vp_proof vp, att_facts = facts\<rparr>, k_bounds = b\<rparr>"
  shows "loop_inv S K 12 nonce r"
proof -
  have tx: "proven_tx C rt gw r0 (si_hash tx) nc b" if "loop_tx K nc = Inr tx" for nc tx
    unfolding proven_tx_def
    using that cont p vp facts base cd
    by (intro exI [of _ cont] exI [of _ p] exI [of _ vp] exI [of _ facts] exI [of _ base] exI [of _ cd] exI [of _ tx])
      (simp add: loop_tx_def K)
  from idx have "idx < length (steps (ru_state r0))" "step_kind (steps (ru_state r0) ! idx) = Send_State.Publish"
    by (simp_all add: position_Some)
  then show ?thesis
    using inv head root st tx unfolding loop_inv_def fresh_inv_def
    by (auto simp: S publish_spec_def K)
qed

lemma publish_fresh_ok:
  assumes inv: "fresh_inv S r" and S: "S = publish_spec C rt gw r0"
    and st: "ru_state r = ru_state r0" and fs: "ru_files r = ru_files r0"
    and idx: "position (\<lambda>s. step_kind s = Send_State.Publish) (steps (ru_state r0)) = Some idx"
    and cont: "hex_decode C (ciphertext_hex (ru_state r0)) = Some cont"
    and p: "public_from_state C (r_store rt) (ru_state r0) cont = Inr p"
  shows "wp (publish_fresh C rt gw wd idx p cont) (finished S) r"
  unfolding publish_fresh_def wp_abind [of get_run] wp_get_run sum.case
proof (rule wp_wait [OF inv])
  fix r1
  assume i1: "fresh_inv S r1" and s1: "ru_state r1 = ru_state r" and f1: "ru_files r1 = ru_files r"
    and h1: "case publish_after_block (ru_state r) of Some x \<Rightarrow> HeadReached x \<in> set (ru_trace r1) | None \<Rightarrow> True"
  define known where "known = store_felt C (r_store rt) (wd_rpc wd) ''is_known_root'' [p_root p] None"
  define r2 where "r2 = r1\<lparr>ru_trace := snoc (ru_trace r1) (RootKnown (p_root p) known)\<rparr>"
  have i2: "fresh_inv S r2" unfolding r2_def by (rule fresh_inv_snoc [OF i1]) simp_all
  have fin: "trace_ok S (ru_trace r2) \<and> n_posts (ru_trace r2) \<le> 12"
    using fresh_inv_finished [OF i2] by simp
  let ?rest = "\<lambda>known. if known \<noteq> 1 then
          abind (release_ticket C (wd_wallet_io wd) rt p) (\<lambda>_.
          abind (retire (wd_retire wd)) (\<lambda>_. afail (Policy BadPath)))
        else
          abind (alift (of_opt (File Missing) (f_proof (ru_files r)))) (\<lambda>vp.
          abind (alift (proof_facts_of C vp)) (\<lambda>facts.
          abind (alift (rbind (of_opt (File Missing) (st_base_block (ru_state r)))
                   (check_facts facts (message_hash C p (r_prover rt))))) (\<lambda>_.
          abind (alift (send_message_calldata_v4 C p cont)) (\<lambda>cd.
          abind (alift (case (publish_nonce (ru_state r), st_publish_bounds (ru_state r)) of
                          (Some n, Some b) \<Rightarrow> rbind (felt_from_hex C n) (\<lambda>n. Inr (n, b))
                        | _ \<Rightarrow> publish_inputs C rt (wd_rpc wd))) (\<lambda>(nonce, b).
          publish_loop
            \<lparr>k_crates = C, k_route = rt, k_gateway = gw, k_world = wd, k_index = idx, k_public = p,
             k_call = call_new C (r_store rt) ''send_message'' cd,
             k_att = \<lparr>att_proof = vp_proof vp, att_facts = facts\<rparr>, k_bounds = b\<rparr>
            PUBLISH_ATTEMPTS nonce)))))"
  have "wp (?rest x) (finished S) r2" if known: "known = Inr x" for x
  proof (cases "x = 1")
    case False
    then show ?thesis using fin i2 known
      by (auto simp: wp_simps r2_def fresh_inv_def intro!: wp_release_ticket wp_retire)
  next
    case True
    have loop: "wp (publish_loop K PUBLISH_ATTEMPTS nonce) (finished S) r2"
      if "f_proof (ru_files r) = Some vp" "proof_facts_of C vp = Inr facts" "st_base_block (ru_state r) = Some base"
        "check_facts facts (message_hash C p (r_prover rt)) base = Inr ()" "send_message_calldata_v4 C p cont = Inr cd"
        "K = \<lparr>k_crates = C, k_route = rt, k_gateway = gw, k_world = wd, k_index = idx, k_public = p,
             k_call = call_new C (r_store rt) ''send_message'' cd,
             k_att = \<lparr>att_proof = vp_proof vp, att_facts = facts\<rparr>, k_bounds = b\<rparr>" for vp facts base cd K nonce b
      unfolding PUBLISH_ATTEMPTS_def
      by (rule publish_loop_ok, rule fresh_loop_inv [OF i2 S _ _ _ _ idx cont p _ _ _ _ _ that(6)])
        (use that h1 s1 f1 st fs known True in \<open>auto simp: r2_def split: option.splits\<close>)
    show ?thesis
      using True fin loop
      by (auto simp: wp_simps of_opt_def rbind_def split: sum.split option.split)
  qed
  then have "case known of Inl e \<Rightarrow> finished S (Inl e) r2 | Inr y \<Rightarrow> wp (?rest y) (finished S) r2"
    using fin by (cases known) (simp_all only: sum.case finished_Inl)
  then show "wp (let known = store_felt C (r_store rt) (wd_rpc wd) ''is_known_root'' [p_root p] None
        in abind (emit (RootKnown (p_root p) known)) (\<lambda>_. abind (alift known) ?rest)) (finished S) r1"
    by (simp only: Let_def wp_abind wp_effects wp_values sum.case known_def [symmetric] r2_def [symmetric])
qed

text \<open>Every run of a publish, started on an empty trace, keeps the specification.\<close>

lemma publish_ok:
  assumes r: "ru_trace r0 = []" and S: "S = publish_spec C rt gw r0"
  shows "wp (publish C rt gw wd) (finished S) r0"
proof (cases "position (\<lambda>s. step_kind s = Send_State.Publish) (steps (ru_state r0))")
  case None
  then show ?thesis by (simp add: publish_def wp_simps r n_posts_def of_opt_def)
next
  case (Some idx)
  define r1 where "r1 = r0\<lparr>ru_trace := snoc [] (Shown (StepStarted idx (length (steps (ru_state r0))) Send_State.Publish))\<rparr>"
  have fin: "trace_ok S (ru_trace r1)" "n_posts (ru_trace r1) \<le> 12" "\<not> settled (ru_trace r1)"
    by (simp_all add: r1_def n_posts_def snoc_def trace_ok_def settled_def)
  have z: "n_posts (ru_trace r1) = 0" "posted hs (ru_trace r1) = set_option hs" for hs
    by (simp_all add: r1_def n_posts_def snoc_def posted_def)
  have r1: "ru_state r1 = ru_state r0" "ru_files r1 = ru_files r0"
    by (simp_all add: r1_def)
  have rest: "wp (case step_tx_hash (steps (ru_state r0) ! idx) of
       None \<Rightarrow> publish_fresh C rt gw wd idx p cont
     | Some saved \<Rightarrow>
         abind (alift (felt_from_hex C saved)) (\<lambda>hash.
         abind (read_status hash (wd_saved_status wd)) (\<lambda>s.
         if is_reverted s then
           abind (spend_ticket C (wd_wallet_io wd) rt p (Some saved)) (\<lambda>_.
           abind (retire (wd_retire wd)) (\<lambda>_.
           afail (Gateway (Reverted saved (case revert_reason s of Some x \<Rightarrow> x | None \<Rightarrow> ''no reason'')))))
         else
           abind (really_dropped hash s (wd_saved_rpc wd)) (\<lambda>dropped.
           if \<not> dropped then await_and_finish C rt wd idx p hash
           else publish_fresh C rt gw wd idx p cont)))) (finished S) r1"
    if cont: "hex_decode C (ciphertext_hex (ru_state r0)) = Some cont"
      and p: "public_from_state C (r_store rt) (ru_state r0) cont = Inr p" for p cont
  proof (cases "step_tx_hash (steps (ru_state r0) ! idx)")
    case None
    have "ts_saved S = None" using Some None by (simp add: S publish_spec_def saved_hash_def)
    then have "fresh_inv S r1" by (simp add: fresh_inv_def fin z)
    then show ?thesis using None publish_fresh_ok [OF _ S r1 Some cont p] by simp
  next
    case saved: (Some saved)
    show ?thesis
    proof (cases "felt_from_hex C saved")
      case (Inl e)
      then show ?thesis using fin saved by (simp add: wp_simps)
    next
      case (Inr hash)
      have h: "felt_of_hex C saved = Some hash" using Inr by (auto simp: felt_from_hex_def of_opt_def split: option.splits)
      have ts: "ts_saved S = Some hash" using Some saved Inr by (simp add: S publish_spec_def saved_hash_def)
      show ?thesis
      proof (cases "wd_saved_status wd")
        case st: (Inl e)
        then show ?thesis using fin saved Inr by (simp add: wp_simps read_status_def)
      next
        case st: (Inr s)
        define r2 where "r2 = r1\<lparr>ru_trace := snoc (ru_trace r1) (StatusRead hash (Inr s))\<rparr>"
        define r3 where "r3 = r2\<lparr>ru_trace := snoc (ru_trace r2) (RpcAsked hash (wd_saved_rpc wd))\<rparr>"
        have wait: "wp (await_and_finish C rt wd idx p hash) (finished S) r" if "r = r2 \<or> r = r3" for r
          by (rule await_and_finish_ok) (use that fin in \<open>auto simp: r2_def r3_def S publish_spec_def\<close>)
        have fresh: "wp (publish_fresh C rt gw wd idx p cont) (finished S) r3"
          if "is_dropped s" "rpc_agrees_dropped (wd_saved_rpc wd)"
        proof (rule publish_fresh_ok [OF _ S _ _ Some cont p])
          have "dropped_since hash (snoc (snoc t (StatusRead hash (Inr s))) (RpcAsked hash (wd_saved_rpc wd)))" for t
            using that by (auto simp: dropped_since_def snoc_def Let_def)
          then show "fresh_inv S r3" using fin ts by (simp add: fresh_inv_def r3_def r2_def z)
        qed (simp_all add: r3_def r2_def r1)
        show ?thesis
        proof (cases "is_reverted s")
          case True
          then show ?thesis using fin saved Inr st h
            by (auto simp: wp_simps read_status_def S publish_spec_def intro!: wp_spend_ticket wp_retire)
        next
          case False
          then show ?thesis
            using saved Inr st wait fresh
            by (simp add: wp_simps read_status_def really_dropped_def flip: r2_def r3_def)
        qed
      qed
    qed
  qed
  show ?thesis
  proof (cases "hex_decode C (ciphertext_hex (ru_state r0))")
    case None
    then show ?thesis using fin Some
      by (simp add: publish_def wp_simps of_opt_def r flip: r1_def)
  next
    case cont: (Some cont)
    show ?thesis
    proof (cases "public_from_state C (r_store rt) (ru_state r0) cont")
      case (Inl e)
      then show ?thesis using fin Some cont
        by (simp add: publish_def wp_simps of_opt_def r flip: r1_def)
    next
      case (Inr p)
      then show ?thesis using Some cont rest [OF cont Inr]
        by (simp add: publish_def wp_simps of_opt_def r flip: r1_def)
    qed
  qed
qed

end
