(* ===== verification/Send_Safety.thy ===== *)
theory Send_Safety
  imports Publish
begin

text \<open>
  What a publish guarantees, however the node, the gateway, the files and the clock answer: the
  properties read off the trace that \<open>publish_ok\<close> shows every run to leave, and that a publish
  returns whenever the waits it makes end. A run is evaluated at the end of the demonstration:
  a recorded transaction is dropped, the recorded nonce is refused once, the next is accepted.
\<close>

section \<open>Reading the trace\<close>

lemma publish_trace:
  assumes "ru_trace r0 = []" and "publish C rt gw wd r0 = Some (r, x)"
  shows "finished (publish_spec C rt gw r0) x r"
  using publish_ok [OF assms(1) refl, where rt = rt and gw = gw and C = C and wd = wd] assms(2) by (simp add: wp_def)

lemma publish_step:
  assumes "ru_trace r0 = []" and "publish C rt gw wd r0 = Some (r, x)" and "i < length (ru_trace r)"
  shows "ok_next (publish_spec C rt gw r0) (take i (ru_trace r)) (ru_trace r ! i)"
  using publish_trace [OF assms(1,2)] assms(3) by (simp add: finished_def trace_ok_def)

lemma last_take: "take i t \<noteq> [] \<Longrightarrow> i \<le> length t \<Longrightarrow> 0 < i \<and> last (take i t) = t ! (i - 1)"
  by (cases i) (auto simp: take_Suc_conv_app_nth)

lemma publish_spec_simps [simp]:
  "ts_crates (publish_spec C rt gw r0) = C" "ts_saved (publish_spec C rt gw r0) = saved_hash C (ru_state r0)"
  "ts_target (publish_spec C rt gw r0) = publish_after_block (ru_state r0)" "ts_tx (publish_spec C rt gw r0) = proven_tx C rt gw r0"
  by (simp_all add: publish_spec_def)

definition settlement :: "effect \<Rightarrow> bool" where
  "settlement e = (case e of SpentTicket _ \<Rightarrow> True | ReleasedTicket \<Rightarrow> True | _ \<Rightarrow> False)"

lemma settled_settlement: "settled t \<longleftrightarrow> (\<exists>e \<in> set t. settlement e)"
  by (simp add: settled_def settlement_def)

section \<open>A publish returns\<close>

definition returns :: "'a act \<Rightarrow> bool" where
  "returns m = (\<forall>r. m r \<noteq> None)"

named_theorems returns_intros \<open>actions that return\<close>

lemma returns_basic [returns_intros]:
  "returns (aret x)" "returns (afail e)" "returns (alift y)" "returns (emit ev)" "returns get_run" "returns (set_send_state s)" "returns (set_files f)"
  by (simp_all add: returns_def aret_def afail_def alift_def emit_def get_run_def set_send_state_def set_files_def)

lemma returns_abind [returns_intros]: "returns m \<Longrightarrow> (\<And>x. returns (f x)) \<Longrightarrow> returns (abind m f)"
  by (auto simp: returns_def abind_def split: option.splits sum.splits)

lemma returns_split [returns_intros]:
  "(b \<Longrightarrow> returns m) \<Longrightarrow> (\<not> b \<Longrightarrow> returns m') \<Longrightarrow> returns (if b then m else m')"
  "(\<And>e. returns (g e)) \<Longrightarrow> (\<And>y. returns (h y)) \<Longrightarrow> returns (case s of Inl e \<Rightarrow> g e | Inr y \<Rightarrow> h y)"
  "(q = None \<Longrightarrow> returns m) \<Longrightarrow> (\<And>y. q = Some y \<Longrightarrow> returns (k y)) \<Longrightarrow> returns (case q of None \<Rightarrow> m | Some y \<Rightarrow> k y)"
  "(\<And>y z. returns (l y z)) \<Longrightarrow> returns (case p of (y, z) \<Rightarrow> l y z)"
  by (auto split: sum.split option.split prod.split)

lemma returns_bookkeeping [returns_intros]:
  "returns (save_state ok)" "returns (spend_ticket C io rt p tx)" "returns (release_ticket C io rt p)" "returns (retire ok)"
  "returns (read_status h s)" "returns (really_dropped h st a)"
proof -
  have "returns (update_wallet C io st f)" for C io st f
    unfolding update_wallet_def by (intro returns_intros) (auto split: bool.split prod.split intro!: returns_intros)
  then show "returns (spend_ticket C io rt p tx)" "returns (release_ticket C io rt p)"
    by (auto simp: spend_ticket_def release_ticket_def intro!: returns_intros)
qed (auto simp: save_state_def retire_def read_status_def really_dropped_def intro!: returns_intros)

lemma returns_await:
  assumes "await_acceptance (felt_to_hex C h) (wd_polls wd) \<noteq> None"
  shows "returns (await_and_finish C rt wd idx p h)"
  using assms
  by (auto simp: await_and_finish_def Let_def split: err.split gateway_err.split intro!: returns_intros)

lemma returns_refusal:
  assumes "\<And>n. returns (retry n)" and "\<And>h. await_acceptance (felt_to_hex (k_crates K) h) (wd_polls (k_world K)) \<noteq> None"
  shows "returns (on_refusal K a is_last h nonce retry e)"
  using assms
  by (auto simp: on_refusal_def Let_def split: err.split gateway_err.split intro!: returns_intros returns_await)

lemma returns_loop:
  assumes "\<And>h. await_acceptance (felt_to_hex (k_crates K) h) (wd_polls (k_world K)) \<noteq> None"
  shows "returns (publish_loop K n nonce)"
proof (induction n arbitrary: nonce)
  case (Suc n)
  show ?case
    using assms
    by (auto simp: Let_def record_and_save_def intro!: returns_intros returns_await returns_refusal Suc.IH split: sum.split)
qed (auto intro: returns_intros)

lemma returns_fresh:
  assumes acc: "\<And>h. await_acceptance (felt_to_hex C h) (wd_polls wd) \<noteq> None"
    and head: "\<And>x. publish_after_block (ru_state r) = Some x \<Longrightarrow> wait_for_head x False (wd_heads wd) \<noteq> None"
  shows "publish_fresh C rt gw wd idx p cont r \<noteq> None"
proof -
  have raw: "returns (\<lambda>r. Some (r\<lparr>ru_trace := ru_trace r @ map Shown evs\<rparr>, res))" for evs res
    by (simp add: returns_def)
  have wait: "returns (case publish_after_block (ru_state r) of None \<Rightarrow> aret () | Some target \<Rightarrow>
                (case wait_for_head target False (wd_heads wd) of
                   None \<Rightarrow> (\<lambda>r. None)
                 | Some (evs, res) \<Rightarrow>
                     abind (\<lambda>r. Some (r\<lparr>ru_trace := ru_trace r @ map Shown evs\<rparr>, res)) (\<lambda>_. emit (HeadReached target))))"
  proof (cases "publish_after_block (ru_state r)")
    case (Some x)
    obtain evs res where "wait_for_head x False (wd_heads wd) = Some (evs, res)" using head [OF Some] by auto
    then show ?thesis using Some by (auto intro!: returns_intros raw)
  qed (auto intro: returns_intros)
  have get: "abind get_run f r = f r r" for f :: "run \<Rightarrow> unit act" by (simp add: abind_def get_run_def)
  have at: "returns m \<Longrightarrow> m r \<noteq> None" for m :: "unit act" by (simp add: returns_def)
  show ?thesis
    unfolding publish_fresh_def Let_def get
    by (rule at, intro returns_intros wait) (use acc in \<open>auto intro!: returns_loop\<close>)
qed

text \<open>A publish returns: when the heads read reach the block it is scheduled for (if it is) and
  the polls settle the transaction, the run ends, in success or in an error, whatever else the
  world answers.\<close>

lemma publish_returns:
  assumes polls: "\<And>h. await_acceptance (felt_to_hex C h) (wd_polls wd) \<noteq> None"
    and heads: "\<And>target. publish_after_block (ru_state r) = Some target \<Longrightarrow> wait_for_head target False (wd_heads wd) \<noteq> None"
  shows "\<exists>r' x. publish C rt gw wd r = Some (r', x)"
proof -
  have fresh: "publish_fresh C rt gw wd idx p cont (r\<lparr>ru_trace := t\<rparr>) \<noteq> None" for idx p cont t
    by (rule returns_fresh) (use polls heads in auto)
  have at: "returns m \<Longrightarrow> (m r' = None) = False" for m :: "unit act" and r' by (simp add: returns_def)
  have "publish C rt gw wd r \<noteq> None"
    unfolding publish_def
    by (auto simp: abind_def aret_def afail_def alift_def get_run_def emit_def read_status_def really_dropped_def
        fresh at [OF returns_await [OF polls]] at [OF returns_bookkeeping(2)] at [OF returns_bookkeeping(4)]
        simp del: not_None_eq split: option.splits sum.splits if_splits)
  then show ?thesis by (cases "publish C rt gw wd r") auto
qed

section \<open>A publish that gets through\<close>

text \<open>The action succeeds, and its value and the run after it are as \<open>Q\<close> says.\<close>

definition leads :: "'a act \<Rightarrow> ('a \<Rightarrow> run \<Rightarrow> bool) \<Rightarrow> run \<Rightarrow> bool" where
  "leads m Q r = (\<exists>r' x. m r = Some (r', Inr x) \<and> Q x r')"

named_theorems leads_simps \<open>what it takes for an action to succeed\<close>

lemma leads_basic [leads_simps]:
  "leads (alift v) Q r = (\<exists>x. v = Inr x \<and> Q x r)"
  by (auto simp: leads_def alift_def)

lemma leads_effects [leads_simps]:
  "leads (aret ()) Q r = Q () r"
  "leads (emit e) Q r = Q () (r\<lparr>ru_trace := snoc (ru_trace r) e\<rparr>)"
  "leads (set_send_state s) Q r = Q () (r\<lparr>ru_state := s\<rparr>)"
  "leads (set_files f) Q r = Q () (r\<lparr>ru_files := f\<rparr>)"
  by (auto simp: leads_def aret_def emit_def set_send_state_def set_files_def)

lemma leads_get_run [leads_simps]: "leads get_run Q r = Q r r"
  by (auto simp: leads_def get_run_def)

lemma leads_abind [leads_simps]: "leads (abind m f) Q r = leads m (\<lambda>x. leads (f x) Q) r"
  by (auto simp: leads_def abind_def split: option.splits sum.splits)

lemma leads_save_state [leads_simps]:
  "leads (save_state ok) Q r =
     (ok = Inr () \<and> Q () (r\<lparr>ru_files := (ru_files r)\<lparr>f_sent := Some (ru_state r)\<rparr>, ru_trace := snoc (ru_trace r) (Saved (ru_state r))\<rparr>))"
  by (auto simp: save_state_def leads_simps)

lemma leads_spend_ticket:
  assumes "\<And>f. Q () (r\<lparr>ru_trace := snoc (ru_trace r) (SpentTicket tx), ru_files := f\<rparr>)"
  shows "leads (spend_ticket C io rt p tx) Q r"
proof -
  have "Q () (r\<lparr>ru_trace := snoc (ru_trace r) (SpentTicket tx)\<rparr>)" using assms [of "ru_files r"] by simp
  with assms show ?thesis
    by (auto simp: spend_ticket_def update_wallet_def leads_simps split: sum.split prod.split bool.split)
qed

lemma leads_read [leads_simps]:
  "leads (read_status h v) Q r = (\<exists>s. v = Inr s \<and> Q s (r\<lparr>ru_trace := snoc (ru_trace r) (StatusRead h (Inr s))\<rparr>))"
  by (auto simp: read_status_def leads_simps)

lemma leads_dropped [leads_simps]:
  "is_dropped s \<Longrightarrow> leads (really_dropped h s a) Q r = Q (rpc_agrees_dropped a) (r\<lparr>ru_trace := snoc (ru_trace r) (RpcAsked h a)\<rparr>)"
  by (auto simp: really_dropped_def leads_simps) (auto simp: leads_def aret_def emit_def abind_def)

text \<open>The nonces of the submissions, in order.\<close>

definition nonces :: "effect list \<Rightarrow> felt list" where
  "nonces t = List.map_filter (\<lambda>e. case e of Posted h n b \<Rightarrow> Some n | _ \<Rightarrow> None) t"

lemma nonces_snoc [simp]: "nonces (snoc t e) = nonces t @ (case e of Posted h n b \<Rightarrow> [n] | _ \<Rightarrow> [])"
  by (cases e) (simp_all add: nonces_def snoc_def map_filter_def)

lemma nonces_Nil [simp]: "nonces [] = []"
  by (simp add: nonces_def map_filter_def)

lemma nonces_shown [simp]: "nonces (t @ map Shown evs) = nonces t"
  by (induction evs) (simp_all add: nonces_def map_filter_def)

text \<open>What is left of a send that went through: it is saved, its last step done with the hash, its
  ticket spent.\<close>

definition went_through :: "crates \<Rightarrow> nat \<Rightarrow> felt \<Rightarrow> run \<Rightarrow> bool" where
  "went_through C idx h r =
     (f_sent (ru_files r) = Some (ru_state r) \<and> idx < length (steps (ru_state r))
      \<and> step_done (steps (ru_state r) ! idx) \<and> step_tx_hash (steps (ru_state r) ! idx) = Some (felt_to_hex C h)
      \<and> SpentTicket (Some (felt_to_hex C h)) \<in> set (ru_trace r))"

lemma leads_finish:
  assumes "await_acceptance (felt_to_hex C h) (wd_polls wd) = Some (Inr s)" and "wd_save wd 12 = Inr ()" and "idx < length (steps (ru_state r))"
    and Q: "\<And>r'. nonces (ru_trace r') = nonces (ru_trace r) \<Longrightarrow> went_through C idx h r' \<Longrightarrow> Q () r'"
  shows "leads (await_and_finish C rt wd idx p h) Q r"
  using assms
  by (auto simp: await_and_finish_def Let_def leads_simps mark_done_def ensure_eq_Inr went_through_def intro!: leads_spend_ticket Q)

text \<open>The answers an attempt gets. \<open>Taken\<close>: the transaction with this hash is accepted for the queue.
  Too early: the proof is too recent for the sequencer. Stale: the nonce is refused, the refused
  transaction is gone for the gateway and for the RPC, and \<open>n'\<close> is the nonce to go on with.\<close>

definition taken :: "pub_ctx \<Rightarrow> nat \<Rightarrow> felt \<Rightarrow> felt \<Rightarrow> bool" where
  "taken K a n h =
     (\<exists>tx. loop_tx K n = Inr tx \<and> si_hash tx = h
        \<and> submit (k_crates K) (wd_text_of (k_world K)) (gw_via_rpc (k_gateway K)) (wd_reply (k_world K) a) h = Inr ())"

definition refused_as :: "pub_ctx \<Rightarrow> nat \<Rightarrow> felt \<Rightarrow> gateway_err \<Rightarrow> bool" where
  "refused_as K a n g =
     (\<exists>tx code msg. loop_tx K n = Inr tx \<and> g = Rejected code msg
        \<and> submit (k_crates K) (wd_text_of (k_world K)) (gw_via_rpc (k_gateway K)) (wd_reply (k_world K) a) (si_hash tx) = Inl (Gateway g))"

definition too_early :: "pub_ctx \<Rightarrow> nat \<Rightarrow> felt \<Rightarrow> felt \<Rightarrow> bool" where
  "too_early K a n n' = (\<exists>g. refused_as K a n g \<and> too_recent g \<and> n' = n)"

definition stale :: "pub_ctx \<Rightarrow> nat \<Rightarrow> felt \<Rightarrow> felt \<Rightarrow> bool" where
  "stale K a n n' =
     (\<exists>g s pool. refused_as K a n g \<and> is_nonce_rejection g \<and> \<not> too_recent g
        \<and> \<not> list_ex (\<lambda>reason. refused_with (k_crates K) reason g) (''ticket spent'' # FINAL_REFUSALS)
        \<and> wd_status (k_world K) a = Inr s \<and> is_dropped s \<and> rpc_agrees_dropped (wd_rpc_status (k_world K) a)
        \<and> wd_pool_nonce (k_world K) a = Inr pool \<and> n' = next_nonce n (expected_nonce g) pool)"

lemma leads_record [leads_simps]:
  "leads (record_and_save K a h n) Q r =
     (k_index K < length (steps (ru_state r)) \<and> wd_save (k_world K) a = Inr ()
      \<and> (let s = recorded_state K h n (ru_state r)
         in Q () (r\<lparr>ru_state := s, ru_files := (ru_files r)\<lparr>f_sent := Some s\<rparr>, ru_trace := snoc (ru_trace r) (Saved s)\<rparr>)))"
  by (auto simp: record_and_save_def record_submission_def ensure_eq_Inr leads_simps Let_def recorded_state_def)

lemma recorded_state_steps [simp]: "length (steps (recorded_state K h n st)) = length (steps st)"
  by (simp add: recorded_state_def)

text \<open>One attempt: the submission accepted, or the retry at the next nonce.\<close>

lemma leads_taken:
  assumes "taken K (PUBLISH_ATTEMPTS - Suc k) n h" and "wd_save (k_world K) (PUBLISH_ATTEMPTS - Suc k) = Inr ()" "wd_save (k_world K) 12 = Inr ()"
    and "await_acceptance (felt_to_hex (k_crates K) h) (wd_polls (k_world K)) = Some (Inr s)" and "k_index K < length (steps (ru_state r))"
    and "\<And>r'. nonces (ru_trace r') = nonces (ru_trace r) @ [n] \<Longrightarrow> went_through (k_crates K) (k_index K) h r' \<Longrightarrow> Q () r'"
  shows "leads (publish_loop K (Suc k) n) Q r"
  using assms
  by (auto simp: Let_def leads_simps taken_def intro!: leads_finish)

lemma leads_refused:
  assumes "too_early K (PUBLISH_ATTEMPTS - Suc k) n n' \<or> stale K (PUBLISH_ATTEMPTS - Suc k) n n'" and "0 < k"
    and "wd_save (k_world K) (PUBLISH_ATTEMPTS - Suc k) = Inr ()" and "k_index K < length (steps (ru_state r))"
    and Q: "\<And>r'. nonces (ru_trace r') = nonces (ru_trace r) @ [n] \<Longrightarrow> length (steps (ru_state r')) = length (steps (ru_state r)) \<Longrightarrow> leads (publish_loop K k n') Q r'"
  shows "leads (publish_loop K (Suc k) n) Q r"
  using assms(1)
proof
  assume e: "too_early K (PUBLISH_ATTEMPTS - Suc k) n n'"
  then have [simp]: "n' = n" by (auto simp: too_early_def)
  show ?thesis using e assms(2-4)
    by (auto simp: too_early_def refused_as_def Let_def leads_simps on_refusal_def intro!: Q [simplified])
next
  assume e: "stale K (PUBLISH_ATTEMPTS - Suc k) n n'"
  then obtain g pool where n': "n' = next_nonce n (expected_nonce g) pool" and e: "refused_as K (PUBLISH_ATTEMPTS - Suc k) n g"
    "is_nonce_rejection g" "\<not> too_recent g" "\<not> list_ex (\<lambda>reason. refused_with (k_crates K) reason g) (''ticket spent'' # FINAL_REFUSALS)"
    "wd_pool_nonce (k_world K) (PUBLISH_ATTEMPTS - Suc k) = Inr pool"
    "\<exists>s. wd_status (k_world K) (PUBLISH_ATTEMPTS - Suc k) = Inr s \<and> is_dropped s \<and> rpc_agrees_dropped (wd_rpc_status (k_world K) (PUBLISH_ATTEMPTS - Suc k))"
    unfolding stale_def by blast
  obtain code msg where g: "g = Rejected code msg" using e(1) by (auto simp: refused_as_def)
  show ?thesis using e assms(2-4)
    by (auto simp: g refused_as_def Let_def leads_simps on_refusal_def intro!: Q [unfolded n' g])
qed

lemma leads_loop:
  assumes "a + d < PUBLISH_ATTEMPTS" and "\<forall>i < a + d. a \<le> i \<longrightarrow> too_early K i (n i) (n (Suc i)) \<or> stale K i (n i) (n (Suc i))"
    and "taken K (a + d) (n (a + d)) h" and "\<And>i. wd_save (k_world K) i = Inr ()"
    and "await_acceptance (felt_to_hex (k_crates K) h) (wd_polls (k_world K)) = Some (Inr s)" and "k_index K < length (steps (ru_state r))"
  shows "leads (publish_loop K (PUBLISH_ATTEMPTS - a) (n a)) (\<lambda>_ r'. nonces (ru_trace r') = nonces (ru_trace r) @ map n [a..<Suc (a + d)]
     \<and> went_through (k_crates K) (k_index K) h r') r"
  using assms(1-3,6)
proof (induction d arbitrary: a r)
  case 0
  define k where "k = PUBLISH_ATTEMPTS - Suc a"
  then have k: "PUBLISH_ATTEMPTS - a = Suc k" "a = PUBLISH_ATTEMPTS - Suc k" using 0(1) by simp_all
  have up: "map n [a..<Suc (a + 0)] = [n a]" by simp
  show ?case unfolding k(1) up by (rule leads_taken [OF _ assms(4) assms(4) assms(5) 0(4)]) (use 0 k(2) in auto)
next
  case (Suc d)
  define k where "k = PUBLISH_ATTEMPTS - Suc a"
  then have k: "PUBLISH_ATTEMPTS - a = Suc k" "a = PUBLISH_ATTEMPTS - Suc k" "k = PUBLISH_ATTEMPTS - Suc a" using Suc.prems(1) by simp_all
  have up: "map n [a..<Suc (a + Suc d)] = n a # map n [Suc a..<Suc (Suc a + d)]" by (simp add: upt_conv_Cons del: upt_Suc)
  show ?case unfolding k(1)
  proof (rule leads_refused [where n' = "n (Suc a)"])
    show "too_early K (PUBLISH_ATTEMPTS - Suc k) (n a) (n (Suc a)) \<or> stale K (PUBLISH_ATTEMPTS - Suc k) (n a) (n (Suc a))"
      using Suc.prems(2) unfolding k(2) [symmetric] by simp
    show "0 < k" using Suc.prems(1) k(3) by simp
    show "leads (publish_loop K k (n (Suc a))) (\<lambda>_ r'. nonces (ru_trace r') = nonces (ru_trace r) @ map n [a..<Suc (a + Suc d)]
        \<and> went_through (k_crates K) (k_index K) h r') r1"
      if "nonces (ru_trace r1) = nonces (ru_trace r) @ [n a]" and "length (steps (ru_state r1)) = length (steps (ru_state r))" for r1
      using Suc.IH [of "Suc a" r1] Suc.prems that unfolding k(3) up by (auto simp: leads_def)
  qed (use Suc.prems(4) assms(4) in auto)
qed

text \<open>What the first attempt is made with: the proof and its facts, the call, and the nonce and bounds
  recorded or, if there are none, read from the pool.\<close>

definition first_try :: "crates \<Rightarrow> route \<Rightarrow> gateway \<Rightarrow> world \<Rightarrow> nat \<Rightarrow> public_v4 \<Rightarrow> bytes \<Rightarrow> run \<Rightarrow> (pub_ctx \<times> felt) res" where
  "first_try C rt gw wd idx p cont r =
     rbind (of_opt (File Missing) (f_proof (ru_files r))) (\<lambda>vp.
     rbind (proof_facts_of C vp) (\<lambda>facts.
     rbind (rbind (of_opt (File Missing) (st_base_block (ru_state r))) (check_facts facts (message_hash C p (r_prover rt)))) (\<lambda>_.
     rbind (send_message_calldata_v4 C p cont) (\<lambda>cd.
     rbind (case (publish_nonce (ru_state r), st_publish_bounds (ru_state r)) of
              (Some n, Some b) \<Rightarrow> rbind (felt_from_hex C n) (\<lambda>n. Inr (n, b))
            | _ \<Rightarrow> publish_inputs C rt (wd_rpc wd)) (\<lambda>(nonce, b).
     Inr (\<lparr>k_crates = C, k_route = rt, k_gateway = gw, k_world = wd, k_index = idx, k_public = p,
           k_call = call_new C (r_store rt) ''send_message'' cd,
           k_att = \<lparr>att_proof = vp_proof vp, att_facts = facts\<rparr>, k_bounds = b\<rparr>, nonce))))))"

lemma head_comes: "\<forall>e \<in> set early. e < target \<Longrightarrow> target \<le> now \<Longrightarrow>
    \<exists>evs. wait_for_head target reported (map Inr early @ Inr now # later) = Some (evs, Inr ())"
proof (induction early arbitrary: reported)
  case (Cons e early)
  then obtain evs where "wait_for_head target True (map Inr early @ Inr now # later) = Some (evs, Inr ())" by auto
  with Cons.prems show ?case by auto
qed simp

definition due :: "nat option \<Rightarrow> nat res list \<Rightarrow> bool" where
  "due target heads = (case target of None \<Rightarrow> True
     | Some t \<Rightarrow> \<exists>early now later. heads = map Inr early @ Inr now # later \<and> (\<forall>e \<in> set early. e < t) \<and> t \<le> now)"

text \<open>The step has no transaction, or one that the gateway and the RPC report dropped.\<close>

definition unsent :: "crates \<Rightarrow> world \<Rightarrow> string option \<Rightarrow> bool" where
  "unsent C wd saved = (case saved of None \<Rightarrow> True
     | Some hx \<Rightarrow> (\<exists>h s. felt_from_hex C hx = Inr h \<and> wd_saved_status wd = Inr s \<and> is_dropped s \<and> \<not> is_reverted s \<and> rpc_agrees_dropped (wd_saved_rpc wd)))"

lemma leads_fresh:
  assumes "due (publish_after_block (ru_state r)) (wd_heads wd)" and "store_felt C (r_store rt) (wd_rpc wd) ''is_known_root'' [p_root p] None = Inr 1"
    and "first_try C rt gw wd idx p cont r = Inr (K, n0)"
    and loop: "\<And>t. nonces t = nonces (ru_trace r) \<Longrightarrow> leads (publish_loop K PUBLISH_ATTEMPTS n0) Q (r\<lparr>ru_trace := t\<rparr>)"
  shows "leads (publish_fresh C rt gw wd idx p cont) Q r"
proof -
  obtain vp facts bb cd b where parts: "f_proof (ru_files r) = Some vp" "proof_facts_of C vp = Inr facts" "st_base_block (ru_state r) = Some bb"
      "check_facts facts (message_hash C p (r_prover rt)) bb = Inr ()" "send_message_calldata_v4 C p cont = Inr cd"
      "(case (publish_nonce (ru_state r), st_publish_bounds (ru_state r)) of
              (Some n, Some b) \<Rightarrow> rbind (felt_from_hex C n) (\<lambda>n. Inr (n, b))
            | _ \<Rightarrow> publish_inputs C rt (wd_rpc wd)) = Inr (n0, b)"
    and K: "K = \<lparr>k_crates = C, k_route = rt, k_gateway = gw, k_world = wd, k_index = idx, k_public = p,
           k_call = call_new C (r_store rt) ''send_message'' cd,
           k_att = \<lparr>att_proof = vp_proof vp, att_facts = facts\<rparr>, k_bounds = b\<rparr>"
    using assms(3) by (auto simp: first_try_def res_inv)
  have rest: "leads (let known = store_felt C (r_store rt) (wd_rpc wd) ''is_known_root'' [p_root p] None
     in abind (emit (RootKnown (p_root p) known)) (\<lambda>_.
        abind (alift known) (\<lambda>known.
        if known \<noteq> 1 then
          abind (release_ticket C (wd_wallet_io wd) rt p) (\<lambda>_.
          abind (retire (wd_retire wd)) (\<lambda>_. afail (Policy BadPath)))
        else
          abind (alift (of_opt (File Missing) (f_proof (ru_files r)))) (\<lambda>vp.
          abind (alift (proof_facts_of C vp)) (\<lambda>facts.
          abind (alift (rbind (of_opt (File Missing) (st_base_block (ru_state r)))
                   (check_facts facts (message_hash C p (r_prover rt))))) (\<lambda>_.
          abind (alift (send_message_calldata_v4 C p cont)) (\<lambda>cd.
          abind (alift (case (publish_nonce (ru_state r), st_publish_bounds (ru_state r)) of
                          (Some n, Some b) \<Rightarrow> rbind (felt_from_hex C n) (\<lambda>n. Inr (n, b))
                        | _ \<Rightarrow> publish_inputs C rt (wd_rpc wd))) (\<lambda>(nonce, b).
          publish_loop
            \<lparr>k_crates = C, k_route = rt, k_gateway = gw, k_world = wd, k_index = idx, k_public = p,
             k_call = call_new C (r_store rt) ''send_message'' cd,
             k_att = \<lparr>att_proof = vp_proof vp, att_facts = facts\<rparr>, k_bounds = b\<rparr>
            PUBLISH_ATTEMPTS nonce)))))))) Q (r\<lparr>ru_trace := t\<rparr>)" if "nonces t = nonces (ru_trace r)" for t
    using loop [of "snoc t (RootKnown (p_root p) (Inr 1))"] that
    by (simp add: leads_simps parts(1-5) parts(6) [simplified] assms(2) Let_def K)
  have self: "r\<lparr>ru_trace := ru_trace r\<rparr> = r" by simp
  show ?thesis
  proof (cases "publish_after_block (ru_state r)")
    case None
    then show ?thesis using rest [OF refl, unfolded self] by (simp add: publish_fresh_def leads_simps)
  next
    case (Some x)
    obtain evs where "wait_for_head x False (wd_heads wd) = Some (evs, Inr ())"
      using assms(1) Some head_comes by (fastforce simp: due_def)
    moreover have "leads (\<lambda>r. Some (r\<lparr>ru_trace := ru_trace r @ map Shown evs\<rparr>, Inr ())) R r' = R () (r'\<lparr>ru_trace := ru_trace r' @ map Shown evs\<rparr>)" for R r'
      by (simp add: leads_def)
    ultimately show ?thesis using Some rest [of "snoc (ru_trace r @ map Shown evs) (HeadReached x)"]
      by (simp add: publish_fresh_def leads_simps)
  qed
qed

section \<open>Properties\<close>

text \<open>C1: Whatever a publish does, every submission it makes is already on disk and is exactly the
  send that was proven: the step before it is the save of a checkpoint that records the
  transaction's hash, its nonce and its fee bounds; the transaction is the one built from the
  saved proof, whose facts attest the checkpoint's own public tuple on its base block; the
  scheduled head was reached and the pool's root was confirmed known first.\<close>

theorem submissions_are_recorded_and_proven:
  assumes start: "ru_trace r0 = []" and run: "publish C rt gw wd r0 = Some (r, x)"
    and i: "i < length (ru_trace r)" "ru_trace r ! i = Posted h n b"
  shows "(\<exists>s. 0 < i \<and> ru_trace r ! (i - 1) = Saved s \<and> recorded C s h n b)
     \<and> proven_tx C rt gw r0 h n b
     \<and> (\<forall>target. publish_after_block (ru_state r0) = Some target \<longrightarrow> HeadReached target \<in> set (take i (ru_trace r)))
     \<and> (\<exists>root. RootKnown root (Inr 1) \<in> set (take i (ru_trace r)))"
proof -
  have ok: "ok_next (publish_spec C rt gw r0) (take i (ru_trace r)) (Posted h n b)"
    using publish_step [OF start run i(1)] i(2) by simp
  then obtain s where s: "take i (ru_trace r) \<noteq> []" "last (take i (ru_trace r)) = Saved s" "recorded C s h n b" by auto
  have "0 < i" "ru_trace r ! (i - 1) = Saved s" using last_take [OF s(1)] i(1) s(2) by auto
  then show ?thesis using ok s(3) by auto
qed

text \<open>C2: One message, one transaction. A publish never sends a transaction while another one it
  or an earlier run has recorded could still land: every hash submitted before, the checkpoint's
  own included, is this same hash or was reported gone by the gateway and by the RPC since it
  was last sent. There are at most twelve submissions.\<close>

theorem no_second_transaction_while_one_may_land:
  assumes start: "ru_trace r0 = []" and run: "publish C rt gw wd r0 = Some (r, x)"
  shows "(\<forall>i < length (ru_trace r). \<forall>h n b. ru_trace r ! i = Posted h n b \<longrightarrow>
       (\<forall>h' \<in> posted (saved_hash C (ru_state r0)) (take i (ru_trace r)). h' = h \<or> dropped_since h' (take i (ru_trace r))))
     \<and> length (filter any_post (ru_trace r)) \<le> 12"
proof
  have "h' = h \<or> dropped_since h' (take i (ru_trace r))"
    if "i < length (ru_trace r)" "ru_trace r ! i = Posted h n b" "h' \<in> posted (saved_hash C (ru_state r0)) (take i (ru_trace r))" for i h n b h'
    using publish_step [OF start run that(1)] that(2,3) by simp
  then show "\<forall>i < length (ru_trace r). \<forall>h n b. ru_trace r ! i = Posted h n b \<longrightarrow>
       (\<forall>h' \<in> posted (saved_hash C (ru_state r0)) (take i (ru_trace r)). h' = h \<or> dropped_since h' (take i (ru_trace r)))"
    by blast
  show "length (filter any_post (ru_trace r)) \<le> 12"
    using publish_trace [OF start run] by (simp add: finished_def n_posts_def)
qed

text \<open>C3: The prepaid ticket is settled at most once, after the last submission, and only on
  evidence: spent when the transaction was seen accepted or reverted or the pool said the ticket
  was spent, released when the pool no longer knows the root or refused for good. A publish
  that succeeds has seen its transaction accepted and has spent the ticket on it.\<close>

theorem ticket_is_settled_once_on_evidence:
  assumes start: "ru_trace r0 = []" and run: "publish C rt gw wd r0 = Some (r, x)"
  shows "(\<forall>i < length (ru_trace r). settlement (ru_trace r ! i) \<longrightarrow>
        (\<forall>e \<in> set (take i (ru_trace r)). \<not> settlement e)
        \<and> (case ru_trace r ! i of SpentTicket tx \<Rightarrow> spent_evidence C (take i (ru_trace r)) tx | _ \<Rightarrow> release_evidence C (take i (ru_trace r)))
        \<and> (\<forall>j h n b. i < j \<and> j < length (ru_trace r) \<longrightarrow> ru_trace r ! j \<noteq> Posted h n b))
     \<and> (x = Inr () \<longrightarrow> (\<exists>h s. Verdict h (Inr s) \<in> set (ru_trace r) \<and> is_accepted s \<and> SpentTicket (Some (felt_to_hex C h)) \<in> set (ru_trace r)))"
proof
  let ?t = "ru_trace r"
  have "(\<forall>e \<in> set (take i ?t). \<not> settlement e)
        \<and> (case ?t ! i of SpentTicket tx \<Rightarrow> spent_evidence C (take i ?t) tx | _ \<Rightarrow> release_evidence C (take i ?t))
        \<and> (\<forall>j h n b. i < j \<and> j < length ?t \<longrightarrow> ?t ! j \<noteq> Posted h n b)"
    if i: "i < length ?t" "settlement (?t ! i)" for i
  proof (intro conjI)
    have ok: "ok_next (publish_spec C rt gw r0) (take i ?t) (?t ! i)" by (rule publish_step [OF start run i(1)])
    show "\<forall>e \<in> set (take i ?t). \<not> settlement e"
      using ok i(2) by (cases "?t ! i") (auto simp: settled_settlement settlement_def)
    show "case ?t ! i of SpentTicket tx \<Rightarrow> spent_evidence C (take i ?t) tx | _ \<Rightarrow> release_evidence C (take i ?t)"
      using ok i(2) by (cases "?t ! i") (auto simp: settlement_def)
    show "\<forall>j h n b. i < j \<and> j < length ?t \<longrightarrow> ?t ! j \<noteq> Posted h n b"
    proof (intro allI impI)
      fix j h n b assume j: "i < j \<and> j < length ?t"
      have "?t ! i \<in> set (take j ?t)" using j i(1) by (auto simp: in_set_conv_nth intro!: exI [of _ i])
      then have "settled (take j ?t)" using i(2) by (auto simp: settled_settlement)
      then show "?t ! j \<noteq> Posted h n b" using publish_step [OF start run, of j] j by auto
    qed
  qed
  then show "\<forall>i < length ?t. settlement (?t ! i) \<longrightarrow>
        (\<forall>e \<in> set (take i ?t). \<not> settlement e)
        \<and> (case ?t ! i of SpentTicket tx \<Rightarrow> spent_evidence C (take i ?t) tx | _ \<Rightarrow> release_evidence C (take i ?t))
        \<and> (\<forall>j h n b. i < j \<and> j < length ?t \<longrightarrow> ?t ! j \<noteq> Posted h n b)"
    by blast
  show "x = Inr () \<longrightarrow> (\<exists>h s. Verdict h (Inr s) \<in> set ?t \<and> is_accepted s \<and> SpentTicket (Some (felt_to_hex C h)) \<in> set ?t)"
    using publish_trace [OF start run] by (simp add: finished_def)
qed

text \<open>C11: A publish that can get through does. When nothing sent before is in flight, the head reaches
  the scheduled block, the root is known, the proof, the facts and the inputs are in order and the
  saves succeed: if the attempt number \<open>j\<close>, any of the twelve, is accepted at the nonce \<open>n j\<close>, and
  each attempt before it was either too early for its proof, to be repeated at the same nonce, or
  refused for a stale nonce with its transaction confirmed gone, to be repeated at the next nonce,
  and the polls come to an accepted status, then the run returns with success. It has submitted
  once for each attempt up to \<open>j\<close>, at exactly those nonces; the step is saved as done with the
  hash of the last one, and the ticket is spent with it.\<close>

theorem publish_gets_through:
  assumes fresh: "ru_trace r = []" and index: "position (\<lambda>s. step_kind s = Send_State.Publish) (steps (ru_state r)) = Some idx"
    and content: "hex_decode C (ciphertext_hex (ru_state r)) = Some cont" and tuple: "public_from_state C (r_store rt) (ru_state r) cont = Inr p"
    and gone: "unsent C wd (step_tx_hash (steps (ru_state r) ! idx))" and head: "due (publish_after_block (ru_state r)) (wd_heads wd)"
    and root: "store_felt C (r_store rt) (wd_rpc wd) ''is_known_root'' [p_root p] None = Inr 1"
    and inputs: "first_try C rt gw wd idx p cont r = Inr (K, n 0)" and saves: "\<And>i. wd_save wd i = Inr ()"
    and retries: "\<forall>i < j. too_early K i (n i) (n (Suc i)) \<or> stale K i (n i) (n (Suc i))" and accepted: "taken K j (n j) h" "j < PUBLISH_ATTEMPTS"
    and polls: "wd_polls wd = early @ (Inr s, graced, late) # later" "\<forall>q \<in> set early. undecided q" "is_accepted s" "\<not> is_reverted s"
  shows "\<exists>r'. publish C rt gw wd r = Some (r', Inr ()) \<and> nonces (ru_trace r') = map n [0..<Suc j] \<and> went_through C idx h r'"
proof -
  let ?Q = "\<lambda>_ r'. nonces (ru_trace r') = map n [0..<Suc j] \<and> went_through C idx h r'"
  have K: "k_crates K = C" "k_world K = wd" "k_index K = idx" using inputs by (auto simp: first_try_def res_inv)
  have i: "idx < length (steps (ru_state r))" using index position_Some by blast
  have ends: "await_acceptance (felt_to_hex C h) (wd_polls wd) = Some (Inr s)"
    using polls accepted_not_dropped by (simp add: await_skip)
  have go: "leads (publish_fresh C rt gw wd idx p cont) ?Q (r\<lparr>ru_trace := t\<rparr>)" if "nonces t = []" for t
  proof (rule leads_fresh)
    show "first_try C rt gw wd idx p cont (r\<lparr>ru_trace := t\<rparr>) = Inr (K, n 0)" using inputs by (simp add: first_try_def)
    show "leads (publish_loop K PUBLISH_ATTEMPTS (n 0)) ?Q (r\<lparr>ru_trace := t, ru_trace := t'\<rparr>)" if "nonces t' = nonces (ru_trace (r\<lparr>ru_trace := t\<rparr>))" for t'
      using leads_loop [of 0 j K n h s "r\<lparr>ru_trace := t'\<rparr>"] that \<open>nonces t = []\<close> retries accepted saves ends i by (simp add: K)
  qed (use head root in auto)
  have "leads (publish C rt gw wd) ?Q r"
  proof (cases "step_tx_hash (steps (ru_state r) ! idx)")
    case None
    then show ?thesis using go by (simp add: publish_def leads_simps index content tuple fresh)
  next
    case (Some saved)
    with gone obtain h' s' where "felt_from_hex C saved = Inr h'" "wd_saved_status wd = Inr s'" "is_dropped s'" "\<not> is_reverted s'"
      "rpc_agrees_dropped (wd_saved_rpc wd)" by (auto simp: unsent_def)
    with Some go show ?thesis by (simp add: publish_def leads_simps index content tuple fresh)
  qed
  then show ?thesis by (auto simp: leads_def)
qed

section \<open>A run\<close>

text \<open>Concrete crates small enough to evaluate: felts are printed in unary, a transaction's hash is its nonce.\<close>

definition unary_crates :: crates where
  "unary_crates = demo_crates\<lparr>felt_of_hex := (\<lambda>s. Some (length s)), felt_to_hex := (\<lambda>n. replicate n (CHR ''1'')),
     poseidon_many := (\<lambda>xs. if length xs = 11 then xs ! 6 else 0), hex_decode := (\<lambda>s. Some []), hex_encode := (\<lambda>b. ''h'')\<rparr>"

definition demo_step :: "step_kind \<Rightarrow> bool \<Rightarrow> string option \<Rightarrow> step_record" where
  "demo_step k d h = \<lparr>step_kind = k, step_done = d, step_tx_hash = h, step_note = None\<rparr>"

definition demo_bounds :: fee_bounds where
  "demo_bounds = \<lparr>l1_gas = \<lparr>max_amount = 0, max_price_per_unit = 2\<rparr>, l2_gas = \<lparr>max_amount = 9, max_price_per_unit = 3\<rparr>,
                   l1_data_gas = \<lparr>max_amount = 4, max_price_per_unit = 5\<rparr>\<rparr>"

definition demo_send :: "string option \<Rightarrow> send_state" where
  "demo_send h =
     \<lparr>send_state_id = ''a1'', recipient_handle = ''bob'', ciphertext_hex = ''00'',
      expected_commitment = ''1'', expected_ephemeral_pubkey = ''11'', expected_merkle_root = ''111'',
      steps = [demo_step Prepare True None, demo_step Prove True None, demo_step Send_State.Publish False h],
      st_base_block = Some 2, publish_nonce = Some ''11'', st_publish_bounds = Some demo_bounds,
      binding = Some \<lparr>b_nullifier = ''1'', b_epoch = 3, b_quota = 4, b_ticket_root = ''11'', b_ticket_nullifier = ''1''\<rparr>,
      publish_after_block = Some 20\<rparr>"

definition demo_route :: route where
  "demo_route = \<lparr>r_store = 17, r_prover = 18, r_virtual_sender = 19, r_chain_id = 20\<rparr>"

definition demo_status :: "string \<Rightarrow> tx_status" where
  "demo_status s = \<lparr>finality = s, execution = [], revert_reason = None\<rparr>"

definition demo_rejected :: json where
  "demo_rejected = JObj [(''finality_status'', JStr ''REJECTED'')]"

text \<open>The recorded transaction is gone; the nonce recorded with it is refused once; the next goes in.\<close>

definition demo_world :: world where
  "demo_world =
     \<lparr>wd_saved_status = Inr (demo_status ''NOT_RECEIVED''), wd_saved_rpc = Inr demo_rejected,
      wd_heads = [Inr 19, Inr 20], wd_rpc = (\<lambda>m j. Inr (JArr [JStr ''1''])), wd_save = (\<lambda>n. Inr ()),
      wd_reply = (\<lambda>n. if n = 0 then StatusReply 400 (Some (JObj [(''code'', JStr ''NONCE''), (''message'', JStr ''invalid'')]))
                     else Reply (Some (JObj [(''transaction_hash'', JStr ''1111'')]))),
      wd_status = (\<lambda>n. Inr (demo_status ''REJECTED'')), wd_rpc_status = (\<lambda>n. Inr demo_rejected),
      wd_pool_nonce = (\<lambda>n. Inr 4), wd_polls = [(Inr (demo_status ''ACCEPTED_ON_L2''), False, False)],
      wd_retire = Inr (), wd_wallet_io = io_ok, wd_text_of = (\<lambda>j. [])\<rparr>"

definition demo_run :: run where
  "demo_run =
     \<lparr>ru_state = demo_send (Some ''11111''),
      ru_files = \<lparr>f_sent = None, f_stale = None,
        f_proof = Some \<lparr>vp_proof = ''p'', vp_facts = [[], [], [], [], ''11'', [], [], ''1'', []]\<rparr>, f_wallet = None\<rparr>,
      ru_trace = []\<rparr>"

definition demo_gateway :: gateway where "demo_gateway = \<lparr>gw_chain_id = 3, gw_via_rpc = False\<rparr>"


named_theorems demo_simps
lemmas [demo_simps] = abind_def aret_def afail_def alift_def emit_def get_run_def set_send_state_def set_files_def snoc_def

lemma demo_felts [demo_simps]:
  "felt_from_hex unary_crates s = Inr (length s)" "felt_to_hex unary_crates n = replicate n (CHR ''1'')"
  "hex_decode unary_crates s = Some []"
  by (simp_all add: felt_from_hex_def unary_crates_def of_opt_def)

lemma demo_content [demo_simps]: "bytearray_calldata unary_crates [] = Inr [hex0x 0, [], hex0x 0]"
  by (simp add: bytearray_calldata_def felt_from_be_bytes_def demo_felts felt_from_be_def be_nat_zeros)

lemma demo_hash: "invoke_hash unary_crates \<lparr>inv_sender = a, inv_calldata = b, inv_chain_id = c, inv_nonce = n, inv_tip = d, inv_bounds = bb, inv_proof_facts = f#fs\<rparr> = Inr n"
  by (simp add: invoke_hash_def unary_crates_def packed_def short_string_def ascii_def)

definition demo_public :: public_v4 where
  "demo_public = \<lparr>p_store = 17, p_commitment = 1, p_ephemeral = 2, p_root = 3, p_content_hash = 0, p_nullifier = 1,
          p_epoch = 3, p_quota = 4, p_ticket_root = 2, p_ticket_nullifier = 1\<rparr>"

lemma demo_publics: "public_from_state unary_crates 17 (demo_send h) [] = Inr demo_public"
  by (simp add: public_from_state_def demo_send_def demo_public_def vs_content_hash_def demo_simps of_opt_def)
   (simp add: unary_crates_def of_opt_def)

lemma demo_message [demo_simps]: "message_hash unary_crates p 18 = 0"
  by (simp add: message_hash_def payload_def unary_crates_def)

definition demo_ctx :: "felt list \<Rightarrow> pub_ctx" where
  "demo_ctx cd = \<lparr>k_crates = unary_crates, k_route = demo_route, k_gateway = demo_gateway, k_world = demo_world, k_index = 2, k_public = demo_public,
             k_call = call_new unary_crates 17 ''send_message'' cd,
             k_att = \<lparr>att_proof = ''p'', att_facts = [0,0,0,0,2,0,0,1,0]\<rparr>, k_bounds = demo_bounds\<rparr>"

lemma demo_loop_tx: "\<exists>tx. loop_tx (demo_ctx cd) n = Inr tx \<and> si_hash tx = n"
  by (simp add: loop_tx_def demo_ctx_def unsigned_invoke_def gateway_invoke_def demo_hash Let_def)

lemma demo_submit: "submit unary_crates tf False (wd_reply demo_world 0) h = Inl (Gateway (Rejected ''NONCE'' ''invalid''))"
  "submit unary_crates tf False (wd_reply demo_world (Suc 0)) 4 = Inr ()"
  by (simp_all add: submit_def demo_world_def gateway_post_def str_or_def unary_crates_def eval_nat_numeral)


lemma demo_refused: "is_nonce_rejection (Rejected ''NONCE'' ''invalid'')" "too_recent (Rejected ''NONCE'' ''invalid'') = False"
   "expected_nonce (Rejected ''NONCE'' ''invalid'') = None"
  by (simp_all add: is_nonce_rejection_def too_recent_def  expected_nonce_def str_contains_def find_after.simps)


lemma demo_refused2: "r \<in> {''ticket spent'', ''nullifier spent'', ''envelope consumed'', ''stale epoch'', ''unknown merkle root''} \<Longrightarrow>
   refused_with unary_crates r (Rejected ''NONCE'' ''invalid'') = False"
  by (auto simp: refused_with_def str_contains_def find_after.simps unary_crates_def)

lemma demo_await: "await_acceptance h (wd_polls demo_world) = Some (Inr (demo_status ''ACCEPTED_ON_L2''))"
  by (simp add: demo_world_def demo_status_def is_dropped_def is_reverted_def is_accepted_def)

definition demo_state :: "felt \<Rightarrow> bool \<Rightarrow> send_state" where
  "demo_state h d = (demo_send (Some ''11111''))
     \<lparr>steps := [demo_step Prepare True None, demo_step Prove True None,
        (demo_step Send_State.Publish d (Some (replicate h (CHR ''1''))))\<lparr>step_note := (if d then Some ''message published by the pool'' else None)\<rparr>],
      publish_nonce := Some (replicate h (CHR ''1'')), st_publish_bounds := Some demo_bounds\<rparr>"

text \<open>The trace of the run below.\<close>

definition demo_before :: "effect list" where
  "demo_before =
     [Shown (StepStarted 2 3 Send_State.Publish), StatusRead 5 (Inr (demo_status ''NOT_RECEIVED'')), RpcAsked 5 (Inr demo_rejected),
      Shown (Waiting 20 1), HeadReached 20, RootKnown 3 (Inr 1)]"

definition demo_sent :: "effect list" where
  "demo_sent = demo_before @
     [Saved (demo_state 2 False), Posted 2 2 demo_bounds, Refusal 2 (Gateway (Rejected ''NONCE'' ''invalid'')),
      StatusRead 2 (Inr (demo_status ''REJECTED'')), RpcAsked 2 (Inr demo_rejected),
      Saved (demo_state 4 False), Posted 4 4 demo_bounds, Shown (TxSubmitted Send_State.Publish ''1111'')]"

definition demo_trace :: "effect list" where
  "demo_trace = demo_sent @
     [Verdict 4 (Inr (demo_status ''ACCEPTED_ON_L2'')), SpentTicket (Some ''1111''), Saved (demo_state 4 True),
      Shown (StepCompleted Send_State.Publish (Some ''1111'') None), Shown Completed]"

lemma demo_state_steps [simp]: "length (steps (demo_send h)) = 3" "length (steps (demo_state k d)) = 3"
  by (simp_all add: demo_send_def demo_state_def)

lemma demo_recorded [simp]:
  "recorded_state (demo_ctx cd) h h (demo_send (Some ''11111'')) = demo_state h False"
  "recorded_state (demo_ctx cd) h h (demo_state k False) = demo_state h False"
  by (simp_all add: recorded_state_def demo_state_def demo_send_def demo_step_def demo_ctx_def demo_felts numeral_2_eq_2)

lemma demo_ctx_simps [simp]: "k_crates (demo_ctx cd) = unary_crates" "k_world (demo_ctx cd) = demo_world" "k_index (demo_ctx cd) = 2"
    "k_bounds (demo_ctx cd) = demo_bounds" "gw_via_rpc (k_gateway (demo_ctx cd)) = False"
  by (simp_all add: demo_ctx_def demo_gateway_def)

lemma demo_world_simps [simp]: "wd_save demo_world n = Inr ()" "wd_text_of demo_world = (\<lambda>j. [])" "wd_status demo_world n = Inr (demo_status ''REJECTED'')"
     "wd_rpc_status demo_world n = Inr demo_rejected" "wd_pool_nonce demo_world n = Inr 4" "wd_wallet_io demo_world = io_ok"
  by (simp_all add: demo_world_def)

lemma demo_record:
  "length (steps s) = 3 \<Longrightarrow>
   record_and_save (demo_ctx cd) a h n \<lparr>ru_state = s, ru_files = fs, ru_trace = t\<rparr>
   = Some (\<lparr>ru_state = recorded_state (demo_ctx cd) h n s, ru_files = fs\<lparr>f_sent := Some (recorded_state (demo_ctx cd) h n s)\<rparr>,
            ru_trace = t @ [Saved (recorded_state (demo_ctx cd) h n s)]\<rparr>, Inr ())"
  by (simp add: record_and_save_def record_submission_def save_state_def demo_simps recorded_state_def Let_def)

lemma demo_finish:
  "\<exists>f. await_and_finish unary_crates (k_route (demo_ctx cd)) demo_world 2 (k_public (demo_ctx cd)) 4 \<lparr>ru_state = demo_state 4 False, ru_files = fs, ru_trace = t\<rparr>
   = Some (\<lparr>ru_state = demo_state 4 True, ru_files = f,
        ru_trace = t @ [Verdict 4 (Inr (demo_status ''ACCEPTED_ON_L2'')), SpentTicket (Some ''1111''), Saved (demo_state 4 True),
           Shown (StepCompleted Send_State.Publish (Some ''1111'') None), Shown Completed]\<rparr>, Inr ())"
proof -
  have r: "replicate 4 CHR ''1'' = ''1111''" by (simp add: eval_nat_numeral)
  have m: "mark_done 2 (Some ''1111'', Some ''message published by the pool'') (demo_state 4 False) = Inr (demo_state 4 True)"
    by (simp add: mark_done_def) (simp add: demo_state_def demo_send_def demo_step_def numeral_2_eq_2 r)
  show ?thesis
    by (simp add: await_and_finish_def demo_await Let_def demo_simps r spend_ticket_def update_wallet_def m save_state_def split: sum.split prod.split bool.split)
qed

lemma demo_loop:
  "\<exists>f s. publish_loop (demo_ctx cd) 12 2
    \<lparr>ru_state = demo_send (Some ''11111''), ru_files = fs, ru_trace = demo_before\<rparr>
   = Some (\<lparr>ru_state = s, ru_files = f, ru_trace = demo_trace\<rparr>, Inr ())"
proof -
  obtain t2 t4 where tx: "loop_tx (demo_ctx cd) 2 = Inr t2" "si_hash t2 = 2" "loop_tx (demo_ctx cd) 4 = Inr t4" "si_hash t4 = 4"
    using demo_loop_tx by metis
  have r4: "replicate 4 CHR ''1'' = ''1111''" by (simp add: eval_nat_numeral)
  note l = publish_loop.simps(2) [of "demo_ctx cd" 11, simplified] publish_loop.simps(2) [of "demo_ctx cd" 10, simplified]
  have rd: "is_dropped (demo_status ''REJECTED'')" "rpc_agrees_dropped (Inr demo_rejected)"
    by (simp_all add: demo_status_def is_dropped_def rpc_agrees_dropped_def demo_rejected_def)
  show ?thesis
    apply (simp add: l tx Let_def PUBLISH_ATTEMPTS_def abind_def aret_def alift_def emit_def snoc_def demo_record demo_submit on_refusal_def demo_refused demo_refused2 FINAL_REFUSALS_def
      read_status_def really_dropped_def rd next_nonce_def)
    using demo_finish [of cd "fs\<lparr>f_sent := Some (demo_state 4 False)\<rparr>" demo_sent]
    by (auto simp: demo_felts demo_sent_def demo_trace_def r4)
qed

lemma demo_fresh:
  "\<exists>f s. publish_fresh unary_crates demo_route demo_gateway demo_world 2 demo_public []
      \<lparr>ru_state = demo_send (Some ''11111''), ru_files = ru_files demo_run, ru_trace = take 3 demo_before\<rparr>
   = Some (\<lparr>ru_state = s, ru_files = f, ru_trace = demo_trace\<rparr>, Inr ())"
proof -
  have w: "publish_after_block (demo_send h) = Some 20" "wait_for_head 20 False (wd_heads demo_world) = Some ([Waiting 20 1], Inr ())" for h
    by (simp_all add: demo_send_def demo_world_def)
  have k: "store_felt unary_crates 17 (wd_rpc demo_world) ''is_known_root'' [3] None = Inr (Suc 0)"
    by (simp add: store_felt_def store_call_def demo_world_def of_opt_def demo_felts str_or_def)
  have r: "p_root demo_public = 3" "r_prover demo_route = 18" "r_store demo_route = 17"
    by (simp_all add: demo_public_def demo_route_def)
  have vp: "f_proof (ru_files demo_run) = Some \<lparr>vp_proof = ''p'', vp_facts = [[], [], [], [], ''11'', [], [], ''1'', []]\<rparr>"
    by (simp add: demo_run_def)
  have facts: "proof_facts_of unary_crates \<lparr>vp_proof = ''p'', vp_facts = [[], [], [], [], ''11'', [], [], ''1'', []]\<rparr> = Inr [0,0,0,0,2,0,0,1,0]"
    by (simp add: proof_facts_of_def demo_felts)
  have st: "st_base_block (demo_send h) = Some 2" "publish_nonce (demo_send h) = Some ''11''" "st_publish_bounds (demo_send h) = Some demo_bounds" for h
    by (simp_all add: demo_send_def)
  have ck: "check_facts [0,0,0,0,2,0,0,Suc 0,0] 0 2 = Inr ()" by (simp add: check_facts_def)
  have two: "Suc (Suc 0) = 2" by simp
  obtain cd where cd: "send_message_calldata_v4 unary_crates demo_public [] = Inr cd"
    by (simp add: send_message_calldata_v4_def demo_content demo_felts)
  show ?thesis
    using demo_loop [of cd "ru_files demo_run"]
    by (simp add: publish_fresh_def abind_def aret_def alift_def get_run_def emit_def w k vp r facts st ck cd demo_message demo_felts demo_ctx_def PUBLISH_ATTEMPTS_def of_opt_def snoc_def demo_before_def Let_def two)
qed

lemma demo_publish:
  "\<exists>f s. publish unary_crates demo_route demo_gateway demo_world demo_run = Some (\<lparr>ru_state = s, ru_files = f, ru_trace = demo_trace\<rparr>, Inr ())"
proof -
  have p: "position (\<lambda>s. step_kind s = Send_State.Publish) (steps (demo_send h)) = Some 2" "step_tx_hash (steps (demo_send h) ! 2) = h" for h
    by (simp_all add: demo_send_def demo_step_def numeral_2_eq_2)
  have s: "\<not> is_reverted (demo_status ''NOT_RECEIVED'')" "is_dropped (demo_status ''NOT_RECEIVED'')" "rpc_agrees_dropped (Inr demo_rejected)"
    "wd_saved_status demo_world = Inr (demo_status ''NOT_RECEIVED'')" "wd_saved_rpc demo_world = Inr demo_rejected"
    by (simp_all add: demo_status_def is_reverted_def is_dropped_def demo_world_def rpc_agrees_dropped_def demo_rejected_def)
  have r: "ru_state demo_run = demo_send (Some ''11111'')" "ru_trace demo_run = []"
    by (simp_all add: demo_run_def)
  have run: "demo_run\<lparr>ru_trace := t\<rparr> = \<lparr>ru_state = demo_send (Some ''11111''), ru_files = ru_files demo_run, ru_trace = t\<rparr>" for t
    by (simp add: demo_run_def)
  have five: "Suc (Suc (Suc (Suc (Suc 0)))) = 5" by simp
  have st: "r_store demo_route = 17" by (simp add: demo_route_def)
  show ?thesis
    using demo_fresh
    by (simp add: publish_def abind_def aret_def alift_def get_run_def emit_def snoc_def r p s run st of_opt_def demo_felts demo_publics read_status_def really_dropped_def demo_before_def five)
qed

section \<open>Witnesses\<close>

theorem submissions_are_recorded_and_proven_witness:
  "\<exists>f s. publish unary_crates demo_route demo_gateway demo_world demo_run = Some (\<lparr>ru_state = s, ru_files = f, ru_trace = demo_trace\<rparr>, Inr ())
     \<and> demo_trace ! 7 = Posted 2 2 demo_bounds \<and> proven_tx unary_crates demo_route demo_gateway demo_run 2 2 demo_bounds"
proof -
  obtain f s where run: "publish unary_crates demo_route demo_gateway demo_world demo_run = Some (\<lparr>ru_state = s, ru_files = f, ru_trace = demo_trace\<rparr>, Inr ())"
    using demo_publish by blast
  have i: "7 < length (ru_trace \<lparr>ru_state = s, ru_files = f, ru_trace = demo_trace\<rparr>)"
    "ru_trace \<lparr>ru_state = s, ru_files = f, ru_trace = demo_trace\<rparr> ! 7 = Posted 2 2 demo_bounds"
    by (simp_all add: demo_trace_def demo_sent_def demo_before_def)
  have "ru_trace demo_run = []" by (simp add: demo_run_def)
  from submissions_are_recorded_and_proven [OF this run i] run i show ?thesis by auto
qed

theorem no_second_transaction_while_one_may_land_witness:
  "demo_trace ! 12 = Posted 4 4 demo_bounds \<and> 2 \<in> posted (saved_hash unary_crates (ru_state demo_run)) (take 12 demo_trace)
     \<and> dropped_since 2 (take 12 demo_trace) \<and> length (filter any_post demo_trace) \<le> 12"
proof -
  obtain f s where run: "publish unary_crates demo_route demo_gateway demo_world demo_run = Some (\<lparr>ru_state = s, ru_files = f, ru_trace = demo_trace\<rparr>, Inr ())"
    using demo_publish by blast
  have i: "12 < length demo_trace" "demo_trace ! 12 = Posted 4 4 demo_bounds" "demo_trace ! 7 = Posted 2 2 demo_bounds"
    by (simp_all add: demo_trace_def demo_sent_def demo_before_def)
  have "demo_trace ! 7 \<in> set (take 12 demo_trace)" using i(1) by (auto simp: in_set_conv_nth intro!: exI [of _ 7])
  then have p: "2 \<in> posted (saved_hash unary_crates (ru_state demo_run)) (take 12 demo_trace)"
    unfolding i(3) by (auto simp: posted_def intro!: bexI [of _ "Posted 2 2 demo_bounds"])
  have "ru_trace demo_run = []" by (simp add: demo_run_def)
  from no_second_transaction_while_one_may_land [OF this run] i p show ?thesis by fastforce
qed

theorem ticket_is_settled_once_on_evidence_witness:
  "demo_trace ! 15 = SpentTicket (Some ''1111'') \<and> spent_evidence unary_crates (take 15 demo_trace) (Some ''1111'')
     \<and> \<not> settled (take 15 demo_trace)"
proof -
  obtain f s where run: "publish unary_crates demo_route demo_gateway demo_world demo_run = Some (\<lparr>ru_state = s, ru_files = f, ru_trace = demo_trace\<rparr>, Inr ())"
    using demo_publish by blast
  have i: "15 < length demo_trace" "demo_trace ! 15 = SpentTicket (Some ''1111'')"
    by (simp_all add: demo_trace_def demo_sent_def demo_before_def)
  have "ru_trace demo_run = []" by (simp add: demo_run_def)
  from conjunct1 [OF ticket_is_settled_once_on_evidence [OF this run], rule_format, of 15] i
  show ?thesis by (simp add: settlement_def settled_settlement)
qed

theorem publish_gets_through_witness:
  "\<exists>r'. publish unary_crates demo_route demo_gateway demo_world demo_run = Some (r', Inr ()) \<and> nonces (ru_trace r') = [2, 4]
     \<and> went_through unary_crates 2 4 r'"
proof -
  let ?n = "\<lambda>i. if i = 0 then 2 else 4"
  obtain cd where cd: "send_message_calldata_v4 unary_crates demo_public [] = Inr cd"
    by (simp add: send_message_calldata_v4_def demo_content demo_felts)
  have r: "r_store demo_route = 17" "r_prover demo_route = 18" by (simp_all add: demo_route_def)
  have st: "st_base_block (ru_state demo_run) = Some 2" "publish_nonce (ru_state demo_run) = Some ''11''" "st_publish_bounds (ru_state demo_run) = Some demo_bounds"
    by (simp_all add: demo_run_def demo_send_def)
  have vp: "f_proof (ru_files demo_run) = Some \<lparr>vp_proof = ''p'', vp_facts = [[], [], [], [], ''11'', [], [], ''1'', []]\<rparr>"
    by (simp add: demo_run_def)
  have facts: "proof_facts_of unary_crates \<lparr>vp_proof = ''p'', vp_facts = [[], [], [], [], ''11'', [], [], ''1'', []]\<rparr> = Inr [0,0,0,0,2,0,0,1,0]"
    by (simp add: proof_facts_of_def demo_felts)
  have ck: "check_facts [0,0,0,0,2,0,0,Suc 0,0] 0 2 = Inr ()" by (simp add: check_facts_def)
  have two: "Suc (Suc 0) = 2" by simp
  have inputs: "first_try unary_crates demo_route demo_gateway demo_world 2 demo_public [] demo_run = Inr (demo_ctx cd, ?n 0)"
    by (simp add: first_try_def r st vp facts ck cd demo_message demo_felts demo_ctx_def of_opt_def two)
  have t2: "refused_as (demo_ctx cd) 0 2 (Rejected ''NONCE'' ''invalid'')" and t4: "taken (demo_ctx cd) 1 4 4"
    using demo_loop_tx [of cd 2] demo_loop_tx [of cd 4] by (auto simp: refused_as_def taken_def demo_submit)
  have "stale (demo_ctx cd) 0 2 4"
    unfolding stale_def
    by (rule exI [of _ "Rejected ''NONCE'' ''invalid''"], rule exI [of _ "demo_status ''REJECTED''"], rule exI [of _ 4])
      (simp add: t2 demo_refused demo_refused2 FINAL_REFUSALS_def demo_status_def is_dropped_def rpc_agrees_dropped_def demo_rejected_def next_nonce_def)
  then have retries: "\<forall>i < (1 :: nat). too_early (demo_ctx cd) i (?n i) (?n (Suc i)) \<or> stale (demo_ctx cd) i (?n i) (?n (Suc i))" by simp
  have "position (\<lambda>s. step_kind s = Send_State.Publish) (steps (ru_state demo_run)) = Some 2"
    by (simp add: demo_run_def demo_send_def demo_step_def numeral_2_eq_2)
  moreover have "hex_decode unary_crates (ciphertext_hex (ru_state demo_run)) = Some []" by (simp add: demo_felts)
  moreover have "public_from_state unary_crates (r_store demo_route) (ru_state demo_run) [] = Inr demo_public"
    using demo_publics [of "Some ''11111''"] by (simp add: demo_run_def demo_route_def)
  moreover have "unsent unary_crates demo_world (step_tx_hash (steps (ru_state demo_run) ! 2))"
    by (simp add: unsent_def demo_run_def demo_send_def demo_step_def numeral_2_eq_2 demo_felts)
      (simp add: demo_world_def demo_status_def is_reverted_def is_dropped_def rpc_agrees_dropped_def demo_rejected_def)
  moreover have "due (publish_after_block (ru_state demo_run)) (wd_heads demo_world)"
    by (auto simp: due_def demo_run_def demo_send_def demo_world_def intro!: exI [of _ "[19]"])
  moreover have "store_felt unary_crates (r_store demo_route) (wd_rpc demo_world) ''is_known_root'' [p_root demo_public] None = Inr 1"
    by (simp add: store_felt_def store_call_def demo_world_def of_opt_def demo_felts str_or_def demo_route_def demo_public_def)
  moreover have "wd_polls demo_world = [] @ (Inr (demo_status ''ACCEPTED_ON_L2''), False, False) # []" by (simp add: demo_world_def)
  moreover have "is_accepted (demo_status ''ACCEPTED_ON_L2'')" "\<not> is_reverted (demo_status ''ACCEPTED_ON_L2'')"
    by (simp_all add: demo_status_def is_accepted_def is_reverted_def)
  ultimately have "\<exists>r'. publish unary_crates demo_route demo_gateway demo_world demo_run = Some (r', Inr ()) \<and> nonces (ru_trace r') = map ?n [0..<Suc 1]
      \<and> went_through unary_crates 2 4 r'"
    using publish_gets_through [of demo_run 2 unary_crates "[]" demo_route demo_public demo_world demo_gateway "demo_ctx cd" ?n 1 4
        "[]" "demo_status ''ACCEPTED_ON_L2''" False False "[]"] inputs retries t4
    by (simp add: demo_run_def PUBLISH_ATTEMPTS_def)
  then show ?thesis by (simp add: upt_rec)
qed

end
