(* ===== verification/Keychain.thy ===== *)
theory Keychain
  imports Json Config "HOL-Library.AList"
begin

text \<open>
  \<^verbatim>\<open>core/src/keychain.rs\<close>: the store of generic passwords, by service and account. \<open>key_store\<close> is
  the trait (a record of its four methods); \<open>keychain\<close> is its contract, met by the in-memory
  store. The \<^verbatim>\<open>security\<close> tool's own runs are arguments of the \<open>cli_\<close> functions: an answer is what
  \<^verbatim>\<open>Command::output\<close> returned.

  Steps on a state that may fail keep what they did before failing: \<open>('s, 'a) st\<close>.
\<close>

section \<open>Steps\<close>

type_synonym ('s, 'a) st = "'s \<Rightarrow> 's \<times> 'a res"

definition sret :: "'a \<Rightarrow> ('s, 'a) st" where
  "sret x s = (s, Inr x)"

definition slift :: "'a res \<Rightarrow> ('s, 'a) st" where
  "slift r s = (s, r)"

definition sbind :: "('s, 'a) st \<Rightarrow> ('a \<Rightarrow> ('s, 'b) st) \<Rightarrow> ('s, 'b) st" where
  "sbind m f s = (case m s of (s', Inl e) \<Rightarrow> (s', Inl e) | (s', Inr x) \<Rightarrow> f x s')"

definition sget :: "('s, 's) st" where
  "sget s = (s, Inr s)"

definition smodify :: "('s \<Rightarrow> 's) \<Rightarrow> ('s, unit) st" where
  "smodify f s = (f s, Inr ())"

text \<open>\<^verbatim>\<open>.ok()\<close>: a failure is a value, what was done stays done.\<close>

definition sok :: "('s, 'a) st \<Rightarrow> ('s, 'a option) st" where
  "sok m s = (case m s of (s', r) \<Rightarrow> (s', Inr (ok_opt r)))"

named_theorems st_simps \<open>steps on a state\<close>

lemma st_basic [st_simps, simp]:
  "sret x s = (s, Inr x)" "slift r s = (s, r)" "sget s = (s, Inr s)" "smodify f s = (f s, Inr ())"
  by (simp_all add: sret_def slift_def sget_def smodify_def)

lemma sbind_Inr: "sbind m f s = (s'', Inr y) \<longleftrightarrow> (\<exists>s' x. m s = (s', Inr x) \<and> f x s' = (s'', Inr y))"
  by (auto simp: sbind_def split: prod.splits sum.splits)

lemma sbind_Inl: "sbind m f s = (s'', Inl e) \<longleftrightarrow> m s = (s'', Inl e) \<or> (\<exists>s' x. m s = (s', Inr x) \<and> f x s' = (s'', Inl e))"
  by (auto simp: sbind_def split: prod.splits sum.splits)

lemma sbind_step [st_simps]:
  "m s = (s', Inr x) \<Longrightarrow> sbind m f s = f x s'"
  "m s = (s', Inl e) \<Longrightarrow> sbind m f s = (s', Inl e)"
  by (simp_all add: sbind_def)

lemma sbind_slift: "sbind (slift (Inr x)) f = f x" "sbind (slift (Inl e)) f = slift (Inl e)"
  by (auto simp: sbind_def)

lemma sbind_sget: "sbind sget f s = f s s"
  by (simp add: sbind_def)

text \<open>Steps that move the state only along a relation.\<close>

definition stepwise :: "('s \<Rightarrow> 's \<Rightarrow> bool) \<Rightarrow> ('s, 'a) st \<Rightarrow> bool" where
  "stepwise R m = (\<forall>s. R s (fst (m s)))"

lemma steps_run: "stepwise R m \<Longrightarrow> m s = (s', r) \<Longrightarrow> R s s'"
  by (metis fst_conv stepwise_def)

locale step_rel =
  fixes R :: "'s \<Rightarrow> 's \<Rightarrow> bool"
  assumes stay: "R s s"
    and further: "R s s1 \<Longrightarrow> R s1 s2 \<Longrightarrow> R s s2"
begin

lemma steps_basic: "stepwise R (sret x)" "stepwise R (slift r)" "stepwise R sget"
  by (simp_all add: stepwise_def stay)

lemma steps_modify: "(\<And>s. R s (g s)) \<Longrightarrow> stepwise R (smodify g)"
  by (simp add: stepwise_def)

lemma steps_bind:
  assumes "stepwise R m" and "\<And>x. stepwise R (k x)"
  shows "stepwise R (sbind m k)"
  unfolding stepwise_def
proof
  fix s
  obtain s1 r where s1: "m s = (s1, r)" by fastforce
  show "R s (fst (sbind m k s))"
  proof (cases r)
    case (Inr x)
    have "R s1 (fst (k x s1))" using assms(2) by (simp add: stepwise_def)
    then show ?thesis using further [OF steps_run [OF assms(1) s1]] s1 Inr by (simp add: sbind_def)
  qed (use steps_run [OF assms(1) s1] s1 in \<open>simp add: sbind_def\<close>)
qed

lemma steps_ok: "stepwise R m \<Longrightarrow> stepwise R (sok m)"
  by (auto simp: stepwise_def sok_def split: prod.splits) (metis fst_conv)

lemma steps_cases:
  "(b \<Longrightarrow> stepwise R m) \<Longrightarrow> (\<not> b \<Longrightarrow> stepwise R n) \<Longrightarrow> stepwise R (if b then m else n)"
  "stepwise R m \<Longrightarrow> (\<And>x. stepwise R (f x)) \<Longrightarrow> stepwise R (case z of None \<Rightarrow> m | Some x \<Rightarrow> f x)"
  by (auto split: option.splits)

lemmas steps_intro = steps_basic steps_modify steps_bind steps_ok steps_cases

end

interpretation keep: step_rel "\<lambda>s s'. f s' = f s" for f
  by unfold_locales simp_all

section \<open>The trait\<close>

text \<open>What the Keychain holds: a profile key (bare or wrapped), or the app lock's JSON.\<close>

record lock_blob =
  lb_salt :: string
  lb_kdf :: "nat \<times> nat \<times> nat"
  lb_nonce :: string
  lb_wrapped :: string
  lb_fails :: nat
  lb_not_before :: nat

datatype item = KeyBytes bytes | LockItem lock_blob

record 'k key_store =
  ks_get :: "string \<Rightarrow> string \<Rightarrow> 'k \<Rightarrow> item option res"
  ks_put :: "string \<Rightarrow> string \<Rightarrow> item \<Rightarrow> ('k, unit) st"
  ks_delete :: "string \<Rightarrow> string \<Rightarrow> ('k, unit) st"
  ks_delete_all :: "string \<Rightarrow> ('k, nat) st"

locale keychain =
  fixes K :: "'k key_store"
  assumes put_get: "ks_put K s a v k = (k', Inr ()) \<Longrightarrow> ks_get K s a k' = Inr (Some v)"
    and put_frame: "ks_put K s a v k = (k', r) \<Longrightarrow> (s', a') \<noteq> (s, a) \<Longrightarrow> ks_get K s' a' k' = ks_get K s' a' k"
    and delete_get: "ks_delete K s a k = (k', Inr ()) \<Longrightarrow> ks_get K s a k' = Inr None"
    and delete_frame: "ks_delete K s a k = (k', r) \<Longrightarrow> (s', a') \<noteq> (s, a) \<Longrightarrow> ks_get K s' a' k' = ks_get K s' a' k"
    and delete_all_get: "ks_delete_all K s k = (k', Inr n) \<Longrightarrow> ks_get K s a k' = Inr None"
    and delete_all_frame: "ks_delete_all K s k = (k', d) \<Longrightarrow> s' \<noteq> s \<Longrightarrow> ks_get K s' a' k' = ks_get K s' a' k"
begin

text \<open>An item survives whatever is done to other services.\<close>

lemma other_service_kept:
  assumes "ks_delete_all K s k = (k', d)" and "ks_get K s' a k = Inr v" and "s' \<noteq> s"
  shows "ks_get K s' a k' = Inr v"
  using delete_all_frame [OF assms(1,3)] assms(2) by simp

lemma put_put:
  assumes "ks_put K s a v k = (k1, r1)" and "ks_put K s a w k1 = (k2, Inr ())"
  shows "ks_get K s a k2 = Inr (Some w)" and "(s', a') \<noteq> (s, a) \<Longrightarrow> ks_get K s' a' k2 = ks_get K s' a' k"
  using put_get [OF assms(2)] put_frame [OF assms(2)] put_frame [OF assms(1)] by auto

end

section \<open>In memory\<close>

type_synonym memory = "((string \<times> string) \<times> item) list"

definition mem_get :: "string \<Rightarrow> string \<Rightarrow> memory \<Rightarrow> item option res" where
  "mem_get s a m = Inr (map_of m (s, a))"

definition mem_put :: "string \<Rightarrow> string \<Rightarrow> item \<Rightarrow> (memory, unit) st" where
  "mem_put s a v m = (AList.update (s, a) v m, Inr ())"

definition mem_delete :: "string \<Rightarrow> string \<Rightarrow> (memory, unit) st" where
  "mem_delete s a m = (AList.delete (s, a) m, Inr ())"

definition mem_delete_all :: "string \<Rightarrow> (memory, nat) st" where
  "mem_delete_all s m = (let kept = filter (\<lambda>kv. fst (fst kv) \<noteq> s) m in (kept, Inr (length m - length kept)))"

definition memory_store :: "memory key_store" where
  "memory_store = \<lparr>ks_get = mem_get, ks_put = mem_put, ks_delete = mem_delete, ks_delete_all = mem_delete_all\<rparr>"

lemma memory_store_sel [simp]:
  "ks_get memory_store = mem_get" "ks_put memory_store = mem_put"
  "ks_delete memory_store = mem_delete" "ks_delete_all memory_store = mem_delete_all"
  by (simp_all add: memory_store_def)

lemma map_of_filter_service:
  "map_of (filter (\<lambda>kv. fst (fst kv) \<noteq> s) m) (s', a) = (if s' = s then None else map_of m (s', a))"
  by (induction m) auto

interpretation mem: keychain memory_store
  by unfold_locales
    (auto simp: mem_get_def mem_put_def mem_delete_def mem_delete_all_def Let_def update_conv' delete_conv' map_of_filter_service)

section \<open>The security tool\<close>

definition is_token_char :: "char \<Rightarrow> bool" where
  "is_token_char c =
     (let n = of_char c :: nat
      in 48 \<le> n \<and> n \<le> 57 \<or> 65 \<le> n \<and> n \<le> 90 \<or> 97 \<le> n \<and> n \<le> 122 \<or> c = CHR ''.'' \<or> c = CHR ''-'' \<or> c = CHR ''_'')"

definition check_token :: "string \<Rightarrow> unit res" where
  "check_token t = ensure (t \<noteq> [] \<and> length t \<le> 128 \<and> list_all is_token_char t) (Lock BadId) (Inr ())"

definition service :: "string option \<Rightarrow> string \<Rightarrow> string" where
  "service ns base =
     (case ns of Some n \<Rightarrow> if n \<noteq> [] then n @ ''.'' @ base else base | None \<Rightarrow> base)"

text \<open>The exit status (\<open>None\<close>: killed by a signal) and the standard output.\<close>

type_synonym cmd_output = "(int option \<times> string) res"

definition ERR_SEC_ITEM_NOT_FOUND :: int where "ERR_SEC_ITEM_NOT_FOUND = 44"
definition DELETE_ALL_LIMIT :: nat where "DELETE_ALL_LIMIT = 10000"

definition checked :: "string \<Rightarrow> string \<Rightarrow> 'a res \<Rightarrow> 'a res" where
  "checked s a r = rbind (check_token s) (\<lambda>_. rbind (check_token a) (\<lambda>_. r))"

definition cli_get :: "crates \<Rightarrow> string \<Rightarrow> string \<Rightarrow> cmd_output \<Rightarrow> bytes option res" where
  "cli_get C s a out =
     checked s a (rbind out (\<lambda>(code, stdout).
       if code = Some ERR_SEC_ITEM_NOT_FOUND then Inr None
       else ensure (code = Some 0) (File IoError) (
            rbind (of_opt (Decode BadHex) (hex_decode C (trim_ws stdout))) (\<lambda>v. Inr (Some v)))))"

text \<open>The line \<^verbatim>\<open>security -i\<close> reads on its standard input.\<close>

definition add_line :: "crates \<Rightarrow> string \<Rightarrow> string \<Rightarrow> bytes \<Rightarrow> string" where
  "add_line C s a v = ''add-generic-password -U -s '' @ s @ '' -a '' @ a @ '' -l '' @ s @ '' -w '' @ hex_encode C v @ [CHR 0x0A]"

text \<open>\<open>default\<close>, \<open>add\<close> and \<open>back\<close> are the runs of \<^verbatim>\<open>default-keychain\<close>, \<^verbatim>\<open>-i\<close> and the reading back.\<close>

definition cli_put :: "crates \<Rightarrow> string \<Rightarrow> string \<Rightarrow> bytes \<Rightarrow> cmd_output \<Rightarrow> cmd_output \<Rightarrow> cmd_output \<Rightarrow> unit res" where
  "cli_put C s a v dflt add back =
     checked s a (rbind dflt (\<lambda>(code, _).
       ensure (code = Some 0) (File IoError) (
       rbind add (\<lambda>_.
       rbind (cli_get C s a back) (\<lambda>got.
       ensure (got = Some v) (File NotMatching) (Inr ()))))))"

definition cli_delete :: "crates \<Rightarrow> string \<Rightarrow> string \<Rightarrow> cmd_output \<Rightarrow> cmd_output \<Rightarrow> unit res" where
  "cli_delete C s a out back =
     checked s a (rbind out (\<lambda>(code, _).
       ensure (code = Some 0 \<or> code = Some ERR_SEC_ITEM_NOT_FOUND) (File IoError) (
       rbind (cli_get C s a back) (\<lambda>got.
       ensure (got = None) (File NotMatching) (Inr ())))))"

text \<open>The runs of the loop in turn; it asks for no more than it needs.\<close>

fun cli_delete_loop :: "nat \<Rightarrow> nat \<Rightarrow> cmd_output list \<Rightarrow> nat res option" where
  "cli_delete_loop n 0 outs = Some (Inl (File IoError))"
| "cli_delete_loop n (Suc left) [] = None"
| "cli_delete_loop n (Suc left) (out # outs) =
     (case out of
        Inl e \<Rightarrow> Some (Inl e)
      | Inr (code, _) \<Rightarrow>
          if code = Some ERR_SEC_ITEM_NOT_FOUND then Some (Inr n)
          else if code = Some 0 then cli_delete_loop (n + 1) left outs
          else Some (Inl (File IoError)))"

definition cli_delete_all :: "string \<Rightarrow> cmd_output list \<Rightarrow> nat res option" where
  "cli_delete_all s outs =
     (case check_token s of Inl e \<Rightarrow> Some (Inl e) | Inr _ \<Rightarrow> cli_delete_loop 0 DELETE_ALL_LIMIT outs)"

section \<open>Lemmas\<close>

lemma check_token_Inr: "check_token t = Inr () \<longleftrightarrow> t \<noteq> [] \<and> length t \<le> 128 \<and> list_all is_token_char t"
  by (simp add: check_token_def res_inv)

lemma token_not_special:
  assumes "is_token_char c"
  shows "\<not> is_space c" "c \<noteq> CHR 0x0A" "c \<noteq> CHR 0x22"
proof -
  have "is_token_char CHR 0x0A = False" "is_token_char CHR 0x22 = False" by (simp_all add: is_token_char_def)
  then show "c \<noteq> CHR 0x0A" "c \<noteq> CHR 0x22" using assms by auto
  have "\<forall>c. is_space c \<longrightarrow> \<not> is_token_char c" by (simp add: is_space_def is_token_char_def)
  then show "\<not> is_space c" using assms by blast
qed

lemma cli_delete_loop_Inr:
  "cli_delete_loop n left outs = Some (Inr m) \<Longrightarrow>
     \<exists>k < left. m = n + k \<and> k < length outs \<and> (\<forall>i < k. \<exists>s. outs ! i = Inr (Some 0, s)) \<and> (\<exists>s. outs ! k = Inr (Some ERR_SEC_ITEM_NOT_FOUND, s))"
proof (induction n left outs rule: cli_delete_loop.induct)
  case (3 n left out outs)
  then obtain code s where out: "out = Inr (code, s)" by (cases out) auto
  show ?case
  proof (cases "code = Some ERR_SEC_ITEM_NOT_FOUND")
    case True
    then show ?thesis using 3(2) out by (intro exI [of _ 0]) auto
  next
    case False
    then have zero: "code = Some 0" using 3(2) out by (auto split: if_splits)
    then have "cli_delete_loop (n + 1) left outs = Some (Inr m)" using 3(2) out False by simp
    with "3.IH" [OF out refl False zero] obtain k where k: "k < left" "m = n + 1 + k" "k < length outs"
      "\<forall>i < k. \<exists>s. outs ! i = Inr (Some 0, s)" "\<exists>s. outs ! k = Inr (Some ERR_SEC_ITEM_NOT_FOUND, s)" by blast
    then show ?thesis using out zero
      by (intro exI [of _ "Suc k"]) (auto simp: less_Suc_eq_0_disj)
  qed
qed auto

end
