(* ===== verification/Disk.thy ===== *)
theory Disk
  imports Keychain
begin

text \<open>
  The part of \<^verbatim>\<open>std::fs\<close> the profiles use. A path is its list of components; a disk is the entries
  it holds, in the order a directory lists them, and the paths on which an operation fails. Links
  are those whose target is missing: \<^verbatim>\<open>exists\<close> follows them and \<^verbatim>\<open>symlink_metadata\<close> does not. A
  temporary file that is renamed at once is not shown.
\<close>

type_synonym path = "string list"

datatype node = Dir | Document bytes | Link

record disk =
  entries :: "(path \<times> node) list"
  bad :: "path \<Rightarrow> bool"

definition node_at :: "disk \<Rightarrow> path \<Rightarrow> node option" where
  "node_at d p = map_of (entries d) p"

definition is_dir :: "disk \<Rightarrow> path \<Rightarrow> bool" where
  "is_dir d p = (node_at d p = Some Dir)"

definition is_file :: "disk \<Rightarrow> path \<Rightarrow> bool" where
  "is_file d p = (case node_at d p of Some (Document b) \<Rightarrow> True | _ \<Rightarrow> False)"

definition file_exists :: "disk \<Rightarrow> path \<Rightarrow> bool" where
  "file_exists d p = (is_dir d p \<or> is_file d p)"

text \<open>\<^verbatim>\<open>symlink_metadata().is_ok()\<close>.\<close>

definition entry_exists :: "disk \<Rightarrow> path \<Rightarrow> bool" where
  "entry_exists d p = (node_at d p \<noteq> None)"

definition within :: "path \<Rightarrow> path \<Rightarrow> bool" where
  "within p q = (take (length p) q = p)"

definition children :: "disk \<Rightarrow> path \<Rightarrow> path list" where
  "children d p = filter (\<lambda>q. q \<noteq> [] \<and> butlast q = p) (map fst (entries d))"

definition read_dir :: "disk \<Rightarrow> path \<Rightarrow> path list res" where
  "read_dir d p = ensure (is_dir d p \<and> \<not> bad d p) (File IoError) (Inr (children d p))"

definition read_bytes :: "disk \<Rightarrow> path \<Rightarrow> bytes res" where
  "read_bytes d p =
     ensure (\<not> bad d p) (File IoError)
       (case node_at d p of Some (Document b) \<Rightarrow> Inr b | _ \<Rightarrow> Inl (File Missing))"

definition put_entry :: "path \<Rightarrow> node \<Rightarrow> disk \<Rightarrow> disk" where
  "put_entry p n d = d\<lparr>entries := AList.update p n (entries d)\<rparr>"

definition write_bytes :: "path \<Rightarrow> bytes \<Rightarrow> (disk, unit) st" where
  "write_bytes p b d =
     (if bad d p \<or> \<not> is_dir d (butlast p) \<or> is_dir d p then (d, Inl (File IoError))
      else (put_entry p (Document b) d, Inr ()))"

text \<open>\<^verbatim>\<open>create_dir_all\<close>: the missing directories down to the last component.\<close>

fun make_dirs :: "path \<Rightarrow> path \<Rightarrow> (disk, unit) st" where
  "make_dirs base [] d = (d, Inr ())"
| "make_dirs base (c # cs) d =
     (let p = base @ [c]
      in if is_dir d p then make_dirs p cs d
         else if entry_exists d p \<or> bad d p then (d, Inl (File IoError))
         else make_dirs p cs (put_entry p Dir d))"

definition create_dir_all :: "path \<Rightarrow> (disk, unit) st" where
  "create_dir_all p = make_dirs [] p"

definition drop_entries :: "(path \<Rightarrow> bool) \<Rightarrow> disk \<Rightarrow> disk" where
  "drop_entries P d = d\<lparr>entries := filter (\<lambda>e. \<not> P (fst e)) (entries d)\<rparr>"

definition remove_file :: "path \<Rightarrow> (disk, unit) st" where
  "remove_file p d =
     (if bad d p \<or> \<not> entry_exists d p \<or> is_dir d p then (d, Inl (File IoError))
      else (drop_entries (\<lambda>q. q = p) d, Inr ()))"

definition remove_dir :: "path \<Rightarrow> (disk, unit) st" where
  "remove_dir p d =
     (if bad d p \<or> \<not> is_dir d p \<or> children d p \<noteq> [] then (d, Inl (File IoError))
      else (drop_entries (\<lambda>q. q = p) d, Inr ()))"

definition remove_dir_all :: "path \<Rightarrow> (disk, unit) st" where
  "remove_dir_all p d =
     (if bad d p \<or> \<not> is_dir d p then (d, Inl (File IoError))
      else (drop_entries (within p) d, Inr ()))"

text \<open>\<^verbatim>\<open>rename\<close> replaces what is at the target: a file or a link anything that is not a directory,
  a directory an empty directory. A path renamed to itself stays, and nothing goes below itself.\<close>

definition replaceable :: "disk \<Rightarrow> path \<Rightarrow> path \<Rightarrow> bool" where
  "replaceable d p q =
     (case node_at d q of
        None \<Rightarrow> True
      | Some Dir \<Rightarrow> is_dir d p \<and> children d q = []
      | Some _ \<Rightarrow> \<not> is_dir d p)"

definition move_below :: "path \<Rightarrow> path \<Rightarrow> disk \<Rightarrow> disk" where
  "move_below p q d = d\<lparr>entries := map (\<lambda>e. if within p (fst e) then (q @ drop (length p) (fst e), snd e) else e) (entries d)\<rparr>"

definition rename :: "path \<Rightarrow> path \<Rightarrow> (disk, unit) st" where
  "rename p q d =
     (if bad d p \<or> bad d q \<or> \<not> entry_exists d p then (d, Inl (File IoError))
      else if p = q then (d, Inr ())
      else if within p q \<or> \<not> is_dir d (butlast q) \<or> \<not> replaceable d p q then (d, Inl (File IoError))
      else (move_below p q (drop_entries (\<lambda>r. r = q) d), Inr ()))"

section \<open>Lemmas\<close>

lemma within_refl [simp]: "within p p"
  by (simp add: within_def)

lemma within_append: "within p q \<longleftrightarrow> (\<exists>r. q = p @ r)"
  by (metis append_eq_conv_conj append_take_drop_id within_def)

lemma within_trans: "within p q \<Longrightarrow> within q r \<Longrightarrow> within p r"
  by (auto simp: within_append)

lemma node_at_put [simp]: "node_at (put_entry p n d) q = (if q = p then Some n else node_at d q)"
  by (simp add: node_at_def put_entry_def update_conv')

lemma map_of_filter_not: "map_of (filter (\<lambda>e. \<not> P (fst e)) xs) q = (if P q then None else map_of xs q)"
  by (induction xs) auto

lemma node_at_drop [simp]: "node_at (drop_entries P d) q = (if P q then None else node_at d q)"
  by (simp add: node_at_def drop_entries_def map_of_filter_not)

lemma bad_kept [simp]: "bad (put_entry p n d) = bad d" "bad (drop_entries P d) = bad d"
  by (simp_all add: put_entry_def drop_entries_def)

text \<open>What lies outside the moved subtree and the target is untouched; the subtree is at its new
  place.\<close>

lemma map_of_moved:
  assumes "\<not> within p q" and "\<not> within q p"
    and free: "\<And>r. within q r \<Longrightarrow> map_of xs r = None"
  shows "map_of (map (\<lambda>e. if within p (fst e) then (q @ drop (length p) (fst e), snd e) else e) xs) r
       = (if within q r then map_of xs (p @ drop (length q) r) else if within p r then None else map_of xs r)"
  using free
proof (induction xs)
  case (Cons x xs)
  obtain a n where x: "x = (a, n)" by (cases x)
  have a: "\<not> within q a" using Cons.prems [of a] by (auto simp: x)
  have free: "map_of xs r = None" if "within q r" for r
    using Cons.prems [OF that] by (simp add: x split: if_splits)
  have not_both: "within q r \<Longrightarrow> \<not> within p r" for r
    using assms(1,2) by (auto simp: within_append append_eq_append_conv2)
  show ?case
  proof (cases "within p a")
    case True
    then obtain s where s: "a = p @ s" by (auto simp: within_append)
    show ?thesis using Cons.IH [OF free] not_both s by (auto simp: x within_append)
  next
    case False
    then show ?thesis using Cons.IH [OF free] a by (auto simp: x within_append)
  qed
qed (auto simp: within_append)

lemma drop_nothing: "node_at d q = None \<Longrightarrow> drop_entries (\<lambda>r. r = q) d = d"
proof -
  assume "node_at d q = None"
  then have "q \<notin> fst ` set (entries d)" by (simp add: node_at_def map_of_eq_None_iff)
  then have "filter (\<lambda>e. fst e \<noteq> q) (entries d) = entries d" by (auto intro!: filter_True)
  then show ?thesis by (simp add: drop_entries_def)
qed

text \<open>Onto a free path, \<^verbatim>\<open>rename\<close> is a move.\<close>

lemma rename_free:
  assumes "rename p q d = (d', Inr ())" and "node_at d q = None"
  shows "d' = move_below p q d" "\<not> within p q" "is_dir d (butlast q)" "node_at d p \<noteq> None" "\<not> bad d p" "\<not> bad d q"
  using assms by (auto simp: rename_def entry_exists_def drop_nothing split: if_splits)

lemma rename_into_free:
  "node_at d q = None \<Longrightarrow> node_at d p \<noteq> None \<Longrightarrow> \<not> within p q \<Longrightarrow> is_dir d (butlast q) \<Longrightarrow> \<not> bad d p \<Longrightarrow> \<not> bad d q \<Longrightarrow>
     rename p q d = (move_below p q d, Inr ())"
  by (auto simp: rename_def entry_exists_def replaceable_def drop_nothing)

lemma bad_move [simp]: "bad (move_below p q d) = bad d"
  by (simp add: move_below_def)

lemma rename_refused: "rename p q d = (d', Inl e) \<Longrightarrow> d' = d"
  by (auto simp: rename_def split: if_splits)

lemma rename_node_at:
  assumes "rename p q d = (d', Inr ())" and below: "\<And>r. within q r \<Longrightarrow> node_at d r = None" and "\<not> within q p"
  shows "node_at d' r = (if within q r then node_at d (p @ drop (length q) r) else if within p r then None else node_at d r)"
  using map_of_moved [of p q "entries d" r] rename_free(1,2) [OF assms(1) below] assms(2,3) by (simp add: node_at_def move_below_def)

end
