(* ===== verification/App_Lock.thy ===== *)
theory App_Lock
  imports Disk TxPolicy Tickets Send_State
begin

text \<open>
  \<^verbatim>\<open>core/src/applock.rs\<close>: the app PIN. One master key wraps every profile key and is stored only
  wrapped under the PIN, with the count of failed attempts. \<open>device\<close> is what the process and the
  machine hold: the Keychain (through the trait's methods in \<open>env\<close>), the caches in memory, the
  disk. Times, random draws and the file lock are arguments. A character of a PIN is one byte of
  its UTF-8 form.
\<close>

section \<open>The device\<close>

text \<open>\<^verbatim>\<open>serde_json\<close> on the documents the profiles hold.\<close>

record serde =
  sd_vault_print :: "string \<Rightarrow> bytes"
  sd_vault_parse :: "bytes \<Rightarrow> string option"
  sd_config :: "bytes \<Rightarrow> config option"
  sd_keys :: "bytes \<Rightarrow> profile_keys option"
  sd_setup_account :: "bytes \<Rightarrow> string option"
  sd_wallet_print :: "wallet \<Rightarrow> bytes"
  sd_wallet_parse :: "bytes \<Rightarrow> wallet option"
  sd_send :: "bytes \<Rightarrow> send_state option"
  sd_json_parse :: "bytes \<Rightarrow> json option"
  sd_json_print :: "json \<Rightarrow> bytes"

record 'k env =
  e_crates :: crates
  e_keys :: "'k key_store"
  e_ns :: "string option"
  e_serde :: serde

record 'k device =
  dv_chain :: 'k
  dv_cache :: "string \<Rightarrow> bytes option"
  dv_master :: "bytes option"
  dv_wiped :: bool
  dv_disk :: disk

definition on_chain :: "('k, 'a) st \<Rightarrow> ('k device, 'a) st" where
  "on_chain m d = (case m (dv_chain d) of (k, r) \<Rightarrow> (d\<lparr>dv_chain := k\<rparr>, r))"

definition on_disk :: "(disk, 'a) st \<Rightarrow> ('k device, 'a) st" where
  "on_disk m d = (case m (dv_disk d) of (x, r) \<Rightarrow> (d\<lparr>dv_disk := x\<rparr>, r))"

definition keys_lookup :: "'k env \<Rightarrow> string \<Rightarrow> string \<Rightarrow> ('k device, item option) st" where
  "keys_lookup E s a d = (d, ks_get (e_keys E) (service (e_ns E) s) a (dv_chain d))"

section \<open>The stored lock\<close>

definition SERVICE :: string where "SERVICE = ''zkmsg.app-lock''"
definition ACCOUNT :: string where "ACCOUNT = ''lock''"
definition MAX_ATTEMPTS :: nat where "MAX_ATTEMPTS = 10"
definition FREE_ATTEMPTS :: nat where "FREE_ATTEMPTS = 4"
definition WAITS :: "nat list" where "WAITS = [30, 60, 300, 900, 3600]"
definition MIN_PIN_LEN :: nat where "MIN_PIN_LEN = 6"
definition MAX_PIN_LEN :: nat where "MAX_PIN_LEN = 64"
definition LOCK_AAD :: bytes where "LOCK_AAD = str_bytes ''zkmsg app-lock v1''"
definition KDF :: "nat \<times> nat \<times> nat" where "KDF = (256 * 1024, 3, 1)"

datatype lock_state = NotSet | Locked nat nat | Open

datatype unlock_outcome = Unlocked | Wrong nat nat | Wait nat | Wiped "string list"

definition lock_load :: "'k env \<Rightarrow> ('k device, lock_blob option) st" where
  "lock_load E =
     sbind (keys_lookup E SERVICE ACCOUNT) (\<lambda>it.
       case it of
         None \<Rightarrow> sret None
       | Some (LockItem b) \<Rightarrow> sret (Some b)
       | Some (KeyBytes x) \<Rightarrow> slift (Inl (Decode BadShape)))"

definition lock_save :: "'k env \<Rightarrow> lock_blob \<Rightarrow> ('k device, unit) st" where
  "lock_save E b = on_chain (ks_put (e_keys E) (service (e_ns E) SERVICE) ACCOUNT (LockItem b))"

definition wait_after :: "nat \<Rightarrow> nat" where
  "wait_after fails =
     (if fails \<le> FREE_ATTEMPTS then 0 else WAITS ! min (fails - FREE_ATTEMPTS - 1) (length WAITS - 1))"

definition lock_state_of :: "'k env \<Rightarrow> nat \<Rightarrow> ('k device, lock_state) st" where
  "lock_state_of E now =
     sbind sget (\<lambda>d.
       if dv_master d \<noteq> None then sret Open
       else sbind (lock_load E) (\<lambda>b.
         sret (case b of None \<Rightarrow> NotSet | Some b \<Rightarrow> Locked (lb_fails b) (lb_not_before b - now))))"

definition master_key :: "'k env \<Rightarrow> ('k device, bytes) st" where
  "master_key E =
     sbind sget (\<lambda>d.
       case dv_master d of
         Some mk \<Rightarrow> sret mk
       | None \<Rightarrow> sbind (lock_load E) (\<lambda>b. slift (Inl (Lock (if b = None then WasWiped else AppLocked)))))"

definition master_key_if_set :: "'k env \<Rightarrow> ('k device, bytes option) st" where
  "master_key_if_set E =
     sbind sget (\<lambda>d.
       case dv_master d of
         Some mk \<Rightarrow> sret (Some mk)
       | None \<Rightarrow> sbind (lock_load E) (\<lambda>b. if b = None then sret None else slift (Inl (Lock AppLocked))))"

section \<open>The PIN\<close>

definition is_control :: "char \<Rightarrow> bool" where
  "is_control c = (let n = of_char c :: nat in n < 32 \<or> n = 127)"

definition validate_pin :: "string \<Rightarrow> unit res" where
  "validate_pin pin =
     ensure (MIN_PIN_LEN \<le> length pin) (Lock BadPin) (
     ensure (length pin \<le> MAX_PIN_LEN) (Lock BadPin) (
     ensure (\<not> list_ex is_control pin) (Lock BadPin) (Inr ())))"

definition kek :: "crates \<Rightarrow> string \<Rightarrow> bytes \<Rightarrow> nat \<times> nat \<times> nat \<Rightarrow> bytes res" where
  "kek C pin salt kdf = of_opt (Crypto BadSecret) (argon2id C (str_bytes pin) salt kdf)"

definition wrap_master :: "crates \<Rightarrow> bytes \<Rightarrow> bytes \<Rightarrow> string \<Rightarrow> bytes \<Rightarrow> lock_blob res" where
  "wrap_master C salt nonce pin mk =
     rbind (kek C pin salt KDF) (\<lambda>k.
     Inr \<lparr>lb_salt = hex_encode C salt, lb_kdf = KDF, lb_nonce = hex_encode C nonce,
          lb_wrapped = hex_encode C (gcm_seal C k nonce LOCK_AAD mk), lb_fails = 0, lb_not_before = 0\<rparr>)"

text \<open>\<^verbatim>\<open>Nonce::from_slice\<close> panics on a wrong length.\<close>

definition unwrap_master :: "crates \<Rightarrow> string \<Rightarrow> lock_blob \<Rightarrow> bytes option res" where
  "unwrap_master C pin b =
     rbind (of_opt (Decode BadHex) (hex_decode C (lb_salt b))) (\<lambda>salt.
     rbind (kek C pin salt (lb_kdf b)) (\<lambda>k.
     rbind (of_opt (Decode BadHex) (hex_decode C (lb_nonce b))) (\<lambda>nonce.
     ensure (length nonce = 12) Panic (
     rbind (of_opt (Decode BadHex) (hex_decode C (lb_wrapped b))) (\<lambda>w.
     case gcm_open C k nonce LOCK_AAD w of
       None \<Rightarrow> Inr None
     | Some mk \<Rightarrow> ensure (length mk = 32) (Crypto BadSecret) (Inr (Some mk)))))))"

section \<open>Attempts\<close>

text \<open>\<open>serial\<close>: taking the file lock. \<open>now\<close>: the clock at its two readings. \<open>wipe\<close>: the panic wipe.\<close>

definition settle_attempt :: "'k env \<Rightarrow> ('k device, string list) st \<Rightarrow> lock_blob \<Rightarrow> bytes option \<Rightarrow> ('k device, unlock_outcome) st" where
  "settle_attempt E wipe b m =
     (case m of
        Some mk \<Rightarrow>
          sbind (lock_save E (b\<lparr>lb_fails := 0, lb_not_before := 0\<rparr>)) (\<lambda>_.
          sbind (smodify (\<lambda>d. d\<lparr>dv_master := Some mk\<rparr>)) (\<lambda>_.
          sret Unlocked))
      | None \<Rightarrow>
          if MAX_ATTEMPTS \<le> lb_fails b then sbind wipe (\<lambda>errors. sret (Wiped errors))
          else sret (Wrong (MAX_ATTEMPTS - lb_fails b) (wait_after (lb_fails b))))"

definition unlock :: "'k env \<Rightarrow> unit res \<Rightarrow> nat \<times> nat \<Rightarrow> ('k device, string list) st \<Rightarrow> string \<Rightarrow> ('k device, unlock_outcome) st" where
  "unlock E serial now wipe pin =
     sbind (slift serial) (\<lambda>_.
     sbind (lock_load E) (\<lambda>stored.
     sbind (slift (of_opt (Lock NoPin) stored)) (\<lambda>b.
     if fst now < lb_not_before b then sret (Wait (lb_not_before b - fst now))
     else
       let fails = lb_fails b + 1
       in sbind (slift (ensure (fails < 2 ^ 32) Overflow (u64_add (snd now) (wait_after fails)))) (\<lambda>until.
          let counted = b\<lparr>lb_fails := fails, lb_not_before := until\<rparr>
          in sbind (lock_save E counted) (\<lambda>_.
             sbind (slift (unwrap_master (e_crates E) pin counted)) (\<lambda>m.
             settle_attempt E wipe counted m))))))"

text \<open>The new lock is read back.\<close>

definition save_and_read_back :: "'k env \<Rightarrow> string \<Rightarrow> bytes \<Rightarrow> lock_blob \<Rightarrow> ('k device, unit) st" where
  "save_and_read_back E pin mk b =
     sbind (lock_save E b) (\<lambda>_.
     sbind (lock_load E) (\<lambda>stored.
     sbind (slift (of_opt (File Missing) stored)) (\<lambda>b'.
     sbind (slift (unwrap_master (e_crates E) pin b')) (\<lambda>m.
     slift (ensure (m = Some mk) (File NotMatching) (Inr ()))))))"

definition change_pin :: "'k env \<Rightarrow> unit res \<Rightarrow> nat \<times> nat \<Rightarrow> ('k device, string list) st \<Rightarrow> bytes \<times> bytes \<Rightarrow> string \<Rightarrow> string \<Rightarrow> ('k device, unlock_outcome) st" where
  "change_pin E serial now wipe draws old new =
     sbind (slift (validate_pin new)) (\<lambda>_.
     sbind (unlock E serial now wipe old) (\<lambda>outcome.
     if outcome \<noteq> Unlocked then sret outcome
     else sbind (master_key E) (\<lambda>mk.
          sbind (slift (wrap_master (e_crates E) (fst draws) (snd draws) new mk)) (\<lambda>b.
          sbind (save_and_read_back E new mk b) (\<lambda>_.
          sret Unlocked)))))"

definition forget_keys :: "'k device \<Rightarrow> 'k device" where
  "forget_keys d = d\<lparr>dv_cache := Map.empty\<rparr>"

definition lock_app :: "'k device \<Rightarrow> 'k device" where
  "lock_app d = forget_keys (d\<lparr>dv_master := None\<rparr>)"

definition destroy :: "'k env \<Rightarrow> ('k device, unit) st" where
  "destroy E = sbind (smodify lock_app) (\<lambda>_. on_chain (ks_delete (e_keys E) (service (e_ns E) SERVICE) ACCOUNT))"

section \<open>Lemmas\<close>

lemma lock_load_state: "lock_load E d = (d', r) \<Longrightarrow> d' = d"
  by (auto simp: lock_load_def sbind_def keys_lookup_def split: sum.splits option.splits item.splits)

lemma lock_load_item:
  "lock_load E d = (d', Inr (Some b)) \<longleftrightarrow> d' = d \<and> ks_get (e_keys E) (service (e_ns E) SERVICE) ACCOUNT (dv_chain d) = Inr (Some (LockItem b))"
  by (auto simp: lock_load_def sbind_def keys_lookup_def split: sum.splits option.splits item.splits)

lemma lock_save_device:
  "lock_save E b d = (d', r) \<Longrightarrow> d' = d\<lparr>dv_chain := dv_chain d'\<rparr> \<and>
     ks_put (e_keys E) (service (e_ns E) SERVICE) ACCOUNT (LockItem b) (dv_chain d) = (dv_chain d', r)"
  by (auto simp: lock_save_def on_chain_def split: prod.splits)

context keychain begin

lemma save_then_load:
  assumes "e_keys E = K" and "lock_save E b d = (d', Inr ())"
  shows "lock_load E d' = (d', Inr (Some b))"
  using put_get lock_save_device [OF assms(2)] assms(1) by (auto simp: lock_load_item)

end

text \<open>The counter is not part of what the PIN opens.\<close>

lemma unwrap_counter [simp]: "unwrap_master C pin (b\<lparr>lb_fails := n, lb_not_before := t\<rparr>) = unwrap_master C pin b"
  by (simp add: unwrap_master_def)

text \<open>The lock with one more failure, and what one attempt at it comes to.\<close>

definition counted_failure :: "nat \<times> nat \<Rightarrow> lock_blob \<Rightarrow> lock_blob" where
  "counted_failure now b = b\<lparr>lb_fails := lb_fails b + 1, lb_not_before := snd now + wait_after (lb_fails b + 1)\<rparr>"

lemma counted_failure_sel [simp]: "lb_fails (counted_failure now b) = lb_fails b + 1"
  "unwrap_master C pin (counted_failure now b) = unwrap_master C pin b"
  by (simp_all add: counted_failure_def)

lemma other_crates [simp]: "lock_load (E\<lparr>e_crates := C\<rparr>) = lock_load E" "lock_save (E\<lparr>e_crates := C\<rparr>) = lock_save E"
  by (simp_all add: lock_load_def lock_save_def [abs_def] keys_lookup_def [abs_def])

definition countable_failure :: "nat \<times> nat \<Rightarrow> lock_blob \<Rightarrow> bool" where
  "countable_failure now b = (lb_fails b + 1 < 2 ^ 32 \<and> snd now + wait_after (lb_fails b + 1) < 2 ^ 64)"

lemma counting: "ensure (lb_fails b + 1 < 2 ^ 32) Overflow (u64_add (snd now) (wait_after (lb_fails b + 1)))
   = (if countable_failure now b then Inr (snd now + wait_after (lb_fails b + 1)) else Inl Overflow)"
  by (auto simp: countable_failure_def ensure_def u64_add_def)

lemma unlock_eq:
  assumes b: "lock_load E d = (d, Inr (Some b))"
  shows "unlock E serial now wipe pin d =
     (case serial of Inl e \<Rightarrow> (d, Inl e) | Inr _ \<Rightarrow>
        if fst now < lb_not_before b then (d, Inr (Wait (lb_not_before b - fst now)))
        else if \<not> countable_failure now b then (d, Inl Overflow)
        else case lock_save E (counted_failure now b) d of
               (d1, Inl e) \<Rightarrow> (d1, Inl e)
             | (d1, Inr _) \<Rightarrow>
                 (case unwrap_master (e_crates E) pin b of
                    Inl e \<Rightarrow> (d1, Inl e)
                  | Inr m \<Rightarrow> settle_attempt E wipe (counted_failure now b) m d1))"
  unfolding unlock_def Let_def counting
  by (cases serial) (auto simp: sbind_def b counted_failure_def split: sum.split prod.split)

text \<open>An answer that tells nothing about the PIN: whatever PIN were tried, and whatever its check came
  to, it would have been the same.\<close>

definition silent :: "'k env \<Rightarrow> unit res \<Rightarrow> nat \<times> nat \<Rightarrow> ('k device, string list) st \<Rightarrow> 'k device \<Rightarrow> 'k device \<times> unlock_outcome res \<Rightarrow> bool" where
  "silent E serial now wipe d ans = (\<forall>C pin. unlock (E\<lparr>e_crates := C\<rparr>) serial now wipe pin d = ans)"

text \<open>What an attempt can end in, error or outcome.\<close>

definition attempt_kept :: "'k env \<Rightarrow> unit res \<Rightarrow> nat \<times> nat \<Rightarrow> ('k device, string list) st \<Rightarrow> string \<Rightarrow> lock_blob \<Rightarrow> 'k device \<Rightarrow> 'k device \<Rightarrow> unlock_outcome res \<Rightarrow> bool" where
  "attempt_kept E serial now wipe pin b d d' r =
     (case r of
        Inl e \<Rightarrow> silent E serial now wipe d (d', r)
          \<or> (\<exists>d1. lock_load E d1 = (d1, Inr (Some (counted_failure now b)))
              \<and> (unwrap_master (e_crates E) pin b = Inl e \<and> d' = d1
                 \<or> unwrap_master (e_crates E) pin b = Inr None \<and> MAX_ATTEMPTS \<le> lb_fails b + 1 \<and> wipe d1 = (d', Inl e)
                 \<or> (\<exists>mk. unwrap_master (e_crates E) pin b = Inr (Some mk)
                      \<and> lock_save E (b\<lparr>lb_fails := 0, lb_not_before := 0\<rparr>) d1 = (d', Inl e))))
      | Inr (Wait secs) \<Rightarrow> silent E serial now wipe d (d', r) \<and> d' = d \<and> fst now < lb_not_before b \<and> secs = lb_not_before b - fst now
      | Inr Unlocked \<Rightarrow> (\<exists>mk. unwrap_master (e_crates E) pin b = Inr (Some mk) \<and> dv_master d' = Some mk)
          \<and> lock_load E d' = (d', Inr (Some (b\<lparr>lb_fails := 0, lb_not_before := 0\<rparr>)))
      | Inr (Wrong left secs) \<Rightarrow> unwrap_master (e_crates E) pin b = Inr None \<and> dv_master d' = dv_master d
          \<and> lock_load E d' = (d', Inr (Some (counted_failure now b)))
          \<and> left = MAX_ATTEMPTS - (lb_fails b + 1) \<and> 0 < left \<and> secs = wait_after (lb_fails b + 1)
      | Inr (Wiped errors) \<Rightarrow> unwrap_master (e_crates E) pin b = Inr None \<and> MAX_ATTEMPTS \<le> lb_fails b + 1
          \<and> (\<exists>d1. lock_load E d1 = (d1, Inr (Some (counted_failure now b))) \<and> wipe d1 = (d', Inr errors)))"

lemma uncounted_silent:
  assumes "lock_load E d = (d, Inr (Some b))" and "unlock E serial now wipe pin d = ans"
    and "\<not> (serial = Inr () \<and> \<not> fst now < lb_not_before b \<and> countable_failure now b \<and> snd (lock_save E (counted_failure now b) d) = Inr ())"
  shows "silent E serial now wipe d ans"
proof -
  have b: "lock_load (E\<lparr>e_crates := C\<rparr>) d = (d, Inr (Some b))" for C using assms(1) by simp
  obtain d1 x where s: "lock_save E (counted_failure now b) d = (d1, x)" by fastforce
  show ?thesis
    unfolding silent_def unlock_eq [OF b] using assms(2) [symmetric] assms(3)
    by (cases serial; cases x) (auto simp: unlock_eq [OF assms(1)] s)
qed

lemma unlock_attempt:
  assumes K: "keychain (e_keys E)" and b: "lock_load E d = (d, Inr (Some b))"
    and run: "unlock E serial now wipe pin d = (d', r)"
  shows "attempt_kept E serial now wipe pin b d d' r"
proof -
  let ?b1 = "counted_failure now b"
  obtain d1 x where s: "lock_save E ?b1 d = (d1, x)" by fastforce
  show ?thesis
  proof (cases "serial = Inr () \<and> \<not> fst now < lb_not_before b \<and> countable_failure now b \<and> x = Inr ()")
    case False
    have "silent E serial now wipe d (d', r)" by (rule uncounted_silent [OF b run]) (use False s in auto)
    moreover have "(\<exists>e. r = Inl e) \<or> d' = d \<and> fst now < lb_not_before b \<and> r = Inr (Wait (lb_not_before b - fst now))"
      using run False s unfolding unlock_eq [OF b] by (cases serial; cases x) (auto split: if_splits)
    ultimately show ?thesis by (auto simp: attempt_kept_def)
  next
    case True
    then have d1: "lock_save E ?b1 d = (d1, Inr ())" using s by simp
    have rest: "(d', r) = (case unwrap_master (e_crates E) pin b of Inl e \<Rightarrow> (d1, Inl e) | Inr m \<Rightarrow> settle_attempt E wipe ?b1 m d1)"
      using run True s unfolding unlock_eq [OF b] by auto
    have l1: "lock_load E d1 = (d1, Inr (Some ?b1))" by (rule keychain.save_then_load [OF K refl d1])
    have m1: "dv_master d1 = dv_master d" using lock_save_device [OF d1] by (metis device.select_convs(3) device.surjective device.update_convs(1))
    show ?thesis
    proof (cases "unwrap_master (e_crates E) pin b")
      case (Inl e)
      then show ?thesis using rest l1 by (auto simp: attempt_kept_def)
    next
      case (Inr m)
      show ?thesis
      proof (cases m)
        case None
        then show ?thesis using rest Inr l1 m1
          by (cases "wipe d1") (auto simp: settle_attempt_def sbind_def attempt_kept_def split: if_splits sum.splits)
      next
        case (Some mk)
        obtain d2 y where d2: "lock_save E (b\<lparr>lb_fails := 0, lb_not_before := 0\<rparr>) d1 = (d2, y)" by fastforce
        have b0: "?b1\<lparr>lb_fails := 0, lb_not_before := 0\<rparr> = b\<lparr>lb_fails := 0, lb_not_before := 0\<rparr>" by (simp add: counted_failure_def)
        show ?thesis
        proof (cases y)
          case (Inl e)
          then show ?thesis using rest \<open>unwrap_master (e_crates E) pin b = Inr m\<close> Some l1 d2
            by (auto simp: settle_attempt_def sbind_def b0 attempt_kept_def)
        next
          case (Inr u)
          then have d2: "lock_save E (b\<lparr>lb_fails := 0, lb_not_before := 0\<rparr>) d1 = (d2, Inr ())" using d2 by simp
          have "lock_load E d2 = (d2, Inr (Some (b\<lparr>lb_fails := 0, lb_not_before := 0\<rparr>)))"
            by (rule keychain.save_then_load [OF K refl d2])
          then show ?thesis using rest \<open>unwrap_master (e_crates E) pin b = Inr m\<close> Some d2
            by (auto simp: settle_attempt_def sbind_def b0 attempt_kept_def lock_load_item)
        qed
      qed
    qed
  qed
qed

text \<open>A write that fails leaves the old item or the new one.\<close>

locale atomic_keychain = keychain +
  assumes put_failed: "ks_put K s a v k = (k', Inl e) \<Longrightarrow> ks_get K s a k' = ks_get K s a k \<or> ks_get K s a k' = Inr (Some v)"
begin

lemma failed_save:
  assumes "e_keys E = K" and "lock_load E d = (d, Inr (Some b))" and "lock_save E b' d = (d', Inl e)"
  shows "lock_load E d' = (d', Inr (Some b)) \<or> lock_load E d' = (d', Inr (Some b'))"
  using put_failed [of "service (e_ns E) SERVICE" ACCOUNT "LockItem b'" "dv_chain d" "dv_chain d'" e] lock_save_device [OF assms(3)] assms(1,2)
  by (auto simp: lock_load_item)

end

interpretation mem_atomic: atomic_keychain memory_store
  by unfold_locales (auto simp: mem_put_def)

text \<open>Attempts one after the other, errors and wipes included: each with the device before it, what it
  was, and its answer.\<close>

type_synonym attempt = "unit res \<times> (nat \<times> nat) \<times> string"

fun attempts :: "'k env \<Rightarrow> ('k device, string list) st \<Rightarrow> 'k device \<Rightarrow> attempt list \<Rightarrow> ('k device \<times> attempt \<times> 'k device \<times> unlock_outcome res) list" where
  "attempts E wipe d [] = []"
| "attempts E wipe d ((serial, now, pin) # tries) =
     (case unlock E serial now wipe pin d of
        (d', r) \<Rightarrow> (d, (serial, now, pin), d', r) # attempts E wipe d' tries)"

fun guess_failed :: "'k device \<times> attempt \<times> 'k device \<times> unlock_outcome res \<Rightarrow> bool" where
  "guess_failed (d, t, d', Inr (Wrong left secs)) = True"
| "guess_failed (d, t, d', Inr (Wiped errors)) = True"
| "guess_failed _ = False"

text \<open>Before the wipe: counted and answered, or silent.\<close>

fun harmless :: "'k env \<Rightarrow> ('k device, string list) st \<Rightarrow> 'k device \<times> attempt \<times> 'k device \<times> unlock_outcome res \<Rightarrow> bool" where
  "harmless E wipe (d, (serial, now, pin), d', r) =
     ((\<exists>left secs. r = Inr (Wrong left secs)) \<or> r \<noteq> Inr Unlocked \<and> silent E serial now wipe d (d', r))"

text \<open>The wipe runs on a device where the tenth failure is stored.\<close>

fun runs_wipe :: "'k env \<Rightarrow> ('k device, string list) st \<Rightarrow> 'k device \<times> attempt \<times> 'k device \<times> unlock_outcome res \<Rightarrow> bool" where
  "runs_wipe E wipe (d, t, d', r) =
     (\<exists>d1 b1. lock_load E d1 = (d1, Inr (Some b1)) \<and> MAX_ATTEMPTS \<le> lb_fails b1 \<and> sbind wipe (\<lambda>errors. sret (Wiped errors)) d1 = (d', r))"

fun went_wrong :: "'k device \<times> attempt \<times> 'k device \<times> unlock_outcome res \<Rightarrow> bool" where
  "went_wrong (d, t, d', r) = (\<exists>e. r = Inl e)"

lemma one_wrong_guess:
  assumes K: "atomic_keychain (e_keys E)" and b: "lock_load E d = (d, Inr (Some b))" and w: "unwrap_master (e_crates E) pin b = Inr None"
    and run: "unlock E serial now wipe pin d = (d', r)"
  shows "MAX_ATTEMPTS \<le> lb_fails b + 1 \<and> runs_wipe E wipe (d, (serial, now, pin), d', r)
     \<or> (\<exists>left secs. r = Inr (Wrong left secs)) \<and> lb_fails b + 1 < MAX_ATTEMPTS \<and> lock_load E d' = (d', Inr (Some (counted_failure now b)))
     \<or> r \<noteq> Inr Unlocked \<and> \<not> guess_failed (d, (serial, now, pin), d', r) \<and> silent E serial now wipe d (d', r)
       \<and> (lock_load E d' = (d', Inr (Some b)) \<or> went_wrong (d, (serial, now, pin), d', r) \<and> lock_load E d' = (d', Inr (Some (counted_failure now b))))"
proof -
  have K': "keychain (e_keys E)" using K by (simp add: atomic_keychain_def)
  let ?b1 = "counted_failure now b"
  obtain d1 x where s: "lock_save E ?b1 d = (d1, x)" by fastforce
  show ?thesis
  proof (cases "serial = Inr () \<and> \<not> fst now < lb_not_before b \<and> countable_failure now b \<and> x = Inr ()")
    case False
    have "silent E serial now wipe d (d', r)" by (rule uncounted_silent [OF b run]) (use False s in auto)
    moreover have "(\<exists>secs. r = Inr (Wait secs)) \<and> d' = d \<or> (\<exists>e. r = Inl e) \<and> (d' = d \<or> (\<exists>e. lock_save E ?b1 d = (d', Inl e)))"
      using run False s unfolding unlock_eq [OF b] by (cases serial; cases x) (auto split: if_splits)
    ultimately show ?thesis using b atomic_keychain.failed_save [OF K refl b] by auto
  next
    case True
    then have d1: "lock_save E ?b1 d = (d1, Inr ())" using s by simp
    have rest: "(d', r) = settle_attempt E wipe ?b1 None d1"
      using run True s w unfolding unlock_eq [OF b] by auto
    have l1: "lock_load E d1 = (d1, Inr (Some ?b1))" by (rule keychain.save_then_load [OF K' refl d1])
    show ?thesis
    proof (cases "MAX_ATTEMPTS \<le> lb_fails b + 1")
      case True
      then have "sbind wipe (\<lambda>errors. sret (Wiped errors)) d1 = (d', r)" using rest by (simp add: settle_attempt_def)
      then have "runs_wipe E wipe (d, (serial, now, pin), d', r)" unfolding runs_wipe.simps using l1 True
        by (intro exI [of _ d1] exI [of _ ?b1]) simp
      then show ?thesis using True by blast
    next
      case False
      then show ?thesis using rest l1 by (auto simp: settle_attempt_def)
    qed
  qed
qed

lemma wrong_guesses_bounded:
  assumes K: "atomic_keychain (e_keys E)"
  shows "lock_load E d = (d, Inr (Some b)) \<Longrightarrow> \<forall>(s, now, pin) \<in> set tries. unwrap_master (e_crates E) pin b = Inr None \<Longrightarrow>
     \<exists>k \<le> length (attempts E wipe d tries).
        list_all (harmless E wipe) (take k (attempts E wipe d tries))
      \<and> length (filter guess_failed (take k (attempts E wipe d tries))) \<le> 9 - lb_fails b
      \<and> (k < length (attempts E wipe d tries) \<longrightarrow> runs_wipe E wipe (attempts E wipe d tries ! k)
          \<and> (lb_fails b < MAX_ATTEMPTS \<and> \<not> list_ex went_wrong (take k (attempts E wipe d tries)) \<longrightarrow> length (filter guess_failed (take k (attempts E wipe d tries))) = 9 - lb_fails b))"
proof (induction tries arbitrary: d b)
  case (Cons t0 tries)
  obtain serial now pin where t: "t0 = (serial, now, pin)" by (cases t0)
  obtain d' r where u: "unlock E serial now wipe pin d = (d', r)" by fastforce
  let ?a = "(d, (serial, now, pin), d', r)"
  have w: "unwrap_master (e_crates E) pin b = Inr None" using Cons.prems(2) by (auto simp: t)
  have wrong: "\<forall>(s, now, pin) \<in> set tries. unwrap_master (e_crates E) pin b' = Inr None" if "b' = b \<or> b' = counted_failure now b" for b'
    using Cons.prems(2) that by auto
  have run: "attempts E wipe d (t0 # tries) = ?a # attempts E wipe d' tries" using u by (simp add: t)
  from one_wrong_guess [OF K Cons.prems(1) w u]
  consider (wipes) "MAX_ATTEMPTS \<le> lb_fails b + 1" "runs_wipe E wipe ?a"
    | (again) b' where "harmless E wipe ?a" "lock_load E d' = (d', Inr (Some b'))" "b' = b \<or> b' = counted_failure now b"
        "(if guess_failed ?a then 1 else 0) + (9 - lb_fails b') \<le> 9 - lb_fails b"
        "\<not> went_wrong ?a \<Longrightarrow> lb_fails b < MAX_ATTEMPTS \<Longrightarrow> (if guess_failed ?a then 1 else 0) + (9 - lb_fails b') = 9 - lb_fails b \<and> lb_fails b' < MAX_ATTEMPTS"
    by (auto simp: MAX_ATTEMPTS_def)
  then show ?case
  proof cases
    case wipes
    then show ?thesis unfolding run by (intro exI [of _ 0]) (auto simp: MAX_ATTEMPTS_def)
  next
    case again
    obtain k where k: "k \<le> length (attempts E wipe d' tries)" "list_all (harmless E wipe) (take k (attempts E wipe d' tries))"
      "length (filter guess_failed (take k (attempts E wipe d' tries))) \<le> 9 - lb_fails b'"
      "k < length (attempts E wipe d' tries) \<Longrightarrow> runs_wipe E wipe (attempts E wipe d' tries ! k)"
      "k < length (attempts E wipe d' tries) \<Longrightarrow> lb_fails b' < MAX_ATTEMPTS \<Longrightarrow> \<not> list_ex went_wrong (take k (attempts E wipe d' tries)) \<Longrightarrow>
         length (filter guess_failed (take k (attempts E wipe d' tries))) = 9 - lb_fails b'"
      using Cons.IH [OF again(2) wrong [OF again(3)]] by blast
    show ?thesis unfolding run using again(1,4,5) k by (intro exI [of _ "Suc k"]) (auto simp del: harmless.simps runs_wipe.simps went_wrong.simps)
  qed
qed simp

section \<open>Properties\<close>

text \<open>C14: One unlock attempt, whatever the PIN and whatever fails. The failure is in the stored lock
  before the PIN is checked: an attempt that stops before the raised counter is stored answers the
  same for every PIN and every outcome of its check, and one that stops in the check, in the wipe
  or in storing the reset leaves, or started them from, a device with the failure stored. Too soon
  after a failure nothing is checked and nothing changes; a wrong PIN leaves the counter one higher
  with the wait set from it; at the tenth the wipe runs; and only a PIN that opens the stored
  master key unlocks, with that key in memory and the counter back to zero.\<close>

theorem unlock_counts_before_it_checks:
  assumes "keychain (e_keys E)" and "lock_load E d = (d, Inr (Some b))"
    and "unlock E serial now wipe pin d = (d', r)"
  shows "case r of
        Inl e \<Rightarrow> silent E serial now wipe d (d', r)
          \<or> (\<exists>d1. lock_load E d1 = (d1, Inr (Some (counted_failure now b)))
              \<and> (unwrap_master (e_crates E) pin b = Inl e \<and> d' = d1
                 \<or> unwrap_master (e_crates E) pin b = Inr None \<and> MAX_ATTEMPTS \<le> lb_fails b + 1 \<and> wipe d1 = (d', Inl e)
                 \<or> (\<exists>mk. unwrap_master (e_crates E) pin b = Inr (Some mk)
                      \<and> lock_save E (b\<lparr>lb_fails := 0, lb_not_before := 0\<rparr>) d1 = (d', Inl e))))
      | Inr (Wait secs) \<Rightarrow> silent E serial now wipe d (d', r) \<and> d' = d \<and> fst now < lb_not_before b \<and> secs = lb_not_before b - fst now
      | Inr Unlocked \<Rightarrow> (\<exists>mk. unwrap_master (e_crates E) pin b = Inr (Some mk) \<and> dv_master d' = Some mk)
          \<and> lock_load E d' = (d', Inr (Some (b\<lparr>lb_fails := 0, lb_not_before := 0\<rparr>)))
      | Inr (Wrong left secs) \<Rightarrow> unwrap_master (e_crates E) pin b = Inr None \<and> dv_master d' = dv_master d
          \<and> lock_load E d' = (d', Inr (Some (counted_failure now b)))
          \<and> left = MAX_ATTEMPTS - (lb_fails b + 1) \<and> 0 < left \<and> secs = wait_after (lb_fails b + 1)
      | Inr (Wiped errors) \<Rightarrow> unwrap_master (e_crates E) pin b = Inr None \<and> MAX_ATTEMPTS \<le> lb_fails b + 1
          \<and> (\<exists>d1. lock_load E d1 = (d1, Inr (Some (counted_failure now b))) \<and> wipe d1 = (d', Inr errors))"
  using unlock_attempt [OF assms] by (simp only: attempt_kept_def)

text \<open>C15: Guessing is bounded. Attempts are made with wrong PINs, at any times, whatever fails and
  however often the application is started again. Up to the first one that runs the wipe, on a
  device where the tenth failure is stored, none unlocks, at most nine (less the failures already
  stored) are told that the PIN is wrong, and every other tells nothing about it, its answer being
  the same for every PIN; and when none of them failed to run, the wipe runs at exactly the tenth
  wrong guess. A Keychain write that fails leaves the old item or the new one.\<close>

theorem at_most_ten_wrong_guesses:
  fixes E :: "'k env" and wipe :: "('k device, string list) st"
  assumes "atomic_keychain (e_keys E)" and "lock_load E d = (d, Inr (Some b))" and "lb_fails b < MAX_ATTEMPTS"
    and "\<forall>(s, now, pin) \<in> set tries. unwrap_master (e_crates E) pin b = Inr None"
  defines "run \<equiv> attempts E wipe d tries"
  shows "\<exists>k \<le> length run. list_all (harmless E wipe) (take k run)
     \<and> length (filter guess_failed (take k run)) \<le> 9 - lb_fails b
     \<and> (k < length run \<longrightarrow> runs_wipe E wipe (run ! k)
         \<and> (\<not> list_ex went_wrong (take k run) \<longrightarrow> length (filter guess_failed (take k run)) = 9 - lb_fails b))"
  unfolding run_def using wrong_guesses_bounded [OF assms(1,2,4), of wipe] assms(3) by blast

text \<open>Changing the PIN: when it reports success, the stored lock opens with the new PIN, to the
  master key held in memory, and its failure counter is zero; when it reports anything else, or
  the new PIN is refused, the old PIN's attempt is all that happened.\<close>

theorem change_pin_takes_effect:
  assumes "keychain (e_keys E)" and "change_pin E serial now wipe draws old new d = (d', Inr outcome)"
  shows "validate_pin new = Inr () \<and>
     (if outcome = Unlocked
      then \<exists>b mk. lock_load E d' = (d', Inr (Some b)) \<and> unwrap_master (e_crates E) new b = Inr (Some mk)
             \<and> lb_fails b = 0 \<and> dv_master d' = Some mk
      else unlock E serial now wipe old d = (d', Inr outcome))"
proof -
  obtain d1 where v: "validate_pin new = Inr ()" and u: "\<exists>x. unlock E serial now wipe old d = (d1, Inr x) \<and>
      (if x \<noteq> Unlocked then sret x
       else sbind (master_key E) (\<lambda>mk. sbind (slift (wrap_master (e_crates E) (fst draws) (snd draws) new mk)) (\<lambda>b.
          sbind (save_and_read_back E new mk b) (\<lambda>_. sret Unlocked)))) d1 = (d', Inr outcome)"
    using assms(2) by (auto simp: change_pin_def sbind_Inr)
  then obtain x where x: "unlock E serial now wipe old d = (d1, Inr x)" "(if x \<noteq> Unlocked then sret x
       else sbind (master_key E) (\<lambda>mk. sbind (slift (wrap_master (e_crates E) (fst draws) (snd draws) new mk)) (\<lambda>b.
          sbind (save_and_read_back E new mk b) (\<lambda>_. sret Unlocked)))) d1 = (d', Inr outcome)" by blast
  show ?thesis
  proof (cases "x = Unlocked")
    case False
    then show ?thesis using x v by auto
  next
    case True
    then obtain d2 mk b d3 where mk: "master_key E d1 = (d2, Inr mk)"
      and w: "wrap_master (e_crates E) (fst draws) (snd draws) new mk = Inr b"
      and s: "save_and_read_back E new mk b d2 = (d3, Inr ())" and o: "d' = d3" "outcome = Unlocked"
      using x(2) by (auto simp: sbind_Inr)
    have m2: "d2 = d1" "dv_master d1 = Some mk"
      using mk by (auto simp: master_key_def sbind_def split: option.splits prod.splits sum.splits)
    obtain d4 b' where sv: "lock_save E b d2 = (d4, Inr ())" and ld: "lock_load E d4 = (d3, Inr (Some b'))"
      and op: "unwrap_master (e_crates E) new b' = Inr (Some mk)"
      using s by (auto simp: save_and_read_back_def sbind_Inr res_inv dest: lock_load_state)
    have "lock_load E d4 = (d4, Inr (Some b))" by (rule keychain.save_then_load [OF assms(1) refl sv])
    then have b': "b' = b" "d3 = d4" using ld by auto
    have "dv_master d4 = dv_master d2" using lock_save_device [OF sv] by (metis device.select_convs(3) device.surjective device.update_convs(1))
    moreover have "lb_fails b = 0" using w by (auto simp: wrap_master_def res_inv)
    ultimately show ?thesis using v o op ld b' m2 by auto
  qed
qed

section \<open>A device\<close>

text \<open>Small concrete functions: the derived key is the PIN, and it opens a box that names it.\<close>

definition lock_crates :: crates where
  "lock_crates = demo_crates\<lparr>argon2id := (\<lambda>pin salt p. Some pin), hex_encode := bytes_str, hex_decode := (\<lambda>s. Some (str_bytes s)),
     gcm_seal := (\<lambda>k n a m. k), gcm_open := (\<lambda>k n a c. if k = c then Some (replicate 32 7) else None)\<rparr>"

definition demo_serde :: serde where
  "demo_serde = \<lparr>sd_vault_print = str_bytes, sd_vault_parse = (\<lambda>b. Some (bytes_str b)), sd_config = (\<lambda>b. None), sd_keys = (\<lambda>b. None),
     sd_setup_account = (\<lambda>b. Some (bytes_str b)), sd_wallet_print = (\<lambda>w. []), sd_wallet_parse = (\<lambda>b. None),
     sd_send = (\<lambda>b. None), sd_json_parse = (\<lambda>b. Some (JStr (bytes_str b))), sd_json_print = (\<lambda>j. [])\<rparr>"

definition demo_env :: "memory env" where
  "demo_env = \<lparr>e_crates = lock_crates, e_keys = memory_store, e_ns = None, e_serde = demo_serde\<rparr>"

definition demo_blob :: "string \<Rightarrow> nat \<Rightarrow> lock_blob" where
  "demo_blob pin n = \<lparr>lb_salt = [], lb_kdf = KDF, lb_nonce = ''000000000000'', lb_wrapped = pin, lb_fails = n, lb_not_before = 0\<rparr>"

definition empty_disk :: disk where
  "empty_disk = \<lparr>entries = [], bad = (\<lambda>p. False)\<rparr>"

definition demo_device :: "lock_blob \<Rightarrow> memory device" where
  "demo_device b = \<lparr>dv_chain = [((SERVICE, ACCOUNT), LockItem b)], dv_cache = Map.empty, dv_master = None, dv_wiped = False, dv_disk = empty_disk\<rparr>"

lemma demo_env_sel [simp]:
  "e_crates demo_env = lock_crates" "e_keys demo_env = memory_store" "e_ns demo_env = None" "e_serde demo_env = demo_serde"
  by (simp_all add: demo_env_def)

lemma service_None [simp]: "service None s = s"
  by (simp add: service_def)

lemma demo_load: "lock_load demo_env (demo_device b) = (demo_device b, Inr (Some b))"
  by (simp add: lock_load_item mem_get_def demo_device_def)

lemma str_bytes_inj: "str_bytes a = str_bytes b \<longleftrightarrow> a = b"
  by (metis bytes_str_bytes)

lemma demo_unwrap: "unwrap_master lock_crates pin (demo_blob good n) = Inr (if pin = good then Some (replicate 32 7) else None)"
  by (auto simp: unwrap_master_def demo_blob_def kek_def lock_crates_def str_bytes_inj)

lemma demo_save: "lock_save demo_env b' (demo_device b) = (demo_device b', Inr ())"
  by (simp add: lock_save_def on_chain_def demo_device_def mem_put_def)

lemma demo_counter: "(demo_blob p n)\<lparr>lb_fails := m, lb_not_before := t\<rparr> = (demo_blob p m)\<lparr>lb_not_before := t\<rparr>"
  "lb_fails (demo_blob p n) = n" "lb_not_before (demo_blob p n) = 0" "lb_fails ((demo_blob p n)\<lparr>lb_not_before := t\<rparr>) = n"
  "unwrap_master C pin ((demo_blob p n)\<lparr>lb_not_before := t\<rparr>) = unwrap_master C pin (demo_blob p n)"
  by (simp_all add: demo_blob_def unwrap_master_def)

lemma demo_wrong:
  "unlock demo_env (Inr ()) (100, 100) wipe ''000000'' (demo_device (demo_blob ''123456'' 5))
   = (demo_device ((demo_blob ''123456'' 6)\<lparr>lb_not_before := 160\<rparr>), Inr (Wrong 4 60))"
  by (simp add: demo_unwrap unlock_def sbind_def demo_load settle_attempt_def u64_add_def demo_save wait_after_def WAITS_def FREE_ATTEMPTS_def MAX_ATTEMPTS_def
      demo_counter Let_def)

theorem unlock_counts_before_it_checks_witness:
  "unlock demo_env (Inr ()) (100, 100) (\<lambda>d. (d, Inr [])) ''000000'' (demo_device (demo_blob ''123456'' 5))
     = (demo_device ((demo_blob ''123456'' 6)\<lparr>lb_not_before := 160\<rparr>), Inr (Wrong 4 60))
   \<and> unwrap_master lock_crates ''000000'' (demo_blob ''123456'' 5) = Inr None
   \<and> lock_load demo_env (demo_device ((demo_blob ''123456'' 6)\<lparr>lb_not_before := 160\<rparr>))
     = (demo_device ((demo_blob ''123456'' 6)\<lparr>lb_not_before := 160\<rparr>), Inr (Some (counted_failure (100, 100) (demo_blob ''123456'' 5))))"
proof -
  have K: "keychain (e_keys demo_env)" using mem.keychain_axioms by simp
  show ?thesis
    using unlock_counts_before_it_checks [OF K demo_load demo_wrong] demo_wrong by simp
qed

theorem at_most_ten_wrong_guesses_witness:
  "\<exists>k as. as = attempts demo_env (\<lambda>d. (d, Inr [])) (demo_device (demo_blob ''123456'' 5)) (replicate 20 (Inr (), (100, 100), ''000000''))
     \<and> length (filter guess_failed (take k as)) \<le> 4 \<and> (k = 20 \<or> runs_wipe demo_env (\<lambda>d. (d, Inr [])) (as ! k))"
proof -
  have K: "atomic_keychain (e_keys demo_env)" using mem_atomic.atomic_keychain_axioms by simp
  have f: "lb_fails (demo_blob ''123456'' 5) = 5" by (simp add: demo_blob_def)
  have l: "length (attempts E w d ts) = length ts" for E :: "memory env" and w d ts
    by (induction ts arbitrary: d) (auto split: prod.split)
  show ?thesis
    using at_most_ten_wrong_guesses [OF K demo_load, of "demo_blob ''123456'' 5" "replicate 20 (Inr (), (100, 100), ''000000'')"
        "\<lambda>d. (d, Inr [])"] demo_unwrap [of "''000000''" "''123456''" 5]
    by (auto simp: f MAX_ATTEMPTS_def l simp del: attempts.simps)
qed

lemma demo_change:
  "change_pin demo_env (Inr ()) (100, 100) wipe ([], replicate 12 0) ''123456'' ''abcdef'' (demo_device (demo_blob ''123456'' 5))
   = ((demo_device (\<lparr>lb_salt = [], lb_kdf = KDF, lb_nonce = bytes_str (replicate 12 0), lb_wrapped = ''abcdef'', lb_fails = 0, lb_not_before = 0\<rparr>))\<lparr>dv_master := Some (replicate 32 7)\<rparr>, Inr Unlocked)"
proof -
  have v: "validate_pin ''abcdef'' = Inr ()"
    by (simp add: validate_pin_def MIN_PIN_LEN_def MAX_PIN_LEN_def is_control_def)
  let ?b = "\<lparr>lb_salt = [], lb_kdf = KDF, lb_nonce = bytes_str (replicate 12 0), lb_wrapped = ''abcdef'', lb_fails = 0, lb_not_before = 0\<rparr>"
  have w: "wrap_master lock_crates [] (replicate 12 0) ''abcdef'' mk = Inr ?b" for mk
    by (simp add: wrap_master_def kek_def lock_crates_def bytes_str_def [of "[]"])
  have l: "str_bytes (bytes_str (replicate 12 0)) = replicate 12 0"
    by (simp add: bytes_str_def str_bytes_def of_char_0 char_of_def)
  have u: "unwrap_master lock_crates ''abcdef'' ?b = Inr (Some (replicate 32 7))"
    by (simp add: unwrap_master_def kek_def lock_crates_def l)
  have ld: "lock_load demo_env ((demo_device b)\<lparr>dv_master := m\<rparr>) = ((demo_device b)\<lparr>dv_master := m\<rparr>, Inr (Some b))" for b m
    by (simp add: lock_load_item mem_get_def demo_device_def)
  have sv: "lock_save demo_env b' ((demo_device b)\<lparr>dv_master := m\<rparr>) = ((demo_device b')\<lparr>dv_master := m\<rparr>, Inr ())" for b b' m
    by (simp add: lock_save_def on_chain_def demo_device_def mem_put_def)
  show ?thesis
    using u
    by (simp add: demo_unwrap change_pin_def sbind_def v unlock_def demo_load settle_attempt_def u64_add_def demo_save wait_after_def WAITS_def FREE_ATTEMPTS_def
        MAX_ATTEMPTS_def master_key_def w save_and_read_back_def ld sv demo_counter Let_def)
qed

theorem change_pin_takes_effect_witness:
  "\<exists>d b mk. lock_load demo_env d = (d, Inr (Some b)) \<and> unwrap_master lock_crates ''abcdef'' b = Inr (Some mk) \<and> dv_master d = Some mk"
proof -
  have K: "keychain (e_keys demo_env)" using mem.keychain_axioms by simp
  show ?thesis using change_pin_takes_effect [OF K demo_change] by (simp only: demo_env_sel if_True simp_thms) blast
qed

end
