(* ===== verification/Vault.thy ===== *)
theory Vault
  imports App_Lock "HOL-Library.List_Lexorder" "HOL-Library.Char_ord"
begin

text \<open>
  \<^verbatim>\<open>core/src/vault.rs\<close>: a profile's secret files are sealed under a key that lives in the Keychain,
  wrapped under the master key once the app has a PIN. \<^verbatim>\<open>vault.json\<close> names the key; deleting the key
  makes every sealed file unreadable. A \<open>home\<close> is the profile's directory; random draws, and what
  other processes do while a vault is being created, are arguments.
\<close>

section \<open>Constants\<close>

definition MAGIC :: bytes where "MAGIC = str_bytes ''zkv1'' @ [0]"
definition VAULT_NONCE_LEN :: nat where "VAULT_NONCE_LEN = 12"
definition KEY_LEN :: nat where "KEY_LEN = 32"
definition KEYCHAIN_SERVICE :: string where "KEYCHAIN_SERVICE = ''zkmsg.profile-key''"
definition VAULT_FILE :: string where "VAULT_FILE = ''vault.json''"
definition WRAPPED :: bytes where "WRAPPED = str_bytes ''zkk1''"

section \<open>Sealing\<close>

definition is_sealed :: "bytes \<Rightarrow> bool" where
  "is_sealed b = (take (length MAGIC) b = MAGIC)"

definition vault_seal :: "crates \<Rightarrow> bytes \<Rightarrow> bytes \<Rightarrow> string \<Rightarrow> bytes \<Rightarrow> bytes" where
  "vault_seal C nonce key aad plaintext = MAGIC @ nonce @ gcm_seal C key nonce (str_bytes aad) plaintext"

definition vault_open :: "crates \<Rightarrow> bytes \<Rightarrow> string \<Rightarrow> bytes \<Rightarrow> bytes res" where
  "vault_open C key aad sealed =
     ensure (length MAGIC + VAULT_NONCE_LEN + 16 \<le> length sealed) (Crypto AeadFailed) (
     let body = drop (length MAGIC) sealed
     in of_opt (Crypto AeadFailed) (gcm_open C key (take VAULT_NONCE_LEN body) (str_bytes aad) (drop VAULT_NONCE_LEN body)))"

text \<open>The path relative to the profile, as the associated data.\<close>

fun join_path :: "path \<Rightarrow> string" where
  "join_path [] = []"
| "join_path [c] = c"
| "join_path (c # cs) = c @ ''/'' @ join_path cs"

definition vault_aad :: "path \<Rightarrow> path \<Rightarrow> string res" where
  "vault_aad home p = ensure (within home p) (File BadTarget) (Inr (join_path (drop (length home) p)))"

section \<open>Profile keys\<close>

definition check_id :: "string \<Rightarrow> unit res" where
  "check_id i = ensure (length i = 32 \<and> list_all (\<lambda>c. c \<in> set hex_digits) i) (Lock BadId) (Inr ())"

definition wrap_aad :: "string \<Rightarrow> string" where
  "wrap_aad i = ''zkmsg.profile-key/'' @ i"

definition stored_form :: "'k env \<Rightarrow> bytes \<Rightarrow> string \<Rightarrow> bytes \<Rightarrow> ('k device, item) st" where
  "stored_form E nonce i key =
     sbind (master_key_if_set E) (\<lambda>m.
       sret (KeyBytes (case m of
          None \<Rightarrow> key
        | Some mk \<Rightarrow> WRAPPED @ drop (length MAGIC) (vault_seal (e_crates E) nonce mk (wrap_aad i) key))))"

definition cache_key :: "string \<Rightarrow> bytes \<Rightarrow> 'k device \<Rightarrow> 'k device" where
  "cache_key i key d = d\<lparr>dv_cache := (dv_cache d)(i \<mapsto> key)\<rparr>"

definition uncache_key :: "string \<Rightarrow> 'k device \<Rightarrow> 'k device" where
  "uncache_key i d = d\<lparr>dv_cache := (dv_cache d)(i := None)\<rparr>"

definition key_put :: "'k env \<Rightarrow> bytes \<Rightarrow> string \<Rightarrow> bytes \<Rightarrow> ('k device, unit) st" where
  "key_put E nonce i key =
     sbind (slift (check_id i)) (\<lambda>_.
     sbind (stored_form E nonce i key) (\<lambda>it.
     sbind (on_chain (ks_put (e_keys E) (service (e_ns E) KEYCHAIN_SERVICE) i it)) (\<lambda>_.
     smodify (cache_key i key))))"

definition key_delete :: "'k env \<Rightarrow> string \<Rightarrow> ('k device, unit) st" where
  "key_delete E i =
     sbind (slift (check_id i)) (\<lambda>_.
     sbind (smodify (uncache_key i)) (\<lambda>_.
     on_chain (ks_delete (e_keys E) (service (e_ns E) KEYCHAIN_SERVICE) i)))"

text \<open>A bare key is rewrapped as soon as there is a PIN.\<close>

definition unwrap_key :: "'k env \<Rightarrow> bytes \<Rightarrow> string \<Rightarrow> bytes \<Rightarrow> ('k device, bytes) st" where
  "unwrap_key E nonce i stored =
     (if take (length WRAPPED) stored = WRAPPED then
        sbind (master_key E) (\<lambda>mk.
          slift (rbind (vault_open (e_crates E) mk (wrap_aad i) (MAGIC @ drop (length WRAPPED) stored)) (\<lambda>key.
                 ensure (length key = KEY_LEN) (Crypto BadSecret) (Inr key))))
      else
        sbind (slift (ensure (length stored = KEY_LEN) (Crypto BadSecret) (Inr ()))) (\<lambda>_.
        sbind (master_key_if_set E) (\<lambda>m.
        if m \<noteq> None then sbind (key_put E nonce i stored) (\<lambda>_. sret stored) else sret stored)))"

definition key_get :: "'k env \<Rightarrow> bytes \<Rightarrow> string \<Rightarrow> ('k device, bytes option) st" where
  "key_get E nonce i =
     sbind (slift (check_id i)) (\<lambda>_.
     sbind sget (\<lambda>d.
     case dv_cache d i of
       Some key \<Rightarrow> sret (Some key)
     | None \<Rightarrow>
         sbind (keys_lookup E KEYCHAIN_SERVICE i) (\<lambda>it.
           case it of
             None \<Rightarrow> sret None
           | Some (LockItem b) \<Rightarrow> slift (Inl (Crypto BadSecret))
           | Some (KeyBytes stored) \<Rightarrow>
               sbind (unwrap_key E nonce i stored) (\<lambda>key.
               sbind (smodify (cache_key i key)) (\<lambda>_.
               sret (Some key))))))"

definition rewrap :: "'k env \<Rightarrow> bytes \<times> bytes \<Rightarrow> string \<Rightarrow> ('k device, bool) st" where
  "rewrap E nonces i =
     sbind (smodify (uncache_key i)) (\<lambda>_.
     sbind (key_get E (fst nonces) i) (\<lambda>k.
     case k of
       Some key \<Rightarrow> sbind (key_put E (snd nonces) i key) (\<lambda>_. sret True)
     | None \<Rightarrow> sret False))"

definition clear_wiped :: "'k device \<Rightarrow> 'k device" where
  "clear_wiped d = d\<lparr>dv_wiped := False\<rparr>"

definition shred_all :: "'k env \<Rightarrow> ('k device, nat) st" where
  "shred_all E =
     sbind (smodify (\<lambda>d. forget_keys (d\<lparr>dv_wiped := True\<rparr>))) (\<lambda>_.
     on_chain (ks_delete_all (e_keys E) (service (e_ns E) KEYCHAIN_SERVICE)))"

section \<open>A profile's vault\<close>

definition profile_key_id :: "'k env \<Rightarrow> path \<Rightarrow> disk \<Rightarrow> string option res" where
  "profile_key_id E home x =
     (let p = home @ [VAULT_FILE]
      in if \<not> file_exists x p then Inr None
         else rbind (read_bytes x p) (\<lambda>b.
              rbind (of_opt (Decode BadShape) (sd_vault_parse (e_serde E) b)) (\<lambda>i.
              rbind (check_id i) (\<lambda>_. Inr (Some i)))))"

definition profile_key :: "'k env \<Rightarrow> bytes \<Rightarrow> path \<Rightarrow> ('k device, bytes option) st" where
  "profile_key E nonce home =
     sbind sget (\<lambda>d.
     sbind (slift (profile_key_id E home (dv_disk d))) (\<lambda>i.
     case i of
       None \<Rightarrow> sret None
     | Some i \<Rightarrow>
         sbind (key_get E nonce i) (\<lambda>k.
         case k of Some key \<Rightarrow> sret (Some key) | None \<Rightarrow> slift (Inl (Lock KeyGone)))))"

text \<open>\<open>hard_link\<close>: \<open>RefusedOverwrite\<close> stands for \<^verbatim>\<open>ErrorKind::AlreadyExists\<close>.\<close>

definition hard_link :: "path \<Rightarrow> path \<Rightarrow> (disk, unit) st" where
  "hard_link p q x =
     (if entry_exists x q then (x, Inl (File RefusedOverwrite))
      else case node_at x p of
             Some (Document b) \<Rightarrow> if bad x p \<or> bad x q then (x, Inl (File IoError)) else (put_entry q (Document b) x, Inr ())
           | _ \<Rightarrow> (x, Inl (File IoError)))"

text \<open>The draws of a creation; \<open>dr_meanwhile\<close> is what other processes did before the link.\<close>

record 'k draws =
  dr_nonces :: "bytes \<times> bytes"
  dr_id :: bytes
  dr_key :: bytes
  dr_meanwhile :: "'k device \<Rightarrow> 'k device"

text \<open>Publishing \<^verbatim>\<open>vault.json\<close>: the winner of a race keeps its key, the loser drops it and uses the
  winner's.\<close>

definition link_vault :: "'k env \<Rightarrow> bytes \<Rightarrow> string \<Rightarrow> bytes \<Rightarrow> path \<Rightarrow> path \<Rightarrow> ('k device, bytes) st" where
  "link_vault E nonce i key tmp home d =
     (let (d1, linked) = on_disk (hard_link tmp (home @ [VAULT_FILE])) d;
          d2 = fst (on_disk (remove_file tmp) d1)
      in case linked of
           Inr _ \<Rightarrow> (d2, Inr key)
         | Inl e \<Rightarrow>
             if e = File RefusedOverwrite then
               sbind (key_delete E i) (\<lambda>_.
               sbind (profile_key E nonce home) (\<lambda>k.
               slift (of_opt (File Missing) k))) d2
             else (fst (key_delete E i d2), Inl e))"

definition create_vault :: "'k env \<Rightarrow> 'k draws \<Rightarrow> path \<Rightarrow> ('k device, bytes) st" where
  "create_vault E dr home =
     (let i = hex_encode (e_crates E) (dr_id dr);
          tmp = home @ [''.'' @ VAULT_FILE @ ''.new-'' @ i]
      in sbind (key_put E (fst (dr_nonces dr)) i (dr_key dr)) (\<lambda>_.
         sbind (on_disk (create_dir_all home)) (\<lambda>_.
         sbind (on_disk (write_bytes tmp (sd_vault_print (e_serde E) i))) (\<lambda>_.
         sbind (smodify (dr_meanwhile dr)) (\<lambda>_.
         link_vault E (snd (dr_nonces dr)) i (dr_key dr) tmp home)))))"

definition profile_key_or_create :: "'k env \<Rightarrow> 'k draws \<Rightarrow> path \<Rightarrow> ('k device, bytes) st" where
  "profile_key_or_create E dr home =
     sbind (profile_key E (fst (dr_nonces dr)) home) (\<lambda>k.
     case k of
       Some key \<Rightarrow> sret key
     | None \<Rightarrow>
         sbind sget (\<lambda>d.
         if dv_wiped d then slift (Inl (Lock WasWiped)) else create_vault E dr home))"

section \<open>Files\<close>

definition vault_read :: "'k env \<Rightarrow> bytes \<Rightarrow> path \<Rightarrow> path \<Rightarrow> ('k device, bytes) st" where
  "vault_read E nonce home p =
     sbind sget (\<lambda>d.
     sbind (slift (read_bytes (dv_disk d) p)) (\<lambda>b.
     if \<not> is_sealed b then sret b
     else sbind (profile_key E nonce home) (\<lambda>k.
          sbind (slift (of_opt (File Missing) k)) (\<lambda>key.
          sbind (slift (vault_aad home p)) (\<lambda>a.
          slift (vault_open (e_crates E) key a b))))))"

definition vault_write :: "'k env \<Rightarrow> 'k draws \<Rightarrow> bytes \<Rightarrow> path \<Rightarrow> path \<Rightarrow> bytes \<Rightarrow> ('k device, unit) st" where
  "vault_write E dr nonce home p plaintext =
     sbind (profile_key_or_create E dr home) (\<lambda>key.
     sbind (slift (vault_aad home p)) (\<lambda>a.
     sbind (on_disk (create_dir_all (butlast p))) (\<lambda>_.
     on_disk (write_bytes p (vault_seal (e_crates E) nonce key a plaintext)))))"

definition ends_with :: "string \<Rightarrow> string \<Rightarrow> bool" where
  "ends_with suffix s = starts_with (rev suffix) (rev s)"

definition secret_name :: "string \<Rightarrow> bool" where
  "secret_name n =
     (n \<in> {''keys.json'', ''quota.json'', ''inbox.json''} \<or> starts_with ''tickets'' n \<and> ends_with ''.json'' n)"

text \<open>\<^verbatim>\<open>Path::extension\<close> of a name: what follows the last dot, unless the name starts with it.\<close>

definition has_extension :: "string \<Rightarrow> string \<Rightarrow> bool" where
  "has_extension ext n = (ends_with (''.'' @ ext) n \<and> length ext + 1 < length n \<and> CHR ''.'' \<notin> set ext)"

definition secret_files :: "path \<Rightarrow> disk \<Rightarrow> path list res" where
  "secret_files home x =
     (let sends = home @ [''sends'']
      in rbind (if is_dir x home then rbind (read_dir x home) (\<lambda>ps. Inr (filter (\<lambda>p. secret_name (last p) \<and> is_file x p) ps)) else Inr []) (\<lambda>own.
         rbind (if is_dir x sends then rbind (read_dir x sends) (\<lambda>ps. Inr (filter (\<lambda>p. is_file x p \<and> has_extension ''json'' (last p)) ps)) else Inr []) (\<lambda>sent.
         Inr (sort (own @ sent)))))"

fun seal_each :: "'k env \<Rightarrow> (nat \<Rightarrow> 'k draws \<times> bytes) \<Rightarrow> path \<Rightarrow> nat \<Rightarrow> path list \<Rightarrow> ('k device, nat) st" where
  "seal_each E dr home n [] = sret n"
| "seal_each E dr home n (p # ps) =
     sbind sget (\<lambda>d.
     sbind (slift (read_bytes (dv_disk d) p)) (\<lambda>b.
     if is_sealed b then seal_each E dr home n ps
     else sbind (vault_write E (fst (dr n)) (snd (dr n)) home p b) (\<lambda>_.
          sbind (vault_read E (snd (dr n)) home p) (\<lambda>back.
          sbind (slift (ensure (back = b) (File NotMatching) (Inr ()))) (\<lambda>_.
          seal_each E dr home (n + 1) ps)))))"

definition seal_profile :: "'k env \<Rightarrow> (nat \<Rightarrow> 'k draws \<times> bytes) \<Rightarrow> path \<Rightarrow> ('k device, nat) st" where
  "seal_profile E dr home =
     sbind sget (\<lambda>d. sbind (slift (secret_files home (dv_disk d))) (seal_each E dr home 0))"

fun any_plaintext :: "disk \<Rightarrow> path list \<Rightarrow> bool res" where
  "any_plaintext x [] = Inr False"
| "any_plaintext x (p # ps) = rbind (read_bytes x p) (\<lambda>b. if \<not> is_sealed b then Inr True else any_plaintext x ps)"

definition has_plaintext :: "path \<Rightarrow> disk \<Rightarrow> bool res" where
  "has_plaintext home x = rbind (secret_files home x) (any_plaintext x)"

definition shred :: "'k env \<Rightarrow> path \<Rightarrow> ('k device, bool) st" where
  "shred E home =
     sbind sget (\<lambda>d.
     sbind (slift (profile_key_id E home (dv_disk d))) (\<lambda>i.
     case i of None \<Rightarrow> sret False | Some i \<Rightarrow> sbind (key_delete E i) (\<lambda>_. sret True)))"

section \<open>What steps leave alone\<close>

definition keeps :: "('s \<Rightarrow> 'b) \<Rightarrow> ('s, 'a) st \<Rightarrow> bool" where
  "keeps f = stepwise (\<lambda>s s'. f s' = f s)"

named_theorems keeps_intro \<open>steps that keep a part of the state\<close>

lemma keeps_step: "keeps f m \<Longrightarrow> m s = (s', r) \<Longrightarrow> f s' = f s"
  unfolding keeps_def by (drule steps_run)

lemmas keeps_basic [keeps_intro] = keep.steps_intro [folded keeps_def]

lemma keeps_item [keeps_intro]:
  "(\<And>b. keeps f (m1 b)) \<Longrightarrow> (\<And>b. keeps f (m2 b)) \<Longrightarrow> keeps f (case it of KeyBytes b \<Rightarrow> m1 b | LockItem b \<Rightarrow> m2 b)"
  by (auto split: item.splits)

lemma keeps_sides [keeps_intro]:
  "keeps dv_disk (on_chain m)" "keeps dv_master (on_chain m)" "keeps dv_wiped (on_chain m)" "keeps dv_cache (on_chain m)"
  "keeps dv_chain (on_disk n)" "keeps dv_cache (on_disk n)" "keeps dv_master (on_disk n)" "keeps f (keys_lookup E s a)"
  by (auto simp: keeps_def stepwise_def on_chain_def on_disk_def keys_lookup_def split: prod.splits)

lemma keeps_lock [keeps_intro]: "keeps f (lock_load E)" "keeps f (master_key E)" "keeps f (master_key_if_set E)"
  by (auto simp: lock_load_def master_key_def master_key_if_set_def intro!: keeps_intro)

lemma keeps_keys [keeps_intro]:
  "keeps dv_disk (key_put E n i k)" "keeps dv_disk (unwrap_key E n i b)" "keeps dv_disk (key_get E n i)" "keeps dv_disk (key_delete E i)"
  "keeps dv_disk (profile_key E n home)"
  by (auto simp: key_put_def stored_form_def unwrap_key_def key_get_def key_delete_def profile_key_def cache_key_def uncache_key_def intro!: keeps_intro)

section \<open>Keys\<close>

lemma key_put_cached: "key_put E n i k d = (d', Inr ()) \<Longrightarrow> dv_cache d' i = Some k \<and> check_id i = Inr ()"
  by (auto simp: key_put_def sbind_Inr cache_key_def)

lemma key_get_cached: "check_id i = Inr () \<Longrightarrow> dv_cache d i = Some k \<Longrightarrow> key_get E n i d = (d, Inr (Some k))"
  by (simp add: key_get_def sbind_def)

lemma key_get_caches:
  assumes "key_get E n i d = (d', Inr (Some k))"
  shows "dv_cache d' i = Some k \<and> check_id i = Inr ()"
proof (cases "dv_cache d i")
  case None
  then obtain it d1 where it: "check_id i = Inr ()" "keys_lookup E KEYCHAIN_SERVICE i d = (d1, Inr (Some it))"
    "(case it of LockItem b \<Rightarrow> slift (Inl (Crypto BadSecret)) | KeyBytes stored \<Rightarrow>
        sbind (unwrap_key E n i stored) (\<lambda>key. sbind (smodify (cache_key i key)) (\<lambda>_. sret (Some key)))) d1 = (d', Inr (Some k))"
    using assms by (auto simp: key_get_def sbind_Inr split: option.split_asm)
  then show ?thesis by (cases it) (auto simp: sbind_Inr cache_key_def)
next
  case (Some k')
  then show ?thesis using assms by (auto simp: key_get_def sbind_Inr)
qed

lemma key_get_gone:
  "check_id i = Inr () \<Longrightarrow> dv_cache d i = None \<Longrightarrow> ks_get (e_keys E) (service (e_ns E) KEYCHAIN_SERVICE) i (dv_chain d) = Inr None \<Longrightarrow>
     key_get E n i d = (d, Inr None)"
  by (simp add: key_get_def sbind_def keys_lookup_def)

lemma profile_key_id_checked: "profile_key_id E home x = Inr (Some i) \<Longrightarrow> check_id i = Inr ()"
  by (auto simp: profile_key_id_def Let_def res_inv split: if_splits)

text \<open>A profile's key is in memory once it has been used.\<close>

definition key_ready :: "'k env \<Rightarrow> path \<Rightarrow> bytes \<Rightarrow> 'k device \<Rightarrow> bool" where
  "key_ready E home k d = (\<exists>i. profile_key_id E home (dv_disk d) = Inr (Some i) \<and> dv_cache d i = Some k)"

lemma profile_key_ready:
  assumes "profile_key E n home d = (d', Inr (Some k))"
  shows "key_ready E home k d'"
proof -
  obtain i where i: "profile_key_id E home (dv_disk d) = Inr (Some i)" "key_get E n i d = (d', Inr (Some k))"
    using assms by (auto simp: profile_key_def sbind_Inr split: option.split_asm)
  then show ?thesis
    using key_get_caches [OF i(2)] keeps_step [OF keeps_keys(3) i(2)] by (auto simp: key_ready_def)
qed

lemma ready_profile_key: "key_ready E home k d \<Longrightarrow> profile_key E n home d = (d, Inr (Some k))"
  by (auto simp: key_ready_def profile_key_def sbind_def)
    (simp add: sbind_def key_get_cached profile_key_id_checked)

section \<open>Files\<close>

lemma make_dirs_keeps: "make_dirs base cs x = (x', r) \<Longrightarrow> bad x' = bad x \<and> (node_at x q = Some n \<longrightarrow> node_at x' q = Some n)"
proof (induction cs arbitrary: base x)
  case (Cons c cs)
  let ?p = "base @ [c]"
  consider "is_dir x ?p" | "\<not> is_dir x ?p" "entry_exists x ?p \<or> bad x ?p" | "\<not> entry_exists x ?p" "\<not> bad x ?p"
    by (auto simp: entry_exists_def is_dir_def)
  then show ?case
  proof cases
    case 1
    then show ?thesis using Cons.IH [of ?p x] Cons.prems by (simp add: Let_def)
  next
    case 2
    then show ?thesis using Cons.prems by (simp add: Let_def)
  next
    case 3
    then show ?thesis using Cons.IH [of ?p "put_entry ?p Dir x"] Cons.prems
      by (cases "q = ?p") (auto simp: Let_def entry_exists_def is_dir_def)
  qed
qed simp

lemma create_dir_all_keeps: "create_dir_all p x = (x', r) \<Longrightarrow> bad x' = bad x \<and> (node_at x q = Some n \<longrightarrow> node_at x' q = Some n)"
  unfolding create_dir_all_def by (rule make_dirs_keeps)

lemma write_bytes_Inr: "write_bytes p b x = (x', Inr ()) \<longleftrightarrow> \<not> bad x p \<and> is_dir x (butlast p) \<and> \<not> is_dir x p \<and> x' = put_entry p (Document b) x"
  by (auto simp: write_bytes_def)

lemma profile_key_id_Some:
  "profile_key_id E home x = Inr (Some i) \<longleftrightarrow>
     (\<exists>b. node_at x (home @ [VAULT_FILE]) = Some (Document b) \<and> \<not> bad x (home @ [VAULT_FILE]) \<and> sd_vault_parse (e_serde E) b = Some i \<and> check_id i = Inr ())"
  by (auto simp: profile_key_id_def Let_def res_inv file_exists_def is_dir_def is_file_def read_bytes_def split: option.splits node.splits)

text \<open>Other processes leave this one's memory and its temporary file alone; \<^verbatim>\<open>serde_json\<close> reads back
  what it printed.\<close>

definition new_vault_file :: "'k env \<Rightarrow> 'k draws \<Rightarrow> path \<Rightarrow> path" where
  "new_vault_file E dr home = home @ [''.'' @ VAULT_FILE @ ''.new-'' @ hex_encode (e_crates E) (dr_id dr)]"

definition others_ok :: "'k env \<Rightarrow> 'k draws \<Rightarrow> path \<Rightarrow> bool" where
  "others_ok E dr home =
     (\<forall>d. dv_cache (dr_meanwhile dr d) = dv_cache d \<and>
          node_at (dv_disk (dr_meanwhile dr d)) (new_vault_file E dr home) = node_at (dv_disk d) (new_vault_file E dr home))"

definition serde_ok :: "serde \<Rightarrow> bool" where
  "serde_ok S = (\<forall>i. sd_vault_parse S (sd_vault_print S i) = Some i)"

lemma new_vault_file_other: "new_vault_file E dr home \<noteq> home @ [VAULT_FILE]"
  by (simp add: new_vault_file_def VAULT_FILE_def)

lemma on_disk_eq: "on_disk m d = (d', r) \<longleftrightarrow> (\<exists>x. m (dv_disk d) = (x, r) \<and> d' = d\<lparr>dv_disk := x\<rparr>)"
  by (auto simp: on_disk_def split: prod.splits)

lemma create_vault_ready:
  assumes run: "create_vault E dr home d = (d', Inr key)"
    and S: "serde_ok (e_serde E)" and others: "others_ok E dr home"
  shows "key_ready E home key d'"
proof -
  define i where "i = hex_encode (e_crates E) (dr_id dr)"
  define tmp where "tmp = new_vault_file E dr home"
  define p where "p = home @ [VAULT_FILE]"
  obtain d1 d2 d3 where k: "key_put E (fst (dr_nonces dr)) i (dr_key dr) d = (d1, Inr ())"
    and mk: "on_disk (create_dir_all home) d1 = (d2, Inr ())"
    and wr: "on_disk (write_bytes tmp (sd_vault_print (e_serde E) i)) d2 = (d3, Inr ())"
    and rest: "link_vault E (snd (dr_nonces dr)) i (dr_key dr) tmp home (dr_meanwhile dr d3) = (d', Inr key)"
    using run by (auto simp: create_vault_def Let_def sbind_Inr i_def tmp_def new_vault_file_def)
  obtain d5 linked d6 r6 where ln: "on_disk (hard_link tmp p) (dr_meanwhile dr d3) = (d5, linked)"
    and rm: "on_disk (remove_file tmp) d5 = (d6, r6)" by fastforce
  show ?thesis
  proof (cases linked)
    case (Inl e)
    then show ?thesis using rest ln rm
      by (auto simp: link_vault_def p_def sbind_Inr res_inv dest!: profile_key_ready split: if_splits)
  next
    case (Inr u)
    then have fin: "d' = d6" "key = dr_key dr" using rest ln rm by (auto simp: link_vault_def p_def)
    have c1: "dv_cache d1 i = Some key" "check_id i = Inr ()" using key_put_cached [OF k] fin by auto
    have tmp3: "node_at (dv_disk d3) tmp = Some (Document (sd_vault_print (e_serde E) i))"
      using wr by (auto simp: on_disk_eq write_bytes_Inr)
    have tmp4: "node_at (dv_disk (dr_meanwhile dr d3)) tmp = Some (Document (sd_vault_print (e_serde E) i))"
      and c4: "dv_cache (dr_meanwhile dr d3) = dv_cache d3"
      using others tmp3 by (simp_all add: others_ok_def tmp_def)
    have p5: "node_at (dv_disk d5) p = Some (Document (sd_vault_print (e_serde E) i)) \<and> \<not> bad (dv_disk d5) p"
      using ln tmp4 Inr by (auto simp: on_disk_eq hard_link_def split: if_splits)
    have ne: "p \<noteq> tmp" using new_vault_file_other [of E dr home] by (auto simp: p_def tmp_def)
    have p6: "node_at (dv_disk d6) p = Some (Document (sd_vault_print (e_serde E) i)) \<and> \<not> bad (dv_disk d6) p"
      using rm p5 ne by (auto simp: on_disk_eq remove_file_def split: if_splits)
    have "dv_cache d6 = dv_cache d1" using mk wr ln rm c4 by (auto simp: on_disk_eq)
    then have "dv_cache d6 i = Some key" using c1 by simp
    then show ?thesis using p6 S c1(2) fin by (auto simp: key_ready_def profile_key_id_Some serde_ok_def p_def)
  qed
qed

lemma profile_key_or_create_ready:
  assumes "profile_key_or_create E dr home d = (d', Inr key)" and "serde_ok (e_serde E)" and "others_ok E dr home"
  shows "key_ready E home key d'"
proof -
  obtain d1 k where k: "profile_key E (fst (dr_nonces dr)) home d = (d1, Inr k)"
    and rest: "(case k of Some key \<Rightarrow> sret key
       | None \<Rightarrow> sbind sget (\<lambda>d. if dv_wiped d then slift (Inl (Lock WasWiped)) else create_vault E dr home)) d1 = (d', Inr key)"
    using assms(1) by (auto simp: profile_key_or_create_def sbind_Inr)
  show ?thesis
  proof (cases k)
    case None
    then show ?thesis using rest create_vault_ready [OF _ assms(2,3)] by (auto simp: sbind_def split: if_splits)
  next
    case (Some key')
    then show ?thesis using rest k profile_key_ready by auto
  qed
qed

lemma is_sealed_seal [simp]: "is_sealed (vault_seal C n k a m)"
  by (simp add: is_sealed_def vault_seal_def)

lemma vault_open_seal:
  assumes "gcm_ok C" and "length n = VAULT_NONCE_LEN"
  shows "vault_open C k a (vault_seal C n k a m) = Inr m"
  using assms by (auto simp: vault_open_def vault_seal_def gcm_ok_def Let_def)

lemma read_bytes_Inr: "read_bytes x p = Inr b \<longleftrightarrow> \<not> bad x p \<and> node_at x p = Some (Document b)"
  by (auto simp: read_bytes_def res_inv split: option.splits node.splits)

text \<open>A device where nothing opens: the profile's key is not to be had.\<close>

lemma sealed_unreadable:
  assumes "read_bytes (dv_disk d) p = Inr b" and "is_sealed b" and "profile_key E n home d = (d, Inl e)"
  shows "vault_read E n home p d = (d, Inl e)"
  using assms by (simp add: vault_read_def sbind_def)

lemma locked_key_get:
  assumes lock: "lock_load E d = (d, Inr (Some b))" and "dv_master d = None" and "dv_cache d i = None"
  shows "\<exists>r. key_get E n i d = (d, r) \<and> (\<forall>k. r \<noteq> Inr (Some k))"
proof (cases "check_id i")
  case (Inr u)
  have mk: "master_key E d = (d, Inl (Lock AppLocked))" "master_key_if_set E d = (d, Inl (Lock AppLocked))"
    using lock assms(2) by (simp_all add: master_key_def master_key_if_set_def sbind_def)
  have un: "\<exists>e. unwrap_key E n i stored d = (d, Inl e)" for stored
    using mk by (auto simp: unwrap_key_def sbind_def ensure_def split: sum.splits)
  obtain look where look: "keys_lookup E KEYCHAIN_SERVICE i d = (d, look)" by (simp add: keys_lookup_def)
  have step: "key_get E n i d = sbind (\<lambda>s. (s, look)) (\<lambda>it.
       case it of None \<Rightarrow> sret None | Some (LockItem b) \<Rightarrow> slift (Inl (Crypto BadSecret))
       | Some (KeyBytes stored) \<Rightarrow> sbind (unwrap_key E n i stored) (\<lambda>key. sbind (smodify (cache_key i key)) (\<lambda>_. sret (Some key)))) d"
    using Inr assms(3) look by (simp add: key_get_def sbind_def)
  show ?thesis
  proof (cases look)
    case (Inl e)
    then show ?thesis using step by (simp add: sbind_def)
  next
    case (Inr it)
    show ?thesis
    proof (cases it)
      case None
      then show ?thesis using step Inr by (simp add: sbind_def)
    next
      case (Some v)
      show ?thesis
      proof (cases v)
        case (KeyBytes stored)
        obtain e where "unwrap_key E n i stored d = (d, Inl e)" using un by blast
        then show ?thesis using step Inr Some KeyBytes by (simp add: sbind_def)
      next
        case (LockItem b)
        then show ?thesis using step Inr Some by (simp add: sbind_def)
      qed
    qed
  qed
qed (simp add: key_get_def sbind_def)

lemma locked_profile_key:
  assumes "lock_load E d = (d, Inr (Some b))" and "dv_master d = None" and "dv_cache d = Map.empty"
  shows "(\<exists>e. profile_key E n home d = (d, Inl e)) \<or> profile_key_id E home (dv_disk d) = Inr None \<and> profile_key E n home d = (d, Inr None)"
proof (cases "profile_key_id E home (dv_disk d)")
  case (Inr i)
  show ?thesis
  proof (cases i)
    case None
    then show ?thesis using Inr by (simp add: profile_key_def sbind_def)
  next
    case (Some j)
    have "dv_cache d j = None" using assms(3) by simp
    then obtain r where "key_get E n j d = (d, r)" "\<forall>k. r \<noteq> Inr (Some k)" using locked_key_get [OF assms(1,2)] by blast
    then show ?thesis using Inr Some by (cases r) (auto simp: profile_key_def sbind_def split: option.splits)
  qed
qed (simp add: profile_key_def sbind_def)

lemma locked_create_vault:
  assumes "lock_load E d = (d, Inr (Some b))" and "dv_master d = None"
  shows "\<exists>e. create_vault E dr home d = (d, Inl e)"
proof -
  have "master_key_if_set E d = (d, Inl (Lock AppLocked))"
    using assms by (simp add: master_key_if_set_def sbind_def)
  then have "\<exists>e. key_put E n i k d = (d, Inl e)" for n i k
    by (simp add: key_put_def stored_form_def sbind_def split: sum.split)
  then obtain e where "key_put E (fst (dr_nonces dr)) (hex_encode (e_crates E) (dr_id dr)) (dr_key dr) d = (d, Inl e)" by blast
  then show ?thesis by (simp add: create_vault_def Let_def sbind_def)
qed

section \<open>Properties\<close>

lemma vault_write_reads:
  assumes "gcm_ok (e_crates E)" and "serde_ok (e_serde E)" and "others_ok E dr home"
    and "length nonce = VAULT_NONCE_LEN" and "p \<noteq> home @ [VAULT_FILE]"
    and "vault_write E dr nonce home p m d = (d', Inr ())"
  shows "vault_read E n home p d' = (d', Inr m) \<and> (\<exists>b. read_bytes (dv_disk d') p = Inr b \<and> is_sealed b)"
proof -
  obtain key a d1 d2 where k: "profile_key_or_create E dr home d = (d1, Inr key)" and a: "vault_aad home p = Inr a"
    and mk: "on_disk (create_dir_all (butlast p)) d1 = (d2, Inr ())"
    and wr: "on_disk (write_bytes p (vault_seal (e_crates E) nonce key a m)) d2 = (d', Inr ())"
    using assms(6) by (auto simp: vault_write_def sbind_Inr)
  obtain i where i: "profile_key_id E home (dv_disk d1) = Inr (Some i)" "dv_cache d1 i = Some key"
    using profile_key_or_create_ready [OF k assms(2,3)] by (auto simp: key_ready_def)
  have "profile_key_id E home (dv_disk d2) = Inr (Some i)"
    using i(1) mk by (auto simp: profile_key_id_Some on_disk_eq dest: create_dir_all_keeps)
  then have "key_ready E home key d'"
    using wr mk i assms(5) by (auto simp: key_ready_def on_disk_eq write_bytes_Inr profile_key_id_Some)
  then have pk: "profile_key E n home d' = (d', Inr (Some key))" by (rule ready_profile_key)
  have b: "read_bytes (dv_disk d') p = Inr (vault_seal (e_crates E) nonce key a m)"
    using wr by (auto simp: on_disk_eq write_bytes_Inr read_bytes_Inr)
  show ?thesis using pk b a vault_open_seal [OF assms(1,4)] by (simp add: vault_read_def sbind_def)
qed

text \<open>C18: What is written to a profile reads back. When \<^verbatim>\<open>vault::write\<close> returns, whether the profile
  had a vault, got one, or lost the race to create it to another process, the file on disk is
  sealed and reading it in this process gives the plaintext.\<close>

theorem vault_write_then_read:
  assumes "gcm_ok (e_crates E)" and "serde_ok (e_serde E)" and "others_ok E dr home"
    and "length nonce = VAULT_NONCE_LEN" and "p \<noteq> home @ [VAULT_FILE]"
    and "vault_write E dr nonce home p m d = (d', Inr ())"
  shows "vault_read E n home p d' = (d', Inr m) \<and> (\<exists>b. read_bytes (dv_disk d') p = Inr b \<and> is_sealed b)"
  using assms by (rule vault_write_reads)

text \<open>C17: Shredding is final. After \<^verbatim>\<open>vault::shred\<close> of a profile has reported a vault, none of its
  sealed files opens any more, in this process or (on the same Keychain and disk, with nothing
  cached) in another, unlocked or not; every other profile's key is still where it was.\<close>

theorem shredded_profile_is_unreadable:
  assumes "keychain (e_keys E)" and "shred E home d = (d', Inr True)"
    and "dv_chain e = dv_chain d'" and "dv_disk e = dv_disk d'" and "dv_cache e \<in> {dv_cache d', Map.empty}"
    and "read_bytes (dv_disk e) p = Inr b" and "is_sealed b"
  shows "vault_read E n home p e = (e, Inl (Lock KeyGone))
     \<and> (\<exists>i. profile_key_id E home (dv_disk d) = Inr (Some i)
          \<and> (\<forall>j. j = i \<or> ks_get (e_keys E) (service (e_ns E) KEYCHAIN_SERVICE) j (dv_chain d')
                       = ks_get (e_keys E) (service (e_ns E) KEYCHAIN_SERVICE) j (dv_chain d)))"
proof -
  let ?s = "service (e_ns E) KEYCHAIN_SERVICE"
  obtain i where i: "profile_key_id E home (dv_disk d) = Inr (Some i)" and del: "key_delete E i d = (d', Inr ())"
    using assms(2) by (auto simp: shred_def sbind_Inr split: option.split_asm)
  have id: "check_id i = Inr ()" by (rule profile_key_id_checked [OF i])
  have d': "ks_delete (e_keys E) ?s i (dv_chain d) = (dv_chain d', Inr ())" "dv_cache d' i = None" "dv_disk d' = dv_disk d"
    using del by (auto simp: key_delete_def sbind_Inr on_chain_def uncache_key_def split: prod.splits)
  have gone: "ks_get (e_keys E) ?s i (dv_chain e) = Inr None"
    using keychain.delete_get [OF assms(1) d'(1)] assms(3) by simp
  have "dv_cache e i = None" using assms(5) d'(2) by auto
  then have "key_get E n i e = (e, Inr None)" using key_get_gone id gone by blast
  then have "profile_key E n home e = (e, Inl (Lock KeyGone))"
    using i d'(3) assms(4) by (simp add: profile_key_def sbind_def)
  then have "vault_read E n home p e = (e, Inl (Lock KeyGone))" by (rule sealed_unreadable [OF assms(6,7)])
  moreover have "ks_get (e_keys E) ?s j (dv_chain d') = ks_get (e_keys E) ?s j (dv_chain d)" if "j \<noteq> i" for j
    using keychain.delete_frame [OF assms(1) d'(1), of ?s j] that by simp
  ultimately show ?thesis using i by blast
qed

text \<open>C16: Locking closes everything. On a device with a PIN, after \<^verbatim>\<open>lock\<close>, reading a sealed file of
  any profile fails, whether its key is stored wrapped or bare; so does writing, even for a
  profile that has no vault yet. Neither changes anything.\<close>

theorem locked_app_opens_nothing:
  assumes "lock_load E d = (d, Inr (Some b))"
    and "read_bytes (dv_disk d) p = Inr sealed" and "is_sealed sealed"
  shows "\<exists>e e'. vault_read E n home p (lock_app d) = (lock_app d, Inl e)
     \<and> vault_write E dr nonce home' q m (lock_app d) = (lock_app d, Inl e')"
proof -
  let ?l = "lock_app d"
  have l: "lock_load E ?l = (?l, Inr (Some b))" "dv_master ?l = None" "dv_cache ?l = Map.empty" "dv_disk ?l = dv_disk d"
    using assms(1) by (simp_all add: lock_app_def forget_keys_def lock_load_item)
  have none: "vault_read E n home p ?l = (?l, Inl (File Missing))" if "profile_key E n home ?l = (?l, Inr None)"
    using that assms(2,3) l(4) by (simp add: vault_read_def sbind_def)
  have "\<exists>e. vault_read E n home p ?l = (?l, Inl e)"
    using locked_profile_key [OF l(1-3), of n home] sealed_unreadable [of ?l p sealed E n home] none assms(2,3) l(4) by auto
  moreover obtain e1 where "create_vault E dr home' ?l = (?l, Inl e1)"
    using locked_create_vault [OF l(1,2)] by blast
  then have "\<exists>e. profile_key_or_create E dr home' ?l = (?l, Inl e)"
    using locked_profile_key [OF l(1-3), of "fst (dr_nonces dr)" home'] by (auto simp: profile_key_or_create_def sbind_def)
  then have "\<exists>e. vault_write E dr nonce home' q m ?l = (?l, Inl e)" by (auto simp: vault_write_def sbind_def)
  ultimately show ?thesis by blast
qed

section \<open>A profile\<close>

definition vault_env :: "memory env" where
  "vault_env = demo_env\<lparr>e_crates := demo_crates\<rparr>"

definition vault_draws :: "memory draws" where
  "vault_draws = \<lparr>dr_nonces = (replicate 12 1, replicate 12 2), dr_id = replicate 16 0, dr_key = replicate 32 7, dr_meanwhile = (\<lambda>d. d)\<rparr>"

definition bare_device :: "memory \<Rightarrow> (path \<times> node) list \<Rightarrow> memory device" where
  "bare_device m es = \<lparr>dv_chain = m, dv_cache = Map.empty, dv_master = None, dv_wiped = False, dv_disk = \<lparr>entries = es, bad = (\<lambda>p. False)\<rparr>\<rparr>"

definition zero_id :: string where
  "zero_id = concat (replicate 16 ''00'')"

lemma vault_env_sel [simp]:
  "e_crates vault_env = demo_crates" "e_keys vault_env = memory_store" "e_ns vault_env = None" "e_serde vault_env = demo_serde"
  by (simp_all add: vault_env_def)

lemma vault_draws_sel [simp]:
  "dr_nonces vault_draws = (replicate 12 1, replicate 12 2)" "dr_id vault_draws = replicate 16 0" "dr_key vault_draws = replicate 32 7"
  "dr_meanwhile vault_draws = (\<lambda>d. d)"
  by (simp_all add: vault_draws_def)

lemma demo_serde_sel [simp]: "sd_vault_print demo_serde = str_bytes" "sd_vault_parse demo_serde = (\<lambda>b. Some (bytes_str b))"
  by (simp_all add: demo_serde_def)

lemma zero_id_hex: "hex_encode demo_crates (replicate 16 0) = zero_id"
proof -
  have "demo_hex_byte 0 = ''00''" by (simp add: demo_hex_byte_def hex_digits_def)
  then show ?thesis by (simp add: demo_crates_def demo_hex_encode_def zero_id_def)
qed

lemma zero_id_ok [simp]: "check_id zero_id = Inr ()"
  by (simp add: check_id_def zero_id_def hex_digits_def length_concat list_all_iff sum_list_replicate)

lemma vault_serde_ok: "serde_ok (e_serde vault_env)"
  by (simp add: serde_ok_def)

lemma vault_others_ok: "others_ok vault_env vault_draws home"
  by (simp add: others_ok_def)

definition keyed_device :: "bytes \<Rightarrow> (path \<times> node) list \<Rightarrow> memory device" where
  "keyed_device k es = \<lparr>dv_chain = [((KEYCHAIN_SERVICE, zero_id), KeyBytes k)], dv_cache = [zero_id \<mapsto> k], dv_master = None, dv_wiped = False,
     dv_disk = \<lparr>entries = es, bad = (\<lambda>p. False)\<rparr>\<rparr>"

lemma on_disk_keyed: "on_disk m (keyed_device k es) = (case m \<lparr>entries = es, bad = (\<lambda>p. False)\<rparr> of (x, r) \<Rightarrow> ((keyed_device k [])\<lparr>dv_disk := x\<rparr>, r))"
  by (simp add: on_disk_def keyed_device_def)

lemma keyed_disk: "(keyed_device k es)\<lparr>dv_disk := \<lparr>entries = es', bad = (\<lambda>p. False)\<rparr>\<rparr> = keyed_device k es'"
  by (simp add: keyed_device_def)

lemma demo_key_put: "key_put vault_env n zero_id k (bare_device [] es) = (keyed_device k es, Inr ())"
  by (simp add: key_put_def stored_form_def master_key_if_set_def lock_load_def keys_lookup_def mem_get_def mem_put_def on_chain_def
      bare_device_def keyed_device_def sbind_def cache_key_def)

lemma demo_link:
  assumes "es = [([''h''], Dir), ([''h'', tmp], Document b)]" and "tmp \<noteq> VAULT_FILE"
  shows "link_vault vault_env n zero_id k [''h'', tmp] [''h''] (keyed_device k es)
      = (keyed_device k [([''h''], Dir), ([''h'', VAULT_FILE], Document b)], Inr k)"
  using assms
  by (simp add: link_vault_def on_disk_keyed hard_link_def entry_exists_def node_at_def put_entry_def keyed_disk remove_file_def is_dir_def drop_entries_def)

lemma demo_create:
  "create_vault vault_env vault_draws [''h''] (bare_device [] [])
   = (keyed_device (replicate 32 7) [([''h''], Dir), ([''h'', VAULT_FILE], Document (str_bytes zero_id))], Inr (replicate 32 7))"
proof -
  have "link_vault vault_env n zero_id k [''h'', ''.'' @ VAULT_FILE @ ''.new-'' @ zero_id] [''h'']
      (keyed_device k [([''h''], Dir), ([''h'', ''.'' @ VAULT_FILE @ ''.new-'' @ zero_id], Document b)])
      = (keyed_device k [([''h''], Dir), ([''h'', VAULT_FILE], Document b)], Inr k)" for n k b
    by (rule demo_link [OF refl]) (simp add: VAULT_FILE_def)
  then show ?thesis
    by (simp add: create_vault_def Let_def zero_id_hex sbind_def demo_key_put on_disk_keyed create_dir_all_def is_dir_def entry_exists_def
        node_at_def put_entry_def keyed_disk write_bytes_def)
qed

lemma demo_vault_write:
  "snd (vault_write vault_env vault_draws (replicate 12 3) [''h''] [''h'', ''keys.json''] m (bare_device [] [])) = Inr ()"
proof -
  have "profile_key vault_env n [''h''] (bare_device [] []) = (bare_device [] [], Inr None)" for n
    by (simp add: profile_key_def profile_key_id_def Let_def file_exists_def is_dir_def is_file_def node_at_def bare_device_def sbind_def)
  moreover have "dv_wiped (bare_device [] []) = False" by (simp add: bare_device_def)
  ultimately show ?thesis
    by (simp add: vault_write_def profile_key_or_create_def sbind_def demo_create vault_aad_def within_def on_disk_keyed create_dir_all_def
        is_dir_def node_at_def keyed_disk write_bytes_def VAULT_FILE_def)
qed

theorem vault_write_then_read_witness:
  "let d' = fst (vault_write vault_env vault_draws (replicate 12 3) [''h''] [''h'', ''keys.json''] [1, 2, 3] (bare_device [] []))
   in vault_read vault_env [] [''h''] [''h'', ''keys.json''] d' = (d', Inr [1, 2, 3])"
proof -
  obtain d' where d': "vault_write vault_env vault_draws (replicate 12 3) [''h''] [''h'', ''keys.json''] [1, 2, 3] (bare_device [] []) = (d', Inr ())"
    using demo_vault_write [of "[1, 2, 3]"] by (metis prod.collapse)
  have "vault_read vault_env [] [''h''] [''h'', ''keys.json''] d' = (d', Inr [1, 2, 3])"
    using vault_write_then_read [OF _ vault_serde_ok vault_others_ok _ _ d', of "[]"] demo_gcm_ok
    by (simp add: VAULT_NONCE_LEN_def VAULT_FILE_def)
  then show ?thesis using d' by simp
qed

text \<open>A profile whose key is in the Keychain, bare.\<close>

definition sealed_home :: "(path \<times> node) list" where
  "sealed_home = [([''h''], Dir), ([''h'', ''vault.json''], Document (str_bytes zero_id)), ([''h'', ''keys.json''], Document (MAGIC @ [9, 9]))]"

lemma demo_sealed_read: "read_bytes (dv_disk (bare_device m sealed_home)) [''h'', ''keys.json''] = Inr (MAGIC @ [9, 9])"
  by (simp add: read_bytes_def bare_device_def node_at_def sealed_home_def)

lemma demo_shred:
  "shred vault_env [''h''] (bare_device [((KEYCHAIN_SERVICE, zero_id), KeyBytes (replicate 32 7))] sealed_home) = (bare_device [] sealed_home, Inr True)"
  by (simp add: shred_def sbind_def profile_key_id_def bare_device_def sealed_home_def file_exists_def is_file_def is_dir_def node_at_def VAULT_FILE_def
      read_bytes_def key_delete_def uncache_key_def on_chain_def mem_delete_def bytes_str_bytes)

theorem shredded_profile_is_unreadable_witness:
  "vault_read vault_env [] [''h''] [''h'', ''keys.json''] (bare_device [] sealed_home) = (bare_device [] sealed_home, Inl (Lock KeyGone))"
proof -
  have K: "keychain (e_keys vault_env)" using mem.keychain_axioms by simp
  show ?thesis
    using shredded_profile_is_unreadable [OF K demo_shred refl refl, of "[''h'', ''keys.json'']" "MAGIC @ [9, 9]" "[]"] demo_sealed_read
    by (simp add: is_sealed_def)
qed

theorem locked_app_opens_nothing_witness:
  "\<exists>e e'. let l = lock_app (bare_device [((KEYCHAIN_SERVICE, zero_id), KeyBytes (replicate 32 7)), ((SERVICE, ACCOUNT), LockItem (demo_blob ''123456'' 0))] sealed_home)
   in vault_read vault_env [] [''h''] [''h'', ''keys.json''] l = (l, Inl e) \<and>
      vault_write vault_env vault_draws (replicate 12 3) [''g''] [''g'', ''keys.json''] [1] l = (l, Inl e')"
proof -
  let ?d = "bare_device [((KEYCHAIN_SERVICE, zero_id), KeyBytes (replicate 32 7)), ((SERVICE, ACCOUNT), LockItem (demo_blob ''123456'' 0))] sealed_home"
  have l: "lock_load vault_env ?d = (?d, Inr (Some (demo_blob ''123456'' 0)))"
    by (simp add: lock_load_item mem_get_def bare_device_def SERVICE_def KEYCHAIN_SERVICE_def)
  show ?thesis
    using locked_app_opens_nothing [OF l demo_sealed_read, of "[]" "[''h'']" vault_draws "replicate 12 3" "[''g'']" "[''g'', ''keys.json'']" "[1]"]
    by (simp add: is_sealed_def Let_def)
qed

end
