(* ===== verification/Profiles.thy ===== *)
theory Profiles
  imports Vault
begin

text \<open>
  \<^verbatim>\<open>core/src/profiles.rs\<close>: the profiles under a root directory, what a home is, the \<^verbatim>\<open>current\<close> file,
  the migration of older layouts and the archive; with the readers of \<^verbatim>\<open>config.rs\<close> they use. Reading a
  profile's keys goes through the vault, so it may fill the cache and rewrap a key: these are steps
  on the device, and \<open>nz\<close> gives the nonce a rewrap of a home's key would draw. The rest is steps on
  the disk.
\<close>

section \<open>Homes\<close>

definition PROFILE_PREFIX :: string where "PROFILE_PREFIX = ''.zkmsg-''"
definition ROOT_ENTRIES :: "string list" where
  "ROOT_ENTRIES = [''config.json'', ''keys.json'', ''sends'', ''inbox.json'', ''proofs'']"
definition ARCHIVE_DIR :: string where "ARCHIVE_DIR = ''archive''"

definition config_path :: "path \<Rightarrow> path" where "config_path home = home @ [''config.json'']"
definition keys_path :: "path \<Rightarrow> path" where "keys_path home = home @ [''keys.json'']"
definition sends_dir :: "path \<Rightarrow> path" where "sends_dir home = home @ [''sends'']"
definition tickets_path :: "path \<Rightarrow> path" where "tickets_path home = home @ [''tickets.json'']"

definition load_config :: "'k env \<Rightarrow> path \<Rightarrow> disk \<Rightarrow> config res" where
  "load_config E home x = rbind (read_bytes x (config_path home)) (\<lambda>b. of_opt (Decode BadShape) (sd_config (e_serde E) b))"

definition load_home_keys :: "'k env \<Rightarrow> (path \<Rightarrow> bytes) \<Rightarrow> path \<Rightarrow> ('k device, profile_keys) st" where
  "load_home_keys E nz home =
     sbind sget (\<lambda>d.
     if \<not> file_exists (dv_disk d) (keys_path home) then slift (Inl (File Missing))
     else sbind (vault_read E (nz home) home (keys_path home)) (\<lambda>b.
          slift (of_opt (Decode BadShape) (sd_keys (e_serde E) b))))"

definition cached_handle :: "'k env \<Rightarrow> (path \<Rightarrow> bytes) \<Rightarrow> path \<Rightarrow> ('k device, string option) st" where
  "cached_handle E nz dir =
     sbind (sok (load_home_keys E nz dir)) (\<lambda>k. sret (case k of Some ks \<Rightarrow> keys_handle ks | None \<Rightarrow> None))"

section \<open>Listing\<close>

record profile_entry =
  pe_name :: string
  pe_dir :: path
  pe_handle :: "string option"
  pe_setup_incomplete :: bool

definition strip_prefix :: "string \<Rightarrow> string \<Rightarrow> string option" where
  "strip_prefix p s = (if starts_with p s then Some (drop (length p) s) else None)"

definition profile_name :: "path \<Rightarrow> string option" where
  "profile_name dir =
     (if dir = [] then None
      else case strip_prefix PROFILE_PREFIX (last dir) of Some n \<Rightarrow> if n = [] then None else Some n | None \<Rightarrow> None)"

definition profile_path :: "path \<Rightarrow> string \<Rightarrow> path" where
  "profile_path root name = root @ [PROFILE_PREFIX @ name]"

fun list_each :: "'k env \<Rightarrow> (path \<Rightarrow> bytes) \<Rightarrow> path list \<Rightarrow> ('k device, profile_entry list) st" where
  "list_each E nz [] = sret []"
| "list_each E nz (dir # dirs) =
     sbind sget (\<lambda>d.
       let x = dv_disk d; has_config = is_file x (config_path dir); has_setup = is_file x (dir @ [''setup.json''])
       in case profile_name dir of
            None \<Rightarrow> list_each E nz dirs
          | Some name \<Rightarrow>
              if \<not> is_dir x dir \<or> \<not> has_config \<and> \<not> has_setup then list_each E nz dirs
              else sbind (cached_handle E nz dir) (\<lambda>handle.
                   sbind (list_each E nz dirs) (\<lambda>rest.
                   sret (\<lparr>pe_name = name, pe_dir = dir, pe_handle = handle,
                          pe_setup_incomplete = (\<not> has_config \<and> has_setup)\<rparr> # rest))))"

definition list_profiles :: "'k env \<Rightarrow> (path \<Rightarrow> bytes) \<Rightarrow> path \<Rightarrow> ('k device, profile_entry list) st" where
  "list_profiles E nz root =
     sbind sget (\<lambda>d.
     if \<not> is_dir (dv_disk d) root then sret []
     else sbind (slift (read_dir (dv_disk d) root)) (\<lambda>dirs.
          sbind (list_each E nz dirs) (\<lambda>out.
          sret (sort_key pe_name out))))"

definition list_archived :: "'k env \<Rightarrow> (path \<Rightarrow> bytes) \<Rightarrow> path \<Rightarrow> ('k device, profile_entry list) st" where
  "list_archived E nz root = list_profiles E nz (root @ [ARCHIVE_DIR])"

definition read_current :: "path \<Rightarrow> disk \<Rightarrow> string option" where
  "read_current root x =
     (case read_bytes x (root @ [''current'']) of
        Inl e \<Rightarrow> None
      | Inr b \<Rightarrow> let s = trim_ws (bytes_str b) in if s \<noteq> [] then Some s else None)"

definition write_current :: "path \<Rightarrow> string \<Rightarrow> (disk, unit) st" where
  "write_current root name = sbind (create_dir_all root) (\<lambda>_. write_bytes (root @ [''current'']) (str_bytes name))"

section \<open>Which home\<close>

datatype home_kind = ProfileHome path | RootHome path "path option" | EmptyHome path

definition classify_home :: "'k env \<Rightarrow> (path \<Rightarrow> bytes) \<Rightarrow> path \<Rightarrow> ('k device, home_kind) st" where
  "classify_home E nz p =
     sbind sget (\<lambda>d.
     if is_file (dv_disk d) (config_path p) then sret (ProfileHome p)
     else sbind (sok (list_profiles E nz p)) (\<lambda>ps.
          sbind sget (\<lambda>d.
            let x = dv_disk d; profiles = (case ps of Some l \<Rightarrow> l | None \<Rightarrow> [])
            in if profiles \<noteq> [] \<or> is_file x (p @ [''current'']) then
                 sret (RootHome p (case read_current p x of
                    Some n \<Rightarrow> if is_file x (config_path (profile_path p n)) then Some (profile_path p n) else None
                  | None \<Rightarrow> None))
               else sret (EmptyHome p))))"

definition resolve_cli_home :: "'k env \<Rightarrow> (path \<Rightarrow> bytes) \<Rightarrow> path \<Rightarrow> ('k device, path) st" where
  "resolve_cli_home E nz p =
     sbind (classify_home E nz p) (\<lambda>k.
       case k of
         ProfileHome q \<Rightarrow> sret q
       | EmptyHome q \<Rightarrow> sret q
       | RootHome root (Some q) \<Rightarrow> sret q
       | RootHome root None \<Rightarrow> slift (Inl (File Missing)))"

definition profile_root :: "'k env \<Rightarrow> (path \<Rightarrow> bytes) \<Rightarrow> path \<Rightarrow> ('k device, path) st" where
  "profile_root E nz home =
     sbind (classify_home E nz home) (\<lambda>k.
       sret (case k of
         ProfileHome p \<Rightarrow> if p \<noteq> [] \<and> starts_with PROFILE_PREFIX (last p) then butlast p else p
       | RootHome root _ \<Rightarrow> root
       | EmptyHome p \<Rightarrow> p))"

section \<open>Older layouts\<close>

record legacy_source =
  ls_dir :: path
  ls_is_root :: bool
  ls_suggested_name :: string

fun legacy_each :: "'k env \<Rightarrow> (path \<Rightarrow> bytes) \<Rightarrow> path \<Rightarrow> path list \<Rightarrow> ('k device, legacy_source list) st" where
  "legacy_each E nz root [] = sret []"
| "legacy_each E nz root (dir # dirs) =
     sbind sget (\<lambda>d.
       case profile_name dir of
         None \<Rightarrow> legacy_each E nz root dirs
       | Some suffix \<Rightarrow>
           if dir = root \<or> \<not> is_file (dv_disk d) (config_path dir) then legacy_each E nz root dirs
           else sbind (cached_handle E nz dir) (\<lambda>h.
                sbind (legacy_each E nz root dirs) (\<lambda>rest.
                sret (\<lparr>ls_dir = dir, ls_is_root = False, ls_suggested_name = (case h of Some n \<Rightarrow> n | None \<Rightarrow> suffix)\<rparr> # rest))))"

definition detect_legacy :: "'k env \<Rightarrow> (path \<Rightarrow> bytes) \<Rightarrow> path \<Rightarrow> ('k device, legacy_source list) st" where
  "detect_legacy E nz root =
     sbind sget (\<lambda>d.
     sbind (if is_file (dv_disk d) (config_path root) then
              sbind (cached_handle E nz root) (\<lambda>h.
              sret [\<lparr>ls_dir = root, ls_is_root = True, ls_suggested_name = (case h of Some n \<Rightarrow> n | None \<Rightarrow> [])\<rparr>])
            else sret []) (\<lambda>own.
     if root = [] then sret own
     else case read_dir (dv_disk d) (butlast root) of
            Inl e \<Rightarrow> sret own
          | Inr dirs \<Rightarrow> sbind (legacy_each E nz root dirs) (\<lambda>rest. sret (own @ rest))))"

text \<open>A move: from, to.\<close>

type_synonym migration_move = "path \<times> path"

definition bad_target_char :: "char \<Rightarrow> bool" where
  "bad_target_char c = (128 \<le> (of_char c :: nat) \<or> c = CHR ''/'' \<or> c = CHR 0x5C)"

fun check_names :: "string list \<Rightarrow> string list \<Rightarrow> unit res" where
  "check_names seen [] = Inr ()"
| "check_names seen (n # ns) =
     ensure (n \<noteq> []) (File BadTarget) (
     ensure (\<not> list_ex bad_target_char n) (File BadTarget) (
     ensure (n \<notin> set seen) (File BadTarget) (check_names (n # seen) ns)))"

fun plan_moves :: "path \<Rightarrow> disk \<Rightarrow> (legacy_source \<times> string) list \<Rightarrow> migration_move list res" where
  "plan_moves root x [] = Inr []"
| "plan_moves root x ((source, name) # named) =
     (let target = profile_path root name
      in ensure (\<not> file_exists x target) (File RefusedOverwrite) (
         rbind (plan_moves root x named) (\<lambda>rest.
         Inr ((if ls_is_root source
               then map (\<lambda>n. (ls_dir source @ [n], target @ [n])) (filter (\<lambda>n. file_exists x (ls_dir source @ [n])) ROOT_ENTRIES)
               else [(ls_dir source, target)]) @ rest))))"

definition plan_migration :: "path \<Rightarrow> (legacy_source \<times> string) list \<Rightarrow> disk \<Rightarrow> migration_move list res" where
  "plan_migration root named x = rbind (check_names [] (map snd named)) (\<lambda>_. plan_moves root x named)"

fun execute_migration :: "migration_move list \<Rightarrow> (disk, unit) st" where
  "execute_migration [] = sret ()"
| "execute_migration ((from, to) # moves) =
     sbind sget (\<lambda>x.
     if entry_exists x to then slift (Inl (File RefusedOverwrite))
     else sbind (if to = [] then sret () else create_dir_all (butlast to)) (\<lambda>_.
          sbind (rename from to) (\<lambda>_. execute_migration moves)))"

section \<open>The archive\<close>

definition archive_profile :: "path \<Rightarrow> string \<Rightarrow> (disk, path) st" where
  "archive_profile root name =
     (let from = profile_path root name; to = profile_path (root @ [ARCHIVE_DIR]) name
      in sbind sget (\<lambda>x.
         if \<not> is_dir x from then slift (Inl (File Missing))
         else if entry_exists x to then slift (Inl (File RefusedOverwrite))
         else sbind (create_dir_all (root @ [ARCHIVE_DIR])) (\<lambda>_.
              sbind (rename from to) (\<lambda>_. sret to))))"

definition unarchive_profile :: "path \<Rightarrow> string \<Rightarrow> (disk, path) st" where
  "unarchive_profile root name =
     (let from = profile_path (root @ [ARCHIVE_DIR]) name; to = profile_path root name
      in sbind sget (\<lambda>x.
         if \<not> is_dir x from then slift (Inl (File Missing))
         else if entry_exists x to then slift (Inl (File RefusedOverwrite))
         else sbind (rename from to) (\<lambda>_. sret to)))"

section \<open>A disk that is a tree\<close>

lemma within_butlast: "within q (butlast p) \<Longrightarrow> p \<noteq> [] \<Longrightarrow> within q p"
  by (metis append_butlast_last_id within_append append.assoc)

lemma not_within_butlast [simp]:
  assumes "p \<noteq> []"
  shows "\<not> within p (butlast p)"
proof
  assume "within p (butlast p)"
  then have "length p \<le> length (butlast p)" by (auto simp: within_append dest: arg_cong [of _ _ length])
  then show False using assms by (cases p) (auto split: if_splits)
qed

definition disk_ok :: "disk \<Rightarrow> bool" where
  "disk_ok x = (is_dir x [] \<and> (\<forall>p n. node_at x p = Some n \<longrightarrow> p \<noteq> [] \<longrightarrow> is_dir x (butlast p)))"

lemma disk_ok_parent: "disk_ok x \<Longrightarrow> node_at x p = Some n \<Longrightarrow> p \<noteq> [] \<Longrightarrow> is_dir x (butlast p)"
  by (simp add: disk_ok_def)

lemma disk_ok_below:
  assumes "disk_ok x" and "node_at x q = None" and "within q r"
  shows "node_at x r = None"
proof -
  obtain s where s: "r = q @ s" using assms(3) by (auto simp: within_append)
  have "node_at x (q @ s) = None"
  proof (induction s rule: rev_induct)
    case (snoc c s)
    then show ?case using disk_ok_parent [OF assms(1), of "q @ s @ [c]"] by (cases "node_at x (q @ s @ [c])") (auto simp: is_dir_def butlast_append)
  qed (simp add: assms(2))
  then show ?thesis by (simp add: s)
qed

text \<open>Every entry is still there, with its content, at a path of its own.\<close>

definition only_moved :: "disk \<Rightarrow> disk \<Rightarrow> bool" where
  "only_moved x x' =
     (disk_ok x' \<and> bad x' = bad x \<and>
      (\<exists>f. inj_on f {p. node_at x p \<noteq> None} \<and> (\<forall>p n. node_at x p = Some n \<longrightarrow> node_at x' (f p) = Some n)))"

lemma only_moved_refl: "disk_ok x \<Longrightarrow> only_moved x x"
  unfolding only_moved_def by (intro conjI exI [of _ id]) auto

lemma only_moved_trans:
  assumes "only_moved x y" and "only_moved y z"
  shows "only_moved x z"
proof -
  obtain f g where f: "inj_on f {p. node_at x p \<noteq> None}" "\<And>p n. node_at x p = Some n \<Longrightarrow> node_at y (f p) = Some n"
    and g: "inj_on g {p. node_at y p \<noteq> None}" "\<And>p n. node_at y p = Some n \<Longrightarrow> node_at z (g p) = Some n"
    using assms by (auto simp: only_moved_def)
  have "f ` {p. node_at x p \<noteq> None} \<subseteq> {p. node_at y p \<noteq> None}" using f(2) by fastforce
  then have "inj_on (g \<circ> f) {p. node_at x p \<noteq> None}" using f(1) g(1) by (meson comp_inj_on inj_on_subset)
  moreover have "\<forall>p n. node_at x p = Some n \<longrightarrow> node_at z ((g \<circ> f) p) = Some n" using f(2) g(2) by simp
  moreover have "disk_ok z" "bad z = bad x" using assms by (simp_all add: only_moved_def)
  ultimately show ?thesis unfolding only_moved_def by blast
qed

lemma only_moved_put_dir:
  assumes "disk_ok x" and "node_at x p = None" and "is_dir x (butlast p)"
  shows "only_moved x (put_entry p Dir x)"
proof -
  have "disk_ok (put_entry p Dir x)" using assms by (auto simp: disk_ok_def is_dir_def)
  then show ?thesis using assms unfolding only_moved_def by (intro conjI exI [of _ id]) auto
qed

lemma make_dirs_only_moved:
  "disk_ok x \<Longrightarrow> is_dir x base \<Longrightarrow> make_dirs base cs x = (x', r) \<Longrightarrow> only_moved x x'"
proof (induction cs arbitrary: base x)
  case (Cons c cs)
  let ?p = "base @ [c]"
  consider "is_dir x ?p" | "\<not> is_dir x ?p" "entry_exists x ?p \<or> bad x ?p" | "\<not> is_dir x ?p" "\<not> entry_exists x ?p" "\<not> bad x ?p"
    by blast
  then show ?case
  proof cases
    case 3
    then have m: "only_moved x (put_entry ?p Dir x)" using only_moved_put_dir Cons.prems by (simp add: entry_exists_def)
    have "only_moved (put_entry ?p Dir x) x'"
      using Cons.IH [of "put_entry ?p Dir x" ?p] m Cons.prems 3 by (simp add: only_moved_def is_dir_def Let_def)
    then show ?thesis using m only_moved_trans by blast
  qed (use Cons in \<open>simp_all add: Let_def only_moved_refl\<close>)
qed (simp add: only_moved_refl)

lemma create_dir_all_only_moved: "disk_ok x \<Longrightarrow> create_dir_all p x = (x', r) \<Longrightarrow> only_moved x x'"
  unfolding create_dir_all_def by (rule make_dirs_only_moved) (auto simp: disk_ok_def)

lemma rename_moves:
  assumes ok: "disk_ok x" and run: "rename p q x = (x', Inr ())" and free: "node_at x q = None"
  shows "node_at x' r = (if within q r then node_at x (p @ drop (length q) r) else if within p r then None else node_at x r)"
proof -
  have "\<not> within q p" using disk_ok_below [OF ok free, of p] rename_free(4) [OF run free] by auto
  then show ?thesis using rename_node_at [OF run, of r] disk_ok_below [OF ok free] by simp
qed

lemma rename_disk_ok:
  assumes ok: "disk_ok x" and run: "rename p q x = (x', Inr ())" and free: "node_at x q = None"
  shows "disk_ok x'"
proof -
  note at = rename_moves [OF ok run free]
  note g = free rename_free(3,2,4) [OF run free]
  have q: "q \<noteq> []" using g(1) ok by (auto simp: disk_ok_def is_dir_def)
  have "is_dir x' []" using ok g q by (simp add: disk_ok_def is_dir_def at) (auto simp: within_append)
  moreover have "is_dir x' (butlast r)" if r: "node_at x' r = Some n" "r \<noteq> []" for r n
  proof (cases "within q r")
    case True
    then obtain s where s: "r = q @ s" by (auto simp: within_append)
    show ?thesis
    proof (cases "s = []")
      case True
      have "\<not> within q (butlast q)" using q by simp
      moreover have "\<not> within p (butlast q)" using g(3) q within_butlast by blast
      ultimately show ?thesis using g(2) True s by (simp add: is_dir_def at)
    next
      case False
      have "node_at x (p @ s) = Some n" using r(1) s by (simp add: at within_append)
      then have "is_dir x (p @ butlast s)" using disk_ok_parent [OF ok, of "p @ s" n] False by (simp add: butlast_append)
      then show ?thesis using False s by (auto simp: is_dir_def at within_append butlast_append)
    qed
  next
    case False
    then have np: "\<not> within p r" and n: "node_at x r = Some n" using r(1) by (auto simp: at split: if_splits)
    have "within y (butlast r) \<Longrightarrow> within y r" for y using r(2) within_butlast by blast
    then show ?thesis using disk_ok_parent [OF ok n r(2)] np False by (auto simp: is_dir_def at)
  qed
  ultimately show ?thesis by (auto simp: disk_ok_def)
qed

lemma rename_only_moved:
  assumes ok: "disk_ok x" and run: "rename p q x = (x', r)" and free: "node_at x q = None"
  shows "only_moved x x'"
proof (cases r)
  case (Inl e)
  then show ?thesis using only_moved_refl ok rename_refused run by blast
next
  case (Inr u)
  then have run: "rename p q x = (x', Inr ())" using run by simp
  note at = rename_moves [OF ok run free]
  have out: "\<not> within q s" if "node_at x s \<noteq> None" for s using disk_ok_below [OF ok free, of s] that by auto
  define f where "f s = (if within p s then q @ drop (length p) s else s)" for s
  have "inj_on f {s. node_at x s \<noteq> None}"
    using out by (auto simp: inj_on_def f_def within_append split: if_splits)
  moreover have "node_at x' (f s) = Some n" if "node_at x s = Some n" for s n
    using that out [of s] by (auto simp: f_def at within_append)
  moreover have "bad x' = bad x" using rename_free(1) [OF run free] by simp
  ultimately show ?thesis using rename_disk_ok [OF ok run free] unfolding only_moved_def by blast
qed

lemma only_moved_ok: "only_moved x x' \<Longrightarrow> disk_ok x'"
  by (simp add: only_moved_def)

text \<open>Creating directories adds nothing beside the path.\<close>

lemma make_dirs_beside: "\<not> within q (base @ cs) \<Longrightarrow> make_dirs base cs x = (x', r) \<Longrightarrow> node_at x' q = node_at x q"
proof (induction cs arbitrary: base x)
  case (Cons c cs)
  have q: "q \<noteq> base @ [c]" using Cons.prems(1) by (auto simp: within_append)
  show ?case using Cons.IH [of "base @ [c]"] Cons.prems q by (auto simp: Let_def split: if_splits)
qed simp

lemma create_dir_all_beside: "\<not> within q p \<Longrightarrow> create_dir_all p x = (x', r) \<Longrightarrow> node_at x' q = node_at x q"
  using make_dirs_beside [of q "[]" p] by (simp add: create_dir_all_def)

lemma execute_migration_only_moved:
  "disk_ok x \<Longrightarrow> execute_migration moves x = (x', r) \<Longrightarrow> only_moved x x'"
proof (induction moves arbitrary: x)
  case (Cons m moves)
  obtain a b where m: "m = (a, b)" by (cases m)
  show ?case
  proof (cases "entry_exists x b")
    case True
    then show ?thesis using Cons.prems by (simp add: m sbind_def only_moved_refl)
  next
    case False
    obtain x1 r1 where mk: "(if b = [] then sret () else create_dir_all (butlast b)) x = (x1, r1)" by fastforce
    have m1: "only_moved x x1"
      using mk Cons.prems(1) create_dir_all_only_moved by (auto simp: only_moved_refl split: if_splits)
    obtain x2 r2 where rn: "rename a b x1 = (x2, r2)" by fastforce
    have "b \<noteq> []" using False Cons.prems(1) by (auto simp: disk_ok_def is_dir_def entry_exists_def)
    then have "node_at x1 b = None" using create_dir_all_beside [of b "butlast b" x x1 r1] mk False by (simp add: entry_exists_def)
    then have m2: "only_moved x x2" using rename_only_moved [OF only_moved_ok [OF m1] rn] m1 only_moved_trans by blast
    show ?thesis
    proof (cases r1)
      case (Inl e)
      then show ?thesis using Cons.prems(2) mk m1 False by (simp add: m sbind_def)
    next
      case (Inr u)
      note r1 = Inr
      show ?thesis
      proof (cases r2)
        case (Inl e)
        then show ?thesis using Cons.prems(2) mk rn r1 m2 False by (simp add: m sbind_def)
      next
        case (Inr u)
        then have "execute_migration moves x2 = (x', r)" using Cons.prems(2) mk rn r1 False by (simp add: m sbind_def)
        then show ?thesis using Cons.IH [OF only_moved_ok [OF m2]] m2 only_moved_trans by blast
      qed
    qed
  qed
qed (simp add: only_moved_refl)

text \<open>A rename there and back.\<close>

lemma rename_back:
  assumes ok: "disk_ok x" and run: "rename p q x = (x1, Inr ())" and free: "node_at x q = None" and root: "p \<noteq> []"
  shows "\<exists>x2. rename q p x1 = (x2, Inr ()) \<and> (\<forall>r. node_at x2 r = node_at x r)"
proof -
  note at1 = rename_moves [OF ok run free]
  have ok1: "disk_ok x1" by (rule rename_disk_ok [OF ok run free])
  note g = rename_free(4) [OF run free] free rename_free(2) [OF run free] arg_cong [OF rename_free(1) [OF run free], of bad, simplified]
    rename_free(5,6) [OF run free]
  have qp: "\<not> within q p" using disk_ok_below [OF ok g(2), of p] g(1) by auto
  have p1: "node_at x1 p = None" and q1: "node_at x1 q = node_at x p" using qp by (simp_all add: at1)
  have "is_dir x (butlast p)" using disk_ok_parent [OF ok _ root] g(1) by auto
  moreover have "\<not> within q (butlast p)" "\<not> within p (butlast p)"
    using qp root within_butlast by auto
  ultimately have "is_dir x1 (butlast p)" by (simp add: is_dir_def at1)
  then obtain x2 where undo: "rename q p x1 = (x2, Inr ())"
    using g p1 q1 qp rename_into_free [of x1 p q] by simp
  have "node_at x2 r = node_at x r" for r
    using disk_ok_below [OF ok g(2), of r] g(3) qp
    by (auto simp: rename_moves [OF ok1 undo p1] at1 within_append append_eq_append_conv2)
  then show ?thesis using undo by blast
qed

text \<open>Creating the archive of an existing root adds no other entry.\<close>

lemma make_dirs_existing:
  "(\<forall>k \<le> length cs. is_dir x (base @ take k cs)) \<Longrightarrow> make_dirs base (cs @ [c]) x = make_dirs (base @ cs) [c] x"
proof (induction cs arbitrary: base)
  case (Cons d cs)
  have "is_dir x (base @ [d])" using Cons.prems by (auto dest: spec [of _ 1])
  moreover have "\<forall>k \<le> length cs. is_dir x ((base @ [d]) @ take k cs)"
    using Cons.prems by (auto dest: spec [of _ "Suc _"])
  ultimately show ?case using Cons.IH [of "base @ [d]"] by (simp add: Let_def)
qed simp

lemma disk_ok_above: "disk_ok x \<Longrightarrow> is_dir x (p @ s) \<Longrightarrow> is_dir x p"
proof (induction s rule: rev_induct)
  case (snoc c s)
  then show ?case using disk_ok_parent [OF snoc.prems(1), of "p @ s @ [c]" Dir] by (simp add: is_dir_def butlast_append)
qed simp

lemma archive_dir_only:
  assumes ok: "disk_ok x" and p: "is_dir x (profile_path root name)" and mk: "create_dir_all (root @ [c]) x = (x0, Inr ())"
  shows "r \<noteq> root @ [c] \<Longrightarrow> node_at x0 r = node_at x r"
proof -
  have "is_dir x root" using disk_ok_above [OF ok, of root] p by (simp add: profile_path_def)
  then have "is_dir x (take k root)" for k using disk_ok_above [OF ok, of "take k root" "drop k root"] by simp
  then have "create_dir_all (root @ [c]) x = make_dirs root [c] x"
    using make_dirs_existing [of root x "[]"] by (simp add: create_dir_all_def)
  then show "r \<noteq> root @ [c] \<Longrightarrow> node_at x0 r = node_at x r" using mk by (auto simp: Let_def split: if_splits)
qed

section \<open>Properties\<close>

text \<open>C22: Migrating, archiving and unarchiving only ever move. Whether they succeed or stop in the
  middle, every file and directory that was there is still there with its content, no two at one
  path: nothing is overwritten or deleted, although a rename replaces what it finds at its target.\<close>

theorem profiles_only_move:
  assumes "disk_ok x"
    and "x' \<in> {fst (execute_migration moves x), fst (archive_profile root name x), fst (unarchive_profile root name x)}"
  shows "only_moved x x'"
proof -
  have ex: "only_moved x (fst (execute_migration moves x))"
    using execute_migration_only_moved [OF assms(1)] by (metis prod.collapse)
  have rn: "only_moved x (fst (rename p q y))" if "only_moved x y" "node_at y q = None" for p q y
    using rename_only_moved [OF only_moved_ok [OF that(1)] _ that(2)] that only_moved_trans by (metis prod.collapse)
  have "only_moved x (fst (archive_profile root name x))"
  proof -
    let ?a = "root @ [ARCHIVE_DIR]" and ?p = "profile_path root name"
    obtain y r where mk: "create_dir_all ?a x = (y, r)" by fastforce
    have m: "only_moved x y" by (rule create_dir_all_only_moved [OF assms(1) mk])
    have "\<not> within (profile_path ?a name) ?a" by (auto simp: profile_path_def within_append)
    then have "only_moved x (fst (rename ?p (profile_path ?a name) y))" if "\<not> entry_exists x (profile_path ?a name)"
      using that rn [OF m] create_dir_all_beside [OF _ mk] by (simp add: entry_exists_def)
    then show ?thesis
      using m mk only_moved_refl [OF assms(1)]
      by (auto simp: archive_profile_def Let_def sbind_def split: prod.splits sum.splits)
  qed
  moreover have "only_moved x (fst (unarchive_profile root name x))"
    using rn [OF only_moved_refl [OF assms(1)]] only_moved_refl [OF assms(1)]
    by (auto simp: unarchive_profile_def Let_def sbind_def entry_exists_def split: prod.splits sum.splits) (metis fst_conv)+
  ultimately show ?thesis using assms(2) ex by blast
qed

text \<open>Archiving is undone by unarchiving: while archived, the whole profile is under
  \<^verbatim>\<open>archive/\<close> and gone from the root; unarchiving then succeeds and every path holds what it held
  before (but for the archive directory itself).\<close>

theorem archive_then_unarchive:
  assumes "disk_ok x" and "archive_profile root name x = (x1, Inr to)"
  shows "(\<forall>s. node_at x1 (to @ s) = node_at x (profile_path root name @ s) \<and> node_at x1 (profile_path root name @ s) = None)
     \<and> (\<exists>x2. unarchive_profile root name x1 = (x2, Inr (profile_path root name))
          \<and> (\<forall>r. r = root @ [ARCHIVE_DIR] \<or> node_at x2 r = node_at x r))"
proof -
  let ?p = "profile_path root name"
  let ?a = "root @ [ARCHIVE_DIR]"
  have to: "to = profile_path ?a name" and p: "is_dir x ?p"
    using assms(2) by (auto simp: archive_profile_def Let_def sbind_Inr split: if_splits)
  obtain x0 where mk: "create_dir_all ?a x = (x0, Inr ())" and rn: "rename ?p to x0 = (x1, Inr ())"
    using assms(2) by (auto simp: archive_profile_def Let_def sbind_Inr split: if_splits)
  have m0: "only_moved x x0" by (rule create_dir_all_only_moved [OF assms(1) mk])
  have ok0: "disk_ok x0" by (rule only_moved_ok [OF m0])
  have same: "node_at x0 r = node_at x r" if "r \<noteq> ?a" for r
    using archive_dir_only [OF assms(1) p mk] that by simp
  have "?p \<noteq> ?a" by (simp add: profile_path_def ARCHIVE_DIR_def PROFILE_PREFIX_def)
  then have nw: "\<not> within ?p to" "\<not> within to ?p" "\<not> within ?p ?a"
    by (auto simp: to profile_path_def within_append)
  have keep: "?p @ s \<noteq> ?a" for s using nw(3) unfolding within_append by metis
  have "\<not> entry_exists x to" using assms(2) to by (auto simp: archive_profile_def Let_def sbind_Inr split: if_splits)
  moreover have "to \<noteq> ?a" by (simp add: to profile_path_def)
  ultimately have free: "node_at x0 to = None" using same by (simp add: entry_exists_def)
  note at = rename_moves [OF ok0 rn free]
  have first: "node_at x1 (to @ s) = node_at x (?p @ s) \<and> node_at x1 (?p @ s) = None" for s
    using same [of "?p @ s"] keep [of s] nw by (auto simp: at within_append append_eq_append_conv2)
  obtain x2 where x2: "rename to ?p x1 = (x2, Inr ())" "\<forall>r. node_at x2 r = node_at x0 r"
    using rename_back [OF ok0 rn free] by (auto simp: profile_path_def)
  have "is_dir x1 to" "\<not> entry_exists x1 ?p"
    using first [of "[]"] p by (simp_all add: is_dir_def entry_exists_def)
  then have "unarchive_profile root name x1 = (x2, Inr ?p)"
    using x2(1) to by (simp add: unarchive_profile_def Let_def sbind_def)
  then show ?thesis using first x2(2) same by auto
qed

section \<open>A root with one profile\<close>

definition demo_root :: disk where
  "demo_root = \<lparr>entries = [([], Dir), ([''r''], Dir), (profile_path [''r''] ''a'', Dir), (profile_path [''r''] ''a'' @ [''keys.json''], Document [1, 2])], bad = (\<lambda>p. False)\<rparr>"

lemma demo_root_ok: "disk_ok demo_root"
  by (auto simp: disk_ok_def demo_root_def is_dir_def node_at_def profile_path_def split: if_splits)

lemma demo_archive: "snd (archive_profile [''r''] ''a'' demo_root) = Inr [''r'', ''archive'', ''.zkmsg-a'']"
  by (simp add: archive_profile_def Let_def sbind_def demo_root_def is_dir_def node_at_def entry_exists_def profile_path_def PROFILE_PREFIX_def
      ARCHIVE_DIR_def create_dir_all_def put_entry_def rename_def replaceable_def within_def)

theorem profiles_only_move_witness:
  "only_moved demo_root (fst (execute_migration [([''r'', ''.zkmsg-a''], [''r'', ''.zkmsg-b''])] demo_root))
   \<and> snd (execute_migration [([''r'', ''.zkmsg-a''], [''r'', ''.zkmsg-b''])] demo_root) = Inr ()"
proof -
  have "snd (execute_migration [([''r'', ''.zkmsg-a''], [''r'', ''.zkmsg-b''])] demo_root) = Inr ()"
    by (simp add: sbind_def demo_root_def is_dir_def node_at_def entry_exists_def profile_path_def PROFILE_PREFIX_def create_dir_all_def rename_def replaceable_def within_def)
  then show ?thesis using profiles_only_move [OF demo_root_ok] by blast
qed

theorem archive_then_unarchive_witness:
  "let x1 = fst (archive_profile [''r''] ''a'' demo_root)
   in node_at x1 [''r'', ''archive'', ''.zkmsg-a'', ''keys.json''] = Some (Document [1, 2]) \<and> snd (unarchive_profile [''r''] ''a'' x1) = Inr (profile_path [''r''] ''a'')"
proof -
  obtain x1 where x1: "archive_profile [''r''] ''a'' demo_root = (x1, Inr [''r'', ''archive'', ''.zkmsg-a''])"
    using demo_archive by (metis prod.collapse)
  have "node_at demo_root (profile_path [''r''] ''a'' @ [''keys.json'']) = Some (Document [1, 2])"
    by (simp add: node_at_def demo_root_def profile_path_def)
  then have "node_at x1 ([''r'', ''archive'', ''.zkmsg-a''] @ [''keys.json'']) = Some (Document [1, 2])"
    and "snd (unarchive_profile [''r''] ''a'' x1) = Inr (profile_path [''r''] ''a'')"
    using archive_then_unarchive [OF demo_root_ok x1] by auto
  then show ?thesis using x1 by simp
qed

end
