(* ===== verification/Wipe.thy ===== *)
theory Wipe
  imports Profiles
begin

text \<open>
  \<^verbatim>\<open>core/src/wipe.rs\<close>, with \<^verbatim>\<open>set_pin\<close> and \<^verbatim>\<open>wrap_profile_keys\<close> of \<^verbatim>\<open>applock.rs\<close>, \<^verbatim>\<open>account_address\<close> of
  \<^verbatim>\<open>chain.rs\<close> and \<^verbatim>\<open>pending_sends\<close> of \<^verbatim>\<open>app.rs\<close>: deleting one profile, moving its tickets, and the
  panic wipe. \<open>places\<close> are the directories the process finds in its environment. An error in a
  report is the part of its text that says what failed. \<open>nz\<close> and \<open>dr\<close> are the random draws.
\<close>

section \<open>The accounts file\<close>

record places =
  pl_home :: "path option"
  pl_tmp :: path

definition accounts_in_home :: "places \<Rightarrow> path res" where
  "accounts_in_home P =
     rbind (of_opt (File Missing) (pl_home P)) (\<lambda>h.
     Inr (h @ [''.starknet_accounts'', ''starknet_open_zeppelin_accounts.json'']))"

definition sncast_accounts_path :: "'k env \<Rightarrow> places \<Rightarrow> path res" where
  "sncast_accounts_path E P =
     (case e_ns E of
        Some ns \<Rightarrow> if ns \<noteq> [] then Inr (pl_tmp P @ [ns @ ''.sncast-accounts.json'']) else accounts_in_home P
      | None \<Rightarrow> accounts_in_home P)"

definition read_json :: "'k env \<Rightarrow> path \<Rightarrow> disk \<Rightarrow> json res" where
  "read_json E p x = rbind (read_bytes x p) (\<lambda>b. of_opt (Decode BadShape) (sd_json_parse (e_serde E) b))"

definition account_address :: "'k env \<Rightarrow> places \<Rightarrow> string \<Rightarrow> disk \<Rightarrow> string res" where
  "account_address E P acc x =
     rbind (accounts_in_home P) (\<lambda>p.
     rbind (read_json E p x) (\<lambda>raw.
     of_opt (File Missing) (as_str (jget (jget (jget raw ''alpha-sepolia'') acc) ''address''))))"

text \<open>\<^verbatim>\<open>Map::remove\<close> under a key of an object; \<open>None\<close> when there was nothing to remove.\<close>

definition remove_account :: "string \<Rightarrow> json \<Rightarrow> json option" where
  "remove_account acc raw =
     (case jget raw ''alpha-sepolia'' of
        JObj accounts \<Rightarrow>
          if map_of accounts acc = None then None
          else Some (jset ''alpha-sepolia'' (JObj (AList.delete acc accounts)) raw)
      | _ \<Rightarrow> None)"

definition remove_sncast_account :: "'k env \<Rightarrow> path \<Rightarrow> string \<Rightarrow> (disk, bool) st" where
  "remove_sncast_account E p acc =
     sbind sget (\<lambda>x.
     if \<not> file_exists x p then sret False
     else sbind (slift (read_json E p x)) (\<lambda>raw.
          case remove_account acc raw of
            None \<Rightarrow> sret False
          | Some rest \<Rightarrow> sbind (write_bytes p (sd_json_print (e_serde E) rest)) (\<lambda>_. sret True)))"

section \<open>Profiles of a root\<close>

definition bad_name :: "string \<Rightarrow> bool" where
  "bad_name name = (name = [] \<or> CHR ''/'' \<in> set name \<or> CHR 0x5C \<in> set name \<or> name = ''.'' \<or> name = ''..'')"

definition profile_dir :: "path \<Rightarrow> string \<Rightarrow> bool \<Rightarrow> disk \<Rightarrow> path res" where
  "profile_dir root name archived x =
     ensure (\<not> bad_name name) (File BadTarget) (
     let dir = profile_path (if archived then root @ [ARCHIVE_DIR] else root) name
     in ensure (is_dir x dir) (File Missing) (Inr dir))"

definition list_dir :: "disk \<Rightarrow> path \<Rightarrow> path list" where
  "list_dir x p = (case read_dir x p of Inl e \<Rightarrow> [] | Inr ps \<Rightarrow> ps)"

definition all_profile_dirs :: "path \<Rightarrow> disk \<Rightarrow> path list" where
  "all_profile_dirs root x =
     sort (filter (\<lambda>dir. profile_name dir \<noteq> None \<and> is_dir x dir) (list_dir x root @ list_dir x (root @ [ARCHIVE_DIR])))"

definition dir_name :: "path \<Rightarrow> string" where
  "dir_name dir =
     (let f = (if dir = [] then [] else last dir)
      in case strip_prefix PROFILE_PREFIX f of Some n \<Rightarrow> n | None \<Rightarrow> f)"

definition key_id_of :: "'k env \<Rightarrow> disk \<Rightarrow> path \<Rightarrow> string option" where
  "key_id_of E x dir = (case profile_key_id E dir x of Inr (Some i) \<Rightarrow> Some i | _ \<Rightarrow> None)"

definition key_sharers :: "'k env \<Rightarrow> path \<Rightarrow> path \<Rightarrow> disk \<Rightarrow> path list" where
  "key_sharers E root dir x =
     (case key_id_of E x dir of
        None \<Rightarrow> []
      | Some i \<Rightarrow> filter (\<lambda>d. d \<noteq> dir \<and> key_id_of E x d = Some i) (all_profile_dirs root x))"

definition profile_account :: "'k env \<Rightarrow> disk \<Rightarrow> path \<Rightarrow> string option" where
  "profile_account E x dir =
     (let a = (case load_config E dir x of
                 Inr c \<Rightarrow> Some (account c)
               | Inl e \<Rightarrow> (case read_bytes x (dir @ [''setup.json'']) of Inr b \<Rightarrow> sd_setup_account (e_serde E) b | Inl e \<Rightarrow> None))
      in case a of Some n \<Rightarrow> if n \<noteq> [] then Some n else None | None \<Rightarrow> None)"

definition account_sharers :: "'k env \<Rightarrow> path \<Rightarrow> path \<Rightarrow> string \<Rightarrow> disk \<Rightarrow> path list" where
  "account_sharers E root dir a x = filter (\<lambda>d. d \<noteq> dir \<and> profile_account E x d = Some a) (all_profile_dirs root x)"

section \<open>Tickets\<close>

definition load_home_wallet :: "'k env \<Rightarrow> (path \<Rightarrow> bytes) \<Rightarrow> path \<Rightarrow> string \<Rightarrow> ('k device, wallet) st" where
  "load_home_wallet E nz home st =
     sbind sget (\<lambda>d.
     if \<not> file_exists (dv_disk d) (tickets_path home) then sret \<lparr>wallet_store = st, tickets = []\<rparr>
     else sbind (vault_read E (nz home) home (tickets_path home)) (\<lambda>b.
          sbind (slift (of_opt (Decode BadShape) (sd_wallet_parse (e_serde E) b))) (\<lambda>w.
          slift (ensure (same_address (e_crates E) (wallet_store w) st) (Tickets WrongStore) (Inr w)))))"

definition save_home_wallet :: "'k env \<Rightarrow> (path \<Rightarrow> 'k draws \<times> bytes) \<Rightarrow> path \<Rightarrow> wallet \<Rightarrow> ('k device, unit) st" where
  "save_home_wallet E dr home w =
     vault_write E (fst (dr home)) (snd (dr home)) home (tickets_path home) (sd_wallet_print (e_serde E) w)"

definition load_home_send :: "'k env \<Rightarrow> (path \<Rightarrow> bytes) \<Rightarrow> path \<Rightarrow> string \<Rightarrow> ('k device, send_state) st" where
  "load_home_send E nz home i =
     (let p = sends_dir home @ [i @ ''.json'']
      in sbind sget (\<lambda>d.
         if \<not> file_exists (dv_disk d) p then slift (Inl (File Missing))
         else sbind (vault_read E (nz home) home p) (\<lambda>b.
              slift (of_opt (Decode BadShape) (sd_send (e_serde E) b)))))"

definition publish_submitted :: "send_state \<Rightarrow> bool" where
  "publish_submitted s = list_ex (\<lambda>st. step_kind st = Publish \<and> step_tx_hash st \<noteq> None) (steps s)"

text \<open>The movable tickets' indices and how many are in flight, from index \<open>i\<close> on.\<close>

fun classify_from :: "'k env \<Rightarrow> (path \<Rightarrow> bytes) \<Rightarrow> path \<Rightarrow> nat \<Rightarrow> ticket list \<Rightarrow> ('k device, nat list \<times> nat) st" where
  "classify_from E nz home i [] = sret ([], 0)"
| "classify_from E nz home i (t # ts) =
     (case state t of
        Spent tx \<Rightarrow> classify_from E nz home (i + 1) ts
      | Reserved sid \<Rightarrow>
          sbind (sok (load_home_send E nz home sid)) (\<lambda>s.
          sbind (classify_from E nz home (i + 1) ts) (\<lambda>(movable, in_flight).
          sret (if (case s of Some s \<Rightarrow> publish_submitted s | None \<Rightarrow> False) then (movable, in_flight + 1) else (i # movable, in_flight))))
      | _ \<Rightarrow>
          sbind (classify_from E nz home (i + 1) ts) (\<lambda>(movable, in_flight).
          sret (i # movable, in_flight)))"

definition classify_tickets :: "'k env \<Rightarrow> (path \<Rightarrow> bytes) \<Rightarrow> path \<Rightarrow> wallet \<Rightarrow> ('k device, nat list \<times> nat) st" where
  "classify_tickets E nz home w = classify_from E nz home 0 (tickets w)"

record ticket_move =
  tm_moved :: nat
  tm_already_there :: nat
  tm_left_in_flight :: nat

definition holds_secret :: "crates \<Rightarrow> felt \<Rightarrow> ticket list \<Rightarrow> bool" where
  "holds_secret C f ts = list_ex (\<lambda>t. felt_of_hex C (secret t) = Some f) ts"

definition moved_ticket :: "ticket \<Rightarrow> ticket" where
  "moved_ticket t = (case state t of Reserved sid \<Rightarrow> t\<lparr>state := Unspent\<rparr> | _ \<Rightarrow> t)"

fun move_each :: "crates \<Rightarrow> ticket list \<Rightarrow> nat list \<Rightarrow> ticket list \<times> ticket_move \<Rightarrow> (ticket list \<times> ticket_move) res" where
  "move_each C source [] (target, report) = Inr (target, report)"
| "move_each C source (i # is) (target, report) =
     ensure (i < length source) Panic (
     rbind (of_opt (Decode BadHex) (felt_of_hex C (secret (source ! i)))) (\<lambda>f.
     if holds_secret C f target then move_each C source is (target, report\<lparr>tm_already_there := tm_already_there report + 1\<rparr>)
     else move_each C source is (target @ [moved_ticket (source ! i)], report\<lparr>tm_moved := tm_moved report + 1\<rparr>)))"

definition move_tickets :: "'k env \<Rightarrow> (path \<Rightarrow> bytes) \<Rightarrow> (path \<Rightarrow> 'k draws \<times> bytes) \<Rightarrow> path \<Rightarrow> path \<Rightarrow> ('k device, ticket_move) st" where
  "move_tickets E nz dr src dst =
     sbind sget (\<lambda>d.
     sbind (slift (load_config E src (dv_disk d))) (\<lambda>cs.
     sbind (slift (load_config E dst (dv_disk d))) (\<lambda>ct.
     sbind (slift (ensure (same_address (e_crates E) (store cs) (store ct)) (Tickets WrongStore) (
                   ensure (src \<noteq> dst) (File BadTarget) (Inr ())))) (\<lambda>_.
     sbind (load_home_wallet E nz src (store cs)) (\<lambda>source.
     sbind (classify_tickets E nz src source) (\<lambda>(movable, in_flight).
     sbind (load_home_wallet E nz dst (store ct)) (\<lambda>target.
     sbind (slift (move_each (e_crates E) (tickets source) movable (tickets target, \<lparr>tm_moved = 0, tm_already_there = 0, tm_left_in_flight = in_flight\<rparr>))) (\<lambda>(ts, report).
     sbind (if 0 < tm_moved report then save_home_wallet E dr dst (target\<lparr>tickets := ts\<rparr>) else sret ()) (\<lambda>_.
     sret report)))))))))"

section \<open>The plan\<close>

fun pending_each :: "'k env \<Rightarrow> (path \<Rightarrow> bytes) \<Rightarrow> path \<Rightarrow> path list \<Rightarrow> ('k device, (string \<times> step_kind) list) st" where
  "pending_each E nz home [] = sret []"
| "pending_each E nz home (p # ps) =
     (if \<not> has_extension ''json'' (last p) then pending_each E nz home ps
      else let i = take (length (last p) - 5) (last p)
           in sbind (sok (load_home_send E nz home i)) (\<lambda>s.
              sbind (pending_each E nz home ps) (\<lambda>rest.
              sret ((case s of
                       Some s \<Rightarrow> (case next_pending s of Some k \<Rightarrow> [(i, step_kind (steps s ! k))] | None \<Rightarrow> [])
                     | None \<Rightarrow> []) @ rest))))"

definition pending_sends :: "'k env \<Rightarrow> (path \<Rightarrow> bytes) \<Rightarrow> path \<Rightarrow> ('k device, (string \<times> step_kind) list) st" where
  "pending_sends E nz home =
     sbind sget (\<lambda>d.
     if \<not> file_exists (dv_disk d) (sends_dir home) then sret []
     else sbind (slift (read_dir (dv_disk d) (sends_dir home))) (pending_each E nz home))"

record delete_plan =
  dp_name :: string
  dp_dir :: path
  dp_archived :: bool
  dp_handle :: "string option"
  dp_burner :: bool
  dp_account :: "string option"
  dp_account_address :: "string option"
  dp_account_shared_with :: "string list"
  dp_store :: "string option"
  dp_movable_tickets :: nat
  dp_tickets_in_flight :: nat
  dp_key_shared_with :: "string list"
  dp_ticket_targets :: "string list"
  dp_incomplete_sends :: nat

definition confirm_text :: "delete_plan \<Rightarrow> string" where
  "confirm_text plan = (case dp_handle plan of Some h \<Rightarrow> h | None \<Rightarrow> dp_name plan)"

definition removes_account_key :: "delete_plan \<Rightarrow> bool \<Rightarrow> bool" where
  "removes_account_key plan delete_account_key =
     (delete_account_key \<and> dp_account_address plan \<noteq> None \<and> dp_account_shared_with plan = [])"

text \<open>What the plan says of the tickets, when there is a configuration.\<close>

definition plan_tickets :: "'k env \<Rightarrow> (path \<Rightarrow> bytes) \<Rightarrow> path \<Rightarrow> path \<Rightarrow> string option \<Rightarrow> ('k device, nat \<times> nat \<times> string list) st" where
  "plan_tickets E nz root dir st =
     (case st of
        None \<Rightarrow> sret (0, 0, [])
      | Some st \<Rightarrow>
          sbind (sok (load_home_wallet E nz dir st)) (\<lambda>w.
          sbind (case w of Some w \<Rightarrow> classify_tickets E nz dir w | None \<Rightarrow> sret ([], 0)) (\<lambda>(movable, in_flight).
          sbind (list_profiles E nz root) (\<lambda>ps.
          sbind sget (\<lambda>d.
          sret (length movable, in_flight,
                map pe_name (filter (\<lambda>p. pe_dir p \<noteq> dir \<and> \<not> pe_setup_incomplete p \<and>
                  (case load_config E (pe_dir p) (dv_disk d) of Inr c \<Rightarrow> same_address (e_crates E) (store c) st | Inl e \<Rightarrow> False)) ps)))))))"

definition plan_delete :: "'k env \<Rightarrow> places \<Rightarrow> (path \<Rightarrow> bytes) \<Rightarrow> path \<Rightarrow> string \<Rightarrow> bool \<Rightarrow> ('k device, delete_plan) st" where
  "plan_delete E P nz root name archived =
     sbind sget (\<lambda>d. let x = dv_disk d in
     sbind (slift (profile_dir root name archived x)) (\<lambda>dir. let cfg = load_config E dir x; acct = profile_account E x dir in
     sbind (sok (load_home_keys E nz dir)) (\<lambda>keys.
     sbind (plan_tickets E nz root dir (case cfg of Inr c \<Rightarrow> Some (store c) | Inl e \<Rightarrow> None)) (\<lambda>(movable, in_flight, targets).
     sbind (sok (pending_sends E nz dir)) (\<lambda>pending.
     sret \<lparr>dp_name = name, dp_dir = dir, dp_archived = archived,
           dp_handle = (case keys of Some k \<Rightarrow> keys_handle k | None \<Rightarrow> None),
           dp_burner = (case cfg of Inr c \<Rightarrow> burner c | Inl e \<Rightarrow> False),
           dp_account = acct,
           dp_account_address = (case acct of Some a \<Rightarrow> ok_opt (account_address E P a x) | None \<Rightarrow> None),
           dp_account_shared_with = (case acct of Some a \<Rightarrow> map dir_name (account_sharers E root dir a x) | None \<Rightarrow> []),
           dp_store = (case cfg of Inr c \<Rightarrow> Some (store c) | Inl e \<Rightarrow> None),
           dp_movable_tickets = movable, dp_tickets_in_flight = in_flight,
           dp_key_shared_with = map dir_name (key_sharers E root dir x),
           dp_ticket_targets = targets,
           dp_incomplete_sends = (case pending of Some l \<Rightarrow> length l | None \<Rightarrow> 0)\<rparr>)))))"

section \<open>Deleting one profile\<close>

record wipe_report =
  wr_shredded :: bool
  wr_account_key_removed :: "string option"
  wr_new_current :: "string option option"

text \<open>The account key goes unless another profile uses it.\<close>

definition drop_account :: "'k env \<Rightarrow> places \<Rightarrow> path \<Rightarrow> path \<Rightarrow> (disk, string option) st" where
  "drop_account E P root dir =
     sbind sget (\<lambda>x.
     case profile_account E x dir of
       None \<Rightarrow> sret None
     | Some a \<Rightarrow>
         if account_sharers E root dir a x \<noteq> [] then sret None
         else sbind (slift (sncast_accounts_path E P)) (\<lambda>p.
              sbind (remove_sncast_account E p a) (\<lambda>there.
              sret (if there then Some a else None))))"

definition fix_current :: "'k env \<Rightarrow> (path \<Rightarrow> bytes) \<Rightarrow> path \<Rightarrow> path \<Rightarrow> ('k device, string option option) st" where
  "fix_current E nz root dir =
     sbind sget (\<lambda>d.
     if dir = [] \<or> butlast dir \<noteq> root \<or> read_current root (dv_disk d) \<noteq> Some (dir_name dir) then sret None
     else sbind (list_profiles E nz root) (\<lambda>ps.
            let next = map_option pe_name (List.find (\<lambda>p. \<not> pe_setup_incomplete p) ps)
            in sbind (case next of
                        Some n \<Rightarrow> on_disk (write_current root n)
                      | None \<Rightarrow> sbind (sok (on_disk (remove_file (root @ [''current''])))) (\<lambda>_. sret ())) (\<lambda>_.
               sret (Some next))))"

definition wipe_profile :: "'k env \<Rightarrow> places \<Rightarrow> (path \<Rightarrow> bytes) \<Rightarrow> path \<Rightarrow> path \<Rightarrow> bool \<Rightarrow> ('k device, wipe_report) st" where
  "wipe_profile E P nz root dir delete_account_key =
     sbind sget (\<lambda>d.
     sbind (if key_sharers E root dir (dv_disk d) = [] then shred E dir else sret False) (\<lambda>shredded.
     sbind (if delete_account_key then on_disk (drop_account E P root dir) else sret None) (\<lambda>removed.
     sbind (on_disk (remove_dir_all dir)) (\<lambda>_.
     sbind (fix_current E nz root dir) (\<lambda>cur.
     sret \<lparr>wr_shredded = shredded, wr_account_key_removed = removed, wr_new_current = cur\<rparr>)))))"

definition delete_profile :: "'k env \<Rightarrow> places \<Rightarrow> (path \<Rightarrow> bytes) \<Rightarrow> (path \<Rightarrow> 'k draws \<times> bytes) \<Rightarrow> path \<Rightarrow> delete_plan \<Rightarrow> string \<Rightarrow> string option \<Rightarrow> bool
    \<Rightarrow> ('k device, ticket_move option \<times> wipe_report) st" where
  "delete_profile E P nz dr root plan typed target delete_account_key =
     sbind (slift (ensure (typed = confirm_text plan) (File NotMatching) (Inr ()))) (\<lambda>_.
     sbind (case target of
              None \<Rightarrow> sret None
            | Some t \<Rightarrow>
                if dp_movable_tickets plan = 0 then sret None
                else sbind (slift (ensure (t \<in> set (dp_ticket_targets plan)) (File BadTarget) (Inr ()))) (\<lambda>_.
                     sbind sget (\<lambda>d.
                     sbind (slift (profile_dir root t False (dv_disk d))) (\<lambda>dst.
                     sbind (move_tickets E nz dr (dp_dir plan) dst) (\<lambda>m. sret (Some m)))))) (\<lambda>moved.
     sbind (wipe_profile E P nz root (dp_dir plan) delete_account_key) (\<lambda>report.
     sret (moved, report))))"

section \<open>The panic wipe\<close>

record panic_report =
  pr_profiles :: nat
  pr_keys_shredded :: nat
  pr_account_keys_removed :: "string list"
  pr_errors :: "string list"

definition TOR_DIR :: string where "TOR_DIR = ''tor''"
definition SETTINGS_FILE :: string where "SETTINGS_FILE = ''network.json''"
definition DS_STORE :: string where "DS_STORE = ''.DS_Store''"
definition LEGACY_FILES :: "string list" where
  "LEGACY_FILES = [''config.json'', ''keys.json'', ''sends'', ''inbox.json'', ''proofs'', ''vault.json'', ''tickets.json'',
     ''quota.json'', ''setup.json'', ''daemon-token'', ''sync-cache.json'', ''registrations.json'', ''inbox-cache.json'']"

definition owned_entries :: "path \<Rightarrow> disk \<Rightarrow> path list" where
  "owned_entries root x =
     all_profile_dirs root x
     @ (if is_file x (root @ [''current'']) then [root @ [''current'']] else [])
     @ filter (entry_exists x) (map (\<lambda>n. root @ [n]) [TOR_DIR, SETTINGS_FILE])
     @ (if is_file x (config_path root)
        then filter (entry_exists x) (map (\<lambda>n. root @ [n]) LEGACY_FILES)
             @ filter (\<lambda>p. starts_with ''tickets-'' (last p) \<and> ends_with ''.json'' (last p)) (list_dir x root)
        else [])"

text \<open>What went wrong, step by step; a failed step does not stop the next.\<close>

fun remove_accounts :: "'k env \<Rightarrow> path \<Rightarrow> string list \<Rightarrow> disk \<Rightarrow> disk \<times> string list \<times> string list" where
  "remove_accounts E p [] x = (x, [], [])"
| "remove_accounts E p (a # as) x =
     (case remove_sncast_account E p a x of
        (x', r) \<Rightarrow> (case remove_accounts E p as x' of
          (x'', removed, errors) \<Rightarrow>
            (x'', case r of Inr True \<Rightarrow> a # removed | _ \<Rightarrow> removed,
                  case r of Inl e \<Rightarrow> (''sncast account '' @ a) # errors | _ \<Rightarrow> errors)))"

fun remove_entries :: "path list \<Rightarrow> disk \<Rightarrow> disk \<times> string list" where
  "remove_entries [] x = (x, [])"
| "remove_entries (p # ps) x =
     (case (if is_dir x p then remove_dir_all p else remove_file p) x of
        (x', r) \<Rightarrow> (case remove_entries ps x' of
          (x'', errors) \<Rightarrow> (x'', case r of Inl e \<Rightarrow> (''removing '' @ join_path p) # errors | _ \<Rightarrow> errors)))"

text \<open>\<^verbatim>\<open>let _ =\<close>: the outcome is dropped. The test of \<^verbatim>\<open>is_empty_but_ds_store\<close> runs after the removal
  and decides nothing.\<close>

definition tidy_root :: "path \<Rightarrow> disk \<Rightarrow> disk" where
  "tidy_root root x =
     (let archive = root @ [ARCHIVE_DIR];
          x1 = (if is_dir x archive then fst (remove_dir archive (fst (remove_file (archive @ [DS_STORE]) x))) else x);
          x2 = fst (remove_file (root @ [DS_STORE]) x1)
      in fst (remove_dir root x2))"

definition wipe_keys :: "'k env \<Rightarrow> 'k device \<Rightarrow> 'k device \<times> nat \<times> string list" where
  "wipe_keys E d =
     (case shred_all E d of
        (d1, r1) \<Rightarrow> (case destroy E d1 of
          (d2, r2) \<Rightarrow> (d2, case r1 of Inr n \<Rightarrow> n | Inl e \<Rightarrow> 0,
             (case r1 of Inl e \<Rightarrow> [''profile keys''] | Inr n \<Rightarrow> []) @ (case r2 of Inl e \<Rightarrow> [''app lock''] | Inr _ \<Rightarrow> []))))"

definition wipe_files :: "'k env \<Rightarrow> places \<Rightarrow> path \<Rightarrow> string list \<Rightarrow> disk \<Rightarrow> disk \<times> string list \<times> string list" where
  "wipe_files E P root accounts x =
     (let (x1, removed, e1) = (case sncast_accounts_path E P of
             Inl e \<Rightarrow> (x, [], [''sncast accounts file''])
           | Inr p \<Rightarrow> remove_accounts E p accounts x);
          (x2, e2) = remove_entries (owned_entries root x1) x1
      in (tidy_root root x2, removed, e1 @ e2))"

definition panic_wipe :: "'k env \<Rightarrow> places \<Rightarrow> path \<Rightarrow> ('k device, panic_report) st" where
  "panic_wipe E P root d =
     (let dirs = all_profile_dirs root (dv_disk d);
          accounts = remdups_adj (sort (List.map_filter (profile_account E (dv_disk d)) dirs));
          (d1, n, e1) = wipe_keys E d;
          (x, removed, e2) = wipe_files E P root accounts (dv_disk d1)
      in (d1\<lparr>dv_disk := x\<rparr>,
          Inr \<lparr>pr_profiles = length dirs, pr_keys_shredded = n, pr_account_keys_removed = removed, pr_errors = e1 @ e2\<rparr>))"

definition panic_errors :: "'k env \<Rightarrow> places \<Rightarrow> path \<Rightarrow> ('k device, string list) st" where
  "panic_errors E P root = sbind (panic_wipe E P root) (\<lambda>r. sret (pr_errors r))"

datatype panic_attempt = PanicWiped panic_report | PanicWrong nat nat | PanicWait nat

definition panic_wipe_with_pin :: "'k env \<Rightarrow> places \<Rightarrow> path \<Rightarrow> unit res \<Rightarrow> nat \<Rightarrow> nat \<times> nat \<Rightarrow> string \<Rightarrow> ('k device, panic_attempt) st" where
  "panic_wipe_with_pin E P root serial t now pin =
     sbind (lock_state_of E t) (\<lambda>s.
     if s = NotSet then sbind (panic_wipe E P root) (\<lambda>r. sret (PanicWiped r))
     else sbind (unlock E serial now (panic_errors E P root) pin) (\<lambda>outcome.
       case outcome of
         Unlocked \<Rightarrow> sbind (panic_wipe E P root) (\<lambda>r. sret (PanicWiped r))
       | Wiped errors \<Rightarrow> sret (PanicWiped \<lparr>pr_profiles = 0, pr_keys_shredded = 0, pr_account_keys_removed = [], pr_errors = errors\<rparr>)
       | Wrong left secs \<Rightarrow> sret (PanicWrong left secs)
       | Wait secs \<Rightarrow> sret (PanicWait secs)))"

section \<open>Setting the PIN\<close>

fun wrap_each :: "'k env \<Rightarrow> (path \<Rightarrow> bytes \<times> bytes) \<Rightarrow> path list \<Rightarrow> ('k device, nat) st" where
  "wrap_each E dr [] = sret 0"
| "wrap_each E dr (dir # dirs) =
     sbind sget (\<lambda>d.
     sbind (slift (profile_key_id E dir (dv_disk d))) (\<lambda>i.
     sbind (case i of Some i \<Rightarrow> rewrap E (dr dir) i | None \<Rightarrow> sret False) (\<lambda>there.
     sbind (wrap_each E dr dirs) (\<lambda>n. sret (if there then n + 1 else n)))))"

definition wrap_profile_keys :: "'k env \<Rightarrow> (path \<Rightarrow> bytes \<times> bytes) \<Rightarrow> path \<Rightarrow> ('k device, nat) st" where
  "wrap_profile_keys E dr root = sbind sget (\<lambda>d. wrap_each E dr (all_profile_dirs root (dv_disk d)))"

text \<open>\<open>draws\<close>: the master key, the salt and the nonce.\<close>

definition set_pin :: "'k env \<Rightarrow> bytes \<times> bytes \<times> bytes \<Rightarrow> (path \<Rightarrow> bytes \<times> bytes) \<Rightarrow> string \<Rightarrow> path \<Rightarrow> ('k device, nat) st" where
  "set_pin E draws dr pin root =
     (case draws of (mk, salt, nonce) \<Rightarrow>
        sbind (slift (validate_pin pin)) (\<lambda>_.
        sbind (lock_load E) (\<lambda>stored.
        sbind (slift (ensure (stored = None) (Lock PinExists) (wrap_master (e_crates E) salt nonce pin mk))) (\<lambda>b.
        sbind (save_and_read_back E pin mk b) (\<lambda>_.
        sbind (smodify (\<lambda>d. clear_wiped (d\<lparr>dv_master := Some mk\<rparr>))) (\<lambda>_.
        wrap_profile_keys E dr root))))))"

end
