(* ===== verification/Wipe_Safety.thy ===== *)
theory Wipe_Safety
  imports Wipe "HOL-Library.Countable"
begin

text \<open>
  What deleting promises: the panic wipe leaves no key, no lock and nothing of zkmsg's under the
  root, and touches nothing else; deleting one profile leaves every other one as it was; moving
  tickets loses and doubles none.
\<close>

section \<open>Removing entries\<close>

definition shrinks :: "disk \<Rightarrow> disk \<Rightarrow> bool" where
  "shrinks x x' = (\<forall>q. node_at x' q = node_at x q \<or> node_at x' q = None)"

lemma shrinks_refl [simp]: "shrinks x x"
  by (simp add: shrinks_def)

lemma shrinks_trans: "shrinks x y \<Longrightarrow> shrinks y z \<Longrightarrow> shrinks x z"
  unfolding shrinks_def by metis

lemma remove_shrinks:
  "shrinks x (fst (remove_dir_all p x))" "shrinks x (fst (remove_file p x))" "shrinks x (fst (remove_dir p x))"
  by (simp_all add: remove_dir_all_def remove_file_def remove_dir_def shrinks_def)

lemma remove_one_frame:
  "\<not> within p q \<Longrightarrow> node_at (fst ((if is_dir x p then remove_dir_all p else remove_file p) x)) q = node_at x q"
  by (auto simp: remove_dir_all_def remove_file_def)

lemma remove_one_gone:
  assumes "(if is_dir x p then remove_dir_all p else remove_file p) x = (x', Inr ())"
  shows "node_at x p \<noteq> None" "node_at x' p = None" "is_dir x p \<Longrightarrow> within p q \<Longrightarrow> node_at x' q = None"
  using assms by (auto simp: remove_dir_all_def remove_file_def entry_exists_def is_dir_def split: if_splits)

lemma remove_entries_shrinks: "remove_entries ps x = (x', es) \<Longrightarrow> shrinks x x'"
proof (induction ps arbitrary: x es)
  case (Cons p ps)
  obtain x1 r where x1: "(if is_dir x p then remove_dir_all p else remove_file p) x = (x1, r)" by fastforce
  obtain e2 where "remove_entries ps x1 = (x', e2)" using Cons.prems x1 by (auto split: prod.splits)
  moreover have "shrinks x x1" using remove_shrinks [where x = x and p = p] x1 by (auto split: if_splits)
  ultimately show ?case using Cons.IH shrinks_trans by blast
qed simp

lemma remove_entries_frame:
  "remove_entries ps x = (x', es) \<Longrightarrow> \<forall>p \<in> set ps. \<not> within p q \<Longrightarrow> node_at x' q = node_at x q"
proof (induction ps arbitrary: x es)
  case (Cons p ps)
  obtain x1 r where x1: "(if is_dir x p then remove_dir_all p else remove_file p) x = (x1, r)" by fastforce
  obtain e2 where "remove_entries ps x1 = (x', e2)" using Cons.prems x1 by (auto split: prod.splits)
  then show ?case using Cons.IH [of x1 e2] Cons.prems(2) remove_one_frame [of p q x] x1 by simp
qed simp

lemma remove_entries_ok:
  assumes "remove_entries (a # ps) x = (x', [])"
  shows "\<exists>x1. (if is_dir x a then remove_dir_all a else remove_file a) x = (x1, Inr ()) \<and> remove_entries ps x1 = (x', []) \<and> shrinks x x1 \<and> shrinks x1 x'"
proof -
  obtain x1 r where x1: "(if is_dir x a then remove_dir_all a else remove_file a) x = (x1, r)" by fastforce
  then have "r = Inr ()" and rest: "remove_entries ps x1 = (x', [])"
    using assms by (auto split: prod.splits sum.splits)
  then show ?thesis using x1 remove_entries_shrinks [of "[a]" x] remove_entries_shrinks [OF rest] by simp
qed

lemma remove_entries_there: "remove_entries ps x = (x', []) \<Longrightarrow> p \<in> set ps \<Longrightarrow> node_at x p \<noteq> None"
proof (induction ps arbitrary: x)
  case (Cons a ps)
  obtain x1 where x1: "(if is_dir x a then remove_dir_all a else remove_file a) x = (x1, Inr ())" "remove_entries ps x1 = (x', [])" "shrinks x x1"
    using remove_entries_ok [OF Cons.prems(1)] by blast
  show ?case
  proof (cases "p = a")
    case True
    then show ?thesis using remove_one_gone(1) [OF x1(1)] by simp
  next
    case False
    then have "node_at x1 p \<noteq> None" using Cons.IH [OF x1(2)] Cons.prems(2) by simp
    then show ?thesis using x1(3) unfolding shrinks_def by metis
  qed
qed simp

lemma remove_entries_gone:
  "remove_entries ps x = (x', []) \<Longrightarrow> p \<in> set ps \<Longrightarrow> node_at x' p = None \<and> (is_dir x p \<longrightarrow> (\<forall>q. within p q \<longrightarrow> node_at x' q = None))"
proof (induction ps arbitrary: x)
  case (Cons a ps)
  obtain x1 where x1: "(if is_dir x a then remove_dir_all a else remove_file a) x = (x1, Inr ())" and rest: "remove_entries ps x1 = (x', [])"
    and sh: "shrinks x x1" "shrinks x1 x'"
    using remove_entries_ok [OF Cons.prems(1)] by blast
  have stay: "node_at x' q = None" if "node_at x1 q = None" for q
    using sh(2) that unfolding shrinks_def by metis
  show ?case
  proof (cases "p = a")
    case True
    then show ?thesis using remove_one_gone [OF x1] stay by simp
  next
    case False
    then have p: "p \<in> set ps" using Cons.prems(2) by simp
    have "is_dir x p \<Longrightarrow> is_dir x1 p"
      using remove_entries_there [OF rest p] sh(1) [unfolded shrinks_def, THEN spec, of p] by (auto simp: is_dir_def)
    then show ?thesis using Cons.IH [OF rest p] by blast
  qed
qed simp

section \<open>What the accounts file changes\<close>

definition same_shape :: "disk \<Rightarrow> disk \<Rightarrow> bool" where
  "same_shape x x' = (map fst (entries x') = map fst (entries x) \<and> bad x' = bad x
     \<and> (\<forall>q. is_dir x' q = is_dir x q \<and> is_file x' q = is_file x q \<and> entry_exists x' q = entry_exists x q))"

lemma same_shape_refl [simp]: "same_shape x x"
  by (simp add: same_shape_def)

lemma same_shape_trans: "same_shape x y \<Longrightarrow> same_shape y z \<Longrightarrow> same_shape x z"
  by (simp add: same_shape_def)

lemma update_same_keys: "k \<in> set (map fst xs) \<Longrightarrow> map fst (AList.update k v xs) = map fst xs"
  by (induction xs) auto

lemma write_same_shape:
  assumes "write_bytes p b x = (x', r)" and "file_exists x p"
  shows "same_shape x x' \<and> (\<forall>q. q = p \<or> node_at x' q = node_at x q)"
proof (cases "x' = x")
  case False
  then have x': "x' = put_entry p (Document b) x" and "\<not> is_dir x p" using assms(1) by (auto simp: write_bytes_def split: if_splits)
  then have p: "is_file x p" using assms(2) by (simp add: file_exists_def)
  then have "p \<in> set (map fst (entries x))" by (auto simp: is_file_def node_at_def split: option.splits dest!: map_of_SomeD) (metis fst_conv image_eqI)
  then have "map fst (entries x') = map fst (entries x)" by (simp add: x' put_entry_def update_same_keys)
  then show ?thesis using p by (auto simp: same_shape_def x' is_dir_def is_file_def entry_exists_def split: option.splits node.splits)
qed simp

lemma remove_sncast_shape:
  assumes "remove_sncast_account E p a x = (x', r)"
  shows "same_shape x x' \<and> (\<forall>q. q = p \<or> node_at x' q = node_at x q)"
proof (cases "x' = x")
  case False
  then obtain b r' where "write_bytes p b x = (x', r')" "file_exists x p"
    using assms by (auto simp: remove_sncast_account_def sbind_def split: if_splits sum.splits option.splits prod.splits)
  then show ?thesis by (rule write_same_shape)
qed simp

lemma remove_accounts_shape:
  "remove_accounts E p as x = (x', removed, errors) \<Longrightarrow> same_shape x x' \<and> (\<forall>q. q = p \<or> node_at x' q = node_at x q)"
proof (induction as arbitrary: x removed errors)
  case (Cons a as)
  obtain x1 r where x1: "remove_sncast_account E p a x = (x1, r)" by fastforce
  then obtain re er where "remove_accounts E p as x1 = (x', re, er)" using Cons.prems by (auto split: prod.splits)
  then show ?case using Cons.IH [of x1] remove_sncast_shape [OF x1] same_shape_trans by metis
qed simp

lemma list_dir_shape: "same_shape x x' \<Longrightarrow> list_dir x' p = list_dir x p"
  by (simp add: list_dir_def read_dir_def children_def same_shape_def)

lemma all_dirs_shape: "same_shape x x' \<Longrightarrow> all_profile_dirs root x' = all_profile_dirs root x"
  by (simp add: all_profile_dirs_def list_dir_shape) (simp add: same_shape_def)

lemma owned_shape: "same_shape x x' \<Longrightarrow> owned_entries root x' = owned_entries root x"
proof -
  assume s: "same_shape x x'"
  then have "entry_exists x' = entry_exists x" "is_file x' = is_file x" by (auto simp: same_shape_def)
  then show ?thesis by (simp add: owned_entries_def list_dir_shape [OF s] all_dirs_shape [OF s])
qed

section \<open>The parts of the panic wipe\<close>

definition root_leftovers :: "path \<Rightarrow> path set" where
  "root_leftovers root = {root, root @ [DS_STORE], root @ [ARCHIVE_DIR], root @ [ARCHIVE_DIR, DS_STORE]}"

lemma remove_only:
  "q \<noteq> p \<Longrightarrow> node_at (fst (remove_file p x)) q = node_at x q" "q \<noteq> p \<Longrightarrow> node_at (fst (remove_dir p x)) q = node_at x q"
  by (simp_all add: remove_file_def remove_dir_def)

lemma tidy_root_frame: "q \<notin> root_leftovers root \<Longrightarrow> node_at (tidy_root root x) q = node_at x q"
  by (simp add: tidy_root_def Let_def root_leftovers_def remove_only)

lemma tidy_root_shrinks: "shrinks x (tidy_root root x)"
  by (simp add: tidy_root_def Let_def) (meson remove_shrinks shrinks_trans)

lemma wipe_files_parts:
  assumes "wipe_files E P root accounts x = (x', removed, errors)"
  obtains x1 x2 e1 e2 where "same_shape x x1" "\<And>q. sncast_accounts_path E P \<noteq> Inr q \<Longrightarrow> node_at x1 q = node_at x q"
    "remove_entries (owned_entries root x) x1 = (x2, e2)" "x' = tidy_root root x2" "errors = e1 @ e2"
proof -
  obtain x1 re e1 where x1: "(case sncast_accounts_path E P of Inl e \<Rightarrow> (x, [], [''sncast accounts file'']) | Inr p \<Rightarrow> remove_accounts E p accounts x) = (x1, re, e1)"
    using prod_cases3 by blast
  obtain x2 e2 where x2: "remove_entries (owned_entries root x1) x1 = (x2, e2)" by fastforce
  have "same_shape x x1 \<and> (\<forall>q. sncast_accounts_path E P = Inr q \<or> node_at x1 q = node_at x q)"
  proof (cases "sncast_accounts_path E P")
    case (Inr p)
    then have "remove_accounts E p accounts x = (x1, re, e1)" using x1 by simp
    then show ?thesis using remove_accounts_shape [of E p accounts x x1 re e1] Inr by auto
  qed (use x1 in simp)
  then have s: "same_shape x x1" and f: "\<And>q. sncast_accounts_path E P \<noteq> Inr q \<Longrightarrow> node_at x1 q = node_at x q" by blast+
  have "x' = tidy_root root x2" "errors = e1 @ e2" using assms x1 x2 by (simp_all add: wipe_files_def)
  then show ?thesis using that [OF s f] x2 owned_shape [OF s] by simp
qed

lemma services_differ: "service ns SERVICE \<noteq> service ns KEYCHAIN_SERVICE"
  by (auto simp: service_def SERVICE_def KEYCHAIN_SERVICE_def split: option.splits)

lemma wipe_keys_parts:
  assumes "wipe_keys E d = (d', n, errors)"
  obtains k1 r1 r2 where "ks_delete_all (e_keys E) (service (e_ns E) KEYCHAIN_SERVICE) (dv_chain d) = (k1, r1)"
    "ks_delete (e_keys E) (service (e_ns E) SERVICE) ACCOUNT k1 = (dv_chain d', r2)"
    "dv_cache d' = Map.empty" "dv_master d' = None" "dv_wiped d'" "dv_disk d' = dv_disk d"
    "errors = [] \<Longrightarrow> r1 = Inr n \<and> r2 = Inr ()"
proof -
  obtain k1 r1 where k1: "ks_delete_all (e_keys E) (service (e_ns E) KEYCHAIN_SERVICE) (dv_chain d) = (k1, r1)" by fastforce
  obtain k2 r2 where k2: "ks_delete (e_keys E) (service (e_ns E) SERVICE) ACCOUNT k1 = (k2, r2)" by fastforce
  have s: "shred_all E d = (d\<lparr>dv_wiped := True, dv_cache := Map.empty, dv_chain := k1\<rparr>, r1)"
    using k1 by (simp add: shred_all_def sbind_def on_chain_def forget_keys_def)
  have "destroy E (d\<lparr>dv_wiped := True, dv_cache := Map.empty, dv_chain := k1\<rparr>)
      = (d\<lparr>dv_wiped := True, dv_cache := Map.empty, dv_chain := k2, dv_master := None\<rparr>, r2)"
    using k2 by (simp add: destroy_def sbind_def on_chain_def lock_app_def forget_keys_def)
  then have w: "d' = d\<lparr>dv_wiped := True, dv_cache := Map.empty, dv_chain := k2, dv_master := None\<rparr>"
    "n = (case r1 of Inr n \<Rightarrow> n | Inl e \<Rightarrow> 0)"
    "errors = (case r1 of Inl e \<Rightarrow> [''profile keys''] | Inr n \<Rightarrow> []) @ (case r2 of Inl e \<Rightarrow> [''app lock''] | Inr _ \<Rightarrow> [])"
    using assms s by (simp_all add: wipe_keys_def)
  show ?thesis
    by (rule that [OF k1, of r2]) (use w k2 in \<open>auto split: sum.splits\<close>)
qed

lemma panic_wipe_parts:
  assumes "panic_wipe E P root d = (d', Inr report)"
  obtains k1 r1 r2 x1 x2 n e1 e2 where
    "ks_delete_all (e_keys E) (service (e_ns E) KEYCHAIN_SERVICE) (dv_chain d) = (k1, r1)"
    "ks_delete (e_keys E) (service (e_ns E) SERVICE) ACCOUNT k1 = (dv_chain d', r2)"
    "dv_cache d' = Map.empty \<and> dv_master d' = None \<and> dv_wiped d'"
    "same_shape (dv_disk d) x1" "\<And>q. sncast_accounts_path E P \<noteq> Inr q \<Longrightarrow> node_at x1 q = node_at (dv_disk d) q"
    "remove_entries (owned_entries root (dv_disk d)) x1 = (x2, e2)" "dv_disk d' = tidy_root root x2"
    "pr_errors report = [] \<Longrightarrow> r1 = Inr n \<and> r2 = Inr () \<and> e2 = []"
proof -
  let ?as = "remdups_adj (sort (List.map_filter (profile_account E (dv_disk d)) (all_profile_dirs root (dv_disk d))))"
  obtain d1 n e1 where k: "wipe_keys E d = (d1, n, e1)" using prod_cases3 by blast
  obtain x removed e2 where f: "wipe_files E P root ?as (dv_disk d1) = (x, removed, e2)" using prod_cases3 by blast
  have d': "d' = d1\<lparr>dv_disk := x\<rparr>" and e: "pr_errors report = e1 @ e2"
    using assms k f by (auto simp: panic_wipe_def Let_def)
  obtain k1 r1 r2 where ks: "ks_delete_all (e_keys E) (service (e_ns E) KEYCHAIN_SERVICE) (dv_chain d) = (k1, r1)"
    "ks_delete (e_keys E) (service (e_ns E) SERVICE) ACCOUNT k1 = (dv_chain d1, r2)"
    and d1: "dv_cache d1 = Map.empty" "dv_master d1 = None" "dv_wiped d1" "dv_disk d1 = dv_disk d"
    and r: "e1 = [] \<Longrightarrow> r1 = Inr n \<and> r2 = Inr ()"
    using wipe_keys_parts [OF k] by blast
  obtain x1 x2 e3 e4 where xs: "same_shape (dv_disk d) x1" "\<And>q. sncast_accounts_path E P \<noteq> Inr q \<Longrightarrow> node_at x1 q = node_at (dv_disk d) q"
    "remove_entries (owned_entries root (dv_disk d)) x1 = (x2, e4)" "x = tidy_root root x2" "e2 = e3 @ e4"
    using wipe_files_parts [OF f [unfolded d1(4)]] by metis
  show ?thesis
    by (rule that [OF ks(1), of r2 x1 x2 e4 n]) (use ks(2) d1 xs r e in \<open>auto simp: d'\<close>)
qed

section \<open>Steps that at most wrap a bare key\<close>

definition is_bare :: "item option res \<Rightarrow> bool" where
  "is_bare r = (case r of Inr (Some (KeyBytes b)) \<Rightarrow> take (length WRAPPED) b \<noteq> WRAPPED | _ \<Rightarrow> False)"

definition chain_kept :: "'k env \<Rightarrow> 'k device \<Rightarrow> 'k device \<Rightarrow> bool" where
  "chain_kept E d d' =
     (dv_master d' = dv_master d \<and> dv_disk d' = dv_disk d \<and>
      (\<forall>s a. ks_get (e_keys E) s a (dv_chain d') = ks_get (e_keys E) s a (dv_chain d)
          \<or> dv_master d \<noteq> None \<and> is_bare (ks_get (e_keys E) s a (dv_chain d))))"

lemma chain_kept_refl [simp]: "chain_kept E d d"
  by (simp add: chain_kept_def)

lemma chain_kept_trans: "chain_kept E a b \<Longrightarrow> chain_kept E b c \<Longrightarrow> chain_kept E a c"
  unfolding chain_kept_def by metis

interpretation chain: step_rel "chain_kept E" for E
  by unfold_locales (simp, rule chain_kept_trans)

definition wraps_only :: "'k env \<Rightarrow> ('k device, 'a) st \<Rightarrow> bool" where
  "wraps_only E = stepwise (chain_kept E)"

lemmas wraps_intro = chain.steps_intro [folded wraps_only_def]

lemma keeps_wraps: "keeps (\<lambda>d. d) m \<Longrightarrow> wraps_only E m"
  by (simp add: keeps_def wraps_only_def stepwise_def)

lemma wraps_keep: "wraps_only E (master_key E)" "wraps_only E (master_key_if_set E)" "wraps_only E (keys_lookup E s a)"
  by (rule keeps_wraps, rule keeps_intro)+

text \<open>A key is put back only where a bare one was, while the app is unlocked.\<close>

lemma key_put_kept:
  assumes "keychain (e_keys E)" and bare: "is_bare (ks_get (e_keys E) (service (e_ns E) KEYCHAIN_SERVICE) i (dv_chain d))" and "dv_master d \<noteq> None"
    and "key_put E n i k d = (d', r)"
  shows "chain_kept E d d'"
proof (cases "check_id i")
  case (Inr u)
  obtain it r0 where sf: "stored_form E n i k d = (d, it)"
    using assms(3) by (auto simp: stored_form_def master_key_if_set_def sbind_def split: option.splits)
  show ?thesis
  proof (cases it)
    case (Inr v)
    obtain c r1 where c: "ks_put (e_keys E) (service (e_ns E) KEYCHAIN_SERVICE) i v (dv_chain d) = (c, r1)" by fastforce
    then have "dv_chain d' = c" "dv_master d' = dv_master d" "dv_disk d' = dv_disk d"
      using assms(4) sf Inr \<open>check_id i = Inr u\<close> by (auto simp: key_put_def sbind_def on_chain_def cache_key_def split: sum.splits)
    moreover have "ks_get (e_keys E) s a c = ks_get (e_keys E) s a (dv_chain d) \<or> is_bare (ks_get (e_keys E) s a (dv_chain d))" for s a
      using keychain.put_frame [OF assms(1) c, of s a] bare by (cases "s = service (e_ns E) KEYCHAIN_SERVICE \<and> a = i") auto
    ultimately show ?thesis using assms(3) by (simp add: chain_kept_def)
  qed (use assms(4) sf \<open>check_id i = Inr u\<close> in \<open>simp add: key_put_def sbind_def\<close>)
qed (use assms(4) in \<open>simp add: key_put_def sbind_def\<close>)

lemma key_get_kept:
  assumes K: "keychain (e_keys E)" and run: "key_get E n i d = (d', r)"
  shows "chain_kept E d d'"
proof -
  let ?look = "ks_get (e_keys E) (service (e_ns E) KEYCHAIN_SERVICE) i (dv_chain d)"
  have cache: "chain_kept E d (cache_key j k e)" if "chain_kept E d e" for j k e
    using that by (simp add: chain_kept_def cache_key_def)
  have un: "chain_kept E d (fst (unwrap_key E n i stored d))" if look: "?look = Inr (Some (KeyBytes stored))" for stored
  proof (cases "take (length WRAPPED) stored = WRAPPED")
    case True
    then show ?thesis
      using wraps_intro(5) [OF wraps_keep(1), of E "\<lambda>mk. slift (rbind (vault_open (e_crates E) mk (wrap_aad i) (MAGIC @ drop (length WRAPPED) stored)) (\<lambda>key.
                 ensure (length key = KEY_LEN) (Crypto BadSecret) (Inr key)))"]
      by (simp add: unwrap_key_def wraps_only_def stepwise_def)
  next
    case False
    then have bare: "is_bare ?look" using look by (simp add: is_bare_def)
    obtain d0 m where m0: "master_key_if_set E d = (d0, m)" by fastforce
    have "d0 = d" using keeps_step [where f = "\<lambda>d. d", OF keeps_lock(3) m0] by simp
    then have m: "master_key_if_set E d = (d, m)" using m0 by simp
    have mm: "dv_master d \<noteq> None" if "m = Inr (Some x)" for x
      using m that by (auto simp: master_key_if_set_def sbind_def split: option.splits sum.splits prod.splits if_splits)
    obtain d1 r1 where p: "key_put E n i stored d = (d1, r1)" by fastforce
    have "m = Inr (Some x) \<Longrightarrow> chain_kept E d d1" for x using key_put_kept [OF K bare mm p] by blast
    then show ?thesis using False m p by (auto simp: unwrap_key_def sbind_def split: sum.splits)
  qed
  show ?thesis
  proof (cases "check_id i = Inr () \<and> dv_cache d i = None")
    case True
    show ?thesis
    proof (cases "\<exists>stored. ?look = Inr (Some (KeyBytes stored))")
      case True
      then obtain stored where look: "?look = Inr (Some (KeyBytes stored))" by blast
      obtain d1 r1 where u: "unwrap_key E n i stored d = (d1, r1)" by fastforce
      have "chain_kept E d d1" using un [OF look] u by simp
      then show ?thesis using run look u \<open>check_id i = Inr () \<and> _\<close> cache
        by (cases r1) (auto simp: key_get_def sbind_def keys_lookup_def)
    next
      case False
      then have "d' = d" using run \<open>check_id i = Inr () \<and> _\<close>
        by (auto simp: key_get_def sbind_def keys_lookup_def split: sum.splits option.splits item.splits)
      then show ?thesis by simp
    qed
  next
    case False
    then have "d' = d" using run by (auto simp: key_get_def sbind_def split: sum.splits)
    then show ?thesis by simp
  qed
qed

lemma wraps_read:
  assumes K: "keychain (e_keys E)"
  shows "wraps_only E (key_get E n i)" "wraps_only E (profile_key E n home)" "wraps_only E (vault_read E n home p)"
    "wraps_only E (load_home_keys E nz home)" "wraps_only E (cached_handle E nz home)"
proof -
  show g: "wraps_only E (key_get E n i)" for n i
    using key_get_kept [OF K] by (metis prod.collapse wraps_only_def stepwise_def)
  show p: "wraps_only E (profile_key E n home)" for n home
    unfolding profile_key_def by (intro wraps_intro g)
  show r: "wraps_only E (vault_read E n home p)" for n home p
    unfolding vault_read_def by (intro wraps_intro p)
  show l: "wraps_only E (load_home_keys E nz home)" for nz home
    unfolding load_home_keys_def by (intro wraps_intro r)
  show "wraps_only E (cached_handle E nz home)"
    unfolding cached_handle_def by (intro wraps_intro l)
qed

lemma wraps_list_each: "keychain (e_keys E) \<Longrightarrow> wraps_only E (list_each E nz dirs)"
  by (induction dirs) (auto simp: Let_def intro!: wraps_intro wraps_read)

lemma wraps_list_profiles: "keychain (e_keys E) \<Longrightarrow> wraps_only E (list_profiles E nz root)"
  unfolding list_profiles_def by (intro wraps_intro wraps_list_each)

section \<open>Profile directories\<close>

lemma profile_dirs_in:
  assumes "dir \<in> set (all_profile_dirs root x)"
  shows "is_dir x dir" "butlast dir = root \<or> butlast dir = root @ [ARCHIVE_DIR]" "dir \<noteq> []" "starts_with PROFILE_PREFIX (last dir)"
  using assms
  by (auto simp: all_profile_dirs_def list_dir_def read_dir_def children_def profile_name_def strip_prefix_def ensure_def split: if_splits)

lemma archive_not_profile: "\<not> starts_with PROFILE_PREFIX ARCHIVE_DIR" "\<not> starts_with PROFILE_PREFIX ''current''"
  by (simp_all add: PROFILE_PREFIX_def ARCHIVE_DIR_def)

text \<open>Two profile directories have nothing in common.\<close>

lemma profile_dirs_apart:
  assumes "a \<in> set (all_profile_dirs root x)" and "b \<in> set (all_profile_dirs root x)" and "a \<noteq> b" and "within a q"
  shows "\<not> within b q"
proof
  assume "within b q"
  obtain ra rb la lb where a: "a = ra @ [la]" and b: "b = rb @ [lb]" and r: "ra \<in> {root, root @ [ARCHIVE_DIR]}" "rb \<in> {root, root @ [ARCHIVE_DIR]}"
    and l: "starts_with PROFILE_PREFIX la" "starts_with PROFILE_PREFIX lb"
    using profile_dirs_in [OF assms(1)] profile_dirs_in [OF assms(2)] by (metis append_butlast_last_id insertCI)
  obtain s where "q = a @ s" using assms(4) by (auto simp: within_append)
  moreover obtain t where "q = b @ t" using \<open>within b q\<close> by (auto simp: within_append)
  ultimately have "\<exists>us. a = b @ us \<or> b = a @ us" by (metis append_eq_append_conv2)
  then consider us where "us \<noteq> []" "b = a @ us" | us where "us \<noteq> []" "a = b @ us" using assms(3) by auto
  then show False
  proof cases
    case 1
    then show False using a b r l archive_not_profile by (auto simp: append_eq_append_conv2 append_eq_Cons_conv)
  next
    case 2
    then show False using a b r l archive_not_profile by (auto simp: append_eq_append_conv2 append_eq_Cons_conv)
  qed
qed

lemma not_under_profile:
  assumes "a \<in> set (all_profile_dirs root x)"
  shows "\<not> within a root" "\<not> within a (root @ [''current''])"
proof -
  obtain r l where a: "a = r @ [l]" and r: "r = root \<or> r = root @ [ARCHIVE_DIR]" and l: "starts_with PROFILE_PREFIX l"
    using profile_dirs_in [OF assms] by (metis append_butlast_last_id)
  show "\<not> within a root" "\<not> within a (root @ [''current''])"
    using r l archive_not_profile by (auto simp: a within_append append_eq_append_conv2 append_eq_Cons_conv)
qed

section \<open>What deleting one profile spares\<close>

definition untouched :: "(path \<Rightarrow> bool) \<Rightarrow> disk \<Rightarrow> disk \<Rightarrow> bool" where
  "untouched Q x x' = (\<forall>q. Q q \<longrightarrow> node_at x' q = node_at x q)"

definition spares :: "'k env \<Rightarrow> (path \<Rightarrow> bool) \<Rightarrow> string \<Rightarrow> 'k device \<Rightarrow> 'k device \<Rightarrow> bool" where
  "spares E Q i d d' =
     (dv_master d' = dv_master d \<and> untouched Q (dv_disk d) (dv_disk d') \<and>
      (let key = ks_get (e_keys E) (service (e_ns E) KEYCHAIN_SERVICE) i
       in key (dv_chain d') = key (dv_chain d) \<or> dv_master d \<noteq> None \<and> is_bare (key (dv_chain d))))"

interpretation untouch: step_rel "untouched Q" for Q
  by unfold_locales (simp_all add: untouched_def)

interpretation spare: step_rel "spares E Q i" for E Q i
  by unfold_locales (auto simp: spares_def untouched_def Let_def)

lemma wraps_spares: "wraps_only E m \<Longrightarrow> stepwise (spares E Q i) m"
  by (auto simp: wraps_only_def stepwise_def chain_kept_def spares_def untouched_def Let_def)

lemma on_disk_spares: "stepwise (untouched Q) m \<Longrightarrow> stepwise (spares E Q i) (on_disk m)"
  by (auto simp: stepwise_def spares_def on_disk_def Let_def split: prod.splits) (metis fst_conv)

lemma drop_account_untouched:
  assumes "\<And>q. Q q \<Longrightarrow> sncast_accounts_path E P \<noteq> Inr q"
  shows "stepwise (untouched Q) (drop_account E P root dir)"
proof -
  have rm: "stepwise (untouched Q) (remove_sncast_account E p a)" if "sncast_accounts_path E P = Inr p" for p a
    using remove_sncast_shape [of E p a] that assms unfolding stepwise_def untouched_def by (metis prod.collapse)
  have "stepwise (untouched Q) (sbind (slift (sncast_accounts_path E P)) (\<lambda>p. sbind (remove_sncast_account E p a) (\<lambda>there. sret (if there then Some a else None))))" for a
  proof (cases "sncast_accounts_path E P")
    case (Inl e)
    then show ?thesis by (simp add: stepwise_def sbind_def untouched_def)
  next
    case (Inr p)
    have "stepwise (untouched Q) (sbind (remove_sncast_account E p a) (\<lambda>there. sret (if there then Some a else None)))"
      by (intro untouch.steps_intro rm [OF Inr])
    then show ?thesis using Inr by (simp only: sbind_slift)
  qed
  then show ?thesis unfolding drop_account_def
    by (rule untouch.steps_bind [OF untouch.steps_basic(3) untouch.steps_cases(2) [OF untouch.steps_basic(1) untouch.steps_cases(1) [OF untouch.steps_basic(1)]]])
qed

lemma write_current_untouched:
  assumes "\<And>q. Q q \<Longrightarrow> \<not> within q root" and "\<not> Q (root @ [''current''])"
  shows "stepwise (untouched Q) (write_current root n)"
proof -
  have "stepwise (untouched Q) (create_dir_all root)"
    using make_dirs_beside [of _ "[]" root] assms(1) unfolding stepwise_def untouched_def create_dir_all_def
    by (metis append_Nil prod.collapse)
  moreover have "stepwise (untouched Q) (write_bytes (root @ [''current'']) b)" for b
    using assms(2) by (auto simp: stepwise_def untouched_def write_bytes_def)
  ultimately show ?thesis unfolding write_current_def by (intro untouch.steps_intro)
qed

lemma fix_current_spares:
  assumes "keychain (e_keys E)" and "\<And>q. Q q \<Longrightarrow> \<not> within q root" and "\<not> Q (root @ [''current''])"
  shows "stepwise (spares E Q i) (fix_current E nz root dir)"
proof -
  have "stepwise (untouched Q) (remove_file (root @ [''current'']))"
    using assms(3) by (auto simp: stepwise_def untouched_def intro!: remove_only)
  then show ?thesis
    unfolding fix_current_def Let_def
    by (intro spare.steps_intro on_disk_spares write_current_untouched assms wraps_spares wraps_list_profiles)
qed

text \<open>A key no other profile names is deleted alone.\<close>

lemma shred_spares:
  assumes K: "keychain (e_keys E)" and run: "shred E dir d = (d', r)" and "key_id_of E (dv_disk d) dir \<noteq> Some i"
  shows "spares E Q i d d'"
proof (cases "profile_key_id E dir (dv_disk d)")
  case (Inr j)
  show ?thesis
  proof (cases j)
    case (Some j0)
    have ne: "j0 \<noteq> i" using assms(3) Inr Some by (simp add: key_id_of_def)
    obtain c r1 where c: "ks_delete (e_keys E) (service (e_ns E) KEYCHAIN_SERVICE) j0 (dv_chain d) = (c, r1)" by fastforce
    have "dv_chain d' = c" "dv_master d' = dv_master d" "dv_disk d' = dv_disk d"
      using run Inr Some c profile_key_id_checked [of E dir "dv_disk d" j0]
      by (auto simp: shred_def sbind_def key_delete_def uncache_key_def on_chain_def split: sum.splits)
    then show ?thesis using keychain.delete_frame [OF K c, of _ i] ne by (simp add: spares_def untouched_def Let_def)
  qed (use run Inr in \<open>simp add: shred_def sbind_def spare.stay\<close>)
qed (use run in \<open>simp add: shred_def sbind_def spare.stay\<close>)

lemma wipe_rest_spares:
  assumes "keychain (e_keys E)" and "\<And>q. Q q \<Longrightarrow> \<not> within q root" and "\<not> Q (root @ [''current''])"
    and "\<And>q. Q q \<Longrightarrow> sncast_accounts_path E P \<noteq> Inr q" and "\<And>q. Q q \<Longrightarrow> \<not> within dir q"
  shows "stepwise (spares E Q i) (sbind (if opt then on_disk (drop_account E P root dir) else sret None) (\<lambda>removed.
     sbind (on_disk (remove_dir_all dir)) (\<lambda>_.
     sbind (fix_current E nz root dir) (\<lambda>cur.
     sret \<lparr>wr_shredded = shredded, wr_account_key_removed = removed, wr_new_current = cur\<rparr>))))"
proof -
  have "stepwise (untouched Q) (remove_dir_all dir)"
    using assms(5) by (auto simp: stepwise_def untouched_def remove_dir_all_def)
  then show ?thesis
    by (intro spare.steps_intro on_disk_spares drop_account_untouched fix_current_spares assms)
qed

section \<open>Moving tickets\<close>

lemma holds_secret_append: "holds_secret C f (xs @ ys) \<longleftrightarrow> holds_secret C f xs \<or> holds_secret C f ys"
  by (simp add: holds_secret_def)

lemma moved_secret [simp]: "secret (moved_ticket t) = secret t"
  by (simp add: moved_ticket_def split: ticket_state.split)

text \<open>\<open>added_from\<close>: the tickets that come over, in order, each once.\<close>

fun added_from :: "crates \<Rightarrow> ticket list \<Rightarrow> nat list \<Rightarrow> ticket list \<Rightarrow> ticket list" where
  "added_from C source [] target = []"
| "added_from C source (i # is) target =
     (case felt_of_hex C (secret (source ! i)) of
        None \<Rightarrow> []
      | Some f \<Rightarrow>
          if holds_secret C f target then added_from C source is target
          else moved_ticket (source ! i) # added_from C source is (target @ [moved_ticket (source ! i)]))"

lemma move_each_added:
  "move_each C source is (target, rep) = Inr (target', rep') \<Longrightarrow>
     target' = target @ added_from C source is target \<and> tm_moved rep' = tm_moved rep + length (added_from C source is target)
     \<and> tm_moved rep' + tm_already_there rep' = tm_moved rep + tm_already_there rep + length is \<and> tm_left_in_flight rep' = tm_left_in_flight rep"
proof (induction "is" arbitrary: target rep)
  case (Cons i "is")
  then obtain f where f: "felt_of_hex C (secret (source ! i)) = Some f" by (auto simp: res_inv)
  show ?case
  proof (cases "holds_secret C f target")
    case True
    then have "move_each C source is (target, rep\<lparr>tm_already_there := tm_already_there rep + 1\<rparr>) = Inr (target', rep')"
      using Cons.prems f by (auto simp: res_inv)
    from Cons.IH [OF this] show ?thesis using True f by simp
  next
    case False
    then have "move_each C source is (target @ [moved_ticket (source ! i)], rep\<lparr>tm_moved := tm_moved rep + 1\<rparr>) = Inr (target', rep')"
      using Cons.prems f by (auto simp: res_inv)
    from Cons.IH [OF this] show ?thesis using False f by simp
  qed
qed simp

lemma move_each_holds:
  "move_each C source is (target, rep) = Inr (target', rep') \<Longrightarrow> i \<in> set is \<Longrightarrow>
     \<exists>f. felt_of_hex C (secret (source ! i)) = Some f \<and> holds_secret C f target'"
proof (induction "is" arbitrary: target rep)
  case (Cons j "is")
  then obtain f where f: "felt_of_hex C (secret (source ! j)) = Some f" by (auto simp: res_inv)
  obtain t r where rest: "move_each C source is (t, r) = Inr (target', rep')" and t: "holds_secret C f t"
    using Cons.prems(1) f by (auto simp: res_inv holds_secret_def split: if_splits)
  have "holds_secret C f target'" using move_each_added [OF rest] t by (simp add: holds_secret_append)
  then show ?case using Cons.IH [OF rest] Cons.prems(2) f by auto
qed simp

lemma added_from_source: "t \<in> set (added_from C source is target) \<Longrightarrow> \<exists>i \<in> set is. t = moved_ticket (source ! i)"
  by (induction "is" arbitrary: target) (auto split: option.splits if_splits)

text \<open>No secret is held twice because of a move.\<close>

lemma added_from_fresh:
  "t \<in> set (added_from C source is target) \<Longrightarrow> felt_of_hex C (secret t) = Some f \<Longrightarrow> \<not> holds_secret C f target"
proof (induction "is" arbitrary: target)
  case (Cons i "is")
  obtain g where g: "felt_of_hex C (secret (source ! i)) = Some g"
    using Cons.prems(1) by (cases "felt_of_hex C (secret (source ! i))") auto
  show ?case
  proof (cases "holds_secret C g target")
    case True
    then show ?thesis using Cons g by simp
  next
    case False
    show ?thesis
    proof (cases "t = moved_ticket (source ! i)")
      case True
      then show ?thesis using Cons.prems(2) g False by simp
    next
      case neq: False
      then have "t \<in> set (added_from C source is (target @ [moved_ticket (source ! i)]))" using Cons.prems(1) g False by simp
      from Cons.IH [OF this Cons.prems(2)] show ?thesis by (simp add: holds_secret_append)
    qed
  qed
qed simp

lemma added_from_readable: "t \<in> set (added_from C source is target) \<Longrightarrow> \<exists>f. felt_of_hex C (secret t) = Some f"
  by (induction "is" arbitrary: target) (auto split: option.splits if_splits dest: sym)

lemma added_from_distinct: "distinct (map (\<lambda>t. felt_of_hex C (secret t)) (added_from C source is target))"
proof (induction "is" arbitrary: target)
  case (Cons i "is")
  show ?case
  proof (cases "felt_of_hex C (secret (source ! i))")
    case (Some f)
    have "felt_of_hex C (secret t) \<noteq> Some f" if "t \<in> set (added_from C source is (target @ [moved_ticket (source ! i)]))" for t
      using added_from_fresh [OF that, of f] Some by (auto simp: holds_secret_def)
    then show ?thesis using Cons Some by (auto simp: image_iff) metis
  qed simp
qed simp

lemma keeps_sok [keeps_intro]: "keeps f m \<Longrightarrow> keeps f (sok m)"
  by (rule keeps_intro)

lemma keeps_wallet [keeps_intro]: "keeps dv_disk (vault_read E n home p)" "keeps dv_disk (load_home_wallet E nz home st)" "keeps dv_disk (load_home_send E nz home i)"
  by (auto simp: vault_read_def load_home_wallet_def load_home_send_def Let_def intro!: keeps_intro)

lemma keeps_classify [keeps_intro]: "keeps dv_disk (classify_from E nz home i ts)"
  by (induction ts arbitrary: i) (auto intro!: keeps_intro split: ticket_state.split prod.split)

lemma load_home_wallet_store:
  assumes "load_home_wallet E nz home st d = (d', Inr w)" and "felt_of_hex (e_crates E) st \<noteq> None"
  shows "same_address (e_crates E) (wallet_store w) st"
  using assms by (auto simp: load_home_wallet_def sbind_Inr res_inv same_address_def split: if_splits option.splits)

text \<open>A saved wallet loads back.\<close>

lemma save_then_load_wallet:
  assumes laws: "gcm_ok (e_crates E)" "serde_ok (e_serde E)" "others_ok E (fst (dr home)) home" "length (snd (dr home)) = VAULT_NONCE_LEN"
    and parse: "\<And>w. sd_wallet_parse (e_serde E) (sd_wallet_print (e_serde E) w) = Some w"
    and save: "save_home_wallet E dr home w d = (d', Inr ())" and st: "same_address (e_crates E) (wallet_store w) st"
  shows "load_home_wallet E nz home st d' = (d', Inr w)"
proof -
  have "tickets_path home \<noteq> home @ [VAULT_FILE]" by (simp add: tickets_path_def VAULT_FILE_def)
  from vault_write_reads [OF laws(1-4) this save [unfolded save_home_wallet_def], of "nz home"]
  have rd: "vault_read E (nz home) home (tickets_path home) d' = (d', Inr (sd_wallet_print (e_serde E) w))"
    and "file_exists (dv_disk d') (tickets_path home)"
    by (auto simp: read_bytes_Inr file_exists_def is_file_def)
  then show ?thesis using parse st by (simp add: load_home_wallet_def sbind_def)
qed

lemma move_tickets_parts:
  assumes "move_tickets E nz dr src dst d = (d', Inr report)"
  obtains cs ct d1 source d2 movable fl d3 target ts where "load_config E src (dv_disk d) = Inr cs" "load_config E dst (dv_disk d) = Inr ct"
    "same_address (e_crates E) (store cs) (store ct)" "src \<noteq> dst"
    "load_home_wallet E nz src (store cs) d = (d1, Inr source)" "classify_tickets E nz src source d1 = (d2, Inr (movable, fl))"
    "load_home_wallet E nz dst (store ct) d2 = (d3, Inr target)"
    "move_each (e_crates E) (tickets source) movable (tickets target, \<lparr>tm_moved = 0, tm_already_there = 0, tm_left_in_flight = fl\<rparr>) = Inr (ts, report)"
    "(if 0 < tm_moved report then save_home_wallet E dr dst (target\<lparr>tickets := ts\<rparr>) else sret ()) d3 = (d', Inr ())"
  using assms by (auto simp: move_tickets_def sbind_Inr res_inv)

text \<open>What stands at a path stays there when another profile's wallet is saved.\<close>

definition stands :: "path \<Rightarrow> 'k device \<Rightarrow> 'k device \<Rightarrow> bool" where
  "stands p d d' = (\<forall>n. node_at (dv_disk d) p = Some n \<longrightarrow> node_at (dv_disk d') p = Some n)"

interpretation stand: step_rel "stands p" for p
  by unfold_locales (simp_all add: stands_def)

lemma keeps_stands: "keeps dv_disk m \<Longrightarrow> stepwise (stands p) m"
  by (simp add: keeps_def stepwise_def stands_def)

lemma on_disk_stands: "(\<And>x n. node_at x p = Some n \<Longrightarrow> node_at (fst (m x)) p = Some n) \<Longrightarrow> stepwise (stands p) (on_disk m)"
  by (auto simp: stepwise_def stands_def on_disk_def split: prod.splits) (metis fst_conv)

lemma make_dirs_stands: "node_at x p = Some n \<Longrightarrow> node_at (fst (make_dirs base cs x)) p = Some n"
proof (induction cs arbitrary: base x)
  case (Cons c cs)
  have "node_at (put_entry (base @ [c]) Dir x) p = Some n" if "node_at x (base @ [c]) = None" using that Cons.prems by auto
  then show ?case using Cons.IH Cons.prems by (auto simp: Let_def entry_exists_def)
qed simp

lemma disk_stands:
  "stepwise (stands p) (on_disk (create_dir_all q))"
  "p \<noteq> q \<Longrightarrow> stepwise (stands p) (on_disk (write_bytes q b))"
  "p \<noteq> q \<Longrightarrow> stepwise (stands p) (on_disk (remove_file q))"
  "stepwise (stands p) (on_disk (hard_link r q))"
  by (rule on_disk_stands; auto simp: create_dir_all_def make_dirs_stands write_bytes_def remove_file_def hard_link_def entry_exists_def split: option.split node.split)+

lemma link_vault_stands:
  fixes E :: "'k env"
  assumes "p \<noteq> tmp"
  shows "stepwise (stands p) (link_vault E n i key tmp home)"
  unfolding stepwise_def
proof
  fix d :: "'k device"
  obtain d1 linked where h: "on_disk (hard_link tmp (home @ [VAULT_FILE])) d = (d1, linked)" by fastforce
  obtain d2 r where m: "on_disk (remove_file tmp) d1 = (d2, r)" by fastforce
  have s: "stands p d d2" by (rule stand.further [OF steps_run [OF disk_stands(4) h] steps_run [OF disk_stands(3) [OF assms] m]])
  have k: "stepwise (stands p) (sbind (key_delete E i) (\<lambda>_. sbind (profile_key E n home) (\<lambda>k. slift (of_opt (File Missing) k))))"
    by (intro keeps_stands keeps_intro)
  have kd: "stands p d2 (fst (key_delete E i d2))"
    using keeps_stands [OF keeps_keys(4), of p E i] by (simp add: stepwise_def)
  from k have "stands p d2 (fst (sbind (key_delete E i) (\<lambda>_. sbind (profile_key E n home) (\<lambda>k. slift (of_opt (File Missing) k))) d2))"
    by (simp add: stepwise_def)
  then show "stands p d (fst (link_vault E n i key tmp home d))"
    using h m s stand.further [OF s] kd by (auto simp: link_vault_def split: sum.split)
qed

lemma save_home_wallet_stands:
  assumes "p = src @ [''tickets.json'']" and "src \<noteq> dst"
    and "\<And>x. node_at (dv_disk (dr_meanwhile (fst (dr dst)) x)) p = node_at (dv_disk x) p"
  shows "stepwise (stands p) (save_home_wallet E dr dst w)"
proof -
  have k: "stepwise (stands p) (key_put E n i x)" "stepwise (stands p) (profile_key E n h)" for n i x h
    by (intro keeps_stands keeps_intro)+
  have m: "stepwise (stands p) (smodify (dr_meanwhile (fst (dr dst))))"
    using assms(3) by (intro stand.steps_modify) (simp add: stands_def)
  have ne: "p \<noteq> dst @ [CHR ''.'' # n]" "p \<noteq> tickets_path dst" for n using assms(1,2) by (simp_all add: tickets_path_def)
  show ?thesis
    unfolding save_home_wallet_def vault_write_def profile_key_or_create_def create_vault_def Let_def
    by (intro stand.steps_intro k m disk_stands link_vault_stands) (use ne in simp_all)
qed

section \<open>Properties\<close>

text \<open>C19: The panic wipe, when it reports no error: every profile key is gone from the Keychain, of
  whatever root, with the app lock and every key in memory, so no sealed file opens any more and
  no new vault is made in this process; and of every profile under the root, live or archived,
  and of what else zkmsg owned there, nothing is left on disk.\<close>

theorem panic_wipe_leaves_nothing:
  assumes "keychain (e_keys E)" and "panic_wipe E P root d = (d', Inr report)" and "pr_errors report = []"
  shows "(\<forall>i. ks_get (e_keys E) (service (e_ns E) KEYCHAIN_SERVICE) i (dv_chain d') = Inr None)
     \<and> lock_load E d' = (d', Inr None) \<and> dv_cache d' = Map.empty \<and> dv_master d' = None \<and> dv_wiped d'
     \<and> (\<forall>p \<in> set (owned_entries root (dv_disk d)). node_at (dv_disk d') p = None
          \<and> (\<forall>q. is_dir (dv_disk d) p \<and> within p q \<longrightarrow> node_at (dv_disk d') q = None))"
proof -
  let ?s = "service (e_ns E) KEYCHAIN_SERVICE"
  obtain k1 r1 r2 x1 x2 n e2 where k1: "ks_delete_all (e_keys E) ?s (dv_chain d) = (k1, r1)"
    "ks_delete (e_keys E) (service (e_ns E) SERVICE) ACCOUNT k1 = (dv_chain d', r2)"
    and mem: "dv_cache d' = Map.empty \<and> dv_master d' = None \<and> dv_wiped d'" and s: "same_shape (dv_disk d) x1"
    and rm: "remove_entries (owned_entries root (dv_disk d)) x1 = (x2, e2)" and t: "dv_disk d' = tidy_root root x2"
    and ok: "pr_errors report = [] \<Longrightarrow> r1 = Inr n \<and> r2 = Inr () \<and> e2 = []"
    using panic_wipe_parts [OF assms(2)] by metis
  have r: "r1 = Inr n" "r2 = Inr ()" and e: "e2 = []" using ok [OF assms(3)] by auto
  have "ks_get (e_keys E) ?s i (dv_chain d') = Inr None" for i
    using keychain.delete_all_get [OF assms(1) k1(1) [unfolded r]] keychain.delete_frame [OF assms(1) k1(2), of ?s i]
      services_differ [of "e_ns E"] by simp
  moreover have "lock_load E d' = (d', Inr None)"
    using keychain.delete_get [OF assms(1) k1(2) [unfolded r]] by (simp add: lock_load_def sbind_def keys_lookup_def)
  moreover note mem
  moreover have "node_at (dv_disk d') p = None \<and> (\<forall>q. is_dir (dv_disk d) p \<and> within p q \<longrightarrow> node_at (dv_disk d') q = None)"
    if p: "p \<in> set (owned_entries root (dv_disk d))" for p
  proof -
    have "node_at (dv_disk d') q = None" if "node_at x2 q = None" for q
      using tidy_root_shrinks [of x2 root] that t unfolding shrinks_def by metis
    then show ?thesis using remove_entries_gone [OF rm [unfolded e] p] s by (simp add: same_shape_def)
  qed
  ultimately show ?thesis by blast
qed

text \<open>The panic wipe touches nothing else, whatever fails along the way. On disk only the
  entries zkmsg owns under the root, sncast's accounts file, the archive and root directories if
  empty and their \<^verbatim>\<open>.DS_Store\<close> can change; in the Keychain only the two services of zkmsg. And
  whatever was there under the entries it owns can only disappear.\<close>

theorem panic_wipe_touches_nothing_else:
  assumes "keychain (e_keys E)" and "panic_wipe E P root d = (d', Inr report)"
  shows "(\<forall>q. (\<exists>p \<in> set (owned_entries root (dv_disk d)). within p q) \<or> sncast_accounts_path E P = Inr q \<or> q \<in> root_leftovers root
          \<or> node_at (dv_disk d') q = node_at (dv_disk d) q)
     \<and> (\<forall>q. sncast_accounts_path E P = Inr q \<or> node_at (dv_disk d') q \<in> {node_at (dv_disk d) q, None})
     \<and> (\<forall>s i. s \<in> {service (e_ns E) KEYCHAIN_SERVICE, service (e_ns E) SERVICE}
          \<or> ks_get (e_keys E) s i (dv_chain d') = ks_get (e_keys E) s i (dv_chain d))"
proof -
  obtain k1 r1 r2 x1 x2 e2 where k1: "ks_delete_all (e_keys E) (service (e_ns E) KEYCHAIN_SERVICE) (dv_chain d) = (k1, r1)"
    "ks_delete (e_keys E) (service (e_ns E) SERVICE) ACCOUNT k1 = (dv_chain d', r2)"
    and x1: "\<And>q. sncast_accounts_path E P \<noteq> Inr q \<Longrightarrow> node_at x1 q = node_at (dv_disk d) q"
    and rm: "remove_entries (owned_entries root (dv_disk d)) x1 = (x2, e2)" and t: "dv_disk d' = tidy_root root x2"
    using panic_wipe_parts [OF assms(2)] by metis
  have "node_at (dv_disk d') q = node_at (dv_disk d) q"
    if "\<forall>p \<in> set (owned_entries root (dv_disk d)). \<not> within p q" "sncast_accounts_path E P \<noteq> Inr q" "q \<notin> root_leftovers root" for q
    using remove_entries_frame [OF rm that(1)] x1 [OF that(2)] tidy_root_frame [OF that(3)] t by simp
  moreover have "node_at (dv_disk d') q \<in> {node_at (dv_disk d) q, None}" if "sncast_accounts_path E P \<noteq> Inr q" for q
    using shrinks_trans [OF remove_entries_shrinks [OF rm] tidy_root_shrinks [of x2 root]] x1 [OF that] t
    unfolding shrinks_def by (metis insertI1 insert_commute)
  moreover have "ks_get (e_keys E) s i (dv_chain d') = ks_get (e_keys E) s i (dv_chain d)"
    if "s \<notin> {service (e_ns E) KEYCHAIN_SERVICE, service (e_ns E) SERVICE}" for s i
    using keychain.delete_all_frame [OF assms(1) k1(1), of s i] keychain.delete_frame [OF assms(1) k1(2), of s i] that by simp
  ultimately show ?thesis by blast
qed

text \<open>C20: Deleting one profile leaves every other one as it was, whatever fails along the way: no
  file of another profile under the root, live or archived, changes, and its key stays in the
  Keychain as it was stored, a copy that shares the deleted profile's key included. (Reading a
  profile while the app is unlocked may wrap a key that was stored bare; nothing else changes.)\<close>

theorem deleting_one_profile_leaves_the_others:
  assumes "keychain (e_keys E)" and "wipe_profile E P nz root dir opt d = (d', r)"
    and "dir \<in> set (all_profile_dirs root (dv_disk d))" and "other \<in> set (all_profile_dirs root (dv_disk d))" and "other \<noteq> dir"
    and "within other q" and "sncast_accounts_path E P \<noteq> Inr q" and "profile_key_id E other (dv_disk d) = Inr (Some i)"
  shows "node_at (dv_disk d') q = node_at (dv_disk d) q
     \<and> (let key = ks_get (e_keys E) (service (e_ns E) KEYCHAIN_SERVICE) i
        in key (dv_chain d') = key (dv_chain d) \<or> dv_master d \<noteq> None \<and> is_bare (key (dv_chain d)))"
proof -
  define Q where "Q p = (within other p \<and> sncast_accounts_path E P \<noteq> Inr p)" for p
  have Q: "\<not> within p root" "\<not> within dir p" if "Q p" for p
    using that not_under_profile(1) [OF assms(4)] profile_dirs_apart [OF assms(4,3,5)] within_trans by (auto simp: Q_def)
  have cur: "\<not> Q (root @ [''current''])" using not_under_profile(2) [OF assms(4)] by (simp add: Q_def)
  define m where "m = (if key_sharers E root dir (dv_disk d) = [] then shred E dir else sret False)"
  obtain d1 s where d1: "m d = (d1, s)" by fastforce
  have one: "spares E Q i d d1"
  proof (cases "key_sharers E root dir (dv_disk d) = []")
    case True
    then have "key_id_of E (dv_disk d) dir \<noteq> Some i"
      using assms(4,5,8) by (auto simp: key_sharers_def filter_empty_conv key_id_of_def split: option.splits)
    then show ?thesis using shred_spares [OF assms(1)] d1 True by (simp add: m_def)
  next
    case False
    then show ?thesis using d1 by (simp add: m_def spare.stay)
  qed
  have "spares E Q i d d'"
  proof (cases s)
    case (Inl e)
    then have "d' = d1" using assms(2) d1 by (simp only: wipe_profile_def sbind_sget m_def [symmetric] sbind_step(2) [of m, OF d1 [unfolded Inl]] prod.inject)
    then show ?thesis using one by simp
  next
    case (Inr shredded)
    have st: "stepwise (spares E Q i) (sbind (if opt then on_disk (drop_account E P root dir) else sret None) (\<lambda>removed.
       sbind (on_disk (remove_dir_all dir)) (\<lambda>_. sbind (fix_current E nz root dir) (\<lambda>cur.
       sret \<lparr>wr_shredded = shredded, wr_account_key_removed = removed, wr_new_current = cur\<rparr>))))" (is "stepwise _ ?rest")
      by (rule wipe_rest_spares [of E Q, OF assms(1) _ cur]) (simp_all add: Q, simp add: Q_def)
    have run: "?rest d1 = (d', r)"
      using assms(2) by (simp only: wipe_profile_def sbind_sget m_def [symmetric] sbind_step(1) [of m, OF d1 [unfolded Inr]])
    show ?thesis by (rule spare.further [OF one steps_run [OF st run]])
  qed
  moreover have "Q q" using assms(6,7) by (simp add: Q_def)
  ultimately show ?thesis by (auto simp: spares_def untouched_def Let_def)
qed

text \<open>C21: Moving a profile's tickets to another profile of the same store loses and doubles none.
  When it returns, the wallet read back from the target holds what it held, in order, followed by
  movable tickets of the source, each once, with secrets the target did not hold; every movable
  ticket's secret is then in the target; the counts add up; and the source's wallet is the same
  file as before. What other processes do meanwhile does not touch the new vault's file or the
  source's wallet.\<close>

theorem moved_tickets_are_neither_lost_nor_doubled:
  assumes "gcm_ok (e_crates E)" and "serde_ok (e_serde E)" and "others_ok E (fst (dr dst)) dst" and "length (snd (dr dst)) = VAULT_NONCE_LEN"
    and "\<And>w. sd_wallet_parse (e_serde E) (sd_wallet_print (e_serde E) w) = Some w"
    and "\<And>x. node_at (dv_disk (dr_meanwhile (fst (dr dst)) x)) (tickets_path src) = node_at (dv_disk x) (tickets_path src)"
    and "move_tickets E nz dr src dst d = (d', Inr report)"
  shows "\<exists>cs ct source target movable added e e'.
       load_config E src (dv_disk d) = Inr cs \<and> load_config E dst (dv_disk d) = Inr ct
     \<and> snd (load_home_wallet E nz src (store cs) d) = Inr source
     \<and> dv_disk e = dv_disk d \<and> snd (classify_tickets E nz src source e) = Inr (movable, tm_left_in_flight report)
     \<and> dv_disk e' = dv_disk d \<and> snd (load_home_wallet E nz dst (store ct) e') = Inr target
     \<and> (if tm_moved report = 0 then dv_disk d' = dv_disk d
        else load_home_wallet E nz dst (store ct) d' = (d', Inr (target\<lparr>tickets := tickets target @ added\<rparr>)))
     \<and> node_at (dv_disk d') (tickets_path src) = node_at (dv_disk d) (tickets_path src)
     \<and> length added = tm_moved report \<and> tm_moved report + tm_already_there report = length movable
     \<and> set added \<subseteq> (\<lambda>i. moved_ticket (tickets source ! i)) ` set movable
     \<and> distinct (map (\<lambda>t. felt_of_hex (e_crates E) (secret t)) added)
     \<and> list_all (\<lambda>t. \<exists>f. felt_of_hex (e_crates E) (secret t) = Some f \<and> \<not> holds_secret (e_crates E) f (tickets target)) added
     \<and> list_all (\<lambda>i. \<exists>f. felt_of_hex (e_crates E) (secret (tickets source ! i)) = Some f
          \<and> holds_secret (e_crates E) f (tickets target @ added)) movable"
proof -
  let ?C = "e_crates E"
  obtain cs ct d1 source d2 movable fl d3 target ts where c: "load_config E src (dv_disk d) = Inr cs" "load_config E dst (dv_disk d) = Inr ct"
    and same: "same_address ?C (store cs) (store ct)" "src \<noteq> dst"
    and src: "load_home_wallet E nz src (store cs) d = (d1, Inr source)" and cl: "classify_tickets E nz src source d1 = (d2, Inr (movable, fl))"
    and dst: "load_home_wallet E nz dst (store ct) d2 = (d3, Inr target)"
    and mv: "move_each ?C (tickets source) movable (tickets target, \<lparr>tm_moved = 0, tm_already_there = 0, tm_left_in_flight = fl\<rparr>) = Inr (ts, report)"
    and sv: "(if 0 < tm_moved report then save_home_wallet E dr dst (target\<lparr>tickets := ts\<rparr>) else sret ()) d3 = (d', Inr ())"
    using move_tickets_parts [OF assms(7)] by metis
  note disk = keeps_step [OF keeps_wallet(2) src] keeps_step [OF keeps_classify cl [unfolded classify_tickets_def]] keeps_step [OF keeps_wallet(2) dst]
  define added where "added = added_from ?C (tickets source) movable (tickets target)"
  have m: "ts = tickets target @ added" "length added = tm_moved report" "tm_moved report + tm_already_there report = length movable" "tm_left_in_flight report = fl"
    using move_each_added [OF mv] by (simp_all add: added_def)
  have st: "same_address ?C (wallet_store target) (store ct)"
    using load_home_wallet_store [OF dst] same by (auto simp: same_address_def split: option.splits)
  have read_back: "if tm_moved report = 0 then dv_disk d' = dv_disk d
      else load_home_wallet E nz dst (store ct) d' = (d', Inr (target\<lparr>tickets := tickets target @ added\<rparr>))"
  proof (cases "tm_moved report = 0")
    case False
    then have "save_home_wallet E dr dst (target\<lparr>tickets := ts\<rparr>) d3 = (d', Inr ())" using sv by simp
    from save_then_load_wallet [where st = "store ct", OF assms(1-5) this] show ?thesis using False st m(1) by simp
  qed (use sv disk in simp)
  have source_kept: "node_at (dv_disk d') (tickets_path src) = node_at (dv_disk d) (tickets_path src)"
  proof (cases "tm_moved report = 0")
    case False
    then have "movable \<noteq> []" using m(3) by auto
    then have "tickets source \<noteq> []" using mv by (cases movable) (auto simp: ensure_eq_Inr)
    then have "file_exists (dv_disk d) (tickets_path src)" using src by (auto simp: load_home_wallet_def sbind_def split: if_splits)
    then obtain n where n: "node_at (dv_disk d) (tickets_path src) = Some n" by (auto simp: file_exists_def is_dir_def is_file_def split: option.splits)
    have "stepwise (stands (tickets_path src)) (save_home_wallet E dr dst (target\<lparr>tickets := ts\<rparr>))"
      using save_home_wallet_stands [of "tickets_path src" src dst dr] same(2) assms(6) by (simp add: tickets_path_def)
    then have "stands (tickets_path src) d3 d'" using steps_run sv False by auto
    then show ?thesis using n disk by (simp add: stands_def)
  qed (use sv disk in simp)
  have "list_all (\<lambda>t. \<exists>f. felt_of_hex ?C (secret t) = Some f \<and> \<not> holds_secret ?C f (tickets target)) added"
    using added_from_readable added_from_fresh unfolding added_def list_all_iff by metis
  moreover have "set added \<subseteq> (\<lambda>i. moved_ticket (tickets source ! i)) ` set movable" by (auto simp: added_def dest!: added_from_source)
  moreover have "distinct (map (\<lambda>t. felt_of_hex ?C (secret t)) added)" using added_from_distinct by (simp add: added_def)
  moreover have "list_all (\<lambda>i. \<exists>f. felt_of_hex ?C (secret (tickets source ! i)) = Some f \<and> holds_secret ?C f (tickets target @ added)) movable"
    using move_each_holds [OF mv] m(1) by (simp add: list_all_iff)
  ultimately show ?thesis using c src cl dst m disk read_back source_kept
    by (intro exI [of _ cs] exI [of _ ct] exI [of _ source] exI [of _ target] exI [of _ movable] exI [of _ added] exI [of _ d1] exI [of _ d2]) auto
qed

section \<open>A root with two profiles\<close>

definition demo_places :: places where
  "demo_places = \<lparr>pl_home = Some [''home''], pl_tmp = [''tmp'']\<rparr>"

definition two_profiles :: "(path \<times> node) list" where
  "two_profiles = [([], Dir), ([''r''], Dir), ([''r'', ''.zkmsg-a''], Dir), ([''r'', ''.zkmsg-a'', ''keys.json''], Document [1]),
     ([''r'', ''.zkmsg-b''], Dir), ([''r'', ''.zkmsg-b'', ''vault.json''], Document (str_bytes zero_id))]"

definition wipe_device :: "memory device" where
  "wipe_device = bare_device [((KEYCHAIN_SERVICE, zero_id), KeyBytes (replicate 32 7)), ((''mail'', ''me''), KeyBytes [1])] two_profiles"

lemma wipe_device_sel: "dv_disk wipe_device = \<lparr>entries = two_profiles, bad = (\<lambda>p. False)\<rparr>"
  "dv_chain wipe_device = [((KEYCHAIN_SERVICE, zero_id), KeyBytes (replicate 32 7)), ((''mail'', ''me''), KeyBytes [1])]"
  by (simp_all add: wipe_device_def bare_device_def)

lemma demo_dirs: "all_profile_dirs [''r''] (dv_disk wipe_device) = [[''r'', ''.zkmsg-a''], [''r'', ''.zkmsg-b'']]"
  by (simp add: all_profile_dirs_def list_dir_def read_dir_def is_dir_def node_at_def two_profiles_def wipe_device_sel children_def
      profile_name_def strip_prefix_def PROFILE_PREFIX_def ARCHIVE_DIR_def)

lemma demo_accounts: "profile_account E (dv_disk wipe_device) [''r'', ''.zkmsg-a''] = None" "profile_account E (dv_disk wipe_device) [''r'', ''.zkmsg-b''] = None"
  by (simp_all add: profile_account_def load_config_def config_path_def read_bytes_def node_at_def wipe_device_sel two_profiles_def)

lemma demo_sncast: "sncast_accounts_path vault_env demo_places = Inr [''home'', ''.starknet_accounts'', ''starknet_open_zeppelin_accounts.json'']"
  by (simp add: sncast_accounts_path_def accounts_in_home_def demo_places_def)

lemma demo_owned: "owned_entries [''r''] (dv_disk wipe_device) = [[''r'', ''.zkmsg-a''], [''r'', ''.zkmsg-b'']]"
  unfolding owned_entries_def demo_dirs
  by (simp add: is_file_def entry_exists_def node_at_def wipe_device_sel two_profiles_def config_path_def TOR_DIR_def SETTINGS_FILE_def)

lemma demo_removal: "snd (remove_entries [[''r'', ''.zkmsg-a''], [''r'', ''.zkmsg-b'']] (dv_disk wipe_device)) = []"
  by (simp add: remove_dir_all_def is_dir_def node_at_def wipe_device_sel two_profiles_def drop_entries_def within_def)

lemma demo_wipe_keys: "snd (snd (wipe_keys vault_env d)) = []" "dv_disk (fst (wipe_keys vault_env d)) = dv_disk d"
  by (simp_all add: wipe_keys_def shred_all_def destroy_def sbind_def on_chain_def mem_delete_all_def mem_delete_def Let_def forget_keys_def lock_app_def)

lemma demo_panic: "\<exists>d' r. panic_wipe vault_env demo_places [''r''] wipe_device = (d', Inr r) \<and> pr_errors r = []"
proof -
  obtain d1 n e1 where k: "wipe_keys vault_env wipe_device = (d1, n, e1)" using prod_cases3 by blast
  then have d1: "e1 = []" "dv_disk d1 = dv_disk wipe_device" using demo_wipe_keys [of wipe_device] by simp_all
  obtain x e2 where x: "remove_entries [[''r'', ''.zkmsg-a''], [''r'', ''.zkmsg-b'']] (dv_disk wipe_device) = (x, e2)" by fastforce
  then have "e2 = []" using demo_removal by simp
  then have "wipe_files vault_env demo_places [''r''] [] (dv_disk d1) = (tidy_root [''r''] x, [], [])"
    using x d1 by (simp add: wipe_files_def demo_sncast demo_owned del: remove_entries.simps)
  then show ?thesis
    using k d1 by (simp add: panic_wipe_def demo_dirs demo_accounts List.map_filter_simps Let_def del: remove_entries.simps)
qed

lemma vault_keychain: "keychain (e_keys vault_env)"
  using mem.keychain_axioms by simp

theorem panic_wipe_leaves_nothing_witness:
  "\<exists>d'. fst (panic_wipe vault_env demo_places [''r''] wipe_device) = d' \<and> lock_load vault_env d' = (d', Inr None)
     \<and> node_at (dv_disk d') [''r'', ''.zkmsg-a'', ''keys.json''] = None \<and> mem_get KEYCHAIN_SERVICE zero_id (dv_chain d') = Inr None"
proof -
  obtain d' r where d': "panic_wipe vault_env demo_places [''r''] wipe_device = (d', Inr r)" "pr_errors r = []"
    using demo_panic by blast
  have "is_dir (dv_disk wipe_device) [''r'', ''.zkmsg-a'']" by (simp add: is_dir_def node_at_def wipe_device_sel two_profiles_def)
  then show ?thesis
    using panic_wipe_leaves_nothing [OF vault_keychain d'] d'(1) by (auto simp: demo_owned within_def)
qed

theorem panic_wipe_touches_nothing_else_witness:
  "mem_get ''mail'' ''me'' (dv_chain (fst (panic_wipe vault_env demo_places [''r''] wipe_device))) = Inr (Some (KeyBytes [1]))"
proof -
  obtain d' r where d': "panic_wipe vault_env demo_places [''r''] wipe_device = (d', Inr r)" using demo_panic by blast
  have "mem_get ''mail'' ''me'' (dv_chain d') = mem_get ''mail'' ''me'' (dv_chain wipe_device)"
    using panic_wipe_touches_nothing_else [OF vault_keychain d', THEN conjunct2, THEN conjunct2, THEN spec, THEN spec, of "''mail''" "''me''"]
    by (simp add: KEYCHAIN_SERVICE_def SERVICE_def)
  then show ?thesis using d' by (simp add: wipe_device_sel mem_get_def KEYCHAIN_SERVICE_def)
qed

theorem deleting_one_profile_leaves_the_others_witness:
  "let d' = fst (wipe_profile vault_env demo_places (\<lambda>p. []) [''r''] [''r'', ''.zkmsg-a''] True wipe_device)
   in node_at (dv_disk d') [''r'', ''.zkmsg-b'', ''vault.json''] = Some (Document (str_bytes zero_id))
     \<and> mem_get KEYCHAIN_SERVICE zero_id (dv_chain d') = Inr (Some (KeyBytes (replicate 32 7)))"
proof -
  obtain d' r where d': "wipe_profile vault_env demo_places (\<lambda>p. []) [''r''] [''r'', ''.zkmsg-a''] True wipe_device = (d', r)" by fastforce
  have i: "profile_key_id vault_env [''r'', ''.zkmsg-b''] (dv_disk wipe_device) = Inr (Some zero_id)"
    by (simp add: profile_key_id_Some node_at_def wipe_device_sel two_profiles_def VAULT_FILE_def bytes_str_bytes)
  have n: "sncast_accounts_path vault_env demo_places \<noteq> Inr [''r'', ''.zkmsg-b'', ''vault.json'']" by (simp add: demo_sncast)
  have ab: "[''r'', ''.zkmsg-a''] \<in> set (all_profile_dirs [''r''] (dv_disk wipe_device))" "[''r'', ''.zkmsg-b''] \<in> set (all_profile_dirs [''r''] (dv_disk wipe_device))"
    by (simp_all add: demo_dirs)
  have m: "dv_master wipe_device = None" by (simp add: wipe_device_def bare_device_def)
  have "node_at (dv_disk d') [''r'', ''.zkmsg-b'', ''vault.json''] = node_at (dv_disk wipe_device) [''r'', ''.zkmsg-b'', ''vault.json'']
     \<and> mem_get KEYCHAIN_SERVICE zero_id (dv_chain d') = mem_get KEYCHAIN_SERVICE zero_id (dv_chain wipe_device)"
    using deleting_one_profile_leaves_the_others [OF vault_keychain d' ab _ _ n i] m by (simp add: within_def Let_def)
  then show ?thesis using d' by (simp add: wipe_device_sel mem_get_def node_at_def two_profiles_def)
qed

section \<open>A ticket to move\<close>

text \<open>Wallets written as a number in unary after a zero byte: read back by counting.\<close>

definition state_code :: "ticket_state \<Rightarrow> (string + string option) + bool" where
  "state_code s = (case s of Reserved i \<Rightarrow> Inl (Inl i) | Spent t \<Rightarrow> Inl (Inr t) | Pending \<Rightarrow> Inr True | Unspent \<Rightarrow> Inr False)"

definition state_of_code :: "(string + string option) + bool \<Rightarrow> ticket_state" where
  "state_of_code c = (case c of Inl (Inl i) \<Rightarrow> Reserved i | Inl (Inr t) \<Rightarrow> Spent t | Inr b \<Rightarrow> if b then Pending else Unspent)"

definition wallet_code :: "wallet \<Rightarrow> string \<times> (string \<times> nat option \<times> string option \<times> ((string + string option) + bool)) list" where
  "wallet_code w = (wallet_store w, map (\<lambda>t. (secret t, index t, buy_tx t, state_code (state t))) (tickets w))"

definition wallet_of_code :: "string \<times> (string \<times> nat option \<times> string option \<times> ((string + string option) + bool)) list \<Rightarrow> wallet" where
  "wallet_of_code c = \<lparr>wallet_store = fst c, tickets = map (\<lambda>(s, i, b, t). \<lparr>secret = s, index = i, buy_tx = b, state = state_of_code t\<rparr>) (snd c)\<rparr>"

lemma state_code_inverse: "state_of_code (state_code s) = s"
  by (cases s) (simp_all add: state_code_def state_of_code_def)

lemma wallet_code_inverse: "wallet_of_code (wallet_code w) = w"
proof -
  have "map (\<lambda>t. \<lparr>secret = secret t, index = index t, buy_tx = buy_tx t, state = state t\<rparr>) ts = ts" for ts :: "ticket list"
    by (rule map_idI) simp
  then show ?thesis by (simp add: wallet_of_code_def wallet_code_def state_code_inverse comp_def)
qed

definition print_wallet :: "wallet \<Rightarrow> bytes" where
  "print_wallet w = 0 # replicate (to_nat (wallet_code w)) 1"

definition parse_wallet :: "bytes \<Rightarrow> wallet option" where
  "parse_wallet b = Some (wallet_of_code (from_nat (length b - 1)))"

lemma parse_print_wallet: "parse_wallet (print_wallet w) = Some w"
  by (simp add: parse_wallet_def print_wallet_def wallet_code_inverse)

definition store_config :: config where
  "store_config = \<lparr>rpc_url = [], account = [], store = ''0x1'', burner = False, cfg_prover_rpc_url = None, publish_via_rpc = None, publish_rpc_url = None\<rparr>"

definition move_env :: "memory env" where
  "move_env = vault_env\<lparr>e_serde := demo_serde\<lparr>sd_config := (\<lambda>b. Some store_config), sd_wallet_print := print_wallet, sd_wallet_parse := parse_wallet\<rparr>\<rparr>"

definition one_ticket :: wallet where
  "one_ticket = \<lparr>wallet_store = ''0x1'', tickets = [\<lparr>secret = ''0x5'', index = Some 3, buy_tx = None, state = Unspent\<rparr>]\<rparr>"

definition two_homes :: "(path \<times> node) list" where
  "two_homes = [([], Dir), ([''a''], Dir), ([''a'', ''config.json''], Document []), ([''a'', ''tickets.json''], Document (print_wallet one_ticket)),
     ([''b''], Dir), ([''b'', ''config.json''], Document []), ([''b'', ''vault.json''], Document (str_bytes zero_id))]"

definition move_device :: "memory device" where
  "move_device = keyed_device (replicate 32 7) two_homes"

definition move_draws :: "path \<Rightarrow> memory draws \<times> bytes" where
  "move_draws home = (vault_draws, replicate 12 3)"

lemma move_env_sel [simp]: "e_crates move_env = demo_crates" "e_keys move_env = memory_store" "e_ns move_env = None"
  "sd_vault_print (e_serde move_env) = str_bytes" "sd_vault_parse (e_serde move_env) = (\<lambda>b. Some (bytes_str b))"
  "sd_config (e_serde move_env) = (\<lambda>b. Some store_config)" "sd_wallet_print (e_serde move_env) = print_wallet" "sd_wallet_parse (e_serde move_env) = parse_wallet"
  by (simp_all add: move_env_def)

lemma store_config_sel [simp]: "store store_config = ''0x1''"
  by (simp add: store_config_def)

lemma demo_felt_1: "felt_of_hex demo_crates ''0x1'' = Some 1" and demo_felt_5: "felt_of_hex demo_crates ''0x5'' = Some 5"
  by (simp_all add: demo_crates_def demo_felt_of_hex_def hex_digits_def STARK_PRIME_def)

lemma demo_load_source: "load_home_wallet move_env nz [''a''] ''0x1'' move_device = (move_device, Inr one_ticket)"
proof -
  have "vault_read move_env n [''a''] [''a'', ''tickets.json''] move_device = (move_device, Inr (print_wallet one_ticket))" for n
    by (simp add: vault_read_def sbind_def read_bytes_def move_device_def keyed_device_def node_at_def two_homes_def is_sealed_def MAGIC_def
        str_bytes_def print_wallet_def)
  then show ?thesis
    by (simp add: load_home_wallet_def tickets_path_def sbind_def file_exists_def is_file_def node_at_def move_device_def keyed_device_def two_homes_def
        parse_print_wallet same_address_def one_ticket_def demo_felt_1)
qed

lemma demo_load_target: "load_home_wallet move_env nz [''b''] ''0x1'' move_device = (move_device, Inr \<lparr>wallet_store = ''0x1'', tickets = []\<rparr>)"
  by (simp add: load_home_wallet_def tickets_path_def sbind_def file_exists_def is_file_def is_dir_def node_at_def move_device_def keyed_device_def two_homes_def)

lemma demo_save_target: "snd (save_home_wallet move_env move_draws [''b''] w move_device) = Inr ()"
proof -
  have "profile_key move_env n [''b''] move_device = (move_device, Inr (Some (replicate 32 7)))" for n
    by (rule ready_profile_key)
      (simp add: key_ready_def profile_key_id_Some move_device_def keyed_device_def node_at_def two_homes_def VAULT_FILE_def bytes_str_bytes)
  then show ?thesis
    by (simp add: save_home_wallet_def vault_write_def profile_key_or_create_def sbind_def move_draws_def tickets_path_def vault_aad_def within_def
        move_device_def on_disk_keyed create_dir_all_def is_dir_def node_at_def two_homes_def keyed_disk write_bytes_def)
qed

lemma demo_move: "snd (move_tickets move_env (\<lambda>p. []) move_draws [''a''] [''b''] move_device) = Inr \<lparr>tm_moved = 1, tm_already_there = 0, tm_left_in_flight = 0\<rparr>"
proof -
  obtain d' where s: "save_home_wallet move_env move_draws [''b''] \<lparr>wallet_store = ''0x1'', tickets = tickets one_ticket\<rparr> move_device = (d', Inr ())"
    using demo_save_target by (metis prod.collapse)
  have c: "load_config move_env home (dv_disk move_device) = Inr store_config" if "home \<in> {[''a''], [''b'']}" for home
    using that by (auto simp: load_config_def config_path_def read_bytes_def node_at_def move_device_def keyed_device_def two_homes_def)
  have "same_address demo_crates ''0x1'' ''0x1''" by (simp add: same_address_def demo_felt_1)
  moreover have "classify_tickets move_env nz [''a''] one_ticket move_device = (move_device, Inr ([0], 0))" for nz
    by (simp add: classify_tickets_def one_ticket_def sbind_def)
  moreover have "move_each demo_crates (tickets one_ticket) [0] ([], r) = Inr (tickets one_ticket, r\<lparr>tm_moved := tm_moved r + 1\<rparr>)" for r
    by (simp add: one_ticket_def demo_felt_5 holds_secret_def moved_ticket_def)
  ultimately show ?thesis
    using c s by (simp add: move_tickets_def sbind_def demo_load_source demo_load_target del: move_each.simps)
qed

theorem moved_tickets_are_neither_lost_nor_doubled_witness:
  "\<exists>d' w. fst (move_tickets move_env (\<lambda>p. []) move_draws [''a''] [''b''] move_device) = d'
     \<and> load_home_wallet move_env (\<lambda>p. []) [''b''] ''0x1'' d' = (d', Inr w) \<and> tickets w \<noteq> []"
proof -
  obtain d' where d': "move_tickets move_env (\<lambda>p. []) move_draws [''a''] [''b''] move_device = (d', Inr \<lparr>tm_moved = 1, tm_already_there = 0, tm_left_in_flight = 0\<rparr>)"
    using demo_move by (metis prod.collapse)
  have laws: "gcm_ok (e_crates move_env)" "serde_ok (e_serde move_env)" "others_ok move_env (fst (move_draws [''b''])) [''b'']"
    "length (snd (move_draws [''b''])) = VAULT_NONCE_LEN"
    "\<And>w. sd_wallet_parse (e_serde move_env) (sd_wallet_print (e_serde move_env) w) = Some w"
    "\<And>x. node_at (dv_disk (dr_meanwhile (fst (move_draws [''b''])) x)) (tickets_path [''a'']) = node_at (dv_disk x) (tickets_path [''a''])"
    by (simp_all add: demo_gcm_ok serde_ok_def others_ok_def move_draws_def VAULT_NONCE_LEN_def parse_print_wallet)
  have c: "load_config move_env [''b''] (dv_disk move_device) = Inr store_config"
    by (simp add: load_config_def config_path_def read_bytes_def node_at_def move_device_def keyed_device_def two_homes_def)
  obtain target :: wallet and added where "load_home_wallet move_env (\<lambda>p. []) [''b''] ''0x1'' d' = (d', Inr (target\<lparr>tickets := tickets target @ added\<rparr>))"
    and "length added = 1"
    using moved_tickets_are_neither_lost_nor_doubled [OF laws d'] c by auto
  then show ?thesis using d' by (intro exI [of _ d'] exI [of _ "target\<lparr>tickets := tickets target @ added\<rparr>"]) auto
qed

end
