(* ===== verification/Inbox.thy ===== *)
theory Inbox
  imports Chain Registry
begin

text \<open>
  \<^verbatim>\<open>core/src/inbox.rs\<close>: the messages a profile reads off the store's \<^verbatim>\<open>MessageSent\<close> events. An
  event that is not for the profile, or that carries its tag over other content, leaves no trace
  in what is shown. \<^verbatim>\<open>String::from_utf8_lossy\<close> is written out on bytes.
\<close>

section \<open>from_utf8_lossy\<close>

text \<open>The bytes that may follow a leading byte, as ranges; \<open>None\<close> for a byte that leads nothing.\<close>

definition utf8_follow :: "byte \<Rightarrow> (nat \<times> nat) list option" where
  "utf8_follow b =
     (let n = unat b; cont = (0x80, 0xBF)
      in if n < 0x80 then Some []
         else if 0xC2 \<le> n \<and> n \<le> 0xDF then Some [cont]
         else if n = 0xE0 then Some [(0xA0, 0xBF), cont]
         else if n = 0xED then Some [(0x80, 0x9F), cont]
         else if 0xE1 \<le> n \<and> n \<le> 0xEF then Some [cont, cont]
         else if n = 0xF0 then Some [(0x90, 0xBF), cont, cont]
         else if 0xF1 \<le> n \<and> n \<le> 0xF3 then Some [cont, cont, cont]
         else if n = 0xF4 then Some [(0x80, 0x8F), cont, cont]
         else None)"

fun utf8_run :: "(nat \<times> nat) list \<Rightarrow> bytes \<Rightarrow> nat" where
  "utf8_run ((lo, hi) # rs) (b # bs) = (if lo \<le> unat b \<and> unat b \<le> hi then Suc (utf8_run rs bs) else 0)"
| "utf8_run _ _ = 0"

definition REPLACEMENT :: bytes where "REPLACEMENT = [0xEF, 0xBF, 0xBD]"

function utf8_lossy :: "bytes \<Rightarrow> bytes" where
  "utf8_lossy [] = []"
| "utf8_lossy (b # bs) =
     (case utf8_follow b of
        None \<Rightarrow> REPLACEMENT @ utf8_lossy bs
      | Some rs \<Rightarrow>
          let n = utf8_run rs bs
          in (if n = length rs then b # take n bs else REPLACEMENT) @ utf8_lossy (drop n bs))"
  by pat_completeness auto
termination
  by (relation "measure length") auto

function utf8_valid :: "bytes \<Rightarrow> bool" where
  "utf8_valid [] = True"
| "utf8_valid (b # bs) =
     (case utf8_follow b of
        None \<Rightarrow> False
      | Some rs \<Rightarrow> utf8_run rs bs = length rs \<and> utf8_valid (drop (length rs) bs))"
  by pat_completeness auto
termination
  by (relation "measure length") auto

declare utf8_lossy.simps [simp del] utf8_valid.simps [simp del]

section \<open>Envelopes\<close>

record received =
  rm_nonce :: nat
  rm_commitment :: string
  rm_text :: string

record envelope =
  env_commitment_hex :: string
  env_commitment :: felt
  env_ephemeral :: felt
  env_nonce :: nat
  env_content :: bytes

definition read_envelope :: "crates \<Rightarrow> event \<Rightarrow> envelope option res" where
  "read_envelope C ev =
     (case ev of (keys, data) \<Rightarrow>
        if 1 < length keys \<and> 5 \<le> length data then
          rbind (rmap (felt_from_hex C) (drop 2 data)) (\<lambda>fs.
          rbind (felt_from_hex C (keys ! 1)) (\<lambda>com.
          rbind (felt_from_hex C (data ! 0)) (\<lambda>eph.
          rbind (rbind (felt_from_hex C (data ! 1)) felt_to_u64) (\<lambda>nonce.
          rbind (bytearray_decode fs) (\<lambda>(cont, _).
          Inr (Some \<lparr>env_commitment_hex = keys ! 1, env_commitment = com, env_ephemeral = eph, env_nonce = nonce, env_content = cont\<rparr>))))))
        else Inr None)"

definition read_envelopes :: "crates \<Rightarrow> event list \<Rightarrow> envelope list res" where
  "read_envelopes C evs = rbind (rmap (read_envelope C) evs) (\<lambda>es. Inr (List.map_filter id es))"

text \<open>\<open>None\<close> when walking the node's pages does not end, as in \<open>events\<close>.\<close>

definition envelopes :: "crates \<Rightarrow> rpc \<Rightarrow> string \<Rightarrow> envelope list res option" where
  "envelopes C rpc st =
     map_option (\<lambda>(_, evs). rbind evs (read_envelopes C))
       (events rpc st (felt_to_hex C (snkeccak C ''MessageSent'')) (store_deploy_block C st))"

section \<open>Scanning\<close>

definition shown :: "envelope \<Rightarrow> string \<Rightarrow> received" where
  "shown env txt = \<lparr>rm_nonce = env_nonce env, rm_commitment = env_commitment_hex env, rm_text = txt\<rparr>"

definition open_all :: "(envelope \<Rightarrow> string option) \<Rightarrow> envelope list \<Rightarrow> received list" where
  "open_all op envs = sort_key rm_nonce (List.map_filter (\<lambda>env. map_option (shown env) (op env)) envs)"

definition open_v4 :: "crates \<Rightarrow> felt \<Rightarrow> bytes \<Rightarrow> envelope \<Rightarrow> string option" where
  "open_v4 C sp dk env =
     (case receive_v4 C sp dk (env_commitment env) (env_ephemeral env) (env_content env) of
        Some (Inr bs) \<Rightarrow> Some (bytes_str (utf8_lossy bs))
      | _ \<Rightarrow> None)"

definition scan_v4 :: "crates \<Rightarrow> rpc \<Rightarrow> string \<Rightarrow> felt \<Rightarrow> bytes \<Rightarrow> received list res option" where
  "scan_v4 C rpc st sp dk =
     map_option (\<lambda>envs. rbind envs (\<lambda>envs. Inr (open_all (open_v4 C sp dk) envs))) (envelopes C rpc st)"

text \<open>\<open>show_err\<close> prints an error.\<close>

definition open_v2_text :: "crates \<Rightarrow> (err \<Rightarrow> string) \<Rightarrow> felt \<Rightarrow> bytes \<Rightarrow> envelope \<Rightarrow> string option" where
  "open_v2_text C show_err sp dk env =
     (case receive_v2 C sp dk (env_commitment env) (env_ephemeral env) (env_content env) of
        Some (Inr bs) \<Rightarrow> Some (bytes_str (utf8_lossy bs))
      | Some (Inl e) \<Rightarrow> Some (''<matched but undecryptable: '' @ show_err e @ ''>'')
      | None \<Rightarrow> None)"

definition scan_v2 :: "crates \<Rightarrow> (err \<Rightarrow> string) \<Rightarrow> rpc \<Rightarrow> string \<Rightarrow> felt \<Rightarrow> bytes \<Rightarrow> received list res option" where
  "scan_v2 C show_err rpc st sp dk =
     map_option (\<lambda>envs. rbind envs (\<lambda>envs. Inr (open_all (open_v2_text C show_err sp dk) envs))) (envelopes C rpc st)"

definition scan_with_keys :: "crates \<Rightarrow> rpc \<Rightarrow> string \<Rightarrow> profile_keys \<Rightarrow> received list res option" where
  "scan_with_keys C rpc st keys =
     (if \<not> is_current_store C st then Some (Inl (Tickets WrongStore))
      else case keys_kem_keypair C keys of
             Inl e \<Rightarrow> Some (Inl e)
           | Inr (dk, _) \<Rightarrow>
               (case keys_scan_priv_felt C keys of
                  Inl e \<Rightarrow> Some (Inl e)
                | Inr priv \<Rightarrow> scan_v4 C rpc st priv dk))"

section \<open>Lemmas\<close>

lemma utf8_run_le: "utf8_run rs bs \<le> length rs"
  by (induction rs bs rule: utf8_run.induct) auto

lemma utf8_lossy_valid: "utf8_valid bs \<Longrightarrow> utf8_lossy bs = bs"
proof (induction bs rule: utf8_valid.induct)
  case (2 b bs)
  then obtain rs where rs: "utf8_follow b = Some rs" "utf8_run rs bs = length rs" "utf8_valid (drop (length rs) bs)"
    by (auto simp: utf8_valid.simps split: option.splits)
  then show ?case using 2(1) [OF rs(1)] by (simp add: utf8_lossy.simps)
qed (simp add: utf8_lossy.simps)

lemma ascii_utf8: "ascii s \<Longrightarrow> utf8_valid (str_bytes s)"
proof (induction s)
  case (Cons c s)
  have "unat (of_char c :: byte) = (of_char c :: nat)"
    by (metis of_char_mod_256 of_nat_of_char unat_of_nat_byte)
  then have "unat (of_char c :: byte) < 0x80" using Cons.prems by (simp add: ascii_def)
  then show ?case using Cons by (simp add: str_bytes_def utf8_valid.simps utf8_follow_def ascii_def)
qed (simp add: str_bytes_def utf8_valid.simps)

lemma open_all_set: "m \<in> set (open_all op envs) \<longleftrightarrow> (\<exists>env \<in> set envs. \<exists>t. op env = Some t \<and> m = shown env t)"
proof -
  have "set (List.map_filter f xs) = {y. \<exists>x \<in> set xs. f x = Some y}" for f :: "envelope \<Rightarrow> received option" and xs
    by (force simp: List.map_filter_def)
  then show ?thesis by (auto simp: open_all_def)
qed

lemma open_all_sorted: "sorted (map rm_nonce (open_all op envs))"
  by (simp add: open_all_def)

lemma open_all_closed: "open_all op (filter (\<lambda>env. op env \<noteq> None) envs) = open_all op envs"
  by (simp add: open_all_def List.map_filter_def filter_filter [symmetric] conj_commute)

lemma read_envelopes_readable:
  assumes "\<forall>ev \<in> set evs. is_ok (read_envelope C ev)"
  shows "\<exists>es. read_envelopes C evs = Inr es \<and> (\<forall>env. env \<in> set es \<longleftrightarrow> (\<exists>ev \<in> set evs. read_envelope C ev = Inr (Some env)))"
proof -
  define f where "f ev = projr (read_envelope C ev)" for ev
  have f: "read_envelope C ev = Inr (f ev)" if "ev \<in> set evs" for ev
    using assms that unfolding f_def by (cases "read_envelope C ev") force+
  have "read_envelopes C evs = Inr (List.map_filter id (map f evs))"
    using rmap_Inr_map [of evs "read_envelope C" f] f by (simp add: read_envelopes_def)
  moreover have "env \<in> set (List.map_filter id (map f evs)) \<longleftrightarrow> (\<exists>ev \<in> set evs. read_envelope C ev = Inr (Some env))" for env
    using f by (force simp: List.map_filter_def)
  ultimately show ?thesis by blast
qed

text \<open>The event the store emits for a sealed message.\<close>

definition message_event :: "crates \<Rightarrow> felt \<Rightarrow> nat \<Rightarrow> sealed_v2 \<Rightarrow> event" where
  "message_event C key0 nonce sd =
     ([felt_to_hex C key0, felt_to_hex C (commitment sd)],
      map (felt_to_hex C) ([sealed_ephemeral_pub sd, nonce] @ bytearray_felts (content sd)))"

lemma read_message_event:
  assumes C: "felt_hex_ok C" and ok: "felt_ok (commitment sd)" "felt_ok (sealed_ephemeral_pub sd)"
    and n: "nonce < 2 ^ 64" and len: "length (content sd) < 2 ^ 64"
  shows "read_envelope C (message_event C key0 nonce sd) = Inr (Some
     \<lparr>env_commitment_hex = felt_to_hex C (commitment sd), env_commitment = commitment sd,
      env_ephemeral = sealed_ephemeral_pub sd, env_nonce = nonce, env_content = content sd\<rparr>)"
proof -
  have parse: "rmap (felt_from_hex C) (map (felt_to_hex C) fs) = Inr fs" if "\<And>f. f \<in> set fs \<Longrightarrow> felt_ok f" for fs
    using that by (induction fs) (auto simp: C)
  have p: "rmap (felt_from_hex C) (map (felt_to_hex C) (bytearray_felts (content sd))) = Inr (bytearray_felts (content sd))"
    by (rule parse) (rule bytearray_felts_ok [OF len])
  have d: "bytearray_decode (bytearray_felts (content sd)) = Inr (content sd, length (bytearray_felts (content sd)))"
    using bytearray.fdec_fenc [of "content sd" "[]"] len by simp
  show ?thesis
    using p d u64.dec_enc [OF n] ok u64_felt_ok [OF n]
    by (simp add: read_envelope_def message_event_def length_bytearray_felts C del: map_map)
qed

section \<open>Properties\<close>

text \<open>C25: A message reaches its recipient's inbox: when a sealed v4 message is among the pool's
  events, in whatever pages the node serves them and between whatever other readable events, the
  recipient's scan ends and shows it with the exact text and nonce. What the scan shows is sorted
  by nonce and is exactly what this profile's keys open: a copy of a message's tag over other
  content leaves no trace.\<close>

theorem sent_message_is_shown:
  assumes laws: "felt_hex_ok C" "ecdh_ok C" "kem_ok C" "gcm_ok C" "hkdf_ok C"
    and sender: "length nonce = NONCE_LEN" "scan_keygen C draws = Some (e, E)" "utf8_valid p" "length p \<le> 4094"
    and peer: "length (kem_ek C seed) = KEM_EK_LEN" "kem_encap C (kem_ek C seed) m \<noteq> None"
      "ec_shared_x C e (ec_mul_gen_x C sp) \<noteq> None"
    and sent: "send_v4 C draws m nonce (ec_mul_gen_x C sp) (kem_ek C seed) p = Some (Inr sd)"
    and keys: "is_current_store C st" "keys_kem_seed_bytes C k = Inr seed" "keys_scan_priv_felt C k = Inr sp"
    and node: "serves_pages rpc (event_filter st key0 SEPOLIA_POOL_V4_DEPLOY_BLOCK None) tok pages" "key0 = felt_to_hex C (snkeccak C ''MessageSent'')"
    and pool: "message_event C sel i sd \<in> set (concat pages)" "i < 2 ^ 64"
      "\<forall>ev \<in> set (concat pages). is_ok (read_envelope C ev)"
  shows "\<exists>msgs. scan_with_keys C rpc st k = Some (Inr msgs)
     \<and> \<lparr>rm_nonce = i, rm_commitment = felt_to_hex C (commitment sd), rm_text = bytes_str p\<rparr> \<in> set msgs
     \<and> sorted (map rm_nonce msgs)
     \<and> (\<forall>msg. msg \<in> set msgs \<longleftrightarrow> (\<exists>ev env bs. ev \<in> set (concat pages) \<and> read_envelope C ev = Inr (Some env)
          \<and> receive_v4 C sp seed (env_commitment env) (env_ephemeral env) (env_content env) = Some (Inr bs)
          \<and> msg = shown env (bytes_str (utf8_lossy bs))))"
proof -
  obtain sd' where sd': "send_v4 C draws m nonce (ec_mul_gen_x C sp) (kem_ek C seed) p = Some (Inr sd')"
    "receive_v4 C sp seed (commitment sd') (sealed_ephemeral_pub sd') (content sd') = Some (Inr p)"
    "length (content sd') = (if length p \<le> 254 then 1372 else if length p \<le> 1022 then 2140 else 5212)"
    "commitment sd' < 2 ^ 248" "sealed_ephemeral_pub sd' = ec_mul_gen_x C e"
    using sent_v4_is_received [OF laws(2-5) sender(1,2) peer sender(4)] by blast
  then have sd: "receive_v4 C sp seed (commitment sd) (sealed_ephemeral_pub sd) (content sd) = Some (Inr p)"
    "length (content sd) < 2 ^ 64" "felt_ok (commitment sd)" "felt_ok (sealed_ephemeral_pub sd)"
    using sent laws(2) by (auto simp: felt_ok_def STARK_PRIME_def ecdh_ok_def ec_mul_gen_x_def split: if_splits)
  let ?env = "\<lparr>env_commitment_hex = felt_to_hex C (commitment sd), env_commitment = commitment sd,
      env_ephemeral = sealed_ephemeral_pub sd, env_nonce = i, env_content = content sd\<rparr>"
  have env: "read_envelope C (message_event C sel i sd) = Inr (Some ?env)"
    by (rule read_message_event [OF laws(1) sd(3,4) pool(2) sd(2)])
  obtain es where es: "read_envelopes C (concat pages) = Inr es"
    "\<And>env. env \<in> set es \<longleftrightarrow> (\<exists>ev \<in> set (concat pages). read_envelope C ev = Inr (Some env))"
    using read_envelopes_readable [OF pool(3)] by blast
  have "store_deploy_block C st = SEPOLIA_POOL_V4_DEPLOY_BLOCK" using keys(1) by (simp add: store_deploy_block_def)
  then have "envelopes C rpc st = Some (Inr es)"
    unfolding envelopes_def events_def node(2) [symmetric] by (simp add: all_events_walked [OF node(1)] es(1))
  then have scan: "scan_with_keys C rpc st k = Some (Inr (open_all (open_v4 C sp seed) es))"
    using keys by (simp add: scan_with_keys_def scan_v4_def keys_kem_keypair_def kem_keygen_from_seed_def)
  have line: "open_v4 C sp seed env = Some t \<longleftrightarrow>
      (\<exists>bs. receive_v4 C sp seed (env_commitment env) (env_ephemeral env) (env_content env) = Some (Inr bs) \<and> t = bytes_str (utf8_lossy bs))" for env t
    by (auto simp: open_v4_def split: option.splits sum.splits)
  have "open_v4 C sp seed ?env = Some (bytes_str p)" using sd(1) utf8_lossy_valid [OF sender(3)] by (simp add: line)
  moreover have "?env \<in> set es" using env pool(1) es(2) by blast
  ultimately have shown_line: "\<lparr>rm_nonce = i, rm_commitment = felt_to_hex C (commitment sd), rm_text = bytes_str p\<rparr> \<in> set (open_all (open_v4 C sp seed) es)"
    by (force simp: open_all_set shown_def)
  have "msg \<in> set (open_all (open_v4 C sp seed) es) \<longleftrightarrow> (\<exists>ev env bs. ev \<in> set (concat pages) \<and> read_envelope C ev = Inr (Some env)
      \<and> receive_v4 C sp seed (env_commitment env) (env_ephemeral env) (env_content env) = Some (Inr bs)
      \<and> msg = shown env (bytes_str (utf8_lossy bs)))" for msg
    unfolding open_all_set line es(2) Bex_def by blast
  then show ?thesis using scan shown_line open_all_sorted by blast
qed

definition one_page :: "event \<Rightarrow> rpc" where
  "one_page ev m q = Inr (JObj [(''events'', JArr [JObj [(''keys'', JArr (map JStr (fst ev))), (''data'', JArr (map JStr (snd ev)))]])])"

lemma one_page_serves: "serves_pages (one_page ev) flt tok [[ev]]"
  by (cases ev) (simp add: serves_pages_def one_page_def page_events_def)

lemma demo_current_store: "is_current_store demo_crates SEPOLIA_POOL_V4"
  unfolding is_current_store_def SEPOLIA_POOL_V4_def same_address_def
  by (simp add: demo_crates_def demo_felt_of_hex_def hex_digits_def STARK_PRIME_def)

definition inbox_keys :: profile_keys where
  "inbox_keys = \<lparr>scan_priv = hex0x 9, keys_scan_pub = hex0x 9, keys_handle = None, keys_leaf_index = None,
     kem_seed = Some (kem_seed_hex demo_crates (replicate 64 7)), member_secret = None\<rparr>"

theorem sent_message_is_shown_witness:
  "\<exists>sd msgs. send_v4 demo_crates [be_bytes 32 0, be_bytes 32 5] (replicate 32 3) (replicate 12 4)
       (ec_mul_gen_x demo_crates 9) (kem_ek demo_crates (replicate 64 7)) (str_bytes ''hi'') = Some (Inr sd)
     \<and> scan_with_keys demo_crates (one_page (message_event demo_crates 1 7 sd)) SEPOLIA_POOL_V4 inbox_keys = Some (Inr msgs)
     \<and> \<lparr>rm_nonce = 7, rm_commitment = felt_to_hex demo_crates (commitment sd), rm_text = ''hi''\<rparr> \<in> set msgs"
proof -
  have z: "felt_from_be (be_bytes 32 k) = k" if "k < 100" for k
    using that by (simp add: felt_from_be_def be_nat_be_bytes STARK_PRIME_def)
  have draw: "scan_keygen demo_crates [be_bytes 32 0, be_bytes 32 5] = Some (5, ec_mul_gen_x demo_crates 5)"
    by (simp add: z demo_crates_def STARK_PRIME_def del: be_bytes.simps)
  have peer: "length (kem_ek demo_crates (replicate 64 7)) = KEM_EK_LEN"
    "kem_encap demo_crates (kem_ek demo_crates (replicate 64 7)) (replicate 32 3) \<noteq> None"
    "ec_shared_x demo_crates 5 (ec_mul_gen_x demo_crates 9) \<noteq> None"
    by (simp_all add: demo_crates_def KEM_EK_LEN_def)
  have n: "length (replicate 12 (4 :: byte)) = NONCE_LEN" and v: "utf8_valid (str_bytes ''hi'')" "length (str_bytes ''hi'') \<le> 4094"
    by (simp_all add: NONCE_LEN_def ascii_utf8 ascii_def)
  obtain sd where sd: "send_v4 demo_crates [be_bytes 32 0, be_bytes 32 5] (replicate 32 3) (replicate 12 4)
       (ec_mul_gen_x demo_crates 9) (kem_ek demo_crates (replicate 64 7)) (str_bytes ''hi'') = Some (Inr sd)"
    and c: "commitment sd < 2 ^ 248" "sealed_ephemeral_pub sd = ec_mul_gen_x demo_crates 5" "length (content sd) = 1372"
    using sent_v4_is_received [OF demo_ecdh_ok demo_kem_ok demo_gcm_ok demo_hkdf_ok n draw peer v(2)] by auto
  let ?ev = "message_event demo_crates 1 7 sd"
  have "is_ok (read_envelope demo_crates ?ev)"
  proof -
    have "felt_ok (commitment sd)" "felt_ok (sealed_ephemeral_pub sd)"
      using c demo_ecdh_ok by (simp_all add: felt_ok_def STARK_PRIME_def ecdh_ok_def ec_mul_gen_x_def)
    from read_message_event [OF demo_felt_hex_ok this, of 7 1] c(3) show ?thesis by simp
  qed
  then have pool: "\<forall>ev \<in> set (concat [[?ev]]). is_ok (read_envelope demo_crates ev)" "?ev \<in> set (concat [[?ev]])" by simp_all
  have k: "keys_kem_seed_bytes demo_crates inbox_keys = Inr (replicate 64 7)" "keys_scan_priv_felt demo_crates inbox_keys = Inr 9"
    using demo_felt_of_hex0x [of 9] hex_bytes_print [OF demo_hex_ok]
    by (simp_all add: keys_kem_seed_bytes_def keys_scan_priv_felt_def inbox_keys_def kem_seed_hex_def KEM_SEED_LEN_def felt_ok_def STARK_PRIME_def)
      (simp add: demo_crates_def)
  from sent_message_is_shown [OF demo_felt_hex_ok demo_ecdh_ok demo_kem_ok demo_gcm_ok demo_hkdf_ok n draw v peer sd demo_current_store k one_page_serves refl pool(2) _ pool(1)]
  show ?thesis using sd by force
qed

end
