(* ===== verification/App.thy ===== *)
theory App
  imports Keychain Inbox Invoke Virtual_Send
begin

text \<open>
  \<^verbatim>\<open>core/src/app.rs\<close>: what a user does besides sending. An action is a step on a profile's files
  (\<open>profile_home\<close>, parsed) and on the log of the transactions it asked the network for. Every
  entry of the log holds the keys and the wallet that were on disk when the transaction was
  handed over: the code's rule is that nothing a transaction makes real may exist in memory only.
  The answers of the chain, the random draws and the outcome of each file operation are
  arguments.
\<close>

section \<open>A profile's files\<close>

datatype tx_request = Signed string "call list" tx_kind "profile_keys stored" "wallet stored"

record profile_home =
  ph_config :: "config stored"
  ph_keys :: "profile_keys stored"
  ph_wallet :: "wallet stored"
  ph_quota :: "quota_log stored"
  ph_inbox :: "string stored"
  ph_aside :: "(string \<times> wallet) list"
  ph_log :: "tx_request list"

definition load_cfg :: "io \<Rightarrow> (profile_home, config) st" where
  "load_cfg io h = (h, rbind (of_opt (File Missing) (ph_config h)) (read_file io))"

definition save_cfg :: "io \<Rightarrow> config \<Rightarrow> (profile_home, unit) st" where
  "save_cfg io c h = (case write_file io c (ph_config h) of (f, r) \<Rightarrow> (h\<lparr>ph_config := f\<rparr>, r))"

definition on_keys :: "(profile_keys stored \<Rightarrow> profile_keys stored \<times> 'a res) \<Rightarrow> (profile_home, 'a) st" where
  "on_keys m h = (case m (ph_keys h) of (f, r) \<Rightarrow> (h\<lparr>ph_keys := f\<rparr>, r))"

definition read_keys :: "io \<Rightarrow> (profile_home, profile_keys) st" where
  "read_keys io h = (h, load_keys io (ph_keys h))"

definition load_wallet :: "crates \<Rightarrow> io \<Rightarrow> string \<Rightarrow> (profile_home, wallet) st" where
  "load_wallet C io st h = (h, wallet_load C io st (ph_wallet h))"

definition save_wallet :: "io \<Rightarrow> wallet \<Rightarrow> (profile_home, unit) st" where
  "save_wallet io w h = (case wallet_save io w (ph_wallet h) of (f, r) \<Rightarrow> (h\<lparr>ph_wallet := f\<rparr>, r))"

section \<open>The member's own transactions\<close>

record node_answers =
  nd_rpc :: rpc
  nd_accounts :: json
  nd_receipt :: "json res"

text \<open>\<^verbatim>\<open>account_tx::send\<close>; \<open>nd_receipt\<close> is what \<open>wait_receipt\<close> came to.\<close>

definition account_send :: "crates \<Rightarrow> node_answers \<Rightarrow> string \<Rightarrow> call list \<Rightarrow> tx_kind \<Rightarrow> string res" where
  "account_send C N acct calls kind =
     rbind (account_submit C (nd_rpc N) (nd_accounts N) acct calls kind) (\<lambda>h.
     rbind (nd_receipt N) (\<lambda>_. Inr h))"

definition send_tx :: "crates \<Rightarrow> node_answers \<Rightarrow> string \<Rightarrow> call list \<Rightarrow> tx_kind \<Rightarrow> (profile_home, string) st" where
  "send_tx C N acct calls kind =
     sbind (smodify (\<lambda>h. h\<lparr>ph_log := ph_log h @ [Signed acct calls kind (ph_keys h) (ph_wallet h)]\<rparr>)) (\<lambda>_.
     slift (account_send C N acct calls kind))"

section \<open>Starting a profile\<close>

definition SEPOLIA_RPC_DEFAULT :: string where
  "SEPOLIA_RPC_DEFAULT = ''https://starknet-sepolia-rpc.publicnode.com''"

definition STRK_TOKEN :: string where
  "STRK_TOKEN = ''0x04718f5a0fc34cc1af16a1cdee98ffb20c31f5cd61d6ab07201858f4287c938d''"

definition default_sepolia :: config where
  "default_sepolia = \<lparr>rpc_url = SEPOLIA_RPC_DEFAULT, account = ''funded-deployer'', store = SEPOLIA_POOL_V4, burner = False,
     cfg_prover_rpc_url = None, publish_via_rpc = None, publish_rpc_url = None\<rparr>"

text \<open>\<open>fresh\<close>: what the generators return (scan pair, KEM seed, membership secret).\<close>

type_synonym fresh_keys = "(felt \<times> felt) \<times> bytes \<times> bytes"

definition new_keys :: "crates \<Rightarrow> fresh_keys \<Rightarrow> profile_keys" where
  "new_keys C fresh =
     (case fresh of ((priv, pub), seed, ms) \<Rightarrow>
       \<lparr>scan_priv = felt_to_hex C priv, keys_scan_pub = felt_to_hex C pub, keys_handle = None, keys_leaf_index = None,
        kem_seed = Some (kem_seed_hex C seed), member_secret = Some (member_secret_hex C ms)\<rparr>)"

text \<open>\<open>chmod\<close>: setting the directory's permissions.\<close>

definition init_identity :: "crates \<Rightarrow> io \<times> unit res \<times> io \<Rightarrow> fresh_keys \<Rightarrow> string \<Rightarrow> string option \<Rightarrow> (profile_home, felt) st" where
  "init_identity C ios fresh acct st =
     (case ios of (kio, chmod, cio) \<Rightarrow>
       sbind (on_keys (save_new_keys kio (new_keys C fresh))) (\<lambda>_.
       sbind (slift chmod) (\<lambda>_.
       sbind (save_cfg cio (default_sepolia\<lparr>account := acct, store := (case st of Some s \<Rightarrow> s | None \<Rightarrow> store default_sepolia)\<rparr>)) (\<lambda>_.
       sret (snd (fst fresh))))))"

section \<open>Registering\<close>

datatype register_outcome = AlreadyRegistered nat | Registered string nat

definition is_unknown_handle :: "crates \<Rightarrow> string \<Rightarrow> bool" where
  "is_unknown_handle C msg =
     (str_contains msg ''unknown handle'' \<or> str_contains msg (''0x'' @ hex_encode C (str_bytes ''unknown handle'')))"

definition member_from_felts :: "felt list \<Rightarrow> member res" where
  "member_from_felts user =
     ensure (length user = 5) (Decode BadShape) (
     rbind (rbind (felt_to_u64 (user ! 4)) to_u32) (\<lambda>i.
     Inr \<lparr>mem_scan_pub = user ! 1, mem_kem_digest = user ! 2, mem_m_commit = user ! 3, mem_leaf_index = i\<rparr>))"

definition member_parse :: "crates \<Rightarrow> string list \<Rightarrow> member res" where
  "member_parse C user = rbind (rmap (felt_from_hex C) user) member_from_felts"

text \<open>\<open>rw_before\<close> and \<open>rw_after\<close>: \<^verbatim>\<open>get_user\<close> as sncast answers it, an error being its text.\<close>

record register_world =
  rw_config_io :: io
  rw_check_io :: io
  rw_keys_io :: "io \<times> io"
  rw_seed :: bytes
  rw_secret :: bytes
  rw_before :: "string + string list"
  rw_node :: node_answers
  rw_after :: "string list res"
  rw_save_io :: io

text \<open>The closure \<open>ours\<close>.\<close>

definition ours :: "crates \<Rightarrow> profile_keys \<Rightarrow> bytes \<Rightarrow> felt \<Rightarrow> member \<Rightarrow> bool" where
  "ours C keys ek mc u =
     (ok_opt (keys_scan_pub_felt C keys) = Some (mem_scan_pub u) \<and> mem_kem_digest u = kem_digest_of C ek \<and> mem_m_commit u = mc)"

definition registered_before :: "crates \<Rightarrow> (member \<Rightarrow> bool) \<Rightarrow> string + string list \<Rightarrow> member option res" where
  "registered_before C mine answer =
     (case answer of
        Inr u \<Rightarrow> rbind (member_parse C u) (\<lambda>m. Inr (if mine m then Some m else None))
      | Inl msg \<Rightarrow> if is_unknown_handle C msg then Inr None else Inl (Net RpcError))"

definition register_calldata :: "crates \<Rightarrow> felt \<Rightarrow> profile_keys \<Rightarrow> bytes \<Rightarrow> felt \<Rightarrow> felt list res" where
  "register_calldata C hf keys ek mc =
     rbind (keys_scan_pub_felt C keys) (\<lambda>sp.
     rbind (bytearray_calldata C ek) (\<lambda>ws.
     rbind (rmap (felt_from_hex C) ws) (\<lambda>fs.
     Inr ([hf, sp] @ fs @ [mc]))))"

text \<open>The part after the keys are on disk.\<close>

definition register_with :: "crates \<Rightarrow> register_world \<Rightarrow> config \<Rightarrow> string \<Rightarrow> profile_keys \<Rightarrow> bytes \<Rightarrow> felt \<Rightarrow> (profile_home, register_outcome) st" where
  "register_with C W cfg name keys ek mc =
     sbind (slift (short_string_felt name)) (\<lambda>hf.
     sbind (slift (registered_before C (ours C keys ek mc) (rw_before W))) (\<lambda>already.
     sbind (if already = None
            then sbind (slift (register_calldata C hf keys ek mc)) (\<lambda>cd.
                 sbind (slift (felt_from_hex C (store cfg))) (\<lambda>pool.
                 sbind (send_tx C (rw_node W) (account cfg) [call_new C pool ''register'' cd] Register_Tx) (\<lambda>tx.
                 sret (Some tx))))
            else sret None) (\<lambda>tx.
     sbind (slift (rbind (rw_after W) (member_parse C))) (\<lambda>u.
     sbind (slift (ensure (ours C keys ek mc u) (Tickets RegisteredTwice) (Inr ()))) (\<lambda>_.
     sbind (on_keys (update_keys (rw_save_io W) (keys\<lparr>keys_handle := Some name, keys_leaf_index := Some (mem_leaf_index u)\<rparr>))) (\<lambda>_.
     sret (case tx of Some h \<Rightarrow> Registered h (mem_leaf_index u) | None \<Rightarrow> AlreadyRegistered (mem_leaf_index u))))))))"

definition register :: "crates \<Rightarrow> register_world \<Rightarrow> string \<Rightarrow> (profile_home, register_outcome) st" where
  "register C W name =
     sbind (load_cfg (rw_config_io W)) (\<lambda>cfg.
     sbind (slift (ensure (is_current_store C (store cfg)) (Tickets WrongStore) (Inr ()))) (\<lambda>_.
     sbind (read_keys (rw_check_io W)) (\<lambda>k.
     sbind (slift (ensure (keys_handle k = None) (Tickets RegisteredTwice) (Inr ()))) (\<lambda>_.
     sbind (on_keys (ensure_register_keys C (rw_keys_io W) (rw_seed W) (rw_secret W))) (\<lambda>keys.
     sbind (slift (keys_kem_keypair C keys)) (\<lambda>(_, ek).
     sbind (slift (keys_member_secret_felt C keys)) (\<lambda>ms.
     register_with C W cfg name keys ek (member_commit C ms))))))))"

text \<open>\<^verbatim>\<open>resolve_recipient\<close>: all registrations are read, the match is made here.\<close>

definition resolve_recipient :: "crates \<Rightarrow> rpc \<Rightarrow> string \<Rightarrow> string \<Rightarrow> (felt \<times> nat) res option" where
  "resolve_recipient C rpc st name =
     map_option (\<lambda>r. rbind r (\<lambda>reg. rbind (registry_get reg name) (\<lambda>u. Inr (scan_pub u, leaf_index u))))
       (registry_fetch C rpc st None)"

section \<open>Moving to the current store\<close>

record store_migration =
  previous_store :: string
  previous_handle :: "string option"

record migrate_world =
  mw_config_io :: io
  mw_pending :: "string list res"
  mw_account_known :: "unit res"
  mw_keys_io :: io
  mw_fresh :: fresh_keys
  mw_update_io :: io
  mw_save_io :: io
  mw_rename :: "unit res"

definition aside_name :: "string \<Rightarrow> string" where
  "aside_name prev = ''tickets-'' @ trim_0x prev @ ''.json''"

text \<open>The wallet's file is renamed; \<open>ok\<close> is what \<^verbatim>\<open>rename\<close> answers.\<close>

definition set_aside :: "unit res \<Rightarrow> string \<Rightarrow> (profile_home, unit) st" where
  "set_aside ok prev h =
     (case ph_wallet h of
        None \<Rightarrow> (h, Inr ())
      | Some w \<Rightarrow>
          (case ok of
             Inl e \<Rightarrow> (h, Inl e)
           | Inr _ \<Rightarrow> (h\<lparr>ph_wallet := None, ph_aside := AList.update (aside_name prev) w (ph_aside h)\<rparr>, Inr ())))"

definition migrate_store :: "crates \<Rightarrow> migrate_world \<Rightarrow> string option \<Rightarrow> (profile_home, store_migration) st" where
  "migrate_store C W acct =
     sbind (load_cfg (mw_config_io W)) (\<lambda>cfg.
     sbind (slift (ensure (\<not> is_current_store C (store cfg)) (Tickets WrongStore) (Inr ()))) (\<lambda>_.
     sbind (slift (mw_pending W)) (\<lambda>pending.
     sbind (slift (ensure (pending = []) (File NothingToResume) (Inr ()))) (\<lambda>_.
     sbind (slift (if acct = None then Inr () else mw_account_known W)) (\<lambda>_.
     sbind (read_keys (mw_keys_io W)) (\<lambda>keys.
     sbind (on_keys (update_keys (mw_update_io W) (new_keys C (mw_fresh W)))) (\<lambda>_.
     sbind (save_cfg (mw_save_io W)
              (cfg\<lparr>store := SEPOLIA_POOL_V4,
                   account := (case acct of Some a \<Rightarrow> a | None \<Rightarrow> account cfg),
                   rpc_url := (if rpc_url cfg = [] then SEPOLIA_RPC_DEFAULT else rpc_url cfg)\<rparr>)) (\<lambda>_.
     sbind (smodify (\<lambda>h. h\<lparr>ph_inbox := None, ph_quota := None\<rparr>)) (\<lambda>_.
     sbind (set_aside (mw_rename W) (store cfg)) (\<lambda>_.
     sret \<lparr>previous_store = store cfg, previous_handle = keys_handle keys\<rparr>))))))))))"

section \<open>Tickets\<close>

definition BUY_SETTLE_TRIES :: nat where "BUY_SETTLE_TRIES = 10"

record purchase =
  pu_tx :: string
  pu_bought :: nat
  pu_price :: nat
  pu_counts :: ticket_counts

text \<open>\<open>bw_secret\<close>: the \<open>i\<close>th fresh secret; \<open>bw_trees\<close>: the ticket tree each time it is fetched.\<close>

record buy_world =
  bw_config_io :: io
  bw_price :: "string list res"
  bw_load_io :: io
  bw_secret :: "nat \<Rightarrow> bytes"
  bw_mint_io :: io
  bw_node :: node_answers
  bw_tx_io :: io
  bw_trees :: "nat \<Rightarrow> ticket_tree res"
  bw_end_io :: io

definition first_u128 :: "string list \<Rightarrow> nat res" where
  "first_u128 out =
     rbind (of_opt (Decode BadShape) (case out of [] \<Rightarrow> None | s # _ \<Rightarrow> Some s)) (\<lambda>s.
     of_opt (Decode NotU128) (parse_radix 128 16 (trim_0x s)))"

definition buy_calls :: "crates \<Rightarrow> felt \<Rightarrow> felt \<Rightarrow> nat \<Rightarrow> felt list \<Rightarrow> call list" where
  "buy_calls C strk pool cost leaves =
     [call_new C strk ''approve'' [pool, cost, 0], call_new C pool ''buy_tickets'' (length leaves # leaves)]"

text \<open>\<^verbatim>\<open>for t in &mut wallet.tickets[first..]\<close>.\<close>

definition stamp_tickets :: "nat \<Rightarrow> string \<Rightarrow> wallet \<Rightarrow> wallet" where
  "stamp_tickets start tx w = w\<lparr>tickets := take start (tickets w) @ map (\<lambda>t. t\<lparr>buy_tx := Some tx\<rparr>) (drop start (tickets w))\<rparr>"

text \<open>The tickets are looked for up to \<open>k\<close> times.\<close>

fun settle_tries :: "crates \<Rightarrow> (nat \<Rightarrow> ticket_tree res) \<Rightarrow> nat \<Rightarrow> nat \<Rightarrow> wallet \<Rightarrow> wallet res" where
  "settle_tries C trees start 0 w = Inr w"
| "settle_tries C trees start (Suc k) w =
     rbind (trees (BUY_SETTLE_TRIES - Suc k)) (\<lambda>tt.
       case settle C tt w of
         (w', Inl e) \<Rightarrow> Inl e
       | (w', Inr _) \<Rightarrow>
           if list_all (\<lambda>t. state t \<noteq> Pending) (drop start (tickets w')) then Inr w' else settle_tries C trees start k w')"

text \<open>What follows the transaction.\<close>

definition after_purchase :: "crates \<Rightarrow> buy_world \<Rightarrow> nat \<Rightarrow> wallet \<Rightarrow> string \<Rightarrow> (profile_home, wallet) st" where
  "after_purchase C W start w1 tx =
     (let w2 = stamp_tickets start tx w1
      in sbind (save_wallet (bw_tx_io W) w2) (\<lambda>_.
         sbind (slift (settle_tries C (bw_trees W) start BUY_SETTLE_TRIES w2)) (\<lambda>w3.
         sbind (save_wallet (bw_end_io W) w3) (\<lambda>_. sret w3))))"

text \<open>Up to the transaction: the fresh secrets are minted and saved.\<close>

definition prepare_purchase :: "crates \<Rightarrow> buy_world \<Rightarrow> nat \<Rightarrow> (profile_home, config \<times> nat \<times> (wallet \<times> wallet \<times> felt list) \<times> felt \<times> felt) st" where
  "prepare_purchase C W n =
     sbind (load_cfg (bw_config_io W)) (\<lambda>cfg.
     sbind (slift (ensure (is_current_store C (store cfg)) (Tickets WrongStore) (
                   ensure (1 \<le> n \<and> n \<le> MAX_TICKETS_PER_PURCHASE) (Tickets BadCount) (Inr ())))) (\<lambda>_.
     sbind (slift (rbind (bw_price W) first_u128)) (\<lambda>price.
     sbind (slift (ensure (price * n < 2 ^ 128) (Tickets BadCount) (Inr ()))) (\<lambda>_.
     sbind (load_wallet C (bw_load_io W) (store cfg)) (\<lambda>w.
     sbind (slift (case mint C (map (bw_secret W) [0..<n]) w of (w1, r) \<Rightarrow> rbind r (\<lambda>ls. Inr (w1, ls)))) (\<lambda>(w1, leaves).
     sbind (save_wallet (bw_mint_io W) w1) (\<lambda>_.
     sbind (slift (felt_from_hex C (store cfg))) (\<lambda>pool.
     sbind (slift (felt_from_hex C STRK_TOKEN)) (\<lambda>strk.
     sret (cfg, price, (w, w1, leaves), pool, strk))))))))))"

definition buy_tickets :: "crates \<Rightarrow> buy_world \<Rightarrow> nat \<Rightarrow> (profile_home, purchase) st" where
  "buy_tickets C W n =
     sbind (prepare_purchase C W n) (\<lambda>(cfg, price, (w, w1, leaves), pool, strk).
     sbind (send_tx C (bw_node W) (account cfg) (buy_calls C strk pool (price * n) leaves) BuyTickets_Tx) (\<lambda>tx.
     sbind (after_purchase C W (length (tickets w)) w1 tx) (\<lambda>w3.
     sret \<lparr>pu_tx = tx, pu_bought = n, pu_price = price, pu_counts = counts w3\<rparr>)))"

definition sync_tickets :: "crates \<Rightarrow> io \<times> io \<times> io \<Rightarrow> ticket_tree res \<Rightarrow> (profile_home, ticket_counts) st" where
  "sync_tickets C ios tree =
     (case ios of (cio, lio, sio) \<Rightarrow>
       sbind (load_cfg cio) (\<lambda>cfg.
       sbind (slift (ensure (is_current_store C (store cfg)) (Tickets WrongStore) (Inr ()))) (\<lambda>_.
       sbind (load_wallet C lio (store cfg)) (\<lambda>w.
       if n_pending (counts w) = 0 then sret (counts w)
       else sbind (slift (rbind tree (\<lambda>tt. case settle C tt w of (w1, r) \<Rightarrow> rbind r (\<lambda>k. Inr (w1, k))))) (\<lambda>(w1, k).
            if 0 < k then sbind (save_wallet sio w1) (\<lambda>_. sret (counts w1)) else sret (counts w1))))))"

section \<open>Status\<close>

record status_report =
  sr_rpc :: string
  sr_account :: string
  sr_account_address :: "string option"
  sr_store :: string
  sr_scan_pub :: "string option"
  sr_handle :: "string option"
  sr_leaf_index :: "nat option"
  sr_n_messages :: "string option"
  sr_balance_strk :: "nat option"
  sr_balance_error :: "err option"
  sr_tickets :: "ticket_counts option"

text \<open>Whole tokens: the balance of the address, divided.\<close>

definition account_balance_strk :: "string res \<Rightarrow> (string \<Rightarrow> string list res) \<Rightarrow> nat res" where
  "account_balance_strk addr balance_of =
     rbind addr (\<lambda>a. rbind (balance_of a) (\<lambda>out. rbind (first_u128 out) (\<lambda>low. Inr (low div 1000000000000000000))))"

text \<open>\<open>n_messages\<close> and \<open>balance_of\<close> are the two contract calls, \<open>addr\<close> the accounts file's answer.\<close>

definition status :: "crates \<Rightarrow> io \<times> io \<times> io \<Rightarrow> string res \<Rightarrow> string list res \<Rightarrow> (string \<Rightarrow> string list res) \<Rightarrow> (profile_home, status_report) st" where
  "status C ios addr n_messages balance_of =
     (case ios of (cio, kio, wio) \<Rightarrow>
       sbind (load_cfg cio) (\<lambda>cfg.
       sbind (sok (read_keys kio)) (\<lambda>keys.
       sbind (sok (load_wallet C wio (store cfg))) (\<lambda>w.
       let balance = account_balance_strk addr balance_of
       in sret \<lparr>sr_rpc = rpc_url cfg, sr_account = account cfg, sr_account_address = ok_opt addr, sr_store = store cfg,
                sr_scan_pub = map_option keys_scan_pub keys,
                sr_handle = (case keys of Some k \<Rightarrow> keys_handle k | None \<Rightarrow> None),
                sr_leaf_index = (case keys of Some k \<Rightarrow> keys_leaf_index k | None \<Rightarrow> None),
                sr_n_messages = (if store cfg = [] then None
                                 else map_option (\<lambda>n. case n of [] \<Rightarrow> ''?'' | x # _ \<Rightarrow> x) (ok_opt n_messages)),
                sr_balance_strk = ok_opt balance,
                sr_balance_error = (case balance of Inl e \<Rightarrow> Some e | Inr _ \<Rightarrow> None),
                sr_tickets = (if is_current_store C (store cfg) then map_option counts w else None)\<rparr>))))"


section \<open>Lemmas\<close>

lemma mint_appends:
  "mint C ss w = (w', Inr ls) \<Longrightarrow> \<exists>new. tickets w' = tickets w @ new \<and> length new = length ss
     \<and> rmap (ticket_leaf_of C) new = Inr ls \<and> wallet_store w' = wallet_store w"
proof (induction C ss w arbitrary: w' ls rule: mint.induct)
  case (2 C s ss w)
  let ?t = "\<lparr>secret = member_secret_hex C s, index = None, buy_tx = None, state = Pending\<rparr>"
  obtain leaf where leaf: "ticket_leaf_of C ?t = Inr leaf" using 2(2) by (auto simp: Let_def split: sum.splits)
  obtain w1 ls1 where rest: "mint C ss (w\<lparr>tickets := tickets w @ [?t]\<rparr>) = (w1, Inr ls1)" "w' = w1" "ls = leaf # ls1"
    using 2(2) leaf by (auto simp: Let_def res_inv split: prod.splits)
  from 2(1) [OF refl leaf rest(1)] obtain new where "tickets w1 = tickets (w\<lparr>tickets := tickets w @ [?t]\<rparr>) @ new"
    "length new = length ss" "rmap (ticket_leaf_of C) new = Inr ls1" "wallet_store w1 = wallet_store w" by auto
  then show ?case using rest leaf by (intro exI [of _ "?t # new"]) auto
qed simp

definition same_secrets :: "wallet \<Rightarrow> wallet \<Rightarrow> bool" where
  "same_secrets w w' = (map (\<lambda>t. (secret t, buy_tx t)) (tickets w') = map (\<lambda>t. (secret t, buy_tx t)) (tickets w) \<and> wallet_store w' = wallet_store w)"

lemma settle_loop_secrets: "settle_loop C tt ts n = (ts', r) \<Longrightarrow> map (\<lambda>t. (secret t, buy_tx t)) ts' = map (\<lambda>t. (secret t, buy_tx t)) ts"
  by (induction C tt ts n arbitrary: ts' r rule: settle_loop.induct) (auto split: if_splits sum.splits option.splits prod.splits)

lemma settle_secrets: "settle C tt w = (w', r) \<Longrightarrow> same_secrets w w'"
  by (auto simp: settle_def same_secrets_def dest: settle_loop_secrets split: prod.splits)

lemma settle_tries_secrets: "settle_tries C trees start k w = Inr w' \<Longrightarrow> same_secrets w w'"
proof (induction k arbitrary: w)
  case (Suc k)
  obtain tt where t: "trees (BUY_SETTLE_TRIES - Suc k) = Inr tt" using Suc.prems by (auto simp: res_inv)
  obtain w1 j where tt: "settle C tt w = (w1, j)" by fastforce
  have rest: "(if list_all (\<lambda>t. state t \<noteq> Pending) (drop start (tickets w1)) then Inr w1 else settle_tries C trees start k w1) = Inr w'"
    using Suc.prems t tt by (cases j) auto
  have "same_secrets w1 w'" using Suc.IH rest by (auto simp: same_secrets_def split: if_splits)
  then show ?case using settle_secrets [OF tt] by (simp add: same_secrets_def)
qed (simp add: same_secrets_def)

lemma stamp_secrets: "map secret (tickets (stamp_tickets start tx w)) = map secret (tickets w)"
proof -
  have "map secret (tickets (stamp_tickets start tx w)) = map secret (take start (tickets w) @ drop start (tickets w))"
    unfolding map_append stamp_tickets_def by simp
  then show ?thesis by simp
qed

text \<open>What the wallet's file holds from a purchase on.\<close>

lemma save_wallet_kept:
  assumes "save_wallet io w h = (h', r)"
  shows "ph_wallet h' = Some w \<or> ph_wallet h' = ph_wallet h" and "r = Inr () \<Longrightarrow> ph_wallet h' = Some w"
    and "ph_log h' = ph_log h" and "ph_keys h' = ph_keys h"
  using assms by (auto simp: save_wallet_def wallet_save_def write_file_def split: option.splits)

lemma save_wallet_Inr:
  "save_wallet io w h = (h', Inr u) \<Longrightarrow> ph_wallet h' = Some w \<and> ph_log h' = ph_log h \<and> ph_keys h' = ph_keys h"
  using save_wallet_kept [of io w h h' "Inr u"] by simp

lemma send_tx_log:
  assumes "send_tx C N acct calls kind h = (h', r)"
  shows "h' = h\<lparr>ph_log := ph_log h @ [Signed acct calls kind (ph_keys h) (ph_wallet h)]\<rparr>" and "r = account_send C N acct calls kind"
  using assms by (auto simp: send_tx_def sbind_def)

text \<open>Whatever fails after the transaction, the file holds the new tickets' secrets.\<close>

lemma after_purchase_kept:
  assumes run: "after_purchase C W start w1 tx h = (h', r)" and w: "ph_wallet h = Some w1"
  shows "ph_log h' = ph_log h \<and> (\<exists>w'. ph_wallet h' = Some w' \<and> map secret (tickets w') = map secret (tickets w1))
     \<and> (\<forall>w3. r = Inr w3 \<longrightarrow> ph_wallet h' = Some w3 \<and> same_secrets (stamp_tickets start tx w1) w3)"
proof -
  define w2 where "w2 = stamp_tickets start tx w1"
  obtain h1 r1 where h1: "save_wallet (bw_tx_io W) w2 h = (h1, r1)" by fastforce
  note k1 = save_wallet_kept [OF h1]
  have s2: "map secret (tickets w2) = map secret (tickets w1)" by (simp add: w2_def stamp_secrets)
  then have kept1: "\<exists>w'. ph_wallet h1 = Some w' \<and> map secret (tickets w') = map secret (tickets w1)"
    using k1(1) w by auto
  show ?thesis
  proof (cases r1)
    case (Inl e)
    then have "h' = h1" "r = Inl e" using run h1 by (auto simp: after_purchase_def Let_def w2_def [symmetric] sbind_def)
    then show ?thesis using kept1 k1(3) by simp
  next
    case (Inr u)
    show ?thesis
    proof (cases "settle_tries C (bw_trees W) start BUY_SETTLE_TRIES w2")
      case (Inl e)
      then have "h' = h1" "r = Inl e" using run h1 Inr by (auto simp: after_purchase_def Let_def w2_def [symmetric] sbind_def)
      then show ?thesis using kept1 k1(3) by simp
    next
      case w3: (Inr w3)
      have same: "same_secrets w2 w3" by (rule settle_tries_secrets [OF w3])
      then have "map fst (map (\<lambda>t. (secret t, buy_tx t)) (tickets w3)) = map fst (map (\<lambda>t. (secret t, buy_tx t)) (tickets w2))"
        by (simp add: same_secrets_def)
      then have s3: "map secret (tickets w3) = map secret (tickets w1)" using s2 by (simp add: o_def)
      obtain h2 r2 where h2: "save_wallet (bw_end_io W) w3 h1 = (h2, r2)" by fastforce
      note k2 = save_wallet_kept [OF h2]
      have "h' = h2" and r: "r = rbind r2 (\<lambda>_. Inr w3)"
        using run h1 h2 Inr w3 by (auto simp: after_purchase_def Let_def w2_def [symmetric] sbind_def rbind_def split: sum.splits)
      moreover have "\<exists>w'. ph_wallet h2 = Some w' \<and> map secret (tickets w') = map secret (tickets w1)"
        using k2(1) kept1 s3 by auto
      ultimately show ?thesis using k1(3) k2(2,3) same by (auto simp: res_inv w2_def [symmetric])
    qed
  qed
qed

lemma app_steps_log:
  "stepwise (\<lambda>h h'. ph_log h' = ph_log h) (load_cfg io)" "stepwise (\<lambda>h h'. ph_log h' = ph_log h) (save_cfg io c)"
  "stepwise (\<lambda>h h'. ph_log h' = ph_log h) (on_keys m)" "stepwise (\<lambda>h h'. ph_log h' = ph_log h) (read_keys io)"
  "stepwise (\<lambda>h h'. ph_log h' = ph_log h) (load_wallet C io st)" "stepwise (\<lambda>h h'. ph_log h' = ph_log h) (save_wallet io w)"
  by (auto simp: stepwise_def load_cfg_def save_cfg_def on_keys_def read_keys_def load_wallet_def save_wallet_def split: prod.splits)

lemmas keeps_log = keep.steps_intro app_steps_log

lemma prepare_purchase_log: "stepwise (\<lambda>h h'. ph_log h' = ph_log h) (prepare_purchase C W n)"
  unfolding prepare_purchase_def by (intro keeps_log) (auto split: prod.splits intro!: keeps_log)

lemma prepare_purchase_Inr:
  assumes "prepare_purchase C W n h = (h1, Inr (cfg, price, (w, w1, leaves), pool, strk))"
  shows "ph_config h = Some cfg \<and> wallet_load C (bw_load_io W) (store cfg) (ph_wallet h) = Inr w
    \<and> mint C (map (bw_secret W) [0..<n]) w = (w1, Inr leaves) \<and> rbind (bw_price W) first_u128 = Inr price
    \<and> ph_wallet h1 = Some w1 \<and> ph_keys h1 = ph_keys h \<and> ph_log h1 = ph_log h"
  using assms
  by (auto simp: prepare_purchase_def sbind_Inr load_cfg_def load_wallet_def res_inv read_file_def
      dest!: save_wallet_Inr split: prod.splits sum.splits option.splits)

lemma keys_extend_same:
  assumes "keys_extend k k'"
  shows "keys_handle k' = keys_handle k \<and> keys_leaf_index k' = keys_leaf_index k"
proof -
  obtain a b where "k' = k\<lparr>kem_seed := a, member_secret := b\<rparr>" using assms unfolding keys_extend_def by blast
  then show ?thesis by simp
qed

text \<open>Registering, once the keys are on disk.\<close>

lemma register_with_effects:
  assumes run: "register_with C W cfg name keys ek mc h = (h', r)"
  shows "ph_wallet h' = ph_wallet h
    \<and> (ph_log h' = ph_log h \<or>
        (\<exists>pool cd. registered_before C (ours C keys ek mc) (rw_before W) = Inr None
          \<and> rbind (short_string_felt name) (\<lambda>hf. register_calldata C hf keys ek mc) = Inr cd
          \<and> ph_log h' = ph_log h @ [Signed (account cfg) [call_new C pool ''register'' cd] Register_Tx (ph_keys h) (ph_wallet h)]))
    \<and> (ph_keys h' = ph_keys h \<or> (\<exists>i. ph_keys h' = Some (keys\<lparr>keys_handle := Some name, keys_leaf_index := Some i\<rparr>)))
    \<and> (\<forall>out. r = Inr out \<longrightarrow> (\<exists>u. rbind (rw_after W) (member_parse C) = Inr u \<and> ours C keys ek mc u
          \<and> ph_keys h' = Some (keys\<lparr>keys_handle := Some name, keys_leaf_index := Some (mem_leaf_index u)\<rparr>)
          \<and> (case out of AlreadyRegistered i \<Rightarrow> i = mem_leaf_index u \<and> ph_log h' = ph_log h
             | Registered tx i \<Rightarrow> i = mem_leaf_index u \<and> ph_log h' \<noteq> ph_log h)))"
proof -
  have upd: "on_keys (update_keys io k) s = (s', x) \<Longrightarrow> ph_wallet s' = ph_wallet s \<and> ph_log s' = ph_log s
      \<and> (ph_keys s' = ph_keys s \<or> ph_keys s' = Some k) \<and> (x = Inr () \<longrightarrow> ph_keys s' = Some k)" for io k s s' x
    by (auto simp: on_keys_def update_keys_def write_file_def split: option.splits)
  show ?thesis
    using run unfolding register_with_def
    by (auto simp: sbind_def send_tx_def res_inv rbind_eq_Inl split: prod.splits sum.splits if_splits option.splits register_outcome.splits dest!: upd)
qed

section \<open>Properties\<close>

text \<open>C23: A purchase is on disk before it is paid for, and stays there: \<open>buy_tickets\<close> asks the
  network for at most one transaction; at that moment the wallet on disk already holds every
  ticket it had and \<open>n\<close> new ones, whose leaves are exactly the ones the transaction buys, at
  \<open>n\<close> times the pool's price. Whatever fails afterwards, the wallet on disk keeps all their
  secrets; on success each new ticket carries the transaction's hash.\<close>

theorem tickets_on_disk_before_paid:
  assumes run: "buy_tickets C W n h = (h', r)"
  shows "ph_log h' = ph_log h \<and> \<not> is_ok r \<or>
     (\<exists>cfg w w1 leaves price pool strk.
        ph_config h = Some cfg \<and> wallet_load C (bw_load_io W) (store cfg) (ph_wallet h) = Inr w
      \<and> take (length (tickets w)) (tickets w1) = tickets w \<and> length (tickets w1) = length (tickets w) + n
      \<and> rmap (ticket_leaf_of C) (drop (length (tickets w)) (tickets w1)) = Inr leaves
      \<and> ph_log h' = ph_log h @ [Signed (account cfg) (buy_calls C strk pool (price * n) leaves) BuyTickets_Tx (ph_keys h) (Some w1)]
      \<and> rbind (bw_price W) first_u128 = Inr price
      \<and> (\<exists>wf. ph_wallet h' = Some wf \<and> map secret (tickets wf) = map secret (tickets w1)
          \<and> (case r of Inl _ \<Rightarrow> True
             | Inr p \<Rightarrow> pu_counts p = counts wf \<and> map buy_tx (drop (length (tickets w)) (tickets wf)) = replicate n (Some (pu_tx p)))))"
proof -
  obtain h1 r1 where p: "prepare_purchase C W n h = (h1, r1)" by fastforce
  show ?thesis
  proof (cases r1)
    case (Inl e)
    then show ?thesis using run p steps_run [OF prepare_purchase_log p] by (auto simp: buy_tickets_def sbind_def)
  next
    case (Inr x)
    obtain cfg price w w1 leaves pool strk where x: "x = (cfg, price, (w, w1, leaves), pool, strk)" by (cases x) auto
    note k = prepare_purchase_Inr [OF p [unfolded Inr x]]
    obtain new where new: "tickets w1 = tickets w @ new" "length new = n" "rmap (ticket_leaf_of C) new = Inr leaves"
      using mint_appends [of C _ w w1 leaves] k by fastforce
    let ?calls = "buy_calls C strk pool (price * n) leaves"
    let ?h2 = "h1\<lparr>ph_log := ph_log h @ [Signed (account cfg) ?calls BuyTickets_Tx (ph_keys h) (Some w1)]\<rparr>"
    have s: "send_tx C (bw_node W) (account cfg) ?calls BuyTickets_Tx h1 = (?h2, account_send C (bw_node W) (account cfg) ?calls BuyTickets_Tx)"
      using k by (simp add: send_tx_def sbind_def)
    have "\<exists>wf. ph_wallet h' = Some wf \<and> ph_log h' = ph_log ?h2 \<and> map secret (tickets wf) = map secret (tickets w1)
        \<and> (case r of Inl _ \<Rightarrow> True
           | Inr p \<Rightarrow> pu_counts p = counts wf \<and> map buy_tx (drop (length (tickets w)) (tickets wf)) = replicate n (Some (pu_tx p)))"
    proof (cases "account_send C (bw_node W) (account cfg) ?calls BuyTickets_Tx")
      case (Inl e)
      then show ?thesis using run p Inr x s k by (auto simp: buy_tickets_def sbind_def)
    next
      case tx: (Inr tx)
      obtain h3 r3 where a: "after_purchase C W (length (tickets w)) w1 tx ?h2 = (h3, r3)" by fastforce
      note ak = after_purchase_kept [OF a]
      have e: "h' = h3" "r = rbind r3 (\<lambda>w3. Inr \<lparr>pu_tx = tx, pu_bought = n, pu_price = price, pu_counts = counts w3\<rparr>)"
        using run p Inr x s tx a by (auto simp: buy_tickets_def sbind_def rbind_def split: sum.splits)
      have stamped: "map buy_tx (drop (length (tickets w)) (tickets w3)) = replicate n (Some tx)"
        if "same_secrets (stamp_tickets (length (tickets w)) tx w1) w3" for w3
      proof -
        have "map snd (map (\<lambda>t. (secret t, buy_tx t)) (tickets w3)) = map snd (map (\<lambda>t. (secret t, buy_tx t)) (tickets (stamp_tickets (length (tickets w)) tx w1)))"
          using that by (simp add: same_secrets_def)
        then have "map buy_tx (tickets w3) = map buy_tx (tickets w) @ replicate n (Some tx)"
          using new by (simp add: o_def stamp_tickets_def map_replicate_const)
        then show ?thesis by (simp add: drop_map [symmetric])
      qed
      show ?thesis using ak k e stamped by (auto simp: res_inv split: sum.splits)
    qed
    then show ?thesis using k new
      by - (rule disjI2, rule exI [of _ cfg], rule exI [of _ w], rule exI [of _ w1], rule exI [of _ leaves],
          rule exI [of _ price], rule exI [of _ pool], rule exI [of _ strk], simp, blast)
  qed
qed

text \<open>A new profile on the current store, and a network that is down.\<close>

definition demo_home :: profile_home where
  "demo_home = \<lparr>ph_config = Some default_sepolia, ph_keys = None, ph_wallet = None, ph_quota = None, ph_inbox = None, ph_aside = [], ph_log = []\<rparr>"

definition no_node :: node_answers where
  "no_node = \<lparr>nd_rpc = (\<lambda>m q. Inl (Net Transport)), nd_accounts = JNull, nd_receipt = Inl (Net TimedOut)\<rparr>"

definition demo_buy :: buy_world where
  "demo_buy = \<lparr>bw_config_io = io_ok, bw_price = Inr [''0x5''], bw_load_io = io_ok, bw_secret = (\<lambda>i. be_bytes 32 9), bw_mint_io = io_ok,
     bw_node = no_node, bw_tx_io = io_ok, bw_trees = (\<lambda>i. Inl (Net Transport)), bw_end_io = io_ok\<rparr>"

lemma demo_strk: "\<exists>f. felt_from_hex demo_crates STRK_TOKEN = Inr f"
  unfolding STRK_TOKEN_def felt_from_hex_def
  by (simp add: demo_crates_def demo_felt_of_hex_def hex_digits_def STARK_PRIME_def)

lemma demo_prepare:
  "\<exists>h1 x. prepare_purchase demo_crates demo_buy 1 demo_home = (h1, Inr x)"
proof -
  obtain strk where strk: "felt_from_hex demo_crates STRK_TOKEN = Inr strk" using demo_strk by blast
  obtain pool where pool: "felt_from_hex demo_crates SEPOLIA_POOL_V4 = Inr pool"
    using demo_current_store by (auto simp: is_current_store_def same_address_def felt_from_hex_def split: option.splits)
  obtain leaf where leaf: "ticket_leaf_of demo_crates \<lparr>secret = member_secret_hex demo_crates (be_bytes 32 9), index = None, buy_tx = None, state = Pending\<rparr> = Inr leaf"
    using demo_ticket_leaf [of Pending]
    by (simp add: demo_wallet_def ticket_leaf_of_def ticket_secret_felt_def member_secret_hex_def demo_crates_def)
  have price: "first_u128 [''0x5''] = Inr 5" by (simp add: first_u128_def parse_radix_def digit_val_def)
  show ?thesis
    by (simp add: prepare_purchase_def sbind_def load_cfg_def load_wallet_def save_wallet_def wallet_save_def wallet_load_def write_file_def read_file_def
        demo_home_def demo_buy_def default_sepolia_def io_ok_def demo_current_store MAX_TICKETS_PER_PURCHASE_def price leaf strk pool Let_def del: be_bytes.simps)
qed

theorem tickets_on_disk_before_paid_witness:
  "\<exists>calls w1 h' r. buy_tickets demo_crates demo_buy 1 demo_home = (h', r)
     \<and> ph_log h' = [Signed ''funded-deployer'' calls BuyTickets_Tx None (Some w1)] \<and> length (tickets w1) = 1 \<and> ph_wallet h' \<noteq> None"
proof -
  obtain h' r where run: "buy_tickets demo_crates demo_buy 1 demo_home = (h', r)" by fastforce
  obtain h1 x where p: "prepare_purchase demo_crates demo_buy 1 demo_home = (h1, Inr x)" using demo_prepare by blast
  have "\<not> is_ok (account_send demo_crates no_node a cs kd)" for a cs kd
    by (simp add: account_send_def account_submit_def from_sncast_account_def account_field_def no_node_def)
  then have "\<exists>e. account_send demo_crates no_node a cs kd = Inl e" for a cs kd
    by (metis is_ok_simps(2) sumE)
  then have "ph_log h' \<noteq> []"
    using run p by (auto simp: buy_tickets_def sbind_def send_tx_def demo_buy_def split: prod.splits sum.splits) (metis sum.distinct(1))+
  with tickets_on_disk_before_paid [OF run] show ?thesis
    using run by (auto simp: demo_home_def default_sepolia_def wallet_load_def)
qed

text \<open>C24: Registering, whatever the chain answers and whatever fails. It asks the network for at
  most one transaction, and only when the profile has no handle and the chain does not already
  hold this profile's registration under that name; at that moment the keys the registration
  commits to, the KEM seed and the membership secret included, are on disk. The profile's
  identity never changes: only missing secrets, the handle and the leaf are filled in. Success
  means the record the chain then holds is this profile's: its view key, the digest of the KEM key
  made from the stored seed and the commitment to the stored secret; and its leaf is what is
  stored.\<close>

theorem registering_is_safe_to_repeat:
  assumes run: "register C W name h = (h', r)" and k: "ph_keys h = Some k"
  shows "(ph_log h' = ph_log h \<or>
       (\<exists>cfg keys sd ek mc cd pool. ph_config h = Some cfg \<and>
          ph_log h' = ph_log h @ [Signed (account cfg) [call_new C pool ''register'' cd] Register_Tx (Some keys) (ph_wallet h)]
        \<and> keys_handle k = None \<and> keys_extend k keys \<and> kem_seed keys \<noteq> None \<and> member_secret keys \<noteq> None
        \<and> keys_kem_keypair C keys = Inr (sd, ek) \<and> rbind (keys_member_secret_felt C keys) (\<lambda>m. Inr (member_commit C m)) = Inr mc
        \<and> rbind (short_string_felt name) (\<lambda>hf. register_calldata C hf keys ek mc) = Inr cd
        \<and> registered_before C (ours C keys ek mc) (rw_before W) = Inr None))
     \<and> (\<exists>k'. ph_keys h' = Some k' \<and> keys_extend k (k'\<lparr>keys_handle := keys_handle k, keys_leaf_index := keys_leaf_index k\<rparr>)
        \<and> (case r of
             Inl e \<Rightarrow> True
           | Inr out \<Rightarrow> \<exists>u sd ek mc. rbind (rw_after W) (member_parse C) = Inr u \<and> keys_kem_keypair C k' = Inr (sd, ek)
               \<and> rbind (keys_member_secret_felt C k') (\<lambda>m. Inr (member_commit C m)) = Inr mc \<and> ours C k' ek mc u
               \<and> keys_handle k' = Some name \<and> keys_leaf_index k' = Some (mem_leaf_index u)
               \<and> (case out of
                    AlreadyRegistered i \<Rightarrow> i = mem_leaf_index u \<and> ph_log h' = ph_log h
                  | Registered tx i \<Rightarrow> i = mem_leaf_index u \<and> ph_log h' \<noteq> ph_log h)))"
proof -
  define ensured where "ensured = ensure_register_keys C (rw_keys_io W) (rw_seed W) (rw_secret W) (ph_keys h)"
  have same: "keys_extend k (k\<lparr>keys_handle := keys_handle k, keys_leaf_index := keys_leaf_index k\<rparr>)" by (simp add: keys_extend_def)
  consider (stop) e where "h' = h" "r = Inl e"
    | (ensured) cfg where "keys_handle k = None" "ph_config h = Some cfg"
        "sbind (on_keys (ensure_register_keys C (rw_keys_io W) (rw_seed W) (rw_secret W))) (\<lambda>keys.
         sbind (slift (keys_kem_keypair C keys)) (\<lambda>(_, ek).
         sbind (slift (keys_member_secret_felt C keys)) (\<lambda>ms.
         register_with C W cfg name keys ek (member_commit C ms)))) h = (h', r)"
    using run k
    by (auto simp: register_def sbind_def load_cfg_def read_keys_def load_keys_def read_file_def ensure_def of_opt_def
        split: prod.splits sum.splits option.splits if_splits)
  then show ?thesis
  proof cases
    case stop
    then show ?thesis using k same by auto
  next
    case ensured
    obtain f r1 where e: "ensure_register_keys C (rw_keys_io W) (rw_seed W) (rw_secret W) (Some k) = (f, r1)" by fastforce
    obtain k1 where k1: "f = Some k1" "keys_extend k k1" "\<forall>k2. r1 = Inr k2 \<longrightarrow> k2 = k1 \<and> kem_seed k1 \<noteq> None \<and> member_secret k1 \<noteq> None"
      using register_keys_extend [OF e] by blast
    have "keys_handle k1 = keys_handle k \<and> keys_leaf_index k1 = keys_leaf_index k"
      by (rule keys_extend_same [OF k1(2)])
    then have "k1\<lparr>keys_handle := a, keys_leaf_index := b, keys_handle := keys_handle k, keys_leaf_index := keys_leaf_index k\<rparr> = k1" for a b
      by (intro profile_keys.equality) simp_all
    then have same_keys: "keys_extend k (k1\<lparr>keys_handle := a, keys_leaf_index := b, keys_handle := keys_handle k, keys_leaf_index := keys_leaf_index k\<rparr>)" for a b
      using k1(2) by simp
    let ?h1 = "h\<lparr>ph_keys := Some k1\<rparr>"
    have run1: "(case r1 of Inl e \<Rightarrow> (?h1, Inl e) | Inr keys \<Rightarrow>
         sbind (slift (keys_kem_keypair C keys)) (\<lambda>(_, ek). sbind (slift (keys_member_secret_felt C keys)) (\<lambda>ms.
         register_with C W cfg name keys ek (member_commit C ms))) ?h1) = (h', r)"
      using ensured(3) by (simp add: on_keys_def sbind_def [of "on_keys _"] k e k1(1) split: sum.splits)
    show ?thesis
    proof (cases "r1 = Inr k1 \<and> (\<exists>sd ek ms. keys_kem_keypair C k1 = Inr (sd, ek) \<and> keys_member_secret_felt C k1 = Inr ms)")
      case False
      have "h' = ?h1 \<and> \<not> is_ok r"
      proof (cases r1)
        case (Inr k2)
        then have "k2 = k1" using k1(3) by simp
        then show ?thesis
          using run1 Inr False
          by (cases "keys_kem_keypair C k1"; cases "keys_member_secret_felt C k1") (auto simp: sbind_def split: prod.splits)
      qed (use run1 in auto)
      then show ?thesis using k1(2) same_keys [where a = "keys_handle k1" and b = "keys_leaf_index k1"] by (cases r) (auto simp: keys_extend_def)
    next
      case True
      then obtain sd ek ms where r1: "r1 = Inr k1" and kp: "keys_kem_keypair C k1 = Inr (sd, ek)" and ms: "keys_member_secret_felt C k1 = Inr ms" by blast
      have w: "register_with C W cfg name k1 ek (member_commit C ms) ?h1 = (h', r)"
        using run1 by (simp add: r1 kp ms sbind_slift)
      have h1: "ph_log ?h1 = ph_log h" "ph_wallet ?h1 = ph_wallet h" "ph_keys ?h1 = Some k1" by simp_all
      note eff = register_with_effects [OF w, unfolded h1]
      have secrets: "kem_seed k1 \<noteq> None" "member_secret k1 \<noteq> None" using k1(3) r1 by auto
      have log: "ph_log h' = ph_log h \<or>
          (\<exists>cfg keys sd ek mc cd pool. ph_config h = Some cfg \<and>
             ph_log h' = ph_log h @ [Signed (account cfg) [call_new C pool ''register'' cd] Register_Tx (Some keys) (ph_wallet h)]
           \<and> keys_handle k = None \<and> keys_extend k keys \<and> kem_seed keys \<noteq> None \<and> member_secret keys \<noteq> None
           \<and> keys_kem_keypair C keys = Inr (sd, ek) \<and> rbind (keys_member_secret_felt C keys) (\<lambda>m. Inr (member_commit C m)) = Inr mc
           \<and> rbind (short_string_felt name) (\<lambda>hf. register_calldata C hf keys ek mc) = Inr cd
           \<and> registered_before C (ours C keys ek mc) (rw_before W) = Inr None)"
      proof (cases "ph_log h' = ph_log h")
        case False
        then obtain pool cd where x: "registered_before C (ours C k1 ek (member_commit C ms)) (rw_before W) = Inr None"
          "rbind (short_string_felt name) (\<lambda>hf. register_calldata C hf k1 ek (member_commit C ms)) = Inr cd"
          "ph_log h' = ph_log h @ [Signed (account cfg) [call_new C pool ''register'' cd] Register_Tx (Some k1) (ph_wallet h)]"
          using eff by auto
        have "rbind (keys_member_secret_felt C k1) (\<lambda>m. Inr (member_commit C m)) = Inr (member_commit C ms)" by (simp add: ms)
        with x ensured(1,2) k1(2) secrets kp show ?thesis by (intro disjI2) blast
      qed simp
      obtain k' where k': "ph_keys h' = Some k'" "k' = k1 \<or> (\<exists>i. k' = k1\<lparr>keys_handle := Some name, keys_leaf_index := Some i\<rparr>)"
        using eff by auto
      have ext: "keys_extend k (k'\<lparr>keys_handle := keys_handle k, keys_leaf_index := keys_leaf_index k\<rparr>)"
        using k'(2) same_keys k1(2) same_keys [where a = "keys_handle k1" and b = "keys_leaf_index k1"] by auto
      have out: "case r of Inl e \<Rightarrow> True
           | Inr out \<Rightarrow> \<exists>u sd ek mc. rbind (rw_after W) (member_parse C) = Inr u \<and> keys_kem_keypair C k' = Inr (sd, ek)
               \<and> rbind (keys_member_secret_felt C k') (\<lambda>m. Inr (member_commit C m)) = Inr mc \<and> ours C k' ek mc u
               \<and> keys_handle k' = Some name \<and> keys_leaf_index k' = Some (mem_leaf_index u)
               \<and> (case out of
                    AlreadyRegistered i \<Rightarrow> i = mem_leaf_index u \<and> ph_log h' = ph_log h
                  | Registered tx i \<Rightarrow> i = mem_leaf_index u \<and> ph_log h' \<noteq> ph_log h)"
      proof (cases r)
        case (Inr out)
        then obtain u where u: "rbind (rw_after W) (member_parse C) = Inr u" "ours C k1 ek (member_commit C ms) u"
          "k' = k1\<lparr>keys_handle := Some name, keys_leaf_index := Some (mem_leaf_index u)\<rparr>"
          "case out of AlreadyRegistered i \<Rightarrow> i = mem_leaf_index u \<and> ph_log h' = ph_log h
             | Registered tx i \<Rightarrow> i = mem_leaf_index u \<and> ph_log h' \<noteq> ph_log h"
          using eff k'(1) by auto
        moreover have "ours C k' ek (member_commit C ms) u" using u(2,3) by (simp add: ours_def keys_scan_pub_felt_def)
        moreover have "keys_kem_keypair C k' = Inr (sd, ek)" "rbind (keys_member_secret_felt C k') (\<lambda>m. Inr (member_commit C m)) = Inr (member_commit C ms)"
          using u(3) kp ms by (simp_all add: keys_kem_keypair_def keys_kem_seed_bytes_def keys_member_secret_felt_def)
        ultimately show ?thesis using Inr by auto
      qed simp
      show ?thesis using log k'(1) ext out by blast
    qed
  qed
qed

definition demo_register :: register_world where
  "demo_register = \<lparr>rw_config_io = io_ok, rw_check_io = io_ok, rw_keys_io = (io_ok, io_ok), rw_seed = replicate 64 7, rw_secret = be_bytes 32 9,
     rw_before = Inl ''unknown handle'', rw_node = no_node, rw_after = Inl (Net Transport), rw_save_io = io_ok\<rparr>"

lemma no_node_fails: "\<exists>e. account_send demo_crates no_node a cs kd = Inl e"
  by (simp add: account_send_def account_submit_def from_sncast_account_def account_field_def no_node_def)

theorem registering_is_safe_to_repeat_witness:
  "\<exists>h' r keys cd pool. register demo_crates demo_register ''bob'' (demo_home\<lparr>ph_keys := Some demo_keys\<rparr>) = (h', r)
     \<and> ph_log h' = [Signed ''funded-deployer'' [call_new demo_crates pool ''register'' cd] Register_Tx (Some keys) None]
     \<and> keys_extend demo_keys keys \<and> kem_seed keys \<noteq> None \<and> member_secret keys \<noteq> None"
proof -
  let ?h = "demo_home\<lparr>ph_keys := Some demo_keys\<rparr>"
  obtain h' r where run: "register demo_crates demo_register ''bob'' ?h = (h', r)" by fastforce
  define keys where "keys = demo_keys\<lparr>kem_seed := Some (kem_seed_hex demo_crates (replicate 64 7)), member_secret := Some (member_secret_hex demo_crates (be_bytes 32 9))\<rparr>"
  have e: "ensure_register_keys demo_crates (io_ok, io_ok) (replicate 64 7) (be_bytes 32 9) (Some demo_keys) = (Some keys, Inr keys)"
    by (simp add: ensure_register_keys_def ensure_kem_seed_def load_keys_def read_file_def update_keys_def
        write_file_def io_ok_def demo_keys_def keys_def Let_def del: be_bytes.simps)
  have "keys_kem_keypair demo_crates keys = Inr (kem_keygen_from_seed demo_crates (replicate 64 7))"
    by (simp add: keys_kem_keypair_def keys_kem_seed_bytes_def keys_def hex_bytes_print [OF demo_hex_ok, unfolded append.simps] kem_seed_hex_def KEM_SEED_LEN_def del: be_bytes.simps)
  moreover have "length (kem_ek demo_crates (replicate 64 7)) = 1184" by (simp add: demo_crates_def)
  ultimately have "\<exists>sd ek. keys_kem_keypair demo_crates keys = Inr (sd, ek) \<and> length ek < 2 ^ 64" by (simp add: kem_keygen_from_seed_def)
  then obtain sd ek where kp: "keys_kem_keypair demo_crates keys = Inr (sd, ek)" and len: "length ek < 2 ^ 64" by blast
  have "member_secret_felt (be_bytes 32 9) = Inr 9" by (simp add: member_secret_felt_Inr be_nat_be_bytes)
  then have ms: "keys_member_secret_felt demo_crates keys = Inr 9"
    by (simp add: keys_member_secret_felt_def keys_def member_secret_hex_def hex_bytes_print [OF demo_hex_ok, unfolded append.simps] del: be_bytes.simps)
  have "\<exists>hf cd pool. short_string_felt ''bob'' = Inr hf \<and> register_calldata demo_crates hf keys ek (member_commit demo_crates 9) = Inr cd
      \<and> felt_from_hex demo_crates SEPOLIA_POOL_V4 = Inr pool"
  proof -
    have "\<exists>sp. keys_scan_pub_felt demo_crates keys = Inr sp"
      by (simp add: keys_scan_pub_felt_def keys_def demo_keys_def demo_crates_def demo_felt_of_hex_def hex_digits_def STARK_PRIME_def)
    moreover have "rbind (bytearray_calldata demo_crates ek) (rmap (felt_from_hex demo_crates)) = Inr (bytearray_felts ek)"
      unfolding felt_from_hex_def by (rule bytearray_calldata_parses [OF demo_felt_hex_ok len])
    moreover have "\<exists>pool. felt_from_hex demo_crates SEPOLIA_POOL_V4 = Inr pool"
      using demo_current_store by (auto simp: is_current_store_def same_address_def felt_from_hex_def split: option.splits)
    moreover have "\<exists>hf. short_string_felt ''bob'' = Inr hf" by (simp add: short_string_felt_def ascii_def)
    ultimately show ?thesis by (auto simp: register_calldata_def res_inv)
  qed
  then obtain hf cd pool where go: "short_string_felt ''bob'' = Inr hf" "register_calldata demo_crates hf keys ek (member_commit demo_crates 9) = Inr cd"
    "felt_from_hex demo_crates SEPOLIA_POOL_V4 = Inr pool" by blast
  have unknown: "is_unknown_handle demo_crates ''unknown handle''" by (simp add: is_unknown_handle_def str_contains_def find_after.simps)
  have "ph_log h' \<noteq> []"
  proof -
    obtain er where "account_send demo_crates no_node ''funded-deployer'' [call_new demo_crates pool ''register'' cd] Register_Tx = Inl er"
      using no_node_fails by blast
    then show ?thesis
      using run e kp ms go unknown demo_current_store
      by (auto simp: register_def register_with_def sbind_def load_cfg_def read_keys_def load_keys_def read_file_def on_keys_def send_tx_def
          demo_register_def demo_home_def default_sepolia_def io_ok_def registered_before_def demo_keys_def)
  qed
  then obtain cfg keys cd pool where "ph_config ?h = Some cfg"
      "ph_log h' = ph_log ?h @ [Signed (account cfg) [call_new demo_crates pool ''register'' cd] Register_Tx (Some keys) (ph_wallet ?h)]"
      "keys_extend demo_keys keys" "kem_seed keys \<noteq> None" "member_secret keys \<noteq> None"
    using registering_is_safe_to_repeat [OF run] by (auto simp: demo_home_def)
  then show ?thesis using run by (auto simp: demo_home_def default_sepolia_def)
qed

text \<open>Moving a profile to the current store never loses a ticket and never reuses an identity:
  whatever fails, the old wallet is still in its place or set aside under the old store's name,
  and no transaction is asked for; with an incomplete send, or on the current store already,
  nothing changes at all; on success the profile is on the current store with fresh keys only, no
  handle, no quota log and no wallet.\<close>

theorem moving_stores_keeps_the_wallet:
  assumes run: "migrate_store C W acct h = (h', r)" and cfg: "ph_config h = Some cfg"
  shows "ph_log h' = ph_log h
     \<and> (ph_wallet h' = ph_wallet h \<or> ph_wallet h' = None \<and> map_of (ph_aside h') (aside_name (store cfg)) = ph_wallet h)
     \<and> (if is_current_store C (store cfg) \<or> (\<exists>x xs. mw_pending W = Inr (x # xs)) then h' = h \<and> \<not> is_ok r
        else case r of
               Inl e \<Rightarrow> ph_keys h' = ph_keys h \<or> ph_keys h' = Some (new_keys C (mw_fresh W))
             | Inr m \<Rightarrow> ph_keys h' = Some (new_keys C (mw_fresh W)) \<and> ph_wallet h' = None \<and> ph_quota h' = None \<and> ph_inbox h' = None
                 \<and> (\<exists>cfg'. ph_config h' = Some cfg' \<and> store cfg' = SEPOLIA_POOL_V4 \<and> rpc_url cfg' \<noteq> [])
                 \<and> previous_store m = store cfg)"
proof -
  have upd: "on_keys (update_keys io k) s = (s', x) \<Longrightarrow> s' = s \<and> \<not> is_ok x \<or> s' = s\<lparr>ph_keys := Some k\<rparr> \<and> x = Inr ()" for io k s s' x
    by (auto simp: on_keys_def update_keys_def write_file_def split: option.splits)
  have sav: "save_cfg io c s = (s', x) \<Longrightarrow> s' = s \<and> \<not> is_ok x \<or> s' = s\<lparr>ph_config := Some c\<rparr> \<and> x = Inr ()" for io c s s' x
    by (auto simp: save_cfg_def write_file_def split: option.splits)
  have asd: "set_aside ok prev s = (s', x) \<Longrightarrow> s' = s \<and> (x = Inr () \<longrightarrow> ph_wallet s = None)
      \<or> (\<exists>w. ph_wallet s = Some w \<and> s' = s\<lparr>ph_wallet := None, ph_aside := AList.update (aside_name prev) w (ph_aside s)\<rparr>)" for ok prev s s' x
    by (auto simp: set_aside_def split: option.splits sum.splits)
  have rpc: "SEPOLIA_RPC_DEFAULT \<noteq> []" by (simp add: SEPOLIA_RPC_DEFAULT_def)
  show ?thesis
    using run cfg
    by (auto simp: migrate_store_def sbind_def load_cfg_def read_keys_def read_file_def ensure_def update_conv rpc
        split: prod.splits sum.splits if_splits option.splits list.splits dest!: upd sav asd)
qed

definition demo_migrate :: migrate_world where
  "demo_migrate = \<lparr>mw_config_io = io_ok, mw_pending = Inr [], mw_account_known = Inr (), mw_keys_io = io_ok,
     mw_fresh = ((3, 4), [5], [6]), mw_update_io = io_ok, mw_save_io = io_ok, mw_rename = Inr ()\<rparr>"

definition old_home :: profile_home where
  "old_home = demo_home\<lparr>ph_config := Some (default_sepolia\<lparr>store := ''0x5''\<rparr>), ph_keys := Some (demo_keys\<lparr>keys_handle := Some ''carol''\<rparr>),
     ph_wallet := Some (demo_wallet Unspent)\<rparr>"

theorem moving_stores_keeps_the_wallet_witness:
  "\<exists>h' m. migrate_store demo_crates demo_migrate None old_home = (h', Inr m) \<and> ph_wallet h' = None
     \<and> map_of (ph_aside h') ''tickets-5.json'' = Some (demo_wallet Unspent) \<and> previous_handle m = Some ''carol''"
proof -
  have old: "\<not> is_current_store demo_crates ''0x5''"
    unfolding is_current_store_def SEPOLIA_POOL_V4_def same_address_def
    by (simp add: demo_crates_def demo_felt_of_hex_def hex_digits_def STARK_PRIME_def)
  obtain h' r where run: "migrate_store demo_crates demo_migrate None old_home = (h', r)" by fastforce
  have m: "r = Inr \<lparr>previous_store = ''0x5'', previous_handle = Some ''carol''\<rparr>"
    using run old by (auto simp: migrate_store_def sbind_def load_cfg_def read_keys_def load_keys_def read_file_def on_keys_def update_keys_def write_file_def
        save_cfg_def set_aside_def demo_migrate_def old_home_def demo_home_def default_sepolia_def io_ok_def demo_keys_def split: prod.splits)
  have "store (default_sepolia\<lparr>store := ''0x5''\<rparr>) = ''0x5''" "aside_name ''0x5'' = ''tickets-5.json''"
    by (simp_all add: aside_name_def)
  with moving_stores_keeps_the_wallet [OF run, of "default_sepolia\<lparr>store := ''0x5''\<rparr>"] run m old show ?thesis
    by (auto simp: old_home_def demo_migrate_def)
qed

end
