(* ===== verification/Setup.thy ===== *)
theory Setup
  imports App Send_State
begin

text \<open>
  \<^verbatim>\<open>core/src/setup.rs\<close>: creating an identity as a checkpointed plan (create the account, fund it,
  deploy it, make the keys, register). The runner works on the plan, its file and the profile's
  files; \<open>sr_shown\<close> is what it tells the caller, the transactions it signs are in the profile's
  log. What the world answers to the step at index \<open>i\<close> is \<open>W i\<close>: a step runs at most once in a
  run.
\<close>

section \<open>The plan\<close>

datatype setup_step_kind = CreateAccount | Fund | Deploy | Init | Register

record setup_step =
  ss_kind :: setup_step_kind
  ss_done :: bool
  ss_tx_hash :: "string option"
  ss_note :: "string option"

datatype fund_mode = Transfer | External

record setup_state =
  su_profile_name :: string
  su_handle :: string
  su_account_name :: string
  su_fund_strk :: nat
  su_source_account :: string
  su_fund_mode :: fund_mode
  su_burner :: bool
  su_address :: "string option"
  su_steps :: "setup_step list"

definition new_plan :: "string \<Rightarrow> string \<Rightarrow> string \<Rightarrow> nat \<Rightarrow> string \<Rightarrow> setup_state" where
  "new_plan profile hdl acct strk source =
     \<lparr>su_profile_name = profile, su_handle = hdl, su_account_name = acct, su_fund_strk = strk, su_source_account = source,
      su_fund_mode = Transfer, su_burner = False, su_address = None,
      su_steps = map (\<lambda>k. \<lparr>ss_kind = k, ss_done = False, ss_tx_hash = None, ss_note = None\<rparr>) [CreateAccount, Fund, Deploy, Init, Register]\<rparr>"

definition new_plan_external_burner :: "string \<Rightarrow> string \<Rightarrow> string \<Rightarrow> nat \<Rightarrow> setup_state" where
  "new_plan_external_burner profile hdl acct strk =
     (new_plan profile hdl acct strk '''')\<lparr>su_fund_mode := External, su_burner := True\<rparr>"

definition setup_pending :: "setup_state \<Rightarrow> nat option" where
  "setup_pending s = position (\<lambda>x. \<not> ss_done x) (su_steps s)"

definition done_step :: "string option \<times> string option \<Rightarrow> setup_step \<Rightarrow> setup_step" where
  "done_step info x = x\<lparr>ss_done := True, ss_tx_hash := fst info, ss_note := snd info\<rparr>"

definition setup_mark_done :: "nat \<Rightarrow> string option \<times> string option \<Rightarrow> setup_state \<Rightarrow> setup_state res" where
  "setup_mark_done i info s =
     ensure (i < length (su_steps s)) Panic
       (Inr (s\<lparr>su_steps := (su_steps s)[i := done_step info (su_steps s ! i)]\<rparr>))"

definition setup_load :: "io \<Rightarrow> setup_state stored \<Rightarrow> setup_state res" where
  "setup_load io f = rbind (of_opt (File Missing) f) (read_file io)"

interpretation setup_steps: checkpoints "\<lambda>s. map ss_done (su_steps s)" setup_mark_done setup_pending
proof
  show "\<exists>s'. setup_mark_done i x s = Inr s' \<and> map ss_done (su_steps s') = (map ss_done (su_steps s))[i := True]"
    if "i < length (map ss_done (su_steps s))" for i s and x :: "string option \<times> string option"
    using that by (simp add: setup_mark_done_def map_update done_step_def)
  show "setup_mark_done i x s = Inl Panic"
    if "\<not> i < length (map ss_done (su_steps s))" for i s and x :: "string option \<times> string option"
    using that by (simp add: setup_mark_done_def)
  show "setup_pending s = position (\<lambda>d. \<not> d) (map ss_done (su_steps s))" for s
    by (simp add: setup_pending_def position_map)
qed

section \<open>Amounts\<close>

definition FALLBACK_FUNDING_STRK :: nat where "FALLBACK_FUNDING_STRK = 10"
definition FLAT_SETUP_FRI :: nat where "FLAT_SETUP_FRI = 1000000000000000000"
definition FRI_PER_STRK :: nat where "FRI_PER_STRK = 1000000000000000000"
definition SETUP_L2_GAS :: nat where "SETUP_L2_GAS = 40000000"

definition burner_name :: "crates \<Rightarrow> bytes \<Rightarrow> string" where
  "burner_name C draw = ''burner-'' @ hex_encode C draw"

text \<open>\<^verbatim>\<open>saturating_mul\<close> on \<^verbatim>\<open>u128\<close>, then checked arithmetic; \<^verbatim>\<open>as u64\<close> truncates.\<close>

definition recommended_funding_strk :: "nat \<times> nat \<times> nat \<Rightarrow> nat res" where
  "recommended_funding_strk prices =
     (case prices of (_, l2, _) \<Rightarrow>
       rbind (u128_mul SETUP_L2_GAS (min (l2 * 3) (2 ^ 128 - 1))) (\<lambda>g.
       let cost = SEPOLIA_V4_TICKET_PRICE_FRI + g div 2 + FLAT_SETUP_FRI
       in rbind (u128_mul cost 11) (\<lambda>c.
          Inr (div_ceil (c div 10) FRI_PER_STRK mod 2 ^ 64))))"

definition strk_to_fri_hex :: "nat \<Rightarrow> string" where
  "strk_to_fri_hex strk = hex0x (strk * FRI_PER_STRK)"

definition fund_needed :: "nat \<Rightarrow> nat \<Rightarrow> bool" where
  "fund_needed balance_fri strk = (balance_fri < strk * FRI_PER_STRK)"

text \<open>\<open>out\<close> is what the \<^verbatim>\<open>balance_of\<close> call answers.\<close>

definition read_balance_fri :: "string list res \<Rightarrow> nat res" where
  "read_balance_fri out = rbind out first_u128"

section \<open>The runner\<close>

datatype setup_event =
    SetupStarted nat nat setup_step_kind
  | SetupTxSubmitted setup_step_kind string
  | SetupStepCompleted setup_step_kind "string option" "string option"
  | AwaitingDeposit string nat nat
  | SetupCompleted

datatype step_outcome = Done "string option" "string option" | Park

record setup_run =
  sr_state :: setup_state
  sr_file :: "setup_state stored"
  sr_home :: profile_home
  sr_shown :: "setup_event list"

text \<open>\<open>sw_deploy\<close>: the hash, or the error's text.\<close>

record setup_world =
  sw_create :: "string res"
  sw_existing :: "string res"
  sw_balance :: "string list res"
  sw_node :: node_answers
  sw_deploy :: "string + string"
  sw_deploy_receipt :: "unit res"
  sw_init_ios :: "io \<times> unit res \<times> io"
  sw_fresh :: fresh_keys
  sw_config_ios :: "io \<times> io"
  sw_register :: register_world
  sw_save :: "unit res"

definition tell :: "setup_event \<Rightarrow> (setup_run, unit) st" where
  "tell e = smodify (\<lambda>s. s\<lparr>sr_shown := sr_shown s @ [e]\<rparr>)"

definition on_home :: "(profile_home, 'a) st \<Rightarrow> (setup_run, 'a) st" where
  "on_home m s = (case m (sr_home s) of (h, r) \<Rightarrow> (s\<lparr>sr_home := h\<rparr>, r))"

definition step_create :: "setup_world \<Rightarrow> (setup_run, step_outcome) st" where
  "step_create w =
     sbind (slift (case sw_create w of
              Inr addr \<Rightarrow> Inr (addr, addr)
            | Inl e \<Rightarrow> (case sw_existing w of Inr addr \<Rightarrow> Inr (addr, ''account already existed'') | Inl _ \<Rightarrow> Inl e))) (\<lambda>(addr, nt).
     sbind (smodify (\<lambda>s. s\<lparr>sr_state := (sr_state s)\<lparr>su_address := Some addr\<rparr>\<rparr>)) (\<lambda>_.
     sret (Done None (Some nt))))"

definition transfer_call :: "crates \<Rightarrow> string \<Rightarrow> nat \<Rightarrow> call res" where
  "transfer_call C addr strk =
     rbind (felt_from_hex C STRK_TOKEN) (\<lambda>token.
     rbind (felt_from_hex C addr) (\<lambda>dest.
     rbind (felt_from_hex C (strk_to_fri_hex strk)) (\<lambda>amount.
     Inr (call_new C token ''transfer'' [dest, amount, 0]))))"

text \<open>\<^verbatim>\<open>account_tx::submit\<close>, with its entry in the log.\<close>

definition submit_tx :: "crates \<Rightarrow> node_answers \<Rightarrow> string \<Rightarrow> call list \<Rightarrow> tx_kind \<Rightarrow> (profile_home, string) st" where
  "submit_tx C N acct calls kind =
     sbind (smodify (\<lambda>h. h\<lparr>ph_log := ph_log h @ [Signed acct calls kind (ph_keys h) (ph_wallet h)]\<rparr>)) (\<lambda>_.
     slift (account_submit C (nd_rpc N) (nd_accounts N) acct calls kind))"

definition step_fund :: "crates \<Rightarrow> setup_world \<Rightarrow> (setup_run, step_outcome) st" where
  "step_fund C w =
     sbind sget (\<lambda>s. let p = sr_state s; strk = su_fund_strk p in
     sbind (slift (ensure (0 < strk) (Tickets BadCount) (Inr ()))) (\<lambda>_.
     sbind (slift (of_opt (File Missing) (su_address p))) (\<lambda>addr.
     let balance = read_balance_fri (sw_balance w)
     in if su_fund_mode p = External then
          (let b = (case balance of Inr b \<Rightarrow> b | Inl _ \<Rightarrow> 0)
           in if \<not> fund_needed b strk then sret (Done None (Some ''funded externally''))
              else sbind (tell (AwaitingDeposit addr strk b)) (\<lambda>_. sret Park))
        else if (case balance of Inr b \<Rightarrow> \<not> fund_needed b strk | Inl _ \<Rightarrow> False) then
          sret (Done None (Some ''already funded (balance covers)''))
        else
          sbind (slift (transfer_call C addr strk)) (\<lambda>cl.
          sbind (on_home (submit_tx C (sw_node w) (su_source_account p) [cl] Transfer_Tx)) (\<lambda>tx.
          sbind (tell (SetupTxSubmitted Fund tx)) (\<lambda>_.
          sbind (slift (nd_receipt (sw_node w))) (\<lambda>_.
          sret (Done (Some tx) (Some (''funded '' @ dec_nat strk @ '' STRK'')))))))))) "

definition step_deploy :: "setup_world \<Rightarrow> (setup_run, step_outcome) st" where
  "step_deploy w =
     (case sw_deploy w of
        Inr tx \<Rightarrow>
          sbind (tell (SetupTxSubmitted Deploy tx)) (\<lambda>_.
          sbind (slift (sw_deploy_receipt w)) (\<lambda>_.
          sret (Done (Some tx) None)))
      | Inl msg \<Rightarrow>
          if str_contains (map lower_char msg) ''already deployed'' then sret (Done None (Some ''already deployed''))
          else slift (Inl (Net RpcError)))"

definition step_init :: "crates \<Rightarrow> setup_world \<Rightarrow> (setup_run, step_outcome) st" where
  "step_init C w =
     sbind sget (\<lambda>s.
     sbind (if ph_keys (sr_home s) \<noteq> None then sret (Some ''already initialized'')
            else sbind (on_home (init_identity C (sw_init_ios w) (sw_fresh w) (su_account_name (sr_state s)) None)) (\<lambda>_. sret None)) (\<lambda>nt.
     sbind (if su_burner (sr_state s)
            then sbind (on_home (load_cfg (fst (sw_config_ios w)))) (\<lambda>cfg.
                 on_home (save_cfg (snd (sw_config_ios w)) (cfg\<lparr>burner := True\<rparr>)))
            else sret ()) (\<lambda>_.
     sret (Done None nt))))"

definition step_register :: "crates \<Rightarrow> setup_world \<Rightarrow> (setup_run, step_outcome) st" where
  "step_register C w =
     sbind sget (\<lambda>s.
     sbind (on_home (App.register C (sw_register w) (su_handle (sr_state s)))) (\<lambda>out.
     sret (case out of
             Registered tx i \<Rightarrow> Done (Some tx) (Some (''registered at leaf '' @ dec_nat i))
           | AlreadyRegistered i \<Rightarrow> Done None (Some ''already registered''))))"

definition execute_step :: "crates \<Rightarrow> setup_world \<Rightarrow> setup_step_kind \<Rightarrow> (setup_run, step_outcome) st" where
  "execute_step C w kind =
     (case kind of
        CreateAccount \<Rightarrow> step_create w
      | Fund \<Rightarrow> step_fund C w
      | Deploy \<Rightarrow> step_deploy w
      | Init \<Rightarrow> step_init C w
      | Register \<Rightarrow> step_register C w)"

text \<open>\<^verbatim>\<open>SetupState::save\<close>.\<close>

definition save_setup :: "unit res \<Rightarrow> (setup_run, unit) st" where
  "save_setup ok s = (case ok of Inl e \<Rightarrow> (s, Inl e) | Inr _ \<Rightarrow> (s\<lparr>sr_file := Some (sr_state s)\<rparr>, Inr ()))"

text \<open>One turn of the loop; \<open>False\<close> when it parked.\<close>

definition setup_turn :: "crates \<Rightarrow> (nat \<Rightarrow> setup_world) \<Rightarrow> nat \<Rightarrow> (setup_run, bool) st" where
  "setup_turn C W i =
     sbind sget (\<lambda>s. let kind = ss_kind (su_steps (sr_state s) ! i) in
     sbind (tell (SetupStarted i (length (su_steps (sr_state s))) kind)) (\<lambda>_.
     sbind (execute_step C (W i) kind) (\<lambda>out.
       case out of
         Park \<Rightarrow> sret False
       | Done tx nt \<Rightarrow>
           sbind sget (\<lambda>s1.
           sbind (slift (setup_mark_done i (tx, nt) (sr_state s1))) (\<lambda>p.
           sbind (smodify (\<lambda>s. s\<lparr>sr_state := p\<rparr>)) (\<lambda>_.
           sbind (save_setup (sw_save (W i))) (\<lambda>_.
           sbind (tell (SetupStepCompleted kind tx nt)) (\<lambda>_.
           sret True))))))))"

section \<open>Turns\<close>

text \<open>A step touches the plan in its address only, and the file not at all.\<close>

definition same_plan :: "setup_run \<Rightarrow> setup_run \<Rightarrow> bool" where
  "same_plan s s' = (su_steps (sr_state s') = su_steps (sr_state s) \<and> su_fund_mode (sr_state s') = su_fund_mode (sr_state s)
     \<and> su_fund_strk (sr_state s') = su_fund_strk (sr_state s) \<and> su_source_account (sr_state s') = su_source_account (sr_state s)
     \<and> sr_file s' = sr_file s)"

interpretation plan: step_rel same_plan
  by unfold_locales (auto simp: same_plan_def)

lemma same_plan_steps:
  "stepwise same_plan (tell e)" "stepwise same_plan (on_home m)" "stepwise same_plan (smodify (\<lambda>s. s\<lparr>sr_state := (sr_state s)\<lparr>su_address := a\<rparr>\<rparr>))"
  by (auto simp: stepwise_def same_plan_def tell_def on_home_def split: prod.splits)

lemmas plan_intro = plan.steps_intro same_plan_steps

lemma execute_same_plan: "stepwise same_plan (execute_step C w kind)"
  unfolding execute_step_def step_create_def step_fund_def step_deploy_def step_init_def step_register_def Let_def
  by (auto split: setup_step_kind.splits sum.splits prod.splits intro!: plan_intro)

text \<open>A step reports no start of a step; it leaves the transfers signed so far and signs at most one.\<close>

fun is_start :: "setup_event \<Rightarrow> bool" where
  "is_start (SetupStarted i n k) = True"
| "is_start _ = False"

fun started_index :: "setup_event \<Rightarrow> nat" where
  "started_index (SetupStarted i n k) = i"
| "started_index _ = 0"

definition starts :: "setup_event list \<Rightarrow> nat list" where
  "starts es = map started_index (filter is_start es)"

definition no_start :: "setup_run \<Rightarrow> setup_run \<Rightarrow> bool" where
  "no_start s s' = (starts (sr_shown s') = starts (sr_shown s))"

interpretation quiet: step_rel no_start
  by unfold_locales (auto simp: no_start_def)

lemma quiet_tell: "\<not> is_start e \<Longrightarrow> stepwise no_start (tell e)"
  by (auto simp: stepwise_def no_start_def tell_def starts_def)

lemma quiet_steps: "stepwise no_start (on_home m)" "stepwise no_start (save_setup ok)"
  "(\<And>s. sr_shown (f s) = sr_shown s) \<Longrightarrow> stepwise no_start (smodify f)"
  by (auto simp: stepwise_def no_start_def on_home_def save_setup_def split: prod.splits sum.splits)

lemmas quiet_intro = quiet.steps_intro quiet_tell quiet_steps

lemma execute_quiet: "stepwise no_start (execute_step C w kind)"
  unfolding execute_step_def step_create_def step_fund_def step_deploy_def step_init_def step_register_def Let_def
  by (auto split: setup_step_kind.splits sum.splits prod.splits intro!: quiet_intro)

text \<open>One turn at the pending step.\<close>

lemma setup_turn_effect:
  assumes run: "setup_turn C W i s = (s', r)" and p: "setup_pending (sr_state s) = Some i"
  shows "starts (sr_shown s') = starts (sr_shown s) @ [i]
    \<and> su_fund_mode (sr_state s') = su_fund_mode (sr_state s) \<and> su_fund_strk (sr_state s') = su_fund_strk (sr_state s)
    \<and> (su_steps (sr_state s') = su_steps (sr_state s) \<and> sr_file s' = sr_file s \<and> r \<noteq> Inr True
       \<or> (\<exists>info. su_steps (sr_state s') = (su_steps (sr_state s))[i := done_step info (su_steps (sr_state s) ! i)]
            \<and> (r = Inr True \<and> sr_file s' = Some (sr_state s') \<or> (\<exists>e. r = Inl e) \<and> sr_file s' = sr_file s)))"
proof -
  have i: "i < length (su_steps (sr_state s))" using p by (simp add: setup_pending_def position_less)
  let ?kind = "ss_kind (su_steps (sr_state s) ! i)"
  let ?s0 = "s\<lparr>sr_shown := sr_shown s @ [SetupStarted i (length (su_steps (sr_state s))) ?kind]\<rparr>"
  obtain s1 r1 where x: "execute_step C (W i) ?kind ?s0 = (s1, r1)" by fastforce
  have same: "same_plan ?s0 s1" "no_start ?s0 s1"
    using steps_run [OF execute_same_plan x] steps_run [OF execute_quiet x] by simp_all
  have s0: "starts (sr_shown ?s0) = starts (sr_shown s) @ [i]" by (simp add: starts_def)
  show ?thesis
  proof (cases "\<exists>tx nt. r1 = Inr (Done tx nt)")
    case False
    then have "s' = s1 \<and> r \<noteq> Inr True"
      using run x by (auto simp: setup_turn_def sbind_def tell_def Let_def split: sum.splits step_outcome.splits)
    then show ?thesis using same s0 by (auto simp: same_plan_def no_start_def)
  next
    case True
    then obtain tx nt where r1: "r1 = Inr (Done tx nt)" by blast
    let ?p = "(sr_state s1)\<lparr>su_steps := (su_steps (sr_state s))[i := done_step (tx, nt) (su_steps (sr_state s) ! i)]\<rparr>"
    have m: "setup_mark_done i (tx, nt) (sr_state s1) = Inr ?p"
      using i same by (simp add: setup_mark_done_def same_plan_def)
    let ?s2 = "s1\<lparr>sr_state := ?p\<rparr>"
    have "(\<exists>e. sw_save (W i) = Inl e \<and> s' = ?s2 \<and> r = Inl e)
        \<or> s' = ?s2\<lparr>sr_file := Some ?p, sr_shown := sr_shown s1 @ [SetupStepCompleted ?kind tx nt]\<rparr> \<and> r = Inr True"
      using run x r1 m by (auto simp: setup_turn_def sbind_def tell_def save_setup_def Let_def split: sum.splits)
    then have "starts (sr_shown s') = starts (sr_shown s) @ [i] \<and> su_fund_mode (sr_state s') = su_fund_mode (sr_state s)
        \<and> su_fund_strk (sr_state s') = su_fund_strk (sr_state s)
        \<and> su_steps (sr_state s') = (su_steps (sr_state s))[i := done_step (tx, nt) (su_steps (sr_state s) ! i)]
        \<and> (r = Inr True \<and> sr_file s' = Some (sr_state s') \<or> (\<exists>e. r = Inl e) \<and> sr_file s' = sr_file s)"
      using same s0 by (auto simp: same_plan_def no_start_def starts_def)
    then show ?thesis by blast
  qed
qed

lemma undone_update:
  "i < length xs \<Longrightarrow> \<not> ss_done (xs ! i) \<Longrightarrow> length (filter (\<lambda>x. \<not> ss_done x) (xs[i := done_step info (xs ! i)])) < length (filter (\<lambda>x. \<not> ss_done x) xs)"
proof (induction xs arbitrary: i)
  case (Cons x xs)
  show ?case
  proof (cases i)
    case 0
    then show ?thesis using Cons.prems by (simp add: done_step_def)
  next
    case (Suc k)
    then show ?thesis using Cons.IH [of k] Cons.prems by simp
  qed
qed simp

lemma setup_turn_shrinks:
  assumes "setup_pending (sr_state s) = Some i" and "setup_turn C W i s = (s1, Inr True)"
  shows "length (filter (\<lambda>x. \<not> ss_done x) (su_steps (sr_state s1))) < length (filter (\<lambda>x. \<not> ss_done x) (su_steps (sr_state s)))"
proof -
  have i: "i < length (su_steps (sr_state s))" "\<not> ss_done (su_steps (sr_state s) ! i)"
    using assms(1) by (auto simp: setup_pending_def position_Some)
  have "\<exists>info. su_steps (sr_state s1) = (su_steps (sr_state s))[i := done_step info (su_steps (sr_state s) ! i)]"
    using setup_turn_effect [OF assms(2,1)] by auto
  then show ?thesis using undone_update [OF i] by auto
qed

section \<open>The run\<close>

function run_setup :: "crates \<Rightarrow> (nat \<Rightarrow> setup_world) \<Rightarrow> setup_run \<Rightarrow> setup_run \<times> unit res" where
  "run_setup C W s =
     (case setup_pending (sr_state s) of
        None \<Rightarrow> tell SetupCompleted s
      | Some i \<Rightarrow>
          (case setup_turn C W i s of
             (s1, Inl e) \<Rightarrow> (s1, Inl e)
           | (s1, Inr going) \<Rightarrow> if going then run_setup C W s1 else (s1, Inr ())))"
  by pat_completeness auto
termination
  by (relation "measure (\<lambda>(C, W, s). length (filter (\<lambda>x. \<not> ss_done x) (su_steps (sr_state s))))") (auto dest: setup_turn_shrinks [OF _ sym])

declare run_setup.simps [simp del]

text \<open>The indices still to do, in order; a finished turn takes the first off.\<close>

definition to_do :: "setup_step list \<Rightarrow> nat list" where
  "to_do xs = filter (\<lambda>j. \<not> ss_done (xs ! j)) [0..<length xs]"

lemma done_step_done [simp]: "ss_done (done_step info x)" "ss_kind (done_step info x) = ss_kind x"
  by (simp_all add: done_step_def)

lemma to_do_step:
  assumes "position (\<lambda>x. \<not> ss_done x) xs = Some i"
  shows "to_do xs = i # to_do (xs[i := done_step info (xs ! i)])"
proof -
  have i: "i < length xs" "\<not> ss_done (xs ! i)" "\<forall>j < i. ss_done (xs ! j)" using assms by (auto simp: position_Some)
  have up: "[0..<length xs] = [0..<i] @ i # [Suc i..<length xs]"
    using i(1) by (metis le0 less_imp_le_nat upt_add_eq_append upt_conv_Cons le_add_diff_inverse)
  have a: "filter (\<lambda>j. \<not> ss_done (ys ! j)) [0..<i] = []" if "\<forall>j < i. ss_done (ys ! j)" for ys
    using that by (auto simp: filter_empty_conv)
  have "filter (\<lambda>j. \<not> ss_done (xs[i := done_step info (xs ! i)] ! j)) [Suc i..<length xs] = filter (\<lambda>j. \<not> ss_done (xs ! j)) [Suc i..<length xs]"
    by (rule filter_cong) auto
  then show ?thesis using i a [of xs] a [of "xs[i := done_step info (xs ! i)]"] by (simp add: to_do_def up)
qed

lemma to_do_Nil: "to_do xs = [] \<longleftrightarrow> (\<forall>x \<in> set xs. ss_done x)"
  by (auto simp: to_do_def filter_empty_conv all_set_conv_all_nth)

text \<open>Where a turn parks.\<close>

definition parked :: "setup_run \<Rightarrow> bool" where
  "parked s = (su_fund_mode (sr_state s) = External \<and> (\<exists>addr b. sr_shown s \<noteq> [] \<and> last (sr_shown s) = AwaitingDeposit addr (su_fund_strk (sr_state s)) b
     \<and> fund_needed b (su_fund_strk (sr_state s))))"

lemma execute_park:
  assumes "execute_step C w kind s = (s', Inr Park)"
  shows "parked s'"
  using assms
  by (cases kind)
    (auto simp: execute_step_def step_create_def step_fund_def step_deploy_def step_init_def step_register_def sbind_def Let_def tell_def parked_def
      split: sum.splits if_splits register_outcome.splits prod.splits)

lemma setup_turn_park:
  assumes "setup_turn C W i s = (s', Inr False)"
  shows "parked s'"
  using assms
  by (auto simp: setup_turn_def sbind_def Let_def split: step_outcome.splits prod.splits sum.splits dest: execute_park)

section \<open>Properties\<close>

text \<open>What a run keeps of the plan.\<close>

definition progress :: "setup_run \<Rightarrow> setup_run \<Rightarrow> bool" where
  "progress s s' =
     (length (su_steps (sr_state s')) = length (su_steps (sr_state s))
      \<and> map ss_kind (su_steps (sr_state s')) = map ss_kind (su_steps (sr_state s))
      \<and> (\<forall>j < length (su_steps (sr_state s)). ss_done (su_steps (sr_state s) ! j) \<longrightarrow> su_steps (sr_state s') ! j = su_steps (sr_state s) ! j)
      \<and> (sr_file s' = sr_file s \<or> (\<exists>p. sr_file s' = Some p \<and> length (su_steps p) = length (su_steps (sr_state s))
           \<and> (\<forall>j < length (su_steps p). ss_done (su_steps p ! j) \<longrightarrow> su_steps p ! j = su_steps (sr_state s') ! j))))"

lemma progress_refl: "progress s s"
  by (simp add: progress_def)

lemma progress_trans:
  assumes a: "progress s s1" and b: "progress s1 s2"
  shows "progress s s2"
proof -
  have kept: "su_steps (sr_state s2) ! j = x" if "su_steps (sr_state s1) ! j = x" "ss_done x" "j < length (su_steps (sr_state s1))" for j x
    using b that by (auto simp: progress_def)
  have len: "length (su_steps (sr_state s1)) = length (su_steps (sr_state s))" "length (su_steps (sr_state s2)) = length (su_steps (sr_state s))"
    using a b by (auto simp: progress_def)
  have "sr_file s2 = sr_file s \<or> (\<exists>p. sr_file s2 = Some p \<and> length (su_steps p) = length (su_steps (sr_state s))
           \<and> (\<forall>j < length (su_steps p). ss_done (su_steps p ! j) \<longrightarrow> su_steps p ! j = su_steps (sr_state s2) ! j))"
  proof (cases "sr_file s2 = sr_file s1")
    case True
    then show ?thesis using a kept len by (auto simp: progress_def)
  next
    case False
    then show ?thesis using b len by (auto simp: progress_def)
  qed
  then show ?thesis using a b kept len by (auto simp: progress_def)
qed

lemma setup_turn_progress:
  assumes run: "setup_turn C W i s = (s', r)" and p: "setup_pending (sr_state s) = Some i"
  shows "progress s s'"
proof -
  have i: "i < length (su_steps (sr_state s))" "\<not> ss_done (su_steps (sr_state s) ! i)"
    using p by (auto simp: setup_pending_def position_Some)
  show ?thesis
    using setup_turn_effect [OF run p] i by (auto simp: progress_def map_update nth_list_update list_update_same_conv)
qed

lemma run_setup_progress:
  "run_setup C W s = (s', r) \<Longrightarrow> progress s s'
     \<and> (\<exists>k. starts (sr_shown s') = starts (sr_shown s) @ take k (to_do (su_steps (sr_state s))))
     \<and> (r = Inr () \<longrightarrow> (\<forall>x \<in> set (su_steps (sr_state s')). ss_done x) \<or> parked s')"
proof (induction C W s rule: run_setup.induct)
  case (1 C W s)
  show ?case
  proof (cases "setup_pending (sr_state s)")
    case None
    then have "s' = s\<lparr>sr_shown := sr_shown s @ [SetupCompleted]\<rparr>" using 1(2) by (auto simp: run_setup.simps [of C W s] tell_def)
    moreover have "\<forall>x \<in> set (su_steps (sr_state s)). ss_done x" using None by (auto simp: setup_pending_def position_None)
    ultimately show ?thesis by (auto simp: progress_def starts_def intro!: exI [of _ 0])
  next
    case (Some i)
    obtain s1 r1 where t: "setup_turn C W i s = (s1, r1)" by fastforce
    note eff = setup_turn_effect [OF t Some]
    have td: "to_do (su_steps (sr_state s)) = i # to_do ((su_steps (sr_state s))[i := done_step info (su_steps (sr_state s) ! i)])" for info
      using Some by (intro to_do_step) (simp add: setup_pending_def)
    show ?thesis
    proof (cases "r1 = Inr True")
      case False
      then have "s' = s1 \<and> (r = Inr () \<longrightarrow> r1 = Inr False)"
        using 1(2) Some t by (auto simp: run_setup.simps [of C W s] split: sum.splits if_splits)
      moreover have "take 1 (to_do (su_steps (sr_state s))) = [i]" using td [of "(None, None)"] by simp
      moreover have "r1 = Inr False \<Longrightarrow> parked s1" using setup_turn_park t by blast
      ultimately show ?thesis using setup_turn_progress [OF t Some] eff by metis
    next
      case True
      then have rest: "run_setup C W s1 = (s', r)" using 1(2) Some t by (auto simp: run_setup.simps [of C W s])
      obtain info where info: "su_steps (sr_state s1) = (su_steps (sr_state s))[i := done_step info (su_steps (sr_state s) ! i)]"
        using eff True by auto
      obtain k where "starts (sr_shown s') = starts (sr_shown s1) @ take k (to_do (su_steps (sr_state s1)))"
        using 1(1) [OF Some t [symmetric] True TrueI rest] by auto
      then have "starts (sr_shown s') = starts (sr_shown s) @ take (Suc k) (to_do (su_steps (sr_state s)))"
        using eff td [of info] info by simp
      then show ?thesis
        using 1(1) [OF Some t [symmetric] True TrueI rest] progress_trans [OF setup_turn_progress [OF t Some]] by blast
    qed
  qed
qed

text \<open>The transfers signed so far.\<close>

fun is_transfer :: "tx_request \<Rightarrow> bool" where
  "is_transfer (Signed acct calls kind k w) = (kind = Transfer_Tx)"

definition transfers :: "profile_home \<Rightarrow> tx_request list" where
  "transfers h = filter is_transfer (ph_log h)"

text \<open>A transfer a funding step may sign: exactly the plan's amount to an address, in transfer
  mode, when the balance read in that step failed or does not cover the amount.\<close>

definition due :: "crates \<Rightarrow> setup_world \<Rightarrow> setup_state \<Rightarrow> tx_request \<Rightarrow> bool" where
  "due C w p t =
     (su_fund_mode p = Transfer \<and> 0 < su_fund_strk p
      \<and> (\<exists>addr cl k wl. t = Signed (su_source_account p) [cl] Transfer_Tx k wl \<and> transfer_call C addr (su_fund_strk p) = Inr cl)
      \<and> (case read_balance_fri (sw_balance w) of Inr b \<Rightarrow> fund_needed b (su_fund_strk p) | Inl _ \<Rightarrow> True))"

definition no_transfer :: "setup_run \<Rightarrow> setup_run \<Rightarrow> bool" where
  "no_transfer s s' = (transfers (sr_home s') = transfers (sr_home s))"

interpretation unpaid: step_rel no_transfer
  by unfold_locales (auto simp: no_transfer_def)

lemma app_steps_transfers:
  assumes "stepwise (\<lambda>h h'. ph_log h' = ph_log h) m"
  shows "stepwise (\<lambda>h h'. transfers h' = transfers h) m"
  using assms by (auto simp: stepwise_def transfers_def)

lemma send_tx_transfers: "kind \<noteq> Transfer_Tx \<Longrightarrow> stepwise (\<lambda>h h'. transfers h' = transfers h) (send_tx C N acct calls kind)"
  by (auto simp: stepwise_def send_tx_def sbind_def transfers_def)

lemma register_transfers: "stepwise (\<lambda>h h'. transfers h' = transfers h) (App.register C w name)"
  unfolding register_def register_with_def
  by (auto split: prod.splits option.splits intro!: keep.steps_intro app_steps_transfers [OF app_steps_log(1)] app_steps_transfers [OF app_steps_log(3)]
      app_steps_transfers [OF app_steps_log(4)] send_tx_transfers)

lemma init_transfers: "stepwise (\<lambda>h h'. transfers h' = transfers h) (init_identity C ios fresh acct st)"
  unfolding init_identity_def
  by (auto split: prod.splits intro!: keep.steps_intro app_steps_transfers [OF app_steps_log(2)] app_steps_transfers [OF app_steps_log(3)])

lemma unpaid_steps:
  "stepwise (\<lambda>h h'. transfers h' = transfers h) m \<Longrightarrow> stepwise no_transfer (on_home m)"
  "stepwise no_transfer (tell e)" "stepwise no_transfer (save_setup ok)"
  "(\<And>s. sr_home (f s) = sr_home s) \<Longrightarrow> stepwise no_transfer (smodify f)"
  by (auto simp: stepwise_def no_transfer_def on_home_def tell_def save_setup_def split: prod.splits sum.splits) (metis fst_conv)

lemmas unpaid_intro = unpaid.steps_intro unpaid_steps app_steps_transfers [OF app_steps_log(1)] app_steps_transfers [OF app_steps_log(2)]
  register_transfers init_transfers

lemma execute_unpaid:
  assumes "kind \<noteq> Fund"
  shows "stepwise no_transfer (execute_step C w kind)"
  using assms unfolding execute_step_def step_create_def step_deploy_def step_init_def step_register_def
  by (auto split: setup_step_kind.splits sum.splits prod.splits intro!: unpaid_intro)

lemma step_fund_transfers:
  assumes "step_fund C w s = (s', r)"
  shows "transfers (sr_home s') = transfers (sr_home s) \<or> (\<exists>t. transfers (sr_home s') = transfers (sr_home s) @ [t] \<and> due C w (sr_state s) t)"
proof (cases "su_fund_mode (sr_state s)")
  case External
  then show ?thesis using assms
    by (auto simp: step_fund_def sbind_def Let_def tell_def split: sum.splits if_splits)
next
  case Transfer
  then show ?thesis using assms
    by (auto simp: step_fund_def sbind_def Let_def tell_def on_home_def submit_tx_def transfers_def due_def ensure_def of_opt_def
        split: sum.splits if_splits option.splits prod.splits)
qed

lemma setup_turn_transfers:
  assumes run: "setup_turn C W i s = (s', r)" and p: "setup_pending (sr_state s) = Some i"
  shows "transfers (sr_home s') = transfers (sr_home s)
     \<or> ss_kind (su_steps (sr_state s) ! i) = Fund \<and> (\<exists>t. transfers (sr_home s') = transfers (sr_home s) @ [t] \<and> due C (W i) (sr_state s) t)"
proof -
  let ?kind = "ss_kind (su_steps (sr_state s) ! i)"
  let ?s0 = "s\<lparr>sr_shown := sr_shown s @ [SetupStarted i (length (su_steps (sr_state s))) ?kind]\<rparr>"
  obtain s1 r1 where x: "execute_step C (W i) ?kind ?s0 = (s1, r1)" by fastforce
  have "sr_home s' = sr_home s1"
    using run x
    by (auto simp: setup_turn_def sbind_def tell_def save_setup_def Let_def split: sum.splits step_outcome.splits)
  moreover have "transfers (sr_home s1) = transfers (sr_home s)
     \<or> ?kind = Fund \<and> (\<exists>t. transfers (sr_home s1) = transfers (sr_home s) @ [t] \<and> due C (W i) (sr_state s) t)"
  proof (cases "?kind = Fund")
    case True
    then show ?thesis using x step_fund_transfers [of C "W i" ?s0 s1 r1] by (simp add: execute_step_def)
  next
    case False
    then show ?thesis using steps_run [OF execute_unpaid x] by (simp add: no_transfer_def)
  qed
  ultimately show ?thesis by simp
qed

definition funds_to_do :: "setup_step list \<Rightarrow> nat" where
  "funds_to_do xs = length (filter (\<lambda>j. ss_kind (xs ! j) = Fund) (to_do xs))"

lemma due_same:
  "su_fund_mode p' = su_fund_mode p \<Longrightarrow> su_fund_strk p' = su_fund_strk p \<Longrightarrow> su_source_account p' = su_source_account p \<Longrightarrow> due C w p' t = due C w p t"
  by (simp add: due_def split: sum.split)

lemma setup_turn_source:
  assumes run: "setup_turn C W i s = (s', r)"
  shows "su_source_account (sr_state s') = su_source_account (sr_state s)"
proof -
  let ?kind = "ss_kind (su_steps (sr_state s) ! i)"
  let ?s0 = "s\<lparr>sr_shown := sr_shown s @ [SetupStarted i (length (su_steps (sr_state s))) ?kind]\<rparr>"
  obtain s1 r1 where x: "execute_step C (W i) ?kind ?s0 = (s1, r1)" by fastforce
  have "su_source_account (sr_state s1) = su_source_account (sr_state s)"
    using steps_run [OF execute_same_plan x] by (simp add: same_plan_def)
  then show ?thesis
    using run x
    by (auto simp: setup_turn_def sbind_def tell_def save_setup_def Let_def setup_mark_done_def ensure_def
        split: sum.splits step_outcome.splits if_splits)
qed

lemma run_setup_transfers:
  "run_setup C W s = (s', r) \<Longrightarrow>
     \<exists>ts. transfers (sr_home s') = transfers (sr_home s) @ ts \<and> length ts \<le> funds_to_do (su_steps (sr_state s))
        \<and> (\<forall>t \<in> set ts. \<exists>i. due C (W i) (sr_state s) t)"
proof (induction C W s rule: run_setup.induct)
  case (1 C W s)
  show ?case
  proof (cases "setup_pending (sr_state s)")
    case None
    then show ?thesis using 1(2) by (auto simp: run_setup.simps [of C W s] tell_def)
  next
    case (Some i)
    obtain s1 r1 where t: "setup_turn C W i s = (s1, r1)" by fastforce
    note eff = setup_turn_effect [OF t Some]
    let ?one = "if ss_kind (su_steps (sr_state s) ! i) = Fund then 1 else 0 :: nat"
    obtain ts1 where ts1: "transfers (sr_home s1) = transfers (sr_home s) @ ts1" "length ts1 \<le> ?one" "\<forall>t \<in> set ts1. due C (W i) (sr_state s) t"
      using setup_turn_transfers [OF t Some] by (cases "transfers (sr_home s1) = transfers (sr_home s)") auto
    have td: "funds_to_do (su_steps (sr_state s)) = ?one + funds_to_do ((su_steps (sr_state s))[i := done_step info (su_steps (sr_state s) ! i)])" for info
    proof -
      have "ss_kind ((su_steps (sr_state s))[i := done_step info (su_steps (sr_state s) ! i)] ! j) = ss_kind (su_steps (sr_state s) ! j)" for j
        by (cases "i < length (su_steps (sr_state s))"; cases "j = i") (auto simp: list_update_beyond)
      moreover have "to_do (su_steps (sr_state s)) = i # to_do ((su_steps (sr_state s))[i := done_step info (su_steps (sr_state s) ! i)])"
        using Some by (intro to_do_step) (simp add: setup_pending_def)
      ultimately show ?thesis by (simp add: funds_to_do_def)
    qed
    show ?thesis
    proof (cases "r1 = Inr True")
      case False
      then have "s' = s1" using 1(2) Some t by (auto simp: run_setup.simps [of C W s] split: sum.splits if_splits)
      then show ?thesis using ts1 td [of "(None, None)"] by (intro exI [of _ ts1]) auto
    next
      case True
      then have rest: "run_setup C W s1 = (s', r)" using 1(2) Some t by (auto simp: run_setup.simps [of C W s])
      obtain info where info: "su_steps (sr_state s1) = (su_steps (sr_state s))[i := done_step info (su_steps (sr_state s) ! i)]"
        using eff True by auto
      obtain ts where ts: "transfers (sr_home s') = transfers (sr_home s1) @ ts" "length ts \<le> funds_to_do (su_steps (sr_state s1))"
        "\<forall>t \<in> set ts. \<exists>i. due C (W i) (sr_state s1) t"
        using 1(1) [OF Some t [symmetric] True TrueI rest] by blast
      have "due C w (sr_state s1) t = due C w (sr_state s) t" for w t
        using eff setup_turn_source [OF t] by (intro due_same) auto
      then show ?thesis using ts ts1 td [of info] info by (intro exI [of _ "ts1 @ ts"]) auto
    qed
  qed
qed

text \<open>The states in which the turns of a run start.\<close>

inductive reaches :: "crates \<Rightarrow> (nat \<Rightarrow> setup_world) \<Rightarrow> setup_run \<Rightarrow> setup_run \<Rightarrow> bool" for C W s where
  here: "reaches C W s s"
| turn: "reaches C W s s1 \<Longrightarrow> setup_pending (sr_state s1) = Some i \<Longrightarrow> setup_turn C W i s1 = (s2, Inr True) \<Longrightarrow> reaches C W s s2"

text \<open>A step's record is what executing it came to, in the turn of the run it was due in.\<close>

definition executed :: "crates \<Rightarrow> (nat \<Rightarrow> setup_world) \<Rightarrow> setup_run \<Rightarrow> nat \<Rightarrow> setup_step \<Rightarrow> bool" where
  "executed C W s j x =
     (\<exists>s1 s2 tx nt. reaches C W s s1 \<and> setup_pending (sr_state s1) = Some j
       \<and> execute_step C (W j) (ss_kind x) (s1\<lparr>sr_shown := sr_shown s1 @ [SetupStarted j (length (su_steps (sr_state s1))) (ss_kind x)]\<rparr>) = (s2, Inr (Done tx nt))
       \<and> ss_done x \<and> ss_tx_hash x = tx \<and> ss_note x = nt)"

lemma turn_executes:
  assumes run: "setup_turn C W i s = (s', r)" and p: "setup_pending (sr_state s) = Some i" and d: "ss_done (su_steps (sr_state s') ! i)"
    and s: "reaches C W s0 s"
  shows "executed C W s0 i (su_steps (sr_state s') ! i)"
proof -
  have i: "i < length (su_steps (sr_state s))" "\<not> ss_done (su_steps (sr_state s) ! i)" using p by (auto simp: setup_pending_def position_Some)
  let ?kind = "ss_kind (su_steps (sr_state s) ! i)"
  let ?s1 = "s\<lparr>sr_shown := sr_shown s @ [SetupStarted i (length (su_steps (sr_state s))) ?kind]\<rparr>"
  obtain s1 r1 where x: "execute_step C (W i) ?kind ?s1 = (s1, r1)" by fastforce
  have same: "su_steps (sr_state s1) = su_steps (sr_state s)"
    using steps_run [OF execute_same_plan x] by (simp add: same_plan_def)
  have "\<exists>tx nt. r1 = Inr (Done tx nt) \<and> su_steps (sr_state s') ! i = done_step (tx, nt) (su_steps (sr_state s) ! i)"
    using run x same i d
    by (cases r1) (auto simp: setup_turn_def sbind_def tell_def save_setup_def setup_mark_done_def Let_def split: step_outcome.splits sum.splits)
  then show ?thesis unfolding executed_def using s p x by (auto simp: done_step_def)
qed

lemma run_executes:
  "run_setup C W s = (s', r) \<Longrightarrow> reaches C W s0 s \<Longrightarrow> j < length (su_steps (sr_state s)) \<Longrightarrow> ss_done (su_steps (sr_state s') ! j) \<Longrightarrow>
     ss_done (su_steps (sr_state s) ! j) \<or> executed C W s0 j (su_steps (sr_state s') ! j)"
proof (induction C W s rule: run_setup.induct)
  case (1 C W s)
  show ?case
  proof (cases "setup_pending (sr_state s)")
    case None
    then show ?thesis using 1(2,5) by (auto simp: run_setup.simps [of C W s] tell_def)
  next
    case (Some i)
    obtain s1 x where t: "setup_turn C W i s = (s1, x)" by fastforce
    have pr: "progress s s1" by (rule setup_turn_progress [OF t Some])
    have other: "su_steps (sr_state s1) ! k = su_steps (sr_state s) ! k" if "k \<noteq> i" for k
      using setup_turn_effect [OF t Some] that by auto
    have here: "ss_done (su_steps (sr_state s) ! j) \<or> executed C W s0 j (su_steps (sr_state s1) ! j)" if "ss_done (su_steps (sr_state s1) ! j)"
      using that other [of j] turn_executes [OF t Some _ 1(3)] by (cases "j = i") auto
    show ?thesis
    proof (cases "x = Inr True")
      case False
      then have "s' = s1" using 1(2) Some t by (auto simp: run_setup.simps [of C W s] split: sum.splits if_splits)
      then show ?thesis using here 1(5) by simp
    next
      case True
      then have rest: "run_setup C W s1 = (s', r)" using 1(2) Some t by (simp add: run_setup.simps [of C W s])
      have len: "j < length (su_steps (sr_state s1))" using pr 1(4) by (simp add: progress_def)
      have r1: "reaches C W s0 s1" by (rule reaches.turn [OF 1(3) Some t [unfolded True]])
      have kept: "su_steps (sr_state s') ! j = su_steps (sr_state s1) ! j" if "ss_done (su_steps (sr_state s1) ! j)"
        using run_setup_progress [OF rest] that len by (auto simp: progress_def)
      show ?thesis
        using 1(1) [OF Some t [symmetric] True TrueI rest r1 len 1(5)] here kept by auto
    qed
  qed
qed

section \<open>Claims of the run\<close>

text \<open>C26: Running a setup plan, from any checkpoint and whatever the world answers, ends. Steps are
  started in order, each once, and only those that were not done; what was done keeps its record;
  the plan keeps its steps. Whatever the plan, in memory or saved, claims beyond what was done before
  was executed in this run, in its turn, and the record is what executing it came to. When the run
  reports no error, every step is done, or it waits for a deposit the balance does not cover yet.\<close>

theorem setup_never_redoes_a_step:
  assumes "run_setup C W s = (s', r)"
  shows "(\<exists>k. starts (sr_shown s') = starts (sr_shown s) @ take k (filter (\<lambda>j. \<not> ss_done (su_steps (sr_state s) ! j)) [0..<length (su_steps (sr_state s))]))
     \<and> map ss_kind (su_steps (sr_state s')) = map ss_kind (su_steps (sr_state s))
     \<and> (\<forall>j < length (su_steps (sr_state s)). ss_done (su_steps (sr_state s) ! j) \<longrightarrow> su_steps (sr_state s') ! j = su_steps (sr_state s) ! j)
     \<and> (sr_file s' = sr_file s \<or> (\<exists>p. sr_file s' = Some p
          \<and> (\<forall>j < length (su_steps p). ss_done (su_steps p ! j) \<longrightarrow> su_steps p ! j = su_steps (sr_state s') ! j)))
     \<and> (\<forall>j < length (su_steps (sr_state s)). ss_done (su_steps (sr_state s') ! j) \<longrightarrow>
          ss_done (su_steps (sr_state s) ! j) \<or> executed C W s j (su_steps (sr_state s') ! j))
     \<and> (r = Inr () \<longrightarrow> (\<forall>x \<in> set (su_steps (sr_state s')). ss_done x) \<or> parked s')"
  using run_setup_progress [OF assms] run_executes [OF assms reaches.here] unfolding progress_def to_do_def by blast

text \<open>Setting up moves the user's money only as planned. In external mode no run signs any
  transfer. In transfer mode a run signs at most one per funding step not yet done, each from the
  source account, for exactly the planned amount, and only when the balance read in that very
  step failed or fell short of it.\<close>

theorem funding_is_never_sent_unasked:
  assumes "run_setup C W s = (s', r)"
  shows "\<exists>ts. transfers (sr_home s') = transfers (sr_home s) @ ts
     \<and> length ts \<le> length (filter (\<lambda>j. ss_kind (su_steps (sr_state s) ! j) = Fund) (to_do (su_steps (sr_state s))))
     \<and> (su_fund_mode (sr_state s) = External \<longrightarrow> ts = [])
     \<and> (\<forall>t \<in> set ts. \<exists>i addr cl k wl. t = Signed (su_source_account (sr_state s)) [cl] Transfer_Tx k wl
          \<and> transfer_call C addr (su_fund_strk (sr_state s)) = Inr cl
          \<and> (case read_balance_fri (sw_balance (W i)) of Inr b \<Rightarrow> b < su_fund_strk (sr_state s) * 10 ^ 18 | Inl _ \<Rightarrow> True))"
proof -
  obtain ts where ts: "transfers (sr_home s') = transfers (sr_home s) @ ts" "length ts \<le> funds_to_do (su_steps (sr_state s))"
    "\<forall>t \<in> set ts. \<exists>i. due C (W i) (sr_state s) t" using run_setup_transfers [OF assms] by blast
  have "ts = []" if "su_fund_mode (sr_state s) = External"
    using ts(3) that by (cases ts) (auto simp: due_def)
  moreover have "\<exists>i addr cl k wl. t = Signed (su_source_account (sr_state s)) [cl] Transfer_Tx k wl
          \<and> transfer_call C addr (su_fund_strk (sr_state s)) = Inr cl
          \<and> (case read_balance_fri (sw_balance (W i)) of Inr b \<Rightarrow> b < su_fund_strk (sr_state s) * 10 ^ 18 | Inl _ \<Rightarrow> True)" if "t \<in> set ts" for t
    using ts(3) that by (fastforce simp: due_def fund_needed_def FRI_PER_STRK_def split: sum.splits)
  ultimately show ?thesis using ts(1,2) unfolding funds_to_do_def by blast
qed

text \<open>A funding transfer whose submission or receipt fails is signed again when the plan is
  resumed, as long as the balance has not grown: nothing of it is recorded before the wait, so a
  transfer that is only slow to land is paid twice.\<close>

theorem unlanded_transfer_is_sent_again:
  assumes p: "setup_pending (sr_state s) = Some i" "ss_kind (su_steps (sr_state s) ! i) = Fund" "su_fund_mode (sr_state s) = Transfer"
    and plan: "0 < su_fund_strk (sr_state s)" "su_address (sr_state s) = Some addr" "transfer_call C addr (su_fund_strk (sr_state s)) = Inr cl"
    and world: "read_balance_fri (sw_balance (W i)) = Inr 0"
      "rbind (account_submit C (nd_rpc (sw_node (W i))) (nd_accounts (sw_node (W i))) (su_source_account (sr_state s)) [cl] Transfer_Tx) (\<lambda>_. nd_receipt (sw_node (W i))) = Inl e"
  shows "\<exists>s1 s2 t. run_setup C W s = (s1, Inl e) \<and> run_setup C W s1 = (s2, Inl e)
     \<and> sr_file s2 = sr_file s \<and> transfers (sr_home s2) = transfers (sr_home s) @ [t, t]"
proof -
  have once: "\<exists>s1. run_setup C W x = (s1, Inl e) \<and> sr_state s1 = sr_state s \<and> sr_file s1 = sr_file x
      \<and> ph_keys (sr_home s1) = ph_keys (sr_home x) \<and> ph_wallet (sr_home s1) = ph_wallet (sr_home x)
      \<and> transfers (sr_home s1) = transfers (sr_home x) @ [Signed (su_source_account (sr_state s)) [cl] Transfer_Tx (ph_keys (sr_home x)) (ph_wallet (sr_home x))]"
    if "sr_state x = sr_state s" for x
    using that p plan world
    by (cases "account_submit C (nd_rpc (sw_node (W i))) (nd_accounts (sw_node (W i))) (su_source_account (sr_state s)) [cl] Transfer_Tx")
      (auto simp: run_setup.simps [of C W x] setup_turn_def execute_step_def step_fund_def sbind_def tell_def on_home_def submit_tx_def transfers_def
        fund_needed_def FRI_PER_STRK_def Let_def)
  from once [OF refl] obtain s1 where s1: "run_setup C W s = (s1, Inl e)" "sr_state s1 = sr_state s" "sr_file s1 = sr_file s"
    "ph_keys (sr_home s1) = ph_keys (sr_home s)" "ph_wallet (sr_home s1) = ph_wallet (sr_home s)"
    "transfers (sr_home s1) = transfers (sr_home s) @ [Signed (su_source_account (sr_state s)) [cl] Transfer_Tx (ph_keys (sr_home s)) (ph_wallet (sr_home s))]"
    by blast
  from once [OF s1(2)] s1 show ?thesis by auto
qed

text \<open>\<^verbatim>\<open>recommended_funding_strk\<close> saturates the L2 price but multiplies it unchecked.\<close>

lemma recommended_funding_overflows:
  assumes "2835686391007820528861455061931 < l2"
  shows "recommended_funding_strk (l1, l2, l1d) = Inl Overflow"
proof -
  have "\<not> SETUP_L2_GAS * min (l2 * 3) (2 ^ 128 - 1) < 2 ^ 128" using assms by (auto simp: SETUP_L2_GAS_def min_def)
  then show ?thesis by (simp add: recommended_funding_strk_def u128_mul_def)
qed

lemma recommended_funding_value:
  assumes "l2 \<le> 10 ^ 20"
  shows "recommended_funding_strk (l1, l2, l1d) = Inr (div_ceil ((4 * 10 ^ 18 + 60000000 * l2) * 11 div 10) (10 ^ 18))"
proof -
  have "min (l2 * 3) (2 ^ 128 - 1) = l2 * 3" using assms by simp
  moreover have "div_ceil ((4 * 10 ^ 18 + 60000000 * l2) * 11 div 10) (10 ^ 18) < 2 ^ 64"
  proof -
    have "(4 * 10 ^ 18 + 60000000 * l2) * 11 div 10 \<le> 6600000004400000000000000000" using assms by simp
    then have "(4 * 10 ^ 18 + 60000000 * l2) * 11 div 10 div 10 ^ 18 \<le> 6600000004400000000000000000 div 10 ^ 18" by (rule div_le_mono)
    then show ?thesis by (simp add: div_ceil_def)
  qed
  ultimately show ?thesis
    using assms by (simp add: recommended_funding_strk_def u128_mul_def SETUP_L2_GAS_def SEPOLIA_V4_TICKET_PRICE_FRI_def FLAT_SETUP_FRI_def FRI_PER_STRK_def Let_def)
qed

text \<open>Plans to run.\<close>

definition demo_world :: "string list res \<Rightarrow> setup_world" where
  "demo_world balance =
     \<lparr>sw_create = Inr ''0x1'', sw_existing = Inl (File Missing), sw_balance = balance, sw_node = no_node,
      sw_deploy = Inl ''Account Already Deployed'', sw_deploy_receipt = Inr (), sw_init_ios = (io_ok, Inr (), io_ok),
      sw_fresh = ((3, 4), [5], [6]), sw_config_ios = (io_ok, io_ok), sw_register = demo_register, sw_save = Inr ()\<rparr>"

definition demo_run :: "setup_state \<Rightarrow> setup_run" where
  "demo_run p = \<lparr>sr_state = p, sr_file = None, sr_home = demo_home, sr_shown = []\<rparr>"

lemma demo_balance: "read_balance_fri (Inr [''0x5'']) = Inr 5" "read_balance_fri (Inr [''0x0'']) = Inr 0"
  by (simp_all add: read_balance_fri_def first_u128_def parse_radix_def digit_val_def)

text \<open>A burner whose deposit has not come: the account is created and saved, the run waits.\<close>

theorem setup_never_redoes_a_step_witness:
  "\<exists>s' p. run_setup demo_crates (\<lambda>i. demo_world (Inr [''0x5''])) (demo_run (new_plan_external_burner ''b'' ''b'' ''acct'' 7)) = (s', Inr ())
     \<and> starts (sr_shown s') = [0, 1] \<and> sr_file s' = Some p \<and> map ss_done (su_steps p) = [True, False, False, False, False] \<and> parked s'"
proof -
  obtain s' r where run: "run_setup demo_crates (\<lambda>i. demo_world (Inr [''0x5''])) (demo_run (new_plan_external_burner ''b'' ''b'' ''acct'' 7)) = (s', r)" by fastforce
  have "r = Inr () \<and> starts (sr_shown s') = [0, 1] \<and> map_option (\<lambda>p. map ss_done (su_steps p)) (sr_file s') = Some [True, False, False, False, False]
      \<and> sr_state s' = the (sr_file s')"
    using run
    by (auto simp: run_setup.simps setup_pending_def demo_run_def new_plan_external_burner_def new_plan_def setup_turn_def execute_step_def step_create_def
        step_fund_def sbind_def tell_def demo_world_def demo_balance fund_needed_def FRI_PER_STRK_def setup_mark_done_def save_setup_def done_step_def
        starts_def ensure_def Let_def)
  then show ?thesis using setup_never_redoes_a_step [OF run] run by auto
qed

definition funded_plan :: setup_state where
  "funded_plan = (new_plan ''a'' ''a'' ''acct'' 7 ''src'')\<lparr>su_address := Some ''0x1'',
     su_steps := [\<lparr>ss_kind = CreateAccount, ss_done = True, ss_tx_hash = None, ss_note = None\<rparr>, \<lparr>ss_kind = Fund, ss_done = False, ss_tx_hash = None, ss_note = None\<rparr>]\<rparr>"

lemma demo_transfer_call: "\<exists>cl. transfer_call demo_crates ''0x1'' 7 = Inr cl"
proof -
  have "felt_from_hex demo_crates (strk_to_fri_hex 7) = Inr 7000000000000000000"
    using demo_felt_of_hex0x [of 7000000000000000000]
    by (simp add: strk_to_fri_hex_def FRI_PER_STRK_def felt_from_hex_def felt_ok_def STARK_PRIME_def demo_crates_def)
  moreover have "\<exists>f. felt_from_hex demo_crates ''0x1'' = Inr f"
    by (simp add: felt_from_hex_def demo_crates_def demo_felt_of_hex_def hex_digits_def STARK_PRIME_def)
  ultimately show ?thesis using demo_strk by (auto simp: transfer_call_def)
qed

lemma demo_submit_fails: "account_submit demo_crates (nd_rpc no_node) (nd_accounts no_node) a cs kd = Inl (Decode BadShape)"
  by (simp add: account_submit_def from_sncast_account_def account_field_def no_node_def)

text \<open>A network that fails after the transfer was handed over, twice.\<close>

theorem unlanded_transfer_is_sent_again_witness:
  "\<exists>s1 s2 t. run_setup demo_crates (\<lambda>i. demo_world (Inr [''0x0''])) (demo_run funded_plan) = (s1, Inl (Decode BadShape))
     \<and> run_setup demo_crates (\<lambda>i. demo_world (Inr [''0x0''])) s1 = (s2, Inl (Decode BadShape))
     \<and> transfers (sr_home s2) = [t, t]"
proof -
  let ?s = "demo_run funded_plan"
  obtain cl where cl: "transfer_call demo_crates ''0x1'' 7 = Inr cl" using demo_transfer_call by blast
  have s: "setup_pending (sr_state ?s) = Some 1" "ss_kind (su_steps (sr_state ?s) ! 1) = Fund" "su_fund_mode (sr_state ?s) = Transfer"
    "0 < su_fund_strk (sr_state ?s)" "su_address (sr_state ?s) = Some ''0x1''" "transfer_call demo_crates ''0x1'' (su_fund_strk (sr_state ?s)) = Inr cl"
    "transfers (sr_home ?s) = []"
    using cl by (simp_all add: demo_run_def funded_plan_def new_plan_def setup_pending_def transfers_def demo_home_def)
  have w: "read_balance_fri (sw_balance ((\<lambda>i. demo_world (Inr [''0x0''])) 1)) = Inr 0"
    "rbind (account_submit demo_crates (nd_rpc (sw_node ((\<lambda>i. demo_world (Inr [''0x0''])) 1))) (nd_accounts (sw_node ((\<lambda>i. demo_world (Inr [''0x0''])) 1)))
       (su_source_account (sr_state ?s)) [cl] Transfer_Tx) (\<lambda>_. nd_receipt (sw_node ((\<lambda>i. demo_world (Inr [''0x0''])) 1))) = Inl (Decode BadShape)"
    by (simp_all add: demo_world_def demo_balance demo_submit_fails)
  from unlanded_transfer_is_sent_again [OF s(1-6) w] show ?thesis using s(7) by auto
qed

theorem funding_is_never_sent_unasked_witness:
  "\<exists>s' r k wl cl. run_setup demo_crates (\<lambda>i. demo_world (Inr [''0x5''])) (demo_run funded_plan) = (s', r)
     \<and> transfers (sr_home s') = [Signed ''src'' [cl] Transfer_Tx k wl] \<and> transfer_call demo_crates ''0x1'' 7 = Inr cl"
proof -
  obtain cl where cl: "transfer_call demo_crates ''0x1'' 7 = Inr cl" using demo_transfer_call by blast
  obtain s' r where run: "run_setup demo_crates (\<lambda>i. demo_world (Inr [''0x5''])) (demo_run funded_plan) = (s', r)" by fastforce
  have one: "transfers (sr_home s') = [Signed ''src'' [cl] Transfer_Tx None None]"
    using run cl
    by (subst (asm) run_setup.simps) (auto simp: setup_pending_def demo_run_def funded_plan_def new_plan_def setup_turn_def execute_step_def
        step_fund_def sbind_def tell_def demo_world_def demo_balance fund_needed_def FRI_PER_STRK_def on_home_def submit_tx_def demo_submit_fails
        transfers_def demo_home_def Let_def)
  have "su_source_account (sr_state (demo_run funded_plan)) = ''src''" by (simp add: demo_run_def funded_plan_def new_plan_def)
  with funding_is_never_sent_unasked [OF run] one run cl show ?thesis by auto
qed

end
