(* ===== verification/Feeder.thy ===== *)
theory Feeder
  imports Inbox
begin

text \<open>
  \<^verbatim>\<open>gateway/src/feeder.rs\<close> and the block shapes of \<^verbatim>\<open>gateway/src/lib.rs\<close>: reading blocks from the
  feeder gateway. The replies to one request are a list, consumed by the retries; the order in
  which parallel workers deliver is a schedule the result must not depend on.
\<close>

section \<open>Blocks\<close>

record raw_event =
  re_from :: string
  re_keys :: "string list"
  re_data :: "string list"

record block =
  bl_number :: nat
  bl_hash :: string
  bl_status :: string
  bl_receipts :: "raw_event list list"
  bl_l1_price :: string
  bl_l2_price :: string
  bl_l1_data_price :: string

text \<open>The derived \<^verbatim>\<open>Deserialize\<close>: a field is required unless it has a default; a field that is
  present has the type declared.\<close>

definition field :: "(json \<Rightarrow> 'a res) \<Rightarrow> 'a option \<Rightarrow> string \<Rightarrow> json \<Rightarrow> 'a res" where
  "field rd default_value k j =
     (case j of
        JObj kvs \<Rightarrow> (case map_of kvs k of Some v \<Rightarrow> rd v | None \<Rightarrow> of_opt (Decode BadShape) default_value)
      | _ \<Rightarrow> Inl (Decode BadShape))"

definition read_str :: "json \<Rightarrow> string res" where
  "read_str v = of_opt (Decode BadShape) (as_str v)"

definition read_vec :: "(json \<Rightarrow> 'a res) \<Rightarrow> json \<Rightarrow> 'a list res" where
  "read_vec rd v = rbind (of_opt (Decode BadShape) (as_array v)) (rmap rd)"

definition read_u64 :: "json \<Rightarrow> nat res" where
  "read_u64 v = (case v of JNum n \<Rightarrow> if 0 \<le> n \<and> n < 2 ^ 64 then Inr (nat n) else Inl (Decode NotU64)
                 | _ \<Rightarrow> Inl (Decode BadShape))"

definition read_event :: "json \<Rightarrow> raw_event res" where
  "read_event j =
     rbind (field read_str None ''from_address'' j) (\<lambda>a.
     rbind (field (read_vec read_str) (Some []) ''keys'' j) (\<lambda>ks.
     rbind (field (read_vec read_str) (Some []) ''data'' j) (\<lambda>ds.
     Inr \<lparr> re_from = a, re_keys = ks, re_data = ds \<rparr>)))"

definition read_receipt :: "json \<Rightarrow> raw_event list res" where
  "read_receipt j = field (read_vec read_event) (Some []) ''events'' j"

definition read_price :: "json \<Rightarrow> string res" where
  "read_price j = field read_str (Some []) ''price_in_fri'' j"

definition read_block :: "json \<Rightarrow> block res" where
  "read_block j =
     rbind (field read_u64 None ''block_number'' j) (\<lambda>n.
     rbind (field read_str None ''block_hash'' j) (\<lambda>h.
     rbind (field read_str (Some []) ''status'' j) (\<lambda>st.
     rbind (field (read_vec read_receipt) (Some []) ''transaction_receipts'' j) (\<lambda>rs.
     rbind (field read_price (Some []) ''l1_gas_price'' j) (\<lambda>p1.
     rbind (field read_price (Some []) ''l2_gas_price'' j) (\<lambda>p2.
     rbind (field read_price (Some []) ''l1_data_gas_price'' j) (\<lambda>p3.
     Inr \<lparr> bl_number = n, bl_hash = h, bl_status = st, bl_receipts = rs, bl_l1_price = p1,
           bl_l2_price = p2, bl_l1_data_price = p3 \<rparr>)))))))"

text \<open>Felts compare by their digits: no prefix, no leading zeros, lower case.\<close>

definition normalize_felt :: "string \<Rightarrow> string" where
  "normalize_felt s =
     (let t = map lower_char (dropWhile (\<lambda>c. c = CHR ''0'') (trim_0x s)) in if t = [] then ''0'' else t)"

section \<open>One request\<close>

datatype reply = Body "string res" | Refused nat "string option" | NoReply

definition TRANSPORT_RETRIES :: nat where "TRANSPORT_RETRIES = 6"
definition RATE_LIMIT_BUDGET :: nat where "RATE_LIMIT_BUDGET = 240"

text \<open>Milliseconds; the rate limits are in whole seconds.\<close>

definition backoff :: "nat \<Rightarrow> nat" where
  "backoff attempt = 250 * 2 ^ min attempt 4"

definition rate_limit_backoff :: "nat \<Rightarrow> nat" where
  "rate_limit_backoff strike = min (5 * 2 ^ min strike 3) 60"

definition retry_after :: "nat \<Rightarrow> string option \<Rightarrow> nat" where
  "retry_after strikes header =
     (case Option.bind header (parse_radix 64 10) of Some secs \<Rightarrow> secs | None \<Rightarrow> rate_limit_backoff strikes)"

text \<open>\<^verbatim>\<open>get_block_raw\<close> with the waits it slept, in milliseconds; \<open>None\<close> when the replies given do
  not decide. The counters are those of the loop: failures, strikes and seconds of rate limit.\<close>

fun get_block_raw :: "nat \<Rightarrow> nat \<Rightarrow> nat \<Rightarrow> nat list \<Rightarrow> reply list \<Rightarrow> (nat list \<times> string res) option" where
  "get_block_raw fails strikes limited waits [] = None"
| "get_block_raw fails strikes limited waits (r # rs) =
     (let failed = (if fails + 1 \<ge> TRANSPORT_RETRIES then Some (waits, Inl (Net Transport))
                    else get_block_raw (fails + 1) strikes limited (waits @ [backoff fails]) rs)
      in case r of
           Body b \<Rightarrow> Some (waits, b)
         | Refused code header \<Rightarrow>
             if code = 429 then
               let wait = retry_after strikes header
               in if 2 ^ 32 \<le> strikes + 1 \<or> 2 ^ 64 \<le> limited + wait then Some (waits, Inl Overflow)
                  else if RATE_LIMIT_BUDGET < limited + wait then Some (waits, Inl (Net (HttpStatus 429)))
                  else get_block_raw fails (strikes + 1) (limited + wait) (waits @ [1000 * wait]) rs
             else if code < 500 then Some (waits, Inl (Net (HttpStatus code)))
             else failed
         | NoReply \<Rightarrow> failed)"

definition fetch_body :: "reply list \<Rightarrow> (nat list \<times> string res) option" where
  "fetch_body rs = get_block_raw 0 0 0 [] rs"

text \<open>\<open>parse\<close> is \<^verbatim>\<open>serde_json\<close>'s parser of text. \<^verbatim>\<open>block\<close> and \<^verbatim>\<open>latest\<close> differ in the URL only.\<close>

definition fetch_block :: "(string \<Rightarrow> json option) \<Rightarrow> reply list \<Rightarrow> block res option" where
  "fetch_block parse rs =
     (case fetch_body rs of
        None \<Rightarrow> None
      | Some (waits, body) \<Rightarrow> Some (rbind body (\<lambda>t. rbind (of_opt (Decode BadShape) (parse t)) read_block)))"

definition storage_entry :: "json \<Rightarrow> (string \<times> string) option" where
  "storage_entry e =
     (case (as_str (jget e ''key''), as_str (jget e ''value'')) of (Some k, Some v) \<Rightarrow> Some (k, v) | _ \<Rightarrow> None)"

definition storage_writes :: "(string \<Rightarrow> json option) \<Rightarrow> string res \<Rightarrow> string \<Rightarrow> (string \<times> string) list res" where
  "storage_writes parse reply contract =
     rbind reply (\<lambda>body.
     rbind (of_opt (Decode BadShape) (parse body)) (\<lambda>v.
     (case jget (jget v ''state_diff'') ''storage_diffs'' of
        JObj diffs \<Rightarrow>
          Inr (concat (map (\<lambda>(addr, entries). List.map_filter storage_entry (case as_array entries of Some es \<Rightarrow> es | None \<Rightarrow> []))
            (filter (\<lambda>(addr, entries). normalize_felt addr = normalize_felt contract) diffs)))
      | _ \<Rightarrow> Inl (Decode BadShape))))"

section \<open>Many blocks\<close>

text \<open>\<^verbatim>\<open>slice::chunks\<close>, and the order in which the messages of the workers arrive: each keeps its
  own order, the schedule says whose message is next, and the channel is drained to the end.\<close>

function chunks :: "nat \<Rightarrow> 'a list \<Rightarrow> 'a list list" where
  "chunks n xs = (if xs = [] then [] else take (Suc n) xs # chunks n (drop (Suc n) xs))"
  by pat_completeness auto
termination
  by (relation "measure (\<lambda>(n, xs). length xs)") auto

declare chunks.simps [simp del]

fun arrivals :: "nat list \<Rightarrow> 'a list list \<Rightarrow> 'a list" where
  "arrivals [] qs = concat qs"
| "arrivals (i # sched) qs =
     (if i < length qs then
        (case qs ! i of [] \<Rightarrow> arrivals sched qs | x # q \<Rightarrow> x # arrivals sched (qs[i := q]))
      else arrivals sched qs)"

definition shard_size :: "nat \<Rightarrow> nat \<Rightarrow> nat" where
  "shard_size n parallelism = (let p = max parallelism 1 in (n + (p - 1)) div p)"

definition blocks :: "nat list \<Rightarrow> (nat \<Rightarrow> block res) \<Rightarrow> nat \<Rightarrow> nat \<Rightarrow> nat \<Rightarrow> block list res" where
  "blocks sched ask from to parallelism =
     (if to \<le> from then Inr []
      else
        let shards = chunks (shard_size (to - from) parallelism - 1) [from..<to];
            sent = map (map (\<lambda>n. rbind (ask n) (\<lambda>b. Inr (n, b)))) shards
        in rbind (rmap id (arrivals sched sent)) (\<lambda>out.
           Inr (map snd (sort_key fst out))))"

section \<open>Patience\<close>

lemma backoff_value: "f \<le> 4 \<Longrightarrow> backoff f = 250 * 2 ^ f"
  by (simp add: backoff_def min_def)

lemma get_block_raw_waits:
  "get_block_raw fails strikes limited waits rs = Some (ws, r) \<Longrightarrow> fails < TRANSPORT_RETRIES \<Longrightarrow> limited \<le> RATE_LIMIT_BUDGET \<Longrightarrow>
     sum_list ws \<le> sum_list waits + 1000 * (RATE_LIMIT_BUDGET - limited) + 250 * (2 ^ 5 - 2 ^ fails)"
proof (induction rs arbitrary: fails strikes limited waits)
  case Nil
  then show ?case by simp
next
  case (Cons x rs)
  have failed: "sum_list ws \<le> sum_list waits + 1000 * (RATE_LIMIT_BUDGET - limited) + 250 * (2 ^ 5 - 2 ^ fails)"
    if run: "(if TRANSPORT_RETRIES \<le> fails + 1 then Some (waits, Inl (Net Transport))
      else get_block_raw (fails + 1) strikes limited (waits @ [backoff fails]) rs) = Some (ws, r)"
  proof (cases "TRANSPORT_RETRIES \<le> fails + 1")
    case True
    with run show ?thesis by simp
  next
    case False
    then have f: "fails \<le> 4" by (simp add: TRANSPORT_RETRIES_def)
    then have "fails = 0 \<or> fails = 1 \<or> fails = 2 \<or> fails = 3 \<or> fails = 4" by linarith
    then show ?thesis
      using Cons.IH [of "fails + 1" strikes limited "waits @ [backoff fails]"] run False Cons.prems(3) backoff_value [OF f]
      by (auto simp: TRANSPORT_RETRIES_def)
  qed
  show ?case
  proof (cases x)
    case (Body b)
    with Cons.prems show ?thesis by simp
  next
    case NoReply
    with Cons.prems failed show ?thesis by (simp add: Let_def)
  next
    case (Refused code header)
    let ?w = "retry_after strikes header"
    show ?thesis
    proof (cases "code = 429 \<and> strikes + 1 < 2 ^ 32 \<and> limited + ?w < 2 ^ 64 \<and> limited + ?w \<le> RATE_LIMIT_BUDGET")
      case True
      have "get_block_raw fails (strikes + 1) (limited + ?w) (waits @ [1000 * ?w]) rs = Some (ws, r)"
        using Cons.prems(1) True Refused by (simp add: Let_def)
      from Cons.IH [OF this Cons.prems(2)] True
      have "sum_list ws \<le> sum_list waits + 1000 * ?w + 1000 * (RATE_LIMIT_BUDGET - (limited + ?w)) + 250 * (2 ^ 5 - 2 ^ fails)"
        by simp
      moreover have "?w + (RATE_LIMIT_BUDGET - (limited + ?w)) = RATE_LIMIT_BUDGET - limited" using True by linarith
      then have "1000 * ?w + 1000 * (RATE_LIMIT_BUDGET - (limited + ?w)) = 1000 * (RATE_LIMIT_BUDGET - limited)"
        by (metis distrib_left)
      ultimately show ?thesis by linarith
    next
      case False
      then show ?thesis
        using Cons.prems(1) failed Refused by (auto simp: Let_def not_less not_le split: if_splits)
    qed
  qed
qed

text \<open>A feeder that names a wait of zero does not use up the budget.\<close>

definition no_zero_wait :: "reply list \<Rightarrow> bool" where
  "no_zero_wait rs = list_all (\<lambda>r. case r of Refused code header \<Rightarrow> Option.bind header (parse_radix 64 10) \<noteq> Some 0 | _ \<Rightarrow> True) rs"

lemma retry_after_pos: "Option.bind header (parse_radix 64 10) \<noteq> Some 0 \<Longrightarrow> 0 < retry_after s header"
  by (auto simp: retry_after_def rate_limit_backoff_def split: option.splits)

lemma get_block_raw_returns:
  "no_zero_wait rs \<Longrightarrow> fails < TRANSPORT_RETRIES \<Longrightarrow> limited \<le> RATE_LIMIT_BUDGET \<Longrightarrow>
     RATE_LIMIT_BUDGET - limited + (TRANSPORT_RETRIES - fails) \<le> length rs \<Longrightarrow>
     get_block_raw fails strikes limited waits rs \<noteq> None"
proof (induction rs arbitrary: fails strikes limited waits)
  case Nil
  then show ?case by simp
next
  case (Cons x rs)
  have z: "no_zero_wait rs" using Cons.prems(1) by (simp add: no_zero_wait_def)
  have failed: "get_block_raw (fails + 1) strikes limited (waits @ [backoff fails]) rs \<noteq> None"
    if "\<not> TRANSPORT_RETRIES \<le> fails + 1"
    by (rule Cons.IH [OF z]) (use that Cons.prems in auto)
  show ?case
  proof (cases x)
    case (Refused code header)
    then have w: "0 < retry_after strikes header"
      using Cons.prems(1) by (intro retry_after_pos) (simp add: no_zero_wait_def)
    have "get_block_raw fails (strikes + 1) (limited + retry_after strikes header) (waits @ [1000 * retry_after strikes header]) rs \<noteq> None"
      if "limited + retry_after strikes header \<le> RATE_LIMIT_BUDGET"
      by (rule Cons.IH [OF z]) (use that w Cons.prems in auto)
    with failed Refused show ?thesis by (auto simp: Let_def)
  qed (use failed in \<open>auto simp: Let_def\<close>)
qed

lemma zero_wait_goes_on:
  "strikes + n < 2 ^ 32 \<Longrightarrow> limited \<le> RATE_LIMIT_BUDGET \<Longrightarrow>
     get_block_raw fails strikes limited waits (replicate n (Refused 429 (Some ''0''))) = None"
proof (induction n arbitrary: strikes waits)
  case 0
  then show ?case by simp
next
  case (Suc n)
  have "retry_after strikes (Some ''0'') = 0" by (simp add: retry_after_def parse_radix_def digit_val_def)
  with Suc show ?case by (simp add: RATE_LIMIT_BUDGET_def)
qed

section \<open>Shards\<close>

lemma concat_chunks [simp]: "concat (chunks n xs) = xs"
proof (induction n xs rule: chunks.induct)
  case (1 n xs)
  then show ?case by (cases "xs = []") (simp_all add: chunks.simps)
qed

lemma mset_arrivals: "mset (arrivals sched qs) = mset (concat qs)"
proof (induction sched qs rule: arrivals.induct)
  case (1 qs)
  then show ?case by simp
next
  case (2 i sched qs)
  show ?case
  proof (cases "i < length qs \<and> qs ! i \<noteq> []")
    case True
    then obtain x q where xq: "qs ! i = x # q" by (cases "qs ! i") auto
    have "mset (concat qs) = add_mset x (mset (concat (qs[i := q])))"
    proof -
      have 1: "concat qs = concat (take i qs) @ (x # q) @ concat (drop (Suc i) qs)"
        using True xq id_take_nth_drop [of i qs] by (metis concat.simps(2) concat_append)
      have 2: "concat (qs[i := q]) = concat (take i qs) @ q @ concat (drop (Suc i) qs)"
        using True by (simp add: upd_conv_take_nth_drop)
      show ?thesis unfolding 1 2 by simp
    qed
    with 2 True xq show ?thesis by simp
  next
    case False
    with 2 show ?thesis by (cases "qs ! i") auto
  qed
qed

lemma set_arrivals: "set (arrivals sched qs) = \<Union> (set ` set qs)"
  by (metis mset_arrivals mset_eq_setD set_concat)

lemma rmap_id_Inr: "rmap id ms = Inr xs \<longleftrightarrow> ms = map Inr xs"
proof (induction ms arbitrary: xs)
  case (Cons m ms)
  then show ?case by (cases xs) (auto simp: res_inv)
qed auto

lemma rmap_id_Inl: "rmap id ms = Inl e \<Longrightarrow> Inl e \<in> set ms"
  by (induction ms) (auto simp: rbind_eq_Inl)

lemma inj_image_mset_eq: "image_mset (Inr :: 'a \<Rightarrow> 'b + 'a) A = image_mset Inr B \<Longrightarrow> A = B"
  by (metis (no_types, lifting) image_mset.compositionality comp_apply multiset.map_ident_strong sum.sel(2) image_mset_cong multiset.map_ident)

lemma sent_Inr: "rbind (ask n) (\<lambda>b. Inr (n, b)) = Inr x \<longleftrightarrow> (fst x = n \<and> ask n = Inr (snd x))"
  by (cases x) (auto simp: res_inv)

lemma rmap_iff_map: "rmap f xs = Inr ys \<longleftrightarrow> map f xs = map Inr ys"
proof (induction xs arbitrary: ys)
  case (Cons x xs)
  then show ?case by (cases ys) (auto simp: res_inv)
qed auto

text \<open>Whatever the number of workers and the order in which their messages arrive, the blocks come
  back in sequence, as one worker asking for one block after the other gets them.\<close>

lemma blocks_sequential:
  "case blocks sched ask from to parallelism of
     Inl e \<Rightarrow> \<exists>n. from \<le> n \<and> n < to \<and> ask n = Inl e
   | Inr bs \<Rightarrow> rmap ask [from..<to] = Inr bs"
proof (cases "to \<le> from")
  case True
  then show ?thesis by (simp add: blocks_def)
next
  case False
  define sent where "sent = map (map (\<lambda>n. rbind (ask n) (\<lambda>b. Inr (n, b))))
    (chunks (shard_size (to - from) parallelism - 1) [from..<to])"
  have "concat sent = map (\<lambda>n. rbind (ask n) (\<lambda>b. Inr (n, b))) [from..<to]"
    unfolding sent_def by (metis concat_chunks map_concat)
  then have ms: "mset (arrivals sched sent) = mset (map (\<lambda>n. rbind (ask n) (\<lambda>b. Inr (n, b))) [from..<to])"
    by (simp add: mset_arrivals del: mset_map)
  show ?thesis
  proof (cases "rmap id (arrivals sched sent)")
    case (Inl e)
    then have "Inl e \<in> set (map (\<lambda>n. rbind (ask n) (\<lambda>b. Inr (n, b))) [from..<to])"
      using rmap_id_Inl mset_eq_setD [OF ms] by blast
    then obtain n where "Inl e = rbind (ask n) (\<lambda>b. Inr (n, b))" "from \<le> n" "n < to" by auto
    then have "\<exists>n. from \<le> n \<and> n < to \<and> ask n = Inl e" by (metis rbind_eq_Inl Inl_Inr_False)
    with Inl False show ?thesis by (simp add: blocks_def Let_def sent_def)
  next
    case (Inr out)
    then have out: "mset (map Inr out) = mset (map (\<lambda>n. rbind (ask n) (\<lambda>b. Inr (n, b))) [from..<to])"
      using ms by (simp add: rmap_id_Inr del: mset_map)
    have ok: "\<exists>b. ask n = Inr b" if "n \<in> set [from..<to]" for n
    proof -
      have "rbind (ask n) (\<lambda>b. Inr (n, b)) \<in> set (map Inr out)"
        using mset_eq_setD [OF out] that by auto
      then show ?thesis by (cases "ask n") auto
    qed
    define g where "g n = (case ask n of Inr b \<Rightarrow> b | Inl _ \<Rightarrow> undefined)" for n
    have g: "ask n = Inr (g n)" if "n \<in> set [from..<to]" for n using ok [OF that] by (auto simp: g_def)
    let ?rows = "map (\<lambda>n. (n, g n)) [from..<to]"
    have sent: "map (\<lambda>n. rbind (ask n) (\<lambda>b. Inr (n, b))) [from..<to] = map Inr ?rows"
      by (auto simp: g)
    have "image_mset (Inr :: nat \<times> block \<Rightarrow> (nat \<times> block) res) (mset out) = image_mset Inr (mset ?rows)"
      using out unfolding sent by (simp only: mset_map)
    then have m: "mset out = mset ?rows" by (rule inj_image_mset_eq)
    then have "inj_on fst (set out)" using mset_eq_setD [OF m] by (auto simp: inj_on_def)
    then have "sort_key fst out = ?rows" by (rule sort_key_inj_key_eq [OF m]) (simp add: comp_def)
    moreover have "rmap ask [from..<to] = Inr (map g [from..<to])" using g by (rule rmap_Inr_map)
    ultimately show ?thesis using Inr False by (simp add: blocks_def Let_def sent_def comp_def)
  qed
qed

text \<open>Fetching a range of blocks with any number of workers gives exactly what asking for one
  block after the other gives, in the order of the numbers, whichever worker's messages arrive
  first; when it fails, it fails with the answer to one of the blocks asked for.\<close>

theorem blocks_come_back_in_sequence:
  "(blocks sched ask from to workers = Inr bs \<longleftrightarrow> rmap ask [from..<to] = Inr bs)
   \<and> (case blocks sched ask from to workers of Inr bs \<Rightarrow> True | Inl e \<Rightarrow> \<exists>n. from \<le> n \<and> n < to \<and> ask n = Inl e)"
proof (cases "blocks sched ask from to workers")
  case (Inl e)
  then obtain n where n: "from \<le> n" "n < to" "ask n = Inl e" using blocks_sequential [of "from" to ask sched workers] by auto
  have "rmap ask [from..<to] \<noteq> Inr bs"
  proof
    assume "rmap ask [from..<to] = Inr bs"
    moreover have "n - from < length [from..<to]" using n by auto
    ultimately have "ask ([from..<to] ! (n - from)) = Inr (bs ! (n - from))" by (rule rmap_nth)
    with n show False by simp
  qed
  with Inl n show ?thesis by auto
next
  case (Inr bs')
  then have "rmap ask [from..<to] = Inr bs'" using blocks_sequential [of "from" to ask sched workers] by simp
  with Inr show ?thesis by auto
qed

text \<open>One request waits at most 247.75 seconds in all, and returns within 246 replies, unless the
  feeder answers a rate limit with a wait of zero.\<close>

theorem feeder_patience:
  assumes "no_zero_wait rs" and "246 \<le> length rs"
  shows "\<exists>ws r. fetch_body rs = Some (ws, r) \<and> sum_list ws \<le> 247750"
proof -
  have "get_block_raw 0 0 0 [] rs \<noteq> None"
    by (rule get_block_raw_returns) (use assms in \<open>auto simp: TRANSPORT_RETRIES_def RATE_LIMIT_BUDGET_def\<close>)
  then obtain ws r where run: "get_block_raw 0 0 0 [] rs = Some (ws, r)" by auto
  from get_block_raw_waits [OF this] have "sum_list ws \<le> 247750"
    by (simp add: TRANSPORT_RETRIES_def RATE_LIMIT_BUDGET_def)
  with run show ?thesis by (auto simp: fetch_body_def)
qed

theorem feeder_patience_witness:
  "\<exists>ws r. fetch_body (replicate 246 (Refused 429 None)) = Some (ws, r) \<and> sum_list ws \<le> 247750"
  by (rule feeder_patience) (simp_all add: no_zero_wait_def list_all_iff)

end
