(* ===== verification/Block_Index.thy ===== *)
theory Block_Index
  imports Feeder Disk
begin

text \<open>
  \<^verbatim>\<open>gateway/src/lib.rs\<close>: the events of one contract collected block by block, the cache that lets
  a sync resume, and the membership tree rebuilt from the events.
\<close>

section \<open>The index\<close>

record block_event =
  be_from :: string
  be_keys :: "string list"
  be_data :: "string list"
  be_block :: nat

definition events_from :: "block \<Rightarrow> string \<Rightarrow> block_event list" where
  "events_from b addr =
     map (\<lambda>e. \<lparr> be_from = re_from e, be_keys = re_keys e, be_data = re_data e, be_block = bl_number b \<rparr>)
       (filter (\<lambda>e. normalize_felt (re_from e) = normalize_felt addr) (concat (bl_receipts b)))"

record block_index =
  ix_address :: string
  ix_first :: nat
  ix_next :: nat
  ix_events :: "block_event list"

definition new_index :: "string \<Rightarrow> nat \<Rightarrow> block_index" where
  "new_index addr from = \<lparr> ix_address = addr, ix_first = from, ix_next = from, ix_events = [] \<rparr>"

definition absorb :: "block_index \<Rightarrow> block \<Rightarrow> block_index res" where
  "absorb ix b =
     ensure (bl_number b + 1 < 2 ^ 64) Overflow (
     Inr (ix\<lparr>ix_events := ix_events ix @ events_from b (ix_address ix), ix_next := bl_number b + 1\<rparr>))"

text \<open>The cache file holds an index, or nothing that can be read as one.\<close>

definition load_cache :: "block_index option \<Rightarrow> string \<Rightarrow> nat \<Rightarrow> block_index option" where
  "load_cache file addr from =
     (case file of
        None \<Rightarrow> None
      | Some c \<Rightarrow>
          if normalize_felt (ix_address c) \<noteq> normalize_felt addr \<or> ix_first c \<noteq> from then None else Some c)"

definition save_cache :: "write_stop option \<Rightarrow> block_index \<Rightarrow> (block_index option, unit) st" where
  "save_cache stop ix f = (if stop = None then (Some ix, Inr ()) else (f, Inl (File IoError)))"

section \<open>Syncing\<close>

definition WINDOW :: nat where "WINDOW = 256"

fun absorb_all :: "block_index \<Rightarrow> block list \<Rightarrow> block_index res" where
  "absorb_all ix [] = Inr ix"
| "absorb_all ix (b # bs) = rbind (absorb ix b) (\<lambda>ix'. absorb_all ix' bs)"

text \<open>\<open>sched\<close> is the schedule of the workers in the window that starts at a block; the checkpoint is
  a step on a state of its own. \<open>None\<close> is a sync that never returns.\<close>

partial_function (option) sync ::
  "(nat \<Rightarrow> nat list) \<Rightarrow> (nat \<Rightarrow> block res) \<Rightarrow> nat \<Rightarrow> nat \<Rightarrow> (block_index \<Rightarrow> ('c, unit) st) \<Rightarrow> block_index \<Rightarrow> 'c \<Rightarrow> (block_index \<times> 'c \<times> unit res) option" where
  "sync sched ask to workers checkpoint ix c =
     (if to \<le> ix_next ix then Some (ix, c, Inr ())
      else if 2 ^ 64 \<le> ix_next ix + WINDOW then Some (ix, c, Inl Overflow)
      else
        let end_block = min (ix_next ix + WINDOW) to
        in case blocks (sched (ix_next ix)) ask (ix_next ix) end_block workers of
             Inl e \<Rightarrow> Some (ix, c, Inl e)
           | Inr bs \<Rightarrow>
               (case absorb_all ix bs of
                  Inl e \<Rightarrow> Some (ix, c, Inl e)
                | Inr ix' \<Rightarrow>
                    (case checkpoint ix' c of
                       (c', Inl e) \<Rightarrow> Some (ix', c', Inl e)
                     | (c', Inr _) \<Rightarrow> sync sched ask to workers checkpoint ix' c')))"

definition with_key0 :: "crates \<Rightarrow> felt \<Rightarrow> block_index \<Rightarrow> block_event list" where
  "with_key0 C selector ix =
     filter (\<lambda>e. case be_keys e of [] \<Rightarrow> False | k # _ \<Rightarrow> normalize_felt k = normalize_felt (felt_to_hex C selector)) (ix_events ix)"

section \<open>The registry\<close>

text \<open>A slice of a \<^verbatim>\<open>str\<close> must end between characters: a byte that continues one is a panic.\<close>

definition continues_char :: "char \<Rightarrow> bool" where
  "continues_char c = (let n = of_char c :: nat in 128 \<le> n \<and> n < 192)"

fun hex_pairs :: "string \<Rightarrow> bytes res" where
  "hex_pairs (a # b # s) =
     ensure (case s of [] \<Rightarrow> True | c # _ \<Rightarrow> \<not> continues_char c) Panic (
     rbind (of_opt (Decode BadHex) (parse_radix 8 16 [a, b])) (\<lambda>n.
     rbind (hex_pairs s) (\<lambda>bs. Inr (word_of_nat n # bs))))"
| "hex_pairs _ = Inr []"

definition hex_to_bytes :: "string \<Rightarrow> bytes res" where
  "hex_to_bytes hex = (let t = trim_0x hex in hex_pairs (if odd (length t) then CHR ''0'' # t else t))"

definition handle_text :: "string \<Rightarrow> string res" where
  "handle_text hex =
     rbind (hex_to_bytes hex) (\<lambda>bs. let text = dropWhile (\<lambda>b. b = 0) bs
     in ensure (utf8_valid text) (Decode NotAscii) (Inr (map (\<lambda>b. char_of (unat b)) text)))"

record block_registry =
  br_tree :: merkle_tree
  br_handles :: "string \<Rightarrow> nat option"
  br_scan_keys :: "nat \<Rightarrow> felt option"

text \<open>One row of an event: leaf index, handle and scan key.\<close>

definition registry_row :: "crates \<Rightarrow> block_event \<Rightarrow> (nat \<times> string \<times> felt) res" where
  "registry_row C e =
     ensure (2 < length (be_data e)) (Decode TooShort) (
     rbind (of_opt (Decode NotU32) (parse_radix 32 16 (trim_0x (be_data e ! 2)))) (\<lambda>i.
     rbind (handle_text (be_data e ! 0)) (\<lambda>h.
     rbind (felt_from_hex C (be_data e ! 1)) (\<lambda>scan.
     Inr (i, h, scan)))))"

fun insert_rows :: "crates \<Rightarrow> (nat \<times> string \<times> felt) list \<Rightarrow> block_registry \<Rightarrow> block_registry res" where
  "insert_rows C [] g = Inr g"
| "insert_rows C ((expected, h, scan) # rows) g =
     rbind (mt_insert C (br_tree g) scan) (\<lambda>(got, tree).
     ensure (got = expected) (Tickets NotContiguous) (
     insert_rows C rows (g\<lparr>br_tree := tree, br_handles := (br_handles g)(h \<mapsto> got),
       br_scan_keys := (br_scan_keys g)(got \<mapsto> scan)\<rparr>)))"

definition rebuild :: "crates \<Rightarrow> block_index \<Rightarrow> block_registry res" where
  "rebuild C ix =
     rbind (rmap (registry_row C) (with_key0 C (snkeccak C ''UserRegistered'') ix)) (\<lambda>rows.
     insert_rows C (sort_key fst rows) \<lparr> br_tree = mt_new C, br_handles = Map.empty, br_scan_keys = Map.empty \<rparr>)"

definition br_root :: "block_registry \<Rightarrow> felt" where
  "br_root g = mt_root (br_tree g)"

definition resolve_handle :: "block_registry \<Rightarrow> string \<Rightarrow> (nat \<times> felt) option" where
  "resolve_handle g h =
     Option.bind (br_handles g h) (\<lambda>i. Option.bind (br_scan_keys g i) (\<lambda>scan. Some (i, scan)))"

definition br_path :: "block_registry \<Rightarrow> nat \<Rightarrow> felt list" where
  "br_path g i = mt_path (br_tree g) i"

section \<open>What a sync collects\<close>

text \<open>A chain is its blocks by number; a faithful feeder answers with them or fails.\<close>

definition numbered :: "(nat \<Rightarrow> block) \<Rightarrow> bool" where
  "numbered chain = (\<forall>n. bl_number (chain n) = n)"

definition faithful :: "(nat \<Rightarrow> block) \<Rightarrow> (nat \<Rightarrow> block res) \<Rightarrow> bool" where
  "faithful chain ask = (\<forall>n b. ask n = Inr b \<longrightarrow> b = chain n)"

definition collected :: "(nat \<Rightarrow> block) \<Rightarrow> string \<Rightarrow> nat \<Rightarrow> nat \<Rightarrow> block_event list" where
  "collected chain addr a b = concat (map (\<lambda>n. events_from (chain n) addr) [a..<b])"

definition index_of_chain :: "(nat \<Rightarrow> block) \<Rightarrow> string \<Rightarrow> nat \<Rightarrow> block_index \<Rightarrow> bool" where
  "index_of_chain chain addr from ix = (ix_address ix = addr \<and> ix_first ix = from \<and> from \<le> ix_next ix
     \<and> ix_events ix = collected chain addr from (ix_next ix))"

lemma index_of_chain_new: "index_of_chain chain addr from (new_index addr from)"
  by (simp add: index_of_chain_def new_index_def collected_def)

lemma index_of_chain_eq:
  "index_of_chain chain addr from ix \<Longrightarrow> index_of_chain chain addr from ix' \<Longrightarrow> ix_next ix = ix_next ix' \<Longrightarrow> ix_events ix = ix_events ix'"
  by (simp add: index_of_chain_def)

lemma collected_address: "normalize_felt addr = normalize_felt addr' \<Longrightarrow> collected chain addr a b = collected chain addr' a b"
  by (simp add: collected_def events_from_def)

lemma collected_Suc: "a \<le> b \<Longrightarrow> collected chain addr a (Suc b) = collected chain addr a b @ events_from (chain b) addr"
  by (simp add: collected_def)

lemma absorb_all_chain:
  "index_of_chain chain addr from ix \<Longrightarrow> numbered chain \<Longrightarrow> ix_next ix \<le> b \<Longrightarrow> b < 2 ^ 64 \<Longrightarrow>
     \<exists>ix'. absorb_all ix (map chain [ix_next ix..<b]) = Inr ix' \<and> index_of_chain chain addr from ix' \<and> ix_next ix' = b"
proof (induction "b - ix_next ix" arbitrary: ix)
  case 0
  then show ?case by simp
next
  case (Suc k)
  have up: "[ix_next ix..<b] = ix_next ix # [Suc (ix_next ix)..<b]" using Suc.hyps(2) by (simp add: upt_conv_Cons)
  let ?ix1 = "ix\<lparr>ix_events := ix_events ix @ events_from (chain (ix_next ix)) (ix_address ix), ix_next := ix_next ix + 1\<rparr>"
  have "absorb ix (chain (ix_next ix)) = Inr ?ix1"
  proof -
    have "ix_next ix + 1 < 2 ^ 64" using Suc.hyps(2) Suc.prems(4) by linarith
    then show ?thesis using Suc.prems(2) by (simp add: absorb_def numbered_def ensure_def)
  qed
  moreover have "index_of_chain chain addr from ?ix1"
    using Suc.prems(1) by (simp add: index_of_chain_def collected_Suc)
  moreover have "\<exists>ix'. absorb_all ?ix1 (map chain [ix_next ?ix1..<b]) = Inr ix' \<and> index_of_chain chain addr from ix' \<and> ix_next ix' = b"
    by (rule Suc.hyps(1)) (use calculation Suc.hyps(2) Suc.prems in auto)
  ultimately show ?case using up by simp
qed

lemma blocks_of_chain:
  assumes "faithful chain ask" and "blocks sched ask a b workers = Inr bs"
  shows "bs = map chain [a..<b]"
proof -
  have r: "rmap ask [a..<b] = Inr bs" using blocks_sequential [of a b ask sched workers] assms(2) by simp
  show ?thesis
  proof (rule nth_equalityI)
    show "length bs = length (map chain [a..<b])" using rmap_length [OF r] by simp
    fix i assume "i < length bs"
    then have i: "i < length [a..<b]" using rmap_length [OF r] by simp
    from rmap_nth [OF r i] assms(1) i show "bs ! i = map chain [a..<b] ! i" by (simp add: faithful_def)
  qed
qed

text \<open>Every sync against a faithful feeder returns, having collected exactly the chain's events up to
  where it stands; what it checkpointed on the way is such an index too.\<close>

lemma sync_collects:
  assumes chain: "numbered chain" "faithful chain ask" and room: "to + WINDOW \<le> 2 ^ 64"
    and keeps: "\<And>ix c. index_of_chain chain addr start ix \<Longrightarrow> ix_next ix \<le> to \<Longrightarrow> Q c \<Longrightarrow> Q (fst (checkpoint ix c))"
  shows "index_of_chain chain addr start ix \<Longrightarrow> Q c \<Longrightarrow>
    \<exists>ix' c' r. sync sched ask to workers checkpoint ix c = Some (ix', c', r)
      \<and> index_of_chain chain addr start ix' \<and> Q c' \<and> ix_next ix' \<le> max (ix_next ix) to
      \<and> (r = Inr () \<longrightarrow> ix_next ix' = max (ix_next ix) to)
      \<and> ((\<forall>n. is_ok (ask n)) \<and> (\<forall>ix c. is_ok (snd (checkpoint ix c))) \<longrightarrow> r = Inr ())"
proof (induction "to - ix_next ix" arbitrary: ix c rule: less_induct)
  case less
  show ?case
  proof (cases "to \<le> ix_next ix")
    case True
    with less.prems show ?thesis by (subst sync.simps) simp
  next
    case False
    let ?stop = "min (ix_next ix + WINDOW) to"
    have win: "\<not> 2 ^ 64 \<le> ix_next ix + WINDOW" using False room by simp
    show ?thesis
    proof (cases "blocks (sched (ix_next ix)) ask (ix_next ix) ?stop workers")
      case (Inl e)
      then have "\<exists>n. ask n = Inl e" using blocks_sequential [of "ix_next ix" ?stop ask "sched (ix_next ix)" workers] by auto
      then have "\<not> (\<forall>n. is_ok (ask n))" by (metis is_ok_simps(1))
      with less.prems False win Inl show ?thesis by (subst sync.simps) (simp add: Let_def)
    next
      case (Inr bs)
      have bs: "bs = map chain [ix_next ix..<?stop]" by (rule blocks_of_chain [OF chain(2) Inr])
      have "ix_next ix \<le> ?stop" "?stop < 2 ^ 64" using False room by (auto simp: WINDOW_def min_def)
      from absorb_all_chain [OF less.prems(1) chain(1) this]
      obtain ix1 where ix1: "absorb_all ix bs = Inr ix1" "index_of_chain chain addr start ix1" "ix_next ix1 = ?stop"
        unfolding bs by blast
      obtain c1 r1 where ck: "checkpoint ix1 c = (c1, r1)" by fastforce
      have q: "Q c1" using keeps [OF ix1(2) _ less.prems(2)] ix1(3) ck by simp
      show ?thesis
      proof (cases r1)
        case (Inl e)
        then have "\<not> (\<forall>ix c. is_ok (snd (checkpoint ix c)))" using ck by (metis is_ok_simps(1) snd_conv)
        then show ?thesis using Inr ix1 ck False win q Inl \<open>ix_next ix \<le> ?stop\<close>
          by (subst sync.simps) (auto simp: Let_def min_def max_def)
      next
        case r: (Inr u)
        have "sync sched ask to workers checkpoint ix c = sync sched ask to workers checkpoint ix1 c1"
          using Inr ix1 ck False win r by (subst sync.simps) (simp add: Let_def)
        moreover have "to - ix_next ix1 < to - ix_next ix" using ix1(3) False by (auto simp: WINDOW_def min_def)
        moreover have "max (ix_next ix1) to = max (ix_next ix) to" using ix1(3) False by (auto simp: min_def max_def)
        ultimately show ?thesis using less.hyps [OF _ ix1(2) q] by simp
      qed
    qed
  qed
qed

text \<open>A sync whose index already stands beyond its target returns it as it is, events past the target
  included.\<close>

lemma sync_ahead_of_target: "to \<le> ix_next ix \<Longrightarrow> sync sched ask to workers checkpoint ix c = Some (ix, c, Inr ())"
  by (subst sync.simps) simp

text \<open>The cache a sync leaves: an index of the chain, or none.\<close>

definition cache_of_chain :: "(nat \<Rightarrow> block) \<Rightarrow> string \<Rightarrow> nat \<Rightarrow> nat \<Rightarrow> block_index option \<Rightarrow> bool" where
  "cache_of_chain chain addr from to file =
     (case file of None \<Rightarrow> True | Some ix \<Rightarrow> index_of_chain chain addr from ix \<and> ix_next ix \<le> to)"

lemma save_cache_keeps:
  "index_of_chain chain addr from ix \<Longrightarrow> ix_next ix \<le> to \<Longrightarrow> cache_of_chain chain addr from to f \<Longrightarrow>
     cache_of_chain chain addr from to (fst (save_cache stop ix f))"
  by (simp add: save_cache_def cache_of_chain_def)

lemma load_cache_of_chain:
  assumes "cache_of_chain chain addr from to file" and "load_cache file addr' from' = Some ix"
  shows "normalize_felt addr' = normalize_felt addr \<and> from' = from \<and> index_of_chain chain addr from ix \<and> ix_next ix \<le> to"
  using assms by (auto simp: load_cache_def cache_of_chain_def index_of_chain_def split: option.splits if_splits)

section \<open>A rebuilt registry\<close>

definition br_ok :: "crates \<Rightarrow> block_registry \<Rightarrow> felt list \<Rightarrow> bool" where
  "br_ok C g ls = (mt_ok C (br_tree g) ls \<and> length ls \<le> 2 ^ TREE_DEPTH
     \<and> (\<forall>i. br_scan_keys g i = (if i < length ls then Some (ls ! i) else None))
     \<and> (\<forall>h i. br_handles g h = Some i \<longrightarrow> i < length ls))"

lemma insert_rows_ok:
  "insert_rows C rows g = Inr g' \<Longrightarrow> br_ok C g ls \<Longrightarrow>
     br_ok C g' (ls @ map (snd \<circ> snd) rows) \<and> map fst rows = [length ls..<length ls + length rows]"
proof (induction rows arbitrary: g ls)
  case Nil
  then show ?case by simp
next
  case (Cons row rows)
  obtain i h scan where row: "row = (i, h, scan)" by (cases row)
  have ok: "mt_ok C (br_tree g) ls" using Cons.prems(2) by (simp add: br_ok_def)
  have room: "length ls < 2 ^ TREE_DEPTH"
    using Cons.prems(1) row mt.insert_full [OF ok] by (cases "length ls < 2 ^ TREE_DEPTH") (simp_all add: rbind_eq_Inr)
  obtain t where t: "mt_insert C (br_tree g) scan = Inr (length ls, t)" "mt_ok C t (ls @ [scan])"
    using mt_insert_ok [OF ok room] by blast
  let ?g1 = "g\<lparr>br_tree := t, br_handles := (br_handles g)(h \<mapsto> length ls), br_scan_keys := (br_scan_keys g)(length ls \<mapsto> scan)\<rparr>"
  have rest: "i = length ls" "insert_rows C rows ?g1 = Inr g'"
    using Cons.prems(1) row t(1) by (auto simp: res_inv)
  have "br_ok C ?g1 (ls @ [scan])"
    using Cons.prems(2) t(2) room by (auto simp: br_ok_def nth_append less_Suc_eq)
  from Cons.IH [OF rest(2) this] rest(1) row show ?case by (simp add: upt_conv_Cons del: upt_Suc)
qed

lemma rebuild_ok:
  assumes "rebuild C ix = Inr g"
  shows "\<exists>rows. rmap (registry_row C) (with_key0 C (snkeccak C ''UserRegistered'') ix) = Inr rows
    \<and> map fst (sort_key fst rows) = [0..<length rows] \<and> br_ok C g (map (snd \<circ> snd) (sort_key fst rows))"
proof -
  obtain rows where rows: "rmap (registry_row C) (with_key0 C (snkeccak C ''UserRegistered'') ix) = Inr rows"
    and ins: "insert_rows C (sort_key fst rows) \<lparr> br_tree = mt_new C, br_handles = Map.empty, br_scan_keys = Map.empty \<rparr> = Inr g"
    using assms by (auto simp: rebuild_def res_inv)
  have "br_ok C \<lparr> br_tree = mt_new C, br_handles = Map.empty, br_scan_keys = Map.empty \<rparr> []"
    by (simp add: br_ok_def mt_new_ok)
  from insert_rows_ok [OF ins this] rows show ?thesis by auto
qed

lemma resolve_handle_scan:
  "br_ok C g ls \<Longrightarrow> resolve_handle g h = Some (i, scan) \<Longrightarrow> i < length ls \<and> scan = ls ! i"
  by (auto simp: br_ok_def resolve_handle_def Option.bind_eq_Some_conv split: if_splits)

lemma rmap_mset:
  assumes "rmap f xs = Inr ys" and "mset xs' = mset xs"
  shows "\<exists>ys'. rmap f xs' = Inr ys' \<and> mset ys' = mset ys"
proof -
  define g where "g x = (case f x of Inr y \<Rightarrow> y | Inl _ \<Rightarrow> undefined)" for x
  have ok: "f x = Inr (g x)" if x: "x \<in> set xs" for x
  proof -
    obtain i where "i < length xs" "x = xs ! i" using x by (metis in_set_conv_nth)
    with rmap_nth [OF assms(1)] show ?thesis by (simp add: g_def)
  qed
  have "rmap f xs = Inr (map g xs)" by (rule rmap_Inr_map) (rule ok)
  moreover have "rmap f xs' = Inr (map g xs')" by (rule rmap_Inr_map) (use ok mset_eq_setD [OF assms(2)] in auto)
  ultimately show ?thesis using assms by (simp add: mset_map)
qed

lemma rebuild_any_order:
  assumes "rebuild C ix = Inr g" and "mset (ix_events ix') = mset (ix_events ix)"
  shows "rebuild C ix' = Inr g"
proof -
  obtain rows where rows: "rmap (registry_row C) (with_key0 C (snkeccak C ''UserRegistered'') ix) = Inr rows"
    and keys: "map fst (sort_key fst rows) = [0..<length rows]"
    using rebuild_ok [OF assms(1)] by blast
  have "mset (with_key0 C (snkeccak C ''UserRegistered'') ix') = mset (with_key0 C (snkeccak C ''UserRegistered'') ix)"
    using assms(2) by (simp add: with_key0_def)
  from rmap_mset [OF rows this] obtain rows'
    where rows': "rmap (registry_row C) (with_key0 C (snkeccak C ''UserRegistered'') ix') = Inr rows'" "mset rows' = mset rows"
    by blast
  have "distinct (map fst (sort_key fst rows))" unfolding keys by simp
  then have "inj_on fst (set rows')" using mset_eq_setD [OF rows'(2)] by (simp add: distinct_map)
  then have "sort_key fst rows' = sort_key fst rows"
    by (intro sort_key_inj_key_eq) (simp_all add: rows'(2))
  with rows rows' assms(1) show ?thesis by (simp add: rebuild_def)
qed

section \<open>Properties\<close>

text \<open>C33: A sync that was cut short and is taken up again from its cache (under any spelling of the
  contract's address, with any number of workers and any order of their messages) collects exactly
  the events a fresh sync collects; both return.\<close>

theorem interrupted_sync_resumes:
  assumes "numbered chain" and "faithful chain ask1" and "faithful chain ask2" and "\<And>n. is_ok (ask2 n)"
    and "to1 \<le> to2" and "from \<le> to2" and "to2 + WINDOW \<le> 2 ^ 64"
    and "sync sched1 ask1 to1 w1 (\<lambda>ix. save_cache (stop ix) ix) (new_index addr from) None = Some (ix1, cache, r1)"
    and "load_cache cache addr' from = Some ix2"
  shows "\<exists>ix c f c'. sync sched2 ask2 to2 w2 (save_cache None) ix2 cache = Some (ix, c, Inr ())
     \<and> sync sched3 ask2 to2 w3 (save_cache None) (new_index addr' from) None = Some (f, c', Inr ())
     \<and> ix_events ix = ix_events f \<and> ix_next ix = ix_next f"
proof -
  have top: "max from to1 + WINDOW \<le> 2 ^ 64" "max from to1 \<le> to2" using assms(5-7) by auto
  have "cache_of_chain chain addr from to1 cache"
    using sync_collects [OF assms(1,2), where to = to1 and Q = "cache_of_chain chain addr from to1"
        and checkpoint = "\<lambda>ix. save_cache (stop ix) ix" and addr = addr and start = "from" and sched = sched1 and workers = w1 and c = None, OF _ save_cache_keeps index_of_chain_new] assms(5,7,8)
    by (force simp: cache_of_chain_def)
  from load_cache_of_chain [OF this assms(9)]
  have norm: "normalize_felt addr' = normalize_felt addr" and ix2: "index_of_chain chain addr from ix2" "ix_next ix2 \<le> to2"
    using assms(5) by auto
  have saves: "is_ok (snd (save_cache None ix c))" for ix c by (simp add: save_cache_def)
  obtain ix c where a: "sync sched2 ask2 to2 w2 (save_cache None) ix2 cache = Some (ix, c, Inr ())"
    "index_of_chain chain addr from ix" "ix_next ix = to2"
    using sync_collects [OF assms(1,3,7), where Q = "\<lambda>_. True" and checkpoint = "save_cache None" and sched = sched2 and workers = w2 and c = cache, OF _ ix2(1)]
      ix2(2) assms(4) saves by (auto simp: max_def split: if_splits)
  obtain f c' where b: "sync sched3 ask2 to2 w3 (save_cache None) (new_index addr' from) None = Some (f, c', Inr ())"
    "index_of_chain chain addr' from f" "ix_next f = to2"
    using sync_collects [OF assms(1,3,7), where Q = "\<lambda>_. True" and checkpoint = "save_cache None" and sched = sched3 and workers = w3 and c = None, OF _ index_of_chain_new [of chain addr' "from"]]
      assms(4,6) saves by (auto simp: new_index_def max_def split: if_splits)
  have "ix_events ix = ix_events f"
    using a(2,3) b(2,3) collected_address [OF norm] by (simp add: index_of_chain_def)
  with a b show ?thesis by auto
qed

definition demo_event :: raw_event where
  "demo_event = \<lparr> re_from = ''0x0AB'', re_keys = [''0x1''], re_data = [] \<rparr>"

definition demo_chain :: "nat \<Rightarrow> block" where
  "demo_chain n = \<lparr> bl_number = n, bl_hash = [], bl_status = [], bl_receipts = [[demo_event]], bl_l1_price = [],
     bl_l2_price = [], bl_l1_data_price = [] \<rparr>"

definition demo_first :: "block_index" where
  "demo_first = \<lparr> ix_address = ''0xab'', ix_first = 0, ix_next = 1, ix_events = events_from (demo_chain 0) ''0xab'' \<rparr>"

theorem interrupted_sync_resumes_witness:
  "\<exists>ix c f c'. sync (\<lambda>_. [0]) (\<lambda>n. Inr (demo_chain n)) 3 2 (save_cache None) demo_first (Some demo_first) = Some (ix, c, Inr ())
     \<and> sync (\<lambda>_. [1]) (\<lambda>n. Inr (demo_chain n)) 3 1 (save_cache None) (new_index ''0x0AB'' 0) None = Some (f, c', Inr ())
     \<and> ix_events ix = ix_events f \<and> ix_next ix = ix_next f"
proof (rule interrupted_sync_resumes)
  show "numbered demo_chain" by (simp add: numbered_def demo_chain_def)
  show "faithful demo_chain (\<lambda>n. if n = 0 then Inr (demo_chain n) else Inl (Net Transport))" by (simp add: faithful_def)
  show "faithful demo_chain (\<lambda>n. Inr (demo_chain n))" by (simp add: faithful_def)
  show "sync (\<lambda>_. []) (\<lambda>n. if n = 0 then Inr (demo_chain n) else Inl (Net Transport)) 1 1
      (\<lambda>ix. save_cache ((\<lambda>_. None) ix) ix) (new_index ''0xab'' 0) None = Some (demo_first, Some demo_first, Inr ())"
    by (subst sync.simps, subst sync.simps)
      (simp add: new_index_def WINDOW_def blocks_def shard_size_def chunks.simps absorb_def save_cache_def demo_first_def demo_chain_def)
  show "load_cache (Some demo_first) ''0x0AB'' 0 = Some demo_first"
    by code_simp
qed (simp_all add: WINDOW_def)

text \<open>A registry rebuilt from the events gives, for every handle it resolves, a path that folds the
  scan key at the resolved leaf to its root, and is the same for the events in any order.\<close>

theorem rebuilt_registry_proves_its_members:
  assumes "rebuild C ix = Inr g" and "resolve_handle g h = Some (i, scan)" and "mset (ix_events ix') = mset (ix_events ix)"
  shows "fold_path C scan i (br_path g i) = Inr (br_root g) \<and> rebuild C ix' = Inr g"
proof -
  obtain ls where ok: "br_ok C g ls" using rebuild_ok [OF assms(1)] by blast
  then have "mt_ok C (br_tree g) ls" "length ls \<le> 2 ^ TREE_DEPTH" by (simp_all add: br_ok_def)
  with resolve_handle_scan [OF ok assms(2)] have "fold_path C scan i (br_path g i) = Inr (br_root g)"
    by (simp add: br_path_def br_root_def mt.member_proof)
  with rebuild_any_order [OF assms(1,3)] show ?thesis by simp
qed

definition registered_event :: "string \<Rightarrow> string \<Rightarrow> string \<Rightarrow> block_event" where
  "registered_event h scan i =
     \<lparr> be_from = ''0xab'', be_keys = [felt_to_hex demo_crates (snkeccak demo_crates ''UserRegistered''), ''0x7''],
       be_data = [h, scan, i], be_block = 5 \<rparr>"

definition members_index :: "block_event list \<Rightarrow> block_index" where
  "members_index es = \<lparr> ix_address = ''0xab'', ix_first = 0, ix_next = 6, ix_events = es \<rparr>"

lemma members_rows:
  "registry_row demo_crates (registered_event ''0x626f62'' ''0x9'' ''0x1'') = Inr (1, ''bob'', 9)"
  "registry_row demo_crates (registered_event ''0x616c'' ''0x5'' ''0x0'') = Inr (0, ''al'', 5)"
proof -
  have h: "handle_text ''0x626f62'' = Inr ''bob''" "handle_text ''0x616c'' = Inr ''al''" by code_simp+
  have hx: "''0x9'' = hex0x 9" "''0x5'' = hex0x 5" by (simp_all add: hex0x_def hex_nat.simps hex_digits_def)
  have f: "felt_from_hex demo_crates ''0x9'' = Inr 9" "felt_from_hex demo_crates ''0x5'' = Inr 5"
    unfolding hx using demo_felt_hex_ok by (simp_all add: felt_hex_ok_def felt_from_hex_def felt_ok_def STARK_PRIME_def)
  show "registry_row demo_crates (registered_event ''0x626f62'' ''0x9'' ''0x1'') = Inr (1, ''bob'', 9)"
    "registry_row demo_crates (registered_event ''0x616c'' ''0x5'' ''0x0'') = Inr (0, ''al'', 5)"
    by (simp_all add: registry_row_def registered_event_def h f parse_radix_def digit_val_def)
qed

lemma members_key0:
  "with_key0 demo_crates (snkeccak demo_crates ''UserRegistered'')
     \<lparr> ix_address = a, ix_first = n, ix_next = m, ix_events = [registered_event h1 s1 i1, registered_event h2 s2 i2] \<rparr>
   = [registered_event h1 s1 i1, registered_event h2 s2 i2]"
  by (simp add: with_key0_def registered_event_def)

lemma members_rebuilt:
  "\<exists>g. rebuild demo_crates (members_index [registered_event ''0x626f62'' ''0x9'' ''0x1'', registered_event ''0x616c'' ''0x5'' ''0x0'']) = Inr g
     \<and> resolve_handle g ''al'' = Some (0, 5)"
proof -
  obtain t1 where t1: "mt_insert demo_crates (mt_new demo_crates) 5 = Inr (0, t1)" "mt_ok demo_crates t1 [5]"
    using mt_insert_ok [OF mt_new_ok, of demo_crates 5] by (auto simp: TREE_DEPTH_def)
  obtain t2 where t2: "mt_insert demo_crates t1 9 = Inr (1, t2)"
    using mt_insert_ok [OF t1(2), of 9] by (auto simp: TREE_DEPTH_def)
  show ?thesis
    by (simp add: rebuild_def members_index_def members_rows members_key0 t1 t2 resolve_handle_def)
qed

theorem rebuilt_registry_proves_its_members_witness:
  "\<exists>g. fold_path demo_crates 5 0 (br_path g 0) = Inr (br_root g)
     \<and> rebuild demo_crates (members_index [registered_event ''0x616c'' ''0x5'' ''0x0'', registered_event ''0x626f62'' ''0x9'' ''0x1'']) = Inr g"
proof -
  obtain g where "rebuild demo_crates (members_index [registered_event ''0x626f62'' ''0x9'' ''0x1'', registered_event ''0x616c'' ''0x5'' ''0x0'']) = Inr g"
    "resolve_handle g ''al'' = Some (0, 5)"
    using members_rebuilt by blast
  from rebuilt_registry_proves_its_members [OF this, of "members_index [registered_event ''0x616c'' ''0x5'' ''0x0'', registered_event ''0x626f62'' ''0x9'' ''0x1'']"]
  show ?thesis by (auto simp: members_index_def)
qed

end
