(* ===== verification/Net.thy ===== *)
theory Net
  imports Json Keychain
begin

text \<open>
  \<^verbatim>\<open>core/src/net.rs\<close>: where the traffic of each role goes. The routing is a \<^verbatim>\<open>OnceLock\<close>: a cell the
  first use fills and nothing changes. \<open>proxy_ok\<close> says which URLs \<^verbatim>\<open>ureq::Proxy::new\<close> accepts.
\<close>

section \<open>Routing\<close>

datatype role = Read | Account | Prove | Publish

fun role_name :: "role \<Rightarrow> string" where
  "role_name Read = ''read''"
| "role_name Account = ''account''"
| "role_name Prove = ''prove''"
| "role_name Publish = ''publish''"

definition ALL_ROLES :: "role list" where
  "ALL_ROLES = [Read, Account, Prove, Publish]"

fun role_index :: "role \<Rightarrow> nat" where
  "role_index Read = 0"
| "role_index Account = 1"
| "role_index Prove = 2"
| "role_index Publish = 3"

text \<open>What an agent's requests go through.\<close>

datatype agent = Direct | Through string

record routing =
  proxies :: "string list option"
  agents :: "agent list"

definition direct :: routing where
  "direct = \<lparr> proxies = None, agents = map (\<lambda>_. Direct) [0..<4] \<rparr>"

definition use_tor :: "(string \<Rightarrow> bool) \<Rightarrow> (role \<Rightarrow> string) \<Rightarrow> (routing option, unit) st" where
  "use_tor proxy_ok proxy_url cell =
     (let urls = map proxy_url ALL_ROLES
      in case rmap (\<lambda>u. ensure (proxy_ok u) (Net Transport) (Inr (Through u))) urls of
           Inl e \<Rightarrow> (cell, Inl e)
         | Inr ags \<Rightarrow>
             (case cell of
                None \<Rightarrow> (Some \<lparr> proxies = Some urls, agents = ags \<rparr>, Inr ())
              | Some r \<Rightarrow> (cell, Inl (Net RpcError))))"

definition get_routing :: "(routing option, routing) st" where
  "get_routing cell = (case cell of Some r \<Rightarrow> (cell, Inr r) | None \<Rightarrow> (Some direct, Inr direct))"

definition tor :: "(routing option, bool) st" where
  "tor = sbind get_routing (\<lambda>r. sret (proxies r \<noteq> None))"

definition role_agent :: "role \<Rightarrow> (routing option, agent) st" where
  "role_agent role = sbind get_routing (\<lambda>r. sret (agents r ! role_index role))"

definition subprocess_env :: "role \<Rightarrow> (routing option, (string \<times> string) list) st" where
  "subprocess_env role =
     sbind get_routing (\<lambda>r. sret (case proxies r of
         None \<Rightarrow> []
       | Some p \<Rightarrow>
           let url = p ! role_index role
           in [(''HTTPS_PROXY'', url), (''https_proxy'', url), (''HTTP_PROXY'', url), (''http_proxy'', url), (''ALL_PROXY'', url),
               (''NO_PROXY'', []), (''no_proxy'', [])]))"

text \<open>\<^verbatim>\<open>proxy_command\<close>: the variables are set over the environment the command inherits.\<close>

definition proxy_command :: "(string \<Rightarrow> string option) \<Rightarrow> role \<Rightarrow> (routing option, string \<Rightarrow> string option) st" where
  "proxy_command env role = sbind (subprocess_env role) (\<lambda>kvs. sret (foldl (\<lambda>m (k, v). m(k \<mapsto> v)) env kvs))"

section \<open>The network choice of the machine\<close>

definition read_net_settings :: "json \<Rightarrow> bool option" where
  "read_net_settings j =
     (case j of
        JObj kvs \<Rightarrow> (case map_of kvs ''tor'' of None \<Rightarrow> Some False | Some (JBool b) \<Rightarrow> Some b | Some _ \<Rightarrow> None)
      | _ \<Rightarrow> None)"

definition net_load :: "(string \<Rightarrow> json option) \<Rightarrow> string res \<Rightarrow> bool" where
  "net_load parse file =
     (case Option.bind (Option.bind (ok_opt file) parse) read_net_settings of Some b \<Rightarrow> b | None \<Rightarrow> False)"

definition net_save :: "bool \<Rightarrow> json" where
  "net_save b = JObj [(''tor'', JBool b)]"

section \<open>Once fixed\<close>

text \<open>The calls a process makes after it has started, and what they answer.\<close>

datatype net_op = UseTor "role \<Rightarrow> string" | AskTor | GetAgent role | GetEnv role "string \<Rightarrow> string option"
datatype net_answer = Accepted bool | IsTor bool | GotAgent agent | GotEnv "string \<Rightarrow> string option"

definition answer :: "('a \<Rightarrow> net_answer) \<Rightarrow> (routing option, 'a) st \<Rightarrow> routing option \<Rightarrow> routing option \<times> net_answer" where
  "answer f m cell = (case m cell of (cell', Inr x) \<Rightarrow> (cell', f x) | (cell', Inl e) \<Rightarrow> (cell', Accepted False))"

fun net_step :: "(string \<Rightarrow> bool) \<Rightarrow> net_op \<Rightarrow> routing option \<Rightarrow> routing option \<times> net_answer" where
  "net_step ok (UseTor url) cell = answer (\<lambda>_. Accepted True) (use_tor ok url) cell"
| "net_step ok AskTor cell = answer IsTor tor cell"
| "net_step ok (GetAgent r) cell = answer GotAgent (role_agent r) cell"
| "net_step ok (GetEnv r env) cell = answer GotEnv (proxy_command env r) cell"

fun net_run :: "(string \<Rightarrow> bool) \<Rightarrow> net_op list \<Rightarrow> routing option \<Rightarrow> routing option \<times> (net_op \<times> net_answer) list" where
  "net_run ok [] cell = (cell, [])"
| "net_run ok (op # ops) cell =
     (let (cell1, a) = net_step ok op cell; (cell2, as) = net_run ok ops cell1 in (cell2, (op, a) # as))"

text \<open>Through Tor: the answer to each call sends that role's traffic to that role's proxy.\<close>

fun through_tor :: "(role \<Rightarrow> string) \<Rightarrow> net_op \<times> net_answer \<Rightarrow> bool" where
  "through_tor url (UseTor u, a) = (a = Accepted False)"
| "through_tor url (AskTor, a) = (a = IsTor True)"
| "through_tor url (GetAgent r, a) = (a = GotAgent (Through (url r)))"
| "through_tor url (GetEnv r env, a) = (\<exists>m. a = GotEnv m \<and> m ''HTTPS_PROXY'' = Some (url r) \<and> m ''https_proxy'' = Some (url r)
     \<and> m ''HTTP_PROXY'' = Some (url r) \<and> m ''http_proxy'' = Some (url r) \<and> m ''ALL_PROXY'' = Some (url r)
     \<and> m ''NO_PROXY'' = Some [] \<and> m ''no_proxy'' = Some [])"

definition tor_routing :: "(role \<Rightarrow> string) \<Rightarrow> routing" where
  "tor_routing url = \<lparr> proxies = Some (map url ALL_ROLES), agents = map (\<lambda>r. Through (url r)) ALL_ROLES \<rparr>"

lemma use_tor_Inr: "use_tor ok url cell = (cell', Inr ()) \<Longrightarrow> cell = None \<and> cell' = Some (tor_routing url)"
  by (auto simp: use_tor_def Let_def ALL_ROLES_def tor_routing_def res_inv split: sum.splits option.splits)

lemma use_tor_again: "use_tor ok url (Some r) = (cell', a) \<Longrightarrow> cell' = Some r \<and> (\<exists>e. a = Inl e)"
  by (auto simp: use_tor_def Let_def split: sum.splits)

lemma role_index_nth [simp]: "map f ALL_ROLES ! role_index r = f r"
  by (cases r) (simp_all add: ALL_ROLES_def)

lemma net_step_tor:
  "net_step ok op (Some (tor_routing url)) = (cell', a) \<Longrightarrow> cell' = Some (tor_routing url) \<and> through_tor url (op, a)"
proof (cases op)
  case (UseTor u)
  assume "net_step ok op (Some (tor_routing url)) = (cell', a)"
  then show ?thesis using UseTor use_tor_again [of ok u "tor_routing url"]
    by (auto simp: answer_def split: prod.splits sum.splits)
qed (auto simp: answer_def tor_def role_agent_def proxy_command_def subprocess_env_def get_routing_def sbind_def sret_def tor_routing_def Let_def)

lemma net_run_tor:
  "net_run ok ops (Some (tor_routing url)) = (cell', as) \<Longrightarrow> cell' = Some (tor_routing url) \<and> list_all (through_tor url) as"
proof (induction ops arbitrary: as cell')
  case (Cons op ops)
  then show ?case using net_step_tor [of ok op url] by (auto split: prod.splits)
qed simp

lemma net_step_fixed: "net_step ok op (Some r) = (cell', a) \<Longrightarrow> cell' = Some r"
  using use_tor_again [of ok _ r]
  by (cases op) (auto simp: answer_def tor_def role_agent_def proxy_command_def subprocess_env_def get_routing_def sbind_def sret_def
    split: prod.splits sum.splits)

lemma net_run_fixed: "net_run ok ops (Some r) = (cell', as) \<Longrightarrow> cell' = Some r"
proof (induction ops arbitrary: as cell')
  case (Cons op ops)
  then show ?case using net_step_fixed [of ok op r] by (auto split: prod.splits)
qed simp

section \<open>Properties\<close>

text \<open>C39: After Tor was set up, no call of the process, whatever it asks and in whatever order, gets a
  direct connection: each role's requests and subprocesses go to that role's own proxy, and the
  routing cannot be replaced. Before it, one request is enough for setting it up to be refused.\<close>

theorem nothing_goes_direct_once_tor_is_on:
  assumes "use_tor ok url cell = (cell1, Inr ())" and "net_run ok ops cell1 = (cell2, as)"
  shows "cell2 = cell1 \<and> list_all (through_tor url) as
    \<and> (\<forall>op. snd (use_tor ok url (fst (net_step ok op cell))) = Inr () \<longrightarrow> (\<exists>u. op = UseTor u))"
proof (intro conjI allI impI)
  have c: "cell = None" "cell1 = Some (tor_routing url)" using use_tor_Inr [OF assms(1)] by simp_all
  with net_run_tor assms(2) show "cell2 = cell1" "list_all (through_tor url) as" by simp_all
  fix op assume "snd (use_tor ok url (fst (net_step ok op cell))) = Inr ()"
  moreover obtain e where "snd (use_tor ok url (Some direct)) = Inl e"
    using use_tor_again [of ok url direct] by (metis prod.collapse)
  ultimately show "\<exists>u. op = UseTor u"
    using c(1)
    by (cases op) (auto simp: answer_def tor_def role_agent_def proxy_command_def subprocess_env_def get_routing_def sbind_def sret_def
      split: prod.splits)
qed

theorem nothing_goes_direct_once_tor_is_on_witness:
  "\<exists>cell. net_run (\<lambda>u. True) [GetAgent Publish, AskTor] (Some (tor_routing role_name)) = (cell, [(GetAgent Publish, GotAgent (Through ''publish'')), (AskTor, IsTor True)])
     \<and> list_all (through_tor role_name) [(GetAgent Publish, GotAgent (Through ''publish'')), (AskTor, IsTor True)]"
proof -
  have on: "use_tor (\<lambda>u. True) role_name None = (Some (tor_routing role_name), Inr ())"
    by (simp add: use_tor_def Let_def ALL_ROLES_def tor_routing_def)
  have run: "net_run (\<lambda>u. True) [GetAgent Publish, AskTor] (Some (tor_routing role_name))
      = (Some (tor_routing role_name), [(GetAgent Publish, GotAgent (Through ''publish'')), (AskTor, IsTor True)])"
    by (simp add: answer_def role_agent_def tor_def get_routing_def sbind_def sret_def tor_routing_def ALL_ROLES_def numeral_3_eq_3)
  from nothing_goes_direct_once_tor_is_on [OF on run] run show ?thesis by blast
qed

lemma net_settings_roundtrip: "parse t = Some (net_save b) \<Longrightarrow> net_load parse (Inr t) = b"
  by (simp add: net_load_def net_save_def read_net_settings_def)

text \<open>A file that cannot be read, or not as settings, is taken for a choice against Tor.\<close>

lemma unreadable_settings_turn_tor_off: "net_load parse (Inl e) = False" "parse t = None \<Longrightarrow> net_load parse (Inr t) = False"
  by (simp_all add: net_load_def)

end
