(* ===== verification/Spill.thy ===== *)
theory Spill
  imports Json "HOL-Library.Multiset"
begin

text \<open>
  \<^verbatim>\<open>snip36-phone-ffi/src/spill_alloc.rs\<close>: the allocator that puts the prover's large buffers into
  unlinked file mappings. The answers of the system to the calls of one allocation are an argument,
  the calls made are logged. The counters are atomics; their updates by concurrent threads are the
  steps of a transition system.
\<close>

section \<open>Sizes\<close>

type_synonym usize = "64 word"

definition SPILL_THRESHOLD :: usize where "SPILL_THRESHOLD = push_bit 10 256"
definition MAX_SUPPORTED_ALIGN :: usize where "MAX_SUPPORTED_ALIGN = 4096"

definition page_ceil :: "usize \<Rightarrow> usize \<Rightarrow> usize" where
  "page_ceil page sz = and (sz + page - 1) (not (page - 1))"

section \<open>Messages without allocation\<close>

definition BUF_LEN :: nat where "BUF_LEN = 128"

definition push :: "string \<Rightarrow> string \<Rightarrow> string" where
  "push buf bs = foldl (\<lambda>buf b. if length buf < BUF_LEN then buf @ [b] else buf) buf bs"

text \<open>The digits of a number, last first, in an array of twenty; \<open>None\<close> is an index out of range.\<close>

fun digits_of :: "nat \<Rightarrow> string \<Rightarrow> string option" where
  "digits_of v ds =
     (if v = 0 then Some ds else if 20 \<le> length ds then None else digits_of (v div 10) (ds @ [char_of (48 + v mod 10)]))"

declare digits_of.simps [simp del]

definition push_num :: "string \<Rightarrow> nat \<Rightarrow> string option" where
  "push_num buf v = map_option (\<lambda>ds. push buf (rev ds)) (if v = 0 then Some ''0'' else digits_of v [])"

definition report_text :: "string \<Rightarrow> usize \<Rightarrow> 32 word \<Rightarrow> usize \<Rightarrow> usize \<Rightarrow> string option" where
  "report_text stage sz err live maps =
     Option.bind (push_num (push (push (push [] ''zkmsg spill fail '') stage) '' size='') (unat sz)) (\<lambda>b1.
     Option.bind (push_num (push b1 '' errno='') (unat (scast err :: usize))) (\<lambda>b2.
     Option.bind (push_num (push b2 '' live_mb='') (unat live div 1048576)) (\<lambda>b3.
     Option.bind (push_num (push b3 '' maps='') (unat maps)) (\<lambda>b4.
     Some (push b4 [CHR 0x0A])))))"

text \<open>The template is written into a buffer of \<^verbatim>\<open>PATH_MAX\<close> bytes at explicit positions; a write out
  of range is \<open>Panic\<close>. The result is whether it was built, and the buffer.\<close>

fun write_at :: "string \<Rightarrow> nat \<Rightarrow> string \<Rightarrow> string res" where
  "write_at buf n [] = Inr buf"
| "write_at buf n (b # bs) = (if n < length buf then write_at (buf[n := b]) (n + 1) bs else Inl Panic)"

definition SUFFIX :: string where "SUFFIX = ''/zkmsg-spill-XXXXXX'' @ [CHR 0x00]"

definition build_template :: "string option \<Rightarrow> string \<Rightarrow> (bool \<times> string) res" where
  "build_template dir buf =
     (case dir of
        None \<Rightarrow> Inr (False, buf)
      | Some d \<Rightarrow>
          let n = min (length d) (length buf - 32)
          in rbind (write_at buf 0 (take n d)) (\<lambda>buf.
             if n = 0 \<or> length buf - 32 \<le> n then Inr (False, buf)
             else let n = (if buf ! (n - 1) = CHR ''/'' then n - 1 else n)
                  in rbind (write_at buf n SUFFIX) (\<lambda>buf. Inr (True, buf))))"

text \<open>The C string at the start of a buffer, and \<^verbatim>\<open>mkstemp\<close> writing its six letters over the six before
  the terminator.\<close>

definition c_str :: "string \<Rightarrow> string" where
  "c_str buf = takeWhile (\<lambda>c. c \<noteq> CHR 0x00) buf"

definition fill_in :: "string \<Rightarrow> string \<Rightarrow> string" where
  "fill_in letters buf = (let n = length (c_str buf) - 6 in take n buf @ letters @ drop (n + 6) buf)"

section \<open>One allocation\<close>

text \<open>\<open>sys_mkstemp\<close>: the descriptor and the six letters of the name; \<open>sys_unlink\<close>: whether the name was
  removed.\<close>

record spill_sys =
  sys_mkstemp :: "(nat \<times> string) option"
  sys_unlink :: bool
  sys_born :: int
  sys_set_ok :: bool
  sys_class_after :: int
  sys_ftruncate :: bool
  sys_mmap :: "usize option"
  sys_errno :: "32 word"

datatype syscall =
    Mkstemp nat string
  | Unlink string bool
  | ReadClass nat int
  | SetClass nat
  | Ftruncate nat usize
  | Mmap nat usize "usize option"
  | Close nat
  | Munmap usize usize
  | Report "string option"

record spill_state =
  sp_enabled :: "bool option"
  live_bytes :: usize
  live_maps :: usize
  peak_bytes :: usize
  inherited_class :: int
  upgraded_files :: usize
  calls :: "syscall list"

definition called :: "syscall \<Rightarrow> spill_state \<Rightarrow> spill_state" where
  "called c s = s\<lparr>calls := calls s @ [c]\<rparr>"

definition reported :: "string \<Rightarrow> usize \<Rightarrow> 32 word \<Rightarrow> spill_state \<Rightarrow> spill_state" where
  "reported stage sz err s = called (Report (report_text stage sz err (live_bytes s) (live_maps s))) s"

text \<open>\<open>ios\<close> selects the variant of \<^verbatim>\<open>protect\<close> that is compiled.\<close>

definition PROTECTION_CLASS_A :: int where "PROTECTION_CLASS_A = 1"

definition protect :: "bool \<Rightarrow> spill_sys \<Rightarrow> nat \<Rightarrow> usize \<Rightarrow> spill_state \<Rightarrow> spill_state \<times> bool" where
  "protect ios sys fd sz s =
     (if \<not> ios then (s, True)
      else
        let born = sys_born sys;
            s = called (ReadClass fd born) s;
            s = s\<lparr>inherited_class := (if inherited_class s = -1 then born else inherited_class s)\<rparr>
        in if born = PROTECTION_CLASS_A then (s, True)
           else
             let s = called (SetClass fd) (s\<lparr>upgraded_files := upgraded_files s + 1\<rparr>)
             in if \<not> sys_set_ok sys then (reported ''protection'' sz (sys_errno sys) s, False)
                else
                  let s = called (ReadClass fd (sys_class_after sys)) s
                  in if sys_class_after sys \<noteq> PROTECTION_CLASS_A then (reported ''protection'' sz (sys_errno sys) s, False)
                     else (s, True))"

definition count_alloc :: "usize \<Rightarrow> spill_state \<Rightarrow> spill_state" where
  "count_alloc len s =
     (let live = live_bytes s + len
      in s\<lparr>live_bytes := live, live_maps := live_maps s + 1, peak_bytes := max (peak_bytes s) live\<rparr>)"

definition PATH_MAX :: nat where "PATH_MAX = 1024"

definition spill_mmap :: "bool \<Rightarrow> string option \<Rightarrow> usize \<Rightarrow> spill_sys \<Rightarrow> usize \<Rightarrow> spill_state \<Rightarrow> spill_state \<times> usize option" where
  "spill_mmap ios dir page sys sz s =
     (case build_template dir (replicate PATH_MAX (CHR 0x00)) of
        Inr (True, template) \<Rightarrow>
          (case sys_mkstemp sys of
             None \<Rightarrow> (reported ''mkstemp'' sz (sys_errno sys) s, None)
           | Some (fd, letters) \<Rightarrow>
               let path = c_str (fill_in letters template);
                   (s, ok) = protect ios sys fd sz (called (Unlink path (sys_unlink sys)) (called (Mkstemp fd path) s))
               in if \<not> ok then (called (Close fd) s, None)
                  else
                    let len = page_ceil page sz; s = called (Ftruncate fd len) s
                    in if \<not> sys_ftruncate sys then (called (Close fd) (reported ''ftruncate'' len (sys_errno sys) s), None)
                       else
                         let s = called (Close fd) (called (Mmap fd len (sys_mmap sys)) s)
                         in (case sys_mmap sys of
                               None \<Rightarrow> (reported ''mmap'' len (sys_errno sys) s, None)
                             | Some p \<Rightarrow> (count_alloc len s, Some p)))
      | _ \<Rightarrow> (s, None))"

definition spill_enabled :: "string option \<Rightarrow> spill_state \<Rightarrow> spill_state \<times> bool" where
  "spill_enabled dir s =
     (case sp_enabled s of
        Some b \<Rightarrow> (s, b)
      | None \<Rightarrow> let b = (dir \<noteq> None) in (s\<lparr>sp_enabled := Some b\<rparr>, b))"

definition use_spill :: "string option \<Rightarrow> usize \<Rightarrow> usize \<Rightarrow> spill_state \<Rightarrow> spill_state \<times> bool" where
  "use_spill dir sz align s =
     (if SPILL_THRESHOLD \<le> sz \<and> align \<le> MAX_SUPPORTED_ALIGN then spill_enabled dir s else (s, False))"

datatype allocation = Spilled usize | Aborted | FromSystem

definition alloc :: "bool \<Rightarrow> string option \<Rightarrow> usize \<Rightarrow> spill_sys \<Rightarrow> usize \<Rightarrow> usize \<Rightarrow> spill_state \<Rightarrow> spill_state \<times> allocation" where
  "alloc ios dir page sys sz align s =
     (let (s, spill) = use_spill dir sz align s
      in if spill then
           (case spill_mmap ios dir page sys sz s of
              (s, Some p) \<Rightarrow> (s, Spilled p)
            | (s, None) \<Rightarrow> (s, Aborted))
         else (s, FromSystem))"

definition alloc_zeroed :: "bool \<Rightarrow> string option \<Rightarrow> usize \<Rightarrow> spill_sys \<Rightarrow> usize \<Rightarrow> usize \<Rightarrow> spill_state \<Rightarrow> spill_state \<times> allocation" where
  "alloc_zeroed ios dir page sys sz align s =
     (let (s, spill) = use_spill dir sz align s
      in if spill then alloc ios dir page sys sz align s else (s, FromSystem))"

text \<open>\<open>True\<close> when the memory was unmapped, \<open>False\<close> when it went back to the system allocator.\<close>

definition dealloc :: "string option \<Rightarrow> usize \<Rightarrow> usize \<Rightarrow> usize \<Rightarrow> usize \<Rightarrow> spill_state \<Rightarrow> spill_state \<times> bool" where
  "dealloc dir page p sz align s =
     (let (s, spill) = use_spill dir sz align s
      in if spill then
           let len = page_ceil page sz; s = called (Munmap p len) s
           in (s\<lparr>live_bytes := live_bytes s - len, live_maps := live_maps s - 1\<rparr>, True)
         else (s, False))"

section \<open>Rounding to pages\<close>

lemma unat_usize: "unat (x :: usize) < 2 ^ 64"
  by (rule order_less_le_trans [OF unsigned_less]) simp

lemma and_not_mask_push: "and x (not (mask k)) = push_bit k (drop_bit k (x :: usize))"
  by (rule bit_word_eqI) (auto simp: bit_simps)

lemma page_mask: "(2 :: usize) ^ k - 1 = mask k"
  by (simp add: mask_eq_exp_minus_1)

lemma unat_page_ceil:
  assumes "k < 63" and "unat sz < 2 ^ 63"
  shows "unat (page_ceil (2 ^ k) sz) = (unat sz + (2 ^ k - 1)) div 2 ^ k * 2 ^ k"
proof -
  have k: "(2 :: nat) ^ k < 2 ^ 63" by (rule power_strict_increasing) (use assms in auto)
  have p: "unat ((2 :: usize) ^ k) = 2 ^ k" 
  proof -
    have "(2 :: usize) ^ k = word_of_nat (2 ^ k)" by simp
    then show ?thesis using k by (simp only: unat_of_nat) simp
  qed
  let ?x = "sz + 2 ^ k - 1"
  have "unat (sz + (2 ^ k - 1)) = unat sz + (2 ^ k - 1)"
  proof -
    have m: "unat ((2 :: usize) ^ k - 1) = 2 ^ k - 1" using p by (subst unat_sub) (auto simp: word_le_nat_alt)
    show ?thesis using m assms(2) k by (subst unat_add_lem [THEN iffD1]) auto
  qed
  then have x: "unat ?x = unat sz + (2 ^ k - 1)" by (simp add: algebra_simps)
  have "page_ceil (2 ^ k) sz = push_bit k (drop_bit k ?x)"
    unfolding page_ceil_def page_mask by (rule and_not_mask_push)
  also have "unat \<dots> = unat ?x div 2 ^ k * 2 ^ k"
  proof -
    have "unat ?x div 2 ^ k * 2 ^ k \<le> unat ?x" by simp
    also have "unat ?x < 2 ^ 64" by (rule unat_usize)
    finally have small: "unat ?x div 2 ^ k * 2 ^ k < 2 ^ 64" .
    have "unat (push_bit k (drop_bit k ?x)) = take_bit 64 (push_bit k (drop_bit k (unat ?x)))"
      by (simp add: unsigned_push_bit_eq unsigned_drop_bit_eq take_bit_nat_eq_self [OF unat_usize])
    also have "\<dots> = unat ?x div 2 ^ k * 2 ^ k"
      using small by (simp only: push_bit_eq_mult drop_bit_eq_div take_bit_eq_mod mod_less)
    finally show ?thesis .
  qed
  finally show ?thesis by (simp add: x)
qed

lemma page_ceil_covers:
  assumes "k < 63" and "unat sz < 2 ^ 63"
  shows "unat sz \<le> unat (page_ceil (2 ^ k) sz) \<and> 2 ^ k dvd unat (page_ceil (2 ^ k) sz)
    \<and> unat (page_ceil (2 ^ k) sz) < unat sz + 2 ^ k"
proof -
  let ?n = "unat sz + (2 ^ k - 1)"
  have "?n div 2 ^ k * 2 ^ k + ?n mod 2 ^ k = ?n" by (rule div_mult_mod_eq)
  moreover have "?n mod 2 ^ k < 2 ^ k" by simp
  moreover have "0 < (2 :: nat) ^ k" by simp
  ultimately have "unat sz \<le> ?n div 2 ^ k * 2 ^ k" "?n div 2 ^ k * 2 ^ k < unat sz + 2 ^ k" by linarith+
  then show ?thesis unfolding unat_page_ceil [OF assms] by simp
qed

section \<open>Messages\<close>

lemma push_take: "length buf \<le> BUF_LEN \<Longrightarrow> push buf bs = take BUF_LEN (buf @ bs)"
proof (induction bs arbitrary: buf)
  case Nil
  then show ?case by (simp add: push_def)
next
  case (Cons b bs)
  have "push buf (b # bs) = push (if length buf < BUF_LEN then buf @ [b] else buf) bs" by (simp add: push_def)
  also have "\<dots> = take BUF_LEN ((if length buf < BUF_LEN then buf @ [b] else buf) @ bs)"
    by (rule Cons.IH) (use Cons.prems in auto)
  finally show ?case using Cons.prems by (auto simp: take_Cons')
qed

lemma push_push: "push (push buf as) bs = push buf (as @ bs)"
  by (simp add: push_def)

lemma digit_char: "d < 10 \<Longrightarrow> char_of (48 + d) = hex_digits ! d"
proof -
  have "list_all (\<lambda>d. char_of (48 + d) = hex_digits ! d) [0..<10]" by code_simp
  then show "d < 10 \<Longrightarrow> ?thesis" by (simp add: list_all_iff)
qed

lemma digits_of_dec: "0 < v \<Longrightarrow> v < 10 ^ k \<Longrightarrow> length ds + k \<le> 20 \<Longrightarrow> digits_of v ds = Some (ds @ rev (dec_nat v))"
proof (induction k arbitrary: v ds)
  case 0
  then show ?case by simp
next
  case (Suc k)
  have step: "digits_of v ds = digits_of (v div 10) (ds @ [hex_digits ! (v mod 10)])"
    using Suc.prems by (subst digits_of.simps) (simp add: digit_char)
  show ?case
  proof (cases "v < 10")
    case True
    then show ?thesis using step by (simp add: digits_of.simps [of 0] dec_nat.simps [of v])
  next
    case False
    have "digits_of (v div 10) (ds @ [hex_digits ! (v mod 10)])
        = Some ((ds @ [hex_digits ! (v mod 10)]) @ rev (dec_nat (v div 10)))"
      by (rule Suc.IH) (use False Suc.prems in auto)
    then show ?thesis using step False by (simp add: dec_nat.simps [of v])
  qed
qed

lemma push_num_dec: "v < 2 ^ 64 \<Longrightarrow> push_num buf v = Some (push buf (dec_nat v))"
  using digits_of_dec [of v 20 "[]"]
  by (auto simp: push_num_def dec_nat.simps [of 0] hex_digits_def)

lemma report_text_value:
  "report_text stage sz err live maps = Some (take BUF_LEN (''zkmsg spill fail '' @ stage @ '' size='' @ dec_nat (unat sz)
     @ '' errno='' @ dec_nat (unat (scast err :: usize)) @ '' live_mb='' @ dec_nat (unat live div 1048576)
     @ '' maps='' @ dec_nat (unat maps) @ [CHR 0x0A]))"
proof -
  have "unat live div 1048576 < 2 ^ 64" using unat_usize [of live] by linarith
  then show ?thesis
    by (simp only: report_text_def push_num_dec [OF unat_usize] push_num_dec Option.bind.simps push_push append_assoc)
      (simp only: push_take list.size le0 append_Nil)
qed

section \<open>The template\<close>

lemma write_at_ok: "n + length bs \<le> length buf \<Longrightarrow> write_at buf n bs = Inr (take n buf @ bs @ drop (n + length bs) buf)"
proof (induction bs arbitrary: buf n)
  case Nil
  then show ?case by simp
next
  case (Cons b bs)
  then show ?case by (simp add: upd_conv_take_nth_drop take_Suc_conv_app_nth add.commute)
qed

definition strip_slash :: "string \<Rightarrow> string" where
  "strip_slash d = (if last d = CHR ''/'' then butlast d else d)"

lemma build_template_value:
  assumes "32 \<le> length buf"
  shows "\<exists>rest. build_template (Some d) buf
     = Inr (if d \<noteq> [] \<and> length d < length buf - 32 then (True, strip_slash d @ SUFFIX @ rest) else (False, take (length buf - 32) d @ rest))"
proof (cases "d \<noteq> [] \<and> length d < length buf - 32")
  case True
  then have d: "d = butlast d @ [last d]" by simp
  have w: "write_at buf 0 (take (length d) d) = Inr (d @ drop (length d) buf)" using True by (subst write_at_ok) auto
  have last: "(d @ drop (length d) buf) ! (length d - 1) = last d" using True by (simp add: nth_append last_conv_nth)
  have sfx: "length SUFFIX = 20" by (simp add: SUFFIX_def)
  let ?n = "if last d = CHR ''/'' then length d - 1 else length d"
  have "take ?n (d @ drop (length d) buf) = strip_slash d" using d by (auto simp: strip_slash_def butlast_conv_take)
  moreover have "write_at (d @ drop (length d) buf) ?n SUFFIX
      = Inr (take ?n (d @ drop (length d) buf) @ SUFFIX @ drop (?n + length SUFFIX) (d @ drop (length d) buf))"
    by (rule write_at_ok) (use True sfx in auto)
  ultimately show ?thesis using True w last by (auto simp: build_template_def Let_def min_def)
next
  case False
  have "write_at buf 0 (take (min (length d) (length buf - 32)) d)
      = Inr (take (length buf - 32) d @ drop (min (length d) (length buf - 32)) buf)"
    using assms by (subst write_at_ok) (auto simp: min_def)
  with False show ?thesis by (auto simp: build_template_def Let_def min_def)
qed

section \<open>The life of a spill file\<close>

text \<open>The file descriptor of an allocation: \<open>Free\<close> before it is opened and after it is closed,
  \<open>Named\<close> until the removal of the file's name has been asked for, \<open>Weak\<close> before its protection is
  settled, \<open>Safe\<close> after.
  \<open>None\<close> is a call out of turn.\<close>

datatype phase = Free | Named nat string | Weak nat | Safe nat

definition hidden :: "bool \<Rightarrow> nat \<Rightarrow> phase" where
  "hidden ios fd = (if ios then Weak fd else Safe fd)"

fun phase_step :: "bool \<Rightarrow> syscall \<Rightarrow> phase \<Rightarrow> phase option" where
  "phase_step ios (Mkstemp fd path) Free = Some (Named fd path)"
| "phase_step ios (Unlink path' ok) (Named fd path) = (if path' = path then Some (hidden ios fd) else None)"
| "phase_step ios (ReadClass fd' c) (Weak fd) = (if fd' = fd then Some (if c = PROTECTION_CLASS_A then Safe fd else Weak fd) else None)"
| "phase_step ios (SetClass fd') (Weak fd) = (if fd' = fd then Some (Weak fd) else None)"
| "phase_step ios (Ftruncate fd' n) (Safe fd) = (if fd' = fd then Some (Safe fd) else None)"
| "phase_step ios (Mmap fd' n p) (Safe fd) = (if fd' = fd then Some (Safe fd) else None)"
| "phase_step ios (Close fd') (Weak fd) = (if fd' = fd then Some Free else None)"
| "phase_step ios (Close fd') (Safe fd) = (if fd' = fd then Some Free else None)"
| "phase_step ios (Munmap p n) ph = Some ph"
| "phase_step ios (Report t) ph = Some ph"
| "phase_step ios _ ph = None"

fun phases :: "bool \<Rightarrow> syscall list \<Rightarrow> phase \<Rightarrow> phase option" where
  "phases ios [] ph = Some ph"
| "phases ios (c # cs) ph = Option.bind (phase_step ios c ph) (phases ios cs)"

text \<open>The names of spill files on disk, through a sequence of calls, and those the system refused to
  remove.\<close>

fun names :: "syscall \<Rightarrow> string multiset \<Rightarrow> string multiset" where
  "names (Mkstemp fd path) N = add_mset path N"
| "names (Unlink path ok) N = (if ok then N - {#path#} else N)"
| "names _ N = N"

definition refused :: "syscall list \<Rightarrow> string multiset" where
  "refused cs = mset (List.map_filter (\<lambda>c. case c of Unlink path False \<Rightarrow> Some path | _ \<Rightarrow> None) cs)"

lemma refused_simps [simp]:
  "refused [] = {#}"
  "refused (Unlink path ok # cs) = (if ok then refused cs else add_mset path (refused cs))"
  "refused (Mkstemp fd path # cs) = refused cs"
  "refused (ReadClass fd k # cs) = refused cs"
  "refused (SetClass fd # cs) = refused cs"
  "refused (Ftruncate fd n # cs) = refused cs"
  "refused (Mmap fd n m # cs) = refused cs"
  "refused (Close fd # cs) = refused cs"
  "refused (Munmap p n # cs) = refused cs"
  "refused (Report t # cs) = refused cs"
  by (simp_all add: refused_def List.map_filter_simps)

lemma refused_append [simp]: "refused (as @ bs) = refused as + refused bs"
  by (simp add: refused_def map_filter_def)

text \<open>Calls that leave behind exactly the names that were refused.\<close>

definition cleans :: "syscall list \<Rightarrow> bool" where
  "cleans cs = (\<forall>N. fold names cs N = N + refused cs)"

lemma cleans_append: "cleans as \<Longrightarrow> cleans bs \<Longrightarrow> cleans (as @ bs)"
  by (simp add: cleans_def ac_simps)

lemma cleans_simps [simp]:
  "cleans []"
  "cleans (ReadClass fd k # cs) = cleans cs"
  "cleans (SetClass fd # cs) = cleans cs"
  "cleans (Ftruncate fd n # cs) = cleans cs"
  "cleans (Mmap fd n m # cs) = cleans cs"
  "cleans (Close fd # cs) = cleans cs"
  "cleans (Munmap p n # cs) = cleans cs"
  "cleans (Report t # cs) = cleans cs"
  by (simp_all add: cleans_def)

lemma cleans_life [simp]: "cleans cs \<Longrightarrow> cleans (Mkstemp fd path # Unlink path ok # cs)"
  by (simp add: cleans_def)

definition mapped_regions :: "syscall list \<Rightarrow> (usize \<times> usize) list" where
  "mapped_regions cs = List.map_filter (\<lambda>c. case c of Mmap fd n (Some p) \<Rightarrow> Some (p, n) | _ \<Rightarrow> None) cs"

lemma mapped_regions_simps [simp]:
  "mapped_regions [] = []"
  "mapped_regions (Mmap fd n None # cs) = mapped_regions cs"
  "mapped_regions (Mmap fd n (Some p) # cs) = (p, n) # mapped_regions cs"
  "mapped_regions (Mkstemp fd path # cs) = mapped_regions cs"
  "mapped_regions (Unlink path ok # cs) = mapped_regions cs"
  "mapped_regions (ReadClass fd k # cs) = mapped_regions cs"
  "mapped_regions (SetClass fd # cs) = mapped_regions cs"
  "mapped_regions (Ftruncate fd n # cs) = mapped_regions cs"
  "mapped_regions (Close fd # cs) = mapped_regions cs"
  "mapped_regions (Munmap p n # cs) = mapped_regions cs"
  "mapped_regions (Report t # cs) = mapped_regions cs"
  by (simp_all add: mapped_regions_def List.map_filter_simps)

lemma protect_calls:
  "protect ios sys fd sz s = (s', ok) \<Longrightarrow> \<exists>cs. calls s' = calls s @ cs \<and> mapped_regions cs = [] \<and> cleans cs
     \<and> (if ok then phases ios cs (hidden ios fd) = Some (Safe fd) else phases ios cs (hidden ios fd) = Some (Weak fd))
     \<and> live_bytes s' = live_bytes s \<and> live_maps s' = live_maps s \<and> peak_bytes s' = peak_bytes s \<and> sp_enabled s' = sp_enabled s"
  by (auto simp: protect_def hidden_def called_def reported_def Let_def split: if_splits)

lemma phases_append: "phases ios (as @ bs) ph = Option.bind (phases ios as ph) (phases ios bs)"
proof (induction as arbitrary: ph)
  case (Cons a as)
  then show ?case by (cases "phase_step ios a ph") simp_all
qed simp

lemma mapped_regions_append [simp]: "mapped_regions (as @ bs) = mapped_regions as @ mapped_regions bs"
  by (simp add: mapped_regions_def map_filter_def)

lemma spill_mmap_calls:
  assumes "spill_mmap ios dir page sys sz s = (s', r)"
  shows "\<exists>cs. calls s' = calls s @ cs \<and> phases ios cs Free = Some Free \<and> cleans cs \<and> sp_enabled s' = sp_enabled s
     \<and> (case r of Some p \<Rightarrow> mapped_regions cs = [(p, page_ceil page sz)]
          \<and> live_bytes s' = live_bytes s + page_ceil page sz \<and> live_maps s' = live_maps s + 1
        | None \<Rightarrow> mapped_regions cs = [] \<and> live_bytes s' = live_bytes s \<and> live_maps s' = live_maps s)"
proof -
  consider (early) "s' = s" "r = None"
    | (made) t where "build_template dir (replicate PATH_MAX (CHR 0x00)) = Inr (True, t)"
    using assms by (auto simp: spill_mmap_def split: sum.splits prod.splits bool.splits)
  then show ?thesis
  proof cases
    case early
    then show ?thesis by simp
  next
    case (made t)
    show ?thesis
    proof (cases "sys_mkstemp sys")
      case None
      with assms made show ?thesis by (auto simp: spill_mmap_def reported_def called_def)
    next
      case (Some made_file)
      obtain fd letters where f: "sys_mkstemp sys = Some (fd, letters)" using Some by (cases made_file) simp
      let ?path = "c_str (fill_in letters t)"
      let ?u = "Unlink ?path (sys_unlink sys)"
      obtain s1 ok where p: "protect ios sys fd sz (called ?u (called (Mkstemp fd ?path) s)) = (s1, ok)" by fastforce
      from protect_calls [OF this] obtain cs where cs: "calls s1 = calls s @ [Mkstemp fd ?path, ?u] @ cs" "mapped_regions cs = []" "cleans cs"
        "phases ios cs (hidden ios fd) = Some (if ok then Safe fd else Weak fd)"
        and same: "live_bytes s1 = live_bytes s" "live_maps s1 = live_maps s" "sp_enabled s1 = sp_enabled s"
        by (auto simp: called_def split: if_splits)
      have start: "phases ios ([Mkstemp fd ?path, ?u] @ cs @ rest) Free = phases ios rest (if ok then Safe fd else Weak fd)" for rest
        using cs(4) by (simp add: phases_append)
      have clean: "cleans (Mkstemp fd ?path # ?u # cs @ rest)" if "cleans rest" for rest
        using cleans_append [OF cs(3) that] by simp
      show ?thesis
        using assms made f p cs(1,2) same
        by (auto simp: spill_mmap_def Let_def called_def reported_def count_alloc_def start [simplified] clean split: if_splits option.splits)
    qed
  qed
qed

section \<open>Runs of the allocator\<close>

datatype spill_op =
    Alloc bool "string option" spill_sys usize usize
  | Dealloc "string option" usize usize usize

fun spill_step :: "bool \<Rightarrow> usize \<Rightarrow> spill_op \<Rightarrow> spill_state \<Rightarrow> spill_state" where
  "spill_step ios page (Alloc zeroed dir sys sz al) s = fst ((if zeroed then alloc_zeroed else alloc) ios dir page sys sz al s)"
| "spill_step ios page (Dealloc dir p sz al) s = fst (dealloc dir page p sz al s)"

definition spill_run :: "bool \<Rightarrow> usize \<Rightarrow> spill_op list \<Rightarrow> spill_state \<Rightarrow> spill_state" where
  "spill_run ios page ops s = fold (spill_step ios page) ops s"

text \<open>What one operation may do: add a closed life to the log, and leave the choice made before.\<close>

definition tidy :: "bool \<Rightarrow> spill_state \<Rightarrow> spill_state \<Rightarrow> bool" where
  "tidy ios s s' = (\<exists>cs. calls s' = calls s @ cs \<and> phases ios cs Free = Some Free \<and> cleans cs \<and> (sp_enabled s \<noteq> None \<longrightarrow> sp_enabled s' = sp_enabled s))"

lemma tidy_refl: "tidy ios s s"
  by (auto simp: tidy_def)

lemma tidy_trans: "tidy ios s1 s2 \<Longrightarrow> tidy ios s2 s3 \<Longrightarrow> tidy ios s1 s3"
  unfolding tidy_def
proof (elim exE conjE)
  fix cs ds
  assume "calls s2 = calls s1 @ cs" "phases ios cs Free = Some Free" "cleans cs" "sp_enabled s1 \<noteq> None \<longrightarrow> sp_enabled s2 = sp_enabled s1"
    "calls s3 = calls s2 @ ds" "phases ios ds Free = Some Free" "cleans ds" "sp_enabled s2 \<noteq> None \<longrightarrow> sp_enabled s3 = sp_enabled s2"
  then show "\<exists>cs. calls s3 = calls s1 @ cs \<and> phases ios cs Free = Some Free \<and> cleans cs \<and> (sp_enabled s1 \<noteq> None \<longrightarrow> sp_enabled s3 = sp_enabled s1)"
    by (intro exI [of _ "cs @ ds"]) (auto simp: phases_append cleans_append)
qed

lemma use_spill_effect:
  "use_spill dir sz al s = (s', b) \<Longrightarrow> calls s' = calls s \<and> (sp_enabled s \<noteq> None \<longrightarrow> sp_enabled s' = sp_enabled s) \<and> (b \<longrightarrow> sp_enabled s' = Some True)
     \<and> live_bytes s' = live_bytes s \<and> live_maps s' = live_maps s"
  by (auto simp: use_spill_def spill_enabled_def Let_def split: if_splits option.splits)

lemma use_spill_decided:
  "use_spill dir sz al s = (s1, b) \<Longrightarrow> sp_enabled s2 = sp_enabled s1 \<Longrightarrow> sp_enabled s2 \<noteq> None \<Longrightarrow> use_spill dir' sz al s2 = (s2, b)"
  by (auto simp: use_spill_def spill_enabled_def Let_def split: if_splits option.splits)

lemma alloc_tidy: "tidy ios s (fst (alloc ios dir page sys sz al s))"
proof -
  obtain s1 b where u: "use_spill dir sz al s = (s1, b)" by fastforce
  obtain s2 r where m: "spill_mmap ios dir page sys sz s1 = (s2, r)" by fastforce
  from spill_mmap_calls [OF m] obtain cs where "calls s2 = calls s1 @ cs" "phases ios cs Free = Some Free" "cleans cs" "sp_enabled s2 = sp_enabled s1"
    by blast
  with use_spill_effect [OF u] u m show ?thesis
    by (auto simp: alloc_def tidy_def split: option.splits)
qed

lemma spill_step_tidy: "tidy ios s (spill_step ios page op s)"
proof (cases op)
  case (Alloc zeroed dir sys sz al)
  obtain s1 b where u: "use_spill dir sz al s = (s1, b)" by fastforce
  have t: "tidy ios s s1" using use_spill_effect [OF u] by (auto simp: tidy_def)
  have "tidy ios s (fst (alloc_zeroed ios dir page sys sz al s))"
    using u t tidy_trans [OF t alloc_tidy] by (simp add: alloc_zeroed_def)
  with Alloc alloc_tidy show ?thesis by simp
next
  case (Dealloc dir p sz al)
  obtain s1 b where "use_spill dir sz al s = (s1, b)" by fastforce
  with use_spill_effect [OF this] Dealloc show ?thesis
    by (auto simp: dealloc_def Let_def called_def tidy_def)
qed

lemma spill_run_tidy: "tidy ios s (spill_run ios page ops s)"
proof (induction ops arbitrary: s)
  case (Cons op ops)
  then show ?case using tidy_trans [OF spill_step_tidy Cons.IH] by (simp add: spill_run_def)
qed (simp add: spill_run_def tidy_refl)

lemma alloc_spilled:
  assumes "alloc ios dir page sys sz al s = (s1, Spilled p)"
  shows "sp_enabled s1 = Some True \<and> (\<exists>s0. use_spill dir sz al s = (s0, True) \<and> sp_enabled s0 = sp_enabled s1)
    \<and> (\<exists>cs. calls s1 = calls s @ cs \<and> mapped_regions cs = [(p, page_ceil page sz)])"
proof -
  obtain s0 b where u: "use_spill dir sz al s = (s0, b)" by fastforce
  then have m: "b" "spill_mmap ios dir page sys sz s0 = (s1, Some p)"
    using assms by (auto simp: alloc_def split: if_splits prod.splits option.splits)
  from spill_mmap_calls [OF m(2)] use_spill_effect [OF u] u m(1) show ?thesis by auto
qed

section \<open>Counters under concurrency\<close>

text \<open>Each atomic update is a step of its own. A thread that allocates adds the bytes, then the map,
  then raises the peak to the value its addition returned; one that frees subtracts the bytes,
  then the map. \<open>c_busy\<close> holds what the threads under way have still to do, \<open>c_owned\<close> the lengths
  handed to callers, \<open>c_high\<close> the largest value an addition returned.\<close>

datatype todo = AddBytes usize | AddMap usize usize | MaxPeak usize usize | SubBytes usize | SubMap

record counters =
  c_live :: usize
  c_maps :: usize
  c_peak :: usize
  c_high :: usize
  c_owned :: "usize multiset"
  c_busy :: "todo multiset"

definition no_counts :: counters where
  "no_counts = \<lparr> c_live = 0, c_maps = 0, c_peak = 0, c_high = 0, c_owned = {#}, c_busy = {#} \<rparr>"

inductive counting :: "counters \<Rightarrow> counters \<Rightarrow> bool" where
  mapped: "counting c (c\<lparr>c_busy := add_mset (AddBytes n) (c_busy c)\<rparr>)"
| add_bytes: "c_busy c = add_mset (AddBytes n) b \<Longrightarrow>
    counting c (c\<lparr>c_live := c_live c + n, c_high := max (c_high c) (c_live c + n), c_busy := add_mset (AddMap n (c_live c + n)) b\<rparr>)"
| add_map: "c_busy c = add_mset (AddMap n l) b \<Longrightarrow> counting c (c\<lparr>c_maps := c_maps c + 1, c_busy := add_mset (MaxPeak n l) b\<rparr>)"
| max_peak: "c_busy c = add_mset (MaxPeak n l) b \<Longrightarrow>
    counting c (c\<lparr>c_peak := max (c_peak c) l, c_owned := add_mset n (c_owned c), c_busy := b\<rparr>)"
| unmapped: "c_owned c = add_mset n o1 \<Longrightarrow> counting c (c\<lparr>c_owned := o1, c_busy := add_mset (SubBytes n) (c_busy c)\<rparr>)"
| sub_bytes: "c_busy c = add_mset (SubBytes n) b \<Longrightarrow> counting c (c\<lparr>c_live := c_live c - n, c_busy := add_mset SubMap b\<rparr>)"
| sub_map: "c_busy c = add_mset SubMap b \<Longrightarrow> counting c (c\<lparr>c_maps := c_maps c - 1, c_busy := b\<rparr>)"

text \<open>What a pending update has counted that no caller owns, and not yet taken back.\<close>

fun pending_bytes :: "todo \<Rightarrow> usize" where
  "pending_bytes (AddMap n l) = n"
| "pending_bytes (MaxPeak n l) = n"
| "pending_bytes (SubBytes n) = n"
| "pending_bytes _ = 0"

fun pending_maps :: "todo \<Rightarrow> usize" where
  "pending_maps (MaxPeak n l) = 1"
| "pending_maps (SubBytes n) = 1"
| "pending_maps SubMap = 1"
| "pending_maps _ = 0"

fun pending_peak :: "todo \<Rightarrow> usize set" where
  "pending_peak (AddMap n l) = {l}"
| "pending_peak (MaxPeak n l) = {l}"
| "pending_peak _ = {}"

definition counts_ok :: "counters \<Rightarrow> bool" where
  "counts_ok c = (c_live c = sum_mset (c_owned c) + sum_mset (image_mset pending_bytes (c_busy c))
     \<and> c_maps c = word_of_nat (size (c_owned c)) + sum_mset (image_mset pending_maps (c_busy c))
     \<and> c_peak c \<le> c_high c \<and> (\<forall>t \<in># c_busy c. \<forall>l \<in> pending_peak t. l \<le> c_high c)
     \<and> (c_peak c = c_high c \<or> (\<exists>t \<in># c_busy c. c_high c \<in> pending_peak t)))"

lemma counting_ok: "counting c c' \<Longrightarrow> counts_ok c \<Longrightarrow> counts_ok c'"
proof (induction rule: counting.induct)
  case (add_bytes c n b)
  let ?h = "max (c_high c) (c_live c + n)"
  have "\<forall>t \<in># b. \<forall>l \<in> pending_peak t. l \<le> ?h"
    using add_bytes by (auto simp: counts_ok_def le_max_iff_disj)
  with add_bytes show ?case by (auto simp: counts_ok_def max_def algebra_simps)
next
  case (add_map c n l b)
  then show ?case by (auto simp: counts_ok_def algebra_simps)
next
  case (max_peak c n l b)
  then show ?case by (auto simp: counts_ok_def max_def algebra_simps)
next
  case (unmapped c n o1)
  then show ?case by (auto simp: counts_ok_def algebra_simps)
next
  case (sub_bytes c n b)
  then show ?case by (auto simp: counts_ok_def algebra_simps)
next
  case (sub_map c b)
  then show ?case by (auto simp: counts_ok_def algebra_simps)
qed (auto simp: counts_ok_def)

lemma counting_reaches_ok: "counting\<^sup>*\<^sup>* no_counts c \<Longrightarrow> counts_ok c"
proof (induction rule: rtranclp_induct)
  case base
  then show ?case by (simp add: counts_ok_def no_counts_def)
next
  case (step c c')
  then show ?case using counting_ok by blast
qed

text \<open>The three updates at the end of \<open>spill_mmap\<close>, run without interruption, are three such steps.\<close>

definition counters_of :: "usize \<Rightarrow> usize multiset \<Rightarrow> todo multiset \<Rightarrow> spill_state \<Rightarrow> counters" where
  "counters_of high owned busy s =
     \<lparr> c_live = live_bytes s, c_maps = live_maps s, c_peak = peak_bytes s, c_high = high, c_owned = owned, c_busy = busy \<rparr>"

lemma count_alloc_steps:
  "counting\<^sup>*\<^sup>* (counters_of high owned busy s) (counters_of (max high (live_bytes s + n)) (add_mset n owned) busy (count_alloc n s))"
proof -
  let ?l = "live_bytes s + n"
  have 1: "counting (counters_of high owned busy s) (counters_of high owned (add_mset (AddBytes n) busy) s)"
    using mapped [of "counters_of high owned busy s" n] by (simp add: counters_of_def)
  have 2: "counting (counters_of high owned (add_mset (AddBytes n) busy) s) (counters_of (max high ?l) owned (add_mset (AddMap n ?l) busy) (s\<lparr>live_bytes := ?l\<rparr>))"
    using add_bytes [of "counters_of high owned (add_mset (AddBytes n) busy) s" n busy] by (simp add: counters_of_def)
  have 3: "counting (counters_of (max high ?l) owned (add_mset (AddMap n ?l) busy) (s\<lparr>live_bytes := ?l\<rparr>)) (counters_of (max high ?l) owned (add_mset (MaxPeak n ?l) busy) (s\<lparr>live_bytes := ?l, live_maps := live_maps s + 1\<rparr>))"
    using add_map [of "counters_of (max high ?l) owned (add_mset (AddMap n ?l) busy) (s\<lparr>live_bytes := ?l\<rparr>)" n ?l busy] by (simp add: counters_of_def)
  have 4: "counting (counters_of (max high ?l) owned (add_mset (MaxPeak n ?l) busy) (s\<lparr>live_bytes := ?l, live_maps := live_maps s + 1\<rparr>)) (counters_of (max high ?l) (add_mset n owned) busy (count_alloc n s))"
    using max_peak [of "counters_of (max high ?l) owned (add_mset (MaxPeak n ?l) busy) (s\<lparr>live_bytes := ?l, live_maps := live_maps s + 1\<rparr>)" n ?l busy]
    by (simp add: counters_of_def count_alloc_def Let_def)
  from 1 2 3 4 show ?thesis by (meson converse_rtranclp_into_rtranclp rtranclp.rtrancl_refl)
qed

section \<open>Properties\<close>

text \<open>C40: Whatever is allocated and freed and whatever the system answers: the removal of a spill file's
  name is asked for, at the very path the file was created at, before anything else is done with the
  file, and once; the file is of the strongest protection class before it is sized or mapped where
  there are classes; and its descriptor is closed exactly once, on the failing paths as well. The
  names the run leaves on disk are exactly those the system refused to remove, so none is left when
  it removes what it is asked to.\<close>

theorem spill_files_are_hidden_protected_and_closed:
  "\<exists>cs. calls (spill_run ios page ops s) = calls s @ cs \<and> phases ios cs Free = Some Free \<and> fold names cs {#} = refused cs"
  using spill_run_tidy [of ios s page ops] by (fastforce simp: tidy_def cleans_def)

text \<open>The program does not look at that answer: when a name is not removed the allocation goes on,
  and the file stays readable under it.\<close>

lemma refused_name_stays:
  assumes "spill_mmap ios dir page sys sz s = (s', Some p)" and "\<not> sys_unlink sys"
  shows "\<exists>cs path. calls s' = calls s @ cs \<and> path \<in># fold names cs {#}"
proof -
  obtain cs where cs: "calls s' = calls s @ cs" "cleans cs" using spill_mmap_calls [OF assms(1)] by blast
  obtain t fd letters where t: "build_template dir (replicate PATH_MAX (CHR 0x00)) = Inr (True, t)" "sys_mkstemp sys = Some (fd, letters)"
    using assms(1) by (auto simp: spill_mmap_def split: sum.splits prod.splits bool.splits option.splits)
  let ?path = "c_str (fill_in letters t)"
  obtain s1 ok where p: "protect ios sys fd sz (called (Unlink ?path False) (called (Mkstemp fd ?path) s)) = (s1, ok)" by fastforce
  from protect_calls [OF this] obtain ds where "calls s1 = calls s @ [Mkstemp fd ?path, Unlink ?path False] @ ds"
    by (auto simp: called_def)
  then have "\<exists>es. cs = [Mkstemp fd ?path, Unlink ?path False] @ es"
    using assms t p cs(1) by (auto simp: spill_mmap_def Let_def called_def reported_def count_alloc_def split: if_splits option.splits)
  with cs show ?thesis by (fastforce simp: cleans_def)
qed

text \<open>Memory that was spilled is unmapped, whole and only it, when it is freed, whatever happened
  in between and even if the variable that turns spilling on has changed; the region covers the
  request and is a multiple of the page.\<close>

theorem spilled_memory_goes_back_whole:
  assumes "alloc ios dir (2 ^ k) sys sz al s = (s1, Spilled p)" and "k < 63" and "unat sz < 2 ^ 63"
    and "s2 = spill_run ios (2 ^ k) ops s1" and "dealloc dir' (2 ^ k) p sz al s2 = (s3, unmapped)"
  shows "unmapped \<and> (\<exists>cs len. calls s1 = calls s @ cs \<and> mapped_regions cs = [(p, len)] \<and> calls s3 = calls s2 @ [Munmap p len]
     \<and> unat sz \<le> unat len \<and> 2 ^ k dvd unat len \<and> unat len < unat sz + 2 ^ k)"
proof -
  from alloc_spilled [OF assms(1)] obtain s0 cs where u: "use_spill dir sz al s = (s0, True)" "sp_enabled s0 = sp_enabled s1"
    and on: "sp_enabled s1 = Some True" and cs: "calls s1 = calls s @ cs" "mapped_regions cs = [(p, page_ceil (2 ^ k) sz)]"
    by blast
  have "sp_enabled s2 = sp_enabled s1" using spill_run_tidy [of ios s1 "2 ^ k" ops] on assms(4) by (auto simp: tidy_def)
  with use_spill_decided [OF u(1), of s2 dir'] u(2) on have "use_spill dir' sz al s2 = (s2, True)" by simp
  with assms(5) have "unmapped" "calls s3 = calls s2 @ [Munmap p (page_ceil (2 ^ k) sz)]"
    by (auto simp: dealloc_def Let_def called_def)
  with cs page_ceil_covers [OF assms(2,3)] show ?thesis by blast
qed

definition demo_sys :: spill_sys where
  "demo_sys = \<lparr> sys_mkstemp = Some (5, ''AbCdEf''), sys_unlink = True, sys_born = 1, sys_set_ok = True, sys_class_after = 1, sys_ftruncate = True,
     sys_mmap = Some 65536, sys_errno = 0 \<rparr>"

definition fresh_spill :: spill_state where
  "fresh_spill = \<lparr> sp_enabled = None, live_bytes = 0, live_maps = 0, peak_bytes = 0, inherited_class = -1,
     upgraded_files = 0, calls = [] \<rparr>"

lemma demo_alloc:
  "\<exists>s1. alloc False (Some ''/tmp'') (2 ^ 14) demo_sys SPILL_THRESHOLD 64 fresh_spill = (s1, Spilled 65536)"
proof -
  obtain t where "build_template (Some ''/tmp'') (replicate PATH_MAX (CHR 0x00)) = Inr (True, t)"
    using build_template_value [of "replicate PATH_MAX (CHR 0x00)" "''/tmp''"] by (auto simp: PATH_MAX_def)
  then show ?thesis
    by (simp add: alloc_def use_spill_def spill_enabled_def fresh_spill_def MAX_SUPPORTED_ALIGN_def spill_mmap_def demo_sys_def protect_def Let_def)
qed

theorem spilled_memory_goes_back_whole_witness:
  "\<exists>s1 s3. alloc False (Some ''/tmp'') (2 ^ 14) demo_sys SPILL_THRESHOLD 64 fresh_spill = (s1, Spilled 65536)
     \<and> dealloc None (2 ^ 14) 65536 SPILL_THRESHOLD 64 s1 = (s3, True)"
proof -
  obtain s1 where s1: "alloc False (Some ''/tmp'') (2 ^ 14) demo_sys SPILL_THRESHOLD 64 fresh_spill = (s1, Spilled 65536)"
    using demo_alloc by blast
  obtain s3 b where s3: "dealloc None (2 ^ 14) 65536 SPILL_THRESHOLD 64 s1 = (s3, b)" by fastforce
  have "b" using spilled_memory_goes_back_whole [OF s1 _ _ _ s3, of "[]"]
    by (simp add: spill_run_def SPILL_THRESHOLD_def)
  then have "dealloc None (2 ^ 14) 65536 SPILL_THRESHOLD 64 s1 = (s3, True)" using s3 by simp
  with s1 show ?thesis by blast
qed

text \<open>However the atomic updates of concurrent allocations and frees interleave, whenever none is
  under way the counters are exact: the live bytes are those owned by callers, the maps their
  number, and the peak is the largest value the bytes took.\<close>

theorem counters_settle:
  assumes "counting\<^sup>*\<^sup>* no_counts c" and "c_busy c = {#}"
  shows "c_live c = sum_mset (c_owned c) \<and> c_maps c = word_of_nat (size (c_owned c)) \<and> c_peak c = c_high c"
  using counting_reaches_ok [OF assms(1)] assms(2) by (simp add: counts_ok_def)

theorem counters_settle_witness:
  "c_live (counters_of 16384 {#16384#} {#} (count_alloc 16384 fresh_spill)) = 16384
   \<and> c_peak (counters_of 16384 {#16384#} {#} (count_alloc 16384 fresh_spill)) = 16384"
proof -
  have "counting\<^sup>*\<^sup>* no_counts (counters_of 16384 {#16384#} {#} (count_alloc 16384 fresh_spill))"
    using count_alloc_steps [of 0 "{#}" "{#}" fresh_spill 16384] by (simp add: counters_of_def no_counts_def fresh_spill_def)
  from counters_settle [OF this] show ?thesis by (simp add: counters_of_def)
qed

end
