(* ===== verification/Checklist.thy ===== *)
theory Checklist
  imports Setup
begin

text \<open>
  \<^verbatim>\<open>gui/src/send_flow.rs\<close> and \<^verbatim>\<open>gui/src/setup_flow.rs\<close>: the reducers that turn the events of a
  send and of a setup into the checklist shown, and what the checklist of a setup says about the
  plan on disk.
\<close>

section \<open>Rows\<close>

datatype status = Pending | Running | Done | Failed

record 'k step_view =
  row_kind :: 'k
  row_status :: status
  row_tx :: "string option"

definition pending_row :: "'k \<Rightarrow> 'k step_view" where
  "pending_row k = \<lparr> row_kind = k, row_status = Pending, row_tx = None \<rparr>"

text \<open>\<^verbatim>\<open>iter_mut().find(..)\<close> and an update of what it finds.\<close>

fun update_first :: "('a \<Rightarrow> bool) \<Rightarrow> ('a \<Rightarrow> 'a) \<Rightarrow> 'a list \<Rightarrow> 'a list" where
  "update_first P f [] = []"
| "update_first P f (x # xs) = (if P x then f x # xs else x # update_first P f xs)"

definition on_pending :: "'k \<Rightarrow> ('k step_view \<Rightarrow> 'k step_view) \<Rightarrow> 'k step_view list \<Rightarrow> 'k step_view list" where
  "on_pending k f rows = update_first (\<lambda>row. row_kind row = k \<and> row_status row \<noteq> Done) f rows"

definition started_row :: "'k step_view \<Rightarrow> 'k step_view" where
  "started_row row = row\<lparr>row_status := Running\<rparr>"

definition completed_row :: "string option \<Rightarrow> 'k step_view \<Rightarrow> 'k step_view" where
  "completed_row tx row = row\<lparr>row_status := Done, row_tx := (if tx \<noteq> None then tx else row_tx row)\<rparr>"

definition all_finished :: "'k step_view list \<Rightarrow> 'k step_view list" where
  "all_finished rows = map (\<lambda>row. if row_status row \<noteq> Failed then row\<lparr>row_status := Done\<rparr> else row) rows"

definition failed_rows :: "'k step_view list \<Rightarrow> 'k step_view list" where
  "failed_rows rows = update_first (\<lambda>row. row_status row = Running) (\<lambda>row. row\<lparr>row_status := Failed\<rparr>) rows"

section \<open>A send\<close>

record send_flow =
  sf_steps :: "step_kind step_view list"
  sf_error :: "string option"
  sf_published :: bool
  sf_checkpoint :: "string option"
  sf_waiting :: "(nat \<times> nat) option"

definition send_from_state :: "send_state \<Rightarrow> send_flow" where
  "send_from_state st =
     \<lparr> sf_steps = map (\<lambda>x. \<lparr> row_kind = step_kind x, row_status = (if step_done x then Done else Pending), row_tx = step_tx_hash x \<rparr>) (steps st),
       sf_error = None, sf_published = (steps st \<noteq> [] \<and> list_all step_done (steps st)), sf_checkpoint = None, sf_waiting = None \<rparr>"

definition virtual_plan :: send_flow where
  "virtual_plan =
     \<lparr> sf_steps = map pending_row [Prepare, Prove, Publish], sf_error = None, sf_published = False,
       sf_checkpoint = None, sf_waiting = None \<rparr>"

fun send_apply :: "send_flow \<Rightarrow> pipeline_event \<Rightarrow> send_flow" where
  "send_apply f (StepStarted i n k) = f\<lparr>sf_steps := on_pending k started_row (sf_steps f)\<rparr>"
| "send_apply f (TxSubmitted k tx) = f\<lparr>sf_waiting := None, sf_steps := on_pending k (\<lambda>row. row\<lparr>row_tx := Some tx\<rparr>) (sf_steps f)\<rparr>"
| "send_apply f (StepCompleted k tx nt) = f\<lparr>sf_steps := on_pending k (completed_row tx) (sf_steps f)\<rparr>"
| "send_apply f Completed = f\<lparr>sf_steps := all_finished (sf_steps f), sf_published := True\<rparr>"
| "send_apply f (Checkpointed i) = f\<lparr>sf_checkpoint := Some i\<rparr>"
| "send_apply f (Waiting b left) = f\<lparr>sf_waiting := Some (b, left)\<rparr>"

definition send_fail :: "string \<Rightarrow> send_flow \<Rightarrow> send_flow" where
  "send_fail msg f = f\<lparr>sf_steps := failed_rows (sf_steps f), sf_error := Some msg\<rparr>"

section \<open>A setup\<close>

record setup_flow =
  fl_steps :: "setup_step_kind step_view list"
  fl_error :: "string option"
  fl_completed :: bool
  fl_awaiting :: "(string \<times> nat \<times> nat) option"

definition setup_from_state :: "setup_state \<Rightarrow> setup_flow" where
  "setup_from_state st =
     \<lparr> fl_steps = map (\<lambda>x. \<lparr> row_kind = ss_kind x, row_status = (if ss_done x then Done else Pending), row_tx = ss_tx_hash x \<rparr>) (su_steps st),
       fl_error = None, fl_completed = list_all ss_done (su_steps st), fl_awaiting = None \<rparr>"

fun setup_apply :: "setup_flow \<Rightarrow> setup_event \<Rightarrow> setup_flow" where
  "setup_apply f (SetupStarted i n k) = f\<lparr>fl_awaiting := None, fl_steps := on_pending k started_row (fl_steps f)\<rparr>"
| "setup_apply f (SetupTxSubmitted k tx) = f\<lparr>fl_steps := on_pending k (\<lambda>row. row\<lparr>row_tx := Some tx\<rparr>) (fl_steps f)\<rparr>"
| "setup_apply f (SetupStepCompleted k tx nt) = f\<lparr>fl_steps := on_pending k (completed_row tx) (fl_steps f)\<rparr>"
| "setup_apply f (AwaitingDeposit addr strk bal) =
     f\<lparr>fl_steps := on_pending Fund (\<lambda>row. row\<lparr>row_status := Pending\<rparr>) (fl_steps f), fl_awaiting := Some (addr, strk, bal)\<rparr>"
| "setup_apply f SetupCompleted = f\<lparr>fl_completed := True, fl_steps := all_finished (fl_steps f)\<rparr>"

definition setup_fail :: "string \<Rightarrow> setup_flow \<Rightarrow> setup_flow" where
  "setup_fail msg f = f\<lparr>fl_steps := failed_rows (fl_steps f), fl_error := Some msg\<rparr>"

section \<open>Updates of rows\<close>

lemma update_first_length [simp]: "length (update_first P f xs) = length xs"
  by (induction xs) auto

lemma update_first_kinds: "(\<And>x. row_kind (f x) = row_kind x) \<Longrightarrow> map row_kind (update_first P f rows) = map row_kind rows"
  by (induction rows) auto

lemma update_first_none: "\<forall>x \<in> set xs. \<not> P x \<Longrightarrow> update_first P f xs = xs"
  by (induction xs) auto

lemma update_first_nth:
  "i < length xs \<Longrightarrow> P (xs ! i) \<Longrightarrow> (\<And>j. j < i \<Longrightarrow> \<not> P (xs ! j)) \<Longrightarrow> update_first P f xs = xs[i := f (xs ! i)]"
proof (induction xs arbitrary: i)
  case (Cons x xs)
  show ?case
  proof (cases i)
    case 0
    with Cons.prems show ?thesis by simp
  next
    case (Suc k)
    then have "\<not> P x" using Cons.prems(3) [of 0] by simp
    moreover have "update_first P f xs = xs[k := f (xs ! k)]"
    proof (rule Cons.IH)
      fix j assume "j < k"
      then show "\<not> P (xs ! j)" using Cons.prems(3) [of "Suc j"] Suc by simp
    qed (use Cons.prems Suc in auto)
    ultimately show ?thesis using Suc by simp
  qed
qed simp

text \<open>With one row per kind, an event of a kind reaches the row of that kind, if it is not done.\<close>

lemma on_pending_nth:
  assumes "distinct (map row_kind rows)" and "i < length rows" and "row_status (rows ! i) \<noteq> Done"
  shows "on_pending (row_kind (rows ! i)) f rows = rows[i := f (rows ! i)]"
  unfolding on_pending_def
proof (rule update_first_nth)
  fix j assume "j < i"
  then show "\<not> (row_kind (rows ! j) = row_kind (rows ! i) \<and> row_status (rows ! j) \<noteq> Done)"
    using assms(1,2) nth_eq_iff_index_eq [of "map row_kind rows" j i] by auto
qed (use assms in auto)

definition is_done :: "'k step_view \<Rightarrow> bool" where
  "is_done row = (row_status row = Done)"

lemma row_updates [simp]:
  "row_kind (started_row row) = row_kind row" "\<not> is_done (started_row row)"
  "row_kind (completed_row tx row) = row_kind row" "is_done (completed_row tx row)"
  by (simp_all add: started_row_def completed_row_def is_done_def)

lemma all_finished_done: "list_all is_done rows \<Longrightarrow> all_finished rows = rows"
  by (induction rows) (auto simp: all_finished_def is_done_def)

lemma on_pending_undone:
  "(\<And>row. \<not> is_done row \<Longrightarrow> \<not> is_done (f row)) \<Longrightarrow> map is_done (on_pending k f rows) = map is_done rows"
  unfolding on_pending_def by (induction rows) (auto simp: is_done_def)

lemma on_pending_kinds: "(\<And>row. row_kind (f row) = row_kind row) \<Longrightarrow> map row_kind (on_pending k f rows) = map row_kind rows"
  unfolding on_pending_def by (rule update_first_kinds)

lemma on_pending_complete:
  assumes "distinct (map row_kind rows)" and "i < length rows" and "\<not> is_done (rows ! i)"
  shows "map is_done (on_pending (row_kind (rows ! i)) (completed_row tx) rows) = (map is_done rows)[i := True]"
  using on_pending_nth [OF assms(1,2)] assms(3) by (simp add: is_done_def map_update completed_row_def)

text \<open>Only a completion or the end of the run makes a row done.\<close>

fun finishing :: "setup_event \<Rightarrow> bool" where
  "finishing (SetupStepCompleted k tx nt) = True"
| "finishing SetupCompleted = True"
| "finishing _ = False"

lemma setup_apply_keeps:
  "\<not> finishing e \<Longrightarrow> map is_done (fl_steps (setup_apply f e)) = map is_done (fl_steps f)
     \<and> map row_kind (fl_steps (setup_apply f e)) = map row_kind (fl_steps f)"
  by (cases e) (auto simp: is_done_def started_row_def intro!: on_pending_undone on_pending_kinds)

lemma setup_applies_keep:
  "list_all (\<lambda>e. \<not> finishing e) es \<Longrightarrow> map is_done (fl_steps (foldl setup_apply f es)) = map is_done (fl_steps f)
     \<and> map row_kind (fl_steps (foldl setup_apply f es)) = map row_kind (fl_steps f)"
proof (induction es arbitrary: f)
  case (Cons e es)
  then show ?case using setup_apply_keeps [of e f] by simp
qed simp

section \<open>The events of a turn\<close>

lemma on_home_shown: "on_home m s = (s', r) \<Longrightarrow> sr_shown s' = sr_shown s"
  by (auto simp: on_home_def split: prod.splits)

lemma execute_shown:
  assumes "execute_step C w k s = (s', r)"
  shows "\<exists>mid. sr_shown s' = sr_shown s @ mid \<and> list_all (\<lambda>e. \<not> finishing e) mid
    \<and> (r = Inr Park \<longrightarrow> (\<exists>before addr strk bal. mid = before @ [AwaitingDeposit addr strk bal]))"
proof (cases k)
  case CreateAccount
  with assms show ?thesis by (auto simp: execute_step_def step_create_def sbind_def split: sum.splits)
next
  case Fund
  with assms show ?thesis
    by (auto simp: execute_step_def step_fund_def sbind_def Let_def tell_def dest!: on_home_shown split: sum.splits prod.splits if_splits)
next
  case Deploy
  with assms show ?thesis by (auto simp: execute_step_def step_deploy_def sbind_def tell_def split: sum.splits if_splits)
next
  case Init
  with assms show ?thesis
    by (auto simp: execute_step_def step_init_def sbind_def dest!: on_home_shown split: sum.splits prod.splits if_splits)
next
  case Register
  with assms show ?thesis
    by (auto simp: execute_step_def step_register_def sbind_def dest!: on_home_shown split: sum.splits prod.splits register_outcome.splits)
qed

lemma setup_turn_shown:
  assumes run: "setup_turn C W i s = (s', r)" and i: "i < length (su_steps (sr_state s))"
  defines "k \<equiv> ss_kind (su_steps (sr_state s) ! i)"
  shows "\<exists>mid tx nt. list_all (\<lambda>e. \<not> finishing e) mid
    \<and> sr_shown s' = sr_shown s @ mid @ (if r = Inr True then [SetupStepCompleted k tx nt] else [])
    \<and> (r = Inr False \<longrightarrow> (\<exists>before addr strk bal. mid = before @ [AwaitingDeposit addr strk bal]))"
proof -
  let ?s0 = "s\<lparr>sr_shown := sr_shown s @ [SetupStarted i (length (su_steps (sr_state s))) k]\<rparr>"
  obtain s1 r1 where x: "execute_step C (W i) k ?s0 = (s1, r1)" by fastforce
  have same: "same_plan ?s0 s1" using steps_run [OF execute_same_plan x] .
  obtain mid where mid: "sr_shown s1 = sr_shown ?s0 @ mid" "list_all (\<lambda>e. \<not> finishing e) mid"
    "r1 = Inr Park \<longrightarrow> (\<exists>before addr strk bal. mid = before @ [AwaitingDeposit addr strk bal])"
    using execute_shown [OF x] by blast
  let ?mid = "SetupStarted i (length (su_steps (sr_state s))) k # mid"
  have ok: "list_all (\<lambda>e. \<not> finishing e) ?mid" using mid(2) by simp
  have turn: "setup_turn C W i s = (case r1 of Inl e \<Rightarrow> (s1, Inl e) | Inr Park \<Rightarrow> (s1, Inr False)
      | Inr (Setup.Done tx nt) \<Rightarrow>
          let p = (sr_state s1)\<lparr>su_steps := (su_steps (sr_state s1))[i := done_step (tx, nt) (su_steps (sr_state s1) ! i)]\<rparr>; s2 = s1\<lparr>sr_state := p\<rparr>
          in case sw_save (W i) of Inl e \<Rightarrow> (s2, Inl e)
             | Inr _ \<Rightarrow> (s2\<lparr>sr_file := Some p, sr_shown := sr_shown s1 @ [SetupStepCompleted k tx nt]\<rparr>, Inr True))"
    using x i same by (auto simp: setup_turn_def sbind_def tell_def save_setup_def setup_mark_done_def same_plan_def k_def Let_def split: sum.splits step_outcome.splits)
  consider (err) e where "r1 = Inl e" | (park) "r1 = Inr Park" | (stop) tx nt e where "r1 = Inr (Setup.Done tx nt)" "sw_save (W i) = Inl e"
    | (fin) tx nt where "r1 = Inr (Setup.Done tx nt)" "sw_save (W i) = Inr ()"
    by (metis sum.exhaust step_outcome.exhaust unit.exhaust)
  then show ?thesis
  proof cases
    case err
    then show ?thesis using run turn mid ok by (intro exI [of _ ?mid]) auto
  next
    case park
    then obtain before addr strk bal where "mid = before @ [AwaitingDeposit addr strk bal]" using mid(3) by blast
    then have "?mid = (SetupStarted i (length (su_steps (sr_state s))) k # before) @ [AwaitingDeposit addr strk bal]" by simp
    then show ?thesis using run turn mid ok park by (intro exI [of _ ?mid]) auto
  next
    case (stop tx nt e)
    then show ?thesis using run turn mid ok by (intro exI [of _ ?mid]) (auto simp: Let_def)
  next
    case (fin tx nt)
    then show ?thesis using run turn mid ok by (intro exI [of _ ?mid] exI [of _ tx] exI [of _ nt]) (auto simp: Let_def)
  qed
qed

section \<open>The checklist and the plan\<close>

text \<open>The checklist and the file agree on what is done; so does the state in memory between turns.\<close>

definition flags :: "setup_state \<Rightarrow> bool list" where
  "flags p = map ss_done (su_steps p)"

definition agrees :: "setup_flow \<Rightarrow> setup_state stored \<Rightarrow> bool" where
  "agrees v f = (\<exists>p. f = Some p \<and> map is_done (fl_steps v) = flags p \<and> map row_kind (fl_steps v) = map ss_kind (su_steps p))"

lemma setup_turn_agrees:
  assumes run: "setup_turn C W i s = (s', r)" and p: "setup_pending (sr_state s) = Some i"
    and d: "distinct (map ss_kind (su_steps (sr_state s)))"
    and sf: "agrees v (sr_file s)" and mem: "agrees v (Some (sr_state s))"
  shows "\<exists>es. sr_shown s' = sr_shown s @ es \<and> agrees (foldl setup_apply v es) (sr_file s')
    \<and> (r = Inr True \<longrightarrow> agrees (foldl setup_apply v es) (Some (sr_state s')))
    \<and> (r = Inr False \<longrightarrow> fl_awaiting (foldl setup_apply v es) \<noteq> None)
    \<and> map ss_kind (su_steps (sr_state s')) = map ss_kind (su_steps (sr_state s))"
proof -
  let ?xs = "su_steps (sr_state s)"
  have i: "i < length ?xs" "\<not> ss_done (?xs ! i)" using p by (auto simp: setup_pending_def position_Some)
  have rows: "map is_done (fl_steps v) = map ss_done ?xs" "map row_kind (fl_steps v) = map ss_kind ?xs"
    using mem by (auto simp: agrees_def flags_def)
  have len: "length (fl_steps v) = length ?xs" using rows(1) by (metis length_map)
  obtain mid tx nt where mid: "list_all (\<lambda>e. \<not> finishing e) mid"
    "sr_shown s' = sr_shown s @ mid @ (if r = Inr True then [SetupStepCompleted (ss_kind (?xs ! i)) tx nt] else [])"
    "r = Inr False \<longrightarrow> (\<exists>before addr strk bal. mid = before @ [AwaitingDeposit addr strk bal])"
    using setup_turn_shown [OF run i(1)] by blast
  let ?v1 = "foldl setup_apply v mid"
  have v1: "map is_done (fl_steps ?v1) = map is_done (fl_steps v)" "map row_kind (fl_steps ?v1) = map row_kind (fl_steps v)"
    using setup_applies_keep [OF mid(1)] by simp_all
  have eff: "su_steps (sr_state s') = ?xs \<and> sr_file s' = sr_file s \<and> r \<noteq> Inr True
       \<or> (\<exists>info. su_steps (sr_state s') = ?xs[i := done_step info (?xs ! i)]
            \<and> (r = Inr True \<and> sr_file s' = Some (sr_state s') \<or> (\<exists>e. r = Inl e) \<and> sr_file s' = sr_file s))"
    using setup_turn_effect [OF run p] by blast
  then have kinds: "map ss_kind (su_steps (sr_state s')) = map ss_kind ?xs"
    using i(1) by (auto simp: map_update list_update_same_conv)
  show ?thesis
  proof (cases "r = Inr True")
    case False
    have "fl_awaiting ?v1 \<noteq> None" if "r = Inr False" using mid(3) that by auto
    moreover have "sr_file s' = sr_file s" using eff False by auto
    ultimately show ?thesis using mid(2) False sf v1 kinds by (auto simp: agrees_def)
  next
    case True
    then obtain info where info: "su_steps (sr_state s') = ?xs[i := done_step info (?xs ! i)]" "sr_file s' = Some (sr_state s')"
      using eff by auto
    let ?v2 = "setup_apply ?v1 (SetupStepCompleted (ss_kind (?xs ! i)) tx nt)"
    have n1: "i < length (fl_steps ?v1)" using v1(1) len i(1) by (metis length_map)
    have k1: "row_kind (fl_steps ?v1 ! i) = ss_kind (?xs ! i)" using v1(2) rows(2) n1 i(1) by (metis nth_map)
    have u1: "\<not> is_done (fl_steps ?v1 ! i)" using v1(1) rows(1) n1 i by (metis nth_map)
    have "map is_done (fl_steps ?v2) = (map is_done (fl_steps ?v1))[i := True]"
      using on_pending_complete [OF _ n1 u1, of tx] k1 v1(2) rows(2) d by simp
    then have "map is_done (fl_steps ?v2) = flags (sr_state s')"
      using info(1) v1(1) rows(1) by (simp add: flags_def map_update)
    moreover have "map row_kind (fl_steps ?v2) = map ss_kind (su_steps (sr_state s'))"
      using v1(2) rows(2) kinds by (simp add: on_pending_kinds)
    ultimately show ?thesis using mid(2) True info(2) kinds by (auto simp: agrees_def)
  qed
qed

lemma run_setup_agrees:
  "run_setup C W s = (s', r) \<Longrightarrow> distinct (map ss_kind (su_steps (sr_state s))) \<Longrightarrow> agrees v (sr_file s) \<Longrightarrow> agrees v (Some (sr_state s)) \<Longrightarrow>
     \<exists>es. sr_shown s' = sr_shown s @ es \<and> agrees (foldl setup_apply v es) (sr_file s')
       \<and> (r = Inr () \<longrightarrow> fl_awaiting (foldl setup_apply v es) \<noteq> None \<or> fl_completed (foldl setup_apply v es) \<and> list_all is_done (fl_steps (foldl setup_apply v es)))"
proof (induction C W s arbitrary: v rule: run_setup.induct)
  case (1 C W s)
  show ?case
  proof (cases "setup_pending (sr_state s)")
    case None
    then have s': "s' = s\<lparr>sr_shown := sr_shown s @ [SetupCompleted]\<rparr>" using 1(2) by (auto simp: run_setup.simps [of C W s] tell_def)
    have "\<forall>x \<in> set (su_steps (sr_state s)). ss_done x" using None by (auto simp: setup_pending_def position_None)
    then have "list_all id (map is_done (fl_steps v))" using 1(5) by (auto simp: agrees_def flags_def list_all_iff)
    then have "list_all is_done (fl_steps v)" by (simp add: list.pred_map comp_def id_def)
    then have v: "all_finished (fl_steps v) = fl_steps v" "list_all is_done (fl_steps v)" by (simp_all add: all_finished_done)
    show ?thesis using 1(4) s' v by (intro exI [of _ "[SetupCompleted]"]) (simp add: agrees_def)
  next
    case (Some i)
    obtain s1 r1 where t: "setup_turn C W i s = (s1, r1)" by fastforce
    from setup_turn_agrees [OF t Some 1(3-5)] obtain es where es: "sr_shown s1 = sr_shown s @ es" "agrees (foldl setup_apply v es) (sr_file s1)"
      "r1 = Inr True \<longrightarrow> agrees (foldl setup_apply v es) (Some (sr_state s1))"
      "r1 = Inr False \<longrightarrow> fl_awaiting (foldl setup_apply v es) \<noteq> None"
      "map ss_kind (su_steps (sr_state s1)) = map ss_kind (su_steps (sr_state s))"
      by blast
    show ?thesis
    proof (cases "r1 = Inr True")
      case False
      then have "s' = s1 \<and> (r = Inr () \<longrightarrow> r1 = Inr False)"
        using 1(2) Some t by (auto simp: run_setup.simps [of C W s] split: sum.splits if_splits)
      then show ?thesis using es by (intro exI [of _ es]) auto
    next
      case True
      then have rest: "run_setup C W s1 = (s', r)" using 1(2) Some t by (auto simp: run_setup.simps [of C W s])
      have "\<exists>es'. sr_shown s' = sr_shown s1 @ es' \<and> agrees (foldl setup_apply (foldl setup_apply v es) es') (sr_file s')
         \<and> (r = Inr () \<longrightarrow> fl_awaiting (foldl setup_apply (foldl setup_apply v es) es') \<noteq> None
           \<or> fl_completed (foldl setup_apply (foldl setup_apply v es) es') \<and> list_all is_done (fl_steps (foldl setup_apply (foldl setup_apply v es) es')))"
        by (rule 1(1) [OF Some t [symmetric] True TrueI rest]) (use es 1(3) True in auto)
      then obtain es' where "sr_shown s' = sr_shown s1 @ es'" "agrees (foldl setup_apply (foldl setup_apply v es) es') (sr_file s')"
         "r = Inr () \<longrightarrow> fl_awaiting (foldl setup_apply (foldl setup_apply v es) es') \<noteq> None
           \<or> fl_completed (foldl setup_apply (foldl setup_apply v es) es') \<and> list_all is_done (fl_steps (foldl setup_apply (foldl setup_apply v es) es'))"
        by blast
      then show ?thesis using es(1) by (intro exI [of _ "es @ es'"]) simp
    qed
  qed
qed

lemma from_state_agrees: "agrees (setup_from_state p) (Some p)"
  by (auto simp: agrees_def setup_from_state_def flags_def is_done_def comp_def)

text \<open>C32: The checklist of a setup, made from the saved plan and the events the runner reports, never
  says more or less than the plan on disk: at the end of every run, failed, parked or finished, its
  ticks are the steps the file has as done. When the run returns without an error the checklist
  either shows what deposit is awaited or shows every step done.\<close>

theorem checklist_shows_what_is_saved:
  assumes "run_setup C W \<lparr> sr_state = p, sr_file = Some p, sr_home = h, sr_shown = [] \<rparr> = (s', r)"
    and "distinct (map ss_kind (su_steps p))" and "v = foldl setup_apply (setup_from_state p) (sr_shown s')"
  shows "(\<exists>saved. sr_file s' = Some saved \<and> map is_done (fl_steps v) = map ss_done (su_steps saved) \<and> map row_kind (fl_steps v) = map ss_kind (su_steps saved))
    \<and> (r = Inr () \<longrightarrow> fl_awaiting v \<noteq> None \<or> fl_completed v \<and> list_all is_done (fl_steps v))"
  using run_setup_agrees [OF assms(1), of "setup_from_state p"] assms(2,3) from_state_agrees [of p]
  by (auto simp: agrees_def flags_def)

theorem checklist_shows_what_is_saved_witness:
  "\<exists>s' saved. run_setup demo_crates (\<lambda>i. demo_world (Inr [''0x5''])) \<lparr> sr_state = new_plan_external_burner ''b'' ''b'' ''acct'' 7,
       sr_file = Some (new_plan_external_burner ''b'' ''b'' ''acct'' 7), sr_home = demo_home, sr_shown = [] \<rparr> = (s', Inr ())
     \<and> sr_file s' = Some saved
     \<and> map is_done (fl_steps (foldl setup_apply (setup_from_state (new_plan_external_burner ''b'' ''b'' ''acct'' 7)) (sr_shown s'))) = [True, False, False, False, False]
     \<and> map ss_done (su_steps saved) = [True, False, False, False, False]"
proof -
  let ?p = "new_plan_external_burner ''b'' ''b'' ''acct'' 7"
  obtain s' r where run: "run_setup demo_crates (\<lambda>i. demo_world (Inr [''0x5''])) \<lparr> sr_state = ?p, sr_file = Some ?p, sr_home = demo_home, sr_shown = [] \<rparr> = (s', r)"
    by fastforce
  have "r = Inr () \<and> map_option (\<lambda>p. map ss_done (su_steps p)) (sr_file s') = Some [True, False, False, False, False]"
    using run
    by (auto simp: run_setup.simps setup_pending_def new_plan_external_burner_def new_plan_def setup_turn_def execute_step_def step_create_def
        step_fund_def sbind_def tell_def demo_world_def demo_balance fund_needed_def FRI_PER_STRK_def setup_mark_done_def save_setup_def done_step_def
        ensure_def Let_def)
  moreover have "distinct (map ss_kind (su_steps ?p))" by (simp add: new_plan_external_burner_def new_plan_def)
  ultimately show ?thesis using checklist_shows_what_is_saved [OF run _ refl] run by auto
qed

end
