(* ===== verification/Session.thy ===== *)
theory Session
  imports Checklist
begin

text \<open>
  \<^verbatim>\<open>gui/src/session.rs\<close> and \<^verbatim>\<open>gui/src/compose_view.rs\<close>: what the controls of a profile's session
  do and when they are enabled, and what the messages of its workers change. Drawing is left out;
  a control that is not drawn or not enabled does nothing. \<open>locked\<close> is the shell's flag that a
  setup is spending. The answers a worker brings back are arguments of the event.
\<close>

section \<open>State\<close>

datatype tab = Status | Compose | Inbox

datatype status_job = StatusJob | InitJob string | RegisterJob string | BuyJob nat
datatype send_job = NewSend string string | ResumeSend send_state
datatype job = SpawnStatus status_job | SpawnResolve string | SpawnSend send_job

type_synonym resolution = "string + felt \<times> nat"

text \<open>\<open>se_status\<close> is the live report: \<open>None\<close> until one is loaded; of its fields only the ticket counts are
  read again, which are \<open>None\<close> when the wallet could not be.\<close>

record session =
  se_config :: "config option"
  se_keys :: "profile_keys option"
  se_tab :: tab
  se_account_input :: string
  se_handle_input :: string
  se_status :: "ticket_counts option option"
  se_last_error :: "string option"
  se_fetched_once :: bool
  se_busy :: bool
  se_rx :: "status_job option"
  se_compose_handle :: string
  se_compose_text :: string
  se_resolving :: bool
  se_resolved :: "resolution option"
  se_resolve_rx :: "string option"
  se_show_confirm :: bool
  se_send_flow :: "send_flow option"
  se_send_rx :: bool
  se_send_state_id :: "string option"
  se_pending :: "(string \<times> step_kind) list"

definition new_session :: "config option \<Rightarrow> profile_keys option \<Rightarrow> (string \<times> step_kind) list \<Rightarrow> session" where
  "new_session cfg keys pending =
     \<lparr> se_config = cfg, se_keys = keys, se_tab = Status, se_account_input = ''funded-deployer'', se_handle_input = [],
       se_status = None, se_last_error = None, se_fetched_once = False, se_busy = False, se_rx = None,
       se_compose_handle = [], se_compose_text = [], se_resolving = False, se_resolved = None, se_resolve_rx = None,
       se_show_confirm = False, se_send_flow = None, se_send_rx = False, se_send_state_id = None, se_pending = pending \<rparr>"

definition work_in_flight :: "session \<Rightarrow> bool" where
  "work_in_flight s = se_send_rx s"

definition on_current_store :: "crates \<Rightarrow> session \<Rightarrow> bool" where
  "on_current_store C s = (case se_config s of Some cfg \<Rightarrow> is_current_store C (store cfg) | None \<Rightarrow> False)"

type_synonym effect = "session \<times> job list"

definition spawn_status :: "status_job \<Rightarrow> session \<Rightarrow> effect" where
  "spawn_status j s = (s\<lparr>se_busy := True, se_rx := Some j\<rparr>, [SpawnStatus j])"

section \<open>The Status tab\<close>

datatype panel = InitPanel | RegisterPanel | StatusPanel

definition status_tab :: "session \<Rightarrow> panel" where
  "status_tab s =
     (case se_keys s of
        None \<Rightarrow> InitPanel
      | Some k \<Rightarrow> if keys_handle k = None then RegisterPanel else StatusPanel)"

definition click_init :: "session \<Rightarrow> effect" where
  "click_init s =
     (if se_tab s = Status \<and> status_tab s = InitPanel \<and> \<not> se_busy s
      then spawn_status (InitJob (se_account_input s)) (s\<lparr>se_last_error := None\<rparr>) else (s, []))"

definition click_register :: "bool \<Rightarrow> session \<Rightarrow> effect" where
  "click_register locked s =
     (if se_tab s = Status \<and> status_tab s = RegisterPanel \<and> \<not> se_busy s \<and> \<not> locked then
        if trim_ws (se_handle_input s) = [] then (s\<lparr>se_last_error := Some ''handle cannot be empty''\<rparr>, [])
        else spawn_status (RegisterJob (trim_ws (se_handle_input s))) (s\<lparr>se_last_error := None\<rparr>)
      else (s, []))"

text \<open>The first live fetch fires by itself when the panel is drawn.\<close>

definition draw_status_panel :: "session \<Rightarrow> effect" where
  "draw_status_panel s =
     (if se_tab s = Status \<and> status_tab s = StatusPanel \<and> \<not> se_fetched_once s \<and> \<not> se_busy s \<and> se_rx s = None
      then spawn_status StatusJob (s\<lparr>se_fetched_once := True\<rparr>) else (s, []))"

definition click_refresh :: "session \<Rightarrow> effect" where
  "click_refresh s =
     (if se_tab s = Status \<and> status_tab s = StatusPanel \<and> \<not> se_busy s
      then spawn_status StatusJob (s\<lparr>se_last_error := None\<rparr>) else (s, []))"

text \<open>The panel stops at \<^verbatim>\<open>loading live status\<close> until a report is there: the button comes after it.\<close>

definition click_buy :: "crates \<Rightarrow> bool \<Rightarrow> session \<Rightarrow> effect" where
  "click_buy C locked s =
     (if se_tab s = Status \<and> status_tab s = StatusPanel \<and> se_status s \<noteq> None \<and> on_current_store C s \<and> \<not> se_busy s \<and> \<not> work_in_flight s \<and> \<not> locked
      then spawn_status (BuyJob 1) (s\<lparr>se_last_error := None\<rparr>) else (s, []))"

text \<open>\<open>moved\<close>: the old handle, or the error; then what the files hold now.\<close>

definition click_migrate :: "crates \<Rightarrow> string + string option \<Rightarrow> config option \<times> profile_keys option \<Rightarrow> session \<Rightarrow> effect" where
  "click_migrate C moved files s =
     (if se_tab s = Status \<and> status_tab s = StatusPanel \<and> \<not> on_current_store C s \<and> \<not> se_busy s \<and> \<not> work_in_flight s then
        (case moved of
           Inl e \<Rightarrow> (s\<lparr>se_last_error := Some e\<rparr>, [])
         | Inr h \<Rightarrow> (s\<lparr>se_handle_input := (case h of Some h \<Rightarrow> h | None \<Rightarrow> se_handle_input s), se_status := None, se_fetched_once := False,
             se_config := fst files, se_keys := snd files, se_last_error := None\<rparr>, []))
      else (s, []))"

datatype status_msg = GotStatus "ticket_counts option" | GotFiles | GotTickets | StatusFailed string

definition poll_worker :: "status_msg \<Rightarrow> config option \<times> profile_keys option \<Rightarrow> session \<Rightarrow> session" where
  "poll_worker msg files s =
     (case se_rx s of
        None \<Rightarrow> s
      | Some j \<Rightarrow>
          let s = s\<lparr>se_busy := False, se_rx := None\<rparr>
          in case msg of
               GotStatus c \<Rightarrow> s\<lparr>se_status := Some c, se_last_error := None\<rparr>
             | GotFiles \<Rightarrow> s\<lparr>se_config := fst files, se_keys := snd files, se_last_error := None\<rparr>
             | GotTickets \<Rightarrow> s\<lparr>se_last_error := None, se_fetched_once := False\<rparr>
             | StatusFailed e \<Rightarrow> s\<lparr>se_last_error := Some e\<rparr>)"

section \<open>The Compose tab\<close>

definition has_leaf :: "session \<Rightarrow> bool" where
  "has_leaf s = (case se_keys s of Some k \<Rightarrow> keys_leaf_index k \<noteq> None | None \<Rightarrow> False)"

text \<open>The form is drawn on the tab when no send is shown and the profile is registered.\<close>

definition form_shown :: "session \<Rightarrow> bool" where
  "form_shown s = (se_tab s = Compose \<and> se_send_flow s = None \<and> has_leaf s)"

definition edit_handle :: "string \<Rightarrow> session \<Rightarrow> session" where
  "edit_handle h s =
     (if form_shown s then s\<lparr>se_compose_handle := h, se_resolved := None, se_resolve_rx := None, se_resolving := False\<rparr> else s)"

definition edit_text :: "string \<Rightarrow> session \<Rightarrow> session" where
  "edit_text t s = (if form_shown s then s\<lparr>se_compose_text := t\<rparr> else s)"

definition click_resolve :: "session \<Rightarrow> effect" where
  "click_resolve s =
     (let h = trim_ws (se_compose_handle s)
      in if form_shown s \<and> \<not> se_resolving s \<and> h \<noteq> []
         then (s\<lparr>se_resolving := True, se_resolved := None, se_last_error := None, se_resolve_rx := Some h\<rparr>, [SpawnResolve h])
         else (s, []))"

text \<open>\<open>directory\<close> is what the chain answers about a handle.\<close>

definition poll_compose_worker :: "(string \<Rightarrow> resolution) \<Rightarrow> session \<Rightarrow> session" where
  "poll_compose_worker directory s =
     (case se_resolve_rx s of
        None \<Rightarrow> s
      | Some h \<Rightarrow> s\<lparr>se_resolving := False, se_resolve_rx := None, se_resolved := Some (directory h)\<rparr>)"

definition known_tickets :: "session \<Rightarrow> ticket_counts option" where
  "known_tickets s = Option.bind (se_status s) (\<lambda>r. r)"

definition can_send :: "crates \<Rightarrow> bool \<Rightarrow> session \<Rightarrow> bool" where
  "can_send C locked s =
     ((case se_resolved s of Some (Inr _) \<Rightarrow> True | _ \<Rightarrow> False) \<and> trim_ws (se_compose_text s) \<noteq> [] \<and> \<not> work_in_flight s
      \<and> on_current_store C s \<and> (case known_tickets s of Some c \<Rightarrow> n_unspent c \<noteq> 0 | None \<Rightarrow> True) \<and> \<not> locked)"

definition click_send :: "crates \<Rightarrow> bool \<Rightarrow> session \<Rightarrow> session" where
  "click_send C locked s = (if form_shown s \<and> can_send C locked s then s\<lparr>se_show_confirm := True\<rparr> else s)"

definition start_send :: "session \<Rightarrow> effect" where
  "start_send s =
     (if \<not> has_leaf s then (s\<lparr>se_last_error := Some ''not registered''\<rparr>, [])
      else if work_in_flight s then (s\<lparr>se_last_error := Some ''a send is already running''\<rparr>, [])
      else (s\<lparr>se_last_error := None, se_send_state_id := None, se_send_flow := Some virtual_plan, se_send_rx := True\<rparr>,
            [SpawnSend (NewSend (trim_ws (se_compose_handle s)) (se_compose_text s))]))"

text \<open>The dialog is a window of its own over the Compose tab.\<close>

definition click_confirm :: "bool \<Rightarrow> session \<Rightarrow> effect" where
  "click_confirm locked s =
     (if se_tab s = Compose \<and> se_show_confirm s \<and> \<not> locked then start_send (s\<lparr>se_show_confirm := False\<rparr>) else (s, []))"

definition close_confirm :: "session \<Rightarrow> session" where
  "close_confirm s = (if se_tab s = Compose then s\<lparr>se_show_confirm := False\<rparr> else s)"

text \<open>\<open>loaded\<close> is what \<^verbatim>\<open>SendState::load\<close> returns.\<close>

definition resume_send :: "string + send_state \<Rightarrow> session \<Rightarrow> effect" where
  "resume_send loaded s =
     (if work_in_flight s then (s\<lparr>se_last_error := Some ''a send is already running''\<rparr>, [])
      else case se_config s of
             None \<Rightarrow> (s\<lparr>se_last_error := Some ''no config loaded''\<rparr>, [])
           | Some cfg \<Rightarrow>
               (case loaded of
                  Inr st \<Rightarrow> (s\<lparr>se_send_state_id := Some (send_state_id st), se_send_flow := Some (send_from_state st), se_send_rx := True\<rparr>,
                             [SpawnSend (ResumeSend st)])
                | Inl e \<Rightarrow> (s\<lparr>se_last_error := Some e\<rparr>, [])))"

definition drop_pending :: "string \<Rightarrow> session \<Rightarrow> session" where
  "drop_pending i s = s\<lparr>se_pending := filter (\<lambda>(pid, _). pid \<noteq> i) (se_pending s)\<rparr>"

definition banner_shown :: "bool \<Rightarrow> session \<Rightarrow> bool" where
  "banner_shown locked s = (\<not> work_in_flight s \<and> \<not> locked)"

definition click_banner_resume :: "bool \<Rightarrow> string \<Rightarrow> string + send_state \<Rightarrow> session \<Rightarrow> effect" where
  "click_banner_resume locked i loaded s =
     (if banner_shown locked s \<and> i \<in> fst ` set (se_pending s) then resume_send loaded ((drop_pending i s)\<lparr>se_tab := Compose\<rparr>) else (s, []))"

definition click_dismiss :: "bool \<Rightarrow> string \<Rightarrow> session \<Rightarrow> session" where
  "click_dismiss locked i s = (if banner_shown locked s then drop_pending i s else s)"

definition has_failed :: "send_flow \<Rightarrow> bool" where
  "has_failed f = list_ex (\<lambda>row. row_status row = Failed) (sf_steps f)"

text \<open>\<open>saved\<close>: the checkpoint of the send shown exists.\<close>

definition click_failed_resume :: "bool \<Rightarrow> bool \<Rightarrow> string + send_state \<Rightarrow> session \<Rightarrow> effect" where
  "click_failed_resume locked saved loaded s =
     (case (se_send_flow s, se_send_state_id s) of
        (Some f, Some i) \<Rightarrow> if se_tab s = Compose \<and> has_failed f \<and> \<not> locked \<and> saved then resume_send loaded s else (s, [])
      | _ \<Rightarrow> (s, []))"

definition click_back :: "bool \<Rightarrow> session \<Rightarrow> session" where
  "click_back saved s =
     (case se_send_flow s of
        Some f \<Rightarrow> if se_tab s = Compose \<and> has_failed f \<and> \<not> (se_send_state_id s \<noteq> None \<and> saved)
                  then s\<lparr>se_send_flow := None, se_send_state_id := None\<rparr> else s
      | None \<Rightarrow> s)"

definition reset_compose :: "session \<Rightarrow> session" where
  "reset_compose s =
     s\<lparr>se_compose_handle := [], se_compose_text := [], se_resolving := False, se_resolved := None, se_resolve_rx := None,
       se_show_confirm := False, se_send_flow := None, se_send_rx := False, se_send_state_id := None\<rparr>"

definition click_another :: "session \<Rightarrow> session" where
  "click_another s =
     (case se_send_flow s of Some f \<Rightarrow> if se_tab s = Compose \<and> sf_published f then reset_compose s else s | None \<Rightarrow> s)"

datatype send_msg = Progress pipeline_event | Finished "string option" "(string \<times> step_kind) list"

definition poll_send_worker :: "send_msg \<Rightarrow> session \<Rightarrow> session" where
  "poll_send_worker msg s =
     (if \<not> se_send_rx s then s
      else case msg of
        Progress e \<Rightarrow>
          s\<lparr>se_send_state_id := (case e of Checkpointed i \<Rightarrow> Some i | _ \<Rightarrow> se_send_state_id s),
            se_send_flow := map_option (\<lambda>f. send_apply f e) (se_send_flow s)\<rparr>
      | Finished err pending \<Rightarrow>
          s\<lparr>se_send_flow := (case err of None \<Rightarrow> se_send_flow s | Some e \<Rightarrow> map_option (send_fail e) (se_send_flow s)),
            se_send_rx := False, se_pending := pending\<rparr>)"

section \<open>Runs\<close>

datatype ui =
    SelectTab tab
  | TypeAccount string | TypeHandleInput string
  | ClickInit | ClickRegister | DrawStatus | ClickRefresh | ClickBuy
  | ClickMigrate "string + string option" "config option \<times> profile_keys option"
  | StatusMsg status_msg "config option \<times> profile_keys option"
  | EditHandle string | EditText string | ClickResolve | ResolveMsg
  | ClickSend | ClickConfirm | CloseConfirm
  | BannerResume string "string + send_state" | Dismiss string
  | FailedResume bool "string + send_state" | BackToMessage bool | ComposeAnother
  | SendMsg send_msg

fun session_step :: "crates \<Rightarrow> (string \<Rightarrow> resolution) \<Rightarrow> bool \<Rightarrow> ui \<Rightarrow> session \<Rightarrow> effect" where
  "session_step C dir locked (SelectTab t) s = (s\<lparr>se_tab := t\<rparr>, [])"
| "session_step C dir locked (TypeAccount a) s = (s\<lparr>se_account_input := a\<rparr>, [])"
| "session_step C dir locked (TypeHandleInput h) s = (s\<lparr>se_handle_input := h\<rparr>, [])"
| "session_step C dir locked ClickInit s = click_init s"
| "session_step C dir locked ClickRegister s = click_register locked s"
| "session_step C dir locked DrawStatus s = draw_status_panel s"
| "session_step C dir locked ClickRefresh s = click_refresh s"
| "session_step C dir locked ClickBuy s = click_buy C locked s"
| "session_step C dir locked (ClickMigrate moved files) s = click_migrate C moved files s"
| "session_step C dir locked (StatusMsg m files) s = (poll_worker m files s, [])"
| "session_step C dir locked (EditHandle h) s = (edit_handle h s, [])"
| "session_step C dir locked (EditText t) s = (edit_text t s, [])"
| "session_step C dir locked ClickResolve s = click_resolve s"
| "session_step C dir locked ResolveMsg s = (poll_compose_worker dir s, [])"
| "session_step C dir locked ClickSend s = (click_send C locked s, [])"
| "session_step C dir locked ClickConfirm s = click_confirm locked s"
| "session_step C dir locked CloseConfirm s = (close_confirm s, [])"
| "session_step C dir locked (BannerResume i loaded) s = click_banner_resume locked i loaded s"
| "session_step C dir locked (Dismiss i) s = (click_dismiss locked i s, [])"
| "session_step C dir locked (FailedResume saved loaded) s = click_failed_resume locked saved loaded s"
| "session_step C dir locked (BackToMessage saved) s = (click_back saved s, [])"
| "session_step C dir locked ComposeAnother s = (click_another s, [])"
| "session_step C dir locked (SendMsg m) s = (poll_send_worker m s, [])"

text \<open>A run is the controls used and the messages delivered, each with the shell's flag at the time;
  its trace pairs them with the jobs they spawned.\<close>

fun session_run :: "crates \<Rightarrow> (string \<Rightarrow> resolution) \<Rightarrow> (bool \<times> ui) list \<Rightarrow> session \<Rightarrow> session \<times> ((bool \<times> ui) \<times> job list) list" where
  "session_run C dir [] s = (s, [])"
| "session_run C dir ((locked, e) # es) s =
     (let (s1, js) = session_step C dir locked e s; (s2, tr) = session_run C dir es s1 in (s2, ((locked, e), js) # tr))"

section \<open>One send at a time\<close>

definition spawns_send :: "job list \<Rightarrow> bool" where
  "spawns_send js = list_ex (\<lambda>j. case j of SpawnSend _ \<Rightarrow> True | _ \<Rightarrow> False) js"

text \<open>A send's worker has done its work when it reports the end, or has published.\<close>

fun ends_send :: "ui \<Rightarrow> bool" where
  "ends_send (SendMsg (Finished e p)) = True"
| "ends_send (SendMsg (Progress Completed)) = True"
| "ends_send _ = False"

text \<open>Whether a run starts a send while one is at work (\<open>w\<close>).\<close>

fun overlap :: "crates \<Rightarrow> (string \<Rightarrow> resolution) \<Rightarrow> (bool \<times> ui) list \<Rightarrow> session \<Rightarrow> bool \<Rightarrow> bool" where
  "overlap C dir [] s w = False"
| "overlap C dir ((locked, e) # es) s w =
     (let (s1, js) = session_step C dir locked e s
      in spawns_send js \<and> w \<or> overlap C dir es s1 (spawns_send js \<or> w \<and> \<not> (se_send_rx s \<and> ends_send e)))"

text \<open>The checkpoints resumed have a step to do.\<close>

fun resumes_unfinished :: "bool \<times> ui \<Rightarrow> bool" where
  "resumes_unfinished (l, BannerResume i (Inr st)) = list_ex (\<lambda>x. \<not> step_done x) (steps st)"
| "resumes_unfinished (l, FailedResume sv (Inr st)) = list_ex (\<lambda>x. \<not> step_done x) (steps st)"
| "resumes_unfinished _ = True"

definition running_flow :: "send_flow option \<Rightarrow> bool" where
  "running_flow fo = (case fo of None \<Rightarrow> False | Some f \<Rightarrow> \<not> sf_published f \<and> \<not> has_failed f)"

definition send_ok :: "session \<Rightarrow> bool \<Rightarrow> bool" where
  "send_ok s w = (w \<longrightarrow> se_send_rx s \<and> running_flow (se_send_flow s))"

lemma failed_update: "(\<And>row. row_status row \<noteq> Failed \<Longrightarrow> row_status (f row) \<noteq> Failed) \<Longrightarrow>
    list_ex (\<lambda>row. row_status row = Failed) (update_first P f rows) \<Longrightarrow> list_ex (\<lambda>row. row_status row = Failed) rows"
  by (induction rows) (auto split: if_splits)

lemma send_apply_runs:
  "e \<noteq> Completed \<Longrightarrow> running_flow (Some f) \<Longrightarrow> running_flow (Some (send_apply f e))"
  by (cases e) (auto simp: running_flow_def has_failed_def on_pending_def started_row_def completed_row_def dest!: failed_update [rotated])

lemma virtual_plan_runs: "running_flow (Some virtual_plan)"
  by (simp add: running_flow_def virtual_plan_def has_failed_def pending_row_def)

lemma from_state_runs: "list_ex (\<lambda>x. \<not> step_done x) (steps st) \<Longrightarrow> running_flow (Some (send_from_state st))"
  by (auto simp: running_flow_def send_from_state_def has_failed_def list_ex_iff list_all_iff)

lemma spawns_send_simps [simp]:
  "\<not> spawns_send []" "\<not> spawns_send [SpawnStatus j]" "\<not> spawns_send [SpawnResolve h]" "spawns_send [SpawnSend k]"
  by (simp_all add: spawns_send_def)

lemma start_send_ok:
  "start_send s = (s1, js) \<Longrightarrow> send_ok s w \<Longrightarrow> \<not> (spawns_send js \<and> w) \<and> send_ok s1 (spawns_send js \<or> w)"
  by (auto simp: start_send_def send_ok_def work_in_flight_def virtual_plan_runs split: if_splits)

lemma resume_send_ok:
  "resume_send loaded s = (s1, js) \<Longrightarrow> send_ok s w \<Longrightarrow> (\<And>st. loaded = Inr st \<Longrightarrow> list_ex (\<lambda>x. \<not> step_done x) (steps st)) \<Longrightarrow>
     \<not> (spawns_send js \<and> w) \<and> send_ok s1 (spawns_send js \<or> w)"
  by (auto simp: resume_send_def send_ok_def work_in_flight_def from_state_runs split: if_splits option.splits sum.splits)

lemma same_send_ok:
  "send_ok s w \<Longrightarrow> se_send_rx s' = se_send_rx s \<Longrightarrow> se_send_flow s' = se_send_flow s \<Longrightarrow> send_ok s' w"
  by (simp add: send_ok_def)

lemmas session_ops = click_init_def click_register_def draw_status_panel_def click_refresh_def click_buy_def click_migrate_def
  poll_worker_def spawn_status_def edit_handle_def edit_text_def click_resolve_def poll_compose_worker_def click_send_def
  close_confirm_def click_dismiss_def drop_pending_def

lemma session_step_send_ok:
  assumes "session_step C dir locked e s = (s1, js)" and "send_ok s w" and "resumes_unfinished (locked, e)"
  shows "\<not> (spawns_send js \<and> w) \<and> send_ok s1 (spawns_send js \<or> w \<and> \<not> (se_send_rx s \<and> ends_send e))"
proof (cases e)
  case ClickConfirm
  have "send_ok (s\<lparr>se_show_confirm := False\<rparr>) w" using assms(2) by (simp add: send_ok_def)
  with ClickConfirm assms start_send_ok [of "s\<lparr>se_show_confirm := False\<rparr>" s1 js w] show ?thesis
    by (auto simp: click_confirm_def split: if_splits)
next
  case (BannerResume i loaded)
  have "list_ex (\<lambda>x. \<not> step_done x) (steps st)" if "loaded = Inr st" for st using assms(3) BannerResume that by simp
  moreover have "send_ok ((drop_pending i s)\<lparr>se_tab := Compose\<rparr>) w" using assms(2) by (simp add: send_ok_def drop_pending_def)
  ultimately show ?thesis using assms BannerResume resume_send_ok [of loaded "(drop_pending i s)\<lparr>se_tab := Compose\<rparr>" s1 js w]
    by (auto simp: click_banner_resume_def split: if_splits)
next
  case (FailedResume saved loaded)
  have "list_ex (\<lambda>x. \<not> step_done x) (steps st)" if "loaded = Inr st" for st using assms(3) FailedResume that by simp
  with assms FailedResume resume_send_ok [of loaded s s1 js w] show ?thesis
    by (auto simp: click_failed_resume_def split: if_splits option.splits)
next
  case (SendMsg m)
  show ?thesis
  proof (cases m)
    case (Progress ev)
    show ?thesis
    proof (cases "ev = Completed")
      case True
      with assms SendMsg Progress show ?thesis by (auto simp: poll_send_worker_def send_ok_def)
    next
      case False
      then have "\<not> ends_send e" using SendMsg Progress by (cases ev) auto
      with False assms SendMsg Progress show ?thesis
        by (auto simp: poll_send_worker_def send_ok_def running_flow_def split: option.splits)
          (use send_apply_runs [OF False] in \<open>auto simp: running_flow_def\<close>)
    qed
  next
    case (Finished err pending)
    with assms SendMsg show ?thesis by (auto simp: poll_send_worker_def send_ok_def)
  qed
next
  case (BackToMessage saved)
  with assms show ?thesis by (auto simp: click_back_def send_ok_def running_flow_def split: option.splits if_splits)
next
  case ComposeAnother
  with assms show ?thesis by (auto simp: click_another_def reset_compose_def send_ok_def running_flow_def split: option.splits if_splits)
qed (use assms in \<open>auto simp: session_ops Let_def split: if_splits sum.splits option.splits status_msg.splits intro: same_send_ok\<close>)

lemma no_overlap: "list_all resumes_unfinished es \<Longrightarrow> send_ok s w \<Longrightarrow> \<not> overlap C dir es s w"
proof (induction es arbitrary: s w)
  case (Cons le es)
  obtain locked e where le: "le = (locked, e)" by (cases le)
  obtain s1 js where st: "session_step C dir locked e s = (s1, js)" by fastforce
  from session_step_send_ok [OF st Cons.prems(2)] Cons.prems(1) le Cons.IH st show ?case by auto
qed simp

section \<open>The resolution shown\<close>

definition resolution_ok :: "(string \<Rightarrow> resolution) \<Rightarrow> session \<Rightarrow> bool" where
  "resolution_ok dir s =
     ((case se_resolved s of None \<Rightarrow> True | Some r \<Rightarrow> r = dir (trim_ws (se_compose_handle s)))
      \<and> (case se_resolve_rx s of None \<Rightarrow> True | Some h \<Rightarrow> h = trim_ws (se_compose_handle s)))"

lemma same_resolution:
  "resolution_ok dir s \<Longrightarrow> se_resolved s' = se_resolved s \<Longrightarrow> se_resolve_rx s' = se_resolve_rx s \<Longrightarrow>
     se_compose_handle s' = se_compose_handle s \<Longrightarrow> resolution_ok dir s'"
  by (auto simp: resolution_ok_def split: option.splits)

lemma send_ops_keep:
  "start_send s = (s1, js) \<Longrightarrow> se_resolved s1 = se_resolved s \<and> se_resolve_rx s1 = se_resolve_rx s \<and> se_compose_handle s1 = se_compose_handle s"
  "resume_send loaded s = (s1, js) \<Longrightarrow> se_resolved s1 = se_resolved s \<and> se_resolve_rx s1 = se_resolve_rx s \<and> se_compose_handle s1 = se_compose_handle s"
  by (auto simp: start_send_def resume_send_def split: if_splits option.splits sum.splits)

lemma session_step_resolution:
  assumes "session_step C dir locked e s = (s1, js)" and "resolution_ok dir s"
  shows "resolution_ok dir s1"
proof (cases e)
  case ClickConfirm
  with assms show ?thesis
    by (auto simp: click_confirm_def dest!: send_ops_keep split: if_splits intro: same_resolution)
next
  case (BannerResume i loaded)
  with assms show ?thesis
    by (auto simp: click_banner_resume_def drop_pending_def dest!: send_ops_keep split: if_splits intro: same_resolution)
next
  case (FailedResume saved loaded)
  with assms show ?thesis
    by (auto simp: click_failed_resume_def dest!: send_ops_keep split: if_splits option.splits intro: same_resolution)
next
  case (SendMsg m)
  with assms show ?thesis
    by (auto simp: poll_send_worker_def split: if_splits send_msg.splits intro: same_resolution)
next
  case (BackToMessage saved)
  with assms show ?thesis by (auto simp: click_back_def split: option.splits if_splits intro: same_resolution)
next
  case ComposeAnother
  with assms show ?thesis by (auto simp: click_another_def reset_compose_def resolution_ok_def split: option.splits if_splits)
next
  case (EditHandle h)
  with assms show ?thesis by (auto simp: edit_handle_def resolution_ok_def)
next
  case ClickResolve
  with assms show ?thesis by (auto simp: click_resolve_def resolution_ok_def Let_def split: if_splits)
next
  case ResolveMsg
  with assms show ?thesis by (auto simp: poll_compose_worker_def resolution_ok_def split: option.splits)
qed (use assms in \<open>auto simp: session_ops Let_def split: if_splits sum.splits option.splits status_msg.splits intro: same_resolution\<close>)

lemma session_run_resolution:
  "session_run C dir es s = (s', tr) \<Longrightarrow> resolution_ok dir s \<Longrightarrow> resolution_ok dir s'"
proof (induction es arbitrary: s tr)
  case (Cons le es)
  obtain locked e where le: "le = (locked, e)" by (cases le)
  obtain s1 js where st: "session_step C dir locked e s = (s1, js)" by fastforce
  obtain tr' where "session_run C dir es s1 = (s', tr')" using Cons.prems(1) le st by (auto split: prod.splits)
  with Cons.IH session_step_resolution [OF st Cons.prems(2)] show ?case by blast
qed simp

section \<open>A purchase and a send\<close>

text \<open>What settling does to a ticket: a pending one may become unspent, nothing else.\<close>

definition settling :: "ticket \<Rightarrow> ticket \<Rightarrow> bool" where
  "settling t t' = (secret t' = secret t \<and> (state t' = state t \<or> state t = ticket_state.Pending \<and> state t' = Unspent))"

definition settles_to :: "wallet \<Rightarrow> wallet \<Rightarrow> bool" where
  "settles_to w w' = list_all2 settling (tickets w) (tickets w')"

lemma settling_refl [simp]: "settling t t"
  by (simp add: settling_def)

lemma settles_to_refl [simp]: "settles_to w w"
  by (simp add: settles_to_def list.rel_refl)

lemma settles_to_trans: "settles_to a b \<Longrightarrow> settles_to b c \<Longrightarrow> settles_to a c"
  unfolding settles_to_def by (rule list_all2_trans [of settling settling settling]) (auto simp: settling_def)

lemma settles_to_nth:
  "settles_to w w' \<Longrightarrow> i < length (tickets w') \<Longrightarrow> settling (tickets w ! i) (tickets w' ! i) \<and> i < length (tickets w)"
  by (auto simp: settles_to_def list_all2_conv_all_nth)

lemma settle_loop_settling: "settle_loop C tt ts n = (ts', r) \<Longrightarrow> list_all2 settling ts ts'"
proof (induction ts arbitrary: n ts' r)
  case (Cons t ts)
  have "\<exists>a rest. ts' = a # rest \<and> settling t a \<and> (rest = ts \<or> (\<exists>m r'. settle_loop C tt ts m = (rest, r')))"
    using Cons.prems by (auto simp: settling_def split: if_splits sum.splits option.splits prod.splits)
  then show ?case using Cons.IH list.rel_refl [of settling ts] by auto
qed simp

lemma settle_settles: "settle C tt w = (w', r) \<Longrightarrow> settles_to w w'"
  using settle_loop_settling by (fastforce simp: settle_def settles_to_def split: prod.splits)

lemma settle_tries_settles: "settle_tries C trees start k w = Inr w' \<Longrightarrow> settles_to w w'"
proof (induction k arbitrary: w)
  case (Suc k)
  obtain tt where t: "trees (BUY_SETTLE_TRIES - Suc k) = Inr tt" using Suc.prems by (auto simp: res_inv)
  obtain w1 j where tt: "settle C tt w = (w1, j)" by fastforce
  have "w1 = w' \<or> settle_tries C trees start k w1 = Inr w'" using Suc.prems t tt by (auto split: sum.splits if_splits)
  then show ?case using settle_settles [OF tt] Suc.IH [of w1] settles_to_trans by blast
qed simp

lemma stamp_settles: "settles_to w (stamp_tickets start tx w)"
  by (auto simp: settles_to_def stamp_tickets_def list_all2_conv_all_nth nth_append settling_def min_def)

text \<open>A purchase ends by writing the wallet it read at its start, with what settled since.\<close>

lemma after_purchase_settles:
  assumes "after_purchase C W start w1 tx h = (h', Inr w3)"
  shows "ph_wallet h' = Some w3 \<and> settles_to w1 w3"
proof -
  let ?w2 = "stamp_tickets start tx w1"
  obtain h1 h2 where s: "settle_tries C (bw_trees W) start BUY_SETTLE_TRIES ?w2 = Inr w3" "save_wallet (bw_end_io W) w3 h1 = (h2, Inr ())" "h' = h2"
    using assms by (auto simp: after_purchase_def Let_def sbind_Inr)
  then show ?thesis using save_wallet_Inr [OF s(2)] settles_to_trans [OF stamp_settles settle_tries_settles [OF s(1)]] by simp
qed

lemma settle_and_save_settles: "settle_and_save C io tt w f = (f', Inr w') \<Longrightarrow> settles_to w w'"
  by (auto simp: settle_and_save_def wallet_save_def res_inv dest: settle_settles split: prod.splits sum.splits if_splits)

lemma wallet_load_held: "wallet_load C io st (Some w) = Inr w' \<Longrightarrow> w' = w"
  by (auto simp: wallet_load_def read_file_def res_inv split: option.splits)

text \<open>A send picks an unspent ticket of the wallet it has loaded and settled.\<close>

lemma prepare_ticket_picks:
  assumes "prepare_ticket C io st rpc tt (Some w) = Some (f', Inr pt)"
  shows "settles_to w (pt_wallet pt) \<and> pt_pos pt < length (tickets (pt_wallet pt)) \<and> state (tickets (pt_wallet pt) ! pt_pos pt) = Unspent"
proof -
  let ?sh = "felt_to_hex C st"
  obtain f1 w1 where l: "wallet_load C io ?sh (Some w) = Inr w" and s1: "settle_and_save C io tt w (Some w) = (f1, Inr w1)"
    using assms by (auto simp: prepare_ticket_def Let_def res_inv split: sum.splits prod.splits dest: wallet_load_held)
  have "\<exists>w2 tt' ti. settles_to w1 w2 \<and> pick C tt' w2 = Inr ti \<and> picked_ticket C tt' w2 ti = Inr pt"
  proof (cases "pick C tt w1")
    case (Inr ti)
    then have "picked_ticket C tt w1 ti = Inr pt" using assms l s1 by (simp add: prepare_ticket_def Let_def)
    with Inr show ?thesis using settles_to_refl by blast
  next
    case (Inl e)
    with assms l s1 obtain latest f2 w2 ti where "settle_and_save C io latest w1 f1 = (f2, Inr w2)" "pick C tt w2 = Inr ti" "picked_ticket C tt w2 ti = Inr pt"
      by (auto simp: prepare_ticket_def Let_def res_inv split: sum.splits prod.splits if_splits option.splits)
    then show ?thesis using settle_and_save_settles by blast
  qed
  then obtain w2 tt' ti where p: "settles_to w1 w2" "pick C tt' w2 = Inr ti" "picked_ticket C tt' w2 ti = Inr pt" by blast
  with settles_to_trans [OF settle_and_save_settles [OF s1] p(1)] pick_usable [OF p(2)] picked_ticket_Inr(1,2) [OF p(3)]
  show ?thesis by (simp add: usable_def)
qed

text \<open>A send that prepares itself between the two ends of a purchase loses its reservation.\<close>

lemma reservation_lost:
  assumes buying: "prepare_purchase C W n home = (home1, Inr (cfg, price, (w, w1, leaves), pool, strk))"
    and picking: "prepare_ticket C io st rpc tt (ph_wallet home1) = Some (f1, Inr pt)"
    and sending: "build_send C io rt en t pm pt ep quota nonce slot f1 = Some (f2, Inr p)"
    and ending: "after_purchase C W (length (tickets w)) w1 tx (home1\<lparr>ph_wallet := f2\<rparr>) = (home2, Inr w3)"
  shows "\<exists>w2. f2 = Some w2 \<and> ph_wallet home2 = Some w3 \<and> pt_pos pt < length (tickets w2)
    \<and> state (tickets w2 ! pt_pos pt) = Reserved (pr_id p)
    \<and> secret (tickets w3 ! pt_pos pt) = secret (tickets w2 ! pt_pos pt) \<and> state (tickets w3 ! pt_pos pt) \<in> {Unspent, ticket_state.Pending}"
proof -
  have held: "ph_wallet home1 = Some w1" using prepare_purchase_Inr [OF buying] by simp
  have f2: "f2 = Some (set_state (pt_pos pt) (Reserved (pr_id p)) (pt_wallet pt))" by (rule build_send_Inr [OF sending])
  note pk = prepare_ticket_picks [OF picking [unfolded held]]
  note en = after_purchase_settles [OF ending]
  have i: "pt_pos pt < length (tickets w1)" and s1: "settling (tickets w1 ! pt_pos pt) (tickets (pt_wallet pt) ! pt_pos pt)"
    using settles_to_nth [of w1 "pt_wallet pt" "pt_pos pt"] pk by simp_all
  then have s2: "settling (tickets w1 ! pt_pos pt) (tickets w3 ! pt_pos pt)"
    using en by (auto simp: settles_to_def list_all2_conv_all_nth)
  have "state (tickets w1 ! pt_pos pt) \<in> {Unspent, ticket_state.Pending}" using s1 pk by (auto simp: settling_def)
  then have "state (tickets w3 ! pt_pos pt) \<in> {Unspent, ticket_state.Pending}" using s2 by (auto simp: settling_def)
  moreover have "secret (tickets w3 ! pt_pos pt) = secret (tickets (pt_wallet pt) ! pt_pos pt)" using s1 s2 by (simp add: settling_def)
  ultimately show ?thesis using f2 pk en by (simp add: set_state_def)
qed

section \<open>Properties\<close>

text \<open>Whatever controls are used and whatever the workers report, a session never starts a send
  while one is at work, as long as the checkpoints it resumes have a step to do; and the recipient
  it shows as resolved is always the answer about the handle that is shown.\<close>

theorem sends_never_overlap:
  assumes "list_all resumes_unfinished es"
  shows "\<not> overlap C dir es (new_session cfg keys pending) False
    \<and> resolution_ok dir (fst (session_run C dir es (new_session cfg keys pending)))"
proof
  show "\<not> overlap C dir es (new_session cfg keys pending) False"
    by (rule no_overlap [OF assms]) (simp add: send_ok_def)
  have "resolution_ok dir (new_session cfg keys pending)" by (simp add: resolution_ok_def new_session_def)
  then show "resolution_ok dir (fst (session_run C dir es (new_session cfg keys pending)))"
    using session_run_resolution [of C dir es "new_session cfg keys pending"] by (metis prod.collapse)
qed

definition composing :: "string \<Rightarrow> string \<Rightarrow> (bool \<times> ui) list" where
  "composing h t = map (\<lambda>e. (False, e)) [SelectTab Compose, EditHandle h, EditText t, ClickResolve, ResolveMsg, ClickSend]"

abbreviation maybe_tickets :: "session \<Rightarrow> bool" where
  "maybe_tickets s \<equiv> (case known_tickets s of Some c \<Rightarrow> n_unspent c \<noteq> 0 | None \<Rightarrow> True)"

text \<open>A registered profile of the current store, at rest on its Status tab with a report that does
  not say it has no ticket.\<close>

definition ready :: "crates \<Rightarrow> session \<Rightarrow> bool" where
  "ready C s = (se_tab s = Status \<and> status_tab s = StatusPanel \<and> has_leaf s \<and> on_current_store C s \<and> \<not> se_busy s
     \<and> \<not> se_send_rx s \<and> se_send_flow s = None \<and> se_status s \<noteq> None \<and> maybe_tickets s)"

lemma composing_run:
  assumes "se_send_flow s = None" "has_leaf s" "on_current_store C s" "\<not> se_send_rx s" "maybe_tickets s"
    and "trim_ws h = h" "h \<noteq> []" "trim_ws t \<noteq> []" "dir h = Inr x"
  shows "\<exists>tr. session_run C dir (composing h t) s =
     (s\<lparr>se_tab := Compose, se_compose_handle := h, se_compose_text := t, se_resolving := False, se_resolved := Some (Inr x),
        se_resolve_rx := None, se_last_error := None, se_show_confirm := True\<rparr>, tr) \<and> concat (map snd tr) = [SpawnResolve h]"
  using assms
  by (simp add: composing_def edit_handle_def edit_text_def click_resolve_def poll_compose_worker_def click_send_def form_shown_def
      has_leaf_def can_send_def known_tickets_def work_in_flight_def on_current_store_def Let_def)

lemma session_run_append:
  "session_run C dir (as @ bs) s = (case session_run C dir as s of (s1, tr) \<Rightarrow>
     case session_run C dir bs s1 of (s2, tr') \<Rightarrow> (s2, tr @ tr'))"
  by (induction as arbitrary: s) (auto split: prod.splits)

text \<open>The handle can be edited while the confirmation is open: the send then goes to a handle that
  was never resolved.\<close>

theorem edited_recipient_is_sent_unresolved:
  assumes "ready C s" and "trim_ws h = h" and "h \<noteq> []" and "trim_ws t \<noteq> []" and "dir h = Inr x"
  shows "\<exists>s' tr. session_run C dir (composing h t @ [(False, EditHandle h'), (False, ClickConfirm)]) s = (s', tr)
    \<and> concat (map snd tr) = [SpawnResolve h, SpawnSend (NewSend (trim_ws h') t)] \<and> se_resolved s' = None"
proof -
  have s: "se_send_flow s = None" "has_leaf s" "on_current_store C s" "\<not> se_send_rx s" "maybe_tickets s"
    using assms(1) by (simp_all add: ready_def)
  obtain tr where tr: "session_run C dir (composing h t) s =
     (s\<lparr>se_tab := Compose, se_compose_handle := h, se_compose_text := t, se_resolving := False, se_resolved := Some (Inr x),
        se_resolve_rx := None, se_last_error := None, se_show_confirm := True\<rparr>, tr)" "concat (map snd tr) = [SpawnResolve h]"
    using composing_run [OF s assms(2-4), of dir x] assms(5) by blast
  then show ?thesis
    using s by (simp add: session_run_append edit_handle_def form_shown_def has_leaf_def click_confirm_def start_send_def work_in_flight_def)
qed

text \<open>C31: A send can be started while a purchase is under way: from a session at rest with its
  report loaded, buying, composing and confirming start both workers, one after the other, the
  purchase still running. When the send's worker then loads the wallet the purchase has saved,
  reserves a ticket in it and saves it, and the purchase ends after that, the wallet the
  purchase writes has that ticket unspent or pending again: the reservation is lost.\<close>

theorem purchase_undoes_a_reservation:
  assumes session: "ready C s" and words: "trim_ws h = h" "h \<noteq> []" "trim_ws t \<noteq> []" and known: "dir h = Inr x"
    and buying: "prepare_purchase C W 1 home = (home1, Inr (cfg, price, (w, w1, leaves), pool, strk))"
    and picking: "prepare_ticket C io st rpc tt (ph_wallet home1) = Some (f1, Inr pt)"
    and sending: "build_send C io rt en t pm pt ep quota nonce slot f1 = Some (f2, Inr p)"
    and ending: "after_purchase C W (length (tickets w)) w1 tx (home1\<lparr>ph_wallet := f2\<rparr>) = (home2, Inr w3)"
  shows "(\<exists>s' tr. session_run C dir ((False, ClickBuy) # composing h t @ [(False, ClickConfirm)]) s = (s', tr)
      \<and> concat (map snd tr) = [SpawnStatus (BuyJob 1), SpawnResolve h, SpawnSend (NewSend h t)] \<and> se_rx s' = Some (BuyJob 1))
    \<and> (\<exists>w2. f2 = Some w2 \<and> ph_wallet home2 = Some w3 \<and> pt_pos pt < length (tickets w2)
      \<and> state (tickets w2 ! pt_pos pt) = Reserved (pr_id p)
      \<and> secret (tickets w3 ! pt_pos pt) = secret (tickets w2 ! pt_pos pt) \<and> state (tickets w3 ! pt_pos pt) \<in> {Unspent, ticket_state.Pending})"
proof
  let ?s1 = "s\<lparr>se_last_error := None, se_busy := True, se_rx := Some (BuyJob 1)\<rparr>"
  have buy: "click_buy C False s = (?s1, [SpawnStatus (BuyJob 1)])"
    using session by (simp add: ready_def click_buy_def work_in_flight_def spawn_status_def)
  have s: "se_send_flow ?s1 = None" "has_leaf ?s1" "on_current_store C ?s1" "\<not> se_send_rx ?s1" "maybe_tickets ?s1"
    using session by (simp_all add: ready_def has_leaf_def on_current_store_def known_tickets_def)
  obtain tr where tr: "session_run C dir (composing h t) ?s1 =
     (?s1\<lparr>se_tab := Compose, se_compose_handle := h, se_compose_text := t, se_resolving := False, se_resolved := Some (Inr x),
        se_resolve_rx := None, se_last_error := None, se_show_confirm := True\<rparr>, tr)" "concat (map snd tr) = [SpawnResolve h]"
    using composing_run [OF s words, of dir x] known by blast
  then show "\<exists>s' tr. session_run C dir ((False, ClickBuy) # composing h t @ [(False, ClickConfirm)]) s = (s', tr)
      \<and> concat (map snd tr) = [SpawnStatus (BuyJob 1), SpawnResolve h, SpawnSend (NewSend h t)] \<and> se_rx s' = Some (BuyJob 1)"
    using s words(1) by (simp add: buy session_run_append has_leaf_def click_confirm_def start_send_def work_in_flight_def)
qed (rule reservation_lost [OF buying picking sending ending])

section \<open>Instances\<close>

text \<open>A registered profile whose first report has come.\<close>

definition first_report :: "(bool \<times> ui) list" where
  "first_report = [(False, DrawStatus), (False, StatusMsg (GotStatus (Some \<lparr>n_unspent = 1, n_reserved = 0, n_spent = 0, n_pending = 0\<rparr>)) (None, None))]"

definition demo_session :: session where
  "demo_session = fst (session_run demo_crates (\<lambda>h. Inr (5, 0)) first_report
     (new_session (Some default_sepolia) (Some (inbox_keys\<lparr>keys_handle := Some ''al'', keys_leaf_index := Some 0\<rparr>)) []))"

lemma demo_ready: "ready demo_crates demo_session"
  using demo_current_store
  by (simp add: ready_def demo_session_def first_report_def draw_status_panel_def spawn_status_def poll_worker_def new_session_def status_tab_def
      has_leaf_def on_current_store_def default_sepolia_def known_tickets_def)

lemma demo_words: "trim_ws ''bo'' = ''bo''" "trim_ws ''ev'' = ''ev''" "trim_ws ''hi'' \<noteq> []"
  by (simp_all add: trim_ws_def trim_start_def is_space_def)

theorem sends_never_overlap_witness:
  "\<not> overlap demo_crates (\<lambda>h. Inl h) [(False, BannerResume ''1'' (Inr (new_virtual_plan ''1'' ''bo'' [] ([], [], []) 0))), (False, ClickConfirm)]
       (new_session (Some default_sepolia) None [(''1'', Prepare)]) False
   \<and> resolution_ok (\<lambda>h. Inl h) (fst (session_run demo_crates (\<lambda>h. Inl h) [(False, BannerResume ''1'' (Inr (new_virtual_plan ''1'' ''bo'' [] ([], [], []) 0))), (False, ClickConfirm)]
       (new_session (Some default_sepolia) None [(''1'', Prepare)])))"
  by (rule sends_never_overlap) (simp add: new_virtual_plan_def new_step_def)

theorem edited_recipient_is_sent_unresolved_witness:
  "\<exists>s' tr. session_run demo_crates (\<lambda>h. Inr (5, 0)) (composing ''bo'' ''hi'' @ [(False, EditHandle ''ev''), (False, ClickConfirm)]) demo_session = (s', tr)
    \<and> concat (map snd tr) = [SpawnResolve ''bo'', SpawnSend (NewSend ''ev'' ''hi'')] \<and> se_resolved s' = None"
  using edited_recipient_is_sent_unresolved [OF demo_ready demo_words(1) _ demo_words(3), of "\<lambda>h. Inr (5, 0)" "(5, 0)" "''ev''"] demo_words(2)
  by simp

text \<open>A wallet with one ticket the tree holds, a purchase of one more that is not found, and a send in between.\<close>

definition own_wallet :: wallet where
  "own_wallet = (demo_wallet Unspent)\<lparr>wallet_store := SEPOLIA_POOL_V4\<rparr>"

definition landed :: buy_world where
  "landed = demo_buy\<lparr>bw_trees := \<lambda>_. Inr \<lparr>tt_leaves = [], tt_tree = mt_new demo_crates\<rparr>\<rparr>"

lemma own_ticket:
  "tickets own_wallet = tickets (demo_wallet Unspent)" "wallet_store own_wallet = SEPOLIA_POOL_V4"
  by (simp_all add: own_wallet_def)

definition pool_felt :: felt where
  "pool_felt = the (felt_of_hex demo_crates SEPOLIA_POOL_V4)"

lemma pool_felt: "felt_of_hex demo_crates SEPOLIA_POOL_V4 = Some pool_felt" "felt_ok pool_felt"
proof -
  show p: "felt_of_hex demo_crates SEPOLIA_POOL_V4 = Some pool_felt"
    using demo_current_store by (auto simp: pool_felt_def is_current_store_def same_address_def split: option.splits)
  then show "felt_ok pool_felt" using demo_felt_hex_ok by (auto simp: felt_hex_ok_def)
qed

lemma own_wallet_loads: "wallet_load demo_crates io_ok (felt_to_hex demo_crates pool_felt) (Some own_wallet) = Inr own_wallet"
  using pool_felt demo_felt_hex_ok
  by (simp add: wallet_load_def read_file_def io_ok_def own_ticket same_address_def felt_hex_ok_def)

lemma own_wallet_settled: "settle demo_crates tt own_wallet = (own_wallet, Inr 0)"
  by (simp add: settle_def own_wallet_def demo_wallet_def)

definition bought_wallet :: wallet where
  "bought_wallet = own_wallet\<lparr>tickets := tickets own_wallet @ [\<lparr>secret = member_secret_hex demo_crates (be_bytes 32 9), index = None, buy_tx = None, state = ticket_state.Pending\<rparr>]\<rparr>"

lemma leaf_of_secret: "secret t = secret t' \<Longrightarrow> ticket_leaf_of C t = ticket_leaf_of C t'"
  by (simp add: ticket_leaf_of_def ticket_secret_felt_def)

lemma demo_secret: "secret t = member_secret_hex demo_crates (be_bytes 32 9) \<Longrightarrow> ticket_leaf_of demo_crates t = Inr demo_leaf"
  using leaf_of_secret [of t "tickets (demo_wallet Unspent) ! 0" demo_crates] demo_ticket_leaf [of Unspent]
  by (simp add: demo_wallet_def member_secret_hex_def demo_crates_def)

lemma demo_buying:
  "\<exists>home1 cfg price leaves pool strk. prepare_purchase demo_crates landed 1 (demo_home\<lparr>ph_wallet := Some own_wallet\<rparr>)
     = (home1, Inr (cfg, price, (own_wallet, bought_wallet, leaves), pool, strk))"
proof -
  obtain strk where strk: "felt_from_hex demo_crates STRK_TOKEN = Inr strk" using demo_strk by blast
  have price: "first_u128 [''0x5''] = Inr 5" by (simp add: first_u128_def parse_radix_def digit_val_def)
  have pool: "felt_from_hex demo_crates SEPOLIA_POOL_V4 = Inr pool_felt" using pool_felt by (simp add: felt_from_hex_def)
  have same: "same_address demo_crates SEPOLIA_POOL_V4 SEPOLIA_POOL_V4" using pool_felt by (simp add: same_address_def)
  show ?thesis
    by (simp add: prepare_purchase_def sbind_def load_cfg_def load_wallet_def save_wallet_def wallet_save_def wallet_load_def write_file_def read_file_def
        demo_home_def landed_def demo_buy_def default_sepolia_def io_ok_def demo_current_store MAX_TICKETS_PER_PURCHASE_def price demo_secret strk pool own_ticket same
        bought_wallet_def Let_def del: be_bytes.simps)
qed

lemma empty_tree_settles:
  assumes "secrets_parse C w"
  shows "settle C \<lparr>tt_leaves = [], tt_tree = t\<rparr> w = (w, Inr 0)"
proof -
  have "list_all (\<lambda>x. is_ok (ticket_leaf_of C x)) ts \<Longrightarrow> settle_loop C \<lparr>tt_leaves = [], tt_tree = t\<rparr> ts n = (ts, Inr n)" for ts n
    by (induction ts arbitrary: n) (auto simp: tt_index_of_def split: sum.splits)
  then show ?thesis using assms by (simp add: settle_def secrets_parse_def list_all_iff)
qed

lemma unfound_tries:
  assumes "secrets_parse C w" and "\<And>k. trees k = Inr \<lparr>tt_leaves = [], tt_tree = t\<rparr>"
  shows "settle_tries C trees start k w = Inr w"
  by (induction k) (simp_all add: assms(2) empty_tree_settles [OF assms(1)])

lemma bought_parse: "secrets_parse demo_crates (stamp_tickets 1 ''0x1'' bought_wallet)"
  using demo_ticket_leaf [of Unspent]
  by (simp add: secrets_parse_def stamp_tickets_def bought_wallet_def own_ticket demo_wallet_def demo_secret)

text \<open>The bought ticket is not found, and the purchase still ends well.\<close>

lemma demo_ending: "\<exists>home2 w3. after_purchase demo_crates landed 1 bought_wallet ''0x1'' h = (home2, Inr w3)"
proof -
  have "settle_tries demo_crates (bw_trees landed) 1 BUY_SETTLE_TRIES (stamp_tickets 1 ''0x1'' bought_wallet) = Inr (stamp_tickets 1 ''0x1'' bought_wallet)"
    by (rule unfound_tries [OF bought_parse]) (simp add: landed_def)
  moreover have "bw_tx_io landed = io_ok" "bw_end_io landed = io_ok" by (simp_all add: landed_def demo_buy_def)
  ultimately show ?thesis
    by (simp add: after_purchase_def Let_def sbind_def save_wallet_def wallet_save_def write_file_def io_ok_def)
qed

text \<open>The send in between picks the ticket held.\<close>

lemma demo_picking:
  assumes "ticket_tree_from_events demo_crates [([''x''], [hex0x demo_leaf, hex0x 0])] = Inr tt" "tt_leaves tt = [demo_leaf]"
  shows "\<exists>f1 pt. prepare_ticket demo_crates io_ok pool_felt rpc tt (Some bought_wallet) = Some (f1, Inr pt) \<and> length (pt_path pt) = 20"
proof -
  have leaf: "ticket_leaf_of demo_crates (tickets own_wallet ! 0) = Inr demo_leaf" using demo_ticket_leaf by (simp add: own_ticket)
  obtain w1 n where st: "settle demo_crates tt bought_wallet = (w1, Inr n)" and hd: "tickets w1 ! 0 = tickets own_wallet ! 0" "tickets w1 \<noteq> []"
    by (cases "tt_index_of tt demo_leaf") (auto simp: settle_def bought_wallet_def own_ticket demo_wallet_def demo_secret)
  have pick: "pick demo_crates tt w1 = Inr 0"
    using hd leaf assms(2) by (cases "tickets w1") (auto simp: pick_def own_ticket demo_wallet_def tt_leaf_def)
  obtain leaf' p where "index (tickets w1 ! 0) = Some 0" "ticket_leaf_of demo_crates (tickets w1 ! 0) = Inr leaf'" "tt_path tt 0 = Inr p"
      "fold_path demo_crates leaf' 0 p = Inr (tt_root tt)"
    using picked_ticket_proves [OF assms(1) pick] hd by (auto simp: own_ticket demo_wallet_def)
  then obtain pt where pt: "picked_ticket demo_crates tt w1 0 = Inr pt"
    by (auto simp: picked_ticket_def ticket_leaf_of_def res_inv)
  then have "length (pt_path pt) = 20" using picked_ticket_Inr(4) [OF pt] by (simp add: fold_path_def res_inv TREE_DEPTH_def)
  moreover obtain f1 where "settle_and_save demo_crates io_ok tt bought_wallet (Some bought_wallet) = (f1, Inr w1)"
    using st by (cases "0 < n") (simp_all add: settle_and_save_def wallet_save_def write_file_def io_ok_def)
  moreover have "wallet_load demo_crates io_ok (felt_to_hex demo_crates pool_felt) (Some bought_wallet) = Inr bought_wallet"
    using own_wallet_loads by (auto simp: wallet_load_def read_file_def io_ok_def bought_wallet_def res_inv)
  ultimately show ?thesis using pick pt by (simp add: prepare_ticket_def Let_def)
qed

text \<open>It is sent to a member whose keys are \<open>9\<close> and a seed of sevens.\<close>

definition demo_member :: "ticket_tree \<Rightarrow> prep_member" where
  "demo_member tt = \<lparr>pm_block = 32, pm_registry = \<lparr>registrations = [], by_handle = Map.empty, reg_tree = mt_new demo_crates\<rparr>, pm_root = 0, pm_tickets = tt,
     pm_recipient = \<lparr>owner = 0, handle = 0, scan_pub = ec_mul_gen_x demo_crates 9, leaf_index = 0, m_commit = 0,
        kem_pubkey = kem_ek demo_crates (replicate 64 7), kem_digest = 0\<rparr>,
     pm_sender = \<lparr>owner = 0, handle = 0, scan_pub = 0, leaf_index = 0, m_commit = 0, kem_pubkey = [], kem_digest = 0\<rparr>,
     pm_path = replicate 20 0, pm_scan_pub = 0, pm_digest = 0, pm_secret = 9\<rparr>"

definition demo_entropy :: entropy where
  "demo_entropy = \<lparr>en_draws = [be_bytes 32 0, be_bytes 32 5], en_m = replicate 32 3, en_nonce = replicate 12 4\<rparr>"

lemma demo_sending:
  assumes "length (pt_path pt) = 20"
  shows "\<exists>f2 p. build_send demo_crates io_ok rt demo_entropy ''hi'' (demo_member tt) pt 1 1 0 0 f1 = Some (f2, Inr p)"
proof -
  have z: "felt_from_be (be_bytes 32 k) = k" if "k < 100" for k
    using that by (simp add: felt_from_be_def be_nat_be_bytes STARK_PRIME_def)
  have draw: "scan_keygen demo_crates [be_bytes 32 0, be_bytes 32 5] = Some (5, ec_mul_gen_x demo_crates 5)"
    by (simp add: z demo_crates_def STARK_PRIME_def del: be_bytes.simps)
  have "length (kem_ek demo_crates (replicate 64 7)) = KEM_EK_LEN"
    and "kem_encap demo_crates (kem_ek demo_crates (replicate 64 7)) (replicate 32 3) \<noteq> None"
    and "ec_shared_x demo_crates 5 (ec_mul_gen_x demo_crates 9) \<noteq> None"
    by (simp_all add: demo_crates_def KEM_EK_LEN_def)
  from sent_v4_is_received [OF demo_ecdh_ok demo_kem_ok demo_gcm_ok demo_hkdf_ok _ draw this, of "replicate 12 4" "str_bytes ''hi''"]
  obtain sd where "send_v4 demo_crates [be_bytes 32 0, be_bytes 32 5] (replicate 32 3) (replicate 12 4)
      (ec_mul_gen_x demo_crates 9) (kem_ek demo_crates (replicate 64 7)) (str_bytes ''hi'') = Some (Inr sd)" by (auto simp: NONCE_LEN_def)
  then show ?thesis
    by (simp add: build_send_def demo_entropy_def demo_member_def assms prove_send_calldata_v4_def wallet_save_def write_file_def io_ok_def Let_def
        del: be_bytes.simps)
qed

definition pool_route :: route where
  "pool_route = \<lparr>r_store = pool_felt, r_prover = 1, r_virtual_sender = 2, r_chain_id = 3\<rparr>"

theorem purchase_undoes_a_reservation_witness:
  "\<exists>s' tr home1 x tt f1 pt f2 p home2 w2 w3.
     session_run demo_crates (\<lambda>h. Inr (5, 0)) ((False, ClickBuy) # composing ''bo'' ''hi'' @ [(False, ClickConfirm)]) demo_session = (s', tr)
   \<and> concat (map snd tr) = [SpawnStatus (BuyJob 1), SpawnResolve ''bo'', SpawnSend (NewSend ''bo'' ''hi'')]
   \<and> prepare_purchase demo_crates landed 1 (demo_home\<lparr>ph_wallet := Some own_wallet\<rparr>) = (home1, Inr x)
   \<and> prepare_ticket demo_crates io_ok pool_felt (\<lambda>m q. Inl (Net Transport)) tt (ph_wallet home1) = Some (f1, Inr pt)
   \<and> build_send demo_crates io_ok pool_route demo_entropy ''hi'' (demo_member tt) pt 1 1 0 0 f1 = Some (f2, Inr p)
   \<and> after_purchase demo_crates landed 1 bought_wallet ''0x1'' (home1\<lparr>ph_wallet := f2\<rparr>) = (home2, Inr w3)
   \<and> f2 = Some w2 \<and> state (tickets w2 ! pt_pos pt) = Reserved (pr_id p) \<and> ph_wallet home2 = Some w3
   \<and> (state (tickets w3 ! pt_pos pt) = Unspent \<or> state (tickets w3 ! pt_pos pt) = ticket_state.Pending)"
proof -
  obtain tt where tt: "ticket_tree_from_events demo_crates [([''x''], [hex0x demo_leaf, hex0x 0])] = Inr tt" "tt_leaves tt = [demo_leaf]"
    by (rule demo_tree)
  obtain home1 cfg price leaves pool strk where buying: "prepare_purchase demo_crates landed 1 (demo_home\<lparr>ph_wallet := Some own_wallet\<rparr>)
     = (home1, Inr (cfg, price, (own_wallet, bought_wallet, leaves), pool, strk))" using demo_buying by blast
  have held: "ph_wallet home1 = Some bought_wallet" using prepare_purchase_Inr [OF buying] by simp
  obtain f1 pt where picking: "prepare_ticket demo_crates io_ok pool_felt (\<lambda>m q. Inl (Net Transport)) tt (ph_wallet home1) = Some (f1, Inr pt)"
    and len: "length (pt_path pt) = 20" using demo_picking [OF tt] held by metis
  obtain f2 p where sending: "build_send demo_crates io_ok pool_route demo_entropy ''hi'' (demo_member tt) pt 1 1 0 0 f1 = Some (f2, Inr p)"
    using demo_sending [OF len] by blast
  have one: "length (tickets own_wallet) = 1" by (simp add: own_ticket demo_wallet_def)
  obtain home2 w3 where ending: "after_purchase demo_crates landed (length (tickets own_wallet)) bought_wallet ''0x1'' (home1\<lparr>ph_wallet := f2\<rparr>) = (home2, Inr w3)"
    using demo_ending one by metis
  have ne: "''bo'' \<noteq> []" by simp
  show ?thesis
    using purchase_undoes_a_reservation [where dir = "\<lambda>h. Inr (5, 0)" and x = "(5, 0)", OF demo_ready demo_words(1) ne demo_words(3) refl
      buying picking sending ending] buying picking sending ending one
    by (elim conjE exE) (auto 4 0 intro!: exI)
qed

end
