(* ===== verification/Pack.thy ===== *)
theory Pack
  imports Serde "HOL-Library.Word"
begin

text \<open>
  The transport of a proof to the chain: \<^verbatim>\<open>pack_v2\<close> of the bridge
  (\<^verbatim>\<open>tools/privacy-prove-cairo-bridge/src/main.rs\<close>) against the contract that reads it,
  \<^verbatim>\<open>unpack_proof_v2\<close> (\<^verbatim>\<open>contracts/stwo_full_verifier_phases/src/lib.cairo\<close>), and against the
  packer the contract's own tests use (\<^verbatim>\<open>pack.cairo\<close>). A value takes one limb of 32 bits, or is
  escaped as a pair or as eight limbs; seven limbs make a slot.
\<close>

unbundle bit_operations_syntax

section \<open>The bridge\<close>

type_synonym u64 = "64 word"

definition U32_MAX_LIMB :: u64 where
  "U32_MAX_LIMB = 0xFFFFFFFF"

definition FELT_ESCAPE_LIMB :: u64 where
  "FELT_ESCAPE_LIMB = 0xFFFFFFFE"

text \<open>\<^verbatim>\<open>rchunks(8)\<close> starts at the end of the 32 bytes.\<close>

definition le_words :: "felt \<Rightarrow> u64 list" where
  "le_words v = map (\<lambda>c. word_of_nat (be_nat c)) (rev (chunks 8 (felt_to_be v)))"

definition value_limbs :: "felt \<Rightarrow> u64 list" where
  "value_limbs v =
     (let ws = le_words v
      in if ws ! 1 = 0 \<and> ws ! 2 = 0 \<and> ws ! 3 = 0
         then (let w = ws ! 0
               in if w < FELT_ESCAPE_LIMB then [w]
                  else [U32_MAX_LIMB, w AND U32_MAX_LIMB, drop_bit 32 w])
         else FELT_ESCAPE_LIMB # map (\<lambda>k. drop_bit (32 * (k mod 2)) (ws ! (k div 2)) AND U32_MAX_LIMB) [0..<8])"

definition felt_add :: "felt \<Rightarrow> felt \<Rightarrow> felt" where
  "felt_add a b = (a + b) mod STARK_PRIME"

definition felt_mul :: "felt \<Rightarrow> felt \<Rightarrow> felt" where
  "felt_mul a b = a * b mod STARK_PRIME"

fun slot_loop :: "felt \<Rightarrow> felt \<Rightarrow> u64 list \<Rightarrow> felt" where
  "slot_loop slot shift [] = slot"
| "slot_loop slot shift (limb # limbs) =
     slot_loop (felt_add slot (felt_mul (unat limb) shift)) (felt_mul shift (2 ^ 32)) limbs"

definition pack_v2 :: "felt list \<Rightarrow> felt list" where
  "pack_v2 values = map (slot_loop 0 1) (chunks 7 (concat (map value_limbs values)))"

section \<open>The contract\<close>

definition as_u32 :: "nat \<Rightarrow> nat res" where
  "as_u32 n = ensure (n < 2 ^ 32) Panic (Inr n)"

text \<open>One slot: a \<^verbatim>\<open>u256\<close> cut by \<^verbatim>\<open>DivRem\<close>; a limb that does not fit is the panic of \<^verbatim>\<open>unwrap\<close>.\<close>

definition slot_limbs :: "felt \<Rightarrow> nat list res" where
  "slot_limbs slot =
     (let low = slot mod 2 ^ 128; high = slot div 2 ^ 128;
          q1 = low div 2 ^ 32; q2 = q1 div 2 ^ 32; h1 = high div 2 ^ 32
      in rmap as_u32
           [low mod 2 ^ 32, q1 mod 2 ^ 32, q2 mod 2 ^ 32, q2 div 2 ^ 32,
            high mod 2 ^ 32, h1 mod 2 ^ 32, h1 div 2 ^ 32])"

definition item_at :: "'a list \<Rightarrow> nat \<Rightarrow> 'a res" where
  "item_at xs i = (if i < length xs then Inr (xs ! i) else Inl Panic)"

definition U64_ESCAPE :: nat where
  "U64_ESCAPE = 0xFFFFFFFF"

definition FELT_ESCAPE :: nat where
  "FELT_ESCAPE = 0xFFFFFFFE"

text \<open>The loop \<^verbatim>\<open>while values.len() != n_values\<close>, each round of which appends one value.\<close>

fun unpack_values :: "nat list \<Rightarrow> nat \<Rightarrow> nat \<Rightarrow> felt list res" where
  "unpack_values limbs i 0 = Inr []"
| "unpack_values limbs i (Suc n) =
     rbind (item_at limbs i) (\<lambda>limb.
       if limb = U64_ESCAPE then
         rbind (item_at limbs (i + 1)) (\<lambda>lo. rbind (item_at limbs (i + 2)) (\<lambda>hi.
         rbind (unpack_values limbs (i + 3) n) (\<lambda>vs.
           Inr (felt_add lo (felt_mul hi (2 ^ 32)) # vs))))
       else if limb = FELT_ESCAPE then
         rbind (rmap (\<lambda>k. item_at limbs (i + k)) (rev [1..<9])) (\<lambda>ls.
         rbind (unpack_values limbs (i + 9) n) (\<lambda>vs.
           Inr (foldl (\<lambda>v l. felt_add (felt_mul v (2 ^ 32)) l) 0 ls # vs)))
       else rbind (unpack_values limbs (i + 1) n) (\<lambda>vs. Inr (limb # vs)))"

definition unpack_proof_v2 :: "felt list \<Rightarrow> nat \<Rightarrow> felt list res" where
  "unpack_proof_v2 packed n_values =
     rbind (rmap slot_limbs packed) (\<lambda>lss. unpack_values (concat lss) 0 n_values)"

text \<open>\<^verbatim>\<open>pack.cairo\<close>: the same format, written with \<^verbatim>\<open>u256\<close> comparisons and a padded tail.\<close>

definition cairo_limbs :: "felt \<Rightarrow> nat list" where
  "cairo_limbs v =
     (let low = v mod 2 ^ 128; high = v div 2 ^ 128
      in if high = 0 \<and> low < 0x100000000
         then (if low = U64_ESCAPE \<or> low = FELT_ESCAPE then [U64_ESCAPE, low, 0] else [low])
         else if high = 0 \<and> low < 0x10000000000000000
         then [U64_ESCAPE, low mod 2 ^ 32, low div 2 ^ 32]
         else (let q1 = low div 2 ^ 32; q2 = q1 div 2 ^ 32; h1 = high div 2 ^ 32; h2 = h1 div 2 ^ 32
               in [FELT_ESCAPE, low mod 2 ^ 32, q1 mod 2 ^ 32, q2 mod 2 ^ 32, q2 div 2 ^ 32,
                   high mod 2 ^ 32, h1 mod 2 ^ 32, h2 mod 2 ^ 32, h2 div 2 ^ 32]))"

fun cairo_slot :: "nat \<Rightarrow> felt \<Rightarrow> felt \<Rightarrow> nat list \<Rightarrow> felt \<times> nat list" where
  "cairo_slot 0 slot shift limbs = (slot, limbs)"
| "cairo_slot (Suc k) slot shift [] = cairo_slot k (felt_add slot (felt_mul 0 shift)) (felt_mul shift (2 ^ 32)) []"
| "cairo_slot (Suc k) slot shift (l # ls) =
     cairo_slot k (felt_add slot (felt_mul l shift)) (felt_mul shift (2 ^ 32)) ls"

lemma cairo_slot_rest: "snd (cairo_slot k slot shift ls) = drop k ls"
  by (induction k slot shift ls rule: cairo_slot.induct) simp_all

lemma cairo_slot_drop: "(s, rest) = cairo_slot k slot shift ls \<Longrightarrow> rest = drop k ls"
  using cairo_slot_rest [of k slot shift ls] by (cases "cairo_slot k slot shift ls") simp

function cairo_slots :: "nat list \<Rightarrow> felt list" where
  "cairo_slots ls = (if ls = [] then [] else (case cairo_slot 7 0 1 ls of (slot, rest) \<Rightarrow> slot # cairo_slots rest))"
  by pat_completeness auto
termination
by (relation "measure length") (auto dest: cairo_slot_drop)

declare cairo_slots.simps [simp del]

definition cairo_pack_v2 :: "felt list \<Rightarrow> felt list" where
  "cairo_pack_v2 values = cairo_slots (concat (map cairo_limbs values))"

section \<open>Limbs\<close>

text \<open>Little-endian digits in base \<open>2 ^ 32\<close>.\<close>

fun le_sum :: "nat list \<Rightarrow> nat" where
  "le_sum [] = 0"
| "le_sum (l # ls) = l + 2 ^ 32 * le_sum ls"

definition u32s :: "nat list \<Rightarrow> bool" where
  "u32s ls = (\<forall>l \<in> set ls. l < 2 ^ 32)"

lemma u32s_simps [simp]: "u32s []" "u32s (l # ls) \<longleftrightarrow> l < 2 ^ 32 \<and> u32s ls" "u32s (xs @ ys) \<longleftrightarrow> u32s xs \<and> u32s ys"
  by (auto simp: u32s_def)

lemma u32s_take_drop: "u32s ls \<Longrightarrow> u32s (take n ls) \<and> u32s (drop n ls)"
  by (auto simp: u32s_def dest: in_set_takeD in_set_dropD)

lemma le_sum_less: "u32s ls \<Longrightarrow> le_sum ls < 2 ^ (32 * length ls)"
proof (induction ls)
  case (Cons l ls)
  then have "le_sum ls + 1 \<le> 2 ^ (32 * length ls)" by simp
  then have "2 ^ 32 * (le_sum ls + 1) \<le> (2 :: nat) ^ 32 * 2 ^ (32 * length ls)" by (rule mult_left_mono) simp
  then show ?case using Cons.prems by (simp add: power_add distrib_left)
qed simp

lemma le_sum_zeros [simp]: "le_sum (replicate n 0) = 0" "le_sum (ls @ replicate n 0) = le_sum ls"
  by (induction n; simp) (induction ls; induction n; simp)

lemma le_sum_single: "le_sum [l] = l"
  by simp

lemma le_sum_mod_div:
  "l < 2 ^ 32 \<Longrightarrow> le_sum (l # ls) mod 2 ^ 32 = l"
  "l < 2 ^ 32 \<Longrightarrow> le_sum (l # ls) div 2 ^ 32 = le_sum ls"
  by simp_all

lemma prime_gt_224: "2 ^ 224 < STARK_PRIME"
  using STARK_PRIME_gt_248 by (rule order.strict_trans [rotated]) simp

lemma felt_add_small: "a + b < 2 ^ 224 \<Longrightarrow> felt_add a b = a + b"
  using prime_gt_224 by (simp add: felt_add_def)

lemma felt_mul_small: "a * b \<le> 2 ^ 224 \<Longrightarrow> felt_mul a b = a * b"
  using prime_gt_224 by (simp add: felt_mul_def)

text \<open>What a value becomes, in digits.\<close>

definition spec_limbs :: "felt \<Rightarrow> nat list" where
  "spec_limbs v =
     (if v < FELT_ESCAPE then [v]
      else if v < 2 ^ 64 then [U64_ESCAPE, v mod 2 ^ 32, v div 2 ^ 32]
      else FELT_ESCAPE # map (\<lambda>k. v div 2 ^ (32 * k) mod 2 ^ 32) [0..<8])"

lemma upt_8: "[0..<8] = [0, 1, 2, 3, 4, 5, 6, 7 :: nat]"
  by (simp add: upt_rec)

lemma spec_limbs_u32s: "u32s (spec_limbs v)"
  by (auto simp: spec_limbs_def u32s_def U64_ESCAPE_def FELT_ESCAPE_def less_mult_imp_div_less)

text \<open>The words of the bridge are the base \<open>2 ^ 64\<close> digits.\<close>

lemma be_bytes_chunk: "be_bytes (m + n) v = be_bytes m (v div 256 ^ n) @ be_bytes n v"
proof (induction n arbitrary: v)
  case (Suc n)
  then show ?case by (simp add: div_mult2_eq flip: append_assoc)
qed simp

lemma felt_to_be_chunks:
  "chunks 8 (felt_to_be v) = [be_bytes 8 (v div 2 ^ 192), be_bytes 8 (v div 2 ^ 128), be_bytes 8 (v div 2 ^ 64), be_bytes 8 v]"
proof -
  have "felt_to_be v = be_bytes 8 (v div 2 ^ 192) @ be_bytes 8 (v div 2 ^ 128) @ be_bytes 8 (v div 2 ^ 64) @ be_bytes 8 v"
    using be_bytes_chunk [of 8 24 v] be_bytes_chunk [of 8 16 v] be_bytes_chunk [of 8 8 v]
    by (simp add: felt_to_be_def)
  moreover have "be_bytes 8 x \<noteq> []" for x using length_be_bytes [of 8 x] by (metis list.size(3) zero_neq_numeral)
  ultimately show ?thesis by (simp add: chunks_step)
qed

lemma le_words_eq:
  "le_words v = [word_of_nat v, word_of_nat (v div 2 ^ 64), word_of_nat (v div 2 ^ 128), word_of_nat (v div 2 ^ 192)]"
proof -
  have "word_of_nat (be_nat (be_bytes 8 x)) = (word_of_nat x :: u64)" for x
    by (simp add: be_nat_be_bytes word_of_nat_eq_iff take_bit_eq_mod)
  then show ?thesis by (simp add: le_words_def felt_to_be_chunks)
qed

lemma le_words_nth: "k < 8 \<Longrightarrow> le_words v ! (k div 2) = word_of_nat (v div 2 ^ (64 * (k div 2)))"
proof -
  assume "k < 8"
  then have "k div 2 = 0 \<or> k div 2 = 1 \<or> k div 2 = 2 \<or> k div 2 = 3" by linarith
  then show ?thesis by (auto simp: le_words_eq)
qed

lemma unat_digit: "unat (drop_bit n (word_of_nat x :: u64) AND U32_MAX_LIMB) = x mod 2 ^ 64 div 2 ^ n mod 2 ^ 32"
proof -
  have m: "U32_MAX_LIMB = mask 32" by (simp add: U32_MAX_LIMB_def mask_eq_exp_minus_1)
  have "unat (drop_bit n (word_of_nat x :: u64) AND U32_MAX_LIMB) = take_bit 32 (drop_bit n (take_bit 64 x))"
    unfolding m take_bit_eq_mask [symmetric] unsigned_take_bit_eq unsigned_drop_bit_eq unsigned_of_nat by simp
  then show ?thesis by (simp only: take_bit_eq_mod drop_bit_eq_div)
qed

lemma value_limbs_eq:
  assumes "felt_ok v"
  shows "map unat (value_limbs v) = spec_limbs v"
proof -
  have v: "v < 2 ^ 256" using assms STARK_PRIME_lt_256 by (simp add: felt_ok_def)
  have zero: "(word_of_nat x :: u64) = 0 \<longleftrightarrow> x mod 2 ^ 64 = 0" for x
    using word_of_nat_eq_iff [of x 0, where 'a = 64] by (simp add: take_bit_eq_mod)
  have top: "v div 2 ^ 192 mod 2 ^ 64 = v div 2 ^ 192" using v by (simp add: less_mult_imp_div_less)
  have small: "v div 2 ^ 64 mod 2 ^ 64 = 0 \<and> v div 2 ^ 128 mod 2 ^ 64 = 0 \<and> v div 2 ^ 192 mod 2 ^ 64 = 0 \<longleftrightarrow> v < 2 ^ 64"
    (is "?zeros \<longleftrightarrow> _")
  proof
    assume ?zeros
    then have "v div 2 ^ 192 = 0" "v div 2 ^ 128 mod 2 ^ 64 = 0" "v div 2 ^ 64 mod 2 ^ 64 = 0" using top by simp_all
    moreover have "v div 2 ^ 128 div 2 ^ 64 = v div 2 ^ 192" "v div 2 ^ 64 div 2 ^ 64 = v div 2 ^ 128" by (simp_all add: div_mult2_eq [symmetric])
    ultimately have "v div 2 ^ 64 = 0" by (metis div_mult_mod_eq add_0 mult_0)
    then show "v < 2 ^ 64" by (simp add: div_eq_0_iff)
  next
    assume "v < 2 ^ 64"
    then show ?zeros by simp
  qed
  show ?thesis
  proof (cases "v < 2 ^ 64")
    case True
    then have w: "unat (word_of_nat v :: u64) = v" by (simp add: unsigned_of_nat take_bit_eq_mod)
    have "(word_of_nat v < FELT_ESCAPE_LIMB) \<longleftrightarrow> v < FELT_ESCAPE"
      using w by (simp add: word_less_nat_alt FELT_ESCAPE_LIMB_def FELT_ESCAPE_def)
    moreover have "unat (word_of_nat v AND U32_MAX_LIMB :: u64) = v mod 2 ^ 32" using unat_digit [of 0 v] True by simp
    moreover have "unat (drop_bit 32 (word_of_nat v :: u64)) = v div 2 ^ 32" using True by (simp only: unsigned_drop_bit_eq w) (simp add: take_bit_eq_mod drop_bit_eq_div)
    ultimately show ?thesis using small True w
      by (simp add: value_limbs_def le_words_eq spec_limbs_def zero U32_MAX_LIMB_def U64_ESCAPE_def Let_def)
  next
    case False
    have digit: "v div 2 ^ a mod 2 ^ 64 div 2 ^ b mod 2 ^ 32 = v div 2 ^ (a + b) mod 2 ^ 32" if "b \<le> 32" for a b
    proof -
      have "x mod 2 ^ 64 div 2 ^ b mod 2 ^ 32 = x div 2 ^ b mod 2 ^ 32" for x :: nat
      proof -
        have "take_bit 32 (drop_bit b (take_bit 64 x)) = take_bit 32 (drop_bit b x)" using that by (simp add: drop_bit_take_bit)
        then show ?thesis by (simp only: take_bit_eq_mod drop_bit_eq_div)
      qed
      then show ?thesis by (simp add: power_add div_mult2_eq)
    qed
    have limb: "unat (drop_bit (32 * (k mod 2)) (le_words v ! (k div 2)) AND U32_MAX_LIMB) = v div 2 ^ (32 * k) mod 2 ^ 32"
      if "k < 8" for k
    proof -
      have "64 * (k div 2) + 32 * (k mod 2) = 32 * k" using mult_div_mod_eq [of 2 k] by linarith
      moreover have "le_words v ! (k div 2) = word_of_nat (v div 2 ^ (64 * (k div 2)))" using that by (rule le_words_nth)
      ultimately show ?thesis using digit [of "32 * (k mod 2)" "64 * (k div 2)"] by (simp only: unat_digit)
    qed
    have "\<not> (le_words v ! 1 = 0 \<and> le_words v ! 2 = 0 \<and> le_words v ! 3 = 0)" using False small by (simp add: le_words_eq zero)
    then have "value_limbs v = FELT_ESCAPE_LIMB # map (\<lambda>k. drop_bit (32 * (k mod 2)) (le_words v ! (k div 2)) AND U32_MAX_LIMB) [0..<8]"
      unfolding value_limbs_def Let_def by (rule if_not_P)
    moreover have "map unat (map (\<lambda>k. drop_bit (32 * (k mod 2)) (le_words v ! (k div 2)) AND U32_MAX_LIMB) [0..<8])
        = map (\<lambda>k. v div 2 ^ (32 * k) mod 2 ^ 32) [0..<8]"
      unfolding map_map o_def by (rule map_cong [OF refl]) (simp only: limb set_upt atLeastLessThan_iff)
    ultimately have "map unat (value_limbs v) = FELT_ESCAPE # map (\<lambda>k. v div 2 ^ (32 * k) mod 2 ^ 32) [0..<8]"
      by (simp only: list.map) (simp add: FELT_ESCAPE_LIMB_def FELT_ESCAPE_def)
    then show ?thesis using False by (simp add: spec_limbs_def FELT_ESCAPE_def)
  qed
qed

section \<open>Slots\<close>

lemma slot_loop_eq:
  assumes "u32s (map unat ls)" and "slot < 2 ^ (32 * k)" and "k + length ls \<le> 7"
  shows "slot_loop slot (2 ^ (32 * k)) ls = slot + 2 ^ (32 * k) * le_sum (map unat ls)"
  using assms
proof (induction ls arbitrary: slot k)
  case (Cons l ls)
  have k: "k \<le> 6" using Cons.prems by simp
  have "unat l * 2 ^ (32 * k) + 2 ^ (32 * k) \<le> 2 ^ 32 * 2 ^ (32 * k)"
    using mult_right_mono [of "unat l + 1" "2 ^ 32" "2 ^ (32 * k)"] Cons.prems by simp
  also have "\<dots> = 2 ^ (32 * Suc k)" by (simp add: power_add)
  finally have room: "unat l * 2 ^ (32 * k) + 2 ^ (32 * k) \<le> 2 ^ (32 * Suc k)" .
  have top: "2 ^ (32 * Suc k) \<le> (2 :: nat) ^ 224" using k by (intro power_increasing) simp_all
  have step: "felt_add slot (felt_mul (unat l) (2 ^ (32 * k))) = slot + unat l * 2 ^ (32 * k)"
    using room top Cons.prems by (simp add: felt_mul_small felt_add_small)
  have shift: "felt_mul (2 ^ (32 * k)) (2 ^ 32) = 2 ^ (32 * Suc k)"
    using top by (simp add: felt_mul_small power_add)
  have "slot_loop slot (2 ^ (32 * k)) (l # ls) = slot_loop (slot + unat l * 2 ^ (32 * k)) (2 ^ (32 * Suc k)) ls"
    by (simp only: slot_loop.simps step shift)
  also have "\<dots> = slot + unat l * 2 ^ (32 * k) + 2 ^ (32 * Suc k) * le_sum (map unat ls)"
    using Cons.prems room by (intro Cons.IH) auto
  also have "\<dots> = slot + 2 ^ (32 * k) * le_sum (map unat (l # ls))" by (simp add: power_add distrib_left)
  finally show ?case .
qed simp

lemma pack_v2_eq:
  assumes "list_all felt_ok vs"
  shows "pack_v2 vs = map le_sum (chunks 7 (concat (map spec_limbs vs)))"
proof -
  have limbs: "map unat (concat (map value_limbs vs)) = concat (map spec_limbs vs)"
    using assms by (induction vs) (simp_all add: value_limbs_eq)
  have slot: "slot_loop 0 1 c = le_sum (map unat c)" if "u32s (map unat c)" "length c \<le> 7" for c
    using slot_loop_eq [of c 0 0] that by simp
  have "u32s (concat (map spec_limbs vs))" using spec_limbs_u32s by (induction vs) auto
  then have "map (slot_loop 0 1) (chunks 7 us) = map le_sum (chunks 7 (map unat us))"
    if "u32s (map unat us)" for us
    using that
  proof (induction "7 :: nat" us rule: chunks.induct)
    case (1 us)
    show ?case
    proof (cases "us = []")
      case False
      then show ?thesis using 1 u32s_take_drop [of "map unat us" 7]
        by (simp add: chunks_step slot take_map drop_map del: One_nat_def)
    qed simp
  qed
  then show ?thesis using \<open>u32s (concat (map spec_limbs vs))\<close> by (simp add: pack_v2_def limbs)
qed

section \<open>Reading a slot back\<close>

lemma slot_limbs_seven:
  assumes "length ls = 7" and "u32s ls"
  shows "slot_limbs (le_sum ls) = Inr ls"
proof -
  obtain a b c d e f g where ls: "ls = [a, b, c, d, e, f, g]"
    using assms(1) by (auto simp: numeral_eq_Suc length_Suc_conv)
  have u: "a < 2 ^ 32" "b < 2 ^ 32" "c < 2 ^ 32" "d < 2 ^ 32" "e < 2 ^ 32" "f < 2 ^ 32" "g < 2 ^ 32"
    using assms(2) by (simp_all add: ls)
  have low: "le_sum [a, b, c, d] < 2 ^ 128" using assms(2) le_sum_less [of "[a, b, c, d]"] by (simp add: ls)
  have split: "le_sum ls = le_sum [a, b, c, d] + 2 ^ 128 * le_sum [e, f, g]" by (simp add: ls)
  have parts: "le_sum ls mod 2 ^ 128 = le_sum [a, b, c, d]" "le_sum ls div 2 ^ 128 = le_sum [e, f, g]"
    unfolding split using low by (simp_all del: le_sum.simps)
  show ?thesis
    unfolding slot_limbs_def Let_def parts
    by (simp only: le_sum_mod_div le_sum_single u as_u32_def rmap.simps ensure_simps rbind_simps ls)
qed

lemma slot_limbs_chunk:
  assumes "length ls \<le> 7" and "u32s ls"
  shows "slot_limbs (le_sum ls) = Inr (ls @ replicate (7 - length ls) 0)"
  using slot_limbs_seven [of "ls @ replicate (7 - length ls) 0"] assms by (simp add: u32s_def ball_Un set_replicate_conv_if)

lemma slots_limbs:
  assumes "u32s ls"
  shows "\<exists>lss n. rmap slot_limbs (map le_sum (chunks 7 ls)) = Inr lss \<and> concat lss = ls @ replicate n 0"
  using assms
proof (induction "7 :: nat" ls rule: chunks.induct)
  case (1 ls)
  show ?case
  proof (cases "length ls \<le> 7")
    case True
    then show ?thesis using slot_limbs_chunk [OF True "1.prems"] by (cases "ls = []") (auto simp: chunks_step)
  next
    case False
    then have ne: "ls \<noteq> []" by auto
    obtain lss n where ih: "rmap slot_limbs (map le_sum (chunks 7 (drop 7 ls))) = Inr lss" "concat lss = drop 7 ls @ replicate n 0"
      using "1.hyps" ne u32s_take_drop [OF "1.prems", of 7] by auto
    have "slot_limbs (le_sum (take 7 ls)) = Inr (take 7 ls)"
      using False u32s_take_drop [OF "1.prems", of 7] by (intro slot_limbs_seven) auto
    then have "rmap slot_limbs (map le_sum (chunks 7 ls)) = Inr (take 7 ls # lss)" using ih(1) ne by (simp add: chunks_step)
    moreover have "concat (take 7 ls # lss) = ls @ replicate n 0" by (simp add: ih(2) append_assoc [symmetric] del: append_assoc)
    ultimately show ?thesis by blast
  qed
qed

lemma slots_small: "u32s ls \<Longrightarrow> list_all (\<lambda>slot. slot < 2 ^ 224) (map le_sum (chunks 7 ls))"
proof (induction "7 :: nat" ls rule: chunks.induct)
  case (1 ls)
  have "le_sum (take 7 ls) < 2 ^ (32 * length (take 7 ls))" using u32s_take_drop [OF "1.prems"] by (intro le_sum_less) simp
  also have "\<dots> \<le> 2 ^ 224" by (intro power_increasing) simp_all
  finally show ?case using "1.hyps" u32s_take_drop [OF "1.prems", of 7] by (cases "ls = []") (simp_all add: chunks_step)
qed

section \<open>Reading values back\<close>

lemma item_at_append [simp]: "item_at (pre @ l # post) (length pre) = Inr l"
  by (simp add: item_at_def)

lemma item_at_shift: "item_at (pre @ ls) (length pre + k) = item_at ls k"
  by (simp add: item_at_def nth_append)

lemma horner: "foldl (\<lambda>v l. v * 2 ^ 32 + l) a (rev ls) = a * 2 ^ (32 * length ls) + le_sum ls"
proof (induction ls arbitrary: a)
  case (Cons l ls)
  then show ?case by (simp add: power_add algebra_simps)
qed simp

lemma le_sum_digits:
  assumes "v < 2 ^ (32 * n)"
  shows "le_sum (map (\<lambda>k. v div 2 ^ (32 * k) mod 2 ^ 32) [0..<n]) = v"
  using assms
proof (induction n arbitrary: v)
  case (Suc n)
  have "map (\<lambda>k. v div 2 ^ (32 * k) mod 2 ^ 32) [0..<Suc n]
      = v mod 2 ^ 32 # map (\<lambda>k. v div 2 ^ 32 div 2 ^ (32 * k) mod 2 ^ 32) [0..<n]"
    by (simp add: map_upt_Suc power_add div_mult2_eq del: upt_Suc)
  moreover have "v div 2 ^ 32 < 2 ^ (32 * n)" using Suc.prems by (simp add: power_add less_mult_imp_div_less mult.commute)
  ultimately show ?case using Suc.IH [of "v div 2 ^ 32"] by simp
qed simp

text \<open>Folding modulo the prime from the top limb.\<close>

lemma horner_mod: "foldl (\<lambda>v l. felt_add (felt_mul v (2 ^ 32)) l) (a mod STARK_PRIME) ls
    = foldl (\<lambda>v l. v * 2 ^ 32 + l) a ls mod STARK_PRIME"
proof (induction ls arbitrary: a)
  case (Cons l ls)
  have "felt_add (felt_mul (a mod STARK_PRIME) (2 ^ 32)) l = (a * 2 ^ 32 + l) mod STARK_PRIME"
    by (simp add: felt_add_def felt_mul_def mod_simps)
  then show ?case using Cons.IH [of "a * 2 ^ 32 + l"] by simp
qed simp

lemma escapes_differ: "(FELT_ESCAPE = U64_ESCAPE) = False"
  by (simp add: FELT_ESCAPE_def U64_ESCAPE_def)

lemma unpack_literal:
  "item_at limbs i = Inr l \<Longrightarrow> l \<noteq> U64_ESCAPE \<Longrightarrow> l \<noteq> FELT_ESCAPE \<Longrightarrow>
   unpack_values limbs i (Suc n) = rbind (unpack_values limbs (i + 1) n) (\<lambda>vs. Inr (l # vs))"
  by simp

lemma unpack_pair:
  "item_at limbs i = Inr U64_ESCAPE \<Longrightarrow> item_at limbs (i + 1) = Inr lo \<Longrightarrow> item_at limbs (i + 2) = Inr hi \<Longrightarrow>
   unpack_values limbs i (Suc n)
   = rbind (unpack_values limbs (i + 3) n) (\<lambda>vs. Inr (felt_add lo (felt_mul hi (2 ^ 32)) # vs))"
  by (simp only: unpack_values.simps rbind_simps if_True simp_thms)

lemma unpack_full:
  "item_at limbs i = Inr FELT_ESCAPE \<Longrightarrow> rmap (\<lambda>k. item_at limbs (i + k)) (rev [1..<9]) = Inr ls \<Longrightarrow>
   unpack_values limbs i (Suc n)
   = rbind (unpack_values limbs (i + 9) n) (\<lambda>vs. Inr (foldl (\<lambda>v l. felt_add (felt_mul v (2 ^ 32)) l) 0 ls # vs))"
  by (simp only: unpack_values.simps rbind_simps if_True escapes_differ if_False simp_thms)

lemma unpack_one:
  assumes v: "felt_ok v" and ne: "spec_limbs v = ls"
  shows "unpack_values (pre @ ls @ post) (length pre) (Suc n)
    = rbind (unpack_values (pre @ ls @ post) (length (pre @ ls)) n) (\<lambda>vs. Inr (v # vs))"
proof -
  have at: "item_at (pre @ ls @ post) (length pre + k) = Inr (ls ! k)" if "k < length ls" for k
    using that by (simp add: item_at_shift) (simp add: item_at_def nth_append)
  consider (one) "v < FELT_ESCAPE" | (pair) "\<not> v < FELT_ESCAPE" "v < 2 ^ 64" | (full) "\<not> v < 2 ^ 64"
    by blast
  then show ?thesis
  proof cases
    case one
    then have "ls = [v]" using ne by (simp add: spec_limbs_def)
    then have "item_at (pre @ ls @ post) (length pre) = Inr v" using at [of 0] by simp
    from unpack_literal [OF this] one show ?thesis by (simp add: \<open>ls = [v]\<close> U64_ESCAPE_def FELT_ESCAPE_def)
  next
    case pair
    then have ls: "ls = [U64_ESCAPE, v mod 2 ^ 32, v div 2 ^ 32]" using ne by (simp add: spec_limbs_def)
    have hi: "v div 2 ^ 32 < 2 ^ 32" using pair by (simp add: less_mult_imp_div_less)
    have "felt_mul (v div 2 ^ 32) (2 ^ 32) = v div 2 ^ 32 * 2 ^ 32" using pair by (intro felt_mul_small) simp
    then have val: "felt_add (v mod 2 ^ 32) (felt_mul (v div 2 ^ 32) (2 ^ 32)) = v"
      using pair by (simp add: felt_add_small)
    have "item_at (pre @ ls @ post) (length pre) = Inr U64_ESCAPE"
      "item_at (pre @ ls @ post) (length pre + 1) = Inr (v mod 2 ^ 32)"
      "item_at (pre @ ls @ post) (length pre + 2) = Inr (v div 2 ^ 32)"
      using at [of 0] at [of 1] at [of 2] by (simp_all add: ls)
    moreover have "length (pre @ ls) = length pre + 3" by (simp add: ls)
    ultimately show ?thesis by (simp only: unpack_pair val)
  next
    case full
    let ?ds = "map (\<lambda>k. v div 2 ^ (32 * k) mod 2 ^ 32) [0..<8]"
    have ls: "ls = FELT_ESCAPE # ?ds" using ne full by (simp add: spec_limbs_def FELT_ESCAPE_def)
    have len: "length ls = 9" by (simp add: ls)
    have "rmap (\<lambda>k. item_at (pre @ ls @ post) (length pre + k)) (rev [1..<9]) = Inr (map (\<lambda>k. ls ! k) (rev [1..<9]))"
      by (intro rmap_Inr_map at) (auto simp: len)
    also have "map (\<lambda>k. ls ! k) (rev [1..<9]) = rev ?ds"
      by (simp add: ls rev_map [symmetric] upt_rec)
    finally have digits: "rmap (\<lambda>k. item_at (pre @ ls @ post) (length pre + k)) (rev [1..<9]) = Inr (rev ?ds)" .
    have "v < 2 ^ (32 * 8)" using v STARK_PRIME_lt_256 by (simp add: felt_ok_def)
    then have "foldl (\<lambda>v l. felt_add (felt_mul v (2 ^ 32)) l) 0 (rev ?ds) = v"
      using horner_mod [of 0 "rev ?ds"] horner [of 0 ?ds] le_sum_digits [of v 8] v by (simp add: felt_ok_def)
    moreover have "item_at (pre @ ls @ post) (length pre) = Inr FELT_ESCAPE" using at [of 0] by (simp add: ls)
    ultimately show ?thesis using unpack_full [OF _ digits] by (simp only: length_append len)
  qed
qed

lemma unpack_values_limbs:
  "list_all felt_ok vs \<Longrightarrow>
   unpack_values (pre @ concat (map spec_limbs vs) @ post) (length pre) (length vs) = Inr vs"
proof (induction vs arbitrary: pre)
  case (Cons v vs)
  then show ?case
    using unpack_one [of v "spec_limbs v" pre "concat (map spec_limbs vs) @ post" "length vs"] Cons.IH [of "pre @ spec_limbs v"]
    by simp
qed simp

lemma unpack_pack:
  assumes "list_all felt_ok vs"
  shows "unpack_proof_v2 (pack_v2 vs) (length vs) = Inr vs"
proof -
  have "u32s (concat (map spec_limbs vs))" using spec_limbs_u32s by (induction vs) auto
  then obtain lss n where "rmap slot_limbs (pack_v2 vs) = Inr lss" "concat lss = concat (map spec_limbs vs) @ replicate n 0"
    using slots_limbs pack_v2_eq [OF assms] by metis
  then show ?thesis using unpack_values_limbs [OF assms, of "[]" "replicate n 0"] by (simp add: unpack_proof_v2_def)
qed

text \<open>A section and its number of values are a codec of \<open>Serde\<close>: the facts of the locale hold of it.\<close>

interpretation packed: wire_codec "list_all felt_ok" "\<lambda>vs. (pack_v2 vs, length vs)" "\<lambda>(slots, n). unpack_proof_v2 slots n"
  by unfold_locales (simp add: unpack_pack)

section \<open>The contract's packer\<close>

lemma cairo_limbs_eq:
  assumes "felt_ok v"
  shows "cairo_limbs v = spec_limbs v"
proof -
  have split: "v div 2 ^ 128 = 0 \<longleftrightarrow> v < 2 ^ 128" by (simp add: div_eq_0_iff)
  consider (small) "v < 2 ^ 32" | (mid) "\<not> v < 2 ^ 32" "v < 2 ^ 64" | (big) "\<not> v < 2 ^ 64" by blast
  then show ?thesis
  proof cases
    case small
    then have "v < FELT_ESCAPE \<or> v = FELT_ESCAPE \<or> v = U64_ESCAPE" by (auto simp: FELT_ESCAPE_def U64_ESCAPE_def)
    then show ?thesis using small by (auto simp: cairo_limbs_def spec_limbs_def FELT_ESCAPE_def U64_ESCAPE_def Let_def)
  next
    case mid
    then show ?thesis by (simp add: cairo_limbs_def spec_limbs_def FELT_ESCAPE_def U64_ESCAPE_def Let_def)
  next
    case big
    have v: "v < 2 ^ 256" using assms STARK_PRIME_lt_256 by (simp add: felt_ok_def)
    have low: "v mod 2 ^ 128 div 2 ^ m mod 2 ^ 32 = v div 2 ^ m mod 2 ^ 32" if "m \<le> 96" for m
    proof -
      have "take_bit 32 (drop_bit m (take_bit 128 v)) = take_bit 32 (drop_bit m v)" using that by (simp add: drop_bit_take_bit)
      then show ?thesis by (simp only: take_bit_eq_mod drop_bit_eq_div)
    qed
    have last: "v mod 2 ^ 128 div 2 ^ 96 mod 2 ^ 32 = v mod 2 ^ 128 div 2 ^ 96" "v div 2 ^ 224 mod 2 ^ 32 = v div 2 ^ 224"
      using v by (simp_all add: less_mult_imp_div_less)
    have "cairo_limbs v = FELT_ESCAPE # [v mod 2 ^ 128 mod 2 ^ 32, v mod 2 ^ 128 div 2 ^ 32 mod 2 ^ 32, v mod 2 ^ 128 div 2 ^ 64 mod 2 ^ 32,
        v mod 2 ^ 128 div 2 ^ 96, v div 2 ^ 128 mod 2 ^ 32, v div 2 ^ 160 mod 2 ^ 32, v div 2 ^ 192 mod 2 ^ 32, v div 2 ^ 224]"
      using big by (auto simp: cairo_limbs_def Let_def div_mult2_eq [symmetric])
    also have "\<dots> = FELT_ESCAPE # map (\<lambda>k. v div 2 ^ (32 * k) mod 2 ^ 32) [0..<8]"
      using low [of 0] low [of 32] low [of 64] low [of 96] last by (simp add: upt_8)
    finally show ?thesis using big by (simp add: spec_limbs_def FELT_ESCAPE_def)
  qed
qed

lemma cairo_slot_loop:
  "cairo_slot (length ls) slot shift (map unat ls @ rest) = (slot_loop slot shift ls, rest)"
  by (induction ls arbitrary: slot shift) simp_all

lemma cairo_slot_pad: "cairo_slot k slot shift [] = (slot_loop slot shift (replicate k 0), [])"
  by (induction k arbitrary: slot shift) simp_all

lemma slot_loop_pad:
  assumes "u32s (map unat us)" and "length us + n \<le> 7"
  shows "slot_loop 0 1 (us @ replicate n 0) = slot_loop 0 1 us"
  using slot_loop_eq [of us 0 0] slot_loop_eq [of "us @ replicate n 0" 0 0] assms
  by (simp add: u32s_def ball_Un set_replicate_conv_if map_replicate del: One_nat_def)

lemma cairo_slot_short:
  "length us \<le> k \<Longrightarrow> cairo_slot k slot shift (map unat us) = (slot_loop slot shift (us @ replicate (k - length us) 0), [])"
proof (induction us arbitrary: k slot shift)
  case Nil
  then show ?case by (simp add: cairo_slot_pad)
next
  case (Cons u us)
  then show ?case by (cases k) simp_all
qed

lemma cairo_slots_eq: "u32s (map unat us) \<Longrightarrow> cairo_slots (map unat us) = map (slot_loop 0 1) (chunks 7 us)"
proof (induction "7 :: nat" us rule: chunks.induct)
  case (1 us)
  consider "us = []" | (short) "us \<noteq> []" "length us \<le> 7" | (long) "us \<noteq> []" "7 < length us" by linarith
  then show ?case
  proof cases
    case short
    have "cairo_slot 7 0 1 (map unat us) = (slot_loop 0 1 us, [])"
      using cairo_slot_short [OF short(2)] slot_loop_pad [OF "1.prems", of "7 - length us"] short(2) by simp
    then show ?thesis using short by (simp add: cairo_slots.simps [of "map unat us"] cairo_slots.simps [of "[]"] chunks_step)
  next
    case long
    have "cairo_slot (length (take 7 us)) 0 1 (map unat (take 7 us) @ map unat (drop 7 us)) = (slot_loop 0 1 (take 7 us), map unat (drop 7 us))"
      by (rule cairo_slot_loop)
    then have "cairo_slot 7 0 1 (map unat us) = (slot_loop 0 1 (take 7 us), map unat (drop 7 us))"
      using long by (simp flip: map_append)
    moreover have "u32s (map unat (drop 7 us))" using u32s_take_drop [OF "1.prems", of 7] by (simp add: drop_map)
    ultimately show ?thesis using long "1.hyps" by (simp add: cairo_slots.simps [of "map unat us"] chunks_step)
  qed (simp add: cairo_slots.simps)
qed

section \<open>Properties\<close>

text \<open>C36: what the bridge writes for a transaction is read back by the contract. For every list of
  felts, \<^verbatim>\<open>unpack_proof_v2\<close> on the slots of \<^verbatim>\<open>pack_v2\<close> and the number of values gives the list again,
  whatever values collide with the escape marks or need all eight limbs; no slot is past the seven
  limbs that the contract can cut without panicking.\<close>

theorem packed_section_reads_back:
  assumes "list_all felt_ok vs"
  shows "unpack_proof_v2 (pack_v2 vs) (length vs) = Inr vs \<and> list_all (\<lambda>slot. slot < 2 ^ 224) (pack_v2 vs)"
proof -
  have "u32s (concat (map spec_limbs vs))" using spec_limbs_u32s by (induction vs) auto
  then have "list_all (\<lambda>slot. slot < 2 ^ 224) (map le_sum (chunks 7 (concat (map spec_limbs vs))))"
    by (rule slots_small)
  then show ?thesis using packed.dec_enc [OF assms] by (simp add: pack_v2_eq [OF assms])
qed

theorem packed_section_reads_back_witness:
  "unpack_proof_v2 (pack_v2 [7, 0xFFFFFFFE, 2 ^ 64, STARK_PRIME - 1]) 4 = Inr [7, 0xFFFFFFFE, 2 ^ 64, STARK_PRIME - 1]"
proof -
  have "list_all felt_ok [7, 0xFFFFFFFE, 2 ^ 64, STARK_PRIME - 1]" by (simp add: felt_ok_def STARK_PRIME_def)
  moreover have "length [7, 0xFFFFFFFE, 2 ^ 64, STARK_PRIME - 1] = 4" by simp
  ultimately show ?thesis using packed_section_reads_back by metis
qed

text \<open>the two packers are one function. The bridge works on 64-bit words and shifts, the contract
  library on \<^verbatim>\<open>u256\<close> divisions and a zero-padded tail; on every list of felts they write the same slots.\<close>

theorem packers_agree:
  assumes "list_all felt_ok vs"
  shows "pack_v2 vs = cairo_pack_v2 vs"
proof -
  have limbs: "map unat (concat (map value_limbs vs)) = concat (map spec_limbs vs)"
    using assms by (induction vs) (simp_all add: value_limbs_eq)
  have cairo: "concat (map cairo_limbs vs) = concat (map spec_limbs vs)"
    using assms by (induction vs) (simp_all add: cairo_limbs_eq)
  have "u32s (concat (map spec_limbs vs))" using spec_limbs_u32s by (induction vs) auto
  then show ?thesis
    using cairo_slots_eq [of "concat (map value_limbs vs)"] by (simp add: pack_v2_def cairo_pack_v2_def limbs cairo)
qed

theorem packers_agree_witness: "pack_v2 [0xFFFFFFFF, 2 ^ 130] = cairo_pack_v2 [0xFFFFFFFF, 2 ^ 130]"
  by (rule packers_agree) (simp add: felt_ok_def STARK_PRIME_def)

end
