(* ===== verification/Decommit.thy ===== *)
theory Decommit
  imports Prelude
begin

text \<open>
  Openings of a Merkle commitment for a group of queries. \<^verbatim>\<open>synthesize_witness\<close> of the bridge
  (\<^verbatim>\<open>tools/privacy-prove-cairo-bridge/src/main.rs\<close>) replays a verifier's walk over a subset of the
  positions and takes the siblings it lacks from the nodes that the prover recorded for all of
  them; \<open>merkle_verify\<close> is the verifier of the chain (\<^verbatim>\<open>MerkleVerifier::verify\<close> of
  \<^verbatim>\<open>vendor/stwo_cairo_verifier\<close>), which consumes them from one queue. The hash of two nodes, the hash
  of a row and the map of preprocessed positions are third-party code, arguments here.
\<close>

unbundle bit_operations_syntax

section \<open>The bridge\<close>

type_synonym 'h layer = "nat \<Rightarrow> 'h option"

text \<open>One layer: the parents, and the siblings that were not among the positions.\<close>

fun walk_layer :: "'h layer \<Rightarrow> nat list \<Rightarrow> (nat list \<times> 'h list) res" where
  "walk_layer L [] = Inr ([], [])"
| "walk_layer L [pos] =
     rbind (of_opt (Decode BadShape) (L (pos XOR 1))) (\<lambda>h. Inr ([drop_bit 1 pos], [h]))"
| "walk_layer L (pos # next # rest) =
     (if next = pos XOR 1
      then rbind (walk_layer L rest) (\<lambda>(ps, w). Inr (drop_bit 1 pos # ps, w))
      else rbind (of_opt (Decode BadShape) (L (pos XOR 1))) (\<lambda>h.
           rbind (walk_layer L (next # rest)) (\<lambda>(ps, w). Inr (drop_bit 1 pos # ps, h # w))))"

fun walk :: "'h layer list \<Rightarrow> nat list \<Rightarrow> (nat list \<times> 'h list) res" where
  "walk [] positions = Inr (positions, [])"
| "walk (L # Ls) positions =
     rbind (walk_layer L positions) (\<lambda>(parents, w).
     rbind (walk Ls parents) (\<lambda>(ps, w'). Inr (ps, w @ w')))"

definition synthesize_witness :: "nat list \<Rightarrow> 'h layer list \<Rightarrow> 'h list res" where
  "synthesize_witness positions all_node_values =
     rbind (walk all_node_values positions) (\<lambda>(ps, w). ensure (length ps = 1) (Decode BadShape) (Inr w))"

definition sorted_dedup :: "nat list \<Rightarrow> nat list" where
  "sorted_dedup v = remdups_adj (sort v)"

definition tree_query_positions :: "(nat list \<Rightarrow> nat \<Rightarrow> nat \<Rightarrow> nat list) \<Rightarrow> nat \<Rightarrow> nat list \<Rightarrow> nat \<Rightarrow> nat \<Rightarrow> nat list" where
  "tree_query_positions prepare tree_index positions lifting_log_size pp_max_log_size =
     (if tree_index = 0 then sorted_dedup (prepare positions lifting_log_size pp_max_log_size) else positions)"

section \<open>The verifier of the chain\<close>

text \<open>Positions carry a marker bit above the height: a node whose parent would be 0 is the root.\<close>

function climb_queue :: "('h \<Rightarrow> 'h \<Rightarrow> 'h) \<Rightarrow> (nat \<times> 'h) list \<Rightarrow> 'h list \<Rightarrow> ('h \<times> 'h list) res" where
  "climb_queue H [] w = Inl Panic"
| "climb_queue H ((child, h) # queue) w =
     (let parent = child div 2
      in if parent = 0 then Inr (h, w)
         else if child mod 2 = 1 then (case w of [] \<Rightarrow> Inl Panic | s # w' \<Rightarrow> climb_queue H (queue @ [(parent, H s h)]) w')
         else (case queue of
             (p, s) # queue' \<Rightarrow>
               if p = child + 1 then climb_queue H (queue' @ [(parent, H h s)]) w
               else (case w of [] \<Rightarrow> Inl Panic | s # w' \<Rightarrow> climb_queue H (queue @ [(parent, H h s)]) w')
           | [] \<Rightarrow> (case w of [] \<Rightarrow> Inl Panic | s # w' \<Rightarrow> climb_queue H [(parent, H h s)] w')))"
  by pat_completeness auto
termination
  by (relation "measure (\<lambda>(H, queue, w). sum_list (map fst queue))") auto

declare climb_queue.simps(2) [simp del]

text \<open>The rows by position; two rows at one position must agree.\<close>

fun read_rows :: "nat \<Rightarrow> nat list \<Rightarrow> nat list \<Rightarrow> (nat \<Rightarrow> nat list option) \<Rightarrow> ((nat \<Rightarrow> nat list option) \<times> nat list) res" where
  "read_rows n [] vals m = Inr (m, vals)"
| "read_rows n (pos # ps) vals m =
     ensure (n \<le> length vals) Panic
       (ensure (m pos = None \<or> m pos = Some (take n vals)) Panic
          (read_rows n ps (drop n vals) (m(pos \<mapsto> take n vals))))"

definition merkle_verify ::
  "('h \<Rightarrow> 'h \<Rightarrow> 'h) \<Rightarrow> (nat list \<Rightarrow> 'h) \<Rightarrow> 'h \<Rightarrow> nat \<Rightarrow> nat \<Rightarrow> nat list \<Rightarrow> nat list \<Rightarrow> 'h list \<Rightarrow> unit res" where
  "merkle_verify H leaf root height n_columns query_positions queried_values witness =
     rbind (read_rows n_columns query_positions queried_values Map.empty) (\<lambda>(m, rest).
     ensure (rest = []) Panic
     (ensure (\<forall>p \<in> set query_positions. 2 ^ height + p < 2 ^ 32) Panic
     (rbind (climb_queue H (map (\<lambda>p. (2 ^ height + p, leaf (the (m p)))) (sorted_dedup query_positions)) witness) (\<lambda>(r, w).
      ensure (w = []) Panic (ensure (r = root) Panic (Inr ()))))))"

section \<open>The committed tree\<close>

fun tree_node :: "('h \<Rightarrow> 'h \<Rightarrow> 'h) \<Rightarrow> (nat \<Rightarrow> 'h) \<Rightarrow> nat \<Rightarrow> nat \<Rightarrow> 'h" where
  "tree_node H leaves 0 i = leaves i"
| "tree_node H leaves (Suc l) i = H (tree_node H leaves l (2 * i)) (tree_node H leaves l (2 * i + 1))"

text \<open>What the prover records: only nodes of the tree, and both children of every internal node on
  the way from a queried position to the root.\<close>

definition genuine :: "('h \<Rightarrow> 'h \<Rightarrow> 'h) \<Rightarrow> (nat \<Rightarrow> 'h) \<Rightarrow> 'h layer list \<Rightarrow> bool" where
  "genuine H leaves layers =
     (\<forall>l < length layers. \<forall>i v. (layers ! l) i = Some v \<longrightarrow> v = tree_node H leaves l i)"

definition covers :: "'h layer list \<Rightarrow> nat list \<Rightarrow> bool" where
  "covers layers positions =
     (\<forall>l < length layers. \<forall>p \<in> set positions.
        (layers ! l) (2 * (p div 2 ^ Suc l)) \<noteq> None \<and> (layers ! l) (2 * (p div 2 ^ Suc l) + 1) \<noteq> None)"

section \<open>One layer\<close>

lemma xor_1: "(p :: nat) XOR Suc 0 = (if even p then p + 1 else p - 1)"
  using xor_one_eq [of p] by simp

lemma half: "drop_bit (Suc 0) (p :: nat) = p div 2"
  by (simp add: drop_bit_Suc)

lemma half_children: "2 * (p div 2) = (if even p then p else p - 1)" for p :: nat
  by (auto elim!: evenE oddE)

lemma walk_layer_parents:
  "walk_layer L ps = Inr (parents, w) \<Longrightarrow> sorted_wrt (<) ps \<Longrightarrow>
   set parents = (\<lambda>p. p div 2) ` set ps \<and> sorted_wrt (<) parents"
proof (induction L ps arbitrary: parents w rule: walk_layer.induct)
  case (3 L pos nxt rest)
  note order = "3.prems"(2)
  show ?case
  proof (cases "nxt = pos XOR 1")
    case True
    then have "even pos" "nxt = pos + 1" using order by (auto simp: xor_1 split: if_splits)
    moreover obtain ps' w' where ih: "walk_layer L rest = Inr (ps', w')" "parents = pos div 2 # ps'"
      using "3.prems"(1) True by (auto simp: rbind_eq_Inr half split: prod.splits)
    moreover have "set ps' = (\<lambda>p. p div 2) ` set rest \<and> sorted_wrt (<) ps'"
      using "3.IH"(1) [OF True ih(1)] order by simp
    ultimately show ?thesis using order by (auto elim!: evenE)
  next
    case False
    obtain h ps' w' where ih: "walk_layer L (nxt # rest) = Inr (ps', w')" "parents = pos div 2 # ps'"
      using "3.prems"(1) False by (auto simp: res_inv half split: prod.splits)
    have "set ps' = (\<lambda>p. p div 2) ` set (nxt # rest) \<and> sorted_wrt (<) ps'"
      using "3.IH"(2) False ih(1) order by auto
    moreover have "pos div 2 < q div 2" if "q \<in> set (nxt # rest)" for q
    proof -
      have "nxt \<le> q" "pos < nxt" using that order by auto
      moreover have "pos div 2 < nxt div 2" using False \<open>pos < nxt\<close> by (auto simp: xor_1 elim!: evenE oddE split: if_splits)
      ultimately show ?thesis using div_le_mono [of nxt q 2] by linarith
    qed
    ultimately show ?thesis using ih(2) by auto
  qed
qed (auto simp: res_inv half)

text \<open>The layer as a queue: positions below \<open>2 ^ b\<close>, marked.\<close>

definition level_queue :: "('h \<Rightarrow> 'h \<Rightarrow> 'h) \<Rightarrow> (nat \<Rightarrow> 'h) \<Rightarrow> nat \<Rightarrow> nat \<Rightarrow> nat list \<Rightarrow> (nat \<times> 'h) list" where
  "level_queue H leaves b l ps = map (\<lambda>p. (2 ^ b + p, tree_node H leaves l p)) ps"

lemma level_queue_simps [simp]:
  "level_queue H leaves b l [] = []"
  "level_queue H leaves b l (p # ps) = (2 ^ b + p, tree_node H leaves l p) # level_queue H leaves b l ps"
  by (simp_all add: level_queue_def)

lemma marker_big: "b \<noteq> 0 \<Longrightarrow> 1 < 2 ^ b + (p :: nat)"
proof -
  assume "b \<noteq> 0"
  then have "(2 :: nat) ^ 1 \<le> 2 ^ b" by (intro power_increasing) auto
  then show ?thesis by simp
qed

lemma climb_odd:
  "1 < child \<Longrightarrow> odd child \<Longrightarrow>
   climb_queue H ((child, h) # queue) (s # w) = climb_queue H (queue @ [(child div 2, H s h)]) w"
  by (simp add: climb_queue.simps(2) odd_iff_mod_2_eq_one Let_def div_eq_0_iff)

lemma climb_two:
  "1 < child \<Longrightarrow> even child \<Longrightarrow>
   climb_queue H ((child, h) # (child + 1, s) # queue) w = climb_queue H (queue @ [(child div 2, H h s)]) w"
  by (simp add: climb_queue.simps(2) even_iff_mod_2_eq_zero Let_def div_eq_0_iff)

lemma climb_even:
  "1 < child \<Longrightarrow> even child \<Longrightarrow> (case queue of [] \<Rightarrow> True | (p, _) # _ \<Rightarrow> p \<noteq> child + 1) \<Longrightarrow>
   climb_queue H ((child, h) # queue) (s # w) = climb_queue H (queue @ [(child div 2, H h s)]) w"
  by (cases queue) (simp_all add: climb_queue.simps(2) even_iff_mod_2_eq_zero Let_def div_eq_0_iff split: prod.splits)

text \<open>A position alone, its sibling drawn from the witness; two siblings in a row.\<close>

lemma climb_lone:
  assumes "s = tree_node H leaves l (p XOR 1)" and "b \<noteq> 0"
    and "even p \<Longrightarrow> (case queue of [] \<Rightarrow> True | (q, _) # _ \<Rightarrow> q \<noteq> 2 ^ b + p + 1)"
  shows "climb_queue H ((2 ^ b + p, tree_node H leaves l p) # queue) (s # w)
       = climb_queue H (queue @ [(2 ^ (b - 1) + p div 2, tree_node H leaves (Suc l) (p div 2))]) w"
proof -
  obtain c where b: "b = Suc c" using assms(2) by (cases b) auto
  note big = marker_big [OF assms(2), of p]
  have par: "(2 ^ b + p) div 2 = 2 ^ c + p div 2" by (simp add: b)
  show ?thesis
  proof (cases "even p")
    case True
    moreover have "even (2 ^ b + p)" using True by (simp add: b)
    ultimately show ?thesis using climb_even [OF big] assms par by (auto simp: xor_1 b elim!: evenE)
  next
    case False
    moreover have "odd (2 ^ b + p)" using False by (simp add: b)
    ultimately show ?thesis using climb_odd [OF big] assms(1) par by (auto simp: xor_1 b elim!: oddE)
  qed
qed

lemma climb_pair:
  assumes "even p" and "b \<noteq> 0"
  shows "climb_queue H ((2 ^ b + p, tree_node H leaves l p) # (2 ^ b + (p + 1), tree_node H leaves l (p + 1)) # queue) w
       = climb_queue H (queue @ [(2 ^ (b - 1) + p div 2, tree_node H leaves (Suc l) (p div 2))]) w"
proof -
  obtain c where b: "b = Suc c" using assms(2) by (cases b) auto
  note big = marker_big [OF assms(2), of p]
  have "even (2 ^ b + p)" using assms(1) by (simp add: b)
  from climb_two [OF big this, of H "tree_node H leaves l p" "tree_node H leaves l (p + 1)" queue w]
  show ?thesis using assms(1) by (auto simp: b add.assoc elim!: evenE)
qed

lemma climb_layer:
  assumes "walk_layer L ps = Inr (parents, w)" and "sorted_wrt (<) ps" and "\<forall>p \<in> set ps. p < 2 ^ Suc b"
    and "\<And>i v. L i = Some v \<Longrightarrow> v = tree_node H leaves l i"
    and "\<forall>(q, _) \<in> set acc. q < 2 ^ Suc b"
  shows "climb_queue H (level_queue H leaves (Suc b) l ps @ acc) (w @ w')
       = climb_queue H (acc @ level_queue H leaves b (Suc l) parents) w'"
  using assms
proof (induction L ps arbitrary: parents w acc rule: walk_layer.induct)
  case (2 L pos)
  have far: "case acc of [] \<Rightarrow> True | (q, _) # _ \<Rightarrow> q \<noteq> 2 ^ Suc b + pos + 1" using "2.prems"(5) by (auto split: list.splits)
  obtain h where h: "L (pos XOR 1) = Some h" "parents = [pos div 2]" "w = [h]"
    using "2.prems"(1) by (auto simp: res_inv half)
  show ?case using climb_lone [OF "2.prems"(4) [OF h(1)], of "Suc b" acc w'] far h(2,3) by simp
next
  case (3 L pos nxt rest)
  let ?up = "(2 ^ b + pos div 2, tree_node H leaves (Suc l) (pos div 2))"
  have up: "\<forall>(q, _) \<in> set (acc @ [?up]). q < 2 ^ Suc b" using "3.prems"(3,5) by auto
  show ?case
  proof (cases "nxt = pos XOR 1")
    case True
    then have pair: "even pos" "nxt = pos + 1" using "3.prems"(2) by (auto simp: xor_1 split: if_splits)
    obtain ps' where ih: "walk_layer L rest = Inr (ps', w)" "parents = pos div 2 # ps'"
      using "3.prems"(1) True by (auto simp: rbind_eq_Inr half split: prod.splits)
    have "climb_queue H (level_queue H leaves (Suc b) l rest @ acc @ [?up]) (w @ w')
        = climb_queue H ((acc @ [?up]) @ level_queue H leaves b (Suc l) ps') w'"
      using "3.prems" by (intro "3.IH"(1) [OF True ih(1)] up) auto
    then show ?thesis
      using climb_pair [OF pair(1), of "Suc b" H leaves l "level_queue H leaves (Suc b) l rest @ acc" "w @ w'"]
      by (simp add: pair(2) ih(2))
  next
    case False
    obtain h ps' v where ih: "L (pos XOR 1) = Some h" "walk_layer L (nxt # rest) = Inr (ps', v)" "parents = pos div 2 # ps'" "w = h # v"
      using "3.prems"(1) False by (auto simp: res_inv half split: prod.splits)
    have "climb_queue H (level_queue H leaves (Suc b) l (nxt # rest) @ acc @ [?up]) (v @ w')
        = climb_queue H ((acc @ [?up]) @ level_queue H leaves b (Suc l) ps') w'"
      using "3.prems" by (intro "3.IH"(2) [OF False ih(2)] up) auto
    then show ?thesis
      using climb_lone [OF "3.prems"(4) [OF ih(1)], of "Suc b" "level_queue H leaves (Suc b) l (nxt # rest) @ acc" "v @ w'"] False
      by (simp add: ih(3,4) xor_1 split: if_splits)
  qed
qed simp

section \<open>From the leaves to the root\<close>

lemma layer_step:
  assumes "walk (L # Ls) ps = Inr (qs, w)" and "sorted_wrt (<) ps" and "\<forall>p \<in> set ps. p < 2 ^ length (L # Ls)"
  obtains parents w1 w2 where "walk_layer L ps = Inr (parents, w1)" "walk Ls parents = Inr (qs, w2)" "w = w1 @ w2"
    "set parents = (\<lambda>p. p div 2) ` set ps" "sorted_wrt (<) parents" "\<forall>p \<in> set parents. p < 2 ^ length Ls"
proof -
  obtain parents w1 w2 where step: "walk_layer L ps = Inr (parents, w1)" "walk Ls parents = Inr (qs, w2)" "w = w1 @ w2"
    using assms(1) by (auto simp: rbind_eq_Inr)
  moreover have "set parents = (\<lambda>p. p div 2) ` set ps" "sorted_wrt (<) parents" using walk_layer_parents [OF step(1) assms(2)] by auto
  ultimately show thesis using assms(3) by (intro that) (auto simp: less_mult_imp_div_less mult.commute)
qed

lemma walk_shape:
  "walk layers ps = Inr (qs, w) \<Longrightarrow> sorted_wrt (<) ps \<Longrightarrow> \<forall>p \<in> set ps. p < 2 ^ length layers \<Longrightarrow>
   sorted_wrt (<) qs \<and> (\<forall>p \<in> set qs. p = 0) \<and> (ps \<noteq> [] \<longrightarrow> qs \<noteq> [])"
proof (induction layers arbitrary: ps w)
  case (Cons L Ls)
  obtain parents w1 w2 where step: "walk Ls parents = Inr (qs, w2)"
    "set parents = (\<lambda>p. p div 2) ` set ps" "sorted_wrt (<) parents" "\<forall>p \<in> set parents. p < 2 ^ length Ls"
    using layer_step [OF Cons.prems] by metis
  then show ?case using Cons.IH [OF step(1,3,4)] by auto
qed auto

lemma climb_walk:
  assumes "walk layers ps = Inr (qs, w)" and "sorted_wrt (<) ps" and "\<forall>p \<in> set ps. p < 2 ^ length layers"
    and "\<And>k i v. k < length layers \<Longrightarrow> (layers ! k) i = Some v \<Longrightarrow> v = tree_node H leaves (l + k) i"
  shows "climb_queue H (level_queue H leaves (length layers) l ps) (w @ w')
       = climb_queue H (level_queue H leaves 0 (l + length layers) qs) w'"
  using assms
proof (induction layers arbitrary: ps l w)
  case (Cons L Ls)
  obtain parents w1 w2 where step: "walk_layer L ps = Inr (parents, w1)" "walk Ls parents = Inr (qs, w2)" "w = w1 @ w2"
    "set parents = (\<lambda>p. p div 2) ` set ps" "sorted_wrt (<) parents" "\<forall>p \<in> set parents. p < 2 ^ length Ls"
    using layer_step [OF Cons.prems(1-3)] by metis
  have "climb_queue H (level_queue H leaves (Suc (length Ls)) l ps @ []) (w1 @ w2 @ w')
      = climb_queue H ([] @ level_queue H leaves (length Ls) (Suc l) parents) (w2 @ w')"
    using Cons.prems(3) Cons.prems(4) [of 0] by (intro climb_layer [OF step(1) Cons.prems(2)]) auto
  moreover have "climb_queue H (level_queue H leaves (length Ls) (Suc l) parents) (w2 @ w')
       = climb_queue H (level_queue H leaves 0 (Suc l + length Ls) qs) w'"
    using Cons.prems(4) [of "Suc _"] by (intro Cons.IH [OF step(2,5,6)]) auto
  ultimately show ?case using step(3) by simp
qed simp

lemma strict_zeros: "sorted_wrt (<) qs \<Longrightarrow> \<forall>p \<in> set qs. p = (0 :: nat) \<Longrightarrow> qs \<noteq> [] \<Longrightarrow> qs = [0]"
  by (cases qs; cases "tl qs") auto

lemma witness_climbs:
  assumes "synthesize_witness ps layers = Inr w" and "sorted_wrt (<) ps" and "\<forall>p \<in> set ps. p < 2 ^ length layers"
    and "genuine H leaves layers"
  shows "climb_queue H (level_queue H leaves (length layers) 0 ps) w = Inr (tree_node H leaves (length layers) 0, [])"
proof -
  obtain qs where walk: "walk layers ps = Inr (qs, w)" "length qs = 1"
    using assms(1) by (auto simp: synthesize_witness_def res_inv)
  have "climb_queue H (level_queue H leaves (length layers) 0 ps) (w @ [])
      = climb_queue H (level_queue H leaves 0 (0 + length layers) qs) []"
    using assms by (intro climb_walk [OF walk(1)]) (auto simp: genuine_def)
  moreover have "qs = [0]" using walk_shape [OF walk(1) assms(2,3)] walk(2) by (intro strict_zeros) auto
  ultimately show ?thesis by (simp add: climb_queue.simps(2))
qed

section \<open>A subset finds every sibling\<close>

lemma walk_layer_total:
  "(\<forall>p \<in> set ps. L (2 * (p div 2)) \<noteq> None \<and> L (2 * (p div 2) + 1) \<noteq> None) \<Longrightarrow> \<exists>parents w. walk_layer L ps = Inr (parents, w)"
proof (induction L ps rule: walk_layer.induct)
  case (2 L pos)
  have "L (pos XOR 1) \<noteq> None" using "2.prems" by (cases "even pos") (auto simp: xor_1 half_children)
  then show ?case by auto
next
  case (3 L pos nxt rest)
  have "L (pos XOR 1) \<noteq> None" using "3.prems" by (cases "even pos") (auto simp: xor_1 half_children)
  then show ?case using "3.IH" "3.prems" by (cases "nxt = pos XOR 1") auto
qed simp

lemma walk_total:
  "covers layers ps \<Longrightarrow> sorted_wrt (<) ps \<Longrightarrow> \<exists>qs w. walk layers ps = Inr (qs, w)"
proof (induction layers arbitrary: ps)
  case (Cons L Ls)
  have "\<forall>p \<in> set ps. L (2 * (p div 2)) \<noteq> None \<and> L (2 * (p div 2) + 1) \<noteq> None"
    using Cons.prems(1) by (auto simp: covers_def dest: spec [of _ 0])
  then obtain parents w where step: "walk_layer L ps = Inr (parents, w)" using walk_layer_total by blast
  have par: "set parents = (\<lambda>p. p div 2) ` set ps" "sorted_wrt (<) parents" using walk_layer_parents [OF step Cons.prems(2)] by auto
  have "covers Ls parents"
    unfolding covers_def
  proof (intro allI impI ballI)
    fix l p assume l: "l < length Ls" and "p \<in> set parents"
    then obtain q where q: "q \<in> set ps" "p = q div 2" using par(1) by auto
    then have "q div 2 ^ Suc (Suc l) = p div 2 ^ Suc l" by (simp add: div_mult2_eq [symmetric])
    then show "(Ls ! l) (2 * (p div 2 ^ Suc l)) \<noteq> None \<and> (Ls ! l) (2 * (p div 2 ^ Suc l) + 1) \<noteq> None"
      using Cons.prems(1) l q(1) unfolding covers_def by (metis Suc_less_eq length_Cons nth_Cons_Suc)
  qed
  then obtain qs w' where "walk Ls parents = Inr (qs, w')" using Cons.IH par(2) by blast
  then show ?case using step by simp
qed simp

lemma covers_subset: "covers layers ps \<Longrightarrow> set qs \<subseteq> set ps \<Longrightarrow> covers layers qs"
  by (auto simp: covers_def)

lemma synthesize_total:
  assumes "covers layers ps" and "sorted_wrt (<) ps" and "ps \<noteq> []" and "\<forall>p \<in> set ps. p < 2 ^ length layers"
  shows "\<exists>w. synthesize_witness ps layers = Inr w"
proof -
  obtain qs w where walk: "walk layers ps = Inr (qs, w)" using walk_total [OF assms(1,2)] by blast
  have "sorted_wrt (<) qs \<and> (\<forall>p \<in> set qs. p = 0) \<and> (ps \<noteq> [] \<longrightarrow> qs \<noteq> [])"
    using walk_shape [OF walk assms(2,4)] by simp
  then have "qs = [0]" using assms(3) strict_zeros by blast
  then show ?thesis using walk by (simp add: synthesize_witness_def)
qed

section \<open>Sorted positions and their rows\<close>

lemma distinct_remdups_adj: "sorted xs \<Longrightarrow> distinct (remdups_adj (xs :: nat list))"
proof (induction xs rule: remdups_adj.induct)
  case (3 x y xs)
  then show ?case by (cases "x = y") auto
qed simp_all

lemma sorted_dedup_strict [simp]: "sorted_wrt (<) (sorted_dedup v)" "set (sorted_dedup v) = set v"
  by (auto simp: sorted_dedup_def strict_sorted_iff sorted_remdups_adj distinct_remdups_adj)

lemma sorted_dedup_id: "sorted_wrt (<) v \<Longrightarrow> sorted_dedup v = v"
  by (intro strict_sorted_equal) simp_all

lemma read_rows_ok:
  assumes "\<forall>p \<in> set ps. length (row p) = n" and "\<forall>p \<in> set ps. m p = None \<or> m p = Some (row p)"
  shows "\<exists>m'. read_rows n ps (concat (map row ps)) m = Inr (m', []) \<and> (\<forall>p \<in> set ps. m' p = Some (row p))
     \<and> (\<forall>p. p \<notin> set ps \<longrightarrow> m' p = m p)"
  using assms
proof (induction ps arbitrary: m)
  case (Cons p ps)
  have "\<forall>q \<in> set ps. (m(p \<mapsto> row p)) q = None \<or> (m(p \<mapsto> row p)) q = Some (row q)" using Cons.prems by auto
  moreover have "\<forall>q \<in> set ps. length (row q) = n" using Cons.prems(1) by simp
  ultimately obtain m' where m': "read_rows n ps (concat (map row ps)) (m(p \<mapsto> row p)) = Inr (m', [])"
    "\<forall>q \<in> set ps. m' q = Some (row q)" "\<forall>q. q \<notin> set ps \<longrightarrow> m' q = (m(p \<mapsto> row p)) q"
    using Cons.IH by blast
  have head: "m p = None \<or> m p = Some (row p)" "length (row p) = n" using Cons.prems by simp_all
  then have "read_rows n (p # ps) (concat (map row (p # ps))) m = Inr (m', [])" using m'(1) by auto
  moreover have "m' p = Some (row p)" using m'(2,3) by (cases "p \<in> set ps") simp_all
  ultimately show ?case using m'(2,3) by (intro exI [of _ m']) simp
qed simp

lemma witness_verifies:
  assumes nodes: "genuine H leaves layers" "covers layers positions" "length layers \<le> 31"
    and positions: "\<forall>p \<in> set positions. p < 2 ^ length layers"
    and queries: "qs \<noteq> []" "set qs \<subseteq> set positions"
    and rows: "\<forall>p \<in> set qs. length (row p) = n \<and> leaf (row p) = leaves p"
  shows "\<exists>w. synthesize_witness (sorted_dedup qs) layers = Inr w
       \<and> merkle_verify H leaf (tree_node H leaves (length layers) 0) (length layers) n qs (concat (map row qs)) w = Inr ()"
proof -
  let ?ps = "sorted_dedup qs"
  have strict: "sorted_wrt (<) ?ps" and sub: "set ?ps \<subseteq> set positions" and bound: "\<forall>p \<in> set ?ps. p < 2 ^ length layers"
    using positions queries(2) by auto
  have "?ps \<noteq> []" using queries(1) by (metis set_empty sorted_dedup_strict(2))
  then obtain w where w: "synthesize_witness ?ps layers = Inr w"
    using synthesize_total [OF covers_subset [OF nodes(2) sub] strict _ bound] by blast
  obtain m where m: "read_rows n qs (concat (map row qs)) Map.empty = Inr (m, [])" "\<forall>p \<in> set qs. m p = Some (row p)"
    using read_rows_ok [of qs row n Map.empty] rows by auto
  have "(2 :: nat) ^ length layers * 2 \<le> 2 ^ 32" using nodes(3) power_increasing [of "Suc (length layers)" 32 "2 :: nat"] by (simp add: mult.commute)
  then have u32: "\<forall>p \<in> set qs. 2 ^ length layers + p < (2 :: nat) ^ 32" using bound by fastforce
  have "map (\<lambda>p. (2 ^ length layers + p, leaf (the (m p)))) ?ps = level_queue H leaves (length layers) 0 ?ps"
    using m(2) rows by (simp add: level_queue_def)
  then show ?thesis
    using witness_climbs [OF w strict bound nodes(1)] w m(1) u32 by (simp add: merkle_verify_def)
qed

section \<open>Properties\<close>

text \<open>C37: a group of queries opens on its own. When the recorded nodes are nodes of the committed tree and
  hold both children of every node on the way from the queried positions to the root, the bridge
  finds a witness for every non-empty group of them (in any order, repeated or not), and the
  verifier of the chain accepts the group's rows with that witness: it consumes exactly the hashes
  written, in that order, and arrives at the committed root.\<close>

theorem group_witness_is_accepted:
  assumes nodes: "genuine H leaves layers" "covers layers positions" "length layers \<le> 31"
    and positions: "\<forall>p \<in> set positions. p < 2 ^ length layers"
    and queries: "qs \<noteq> []" "set qs \<subseteq> set positions"
    and rows: "\<forall>p \<in> set qs. length (row p) = n \<and> leaf (row p) = leaves p"
  shows "\<exists>w. synthesize_witness (sorted_dedup qs) layers = Inr w
       \<and> merkle_verify H leaf (tree_node H leaves (length layers) 0) (length layers) n qs (concat (map row qs)) w = Inr ()"
  using assms by (rule witness_verifies)

definition demo_hash :: "nat \<Rightarrow> nat \<Rightarrow> nat" where
  "demo_hash a b = (3 * a + 5 * b + 1) mod 101"

definition demo_layers :: "nat layer list" where
  "demo_layers = [\<lambda>i. if i < 4 then Some (tree_node demo_hash (\<lambda>i. i + 7) 0 i) else None,
                  \<lambda>i. if i < 2 then Some (tree_node demo_hash (\<lambda>i. i + 7) 1 i) else None]"

lemma all_less_two: "(\<forall>l < length demo_layers. P l) \<longleftrightarrow> P 0 \<and> P 1"
  by (auto simp: demo_layers_def less_Suc_eq)

theorem group_witness_is_accepted_witness:
  "\<exists>w. synthesize_witness (sorted_dedup [2, 1]) demo_layers = Inr w
     \<and> merkle_verify demo_hash hd (tree_node demo_hash (\<lambda>i. i + 7) 2 0) 2 1 [2, 1] [9, 8] w = Inr ()"
proof -
  have "genuine demo_hash (\<lambda>i. i + 7) demo_layers"
    unfolding genuine_def all_less_two by (simp add: demo_layers_def)
  moreover have "covers demo_layers [1, 2, 3]"
    unfolding covers_def all_less_two by (simp add: demo_layers_def)
  moreover have len: "length demo_layers = 2" by (simp add: demo_layers_def)
  ultimately show ?thesis
    using group_witness_is_accepted [of demo_hash "\<lambda>i. i + 7" demo_layers "[1, 2, 3]" "[2, 1]" "\<lambda>p. [p + 7]" 1 hd] by simp
qed

end
