(* ===== verification/Calldata.thy ===== *)
theory Calldata
  imports Pack Decommit Keychain
begin

text \<open>
  \<^verbatim>\<open>split_witness_impl\<close> and \<^verbatim>\<open>emit_calldata_impl\<close> of the bridge
  (\<^verbatim>\<open>tools/privacy-prove-cairo-bridge/src/main.rs\<close>): a proof cut into the files that the transactions
  of the on-chain verifier carry. The proof, its serialisation (\<^verbatim>\<open>CairoSerialize\<close>) and the
  transposition of its rows are third-party code: a \<open>cairo_proof\<close> holds the fields the bridge reads,
  with what it never looks into left abstract, and a \<open>serde\<close> holds the functions.

  A file is named by its role; the names printed (\<^verbatim>\<open>chunk_03.txt\<close>) differ when the roles or numbers do.
  \<open>io\<close> says which writes succeed. A felt file is the list of its felts, one hex number per line.
\<close>

section \<open>The proof and its serialisation\<close>

type_synonym mem_cell = "nat \<times> nat list"

record ('c, 'o, 'l, 'h) cairo_proof =
  pf_claim :: 'c
  pf_program :: "mem_cell list"
  pf_pow :: 'o
  pf_interaction :: 'o
  pf_config :: 'o
  pf_commitments :: 'o
  pf_sampled :: 'o
  pf_witnesses :: "'h list list"
  pf_queried :: "nat list list list"
  pf_nonce :: 'o
  pf_first :: 'l
  pf_inner :: "'l list"
  pf_last :: 'o
  pf_salt :: 'o
  pf_unsorted :: "nat list"
  pf_aux :: "'h layer list list"

record ('c, 'o, 'l, 'h) serde =
  sd_proof :: "('c, 'o, 'l, 'h) cairo_proof \<Rightarrow> felt list"
  sd_claim :: "'c \<Rightarrow> mem_cell list \<Rightarrow> felt list"
  sd_program :: "mem_cell list \<Rightarrow> felt list"
  sd_part :: "'o \<Rightarrow> felt list"
  sd_witnesses :: "'h list list \<Rightarrow> felt list"
  sd_rows :: "nat list list \<Rightarrow> felt list"
  sd_fri :: "'l \<Rightarrow> 'l list \<Rightarrow> 'o \<Rightarrow> felt list"
  sd_layer :: "'l \<Rightarrow> felt list"
  sd_layers :: "'l list \<Rightarrow> felt list"
  sd_commitment :: "'l \<Rightarrow> felt list"
  sd_inner_commitments :: "'l list \<Rightarrow> felt list"
  sd_hash :: "'h \<Rightarrow> felt list"
  sd_transpose :: "('c, 'o, 'l, 'h) cairo_proof \<Rightarrow> nat list list"
  sd_prepare :: "nat list \<Rightarrow> nat \<Rightarrow> nat \<Rightarrow> nat list"

text \<open>A hash in the felt files of \<^verbatim>\<open>split-witness\<close>: one felt, or eight words of 32 bits.\<close>

definition poseidon_hex_felts :: "felt \<Rightarrow> felt list" where
  "poseidon_hex_felts h = [h]"

definition blake_hex_felts :: "bytes \<Rightarrow> felt list" where
  "blake_hex_felts h = map (\<lambda>c. be_nat (rev c)) (chunks 4 h)"

text \<open>\<^verbatim>\<open>FieldElement::from\<close> of a \<^verbatim>\<open>usize\<close> or \<^verbatim>\<open>u32\<close>.\<close>

definition num_felt :: "nat \<Rightarrow> felt" where
  "num_felt n = n mod STARK_PRIME"

definition slice :: "'a list \<Rightarrow> nat \<Rightarrow> nat \<Rightarrow> 'a list res" where
  "slice xs a b = ensure (a \<le> b \<and> b \<le> length xs) Panic (Inr (take (b - a) (drop a xs)))"

section \<open>Checks shared by the two commands\<close>

text \<open>The witness synthesised for all the queries must be the proof's own.\<close>

definition check_tree :: "('c, 'o, 'l, 'h) serde \<Rightarrow> ('c, 'o, 'l, 'h) cairo_proof \<Rightarrow> nat list \<Rightarrow> nat \<Rightarrow> nat \<Rightarrow> nat \<Rightarrow> unit res" where
  "check_tree S p positions lifting pp tree_index =
     rbind (item_at (pf_aux p) tree_index) (\<lambda>layers.
     rbind (synthesize_witness (tree_query_positions (sd_prepare S) tree_index positions lifting pp) layers) (\<lambda>synthesized.
     rbind (item_at (pf_witnesses p) tree_index) (\<lambda>expected.
       ensure (synthesized = expected) (File NotMatching) (Inr ()))))"

definition tree_heights :: "('c, 'o, 'l, 'h) cairo_proof \<Rightarrow> nat list" where
  "tree_heights p = map length (pf_aux p)"

definition strides :: "('c, 'o, 'l, 'h) cairo_proof \<Rightarrow> nat list" where
  "strides p = map length (pf_queried p)"

text \<open>\<^verbatim>\<open>n_queries.div_ceil(group_size)\<close>; a division by zero panics.\<close>

definition group_count :: "nat \<Rightarrow> nat \<Rightarrow> nat res" where
  "group_count n_queries group_size =
     ensure (group_size \<noteq> 0) Panic (Inr ((n_queries + group_size - 1) div group_size))"

definition group_bounds :: "nat \<Rightarrow> nat \<Rightarrow> nat \<Rightarrow> nat \<times> nat" where
  "group_bounds n_queries group_size g = (g * group_size, min (g * group_size + group_size) n_queries)"

definition group_positions :: "nat list \<Rightarrow> nat \<Rightarrow> nat \<Rightarrow> nat list" where
  "group_positions positions group_size g =
     (case group_bounds (length positions) group_size g of (start, stop) \<Rightarrow> take (stop - start) (drop start positions))"

text \<open>The rows of a group, tree by tree, and its witnesses.\<close>

definition group_rows :: "('c, 'o, 'l, 'h) serde \<Rightarrow> ('c, 'o, 'l, 'h) cairo_proof \<Rightarrow> nat \<Rightarrow> nat \<Rightarrow> nat list list res" where
  "group_rows S p start stop =
     rmap (\<lambda>(tree_index, stride).
       rbind (item_at (sd_transpose S p) tree_index) (\<lambda>values. slice values (start * stride) (stop * stride)))
     (enumerate 0 (strides p))"

definition group_witnesses ::
  "('c, 'o, 'l, 'h) serde \<Rightarrow> ('c, 'o, 'l, 'h) cairo_proof \<Rightarrow> nat list \<Rightarrow> nat \<Rightarrow> nat \<Rightarrow> 'h list list res" where
  "group_witnesses S p group_pos lifting pp =
     rmap (\<lambda>tree_index.
       rbind (item_at (pf_aux p) tree_index) (\<lambda>layers.
         synthesize_witness (tree_query_positions (sd_prepare S) tree_index group_pos lifting pp) layers))
     [0..<length (pf_witnesses p)]"

section \<open>Files\<close>

datatype calldata_file =
    Head_File | Sampled_File | Fri_Head_File | Fri_Layers_File nat | Chunk_File nat
  | Rows_File nat | Witnesses_File nat | Split_File nat | Manifest_File | Out_Dir

record packed_entry =
  en_file :: calldata_file
  en_values :: nat
  en_slots :: nat

record call_manifest =
  man_program_len :: nat
  man_chunk_entries :: nat
  man_group_size :: nat
  man_head :: packed_entry
  man_sampled :: packed_entry
  man_fri_head :: packed_entry
  man_fri_layers :: "packed_entry list"
  man_chunks :: "packed_entry list"
  man_groups :: "(packed_entry \<times> packed_entry) list"

record out_dir =
  out_files :: "calldata_file \<Rightarrow> felt list option"
  out_manifest :: "call_manifest option"

definition write_felts :: "(calldata_file \<Rightarrow> bool) \<Rightarrow> calldata_file \<Rightarrow> felt list \<Rightarrow> (out_dir, unit) st" where
  "write_felts io name felts o1 =
     (if io name then (o1\<lparr>out_files := (out_files o1)(name \<mapsto> felts)\<rparr>, Inr ()) else (o1, Inl (File IoError)))"

definition write_packed :: "(calldata_file \<Rightarrow> bool) \<Rightarrow> calldata_file \<Rightarrow> felt list \<Rightarrow> (out_dir, packed_entry) st" where
  "write_packed io name vs =
     (let packed = pack_v2 vs
      in sbind (write_felts io name packed) (\<lambda>_.
           sret \<lparr>en_file = name, en_values = length vs, en_slots = length packed\<rparr>))"

definition create_dir :: "(calldata_file \<Rightarrow> bool) \<Rightarrow> (out_dir, unit) st" where
  "create_dir io = slift (ensure (io Out_Dir) (File IoError) (Inr ()))"

fun each_step :: "('a \<Rightarrow> ('s, 'b) st) \<Rightarrow> 'a list \<Rightarrow> ('s, 'b list) st" where
  "each_step f [] = sret []"
| "each_step f (x # xs) = sbind (f x) (\<lambda>y. sbind (each_step f xs) (\<lambda>ys. sret (y # ys)))"

section \<open>split-witness\<close>

definition split_group_felts ::
  "('h \<Rightarrow> felt list) \<Rightarrow> nat \<Rightarrow> nat \<Rightarrow> nat \<Rightarrow> 'h list list \<Rightarrow> nat list list \<Rightarrow> felt list" where
  "split_group_felts hex start stop n_trees witnesses rows =
     [start, stop - start, n_trees] @ concat (map (\<lambda>w. length w # concat (map hex w)) witnesses)
     @ [n_trees] @ concat (map (\<lambda>r. length r # r) rows)"

definition split_one ::
  "(calldata_file \<Rightarrow> bool) \<Rightarrow> ('h \<Rightarrow> felt list) \<Rightarrow> ('c, 'o, 'l, 'h) serde \<Rightarrow> ('c, 'o, 'l, 'h) cairo_proof
   \<Rightarrow> nat list \<Rightarrow> nat \<Rightarrow> nat \<Rightarrow> nat \<Rightarrow> nat \<Rightarrow> (out_dir, unit) st" where
  "split_one io hex S p positions group_size lifting pp g =
     (case group_bounds (length positions) group_size g of (start, stop) \<Rightarrow>
        sbind (slift (slice positions start stop)) (\<lambda>group_pos.
        sbind (slift (group_witnesses S p group_pos lifting pp)) (\<lambda>ws.
        sbind (slift (group_rows S p start stop)) (\<lambda>rows.
          write_felts io (Split_File g) (split_group_felts hex start stop (length (pf_witnesses p)) ws rows)))))"

definition split_witness_impl ::
  "(calldata_file \<Rightarrow> bool) \<Rightarrow> ('h \<Rightarrow> felt list) \<Rightarrow> ('c, 'o, 'l, 'h) serde \<Rightarrow> ('c, 'o, 'l, 'h) cairo_proof \<Rightarrow> nat
   \<Rightarrow> (out_dir, unit) st" where
  "split_witness_impl io hex S p group_size =
     sbind (slift (ensure (length (pf_witnesses p) = 4 \<and> length (pf_aux p) = 4) (Decode BadShape) (Inr ()))) (\<lambda>_.
     (let positions = sorted_dedup (pf_unsorted p); heights = tree_heights p
      in sbind (slift (ensure (heights ! 2 = heights ! 1 \<and> heights ! 3 = heights ! 1) (Decode BadShape) (Inr ()))) (\<lambda>_.
         sbind (slift (rmap (check_tree S p positions (heights ! 1) (heights ! 0)) [0..<4])) (\<lambda>_.
         sbind (create_dir io) (\<lambda>_.
         sbind (slift (group_count (length positions) group_size)) (\<lambda>n_groups.
         sbind (each_step (split_one io hex S p positions group_size (heights ! 1) (heights ! 0)) [0..<n_groups]) (\<lambda>_.
           sret ())))))))"

section \<open>emit-calldata\<close>

definition HEAD_PROGRAM_ENTRIES :: nat where
  "HEAD_PROGRAM_ENTRIES = 6"

definition MAX_LAYER_CHUNK_SLOTS :: nat where
  "MAX_LAYER_CHUNK_SLOTS = 4300"

definition claim_felts :: "('c, 'o, 'l, 'h) serde \<Rightarrow> ('c, 'o, 'l, 'h) cairo_proof \<Rightarrow> felt list" where
  "claim_felts S p = sd_claim S (pf_claim p) (pf_program p)"

definition mid_felts :: "('c, 'o, 'l, 'h) serde \<Rightarrow> ('c, 'o, 'l, 'h) cairo_proof \<Rightarrow> felt list" where
  "mid_felts S p = sd_part S (pf_pow p) @ sd_part S (pf_interaction p) @ sd_part S (pf_config p) @ sd_part S (pf_commitments p)"

definition fri_felts :: "('c, 'o, 'l, 'h) serde \<Rightarrow> ('c, 'o, 'l, 'h) cairo_proof \<Rightarrow> felt list" where
  "fri_felts S p = sd_fri S (pf_first p) (pf_inner p) (pf_last p)"

definition sections :: "('c, 'o, 'l, 'h) serde \<Rightarrow> ('c, 'o, 'l, 'h) cairo_proof \<Rightarrow> felt list list" where
  "sections S p =
     [claim_felts S p, mid_felts S p, sd_part S (pf_sampled p), sd_witnesses S (pf_witnesses p),
      sd_rows S (sd_transpose S p), sd_part S (pf_nonce p), fri_felts S p, sd_part S (pf_salt p)]"

definition head_felts :: "('c, 'o, 'l, 'h) serde \<Rightarrow> ('c, 'o, 'l, 'h) cairo_proof \<Rightarrow> felt list" where
  "head_felts S p =
     sd_claim S (pf_claim p) (take HEAD_PROGRAM_ENTRIES (pf_program p)) @ mid_felts S p
     @ sd_part S (pf_nonce p) @ sd_part S (pf_salt p)"

text \<open>\<^verbatim>\<open>while offset != program_len\<close>: the entries of each chunk. \<open>None\<close> is the loop that never ends.\<close>

partial_function (option) program_chunks :: "mem_cell list \<Rightarrow> nat \<Rightarrow> nat \<Rightarrow> mem_cell list list option" where
  "program_chunks program chunk_entries offset =
     (if offset = length program then Some []
      else Option.bind (program_chunks program chunk_entries (offset + min chunk_entries (length program - offset)))
             (\<lambda>cs. Some (take (min chunk_entries (length program - offset)) (drop offset program) # cs)))"

text \<open>The length prefix of a chunk is dropped; \<^verbatim>\<open>chunk[1..]\<close> panics on an empty slice.\<close>

definition drop_prefix :: "felt list \<Rightarrow> felt list res" where
  "drop_prefix felts = ensure (felts \<noteq> []) Panic (Inr (tl felts))"

definition chunk_streams :: "('c, 'o, 'l, 'h) serde \<Rightarrow> mem_cell list \<Rightarrow> mem_cell list list \<Rightarrow> felt list list res" where
  "chunk_streams S program cells =
     (let program_felts = sd_program S program; streams = map (sd_program S) cells
      in rbind (item_at program_felts 0) (\<lambda>len.
         rbind (rmap drop_prefix streams) (\<lambda>tails.
           ensure (len # concat tails = program_felts) (File NotMatching) (Inr streams))))"

text \<open>The greedy cut of the FRI layers under the budget of packed slots.\<close>

fun cut_layers :: "('c, 'o, 'l, 'h) serde \<Rightarrow> 'l list \<Rightarrow> 'l list \<Rightarrow> 'l list list" where
  "cut_layers S current [] = [current]"
| "cut_layers S current (layer # layers) =
     (let candidate = current @ [layer]
      in if length (pack_v2 (sd_layers S candidate)) \<le> MAX_LAYER_CHUNK_SLOTS then cut_layers S candidate layers
         else current # cut_layers S [layer] layers)"

definition fri_head_felts :: "('c, 'o, 'l, 'h) serde \<Rightarrow> ('c, 'o, 'l, 'h) cairo_proof \<Rightarrow> felt list" where
  "fri_head_felts S p = sd_commitment S (pf_first p) @ sd_inner_commitments S (pf_inner p) @ sd_part S (pf_last p)"

definition reassembled :: "('c, 'o, 'l, 'h) serde \<Rightarrow> ('c, 'o, 'l, 'h) cairo_proof \<Rightarrow> felt list" where
  "reassembled S p = sd_layer S (pf_first p) @ sd_layers S (pf_inner p) @ sd_part S (pf_last p)"

definition rows_felts :: "nat \<Rightarrow> nat list list \<Rightarrow> felt list" where
  "rows_felts n_trees rows = num_felt n_trees # concat (map (\<lambda>r. num_felt (length r) # map num_felt r) rows)"

definition witnesses_felts :: "('c, 'o, 'l, 'h) serde \<Rightarrow> nat \<Rightarrow> 'h list list \<Rightarrow> felt list" where
  "witnesses_felts S n_trees ws = num_felt n_trees # concat (map (\<lambda>w. num_felt (length w) # concat (map (sd_hash S) w)) ws)"

definition emit_group ::
  "(calldata_file \<Rightarrow> bool) \<Rightarrow> ('c, 'o, 'l, 'h) serde \<Rightarrow> ('c, 'o, 'l, 'h) cairo_proof
   \<Rightarrow> nat list \<Rightarrow> nat \<Rightarrow> nat \<Rightarrow> nat \<Rightarrow> nat \<Rightarrow> (out_dir, packed_entry \<times> packed_entry) st" where
  "emit_group io S p positions group_size lifting pp g =
     (case group_bounds (length positions) group_size g of (start, stop) \<Rightarrow>
        sbind (slift (slice positions start stop)) (\<lambda>group_pos.
        sbind (slift (group_rows S p start stop)) (\<lambda>rows.
        sbind (slift (group_witnesses S p group_pos lifting pp)) (\<lambda>ws.
        sbind (write_packed io (Rows_File g) (rows_felts (length (pf_witnesses p)) rows)) (\<lambda>e1.
        sbind (write_packed io (Witnesses_File g) (witnesses_felts S (length (pf_witnesses p)) ws)) (\<lambda>e2.
          sret (e1, e2)))))))"

text \<open>Everything after the program was cut.\<close>

definition emit_files ::
  "(calldata_file \<Rightarrow> bool) \<Rightarrow> ('c, 'o, 'l, 'h) serde \<Rightarrow> ('c, 'o, 'l, 'h) cairo_proof \<Rightarrow> nat \<Rightarrow> nat
   \<Rightarrow> mem_cell list list \<Rightarrow> (out_dir, unit) st" where
  "emit_files io S p chunk_entries group_size cells =
     sbind (slift (chunk_streams S (pf_program p) cells)) (\<lambda>streams.
     (let positions = sorted_dedup (pf_unsorted p); heights = tree_heights p
      in sbind (slift (item_at heights 1)) (\<lambda>lifting.
         sbind (slift (item_at heights 0)) (\<lambda>pp.
         sbind (slift (rmap (check_tree S p positions lifting pp) [0..<length (pf_witnesses p)])) (\<lambda>_.
         sbind (create_dir io) (\<lambda>_.
         sbind (write_packed io Head_File (head_felts S p)) (\<lambda>head.
         sbind (write_packed io Sampled_File (sd_part S (pf_sampled p))) (\<lambda>sampled.
         sbind (slift (ensure (reassembled S p = fri_felts S p) (File NotMatching) (Inr ()))) (\<lambda>_.
         sbind (write_packed io Fri_Head_File (fri_head_felts S p)) (\<lambda>fri_head.
         sbind (each_step (\<lambda>(i, c). write_packed io (Fri_Layers_File i) c)
                  (enumerate 0 (map (sd_layers S) (cut_layers S [pf_first p] (pf_inner p))))) (\<lambda>fri_layers.
         sbind (each_step (\<lambda>(i, c). write_packed io (Chunk_File i) c) (enumerate 0 streams)) (\<lambda>chunk_entries_written.
         sbind (slift (group_count (length positions) group_size)) (\<lambda>n_groups.
         sbind (each_step (emit_group io S p positions group_size lifting pp) [0..<n_groups]) (\<lambda>written.
         sbind (write_felts io Manifest_File []) (\<lambda>_.
           smodify (\<lambda>o1. o1\<lparr>out_manifest := Some
             \<lparr>man_program_len = length (pf_program p), man_chunk_entries = chunk_entries, man_group_size = group_size,
              man_head = head, man_sampled = sampled, man_fri_head = fri_head, man_fri_layers = fri_layers,
              man_chunks = chunk_entries_written, man_groups = written\<rparr>\<rparr>))))))))))))))))"

definition emit_calldata_impl ::
  "(calldata_file \<Rightarrow> bool) \<Rightarrow> ('c, 'o, 'l, 'h) serde \<Rightarrow> ('c, 'o, 'l, 'h) cairo_proof \<Rightarrow> nat \<Rightarrow> nat
   \<Rightarrow> out_dir \<Rightarrow> (out_dir \<times> unit res) option" where
  "emit_calldata_impl io S p chunk_entries group_size o1 =
     (if concat (sections S p) \<noteq> sd_proof S p then Some (o1, Inl (File NotMatching))
      else map_option (\<lambda>cells. emit_files io S p chunk_entries group_size cells o1)
             (program_chunks (pf_program p) chunk_entries 0))"

text \<open>\<^verbatim>\<open>split_witness\<close> and \<^verbatim>\<open>emit_calldata\<close>: the flag \<^verbatim>\<open>--blake\<close> chooses the proof type the file is read as.\<close>

definition split_witness ::
  "(calldata_file \<Rightarrow> bool) \<Rightarrow> ('c, 'o, 'l, felt) serde \<Rightarrow> ('c, 'o, 'k, bytes) serde
   \<Rightarrow> ('c, 'o, 'l, felt) cairo_proof res \<Rightarrow> ('c, 'o, 'k, bytes) cairo_proof res \<Rightarrow> nat \<Rightarrow> bool \<Rightarrow> (out_dir, unit) st" where
  "split_witness io SP SB as_poseidon as_blake group_size blake =
     (if blake then sbind (slift as_blake) (\<lambda>p. split_witness_impl io blake_hex_felts SB p group_size)
      else sbind (slift as_poseidon) (\<lambda>p. split_witness_impl io poseidon_hex_felts SP p group_size))"

definition emit_calldata ::
  "(calldata_file \<Rightarrow> bool) \<Rightarrow> ('c, 'o, 'l, felt) serde \<Rightarrow> ('c, 'o, 'k, bytes) serde
   \<Rightarrow> ('c, 'o, 'l, felt) cairo_proof res \<Rightarrow> ('c, 'o, 'k, bytes) cairo_proof res \<Rightarrow> nat \<Rightarrow> nat \<Rightarrow> bool
   \<Rightarrow> out_dir \<Rightarrow> (out_dir \<times> unit res) option" where
  "emit_calldata io SP SB as_poseidon as_blake chunk_entries group_size blake o1 =
     (if blake then (case as_blake of Inl e \<Rightarrow> Some (o1, Inl e) | Inr p \<Rightarrow> emit_calldata_impl io SB p chunk_entries group_size o1)
      else (case as_poseidon of Inl e \<Rightarrow> Some (o1, Inl e) | Inr p \<Rightarrow> emit_calldata_impl io SP p chunk_entries group_size o1))"

section \<open>The program is cut, or the loop never ends\<close>

lemma program_chunks_moves:
  assumes "program_chunks program ce offset = Some cs"
  shows "ce = 0 \<longrightarrow> offset = length program"
  using _ assms
  by (rule program_chunks.raw_induct [where P = "\<lambda>program ce offset cs. ce = 0 \<longrightarrow> offset = length program"])
     (fastforce split: if_splits bind_splits)

lemma program_chunks_zero: "offset \<noteq> length program \<Longrightarrow> program_chunks program 0 offset = None"
  using program_chunks_moves [of program 0 offset] by (cases "program_chunks program 0 offset") auto

lemma program_chunks_eq:
  "0 < ce \<Longrightarrow> offset \<le> length program \<Longrightarrow> program_chunks program ce offset = Some (chunks ce (drop offset program))"
proof (induction "length program - offset" arbitrary: offset rule: less_induct)
  case less
  show ?case
  proof (cases "offset = length program")
    case True
    then show ?thesis by (simp add: program_chunks.simps)
  next
    case False
    let ?n = "min ce (length program - offset)"
    have "drop ?n (drop offset program) = drop ce (drop offset program)" by (simp add: min_def)
    moreover have "take ?n (drop offset program) = take ce (drop offset program)" by (simp add: min_def)
    moreover have "program_chunks program ce (offset + ?n) = Some (chunks ce (drop (offset + ?n) program))"
      using False less.prems by (intro less.hyps) auto
    ultimately show ?thesis
      using False less.prems by (simp add: program_chunks.simps [of program ce offset] chunks_step add.commute)
  qed
qed

lemma chunks_le: "0 < n \<Longrightarrow> c \<in> set (chunks n xs) \<Longrightarrow> c \<noteq> [] \<and> length c \<le> n"
proof (induction n xs rule: chunks.induct)
  case (1 n xs)
  then show ?case by (cases "xs = []") (auto simp: chunks_step)
qed

section \<open>The layers are cut under the budget\<close>

lemma cut_layers_concat: "concat (cut_layers S current layers) = current @ layers"
  by (induction S current layers rule: cut_layers.induct) (simp_all add: Let_def)

lemma cut_layers_fit:
  "length current = 1 \<or> length (pack_v2 (sd_layers S current)) \<le> MAX_LAYER_CHUNK_SLOTS \<Longrightarrow> ls \<in> set (cut_layers S current layers) \<Longrightarrow>
   length ls = 1 \<or> length (pack_v2 (sd_layers S ls)) \<le> MAX_LAYER_CHUNK_SLOTS"
proof (induction S current layers rule: cut_layers.induct)
  case (2 S current layer layers)
  then show ?case by (cases "length (pack_v2 (sd_layers S (current @ [layer]))) \<le> MAX_LAYER_CHUNK_SLOTS") (auto simp: Let_def)
qed simp

section \<open>What is on disk after a run\<close>

definition holds :: "out_dir \<Rightarrow> packed_entry \<Rightarrow> felt list \<Rightarrow> bool" where
  "holds o1 e vs = (out_files o1 (en_file e) = Some (pack_v2 vs) \<and> en_values e = length vs \<and> en_slots e = length (pack_v2 vs))"

text \<open>What a transaction built from an entry of the manifest gives the contract.\<close>

definition reads :: "out_dir \<Rightarrow> packed_entry \<Rightarrow> felt list res" where
  "reads o1 e =
     (case out_files o1 (en_file e) of None \<Rightarrow> Inl (File Missing) | Some slots \<Rightarrow> unpack_proof_v2 slots (en_values e))"

lemma holds_reads: "holds o1 e vs \<Longrightarrow> list_all felt_ok vs \<Longrightarrow> reads o1 e = Inr vs"
  using packed.dec_enc [of vs] by (simp add: holds_def reads_def)

lemma holds_frame: "holds o1 e vs \<Longrightarrow> out_files o2 (en_file e) = out_files o1 (en_file e) \<Longrightarrow> holds o2 e vs"
  by (simp add: holds_def)

definition entry_of :: "calldata_file \<Rightarrow> felt list \<Rightarrow> packed_entry" where
  "entry_of n vs = \<lparr>en_file = n, en_values = length vs, en_slots = length (pack_v2 vs)\<rparr>"

lemma entry_of_simps [simp]: "en_file (entry_of n vs) = n" "holds o1 (entry_of n vs) vs \<longleftrightarrow> out_files o1 n = Some (pack_v2 vs)"
  by (simp_all add: entry_of_def holds_def)

lemma write_felts_Inr:
  "write_felts io n fs o1 = (o2, Inr u) \<longleftrightarrow> io n \<and> o2 = o1\<lparr>out_files := (out_files o1)(n \<mapsto> fs)\<rparr>"
  by (auto simp: write_felts_def)

lemma write_packed_Inr:
  "write_packed io n vs o1 = (o2, Inr e) \<longleftrightarrow>
     io n \<and> o2 = o1\<lparr>out_files := (out_files o1)(n \<mapsto> pack_v2 vs)\<rparr> \<and> e = entry_of n vs"
  by (auto simp: write_packed_def Let_def sbind_Inr write_felts_Inr entry_of_def)

lemma create_dir_Inr: "create_dir io o1 = (o2, Inr u) \<longleftrightarrow> io Out_Dir \<and> o2 = o1"
  by (auto simp: create_dir_def ensure_def)

lemma slift_Inr: "slift r s = (s', Inr x) \<longleftrightarrow> s' = s \<and> r = Inr x"
  by auto

lemmas run_inv = sbind_Inr slift_Inr res_inv write_felts_Inr write_packed_Inr create_dir_Inr

text \<open>A numbered family of files.\<close>

lemma each_write:
  assumes "each_step (\<lambda>(i, c). write_packed io (mk i) c) (enumerate k xs) o1 = (o2, Inr es)" and "inj mk"
  shows "list_all2 (holds o2) es xs \<and> en_file ` set es \<subseteq> mk ` {k..} \<and> (\<forall>n. n \<notin> mk ` {k..} \<longrightarrow> out_files o2 n = out_files o1 n)"
  using assms
proof (induction xs arbitrary: k o1 es)
  case (Cons x xs)
  obtain e es' o' where step: "write_packed io (mk k) x o1 = (o', Inr e)" "es = e # es'"
    "each_step (\<lambda>(i, c). write_packed io (mk i) c) (enumerate (Suc k) xs) o' = (o2, Inr es')"
    using Cons.prems(1) by (auto simp: sbind_Inr)
  have ih: "list_all2 (holds o2) es' xs" "en_file ` set es' \<subseteq> mk ` {Suc k..}"
    "\<forall>n. n \<notin> mk ` {Suc k..} \<longrightarrow> out_files o2 n = out_files o' n"
    using Cons.IH [OF step(3) Cons.prems(2)] by auto
  have e: "holds o' e x" "en_file e = mk k" using step(1) by (auto simp: write_packed_Inr)
  have fresh: "mk k \<notin> mk ` {Suc k..}" using Cons.prems(2) by (auto dest: injD)
  have sub: "mk ` {Suc k..} \<subseteq> mk ` {k..}" by (intro image_mono) auto
  have "holds o2 e x" using ih(3) fresh e by (intro holds_frame [OF e(1)]) simp
  moreover have "out_files o2 n = out_files o1 n" if "n \<notin> mk ` {k..}" for n
  proof -
    have "n \<noteq> mk k" "n \<notin> mk ` {Suc k..}" using that sub by auto
    then show ?thesis using ih(3) step(1) by (auto simp: write_packed_Inr)
  qed
  ultimately show ?case using ih(1,2) e(2) sub step(2) by auto
qed auto

text \<open>The pairs of files of the groups.\<close>

definition group_ok ::
  "('c, 'o, 'l, 'h) serde \<Rightarrow> ('c, 'o, 'l, 'h) cairo_proof \<Rightarrow> nat list \<Rightarrow> nat \<Rightarrow> nat \<Rightarrow> nat \<Rightarrow> out_dir \<Rightarrow> packed_entry \<times> packed_entry \<Rightarrow> nat \<Rightarrow> bool" where
  "group_ok S p positions group_size lifting pp o1 es g =
     (case group_bounds (length positions) group_size g of (start, stop) \<Rightarrow>
        \<exists>rows ws. group_rows S p start stop = Inr rows
          \<and> group_witnesses S p (group_positions positions group_size g) lifting pp = Inr ws
          \<and> holds o1 (fst es) (rows_felts (length (pf_witnesses p)) rows)
          \<and> holds o1 (snd es) (witnesses_felts S (length (pf_witnesses p)) ws))"

lemma group_ok_frame:
  assumes "group_ok S p positions gs lifting pp o1 es g"
    and "out_files o2 (en_file (fst es)) = out_files o1 (en_file (fst es))" "out_files o2 (en_file (snd es)) = out_files o1 (en_file (snd es))"
  shows "group_ok S p positions gs lifting pp o2 es g"
  using assms unfolding group_ok_def by (auto split: prod.splits simp: holds_def)

lemma emit_group_ok:
  assumes "emit_group io S p positions gs lifting pp g o1 = (o2, Inr es)"
  shows "group_ok S p positions gs lifting pp o2 es g \<and> en_file (fst es) = Rows_File g \<and> en_file (snd es) = Witnesses_File g
       \<and> (\<forall>n. n \<noteq> Rows_File g \<longrightarrow> n \<noteq> Witnesses_File g \<longrightarrow> out_files o2 n = out_files o1 n)"
proof -
  obtain start stop where b: "group_bounds (length positions) gs g = (start, stop)" by fastforce
  let ?n = "length (pf_witnesses p)"
  obtain ps rows ws where r: "slice positions start stop = Inr ps" "group_rows S p start stop = Inr rows" "group_witnesses S p ps lifting pp = Inr ws"
    "o2 = o1\<lparr>out_files := (out_files o1)(Rows_File g \<mapsto> pack_v2 (rows_felts ?n rows), Witnesses_File g \<mapsto> pack_v2 (witnesses_felts S ?n ws))\<rparr>"
    "es = (entry_of (Rows_File g) (rows_felts ?n rows), entry_of (Witnesses_File g) (witnesses_felts S ?n ws))"
    using assms by (simp add: emit_group_def b sbind_Inr write_packed_Inr) (elim exE conjE, rule that, assumption, assumption, assumption, simp, simp)
  have "ps = group_positions positions gs g" using r(1) by (simp add: slice_def group_positions_def b ensure_eq_Inr)
  then show ?thesis using r by (simp add: group_ok_def b)
qed

lemma each_group:
  assumes "each_step (emit_group io S p positions gs lifting pp) ks o1 = (o2, Inr es)" and "distinct ks"
  shows "list_all2 (group_ok S p positions gs lifting pp o2) es ks
       \<and> (\<forall>n. n \<notin> Rows_File ` set ks \<union> Witnesses_File ` set ks \<longrightarrow> out_files o2 n = out_files o1 n)
       \<and> (\<forall>e \<in> set es. en_file (fst e) \<in> range Rows_File \<and> en_file (snd e) \<in> range Witnesses_File)"
  using assms
proof (induction ks arbitrary: o1 es)
  case (Cons g ks)
  obtain e es' o' where step: "emit_group io S p positions gs lifting pp g o1 = (o', Inr e)" "es = e # es'"
    "each_step (emit_group io S p positions gs lifting pp) ks o' = (o2, Inr es')"
    using Cons.prems(1) by (auto simp: sbind_Inr)
  have ih: "list_all2 (group_ok S p positions gs lifting pp o2) es' ks"
    "\<forall>n. n \<notin> Rows_File ` set ks \<union> Witnesses_File ` set ks \<longrightarrow> out_files o2 n = out_files o' n"
    "\<forall>e \<in> set es'. en_file (fst e) \<in> range Rows_File \<and> en_file (snd e) \<in> range Witnesses_File"
    using Cons.IH [OF step(3)] Cons.prems(2) by auto
  note e = emit_group_ok [OF step(1)]
  have keep: "out_files o2 n = out_files o' n" if "n = Rows_File g \<or> n = Witnesses_File g" for n
  proof -
    have "n \<notin> Rows_File ` set ks \<union> Witnesses_File ` set ks" using that Cons.prems(2) by auto
    then show ?thesis using ih(2) by blast
  qed
  have ok: "group_ok S p positions gs lifting pp o2 e g"
    by (rule group_ok_frame [of S p positions gs lifting pp o']) (simp_all add: e keep)
  have "out_files o2 n = out_files o1 n" if "n \<notin> Rows_File ` set (g # ks) \<union> Witnesses_File ` set (g # ks)" for n
  proof -
    have "n \<noteq> Rows_File g" "n \<noteq> Witnesses_File g" "n \<notin> Rows_File ` set ks \<union> Witnesses_File ` set ks" using that by auto
    then show ?thesis using ih(2) e by metis
  qed
  then show ?case using ih(1,3) ok step(2) e by simp
qed simp

section \<open>A run of emit-calldata\<close>

definition serde_ok :: "('c, 'o, 'l, 'h) serde \<Rightarrow> bool" where
  "serde_ok S =
     ((\<forall>c ms. list_all felt_ok (sd_claim S c ms)) \<and> (\<forall>ms. list_all felt_ok (sd_program S ms)) \<and> (\<forall>x. list_all felt_ok (sd_part S x))
      \<and> (\<forall>ls. list_all felt_ok (sd_layers S ls)) \<and> (\<forall>l. list_all felt_ok (sd_commitment S l))
      \<and> (\<forall>ls. list_all felt_ok (sd_inner_commitments S ls)) \<and> (\<forall>h. list_all felt_ok (sd_hash S h)))"

lemma num_felt_ok [simp]: "felt_ok (num_felt n)"
  by (simp add: num_felt_def felt_ok_def STARK_PRIME_def)

lemma rows_felts_ok: "list_all felt_ok (rows_felts n rows)"
  by (auto simp: rows_felts_def list_all_iff)

lemma witnesses_felts_ok: "serde_ok S \<Longrightarrow> list_all felt_ok (witnesses_felts S n ws)"
  by (auto simp: witnesses_felts_def list_all_iff serde_ok_def)

lemma head_felts_ok: "serde_ok S \<Longrightarrow> list_all felt_ok (head_felts S p) \<and> list_all felt_ok (fri_head_felts S p)"
  by (simp add: head_felts_def mid_felts_def fri_head_felts_def serde_ok_def)

lemma holds_list_frame:
  "list_all2 (holds o1) es xs \<Longrightarrow> \<forall>e \<in> set es. out_files o2 (en_file e) = out_files o1 (en_file e) \<Longrightarrow> list_all2 (holds o2) es xs"
  by (erule list.rel_mono_strong) (auto intro: holds_frame)

lemma group_list_frame:
  "list_all2 (group_ok S p positions gs lifting pp o1) es ks \<Longrightarrow>
   \<forall>e \<in> set es. out_files o2 (en_file (fst e)) = out_files o1 (en_file (fst e)) \<and> out_files o2 (en_file (snd e)) = out_files o1 (en_file (snd e)) \<Longrightarrow>
   list_all2 (group_ok S p positions gs lifting pp o2) es ks"
  by (erule list.rel_mono_strong) (auto intro: group_ok_frame)

lemma emit_files_inv:
  assumes "emit_files io S p ce gs cells o1 = (o2, Inr u)"
  obtains streams lifting pp us o3 o4 frs o5 chs n o6 grs where
    "chunk_streams S (pf_program p) cells = Inr streams"
    "item_at (tree_heights p) 1 = Inr lifting" "item_at (tree_heights p) 0 = Inr pp"
    "rmap (check_tree S p (sorted_dedup (pf_unsorted p)) lifting pp) [0..<length (pf_witnesses p)] = Inr us"
    "reassembled S p = fri_felts S p"
    "o3 = o1\<lparr>out_files := (out_files o1)(Head_File \<mapsto> pack_v2 (head_felts S p), Sampled_File \<mapsto> pack_v2 (sd_part S (pf_sampled p)),
        Fri_Head_File \<mapsto> pack_v2 (fri_head_felts S p))\<rparr>"
    "each_step (\<lambda>(i, c). write_packed io (Fri_Layers_File i) c) (enumerate 0 (map (sd_layers S) (cut_layers S [pf_first p] (pf_inner p)))) o3 = (o4, Inr frs)"
    "each_step (\<lambda>(i, c). write_packed io (Chunk_File i) c) (enumerate 0 streams) o4 = (o5, Inr chs)"
    "group_count (length (sorted_dedup (pf_unsorted p))) gs = Inr n"
    "each_step (emit_group io S p (sorted_dedup (pf_unsorted p)) gs lifting pp) [0..<n] o5 = (o6, Inr grs)"
    "o2 = o6\<lparr>out_files := (out_files o6)(Manifest_File \<mapsto> []), out_manifest := Some
        \<lparr>man_program_len = length (pf_program p), man_chunk_entries = ce, man_group_size = gs,
         man_head = entry_of Head_File (head_felts S p), man_sampled = entry_of Sampled_File (sd_part S (pf_sampled p)),
         man_fri_head = entry_of Fri_Head_File (fri_head_felts S p), man_fri_layers = frs, man_chunks = chs, man_groups = grs\<rparr>\<rparr>"
  using assms
  by (simp add: emit_files_def Let_def sbind_Inr write_packed_Inr create_dir_Inr write_felts_Inr ensure_eq_Inr)
     (elim exE conjE, rule that, (assumption | rule refl | simp)+)

text \<open>The whole directory after a run: every file in place, no file of one family touched by another.\<close>

lemma emit_files_holds:
  assumes "emit_files io S p ce gs cells o1 = (o2, Inr u)"
  obtains streams lifting pp n m where
    "chunk_streams S (pf_program p) cells = Inr streams"
    "item_at (tree_heights p) 1 = Inr lifting" "item_at (tree_heights p) 0 = Inr pp"
    "group_count (length (sorted_dedup (pf_unsorted p))) gs = Inr n"
    "out_manifest o2 = Some m"
    "holds o2 (man_head m) (head_felts S p)" "holds o2 (man_sampled m) (sd_part S (pf_sampled p))" "holds o2 (man_fri_head m) (fri_head_felts S p)"
    "list_all2 (holds o2) (man_fri_layers m) (map (sd_layers S) (cut_layers S [pf_first p] (pf_inner p)))"
    "list_all2 (holds o2) (man_chunks m) streams"
    "list_all2 (group_ok S p (sorted_dedup (pf_unsorted p)) gs lifting pp o2) (man_groups m) [0..<n]"
proof -
  obtain streams lifting pp us o3 o4 frs o5 chs n o6 grs where
    cs: "chunk_streams S (pf_program p) cells = Inr streams"
    and hs: "item_at (tree_heights p) 1 = Inr lifting" "item_at (tree_heights p) 0 = Inr pp"
    and o3: "o3 = o1\<lparr>out_files := (out_files o1)(Head_File \<mapsto> pack_v2 (head_felts S p), Sampled_File \<mapsto> pack_v2 (sd_part S (pf_sampled p)),
        Fri_Head_File \<mapsto> pack_v2 (fri_head_felts S p))\<rparr>"
    and fr: "each_step (\<lambda>(i, c). write_packed io (Fri_Layers_File i) c) (enumerate 0 (map (sd_layers S) (cut_layers S [pf_first p] (pf_inner p)))) o3 = (o4, Inr frs)"
    and ch: "each_step (\<lambda>(i, c). write_packed io (Chunk_File i) c) (enumerate 0 streams) o4 = (o5, Inr chs)"
    and n: "group_count (length (sorted_dedup (pf_unsorted p))) gs = Inr n"
    and gr: "each_step (emit_group io S p (sorted_dedup (pf_unsorted p)) gs lifting pp) [0..<n] o5 = (o6, Inr grs)"
    and o2: "o2 = o6\<lparr>out_files := (out_files o6)(Manifest_File \<mapsto> []), out_manifest := Some
        \<lparr>man_program_len = length (pf_program p), man_chunk_entries = ce, man_group_size = gs,
         man_head = entry_of Head_File (head_felts S p), man_sampled = entry_of Sampled_File (sd_part S (pf_sampled p)),
         man_fri_head = entry_of Fri_Head_File (fri_head_felts S p), man_fri_layers = frs, man_chunks = chs, man_groups = grs\<rparr>\<rparr>"
    by (rule emit_files_inv [OF assms]) metis
  note F = each_write [OF fr, unfolded inj_def] and Ch = each_write [OF ch, unfolded inj_def] and G = each_group [OF gr distinct_upt]
  have frame: "out_files o6 n = out_files o5 n" if "n \<notin> range Rows_File" "n \<notin> range Witnesses_File" for n using G that by blast
  have frame': "out_files o5 n = out_files o4 n" if "n \<notin> range Chunk_File" for n using Ch that by blast
  have frame'': "out_files o4 n = out_files o3 n" if "n \<notin> range Fri_Layers_File" for n using F that by blast
  show thesis
  proof (rule that [OF cs hs n])
    show "out_manifest o2 = Some \<lparr>man_program_len = length (pf_program p), man_chunk_entries = ce, man_group_size = gs,
         man_head = entry_of Head_File (head_felts S p), man_sampled = entry_of Sampled_File (sd_part S (pf_sampled p)),
         man_fri_head = entry_of Fri_Head_File (fri_head_felts S p), man_fri_layers = frs, man_chunks = chs, man_groups = grs\<rparr>" (is "_ = Some ?m")
      by (simp add: o2)
    let ?o = "o6\<lparr>out_files := (out_files o6)(Manifest_File \<mapsto> []), out_manifest := Some
        \<lparr>man_program_len = length (pf_program p), man_chunk_entries = ce, man_group_size = gs,
         man_head = entry_of Head_File (head_felts S p), man_sampled = entry_of Sampled_File (sd_part S (pf_sampled p)),
         man_fri_head = entry_of Fri_Head_File (fri_head_felts S p), man_fri_layers = frs, man_chunks = chs, man_groups = grs\<rparr>\<rparr>"
    have "list_all2 (holds ?o) frs (map (sd_layers S) (cut_layers S [pf_first p] (pf_inner p)))"
      by (rule holds_list_frame [of o4]) (use F in \<open>auto simp: frame frame' image_iff\<close>)
    moreover have "list_all2 (holds ?o) chs streams"
      by (rule holds_list_frame [of o5]) (use Ch in \<open>auto simp: frame image_iff\<close>)
    moreover have "list_all2 (group_ok S p (sorted_dedup (pf_unsorted p)) gs lifting pp ?o) grs [0..<n]"
      by (rule group_list_frame [of S p "sorted_dedup (pf_unsorted p)" gs lifting pp o6]) (use G in auto)
    ultimately show "list_all2 (holds o2) (man_fri_layers ?m) (map (sd_layers S) (cut_layers S [pf_first p] (pf_inner p)))"
      "list_all2 (holds o2) (man_chunks ?m) streams"
      "list_all2 (group_ok S p (sorted_dedup (pf_unsorted p)) gs lifting pp o2) (man_groups ?m) [0..<n]"
      unfolding o2 by simp_all
  qed (auto simp: o2 o3 frame frame' frame'' image_iff)
qed

section \<open>Groups\<close>

lemma chunks_eq_map:
  "0 < n \<Longrightarrow> chunks n xs = map (\<lambda>i. take n (drop (i * n) xs)) [0..<(length xs + n - 1) div n]"
proof (induction n xs rule: chunks.induct)
  case (1 n xs)
  show ?case
  proof (cases "xs = []")
    case False
    have "(length xs + n - 1) div n = Suc ((length (drop n xs) + n - 1) div n)"
    proof (cases "n \<le> length xs")
      case True
      then have eq: "length xs + n - 1 = (length xs - 1) + n" "length (drop n xs) + n - 1 = length xs - 1" using "1.prems" by auto
      have "n \<noteq> 0" using "1.prems" by simp
      then show ?thesis unfolding eq by (simp only: div_add_self2 [OF \<open>n \<noteq> 0\<close>] Suc_eq_plus1)
    next
      case less: False
      have n: "n \<noteq> 0" and eq: "length xs + n - 1 = (length xs - 1) + n" using "1.prems" False by (cases xs; simp)+
      have z: "(length xs - 1) div n = 0" "(length (drop n xs) + n - 1) div n = 0" using less "1.prems" by (intro div_less; simp)+
      show ?thesis unfolding eq z by (simp only: div_add_self2 [OF n] z Suc_eq_plus1)
    qed
    note count = this
    have ih: "chunks n (drop n xs) = map (\<lambda>i. take n (drop (i * n) (drop n xs))) [0..<(length (drop n xs) + n - 1) div n]"
      using 1 False by blast
    have shift: "take n (drop (Suc i * n) xs) = take n (drop (i * n) (drop n xs))" for i by (simp add: add.commute)
    show ?thesis unfolding chunks_step [OF "1.prems" False] ih count map_upt_Suc shift by simp
  qed (use "1.prems" in simp)
qed

lemma group_positions_eq: "group_positions ps gs g = take gs (drop (g * gs) ps)"
  by (simp add: group_positions_def group_bounds_def min_def)

lemma groups_partition:
  "group_count (length ps) gs = Inr n \<Longrightarrow> map (group_positions ps gs) [0..<n] = chunks gs ps \<and> gs \<noteq> 0"
  using chunks_eq_map [of gs ps] by (auto simp: group_count_def ensure_eq_Inr group_positions_eq)

lemma uniform_take_drop:
  assumes "\<forall>x \<in> set xs. length (r x) = k"
  shows "take (n * k) (concat (map r xs)) = concat (map r (take n xs))"
    and "drop (n * k) (concat (map r xs)) = concat (map r (drop n xs))"
  using assms by (induction xs arbitrary: n; case_tac n; simp)+

lemma slice_rows:
  assumes "\<forall>x \<in> set xs. length (r x) = k" and "a \<le> b" and "b \<le> length xs"
  shows "slice (concat (map r xs)) (a * k) (b * k) = Inr (concat (map r (take (b - a) (drop a xs))))"
proof -
  have "length (concat (map r xs)) = length xs * k" using assms(1) by (induction xs) simp_all
  moreover have "take (b * k - a * k) (concat (map r (drop a xs))) = concat (map r (take (b - a) (drop a xs)))"
    using uniform_take_drop(1) [of "drop a xs" r k "b - a"] assms(1) by (auto simp: diff_mult_distrib dest: in_set_dropD)
  ultimately show ?thesis using assms uniform_take_drop(2) [OF assms(1), of a] by (simp add: slice_def)
qed

section \<open>Properties\<close>

text \<open>the emitter returns unless the chunk size is zero. It runs forever exactly when the sections
  agree, the program is not empty and \<^verbatim>\<open>chunk_entries\<close> is 0, which the command line accepts: the loop
  then appends empty chunks without end.\<close>

theorem emitter_returns:
  "emit_calldata_impl io S p chunk_entries group_size o1 = None
     \<longleftrightarrow> concat (sections S p) = sd_proof S p \<and> chunk_entries = 0 \<and> pf_program p \<noteq> []"
proof (cases "chunk_entries = 0")
  case True
  then show ?thesis
    using program_chunks_zero [of 0 "pf_program p"] by (cases "pf_program p = []") (auto simp: emit_calldata_impl_def program_chunks.simps [of "[]"])
next
  case False
  then show ?thesis using program_chunks_eq [of chunk_entries 0 "pf_program p"] by (simp add: emit_calldata_impl_def)
qed

lemma all2_reads: "list_all2 (holds o1) es xs \<Longrightarrow> \<forall>x \<in> set xs. list_all felt_ok x \<Longrightarrow> rmap (reads o1) es = Inr xs"
  by (induction rule: list_all2_induct) (simp_all add: holds_reads)

text \<open>C35: a run of the emitter that succeeds leaves a directory from which the contract reads the whole
  proof. The sections concatenate to the proof's stream; the head, the sampled values and the FRI
  head read back as they were; the chunk files hold the program in order, in slices of at most the
  chunk size; the layer files hold all the FRI layers in order, each file within the budget of
  packed slots unless it is a single layer; the groups are the queries, each once, in order.\<close>

theorem emitted_files_carry_the_proof:
  assumes run: "emit_calldata_impl io S p chunk_entries group_size o1 = Some (o2, Inr u)" and felts: "serde_ok S"
  shows "concat (sections S p) = sd_proof S p
    \<and> (\<exists>m cells layers. out_manifest o2 = Some m
       \<and> reads o2 (man_head m) = Inr (head_felts S p)
       \<and> reads o2 (man_sampled m) = Inr (sd_part S (pf_sampled p))
       \<and> reads o2 (man_fri_head m) = Inr (fri_head_felts S p)
       \<and> concat cells = pf_program p \<and> list_all (\<lambda>c. c \<noteq> [] \<and> length c \<le> chunk_entries) cells
       \<and> rmap (reads o2) (man_chunks m) = Inr (map (sd_program S) cells)
       \<and> concat layers = pf_first p # pf_inner p
       \<and> list_all (\<lambda>ls. length ls = 1 \<or> length (pack_v2 (sd_layers S ls)) \<le> MAX_LAYER_CHUNK_SLOTS) layers
       \<and> rmap (reads o2) (man_fri_layers m) = Inr (map (sd_layers S) layers)
       \<and> concat (map (group_positions (sorted_dedup (pf_unsorted p)) group_size) [0..<length (man_groups m)])
         = sorted_dedup (pf_unsorted p))"
proof -
  let ?ps = "sorted_dedup (pf_unsorted p)" and ?layers = "cut_layers S [pf_first p] (pf_inner p)"
  obtain cells where sec: "concat (sections S p) = sd_proof S p" and cells: "program_chunks (pf_program p) chunk_entries 0 = Some cells"
    and files: "emit_files io S p chunk_entries group_size cells o1 = (o2, Inr u)"
    using run by (auto simp: emit_calldata_impl_def split: if_splits)
  obtain streams lifting pp n m where
    h: "chunk_streams S (pf_program p) cells = Inr streams" "group_count (length ?ps) group_size = Inr n" "out_manifest o2 = Some m"
      "holds o2 (man_head m) (head_felts S p)" "holds o2 (man_sampled m) (sd_part S (pf_sampled p))" "holds o2 (man_fri_head m) (fri_head_felts S p)"
      "list_all2 (holds o2) (man_fri_layers m) (map (sd_layers S) ?layers)" "list_all2 (holds o2) (man_chunks m) streams"
      "list_all2 (group_ok S p ?ps group_size lifting pp o2) (man_groups m) [0..<n]"
    using emit_files_holds [OF files] by metis
  have parts: "concat cells = pf_program p \<and> list_all (\<lambda>c. c \<noteq> [] \<and> length c \<le> chunk_entries) cells"
  proof (cases "chunk_entries = 0")
    case True
    then have "pf_program p = []" using cells program_chunks_zero [of 0 "pf_program p"] by fastforce
    then show ?thesis using cells by (simp add: program_chunks.simps [of "[]"])
  next
    case False
    then show ?thesis
      using cells program_chunks_eq [of chunk_entries 0 "pf_program p"] chunks_concat [of chunk_entries "pf_program p"]
      by (auto simp: list_all_iff dest: chunks_le [rotated])
  qed
  have streams: "streams = map (sd_program S) cells"
    using h(1) by (auto simp: chunk_streams_def Let_def res_inv)
  have len: "length (man_groups m) = n" using list_all2_lengthD [OF h(9)] by simp
  have groups: "concat (map (group_positions ?ps group_size) [0..<n]) = ?ps"
    using groups_partition [OF h(2)] chunks_concat [of group_size ?ps] by simp
  have fit: "list_all (\<lambda>ls. length ls = 1 \<or> length (pack_v2 (sd_layers S ls)) \<le> MAX_LAYER_CHUNK_SLOTS) ?layers"
    using cut_layers_fit [of "[pf_first p]" S] by (auto simp: list_all_iff)
  have "rmap (reads o2) (man_chunks m) = Inr (map (sd_program S) cells)" "rmap (reads o2) (man_fri_layers m) = Inr (map (sd_layers S) ?layers)"
    using all2_reads [OF h(8)] all2_reads [OF h(7)] felts by (auto simp: streams serde_ok_def)
  moreover have "reads o2 (man_head m) = Inr (head_felts S p)" "reads o2 (man_fri_head m) = Inr (fri_head_felts S p)"
    "reads o2 (man_sampled m) = Inr (sd_part S (pf_sampled p))"
    using h(4-6) head_felts_ok [OF felts] felts by (auto simp: serde_ok_def intro!: holds_reads)
  ultimately show ?thesis using sec h(3) parts fit groups cut_layers_concat [of S "[pf_first p]" "pf_inner p"] by (auto simp: len)
qed

text \<open>C34: every group the emitter wrote opens on the chain. For a tree whose recorded nodes are genuine and
  cover the queries, with \<open>place\<close> the position of a query in that tree and \<open>row\<close> the row there, the
  \<open>g\<close>-th pair of files reads back as rows and witnesses of every tree, and the verifier of the chain
  accepts this tree's rows with this tree's witness at the group's positions.\<close>

theorem emitted_groups_open:
  assumes run: "emit_calldata_impl io S p chunk_entries group_size o1 = Some (o2, Inr u)" and felts: "serde_ok S"
    and man: "out_manifest o2 = Some m" "g < length (man_groups m)"
    and tree: "i < length (pf_witnesses p)" "i < length (strides p)" "i < length (pf_aux p)" "layers = pf_aux p ! i"
    and prep: "\<forall>qs. (if i = 0 then sd_prepare S qs (tree_heights p ! 1) (tree_heights p ! 0) else qs) = map place qs"
    and place: "i \<noteq> 0 \<longrightarrow> place = (\<lambda>q. q)"
    and nodes: "genuine H leaves layers" "covers layers (map place (sorted_dedup (pf_unsorted p)))" "length layers \<le> 31"
    and positions: "\<forall>q \<in> set (sorted_dedup (pf_unsorted p)). place q < 2 ^ length layers"
    and rows: "i < length (sd_transpose S p)" "sd_transpose S p ! i = concat (map (\<lambda>q. row (place q)) (sorted_dedup (pf_unsorted p)))"
      "\<forall>q \<in> set (sorted_dedup (pf_unsorted p)). length (row (place q)) = strides p ! i \<and> leaf (row (place q)) = leaves (place q)"
  shows "\<exists>rs ws. reads o2 (fst (man_groups m ! g)) = Inr (rows_felts (length (pf_witnesses p)) rs)
    \<and> reads o2 (snd (man_groups m ! g)) = Inr (witnesses_felts S (length (pf_witnesses p)) ws)
    \<and> merkle_verify H leaf (tree_node H leaves (length layers) 0) (length layers) (strides p ! i)
        (map place (group_positions (sorted_dedup (pf_unsorted p)) group_size g)) (rs ! i) (ws ! i) = Inr ()"
proof -
  let ?ps = "sorted_dedup (pf_unsorted p)"
  let ?qs = "group_positions ?ps group_size g"
  obtain cells where files: "emit_files io S p chunk_entries group_size cells o1 = (o2, Inr u)"
    using run by (auto simp: emit_calldata_impl_def split: if_splits)
  obtain lifting pp n where h: "item_at (tree_heights p) 1 = Inr lifting" "item_at (tree_heights p) 0 = Inr pp"
    "group_count (length ?ps) group_size = Inr n" "list_all2 (group_ok S p ?ps group_size lifting pp o2) (man_groups m) [0..<n]"
    using emit_files_holds [OF files] man(1) by (metis option.inject)
  have g: "g < n" using man(2) h(4) by (simp add: list_all2_lengthD)
  then have ok: "group_ok S p ?ps group_size lifting pp o2 (man_groups m ! g) g" using h(4) list_all2_nthD2 [OF h(4), of g] by simp
  have "?qs \<in> set (map (group_positions ?ps group_size) [0..<n])" using g by simp
  then have gs: "group_size \<noteq> 0" "?qs \<in> set (chunks group_size ?ps)" using groups_partition [OF h(3)] by simp_all
  then have ne: "?qs \<noteq> []" using chunks_le [of group_size ?qs ?ps] by simp
  have sub: "set ?qs \<subseteq> set ?ps" unfolding group_positions_eq by (rule order_trans [OF set_take_subset set_drop_subset])
  have start: "g * group_size < length ?ps" using ne by (auto simp: group_positions_eq)
  obtain rs ws where rw: "group_rows S p (g * group_size) (min (g * group_size + group_size) (length ?ps)) = Inr rs"
    "group_witnesses S p ?qs lifting pp = Inr ws" "holds o2 (fst (man_groups m ! g)) (rows_felts (length (pf_witnesses p)) rs)"
    "holds o2 (snd (man_groups m ! g)) (witnesses_felts S (length (pf_witnesses p)) ws)"
    using ok by (auto simp: group_ok_def group_bounds_def)
  have r: "rs ! i = concat (map row (map place ?qs))"
  proof -
    have "rbind (item_at (sd_transpose S p) i) (\<lambda>values. slice values (g * group_size * strides p ! i)
        (min (g * group_size + group_size) (length ?ps) * strides p ! i)) = Inr (rs ! i)"
      using rmap_nth [OF rw(1) [unfolded group_rows_def], of i] tree(2) by (simp add: nth_enumerate_eq)
    moreover have "slice (concat (map (\<lambda>q. row (place q)) ?ps)) (g * group_size * strides p ! i)
        (min (g * group_size + group_size) (length ?ps) * strides p ! i) = Inr (concat (map (\<lambda>q. row (place q)) ?qs))"
      using start rows(3) slice_rows [of ?ps "\<lambda>q. row (place q)" "strides p ! i" "g * group_size" "min (g * group_size + group_size) (length ?ps)"]
      by (simp add: group_positions_def group_bounds_def)
    ultimately show ?thesis using rows(1,2) by (simp add: item_at_def o_def)
  qed
  have w: "synthesize_witness (sorted_dedup (map place ?qs)) layers = Inr (ws ! i)"
  proof -
    have "rbind (item_at (pf_aux p) i) (synthesize_witness (tree_query_positions (sd_prepare S) i ?qs lifting pp)) = Inr (ws ! i)"
      using rmap_nth [OF rw(2) [unfolded group_witnesses_def], of i] tree(1) by simp
    moreover have "tree_query_positions (sd_prepare S) i ?qs lifting pp = sorted_dedup (map place ?qs)"
    proof (cases "i = 0")
      case True
      then show ?thesis using prep h(1,2) by (auto simp: tree_query_positions_def item_at_def split: if_splits)
    next
      case False
      have "sorted_wrt (<) ?qs" by (simp add: group_positions_eq sorted_wrt_take sorted_wrt_drop)
      then show ?thesis using False place by (simp add: tree_query_positions_def sorted_dedup_id)
    qed
    ultimately show ?thesis using tree(3,4) by (simp add: item_at_def)
  qed
  have "\<exists>w. synthesize_witness (sorted_dedup (map place ?qs)) layers = Inr w
       \<and> merkle_verify H leaf (tree_node H leaves (length layers) 0) (length layers) (strides p ! i) (map place ?qs) (concat (map row (map place ?qs))) w = Inr ()"
    using nodes positions ne sub rows(3) by (intro witness_verifies [where positions = "map place ?ps"]) auto
  then have "merkle_verify H leaf (tree_node H leaves (length layers) 0) (length layers) (strides p ! i) (map place ?qs) (rs ! i) (ws ! i) = Inr ()"
    using w r by simp
  then show ?thesis
    using rw(3,4) by (intro exI [of _ rs] exI [of _ ws] conjI) (simp_all add: holds_reads rows_felts_ok witnesses_felts_ok [OF felts])
qed

section \<open>A run\<close>

text \<open>Two trees over the four leaves of \<open>Decommit\<close>, three queries, a program of three cells.\<close>

definition demo_serde :: "(unit, nat, nat, nat) serde" where
  "demo_serde =
     \<lparr>sd_proof = (\<lambda>p. concat [[length (pf_program p)], map num_felt [pf_pow p, pf_interaction p, pf_config p, pf_commitments p],
         [num_felt (pf_sampled p)], [2], [3], [num_felt (pf_nonce p)], [num_felt (pf_first p), num_felt (pf_last p)], [num_felt (pf_salt p)]]),
      sd_claim = (\<lambda>_ ms. [num_felt (length ms)]), sd_program = (\<lambda>ms. num_felt (length ms) # map (\<lambda>m. num_felt (fst m)) ms),
      sd_part = (\<lambda>x. [num_felt x]), sd_witnesses = (\<lambda>_. [2]), sd_rows = (\<lambda>_. [3]),
      sd_fri = (\<lambda>f _ l. [num_felt f, num_felt l]), sd_layer = (\<lambda>l. [num_felt l]), sd_layers = map num_felt,
      sd_commitment = (\<lambda>l. [num_felt l]), sd_inner_commitments = map num_felt, sd_hash = (\<lambda>h. [num_felt h]),
      sd_transpose = (\<lambda>_. [[8, 9, 10], [8, 9, 10]]), sd_prepare = (\<lambda>qs _ _. qs)\<rparr>"

definition demo_proof :: "(unit, nat, nat, nat) cairo_proof" where
  "demo_proof =
     \<lparr>pf_claim = (), pf_program = [(1, []), (2, []), (3, [])], pf_pow = 4, pf_interaction = 5, pf_config = 6, pf_commitments = 7,
      pf_sampled = 8, pf_witnesses = [[7], [7]], pf_queried = [[[8, 9, 10]], [[8, 9, 10]]], pf_nonce = 9, pf_first = 10, pf_inner = [],
      pf_last = 11, pf_salt = 12, pf_unsorted = [3, 1, 2, 1], pf_aux = [demo_layers, demo_layers]\<rparr>"

definition demo_dir :: out_dir where
  "demo_dir = \<lparr>out_files = Map.empty, out_manifest = None\<rparr>"

lemma demo_serde_ok: "serde_ok demo_serde"
  by (simp add: serde_ok_def demo_serde_def list_all_iff)

lemma demo_positions: "sorted_dedup (pf_unsorted demo_proof) = [1, 2, 3]"
  by (simp add: sorted_dedup_def demo_proof_def)

lemma demo_synthesize: "synthesize_witness [1, 2, 3] demo_layers = Inr [7]" "synthesize_witness [1, 2] demo_layers = Inr [7, 10]"
  "synthesize_witness [3] demo_layers = Inr [9, demo_hash 7 8]"
  by (simp_all add: synthesize_witness_def demo_layers_def half xor_1)

lemma each_step_total:
  "\<forall>x \<in> set xs. \<forall>s. \<exists>s' y. f x s = (s', Inr y) \<Longrightarrow> \<exists>s' ys. each_step f xs s = (s', Inr ys) \<and> length ys = length xs"
proof (induction xs arbitrary: s)
  case (Cons x xs)
  obtain s1 y where y: "f x s = (s1, Inr y)" using Cons.prems by (meson list.set_intros(1))
  obtain s2 ys where "each_step f xs s1 = (s2, Inr ys)" "length ys = length xs" using Cons by (meson list.set_intros(2))
  then show ?case using y by (simp add: sbind_def)
qed simp

lemma write_all: "write_packed (\<lambda>_. True) n vs o1 = (o1\<lparr>out_files := (out_files o1)(n \<mapsto> pack_v2 vs)\<rparr>, Inr (entry_of n vs))"
  using write_packed_Inr by blast

text \<open>With a disk that takes every write, passing the checks is enough.\<close>

lemma emit_files_succeeds:
  assumes "chunk_streams S (pf_program p) cells = Inr streams"
    and "item_at (tree_heights p) 1 = Inr lifting" "item_at (tree_heights p) 0 = Inr pp"
    and "rmap (check_tree S p (sorted_dedup (pf_unsorted p)) lifting pp) [0..<length (pf_witnesses p)] = Inr us"
    and "reassembled S p = fri_felts S p" and "group_count (length (sorted_dedup (pf_unsorted p))) gs = Inr n"
    and groups: "\<forall>g < n. \<exists>rows ws. (case group_bounds (length (sorted_dedup (pf_unsorted p))) gs g of (start, stop) \<Rightarrow>
        start \<le> stop \<and> group_rows S p start stop = Inr rows
      \<and> group_witnesses S p (group_positions (sorted_dedup (pf_unsorted p)) gs g) lifting pp = Inr ws)"
  shows "\<exists>o2 m. emit_files (\<lambda>_. True) S p ce gs cells o1 = (o2, Inr ()) \<and> out_manifest o2 = Some m \<and> length (man_groups m) = n"
proof -
  let ?ps = "sorted_dedup (pf_unsorted p)"
  have "\<exists>o3 e. emit_group (\<lambda>_. True) S p ?ps gs lifting pp g o2 = (o3, Inr e)" if g: "g < n" for g o2
  proof -
    obtain start stop where b: "group_bounds (length ?ps) gs g = (start, stop)" by fastforce
    then have "stop \<le> length ?ps" by (auto simp: group_bounds_def)
    moreover obtain rows ws where "start \<le> stop" "group_rows S p start stop = Inr rows"
      "group_witnesses S p (group_positions ?ps gs g) lifting pp = Inr ws" using groups g b by fastforce
    ultimately show ?thesis by (simp add: emit_group_def b slice_def group_positions_def sbind_def write_all)
  qed
  then have gr: "\<exists>o3 es. each_step (emit_group (\<lambda>_. True) S p ?ps gs lifting pp) [0..<n] o2 = (o3, Inr es) \<and> length es = length [0..<n]" for o2
    by (intro each_step_total) auto
  have family: "\<exists>o3 es. each_step (\<lambda>(i, c). write_packed (\<lambda>_. True) (mk i) c) xs o2 = (o3, Inr es) \<and> length es = length xs" for mk xs o2
    by (intro each_step_total) (auto simp: write_all)
  let ?o3 = "o1\<lparr>out_files := (out_files o1)(Head_File \<mapsto> pack_v2 (head_felts S p), Sampled_File \<mapsto> pack_v2 (sd_part S (pf_sampled p)),
        Fri_Head_File \<mapsto> pack_v2 (fri_head_felts S p))\<rparr>"
  obtain o4 frs where fr: "each_step (\<lambda>(i, c). write_packed (\<lambda>_. True) (Fri_Layers_File i) c)
      (enumerate 0 (map (sd_layers S) (cut_layers S [pf_first p] (pf_inner p)))) ?o3 = (o4, Inr frs)" using family by blast
  obtain o5 chs where ch: "each_step (\<lambda>(i, c). write_packed (\<lambda>_. True) (Chunk_File i) c) (enumerate 0 streams) o4 = (o5, Inr chs)"
    using family by blast
  obtain o6 grs where "each_step (emit_group (\<lambda>_. True) S p ?ps gs lifting pp) [0..<n] o5 = (o6, Inr grs)" "length grs = n"
    using gr [of o5] by auto
  then show ?thesis
    using assms(1-6) fr ch by (simp add: emit_files_def Let_def sbind_def write_all create_dir_def write_felts_def)
qed

lemma demo_run: "\<exists>o2 m. emit_calldata_impl (\<lambda>_. True) demo_serde demo_proof 2 2 demo_dir = Some (o2, Inr ())
     \<and> out_manifest o2 = Some m \<and> length (man_groups m) = 2"
proof -
  let ?cells = "[[(1, []), (2, [])], [(3, [])]]"
  have cells: "program_chunks (pf_program demo_proof) 2 0 = Some ?cells"
    by (simp add: program_chunks_eq demo_proof_def chunks_step)
  have sec: "concat (sections demo_serde demo_proof) = sd_proof demo_serde demo_proof"
    by (simp add: sections_def claim_felts_def mid_felts_def fri_felts_def demo_serde_def demo_proof_def num_felt_def STARK_PRIME_def)
  have fields: "pf_aux demo_proof = [demo_layers, demo_layers]" "pf_witnesses demo_proof = [[7], [7]]" "strides demo_proof = [1, 1]"
    "sd_prepare demo_serde = (\<lambda>qs _ _. qs)" "sd_transpose demo_serde demo_proof = [[8, 9, 10], [8, 9, 10]]"
    by (simp_all add: demo_serde_def strides_def demo_proof_def)
  have heights: "tree_heights demo_proof = [2, 2]" by (simp add: tree_heights_def fields demo_layers_def)
  have u2: "[0..<2] = [0, 1 :: nat]" by (simp add: upt_rec)
  have dedup: "sorted_dedup [1, 2, 3] = [1, 2, 3]" "sorted_dedup [1, 2] = [1, 2]" "sorted_dedup [3] = [3]" by (simp_all add: sorted_dedup_def)
  have wit: "group_witnesses demo_serde demo_proof qs 2 2 = Inr [w, w]"
    if "sorted_dedup qs = qs" "synthesize_witness qs demo_layers = Inr w" for qs w
    using that by (simp add: group_witnesses_def fields item_at_def tree_query_positions_def u2)
  have rows: "group_rows demo_serde demo_proof 0 2 = Inr [[8, 9], [8, 9]]" "group_rows demo_serde demo_proof 2 3 = Inr [[10], [10]]"
    by (simp_all add: group_rows_def fields item_at_def slice_def)
  have whole: "reassembled demo_serde demo_proof = fri_felts demo_serde demo_proof"
    by (simp add: reassembled_def fri_felts_def demo_serde_def demo_proof_def)
  have pair: "(\<forall>g < (2 :: nat). P g) \<longleftrightarrow> P 0 \<and> P 1" for P by (auto simp: less_2_cases_iff)
  have "\<exists>o2 m. emit_files (\<lambda>_. True) demo_serde demo_proof 2 2 ?cells demo_dir = (o2, Inr ())
      \<and> out_manifest o2 = Some m \<and> length (man_groups m) = 2"
  proof (rule emit_files_succeeds)
    show "chunk_streams demo_serde (pf_program demo_proof) ?cells = Inr (map (sd_program demo_serde) ?cells)"
      by (simp add: chunk_streams_def demo_serde_def demo_proof_def item_at_def drop_prefix_def)
    show "rmap (check_tree demo_serde demo_proof (sorted_dedup (pf_unsorted demo_proof)) 2 2) [0..<length (pf_witnesses demo_proof)] = Inr [(), ()]"
      using demo_synthesize(1) dedup(1) by (simp add: demo_positions check_tree_def fields tree_query_positions_def item_at_def u2)
    show "\<forall>g < 2. \<exists>rs ws. case group_bounds (length (sorted_dedup (pf_unsorted demo_proof))) 2 g of (start, stop) \<Rightarrow>
        start \<le> stop \<and> group_rows demo_serde demo_proof start stop = Inr rs
      \<and> group_witnesses demo_serde demo_proof (group_positions (sorted_dedup (pf_unsorted demo_proof)) 2 g) 2 2 = Inr ws"
      unfolding pair using rows wit [OF dedup(2) demo_synthesize(2)] wit [OF dedup(3) demo_synthesize(3)]
      by (simp add: demo_positions group_bounds_def group_positions_eq numeral_2_eq_2 numeral_3_eq_3)
  qed (simp_all add: heights item_at_def demo_positions group_count_def whole)
  then show ?thesis by (simp add: emit_calldata_impl_def sec cells)
qed

theorem emitted_files_carry_the_proof_witness:
  "\<exists>o2 m. emit_calldata_impl (\<lambda>_. True) demo_serde demo_proof 2 2 demo_dir = Some (o2, Inr ()) \<and> out_manifest o2 = Some m
     \<and> reads o2 (man_head m) = Inr (head_felts demo_serde demo_proof)"
proof -
  obtain o2 m where run: "emit_calldata_impl (\<lambda>_. True) demo_serde demo_proof 2 2 demo_dir = Some (o2, Inr ())" "out_manifest o2 = Some m"
    using demo_run by blast
  show ?thesis using emitted_files_carry_the_proof [OF run(1) demo_serde_ok] run by auto
qed

lemma demo_layers_ok: "genuine demo_hash (\<lambda>i. i + 7) demo_layers" "covers demo_layers [1, 2, 3]" "length demo_layers = 2"
  unfolding genuine_def covers_def all_less_two by (simp_all add: demo_layers_def)

theorem emitted_groups_open_witness:
  "\<exists>o2 m rs ws. emit_calldata_impl (\<lambda>_. True) demo_serde demo_proof 2 2 demo_dir = Some (o2, Inr ()) \<and> out_manifest o2 = Some m
     \<and> reads o2 (fst (man_groups m ! 1)) = Inr (rows_felts 2 rs)
     \<and> merkle_verify demo_hash hd (tree_node demo_hash (\<lambda>i. i + 7) 2 0) 2 1 [3] (rs ! 1) (ws ! 1) = Inr ()"
proof -
  obtain o2 m where run: "emit_calldata_impl (\<lambda>_. True) demo_serde demo_proof 2 2 demo_dir = Some (o2, Inr ())" "out_manifest o2 = Some m"
    "length (man_groups m) = 2" using demo_run by blast
  have fields: "pf_aux demo_proof = [demo_layers, demo_layers]" "pf_witnesses demo_proof = [[7], [7]]" "strides demo_proof = [1, 1]"
    "sd_transpose demo_serde demo_proof = [[8, 9, 10], [8, 9, 10]]"
    by (simp_all add: demo_serde_def strides_def demo_proof_def)
  have "\<exists>rs ws. reads o2 (fst (man_groups m ! 1)) = Inr (rows_felts (length (pf_witnesses demo_proof)) rs)
    \<and> reads o2 (snd (man_groups m ! 1)) = Inr (witnesses_felts demo_serde (length (pf_witnesses demo_proof)) ws)
    \<and> merkle_verify demo_hash hd (tree_node demo_hash (\<lambda>i. i + 7) (length demo_layers) 0) (length demo_layers) (strides demo_proof ! 1)
        (map (\<lambda>q. q) (group_positions (sorted_dedup (pf_unsorted demo_proof)) 2 1)) (rs ! 1) (ws ! 1) = Inr ()"
    using run demo_serde_ok demo_layers_ok
    by (intro emitted_groups_open [where row = "\<lambda>p. [p + 7]" and leaves = "\<lambda>i. i + 7" and layers = demo_layers])
       (simp_all add: fields demo_positions)
  then show ?thesis using run by (auto simp: fields demo_positions group_positions_eq demo_layers_ok numeral_2_eq_2)
qed

end
