(* ===== verification/Bridge.thy ===== *)
theory Bridge
  imports Keychain
begin

text \<open>
  The command line and the C entry points of the proof bridge
  (\<^verbatim>\<open>tools/privacy-prove-cairo-bridge/src/lib.rs\<close>, \<^verbatim>\<open>main.rs\<close>): what a run reads, checks and writes.
  The provers, the circuits and the serialisation are third-party code, the fields of \<open>tools\<close>; a
  failure of theirs is an error, a panic of theirs the error \<open>Panic\<close>. Files are a map from paths to
  what their bytes decode to; \<open>io\<close> says which writes succeed.
\<close>

section \<open>Proofs, circuits, tools\<close>

record ('k, 'v, 'x) bridge_proof =
  bp_pcs :: 'k
  bp_variant :: 'v
  bp_bits :: "bool list"
  bp_program :: "(nat \<times> felt) list"
  bp_output :: "(nat \<times> felt) list"
  bp_rest :: 'x

record 'r circuit_config =
  cc_components :: "string list"
  cc_bits :: "bool list"
  cc_program :: "nat list list"
  cc_outputs :: nat
  cc_root :: 'r

datatype channel_hash = Blake2s | Blake2sM31 | Poseidon252

record ('k, 'v, 'x, 'r, 'i, 'q, 'e, 'm) tools =
  tl_pcs :: 'k
  tl_small :: 'v
  tl_components :: "string list"
  tl_split :: "felt \<Rightarrow> nat list"
  tl_output :: "felt list \<Rightarrow> nat list"
  tl_privacy :: "'r circuit_config res"
  tl_root :: "nat \<Rightarrow> 'r"
  tl_lifting :: "string list \<Rightarrow> nat"
  tl_task :: "string \<Rightarrow> string option \<Rightarrow> 'i res"
  tl_pie :: "string \<Rightarrow> 'i res"
  tl_boot :: "'i \<Rightarrow> ('q \<times> felt list) res"
  tl_prove :: "'q \<Rightarrow> ('k, 'v, 'x) bridge_proof res"
  tl_prove_lane2 :: "channel_hash \<Rightarrow> 'q \<Rightarrow> 'e res"
  tl_valid :: "('k, 'v, 'x) bridge_proof \<Rightarrow> 'r circuit_config \<Rightarrow> nat list list \<Rightarrow> bool"
  tl_circuit :: "('k, 'v, 'x) bridge_proof \<Rightarrow> 'r circuit_config \<Rightarrow> nat list list \<Rightarrow> 'm res"
  tl_multi :: "'m \<Rightarrow> 'm res"
  tl_stream :: "'m \<Rightarrow> felt list"
  tl_fri :: "'m \<Rightarrow> felt list"

datatype ('p, 'e) artifact =
    Proof_Json 'p
  | Preimage_Json "string list"
  | Stream_Json "felt list"
  | Meta_Json nat nat
  | Params_Json channel_hash
  | Serde_Felts 'e
  | Extended_Json 'e

type_synonym ('p, 'e) files = "string \<Rightarrow> ('p, 'e) artifact option"

section \<open>lib.rs\<close>

text \<open>\<^verbatim>\<open>Path::extension\<close>: what follows the last dot of the file name, unless the name starts there.\<close>

definition file_name :: "string \<Rightarrow> string" where
  "file_name path = rev (takeWhile (\<lambda>c. c \<noteq> CHR ''/'') (rev path))"

definition extension :: "string \<Rightarrow> string option" where
  "extension path =
     (let r = rev (file_name path); e = takeWhile (\<lambda>c. c \<noteq> CHR ''.'') r; stem = drop (length e + 1) r
      in if stem = [] then None else Some (rev e))"

definition with_extension :: "string \<Rightarrow> string \<Rightarrow> string" where
  "with_extension path ext =
     (case extension path of
        None \<Rightarrow> path @ ''.'' @ ext
      | Some e \<Rightarrow> take (length path - length e) path @ ext)"

definition write_file_at :: "(string \<Rightarrow> bool) \<Rightarrow> string \<Rightarrow> ('p, 'e) artifact \<Rightarrow> (('p, 'e) files, unit) st" where
  "write_file_at io path a fs = (if io path then (fs(path \<mapsto> a), Inr ()) else (fs, Inl (File IoError)))"

definition bootloader_stage ::
  "('k, 'v, 'x, 'r, 'i, 'q, 'e, 'm) tools \<Rightarrow> string \<Rightarrow> string option \<Rightarrow> ('q \<times> felt list) res" where
  "bootloader_stage T task args =
     rbind (if extension task = Some ''json'' then tl_task T task args else tl_pie T task) (tl_boot T)"

definition prove_stage ::
  "('k, 'v, 'x, 'r, 'i, 'q, 'e, 'm) tools \<Rightarrow> string \<Rightarrow> string option \<Rightarrow> (('k, 'v, 'x) bridge_proof \<times> felt list) res" where
  "prove_stage T task args =
     rbind (bootloader_stage T task args) (\<lambda>(input, preimage).
     rbind (tl_prove T input) (\<lambda>proof. Inr (proof, preimage)))"

definition check_proof_shape :: "('k, 'v, 'x, 'r, 'i, 'q, 'e, 'm) tools \<Rightarrow> ('k, 'v, 'x) bridge_proof \<Rightarrow> unit res" where
  "check_proof_shape T p =
     ensure (bp_pcs p = tl_pcs T) (Decode BadShape) (ensure (bp_variant p = tl_small T) (Decode BadShape) (Inr ()))"

text \<open>\<^verbatim>\<open>zip\<close> of the components with the proof's bits, those whose bit is set.\<close>

definition enabled_components :: "('k, 'v, 'x, 'r, 'i, 'q, 'e, 'm) tools \<Rightarrow> ('k, 'v, 'x) bridge_proof \<Rightarrow> string list" where
  "enabled_components T p = map fst (filter snd (zip (tl_components T) (bp_bits p)))"

definition bootloader_config_for_proof ::
  "('k, 'v, 'x, 'r, 'i, 'q, 'e, 'm) tools \<Rightarrow> ('k, 'v, 'x) bridge_proof \<Rightarrow> 'r circuit_config res" where
  "bootloader_config_for_proof T p =
     rbind (tl_privacy T) (\<lambda>c. Inr (c\<lparr>cc_bits := bp_bits p, cc_components := enabled_components T p\<rparr>))"

definition public_outputs :: "('k, 'v, 'x, 'r, 'i, 'q, 'e, 'm) tools \<Rightarrow> ('k, 'v, 'x) bridge_proof \<Rightarrow> nat list list" where
  "public_outputs T p = map (\<lambda>(_, value). tl_split T value) (bp_output p)"

definition app_config_for_proof ::
  "('k, 'v, 'x, 'r, 'i, 'q, 'e, 'm) tools \<Rightarrow> ('k, 'v, 'x) bridge_proof \<Rightarrow> 'r circuit_config \<times> nat list list" where
  "app_config_for_proof T p =
     (let enabled = enabled_components T p; outputs = public_outputs T p
      in (\<lparr>cc_components = enabled, cc_bits = bp_bits p, cc_program = map (\<lambda>(_, value). tl_split T value) (bp_program p),
           cc_outputs = length outputs, cc_root = tl_root T (tl_lifting T enabled)\<rparr>, outputs))"

definition bootloader_outputs_checked ::
  "('k, 'v, 'x, 'r, 'i, 'q, 'e, 'm) tools \<Rightarrow> ('k, 'v, 'x) bridge_proof \<Rightarrow> felt list \<Rightarrow> nat list list res" where
  "bootloader_outputs_checked T p preimage =
     (let computed = tl_output T preimage
      in ensure (public_outputs T p = [computed]) (File NotMatching) (Inr [computed]))"

text \<open>The circuit of the verification, the multiverifier, the felt stream and the place of its FRI section.\<close>

definition wrap_stage ::
  "(string \<Rightarrow> bool) \<Rightarrow> ('k, 'v, 'x, 'r, 'i, 'q, 'e, 'm) tools \<Rightarrow> ('k, 'v, 'x) bridge_proof \<Rightarrow> 'r circuit_config \<Rightarrow> nat list list
   \<Rightarrow> string \<Rightarrow> ((('k, 'v, 'x) bridge_proof, 'e) files, unit) st" where
  "wrap_stage io T p config outputs out =
     sbind (slift (ensure (tl_valid T p config outputs) (File NotMatching) (Inr ()))) (\<lambda>_.
     sbind (slift (tl_circuit T p config outputs)) (\<lambda>inner.
     sbind (slift (tl_multi T inner)) (\<lambda>multi.
     sbind (write_file_at io out (Stream_Json (tl_stream T multi))) (\<lambda>_.
     (let n = length (tl_stream T multi); fri_len = length (tl_fri T multi)
      in sbind (slift (ensure (fri_len + 1 \<le> n) (Decode BadShape) (Inr ()))) (\<lambda>_.
           write_file_at io (with_extension out ''meta.json'') (Meta_Json n (n - (fri_len + 1)))))))))"

definition read_cairo_proof ::
  "('k, 'v, 'x, 'r, 'i, 'q, 'e, 'm) tools \<Rightarrow> string \<Rightarrow> ((('k, 'v, 'x) bridge_proof, 'e) files, ('k, 'v, 'x) bridge_proof) st" where
  "read_cairo_proof T path fs =
     (fs, case fs path of
        None \<Rightarrow> Inl (File Missing)
      | Some (Proof_Json p) \<Rightarrow> rbind (check_proof_shape T p) (\<lambda>_. Inr p)
      | Some _ \<Rightarrow> Inl (Decode BadShape))"

definition read_preimage :: "crates \<Rightarrow> string \<Rightarrow> (('p, 'e) files, felt list) st" where
  "read_preimage C path fs =
     (fs, case fs path of
        None \<Rightarrow> Inl (File Missing)
      | Some (Preimage_Json hex) \<Rightarrow> rmap (felt_from_hex C) hex
      | Some _ \<Rightarrow> Inl (Decode BadShape))"

definition write_preimage :: "(string \<Rightarrow> bool) \<Rightarrow> string \<Rightarrow> felt list \<Rightarrow> (('p, 'e) files, unit) st" where
  "write_preimage io path preimage = write_file_at io path (Preimage_Json (map hex0x preimage))"

section \<open>The C entry points\<close>

text \<open>A \<^verbatim>\<open>c_char\<close> pointer: null, or bytes that must be UTF-8 (\<open>None\<close> when they are not).\<close>

datatype c_path = Null | C_Str "string option"

fun cstr_path :: "c_path \<Rightarrow> string option" where
  "cstr_path Null = None"
| "cstr_path (C_Str s) = s"

text \<open>\<^verbatim>\<open>report\<close> after \<^verbatim>\<open>catch_unwind\<close>: 0 done, 1 an error, 2 a panic.\<close>

fun report :: "unit res \<Rightarrow> nat" where
  "report (Inr ()) = 0"
| "report (Inl e) = (if e = Panic then 2 else 1)"

definition zkmsg_prove ::
  "(string \<Rightarrow> bool) \<Rightarrow> ('k, 'v, 'x, 'r, 'i, 'q, 'e, 'm) tools \<Rightarrow> c_path \<Rightarrow> c_path \<Rightarrow> c_path \<Rightarrow> c_path
   \<Rightarrow> (('k, 'v, 'x) bridge_proof, 'e) files \<Rightarrow> (('k, 'v, 'x) bridge_proof, 'e) files \<times> nat" where
  "zkmsg_prove io T task args proof_out preimage_out fs =
     (case (cstr_path task, cstr_path proof_out, cstr_path preimage_out) of
        (Some task, Some proof_out, Some preimage_out) \<Rightarrow>
          (case sbind (slift (prove_stage T task (cstr_path args))) (\<lambda>(proof, preimage).
                sbind (write_file_at io proof_out (Proof_Json proof)) (\<lambda>_.
                write_preimage io preimage_out preimage)) fs of
             (fs', r) \<Rightarrow> (fs', report r))
      | _ \<Rightarrow> (fs, 3))"

definition wrap_files ::
  "crates \<Rightarrow> (string \<Rightarrow> bool) \<Rightarrow> ('k, 'v, 'x, 'r, 'i, 'q, 'e, 'm) tools \<Rightarrow> string \<Rightarrow> string \<Rightarrow> string
   \<Rightarrow> ((('k, 'v, 'x) bridge_proof, 'e) files, unit) st" where
  "wrap_files C io T proof_in preimage_in out =
     sbind (read_cairo_proof T proof_in) (\<lambda>proof.
     sbind (read_preimage C preimage_in) (\<lambda>preimage.
     sbind (slift (bootloader_outputs_checked T proof preimage)) (\<lambda>outputs.
     sbind (slift (bootloader_config_for_proof T proof)) (\<lambda>config.
       wrap_stage io T proof config outputs out))))"

definition zkmsg_wrap ::
  "crates \<Rightarrow> (string \<Rightarrow> bool) \<Rightarrow> ('k, 'v, 'x, 'r, 'i, 'q, 'e, 'm) tools \<Rightarrow> c_path \<Rightarrow> c_path \<Rightarrow> c_path
   \<Rightarrow> (('k, 'v, 'x) bridge_proof, 'e) files \<Rightarrow> (('k, 'v, 'x) bridge_proof, 'e) files \<times> nat" where
  "zkmsg_wrap C io T proof_in preimage_in out fs =
     (case (cstr_path proof_in, cstr_path preimage_in, cstr_path out) of
        (Some proof_in, Some preimage_in, Some out) \<Rightarrow>
          (case wrap_files C io T proof_in preimage_in out fs of (fs', r) \<Rightarrow> (fs', report r))
      | _ \<Rightarrow> (fs, 3))"

section \<open>main.rs: the command line\<close>

datatype bridge_cmd =
    Prove_Cmd string string string "string option"
  | Wrap_Cmd string string string
  | Wrap_App_Cmd string string
  | Lane2_Cmd channel_hash string string string "string option" "string option"
  | Full_Cmd string string "string option" "string option"

datatype invocation =
    Bridge_Cmd bridge_cmd
  | Split_Cmd string string nat bool
  | Emit_Cmd string string nat nat bool

definition arg :: "string list \<Rightarrow> nat \<Rightarrow> string option" where
  "arg argv i = (if i < length argv then Some (argv ! i) else None)"

definition need :: "string list \<Rightarrow> nat \<Rightarrow> string res" where
  "need argv i = of_opt (Decode BadShape) (arg argv i)"

text \<open>The flag \<^verbatim>\<open>--extended <path>\<close> is taken out wherever it stands; the last one counts.\<close>

fun split_extended :: "string list \<Rightarrow> string option \<Rightarrow> (string list \<times> string option) res" where
  "split_extended [] ext = Inr ([], ext)"
| "split_extended (a # argv) ext =
     (if a = ''--extended'' then (case argv of [] \<Rightarrow> Inl (Decode BadShape) | path # rest \<Rightarrow> split_extended rest (Some path))
      else rbind (split_extended argv ext) (\<lambda>(ps, e). Inr (a # ps, e)))"

definition split_blake :: "string list \<Rightarrow> string list \<times> bool" where
  "split_blake argv = (filter (\<lambda>a. a \<noteq> ''--blake'') argv, ''--blake'' \<in> set argv)"

definition number_or :: "nat \<Rightarrow> string option \<Rightarrow> nat res" where
  "number_or d a = (case a of None \<Rightarrow> Inr d | Some s \<Rightarrow> of_opt (Decode BadShape) (parse_radix 64 10 s))"

definition parse_prove :: "string list \<Rightarrow> invocation res" where
  "parse_prove argv =
     rbind (need argv 1) (\<lambda>task. rbind (need argv 2) (\<lambda>proof_out. rbind (need argv 3) (\<lambda>preimage_out.
       Inr (Bridge_Cmd (Prove_Cmd task proof_out preimage_out (arg argv 4))))))"

definition parse_wrap :: "string list \<Rightarrow> invocation res" where
  "parse_wrap argv =
     rbind (need argv 1) (\<lambda>proof_in. rbind (need argv 2) (\<lambda>preimage_in. rbind (need argv 3) (\<lambda>out.
       Inr (Bridge_Cmd (Wrap_Cmd proof_in preimage_in out)))))"

definition parse_lane2 :: "channel_hash \<Rightarrow> string list \<Rightarrow> invocation res" where
  "parse_lane2 channel argv =
     rbind (split_extended (tl argv) None) (\<lambda>(ps, ext).
     rbind (need ps 0) (\<lambda>task. rbind (need ps 1) (\<lambda>proof_out. rbind (need ps 2) (\<lambda>params.
       Inr (Bridge_Cmd (Lane2_Cmd channel task proof_out params (arg ps 3) ext))))))"

definition parse_split :: "string list \<Rightarrow> invocation res" where
  "parse_split argv =
     (case split_blake (tl argv) of (ps, blake) \<Rightarrow>
        rbind (need ps 0) (\<lambda>extended_in. rbind (need ps 1) (\<lambda>out_dir. rbind (number_or 7 (arg ps 2)) (\<lambda>group_size.
          Inr (Split_Cmd extended_in out_dir group_size blake)))))"

definition parse_emit :: "string list \<Rightarrow> invocation res" where
  "parse_emit argv =
     (case split_blake (tl argv) of (ps, blake) \<Rightarrow>
        rbind (need ps 0) (\<lambda>extended_in. rbind (need ps 1) (\<lambda>out_dir.
        rbind (number_or 540 (arg ps 2)) (\<lambda>chunk_entries. rbind (number_or 7 (arg ps 3)) (\<lambda>group_size.
          Inr (Emit_Cmd extended_in out_dir chunk_entries group_size blake))))))"

definition parse_wrap_app :: "string list \<Rightarrow> invocation res" where
  "parse_wrap_app argv =
     rbind (need argv 1) (\<lambda>proof_in. rbind (need argv 2) (\<lambda>out. Inr (Bridge_Cmd (Wrap_App_Cmd proof_in out))))"

definition parse_full :: "string list \<Rightarrow> invocation res" where
  "parse_full argv =
     (let offset = (if arg argv 0 = Some ''full'' then 1 else 0)
      in rbind (need argv offset) (\<lambda>task. rbind (need argv (offset + 1)) (\<lambda>out.
           Inr (Bridge_Cmd (Full_Cmd task out (arg argv (offset + 2)) (arg argv (offset + 3)))))))"

definition parse_args :: "string list \<Rightarrow> invocation res" where
  "parse_args argv =
     (case argv of
        [] \<Rightarrow> Inl (Decode BadShape)
      | first # _ \<Rightarrow>
          if first = ''prove'' then parse_prove argv
          else if first = ''wrap'' then parse_wrap argv
          else if first = ''prove-poseidon'' then parse_lane2 Poseidon252 argv
          else if first = ''prove-blake'' then parse_lane2 Blake2s argv
          else if first = ''split-witness'' then parse_split argv
          else if first = ''emit-calldata'' then parse_emit argv
          else if first = ''wrap-app'' then parse_wrap_app argv
          else parse_full argv)"

section \<open>main.rs: the runs\<close>

definition run_prove ::
  "(string \<Rightarrow> bool) \<Rightarrow> ('k, 'v, 'x, 'r, 'i, 'q, 'e, 'm) tools \<Rightarrow> string \<Rightarrow> string \<Rightarrow> string \<Rightarrow> string option
   \<Rightarrow> ((('k, 'v, 'x) bridge_proof, 'e) files, unit) st" where
  "run_prove io T task proof_out preimage_out args =
     sbind (slift (prove_stage T task args)) (\<lambda>(proof, preimage).
     sbind (write_file_at io proof_out (Proof_Json proof)) (\<lambda>_.
       write_preimage io preimage_out preimage))"

definition run_wrap_app ::
  "(string \<Rightarrow> bool) \<Rightarrow> ('k, 'v, 'x, 'r, 'i, 'q, 'e, 'm) tools \<Rightarrow> string \<Rightarrow> string
   \<Rightarrow> ((('k, 'v, 'x) bridge_proof, 'e) files, unit) st" where
  "run_wrap_app io T proof_in out =
     sbind (read_cairo_proof T proof_in) (\<lambda>proof.
       case app_config_for_proof T proof of (config, outputs) \<Rightarrow> wrap_stage io T proof config outputs out)"

definition run_lane2 ::
  "(string \<Rightarrow> bool) \<Rightarrow> ('k, 'v, 'x, 'r, 'i, 'q, 'e, 'm) tools \<Rightarrow> channel_hash \<Rightarrow> string \<Rightarrow> string \<Rightarrow> string \<Rightarrow> string option
   \<Rightarrow> string option \<Rightarrow> ((('k, 'v, 'x) bridge_proof, 'e) files, unit) st" where
  "run_lane2 io T channel task proof_out params args ext =
     sbind sget (\<lambda>fs. sbind (slift (case fs params of
         None \<Rightarrow> Inl (File Missing) | Some (Params_Json h) \<Rightarrow> Inr h | Some _ \<Rightarrow> Inl (Decode BadShape))) (\<lambda>h.
     sbind (slift (ensure (h = channel) (Decode BadShape) (Inr ()))) (\<lambda>_.
     sbind (slift (bootloader_stage T task args)) (\<lambda>(input, preimage).
     sbind (slift (tl_prove_lane2 T channel input)) (\<lambda>proof.
     sbind (write_file_at io proof_out (Serde_Felts proof)) (\<lambda>_.
       case ext of None \<Rightarrow> sret () | Some path \<Rightarrow> write_file_at io path (Extended_Json proof)))))))"

definition run_full ::
  "(string \<Rightarrow> bool) \<Rightarrow> ('k, 'v, 'x, 'r, 'i, 'q, 'e, 'm) tools \<Rightarrow> string \<Rightarrow> string \<Rightarrow> string option \<Rightarrow> string option
   \<Rightarrow> ((('k, 'v, 'x) bridge_proof, 'e) files, unit) st" where
  "run_full io T task out preimage_out args =
     sbind (slift (prove_stage T task args)) (\<lambda>(proof, preimage).
     sbind (slift (check_proof_shape T proof)) (\<lambda>_.
     sbind (slift (bootloader_outputs_checked T proof preimage)) (\<lambda>outputs.
     sbind (slift (bootloader_config_for_proof T proof)) (\<lambda>config.
     sbind (wrap_stage io T proof config outputs out) (\<lambda>_.
       case preimage_out of None \<Rightarrow> sret () | Some p \<Rightarrow> write_preimage io p preimage)))))"

text \<open>The commands that prove and wrap; the two that cut a proof are \<open>split_witness\<close> and
  \<open>emit_calldata\<close> of \<open>Calldata\<close>.\<close>

fun run_bridge ::
  "crates \<Rightarrow> (string \<Rightarrow> bool) \<Rightarrow> ('k, 'v, 'x, 'r, 'i, 'q, 'e, 'm) tools \<Rightarrow> bridge_cmd
   \<Rightarrow> ((('k, 'v, 'x) bridge_proof, 'e) files, unit) st" where
  "run_bridge C io T (Prove_Cmd task proof_out preimage_out args) = run_prove io T task proof_out preimage_out args"
| "run_bridge C io T (Wrap_Cmd proof_in preimage_in out) = wrap_files C io T proof_in preimage_in out"
| "run_bridge C io T (Wrap_App_Cmd proof_in out) = run_wrap_app io T proof_in out"
| "run_bridge C io T (Lane2_Cmd channel task proof_out params args ext) = run_lane2 io T channel task proof_out params args ext"
| "run_bridge C io T (Full_Cmd task out preimage_out args) = run_full io T task out preimage_out args"

section \<open>What a written stream attests\<close>

text \<open>The stream of a proof in a circuit: the proof has the pinned parameters, the circuit accepts its
  outputs, and the stream is the multiverifier's.\<close>

definition attests ::
  "('k, 'v, 'x, 'r, 'i, 'q, 'e, 'm) tools \<Rightarrow> ('k, 'v, 'x) bridge_proof \<Rightarrow> 'r circuit_config \<Rightarrow> nat list list \<Rightarrow> felt list \<Rightarrow> bool" where
  "attests T p config outputs st =
     (bp_pcs p = tl_pcs T \<and> bp_variant p = tl_small T \<and> tl_valid T p config outputs
      \<and> (\<exists>inner multi. tl_circuit T p config outputs = Inr inner \<and> tl_multi T inner = Inr multi \<and> st = tl_stream T multi))"

text \<open>The privacy bootloader's circuit, with the component set of the proof; the only output of the proof
  is the hash of \<open>preimage\<close>.\<close>

definition in_privacy_circuit ::
  "('k, 'v, 'x, 'r, 'i, 'q, 'e, 'm) tools \<Rightarrow> ('k, 'v, 'x) bridge_proof \<Rightarrow> felt list \<Rightarrow> 'r circuit_config \<Rightarrow> nat list list \<Rightarrow> bool" where
  "in_privacy_circuit T p preimage config outputs =
     (\<exists>base. tl_privacy T = Inr base \<and> config = base\<lparr>cc_bits := bp_bits p, cc_components := enabled_components T p\<rparr>
        \<and> public_outputs T p = [tl_output T preimage] \<and> outputs = public_outputs T p)"

text \<open>The circuit of the proven program itself, under the root pinned for its size.\<close>

definition in_own_circuit ::
  "('k, 'v, 'x, 'r, 'i, 'q, 'e, 'm) tools \<Rightarrow> ('k, 'v, 'x) bridge_proof \<Rightarrow> 'r circuit_config \<Rightarrow> nat list list \<Rightarrow> bool" where
  "in_own_circuit T p config outputs =
     (config = \<lparr>cc_components = enabled_components T p, cc_bits = bp_bits p, cc_program = map (\<lambda>(_, v). tl_split T v) (bp_program p),
        cc_outputs = length outputs, cc_root = tl_root T (tl_lifting T (enabled_components T p))\<rparr> \<and> outputs = public_outputs T p)"

lemma write_file_at_Inr: "write_file_at io path a fs = (fs', Inr u) \<longleftrightarrow> io path \<and> fs' = fs(path \<mapsto> a)"
  by (auto simp: write_file_at_def)

lemma write_file_at_other: "write_file_at io path a fs = (fs', r) \<Longrightarrow> fs' q = fs q \<or> (q = path \<and> fs' q = Some a)"
  by (auto simp: write_file_at_def split: if_splits)

lemma wrap_stage_stream:
  assumes "wrap_stage io T p config outputs out fs = (fs', r)" and "fs' q = Some (Stream_Json st)" and "fs q \<noteq> fs' q"
  shows "q = out \<and> tl_valid T p config outputs
       \<and> (\<exists>inner multi. tl_circuit T p config outputs = Inr inner \<and> tl_multi T inner = Inr multi \<and> st = tl_stream T multi)"
  using assms
  by (auto simp: wrap_stage_def sbind_def Let_def ensure_def write_file_at_def split: sum.splits if_splits prod.splits)

text \<open>Steps that put no new stream on disk.\<close>

definition no_new_stream :: "('p, 'e) files \<Rightarrow> ('p, 'e) files \<Rightarrow> bool" where
  "no_new_stream fs fs' = (\<forall>q st. fs' q = Some (Stream_Json st) \<longrightarrow> fs' q = fs q)"

interpretation quiet: step_rel no_new_stream
proof (unfold_locales, goal_cases)
  case (2 s s1 s2)
  then show ?case unfolding no_new_stream_def by metis
qed (simp add: no_new_stream_def)

lemma quiet_write: "(\<And>st. a \<noteq> Stream_Json st) \<Longrightarrow> stepwise no_new_stream (write_file_at io path a)"
  by (auto simp: stepwise_def no_new_stream_def write_file_at_def)

lemma quiet_runs:
  "stepwise no_new_stream (run_prove io T task proof_out preimage_out args)"
  "stepwise no_new_stream (run_lane2 io T channel task proof_out params args ext)"
  unfolding run_prove_def run_lane2_def write_preimage_def
  by (auto intro!: quiet.steps_intro quiet_write split: prod.splits)

text \<open>A step that only looks at the files: when something changed, it succeeded.\<close>

lemma look_then:
  assumes "sbind m f fs = (fs', r)" and "fst (m fs) = fs" and "fs q \<noteq> fs' q"
  shows "\<exists>x. m fs = (fs, Inr x) \<and> f x fs = (fs', r)"
  using assms by (cases "m fs"; cases "snd (m fs)") (auto simp: sbind_def)

lemma slift_then:
  "sbind (slift m) f fs = (fs', r) \<Longrightarrow> fs q \<noteq> fs' q \<Longrightarrow> \<exists>x. m = Inr x \<and> f x fs = (fs', r)"
  using look_then [of "slift m" f fs fs' r q] by auto

lemma reads_look [simp]: "fst (read_cairo_proof T path fs) = fs" "fst (read_preimage C path fs) = fs"
  by (simp_all add: read_cairo_proof_def read_preimage_def)

lemma read_cairo_proof_Inr:
  "read_cairo_proof T path fs = (fs', Inr p) \<longleftrightarrow> fs' = fs \<and> fs path = Some (Proof_Json p) \<and> check_proof_shape T p = Inr ()"
  by (auto simp: read_cairo_proof_def res_inv split: option.splits artifact.splits)

lemma outputs_checked_Inr:
  "bootloader_outputs_checked T p preimage = Inr outputs \<longleftrightarrow> outputs = [tl_output T preimage] \<and> public_outputs T p = outputs"
  by (auto simp: bootloader_outputs_checked_def Let_def ensure_eq_Inr)

lemma privacy_circuit:
  assumes "bootloader_outputs_checked T p preimage = Inr outputs" and "bootloader_config_for_proof T p = Inr config"
  shows "in_privacy_circuit T p preimage config outputs"
  using assms by (auto simp: in_privacy_circuit_def bootloader_config_for_proof_def outputs_checked_Inr res_inv)

lemma wrap_stage_attests:
  assumes "wrap_stage io T p config outputs out fs = (fs', r)" and "check_proof_shape T p = Inr ()"
    and "fs' q = Some (Stream_Json st)" and "fs q \<noteq> fs' q"
  shows "q = out \<and> attests T p config outputs st"
  using wrap_stage_stream [OF assms(1,3,4)] assms(2) by (auto simp: attests_def check_proof_shape_def ensure_eq_Inr)

lemma wrap_files_stream:
  assumes "wrap_files C io T proof_in preimage_in out fs = (fs', r)" and st: "fs' q = Some (Stream_Json st)" and ch: "fs q \<noteq> fs' q"
  shows "q = out \<and> (\<exists>p hex preimage config outputs. fs proof_in = Some (Proof_Json p) \<and> fs preimage_in = Some (Preimage_Json hex)
    \<and> rmap (felt_from_hex C) hex = Inr preimage \<and> in_privacy_circuit T p preimage config outputs \<and> attests T p config outputs st)"
proof -
  from look_then [OF assms(1) [unfolded wrap_files_def] reads_look(1) ch]
  obtain p where p: "read_cairo_proof T proof_in fs = (fs, Inr p)" and run: "sbind (read_preimage C preimage_in) (\<lambda>preimage.
     sbind (slift (bootloader_outputs_checked T p preimage)) (\<lambda>outputs.
     sbind (slift (bootloader_config_for_proof T p)) (\<lambda>config. wrap_stage io T p config outputs out))) fs = (fs', r)" by blast
  from look_then [OF run reads_look(2) ch] obtain preimage where pre: "read_preimage C preimage_in fs = (fs, Inr preimage)"
    and run: "sbind (slift (bootloader_outputs_checked T p preimage)) (\<lambda>outputs.
     sbind (slift (bootloader_config_for_proof T p)) (\<lambda>config. wrap_stage io T p config outputs out)) fs = (fs', r)" by blast
  from slift_then [OF run ch] obtain outputs where o: "bootloader_outputs_checked T p preimage = Inr outputs"
    and run: "sbind (slift (bootloader_config_for_proof T p)) (\<lambda>config. wrap_stage io T p config outputs out) fs = (fs', r)" by blast
  from slift_then [OF run ch] obtain config where c: "bootloader_config_for_proof T p = Inr config"
    and run: "wrap_stage io T p config outputs out fs = (fs', r)" by blast
  obtain hex where "fs preimage_in = Some (Preimage_Json hex)" "rmap (felt_from_hex C) hex = Inr preimage"
    using pre by (auto simp: read_preimage_def split: option.splits artifact.splits)
  moreover have pf: "fs proof_in = Some (Proof_Json p)" "check_proof_shape T p = Inr ()" using p by (simp_all add: read_cairo_proof_Inr)
  ultimately show ?thesis using wrap_stage_attests [OF run pf(2) st ch] privacy_circuit [OF o c] by blast
qed

lemma run_full_stream:
  assumes "run_full io T task out preimage_out args fs = (fs', r)" and st: "fs' q = Some (Stream_Json st)" and ch: "fs q \<noteq> fs' q"
  shows "q = out \<and> (\<exists>p preimage config outputs. prove_stage T task args = Inr (p, preimage)
    \<and> in_privacy_circuit T p preimage config outputs \<and> attests T p config outputs st)"
proof -
  let ?rest = "\<lambda>preimage _. case preimage_out of None \<Rightarrow> sret () | Some p \<Rightarrow> write_preimage io p preimage"
  from slift_then [OF assms(1) [unfolded run_full_def] ch]
  obtain p preimage where pp: "prove_stage T task args = Inr (p, preimage)"
    and run: "sbind (slift (check_proof_shape T p)) (\<lambda>_. sbind (slift (bootloader_outputs_checked T p preimage)) (\<lambda>outputs.
     sbind (slift (bootloader_config_for_proof T p)) (\<lambda>config. sbind (wrap_stage io T p config outputs out) (?rest preimage)))) fs = (fs', r)"
    by auto
  from slift_then [OF run ch] have shape: "check_proof_shape T p = Inr ()" and run: "sbind (slift (bootloader_outputs_checked T p preimage)) (\<lambda>outputs.
     sbind (slift (bootloader_config_for_proof T p)) (\<lambda>config. sbind (wrap_stage io T p config outputs out) (?rest preimage))) fs = (fs', r)" by auto
  from slift_then [OF run ch] obtain outputs where o: "bootloader_outputs_checked T p preimage = Inr outputs" and run: "sbind (slift (bootloader_config_for_proof T p))
     (\<lambda>config. sbind (wrap_stage io T p config outputs out) (?rest preimage)) fs = (fs', r)" by blast
  from slift_then [OF run ch] obtain config where c: "bootloader_config_for_proof T p = Inr config"
    and run: "sbind (wrap_stage io T p config outputs out) (?rest preimage) fs = (fs', r)" by blast
  obtain fs1 r1 where w: "wrap_stage io T p config outputs out fs = (fs1, r1)" by fastforce
  have "stepwise no_new_stream (?rest preimage ())"
    unfolding write_preimage_def by (auto intro!: quiet.steps_intro quiet_write)
  then have "no_new_stream fs1 fs'" using run w steps_run by (cases r1) (fastforce simp: sbind_def no_new_stream_def)+
  then have "fs1 q = Some (Stream_Json st)" "fs q \<noteq> fs1 q" using st ch by (auto simp: no_new_stream_def)
  from wrap_stage_attests [OF w shape this] pp privacy_circuit [OF o c] show ?thesis by blast
qed

lemma run_wrap_app_stream:
  assumes "run_wrap_app io T proof_in out fs = (fs', r)" and st: "fs' q = Some (Stream_Json st)" and ch: "fs q \<noteq> fs' q"
  shows "q = out \<and> (\<exists>p config outputs. fs proof_in = Some (Proof_Json p) \<and> in_own_circuit T p config outputs \<and> attests T p config outputs st)"
proof -
  from look_then [OF assms(1) [unfolded run_wrap_app_def] reads_look(1) ch]
  obtain p where p: "read_cairo_proof T proof_in fs = (fs, Inr p)"
    and w: "(case app_config_for_proof T p of (config, outputs) \<Rightarrow> wrap_stage io T p config outputs out) fs = (fs', r)" by blast
  obtain config outputs where c: "app_config_for_proof T p = (config, outputs)" by fastforce
  with w have run: "wrap_stage io T p config outputs out fs = (fs', r)" by simp
  have "in_own_circuit T p config outputs" using c by (auto simp: in_own_circuit_def app_config_for_proof_def Let_def)
  moreover have pf: "fs proof_in = Some (Proof_Json p)" "check_proof_shape T p = Inr ()" using p by (simp_all add: read_cairo_proof_Inr)
  ultimately show ?thesis using wrap_stage_attests [OF run pf(2) st ch] by blast
qed

section \<open>The files of a wrap that succeeds\<close>

lemma extension_suffix:
  assumes "extension path = Some e"
  shows "CHR ''.'' \<notin> set e \<and> (\<exists>d. path = d @ e)"
proof -
  let ?r = "rev (file_name path)"
  have e: "e = rev (takeWhile (\<lambda>c. c \<noteq> CHR ''.'') ?r)" using assms by (simp add: extension_def Let_def split: if_splits)
  have "?r = takeWhile (\<lambda>c. c \<noteq> CHR ''/'') (rev path)" by (simp add: file_name_def)
  then have "rev path = ?r @ dropWhile (\<lambda>c. c \<noteq> CHR ''/'') (rev path)" by simp
  also have "?r = rev e @ dropWhile (\<lambda>c. c \<noteq> CHR ''.'') ?r" by (simp add: e)
  finally have "path = rev (dropWhile (\<lambda>c. c \<noteq> CHR ''.'') ?r @ dropWhile (\<lambda>c. c \<noteq> CHR ''/'') (rev path)) @ e"
    by (metis append_assoc rev_append rev_rev_ident)
  moreover have "CHR ''.'' \<notin> set e" by (auto simp: e dest: set_takeWhileD)
  ultimately show ?thesis by blast
qed

lemma meta_path_differs: "with_extension path ''meta.json'' \<noteq> path"
proof (cases "extension path")
  case (Some e)
  then obtain d where d: "path = d @ e" "CHR ''.'' \<notin> set e" using extension_suffix by blast
  then have "with_extension path ''meta.json'' = d @ ''meta.json''" using Some by (simp add: with_extension_def)
  then show ?thesis using d by auto
qed (simp add: with_extension_def)

lemma wrap_stage_Inr:
  "wrap_stage io T p config outputs out fs = (fs', Inr u) \<longleftrightarrow>
     (\<exists>inner multi. tl_valid T p config outputs \<and> tl_circuit T p config outputs = Inr inner \<and> tl_multi T inner = Inr multi
      \<and> io out \<and> io (with_extension out ''meta.json'') \<and> length (tl_fri T multi) + 1 \<le> length (tl_stream T multi)
      \<and> fs' = fs(out \<mapsto> Stream_Json (tl_stream T multi),
          with_extension out ''meta.json'' \<mapsto> Meta_Json (length (tl_stream T multi)) (length (tl_stream T multi) - (length (tl_fri T multi) + 1))))"
  by (auto simp: wrap_stage_def Let_def sbind_Inr write_file_at_Inr ensure_eq_Inr)

lemma wrap_files_Inr:
  assumes "wrap_files C io T proof_in preimage_in out fs = (fs', Inr u)"
  shows "\<exists>p hex preimage config outputs st. fs proof_in = Some (Proof_Json p) \<and> fs preimage_in = Some (Preimage_Json hex)
    \<and> rmap (felt_from_hex C) hex = Inr preimage \<and> in_privacy_circuit T p preimage config outputs \<and> attests T p config outputs st
    \<and> fs' out = Some (Stream_Json st)"
proof -
  obtain p preimage outputs config where p: "fs proof_in = Some (Proof_Json p)" "check_proof_shape T p = Inr ()"
    "read_preimage C preimage_in fs = (fs, Inr preimage)"
    "bootloader_outputs_checked T p preimage = Inr outputs" "bootloader_config_for_proof T p = Inr config"
    "wrap_stage io T p config outputs out fs = (fs', Inr u)"
    using assms by (auto simp: wrap_files_def sbind_Inr read_cairo_proof_Inr read_preimage_def)
  have "\<exists>st. fs' out = Some (Stream_Json st) \<and> attests T p config outputs st"
    using p(2,6) meta_path_differs [of out] by (auto simp: wrap_stage_Inr attests_def check_proof_shape_def ensure_eq_Inr)
  moreover obtain hex where "fs preimage_in = Some (Preimage_Json hex)" "rmap (felt_from_hex C) hex = Inr preimage"
    using p(3) by (auto simp: read_preimage_def split: option.splits artifact.splits)
  ultimately show ?thesis using p(1) privacy_circuit [OF p(4,5)] by blast
qed

definition demo_bridge_proof :: "(nat, bool, unit) bridge_proof" where
  "demo_bridge_proof = \<lparr>bp_pcs = 5, bp_variant = True, bp_bits = [True, False], bp_program = [(0, 11)], bp_output = [(1, 3)], bp_rest = ()\<rparr>"

definition demo_tools :: "(nat, bool, unit, nat, unit, unit, unit, nat list) tools" where
  "demo_tools =
     \<lparr>tl_pcs = 5, tl_small = True, tl_components = [''add'', ''mul''], tl_split = (\<lambda>f. [f]), tl_output = (\<lambda>pre. [sum_list pre]),
      tl_privacy = Inr \<lparr>cc_components = [], cc_bits = [], cc_program = [[7]], cc_outputs = 1, cc_root = 99\<rparr>,
      tl_root = (\<lambda>n. n), tl_lifting = length, tl_task = (\<lambda>_ _. Inr ()), tl_pie = (\<lambda>_. Inr ()), tl_boot = (\<lambda>_. Inr ((), [1, 2])),
      tl_prove = (\<lambda>_. Inr demo_bridge_proof), tl_prove_lane2 = (\<lambda>_ _. Inr ()), tl_valid = (\<lambda>_ _ _. True),
      tl_circuit = (\<lambda>_ _ _. Inr [30, 31]), tl_multi = Inr, tl_stream = (\<lambda>m. [20, 21] @ m @ [9]), tl_fri = (\<lambda>m. m)\<rparr>"

text \<open>A proof and its preimage on disk, to be wrapped.\<close>

definition proven :: "((nat, bool, unit) bridge_proof, unit) files" where
  "proven = [''proof.json'' \<mapsto> Proof_Json demo_bridge_proof, ''preimage.json'' \<mapsto> Preimage_Json [''0x1'', ''0x2'']]"

lemma demo_wrap_run:
  "\<exists>fs'. run_bridge demo_crates (\<lambda>_. True) demo_tools (Wrap_Cmd ''proof.json'' ''preimage.json'' ''out'') proven = (fs', Inr ())
     \<and> fs' ''out'' = Some (Stream_Json [20, 21, 30, 31, 9])"
proof -
  have "with_extension ''out'' ''meta.json'' \<noteq> ''out''" by (rule meta_path_differs)
  moreover have "rmap (felt_from_hex demo_crates) [''0x1'', ''0x2''] = Inr [1, 2]"
    by (simp add: felt_from_hex_def demo_crates_def demo_felt_of_hex_def hex_digits_def STARK_PRIME_def)
  ultimately show ?thesis
    by (simp add: wrap_files_def read_cairo_proof_def read_preimage_def proven_def check_proof_shape_def bootloader_outputs_checked_def public_outputs_def
        bootloader_config_for_proof_def demo_tools_def demo_bridge_proof_def wrap_stage_def write_file_at_def sbind_def del: rmap.simps)
qed

section \<open>Properties\<close>



text \<open>the FRI section is where the written meta file says. With the layout the bridge relies on, the FRI
  section followed by exactly one felt at the end of the stream, the stream and the meta file are
  two files, the count is the stream's, and from the offset on the stream is the FRI section and
  the salt.\<close>

theorem fri_section_is_found:
  assumes "wrap_stage io T p config outputs out fs = (fs', Inr u)"
    and layout: "\<And>m. \<exists>pre salt. tl_stream T m = pre @ tl_fri T m @ [salt]"
  shows "\<exists>st n offset m salt. fs' out = Some (Stream_Json st) \<and> fs' (with_extension out ''meta.json'') = Some (Meta_Json n offset)
       \<and> st = tl_stream T m \<and> n = length st \<and> drop offset st = tl_fri T m @ [salt]"
proof -
  obtain inner m where m: "fs' = fs(out \<mapsto> Stream_Json (tl_stream T m),
      with_extension out ''meta.json'' \<mapsto> Meta_Json (length (tl_stream T m)) (length (tl_stream T m) - (length (tl_fri T m) + 1)))"
    using assms(1) by (auto simp: wrap_stage_Inr)
  obtain pre salt where "tl_stream T m = pre @ tl_fri T m @ [salt]" using layout by blast
  then show ?thesis using meta_path_differs [of out] by (intro exI [of _ "tl_stream T m"] exI [of _ "length (tl_stream T m)"]
      exI [of _ "length pre"] exI [of _ m] exI [of _ salt]) (simp add: m)
qed

theorem fri_section_is_found_witness:
  "\<exists>fs' st n offset m salt. wrap_stage (\<lambda>_. True) demo_tools demo_bridge_proof \<lparr>cc_components = [], cc_bits = [], cc_program = [], cc_outputs = 1, cc_root = 0\<rparr>
       [] ''out'' (Map.empty :: (_, unit) files) = (fs', Inr ())
     \<and> fs' (with_extension ''out'' ''meta.json'') = Some (Meta_Json n offset) \<and> fs' ''out'' = Some (Stream_Json st) \<and> drop offset st = tl_fri demo_tools m @ [salt]"
proof -
  obtain fs' where run: "wrap_stage (\<lambda>_. True) demo_tools demo_bridge_proof \<lparr>cc_components = [], cc_bits = [], cc_program = [], cc_outputs = 1, cc_root = 0\<rparr>
       [] ''out'' (Map.empty :: (_, unit) files) = (fs', Inr ())"
    by (simp add: wrap_stage_Inr demo_tools_def)
  have "\<exists>pre salt. tl_stream demo_tools m = pre @ tl_fri demo_tools m @ [salt]" for m
    by (rule exI [of _ "[20, 21]"], rule exI [of _ 9]) (simp add: demo_tools_def)
  from fri_section_is_found [OF run this] run show ?thesis by blast
qed

text \<open>the code the phone application gets. 3 means a path was missing or not text, and nothing was
  touched; 2 means a panic was stopped at the boundary; 1 an error; 0 means that the stream on disk
  is over a proof whose parameters and output were checked.\<close>

theorem wrap_reports:
  assumes "zkmsg_wrap C io T proof_in preimage_in out fs = (fs', code)"
  shows "(code = 3 \<longleftrightarrow> cstr_path proof_in = None \<or> cstr_path preimage_in = None \<or> cstr_path out = None) \<and> code \<le> 3
    \<and> (code = 3 \<longrightarrow> fs' = fs)
    \<and> (code = 2 \<longrightarrow> (\<exists>a b c. wrap_files C io T a b c fs = (fs', Inl Panic)))
    \<and> (code = 0 \<longrightarrow> (\<exists>a b c p hex preimage config outputs st. cstr_path proof_in = Some a \<and> cstr_path preimage_in = Some b \<and> cstr_path out = Some c
         \<and> fs a = Some (Proof_Json p) \<and> fs b = Some (Preimage_Json hex) \<and> rmap (felt_from_hex C) hex = Inr preimage
         \<and> in_privacy_circuit T p preimage config outputs \<and> attests T p config outputs st \<and> fs' c = Some (Stream_Json st)))"
proof (cases "cstr_path proof_in = None \<or> cstr_path preimage_in = None \<or> cstr_path out = None")
  case True
  then show ?thesis using assms by (auto simp: zkmsg_wrap_def split: option.splits)
next
  case False
  then obtain a b c where abc: "cstr_path proof_in = Some a" "cstr_path preimage_in = Some b" "cstr_path out = Some c" by auto
  obtain r where r: "wrap_files C io T a b c fs = (fs', r)" "code = report r"
    using assms by (auto simp: zkmsg_wrap_def abc split: prod.splits)
  show ?thesis
  proof (cases r)
    case (Inl e)
    then show ?thesis using r abc by auto
  next
    case (Inr u)
    then show ?thesis using wrap_files_Inr [of C io T a b c fs fs' u] r abc by auto
  qed
qed

theorem wrap_reports_witness: "snd (zkmsg_wrap demo_crates (\<lambda>_. True) demo_tools Null Null Null (Map.empty :: (_, unit) files)) = 3"
proof -
  obtain fs' code where run: "zkmsg_wrap demo_crates (\<lambda>_. True) demo_tools Null Null Null (Map.empty :: (_, unit) files) = (fs', code)" by fastforce
  from wrap_reports [OF run] run show ?thesis by simp
qed

end
