(* ===== verification/Wizard.thy ===== *)
theory Wizard
  imports Session Profiles
begin

text \<open>
  \<^verbatim>\<open>gui/src/wizard_view.rs\<close>: the window that makes a new profile: a form, the dialog that confirms
  what it spends, and the checklist of the setup that runs. A frame delivers what the workers sent
  and at most one input of the user; drawing is left out. What \<^verbatim>\<open>SetupState::load\<close> and \<^verbatim>\<open>save\<close>
  return on \<^verbatim>\<open>setup.json\<close> are arguments (\<open>wx_loaded\<close>, \<open>wx_saved\<close>).
\<close>

section \<open>State\<close>

record wizard =
  wz_name :: string
  wz_handle :: string
  wz_account :: string
  wz_fund :: string
  wz_handle_touched :: bool
  wz_account_touched :: bool
  wz_confirm :: bool
  wz_flow :: "setup_flow option"
  wz_rx :: bool
  wz_dir :: "path option"
  wz_error :: "string option"
  wz_source :: "string option"
  wz_burner :: bool
  wz_mode :: fund_mode
  wz_fund_touched :: bool
  wz_recommend_rx :: bool
  wz_fetched :: bool

record wizard_ctx =
  wx_root :: path
  wx_rpc :: string
  wx_account :: string
  wx_busy :: bool
  wx_disk :: disk
  wx_loaded :: "string + setup_state"
  wx_saved :: "string + unit"

datatype wizard_job = SpawnRecommend string | SpawnSetup string path setup_state

datatype wizard_outcome = WizardOpen | WizardCancelled | WizardCompleted string path

definition new_profile :: wizard where
  "new_profile =
     \<lparr> wz_name = [], wz_handle = [], wz_account = [], wz_fund = [], wz_handle_touched = False, wz_account_touched = False,
       wz_confirm = False, wz_flow = None, wz_rx = False, wz_dir = None, wz_error = None, wz_source = None, wz_burner = False,
       wz_mode = Transfer, wz_fund_touched = False, wz_recommend_rx = False, wz_fetched = False \<rparr>"

text \<open>\<open>draw\<close>: the random bytes of the name.\<close>

definition new_burner :: "crates \<Rightarrow> bytes \<Rightarrow> wizard" where
  "new_burner C draw =
     (let name = burner_name C draw
      in new_profile\<lparr>wz_handle := name, wz_account := ''zkmsg-'' @ name, wz_name := name, wz_handle_touched := True,
           wz_account_touched := True, wz_burner := True, wz_mode := External\<rparr>)"

definition fund_step_done :: "setup_state \<Rightarrow> bool" where
  "fund_step_done st = list_ex (\<lambda>x. ss_kind x = Fund \<and> ss_done x) (su_steps st)"

definition resume_wizard :: "path \<Rightarrow> string + setup_state \<Rightarrow> string + wizard" where
  "resume_wizard dir loaded =
     (case loaded of
        Inl e \<Rightarrow> Inl e
      | Inr st \<Rightarrow> Inr
          \<lparr> wz_name = su_profile_name st, wz_handle = su_handle st, wz_account = su_account_name st, wz_fund = dec_nat (su_fund_strk st),
            wz_handle_touched = True, wz_account_touched = True,
            wz_confirm = (\<not> fund_step_done st \<and> su_fund_mode st = Transfer),
            wz_flow = Some (setup_from_state st), wz_rx = False, wz_dir = Some dir, wz_error = None,
            wz_source = Some (su_source_account st), wz_burner = su_burner st, wz_mode = su_fund_mode st,
            wz_fund_touched = True, wz_recommend_rx = False, wz_fetched = True \<rparr>)"

definition wizard_running :: "wizard \<Rightarrow> bool" where
  "wizard_running w = wz_rx w"

section \<open>Starting the setup\<close>

definition planned :: "wizard \<Rightarrow> string \<Rightarrow> nat \<Rightarrow> setup_state" where
  "planned w payer strk =
     (if wz_burner w then new_plan_external_burner (trim_ws (wz_name w)) (trim_ws (wz_handle w)) (trim_ws (wz_account w)) strk
      else new_plan (trim_ws (wz_name w)) (trim_ws (wz_handle w)) (trim_ws (wz_account w)) strk payer)"

text \<open>The plan on disk, or a new one that is saved first.\<close>

definition plan_to_run :: "wizard_ctx \<Rightarrow> wizard \<Rightarrow> string + setup_state" where
  "plan_to_run x w =
     (case wx_loaded x of
        Inr st \<Rightarrow> Inr st
      | Inl _ \<Rightarrow>
          (case parse_radix 64 10 (trim_ws (wz_fund w)) of
             None \<Rightarrow> Inl ''fund amount must be a whole number''
           | Some strk \<Rightarrow> (case wx_saved x of Inl e \<Rightarrow> Inl e | Inr _ \<Rightarrow> Inr (planned w (wx_account x) strk))))"

definition spawn :: "wizard_ctx \<Rightarrow> wizard \<Rightarrow> wizard \<times> wizard_job list" where
  "spawn x w =
     (if wz_rx w then (w, [])
      else if wx_busy x then (w\<lparr>wz_error := Some ''another operation is running on the active profile''\<rparr>, [])
      else case wz_dir w of
             None \<Rightarrow> (w\<lparr>wz_error := Some ''no profile directory set''\<rparr>, [])
           | Some dir \<Rightarrow>
               (case plan_to_run x w of
                  Inl e \<Rightarrow> (w\<lparr>wz_error := Some e\<rparr>, [])
                | Inr st \<Rightarrow> (w\<lparr>wz_source := Some (su_source_account st), wz_error := None, wz_flow := Some (setup_from_state st), wz_rx := True\<rparr>,
                            [SpawnSetup (wx_rpc x) dir st])))"

definition fund_done :: "wizard \<Rightarrow> bool" where
  "fund_done w =
     (case wz_flow w of None \<Rightarrow> False | Some f \<Rightarrow> list_ex (\<lambda>row. row_kind row = Fund \<and> row_status row = Done) (fl_steps f))"

definition request_resume :: "wizard_ctx \<Rightarrow> wizard \<Rightarrow> wizard \<times> wizard_job list" where
  "request_resume x w = (if fund_done w \<or> wz_mode w = External then spawn x w else (w\<lparr>wz_confirm := True\<rparr>, []))"

section \<open>The form\<close>

datatype wizard_input =
    TypeName string | TypeHandle string | TypeAccountName string | TypeFund string
  | Create | CancelForm
  | RefreshDeposit | Resume | Close
  | ConfirmSetup | CancelConfirm

definition validation_error :: "wizard_ctx \<Rightarrow> wizard \<Rightarrow> string option" where
  "validation_error x w =
     (let name = trim_ws (wz_name w)
      in if name = [] then Some ''name cannot be empty''
         else if list_ex (\<lambda>c. 128 \<le> (of_char c :: nat)) name then Some ''name must be ASCII''
         else if list_ex (\<lambda>c. c = CHR ''/'' \<or> c = CHR 0x5C) name then Some ''name cannot contain a path separator''
         else if file_exists (wx_disk x) (profile_path (wx_root x) name) then Some ''the profile already exists''
         else if trim_ws (wz_handle w) = [] then Some ''handle cannot be empty''
         else if trim_ws (wz_account w) = [] then Some ''account name cannot be empty''
         else case parse_radix 64 10 (trim_ws (wz_fund w)) of
                None \<Rightarrow> Some ''fund amount must be a positive whole number of STRK''
              | Some n \<Rightarrow> if n = 0 then Some ''fund amount must be a positive whole number of STRK'' else None)"

text \<open>Handle and account name follow the name until they are edited.\<close>

definition type_name :: "string \<Rightarrow> wizard \<Rightarrow> wizard" where
  "type_name s w =
     w\<lparr>wz_name := s, wz_handle := (if wz_handle_touched w then wz_handle w else trim_ws s),
       wz_account := (if wz_account_touched w then wz_account w else ''zkmsg-'' @ trim_ws s)\<rparr>"

fun render_form :: "wizard_ctx \<Rightarrow> wizard_input option \<Rightarrow> wizard \<Rightarrow> wizard_outcome \<times> wizard" where
  "render_form x (Some (TypeName s)) w = (WizardOpen, type_name s w)"
| "render_form x (Some (TypeHandle s)) w = (WizardOpen, w\<lparr>wz_handle := s, wz_handle_touched := True\<rparr>)"
| "render_form x (Some (TypeAccountName s)) w = (WizardOpen, w\<lparr>wz_account := s, wz_account_touched := True\<rparr>)"
| "render_form x (Some (TypeFund s)) w = (WizardOpen, w\<lparr>wz_fund := s, wz_fund_touched := True\<rparr>)"
| "render_form x (Some Create) w =
     (WizardOpen,
      if validation_error x w = None \<and> \<not> wx_busy x
      then w\<lparr>wz_dir := Some (profile_path (wx_root x) (trim_ws (wz_name w))), wz_error := None, wz_confirm := True\<rparr> else w)"
| "render_form x (Some CancelForm) w = (WizardCancelled, w)"
| "render_form x _ w = (WizardOpen, w)"

section \<open>The checklist and the dialog\<close>

definition render_checklist :: "wizard_ctx \<Rightarrow> wizard_input option \<Rightarrow> setup_flow \<Rightarrow> wizard \<Rightarrow> wizard_outcome \<times> wizard \<times> wizard_job list" where
  "render_checklist x i f w =
     (if wizard_running w then (WizardOpen, w, [])
      else if i = Some Close then (WizardCancelled, w, [])
      else if fl_awaiting f \<noteq> None then (if i = Some RefreshDeposit \<and> \<not> wx_busy x then (WizardOpen, request_resume x w) else (WizardOpen, w, []))
      else if i = Some Resume \<and> \<not> fl_completed f \<and> \<not> wx_busy x then (WizardOpen, request_resume x w) else (WizardOpen, w, []))"

text \<open>Who pays, as the dialog says.\<close>

definition payer_shown :: "wizard_ctx \<Rightarrow> wizard \<Rightarrow> string" where
  "payer_shown x w = (case wz_source w of Some s \<Rightarrow> s | None \<Rightarrow> wx_account x)"

definition render_confirm :: "wizard_ctx \<Rightarrow> wizard_input option \<Rightarrow> wizard \<Rightarrow> wizard \<times> wizard_job list" where
  "render_confirm x i w =
     (if \<not> wz_confirm w then (w, [])
      else if i = Some CancelConfirm then (w\<lparr>wz_confirm := False\<rparr>, [])
      else if i = Some ConfirmSetup \<and> \<not> wx_busy x then spawn x (w\<lparr>wz_confirm := False\<rparr>)
      else (w, []))"

section \<open>A frame\<close>

datatype setup_msg = SetupProgress setup_event | SetupEnded "string option"

definition poll_setup :: "setup_msg option \<Rightarrow> wizard \<Rightarrow> wizard" where
  "poll_setup m w =
     (if \<not> wz_rx w then w
      else case m of
             None \<Rightarrow> w
           | Some (SetupProgress e) \<Rightarrow> w\<lparr>wz_flow := map_option (\<lambda>f. setup_apply f e) (wz_flow w)\<rparr>
           | Some (SetupEnded None) \<Rightarrow> w\<lparr>wz_rx := False\<rparr>
           | Some (SetupEnded (Some e)) \<Rightarrow> w\<lparr>wz_flow := map_option (setup_fail e) (wz_flow w), wz_error := Some e, wz_rx := False\<rparr>)"

definition fetch_recommended :: "wizard_ctx \<Rightarrow> wizard \<Rightarrow> wizard \<times> wizard_job list" where
  "fetch_recommended x w =
     (if \<not> wz_fetched w \<and> wz_flow w = None then (w\<lparr>wz_fetched := True, wz_recommend_rx := True\<rparr>, [SpawnRecommend (wx_rpc x)]) else (w, []))"

definition poll_recommended :: "nat option \<Rightarrow> wizard \<Rightarrow> wizard" where
  "poll_recommended m w =
     (case m of
        Some strk \<Rightarrow> if wz_recommend_rx w
                     then w\<lparr>wz_recommend_rx := False, wz_fund := (if wz_fund_touched w then wz_fund w else dec_nat strk)\<rparr> else w
      | None \<Rightarrow> w)"

definition wizard_body :: "wizard_ctx \<Rightarrow> wizard_input option \<Rightarrow> wizard \<Rightarrow> wizard_outcome \<times> wizard \<times> wizard_job list" where
  "wizard_body x i w =
     (case wz_flow w of
        Some f \<Rightarrow> render_checklist x i f w
      | None \<Rightarrow> (case render_form x i w of (out, w) \<Rightarrow> (out, w, [])))"

definition wizard_update :: "wizard_ctx \<Rightarrow> nat option \<Rightarrow> setup_msg option \<Rightarrow> wizard_input option \<Rightarrow> wizard
    \<Rightarrow> wizard_outcome \<times> wizard \<times> wizard_job list" where
  "wizard_update x strk m i w0 =
     (let (w1, js) = fetch_recommended x w0;
          w = poll_setup m (poll_recommended strk w1)
      in case (map_option fl_completed (wz_flow w), wz_dir w) of
           (Some True, Some dir) \<Rightarrow> (WizardCompleted (trim_ws (wz_name w)) dir, w, js)
         | _ \<Rightarrow>
             (let (out, w2, js2) = wizard_body x i w; (w3, js3) = render_confirm x i w2
              in (out, w3, js @ js2 @ js3)))"

section \<open>Runs\<close>

text \<open>A run keeps the plan on disk beside the wizard: absent, or what \<^verbatim>\<open>setup.json\<close> holds. Only the
  wizard makes it, when it starts the setup; \<open>wf_worked\<close> is what the worker has done to it since the
  frame before; \<open>wf_unreadable\<close>: reading it fails in this frame.\<close>

record wizard_frame =
  wf_ctx :: wizard_ctx
  wf_worked :: "setup_state \<Rightarrow> setup_state"
  wf_unreadable :: bool
  wf_strk :: "nat option"
  wf_msg :: "setup_msg option"
  wf_input :: "wizard_input option"

definition seen_by :: "wizard_frame \<Rightarrow> setup_state option \<Rightarrow> wizard_ctx" where
  "seen_by f file =
     (wf_ctx f)\<lparr>wx_loaded := (case map_option (wf_worked f) file of
        Some st \<Rightarrow> if wf_unreadable f then Inl ''unreadable'' else Inr st
      | None \<Rightarrow> Inl ''no such file'')\<rparr>"

definition lost_plan :: "wizard_frame \<Rightarrow> setup_state option \<Rightarrow> bool" where
  "lost_plan f file = (file \<noteq> None \<and> wf_unreadable f)"

definition started_plan :: "wizard_job list \<Rightarrow> setup_state option" where
  "started_plan js = (case List.find (\<lambda>j. case j of SpawnSetup _ _ _ \<Rightarrow> True | _ \<Rightarrow> False) js of
     Some (SpawnSetup rpc dir st) \<Rightarrow> Some st | _ \<Rightarrow> None)"

definition plan_after :: "wizard_frame \<Rightarrow> setup_state option \<Rightarrow> wizard_job list \<Rightarrow> setup_state option" where
  "plan_after f file js = (case started_plan js of Some st \<Rightarrow> Some st | None \<Rightarrow> map_option (wf_worked f) file)"

fun wizard_trace :: "wizard_frame list \<Rightarrow> wizard \<times> setup_state option \<Rightarrow> (wizard_ctx \<times> bool \<times> wizard \<times> wizard_input option \<times> wizard_job list) list" where
  "wizard_trace [] s = []"
| "wizard_trace (f # fs) (w, file) =
     (let x = seen_by f file; (out, w', js) = wizard_update x (wf_strk f) (wf_msg f) (wf_input f) w
      in (x, lost_plan f file, w, wf_input f, js) # (if out = WizardOpen then wizard_trace fs (w', plan_after f file js) else []))"

datatype wizard_entry = OpenNew | OpenBurner bytes | OpenResume path setup_state

fun opened :: "crates \<Rightarrow> wizard_entry \<Rightarrow> wizard \<times> setup_state option" where
  "opened C OpenNew = (new_profile, None)"
| "opened C (OpenBurner draw) = (new_burner C draw, None)"
| "opened C (OpenResume dir st) = (case resume_wizard dir (Inr st) of Inr w \<Rightarrow> (w, Some st) | Inl e \<Rightarrow> (new_profile, None))"

text \<open>A plan this program made: a burner's is funded from outside, any other by a transfer.\<close>

fun entry_made :: "wizard_entry \<Rightarrow> bool" where
  "entry_made (OpenResume dir st) = (su_burner st \<longleftrightarrow> su_fund_mode st = External)"
| "entry_made _ = True"

text \<open>The worker keeps who pays and how, and unticks nothing; it reports the funding, or the end,
  after the plan on disk has the funding ticked (\<open>checklist_shows_what_is_saved\<close>).\<close>

definition works_on :: "setup_state \<Rightarrow> setup_state \<Rightarrow> bool" where
  "works_on st st' = (su_source_account st' = su_source_account st \<and> su_fund_mode st' = su_fund_mode st \<and> su_burner st' = su_burner st
     \<and> (fund_step_done st \<longrightarrow> fund_step_done st'))"

fun reports_funding :: "setup_msg option \<Rightarrow> bool" where
  "reports_funding (Some (SetupProgress (SetupStepCompleted k tx nt))) = (k = Fund)"
| "reports_funding (Some (SetupProgress SetupCompleted)) = True"
| "reports_funding _ = False"

fun worker_honest :: "wizard_frame list \<Rightarrow> wizard \<times> setup_state option \<Rightarrow> bool" where
  "worker_honest [] s = True"
| "worker_honest (f # fs) (w, file) =
     (let (out, w', js) = wizard_update (seen_by f file) (wf_strk f) (wf_msg f) (wf_input f) w
      in (case file of
            None \<Rightarrow> True
          | Some st \<Rightarrow> works_on st (wf_worked f st) \<and> (reports_funding (wf_msg f) \<longrightarrow> fund_step_done (wf_worked f st)))
         \<and> (out = WizardOpen \<longrightarrow> worker_honest fs (w', plan_after f file js)))"

section \<open>The spend is confirmed\<close>

definition confirmed :: "wizard_ctx \<times> bool \<times> wizard \<times> wizard_input option \<times> wizard_job list \<Rightarrow> bool" where
  "confirmed = (\<lambda>(x, lost, w, i, js). list_all (\<lambda>j. case j of
       SpawnRecommend rpc \<Rightarrow> True
     | SpawnSetup rpc dir st \<Rightarrow> \<not> wx_busy x \<and>
         (su_fund_mode st = External
          \<or> (if lost then su_source_account st = wx_account x
             else fund_step_done st \<or> wz_confirm w \<and> i = Some ConfirmSetup \<and> su_source_account st = payer_shown x w))) js)"

definition on_plan :: "wizard \<Rightarrow> setup_state option \<Rightarrow> bool" where
  "on_plan w file =
     ((wz_burner w \<longleftrightarrow> wz_mode w = External) \<and>
     (case file of
        None \<Rightarrow> wz_flow w = None \<and> wz_source w = None \<and> \<not> wz_rx w
      | Some st \<Rightarrow> wz_flow w \<noteq> None \<and> wz_source w = Some (su_source_account st) \<and> wz_mode w = su_fund_mode st
          \<and> (fund_done w \<longrightarrow> fund_step_done st)))"

lemma fund_done_from_state: "wz_flow w = Some (setup_from_state st) \<Longrightarrow> fund_done w = fund_step_done st"
  by (auto simp: fund_done_def fund_step_done_def setup_from_state_def list_ex_iff)

lemma opened_on_plan: "entry_made o1 \<Longrightarrow> on_plan (fst (opened C o1)) (snd (opened C o1))"
  by (cases o1) (auto simp: on_plan_def new_profile_def new_burner_def resume_wizard_def Let_def fund_done_from_state)

text \<open>What starting does to a wizard that is on its plan.\<close>

lemma spawn_on_plan:
  assumes "spawn x w = (w', js)" and "on_plan w file"
    and "wx_loaded x = (case file of Some st \<Rightarrow> if lost then Inl e' else Inr st | None \<Rightarrow> Inl e)"
  shows "(js = [] \<and> on_plan w' file) \<or>
     (\<exists>rpc dir st. js = [SpawnSetup rpc dir st] \<and> \<not> wx_busy x \<and> on_plan w' (Some st) \<and> su_fund_mode st = wz_mode w
        \<and> (if file \<noteq> None \<and> lost then su_fund_mode st = External \<or> su_source_account st = wx_account x
           else (file \<noteq> None \<longrightarrow> file = Some st) \<and> (su_fund_mode st = External \<or> su_source_account st = payer_shown x w)))"
proof (cases "js = []")
  case True
  with assms show ?thesis
    by (auto simp: spawn_def on_plan_def fund_done_def split: if_splits option.splits sum.splits)
next
  case False
  with assms obtain dir st where st: "\<not> wx_busy x" "plan_to_run x w = Inr st" "js = [SpawnSetup (wx_rpc x) dir st]"
    "w' = w\<lparr>wz_source := Some (su_source_account st), wz_error := None, wz_flow := Some (setup_from_state st), wz_rx := True\<rparr>"
    by (auto simp: spawn_def split: if_splits option.splits sum.splits)
  have b: "wz_burner w \<longleftrightarrow> wz_mode w = External" using assms(2) by (simp add: on_plan_def)
  show ?thesis
  proof (cases "file = None \<or> lost")
    case True
    with st(2) assms(3) b have m: "su_fund_mode st = wz_mode w" "su_fund_mode st = External \<or> su_source_account st = wx_account x"
      by (auto simp: plan_to_run_def planned_def new_plan_def new_plan_external_burner_def
          split: option.splits sum.splits) (metis fund_mode.exhaust)+
    moreover have "payer_shown x w = wx_account x" if "file = None" using that assms(2) by (simp add: on_plan_def payer_shown_def)
    moreover have "on_plan w' (Some st)" using st(4) b m(1) by (simp add: on_plan_def fund_done_from_state)
    ultimately show ?thesis using st(1,3) True by auto
  next
    case f: False
    then obtain st' where Some: "file = Some st'" by auto
    with st(2) assms(2,3) f have "st' = st" by (simp add: plan_to_run_def)
    with Some st assms(2) f show ?thesis by (auto simp: on_plan_def fund_done_from_state payer_shown_def)
  qed
qed

text \<open>Messages: only a report of the funding ticks the row of the funding.\<close>

definition funded :: "setup_flow \<Rightarrow> bool" where
  "funded f = list_ex (\<lambda>row. row_kind row = Fund \<and> row_status row = Done) (fl_steps f)"

lemma fund_done_flow: "fund_done w = (case wz_flow w of None \<Rightarrow> False | Some f \<Rightarrow> funded f)"
  by (simp add: fund_done_def funded_def split: option.split)

lemma update_first_funded:
  assumes "\<And>row. P row \<Longrightarrow> row_kind (g row) = Fund \<and> row_status (g row) = Done \<Longrightarrow> row_kind row = Fund \<and> row_status row = Done"
    and "list_ex (\<lambda>row. row_kind row = Fund \<and> row_status row = Done) (update_first P g rows)"
  shows "list_ex (\<lambda>row. row_kind row = Fund \<and> row_status row = Done) rows"
  using assms by (induction rows) (auto split: if_splits)

lemma apply_funded: "funded (setup_apply f e) \<Longrightarrow> \<not> reports_funding (Some (SetupProgress e)) \<Longrightarrow> funded f"
  by (cases e)
    (auto simp: funded_def on_pending_def started_row_def completed_row_def
      elim!: update_first_funded [rotated] split: if_splits)

lemma fail_funded: "funded (setup_fail e f) \<Longrightarrow> funded f"
  by (auto simp: funded_def setup_fail_def failed_rows_def elim!: update_first_funded [rotated])

lemma poll_setup_on_plan:
  assumes "on_plan w file"
    and "\<And>st. file = Some st \<Longrightarrow> works_on st (g st) \<and> (reports_funding m \<longrightarrow> fund_step_done (g st))"
  shows "on_plan (poll_setup m w) (map_option g file)"
proof (cases "file")
  case None
  with assms(1) show ?thesis by (auto simp: on_plan_def poll_setup_def)
next
  case (Some st)
  have g: "works_on st (g st)" "reports_funding m \<Longrightarrow> fund_step_done (g st)" using assms(2) [OF Some] by auto
  have "fund_step_done (g st)" if "fund_done (poll_setup m w)"
  proof (cases "reports_funding m \<or> fund_done w")
    case True
    with g assms(1) Some show ?thesis by (auto simp: on_plan_def works_on_def)
  next
    case False
    with that have False
      by (auto simp: poll_setup_def fund_done_flow split: if_splits option.splits setup_msg.splits dest!: apply_funded fail_funded)
    then show ?thesis ..
  qed
  moreover have "wz_source (poll_setup m w) = wz_source w \<and> wz_mode (poll_setup m w) = wz_mode w \<and> wz_burner (poll_setup m w) = wz_burner w \<and> (wz_flow (poll_setup m w) = None \<longleftrightarrow> wz_flow w = None)"
    by (auto simp: poll_setup_def split: option.splits setup_msg.splits)
  ultimately show ?thesis using assms(1) Some g(1) by (auto simp: on_plan_def works_on_def)
qed

definition polled :: "wizard_ctx \<Rightarrow> nat option \<Rightarrow> setup_msg option \<Rightarrow> wizard \<Rightarrow> wizard" where
  "polled x strk m w = poll_setup m (poll_recommended strk (fst (fetch_recommended x w)))"

lemma fetch_same:
  "fst (fetch_recommended x w) = w\<lparr>wz_fetched := wz_fetched (fst (fetch_recommended x w)), wz_recommend_rx := wz_recommend_rx (fst (fetch_recommended x w))\<rparr>"
  "poll_recommended strk w = w\<lparr>wz_recommend_rx := wz_recommend_rx (poll_recommended strk w), wz_fund := wz_fund (poll_recommended strk w)\<rparr>"
  by (auto simp: fetch_recommended_def poll_recommended_def split: option.splits)

lemma polled_same:
  "wz_confirm (polled x strk m w) = wz_confirm w" "wz_source (polled x strk m w) = wz_source w" "wz_mode (polled x strk m w) = wz_mode w"
proof -
  have "wz_confirm (poll_setup m v) = wz_confirm v" "wz_source (poll_setup m v) = wz_source v" "wz_mode (poll_setup m v) = wz_mode v" for v
    by (auto simp: poll_setup_def split: option.splits setup_msg.splits)
  then show "wz_confirm (polled x strk m w) = wz_confirm w" "wz_source (polled x strk m w) = wz_source w" "wz_mode (polled x strk m w) = wz_mode w"
    by (auto simp: polled_def fetch_recommended_def poll_recommended_def split: option.splits)
qed

lemma on_plan_cong:
  "on_plan w file \<Longrightarrow> wz_flow w' = wz_flow w \<Longrightarrow> wz_source w' = wz_source w \<Longrightarrow> wz_mode w' = wz_mode w \<Longrightarrow> wz_rx w' = wz_rx w \<Longrightarrow>
     wz_burner w' = wz_burner w \<Longrightarrow> on_plan w' file"
  by (auto simp: on_plan_def fund_done_def split: option.splits)

lemma polled_on_plan:
  assumes "on_plan w file"
    and "\<And>st. file = Some st \<Longrightarrow> works_on st (g st) \<and> (reports_funding m \<longrightarrow> fund_step_done (g st))"
  shows "on_plan (polled x strk m w) (map_option g file)"
  unfolding polled_def
  by (rule poll_setup_on_plan) (use assms in \<open>auto elim!: on_plan_cong simp: fetch_recommended_def poll_recommended_def split: option.splits\<close>)

text \<open>A frame is the messages, then the body, then the dialog.\<close>

lemma wizard_update_cases:
  assumes "wizard_update x strk m i w0 = (out, w', js)"
  obtains (completed) name dir f where "out = WizardCompleted name dir" "w' = polled x strk m w0" "js = snd (fetch_recommended x w0)"
      "wz_flow w' = Some f" "fl_completed f"
  | (drawn) w2 js2 js3 where "wizard_body x i (polled x strk m w0) = (out, w2, js2)" "render_confirm x i w2 = (w', js3)"
      "js = snd (fetch_recommended x w0) @ js2 @ js3"
      "\<forall>f. wz_flow (polled x strk m w0) = Some f \<and> wz_dir (polled x strk m w0) \<noteq> None \<longrightarrow> \<not> fl_completed f"
  using assms unfolding wizard_update_def polled_def Let_def
  by (cases "fetch_recommended x w0") (auto split: prod.splits option.splits bool.splits)

lemma form_on_plan: "render_form x i w = (out, w') \<Longrightarrow> on_plan w file \<Longrightarrow> on_plan w' file"
  by (induction x i w rule: render_form.induct) (auto simp: type_name_def elim!: on_plan_cong split: if_splits)

lemma form_confirm: "render_form x i w = (out, w') \<Longrightarrow> i = Some ConfirmSetup \<Longrightarrow> w' = w"
  by (auto split: if_splits)

text \<open>The body: nothing is started without the dialog unless the funding is done or external.\<close>

definition started_well :: "wizard_ctx \<Rightarrow> bool \<Rightarrow> setup_state \<Rightarrow> bool" where
  "started_well x lost st = (\<not> wx_busy x \<and> (su_fund_mode st = External \<or> (if lost then su_source_account st = wx_account x else fund_step_done st)))"

lemma resume_on_plan:
  assumes "request_resume x w = (w', js)" and "on_plan w file" and "file \<noteq> None"
    and "wx_loaded x = (case file of Some st \<Rightarrow> if lost then Inl e' else Inr st | None \<Rightarrow> Inl e)"
  shows "(js = [] \<and> on_plan w' file) \<or>
     (\<exists>rpc dir st. js = [SpawnSetup rpc dir st] \<and> on_plan w' (Some st) \<and> started_well x lost st)"
proof (cases "fund_done w \<or> wz_mode w = External")
  case True
  with assms(1) have sp: "spawn x w = (w', js)" by (simp add: request_resume_def)
  from spawn_on_plan [OF sp assms(2,4)] consider (nothing) "js = []" "on_plan w' file"
    | (started) rpc dir st where "js = [SpawnSetup rpc dir st]" "\<not> wx_busy x" "on_plan w' (Some st)" "su_fund_mode st = wz_mode w"
        "if lost then su_fund_mode st = External \<or> su_source_account st = wx_account x else file = Some st"
    using assms(3) by (metis (full_types))
  then show ?thesis
  proof cases
    case started
    have "fund_done w \<Longrightarrow> file = Some st \<Longrightarrow> fund_step_done st" using assms(2) by (simp add: on_plan_def)
    then have "started_well x lost st" using started(2,4,5) True by (auto simp: started_well_def split: if_splits)
    then show ?thesis using started(1,3) by blast
  qed simp
next
  case False
  with assms(1,2) show ?thesis by (auto simp: request_resume_def elim!: on_plan_cong)
qed

lemma body_on_plan:
  assumes "wizard_body x i w = (out, w', js)" and "on_plan w file"
    and "wx_loaded x = (case file of Some st \<Rightarrow> if lost then Inl e' else Inr st | None \<Rightarrow> Inl e)"
  shows "(js = [] \<and> on_plan w' file \<and> (i = Some ConfirmSetup \<longrightarrow> w' = w)) \<or>
     (i \<noteq> Some ConfirmSetup \<and> file \<noteq> None \<and> (\<exists>rpc dir st. js = [SpawnSetup rpc dir st] \<and> on_plan w' (Some st) \<and> started_well x lost st))"
proof (cases "wz_flow w")
  case None
  then obtain w2 where "render_form x i w = (out, w2)" "w' = w2" "js = []"
    using assms(1) by (auto simp: wizard_body_def split: prod.splits)
  with form_on_plan assms(2) form_confirm show ?thesis by blast
next
  case (Some f)
  then have body: "render_checklist x i f w = (out, w', js)" using assms(1) by (simp add: wizard_body_def)
  show ?thesis
  proof (cases "(w', js) = (w, [])")
    case True
    with assms(2) show ?thesis by simp
  next
    case False
    then have r: "request_resume x w = (w', js)" "i \<noteq> Some ConfirmSetup"
      using body by (auto simp: render_checklist_def split: if_splits)
    have "file \<noteq> None" using Some assms(2) by (auto simp: on_plan_def split: option.splits)
    from resume_on_plan [OF r(1) assms(2) this assms(3)] r(2) this show ?thesis by blast
  qed
qed

lemma confirm_on_plan:
  assumes "render_confirm x i w = (w', js)" and "on_plan w file"
    and "wx_loaded x = (case file of Some st \<Rightarrow> if lost then Inl e' else Inr st | None \<Rightarrow> Inl e)"
  shows "(js = [] \<and> on_plan w' file) \<or>
     (i = Some ConfirmSetup \<and> wz_confirm w \<and> (\<exists>rpc dir st. js = [SpawnSetup rpc dir st] \<and> \<not> wx_busy x \<and> on_plan w' (Some st)
        \<and> (su_fund_mode st = External \<or> su_source_account st = (if file \<noteq> None \<and> lost then wx_account x else payer_shown x w))))"
proof (cases "wz_confirm w \<and> i = Some ConfirmSetup \<and> \<not> wx_busy x")
  case True
  then have sp: "spawn x (w\<lparr>wz_confirm := False\<rparr>) = (w', js)" using assms(1) by (simp add: render_confirm_def)
  have "on_plan (w\<lparr>wz_confirm := False\<rparr>) file" using assms(2) by (auto elim!: on_plan_cong)
  from spawn_on_plan [OF sp this assms(3)] True show ?thesis by (auto simp: payer_shown_def split: if_splits)
next
  case False
  with assms(1,2) show ?thesis by (auto simp: render_confirm_def elim!: on_plan_cong split: if_splits)
qed

lemma started_plan_simps [simp]:
  "started_plan [] = None" "started_plan [SpawnSetup rpc dir st] = Some st"
  "started_plan (SpawnRecommend rpc # js) = started_plan js"
  by (simp_all add: started_plan_def)

lemma fetched_jobs: "snd (fetch_recommended x w) = [] \<or> snd (fetch_recommended x w) = [SpawnRecommend (wx_rpc x)]"
  by (simp add: fetch_recommended_def)

lemma confirmed_fetch [simp]: "confirmed (x, lost, w, i, snd (fetch_recommended x v) @ js) = confirmed (x, lost, w, i, js)"
  using fetched_jobs [of x v] by (auto simp: confirmed_def)

lemma started_fetch [simp]: "started_plan (snd (fetch_recommended x v) @ js) = started_plan js"
  using fetched_jobs [of x v] by auto

lemma busy_seen [simp]: "wx_busy (seen_by f p) = wx_busy (wf_ctx f)" "wx_account (seen_by f p) = wx_account (wf_ctx f)"
  by (simp_all add: seen_by_def)

lemma frame_on_plan:
  assumes "wizard_update (seen_by f file) (wf_strk f) (wf_msg f) (wf_input f) w = (out, w', js)" and "on_plan w file"
    and "\<And>st. file = Some st \<Longrightarrow> works_on st (wf_worked f st) \<and> (reports_funding (wf_msg f) \<longrightarrow> fund_step_done (wf_worked f st))"
  shows "confirmed (seen_by f file, lost_plan f file, w, wf_input f, js) \<and> on_plan w' (plan_after f file js)"
proof -
  let ?x = "seen_by f file" let ?file = "map_option (wf_worked f) file" let ?w1 = "polled ?x (wf_strk f) (wf_msg f) w"
  have p: "on_plan ?w1 ?file" by (rule polled_on_plan [OF assms(2,3)])
  have l: "wx_loaded ?x = (case ?file of Some st \<Rightarrow> if wf_unreadable f then Inl ''unreadable'' else Inr st | None \<Rightarrow> Inl ''no such file'')" by (simp add: seen_by_def)
  have lost: "(?file \<noteq> None \<and> wf_unreadable f) = lost_plan f file" by (simp add: lost_plan_def)
  from assms(1) show ?thesis
  proof (cases rule: wizard_update_cases)
    case (completed name dir f')
    with p started_fetch [of ?x w "[]"] confirmed_fetch [of ?x "lost_plan f file" w "wf_input f" w "[]"] show ?thesis
      by (simp add: plan_after_def) (simp add: confirmed_def)
  next
    case (drawn w2 js2 js3)
    from body_on_plan [OF drawn(1) p l] consider
        (quiet) "js2 = []" "on_plan w2 ?file" "wf_input f = Some ConfirmSetup \<longrightarrow> w2 = ?w1"
      | (run) rpc dir st where "wf_input f \<noteq> Some ConfirmSetup" "js2 = [SpawnSetup rpc dir st]" "on_plan w2 (Some st)"
        "started_well ?x (lost_plan f file) st" by (auto simp: lost_plan_def)
    then show ?thesis
    proof cases
      case quiet
      have "wf_input f = Some ConfirmSetup \<Longrightarrow> wz_confirm w2 = wz_confirm w \<and> payer_shown ?x w2 = payer_shown ?x w"
        using quiet(3) by (simp add: polled_same payer_shown_def)
      with confirm_on_plan [OF drawn(2) quiet(2) l] quiet(1) drawn(3) show ?thesis
        unfolding lost by (auto simp: plan_after_def) (auto simp: confirmed_def split: if_splits)
    next
      case (run rpc dir st)
      then have "js3 = []" "on_plan w' (Some st)"
        using drawn(2) by (auto simp: render_confirm_def elim!: on_plan_cong split: if_splits)
      with run drawn(3) show ?thesis by (auto simp: plan_after_def) (auto simp: confirmed_def started_well_def)
    qed
  qed
qed

lemma trace_confirmed: "worker_honest fs (w, file) \<Longrightarrow> on_plan w file \<Longrightarrow> list_all confirmed (wizard_trace fs (w, file))"
proof (induction fs arbitrary: w "file")
  case (Cons f fs)
  obtain out w' js where u: "wizard_update (seen_by f file) (wf_strk f) (wf_msg f) (wf_input f) w = (out, w', js)" by (metis prod_cases3)
  from Cons.prems(1) u have h: "\<And>st. file = Some st \<Longrightarrow> works_on st (wf_worked f st) \<and> (reports_funding (wf_msg f) \<longrightarrow> fund_step_done (wf_worked f st))"
    "out = WizardOpen \<Longrightarrow> worker_honest fs (w', plan_after f file js)" by auto
  from frame_on_plan [OF u Cons.prems(2) h(1)] Cons.IH h(2) u show ?case by auto
qed simp

text \<open>C27: However a setup is opened (a new profile, a burner, or a saved plan this program made) and
  whatever is typed and clicked, the wizard starts no setup while the profile is busy, and starts
  one whose funding is still to be sent only in the frame in which its open dialog was confirmed,
  from the account that dialog named. The one exception is a frame in which the plan on disk cannot
  be read: a setup started then is a new one, funded from outside or by the open profile's account.
  Assumed of the setup's worker: it keeps who pays and how, unticks nothing, and reports the
  funding only once it is ticked on disk.\<close>

theorem setup_spend_is_confirmed:
  assumes "worker_honest fs (opened C o1)" and "entry_made o1"
  shows "list_all confirmed (wizard_trace fs (opened C o1))"
  using trace_confirmed [of fs "fst (opened C o1)" "snd (opened C o1)"] assms opened_on_plan [of o1 C] by simp

section \<open>An unreadable plan\<close>

lemma trim_digits [simp]: "trim_ws (dec_nat n) = dec_nat n"
proof -
  have "\<not> is_space c" if "c \<in> set (dec_nat n)" for c
    using dec_nat_digits [of n] digit_not_space [of c] that by (auto simp: is_digit_def is_hexdigit_def split: option.splits)
  then have "dropWhile is_space xs = xs" if "set xs \<subseteq> set (dec_nat n)" for xs
    using that by (cases xs) auto
  then show ?thesis by (simp add: trim_ws_def trim_start_def)
qed

text \<open>A setup whose funding is done resumes without the dialog. When its plan cannot be read at that
  moment the wizard takes it for a setup that was never saved: it writes a new plan over it and
  runs that, with the funding to be sent again, from the account of the profile that is open.\<close>

lemma unreadable_plan_is_funded_again:
  assumes "resume_wizard dir (Inr st) = Inr w" and "fund_step_done st" and "su_fund_mode st = Transfer" and "\<not> su_burner st"
    and "list_ex (\<lambda>s. \<not> ss_done s) (su_steps st)" and "su_fund_strk st < 2 ^ 64"
    and "wx_loaded x = Inl e" and "wx_saved x = Inr ()" and "\<not> wx_busy x"
  shows "\<exists>w' st'. wizard_update x None None (Some Resume) w = (WizardOpen, w', [SpawnSetup (wx_rpc x) dir st'])
    \<and> \<not> fund_step_done st' \<and> su_fund_mode st' = Transfer \<and> su_source_account st' = wx_account x"
proof -
  have w: "wz_flow w = Some (setup_from_state st)" "\<not> wz_rx w" "wz_fetched w" "\<not> wz_recommend_rx w" "\<not> wz_confirm w" "wz_dir w = Some dir"
    "wz_fund w = dec_nat (su_fund_strk st)" "\<not> wz_burner w"
    using assms(1-4) by (auto simp: resume_wizard_def)
  have f: "\<not> fl_completed (setup_from_state st)" "fl_awaiting (setup_from_state st) = None" "fund_done w"
    using assms(2,5) w(1) by (auto simp: setup_from_state_def list_ex_iff list_all_iff fund_done_from_state)
  show ?thesis
    using w f assms(6-9)
    by (simp add: wizard_update_def fetch_recommended_def poll_recommended_def poll_setup_def wizard_body_def render_checklist_def
        request_resume_def spawn_def plan_to_run_def render_confirm_def wizard_running_def parse_dec_nat planned_def new_plan_def fund_step_done_def)
qed

section \<open>Instances\<close>

definition demo_ctx :: wizard_ctx where
  "demo_ctx = \<lparr> wx_root = [''r''], wx_rpc = ''rpc'', wx_account = ''payer'', wx_busy = False, wx_disk = empty_disk,
     wx_loaded = Inl [], wx_saved = Inr () \<rparr>"

definition demo_frame :: "wizard_input \<Rightarrow> wizard_frame" where
  "demo_frame i = \<lparr> wf_ctx = demo_ctx, wf_worked = id, wf_unreadable = False, wf_strk = None, wf_msg = None, wf_input = Some i \<rparr>"

definition demo_setup :: "wizard_frame list" where
  "demo_setup = map demo_frame [TypeName ''al'', TypeFund ''7'', Create, ConfirmSetup]"

lemma demo_trims: "trim_ws ''al'' = ''al''" "trim_ws ''7'' = ''7''" "trim_ws ''zkmsg-al'' = ''zkmsg-al''" "parse_radix 64 10 ''7'' = Some 7"
  by (simp_all add: trim_ws_def trim_start_def is_space_def parse_radix_def digit_val_def Let_def)

lemma demo_setup_trace:
  "map (\<lambda>(x, lost, w, i, js). js) (wizard_trace demo_setup (opened demo_crates OpenNew)) =
     [[SpawnRecommend ''rpc''], [], [], [SpawnSetup ''rpc'' [''r'', ''.zkmsg-al''] (new_plan ''al'' ''al'' ''zkmsg-al'' 7 ''payer'')]]"
  "worker_honest demo_setup (opened demo_crates OpenNew)"
  by (simp_all add: demo_setup_def demo_frame_def demo_ctx_def new_profile_def wizard_update_def fetch_recommended_def poll_recommended_def
      poll_setup_def wizard_body_def type_name_def render_confirm_def seen_by_def plan_after_def validation_error_def spawn_def plan_to_run_def planned_def
      demo_trims profile_path_def PROFILE_PREFIX_def file_exists_def is_dir_def is_file_def node_at_def empty_disk_def Let_def)

theorem setup_spend_is_confirmed_witness:
  "map (\<lambda>(x, lost, w, i, js). js) (wizard_trace demo_setup (opened demo_crates OpenNew)) =
     [[SpawnRecommend ''rpc''], [], [], [SpawnSetup ''rpc'' [''r'', ''.zkmsg-al''] (new_plan ''al'' ''al'' ''zkmsg-al'' 7 ''payer'')]]
   \<and> list_all confirmed (wizard_trace demo_setup (opened demo_crates OpenNew))"
  using setup_spend_is_confirmed [OF demo_setup_trace(2)] demo_setup_trace(1) by simp

end
