(* ===== verification/Shell.thy ===== *)
theory Shell
  imports Wizard Wipe_Safety Net
begin

text \<open>
  The shell of the desktop application (\<^verbatim>\<open>gui/src/app.rs\<close>) with the lock screen and the panic
  dialog (\<^verbatim>\<open>lock_view.rs\<close>), the archive and delete dialogs (\<^verbatim>\<open>retire_view.rs\<close>, \<^verbatim>\<open>delete_view.rs\<close>) and
  the migration screen (\<^verbatim>\<open>migrate_view.rs\<close>): which of them is up, what each control does to the
  device, and which jobs start. A frame is one call of \<^verbatim>\<open>update\<close>: it delivers what the workers
  sent and at most one input of the user, in the order in which the code draws; an input for a
  control that is not drawn, or not enabled, does nothing. The clock of the process counts
  milliseconds. What other threads and processes did to the Keychain, the caches and the disk since
  the frame before comes with the frame; only the shell sets or forgets the master key.
\<close>

section \<open>State\<close>

text \<open>A message shown: fixed text, or text and the error that follows it.\<close>

datatype notice = Note string | Because string err

record lock_ui =
  lk_first :: bool
  lk_fails :: nat
  lk_wait :: "nat option"
  lk_pin :: string
  lk_again :: string
  lk_message :: "notice option"

record panic_ui =
  pn_needs_pin :: bool
  pn_pin :: string
  pn_message :: "notice option"

record retire_ui =
  rt_name :: string
  rt_burner :: bool
  rt_error :: "err option"
  rt_busy :: bool

record delete_ui =
  dl_plan :: delete_plan
  dl_target :: "string option"
  dl_keep :: bool
  dl_typed :: string
  dl_error :: "err option"
  dl_busy :: bool

record migration_ui =
  mg_sources :: "(legacy_source \<times> string) list"
  mg_error :: "err option"

record profile_view =
  pv_name :: string
  pv_home :: path
  pv_offer :: bool
  pv_session :: session

datatype tor_state = TorOff | TorOn | TorFailed string

datatype shell_job = SessionJob job | SetupJob wizard_job

record 'k shell =
  sh_device :: "'k device"
  sh_root :: "path option"
  sh_classified :: "path option"
  sh_profiles :: "profile_entry list"
  sh_session :: "profile_view option"
  sh_picker_error :: "notice option"
  sh_initial :: "(string \<times> path) option"
  sh_migration :: "migration_ui option"
  sh_wizard :: "wizard option"
  sh_retire :: "retire_ui option"
  sh_delete :: "delete_ui option"
  sh_lock_root :: path
  sh_lock :: "lock_ui option"
  sh_panic :: "panic_ui option"
  sh_reopen :: "(string \<times> path) option"
  sh_tor :: tor_state
  sh_tor_wanted :: bool
  sh_last_input :: nat
  sh_jobs :: "shell_job list"

section \<open>What a frame brings\<close>

datatype pick = PickEntry nat | PickArchive nat | PickDelete nat | PickNew | PickNewBurner | PickUnarchive nat | PickDeleteArchived nat

datatype input =
    NoInput
  | LockType string | LockAgain string | LockSubmit | LockPanic
  | PanicType string | PanicEnter | PanicGo | PanicCancel
  | MigrateName nat string | MigrateGo | MigrateNotNow
  | PanicButton | TorToggle | LockButton
  | Pick pick | DismissError | PickOpen nat
  | SessionInput ui | OfferArchive
  | WizardInput wizard_input
  | RetireGo | RetireCancel
  | DeleteType string | DeleteTarget "string option" | DeleteKeep bool | DeleteGo | DeleteCancel

record 'k turn =
  tn_input :: input
  tn_pointer :: bool
  tn_now :: nat
  tn_chain :: 'k
  tn_cache :: "string \<Rightarrow> bytes option"
  tn_wiped :: bool
  tn_disk :: disk
  tn_msgs :: "ui list"
  tn_directory :: "string \<Rightarrow> resolution"
  tn_strk :: "nat option"
  tn_setup :: "setup_msg option"
  tn_loaded :: "string + setup_state"
  tn_saved :: "string + unit"
  tn_popup :: bool
  tn_nz :: "path \<Rightarrow> bytes"
  tn_seal :: "nat \<Rightarrow> 'k draws \<times> bytes"
  tn_draws :: "path \<Rightarrow> 'k draws \<times> bytes"
  tn_pin :: "bytes \<times> bytes \<times> bytes"
  tn_wrap :: "path \<Rightarrow> bytes \<times> bytes"
  tn_burner :: bytes
  tn_serial :: "unit res"
  tn_clock :: "nat \<times> nat"

section \<open>The lock screen\<close>

definition refresh_lock :: "'k env \<Rightarrow> 'k turn \<Rightarrow> 'k device \<Rightarrow> lock_ui \<Rightarrow> lock_ui" where
  "refresh_lock E t d lk =
     (case snd (lock_state_of E (fst (tn_clock t)) d) of
        Inr NotSet \<Rightarrow> lk\<lparr>lk_first := True\<rparr>
      | Inr (Locked fails secs) \<Rightarrow>
          lk\<lparr>lk_first := False, lk_fails := fails, lk_wait := (if 0 < secs then Some (tn_now t + 1000 * secs) else None)\<rparr>
      | Inr Open \<Rightarrow> lk\<lparr>lk_first := False\<rparr>
      | Inl e \<Rightarrow> lk\<lparr>lk_message := Some (Because [] e)\<rparr>)"

definition new_lock :: "'k env \<Rightarrow> 'k turn \<Rightarrow> 'k device \<Rightarrow> lock_ui" where
  "new_lock E t d =
     refresh_lock E t d \<lparr> lk_first = False, lk_fails = 0, lk_wait = None, lk_pin = [], lk_again = [], lk_message = None \<rparr>"

definition wait_left :: "nat \<Rightarrow> lock_ui \<Rightarrow> nat option" where
  "wait_left now lk =
     (case lk_wait lk of
        None \<Rightarrow> None
      | Some till \<Rightarrow> (let left = (till - now) div 1000 in if 0 < left then Some left else None))"

datatype lock_outcome = LockStays | LockOpens | LockWantsPanic | LockWiped "string list"

definition submit_pin :: "'k env \<Rightarrow> places \<Rightarrow> 'k turn \<Rightarrow> path \<Rightarrow> 'k device \<Rightarrow> lock_ui \<Rightarrow> 'k device \<times> lock_ui \<times> lock_outcome" where
  "submit_pin E P t root d lk0 =
     (let pin = lk_pin lk0; again = lk_again lk0; lk = lk0\<lparr>lk_pin := [], lk_again := []\<rparr>
      in if lk_first lk then
           (case validate_pin pin of
              Inl e \<Rightarrow> (d, lk\<lparr>lk_message := Some (Because [] e)\<rparr>, LockStays)
            | Inr _ \<Rightarrow>
                if pin \<noteq> again then (d, lk\<lparr>lk_message := Some (Note ''the two entries differ'')\<rparr>, LockStays)
                else (case set_pin E (tn_pin t) (tn_wrap t) pin root d of
                        (d', Inr _) \<Rightarrow> (d', lk, LockOpens)
                      | (d', Inl e) \<Rightarrow> (d', lk\<lparr>lk_message := Some (Because [] e)\<rparr>, LockStays)))
         else
           (case unlock E (tn_serial t) (tn_clock t) (panic_errors E P root) pin d of
              (d', out) \<Rightarrow>
                (let lk = refresh_lock E t d' lk
                 in case out of
                      Inr Unlocked \<Rightarrow> (d', lk, LockOpens)
                    | Inr (Wiped errors) \<Rightarrow> (d', lk, LockWiped errors)
                    | Inr (Wait secs) \<Rightarrow> (d', lk, LockStays)
                    | Inr (Wrong left secs) \<Rightarrow> (d', lk\<lparr>lk_message := Some (Note (''wrong PIN: '' @ dec_nat left @ '' attempt(s) left''))\<rparr>, LockStays)
                    | Inl e \<Rightarrow> (d', lk\<lparr>lk_message := Some (Because [] e)\<rparr>, LockStays))))"

definition lock_update :: "'k env \<Rightarrow> places \<Rightarrow> 'k turn \<Rightarrow> path \<Rightarrow> 'k device \<Rightarrow> lock_ui \<Rightarrow> 'k device \<times> lock_ui \<times> lock_outcome" where
  "lock_update E P t root d lk =
     (let wait = wait_left (tn_now t) lk
      in case tn_input t of
           LockType s \<Rightarrow> (d, if lk_first lk \<or> wait = None then lk\<lparr>lk_pin := s\<rparr> else lk, LockStays)
         | LockAgain s \<Rightarrow> (d, if lk_first lk then lk\<lparr>lk_again := s\<rparr> else lk, LockStays)
         | LockSubmit \<Rightarrow> if wait = None then submit_pin E P t root d lk else (d, lk, LockStays)
         | LockPanic \<Rightarrow> (d, lk, LockWantsPanic)
         | _ \<Rightarrow> (d, lk, LockStays))"

section \<open>The panic dialog\<close>

datatype panic_outcome = PanicStays | PanicCancelled | PanicDone panic_report

definition new_panic :: "'k env \<Rightarrow> 'k turn \<Rightarrow> 'k device \<Rightarrow> panic_ui" where
  "new_panic E t d =
     \<lparr> pn_needs_pin = (snd (lock_state_of E (fst (tn_clock t)) d) \<noteq> Inr NotSet), pn_pin = [], pn_message = None \<rparr>"

definition run_panic :: "'k env \<Rightarrow> places \<Rightarrow> 'k turn \<Rightarrow> path \<Rightarrow> 'k device \<Rightarrow> panic_ui \<Rightarrow> 'k device \<times> panic_ui \<times> panic_outcome" where
  "run_panic E P t root d pn0 =
     (let pn = pn0\<lparr>pn_pin := []\<rparr>
      in case panic_wipe_with_pin E P root (tn_serial t) (fst (tn_clock t)) (tn_clock t) (pn_pin pn0) d of
           (d', Inr (PanicWiped r)) \<Rightarrow> (d', pn, PanicDone r)
         | (d', Inr (PanicWrong left secs)) \<Rightarrow>
             (d', pn\<lparr>pn_message := Some (Note (''wrong PIN: nothing wiped; '' @ dec_nat left @ '' attempt(s) left''))\<rparr>, PanicStays)
         | (d', Inr (PanicWait secs)) \<Rightarrow> (d', pn\<lparr>pn_message := Some (Note (''too many wrong PINs: try again in '' @ dec_nat secs))\<rparr>, PanicStays)
         | (d', Inl e) \<Rightarrow> (d', pn, PanicDone \<lparr> pr_profiles = 0, pr_keys_shredded = 0, pr_account_keys_removed = [], pr_errors = [''panic wipe''] \<rparr>))"

definition panic_update :: "'k env \<Rightarrow> places \<Rightarrow> 'k turn \<Rightarrow> path \<Rightarrow> 'k device \<Rightarrow> panic_ui \<Rightarrow> 'k device \<times> panic_ui \<times> panic_outcome" where
  "panic_update E P t root d pn =
     (case tn_input t of
        PanicType s \<Rightarrow> (d, if pn_needs_pin pn then pn\<lparr>pn_pin := s\<rparr> else pn, PanicStays)
      | PanicEnter \<Rightarrow> if pn_needs_pin pn then run_panic E P t root d pn else (d, pn, PanicStays)
      | PanicGo \<Rightarrow> if \<not> pn_needs_pin pn \<or> pn_pin pn \<noteq> [] then run_panic E P t root d pn else (d, pn, PanicStays)
      | PanicCancel \<Rightarrow> (d, pn, PanicCancelled)
      | _ \<Rightarrow> (d, pn, PanicStays))"

section \<open>Opening and listing\<close>

definition busy_view :: "profile_view option \<Rightarrow> bool" where
  "busy_view v = (case v of Some v \<Rightarrow> se_busy (pv_session v) | None \<Rightarrow> False)"

definition sending_view :: "profile_view option \<Rightarrow> bool" where
  "sending_view v = (case v of Some v \<Rightarrow> work_in_flight (pv_session v) | None \<Rightarrow> False)"

definition setup_running :: "'k shell \<Rightarrow> bool" where
  "setup_running sh = (case sh_wizard sh of Some w \<Rightarrow> wizard_running w | None \<Rightarrow> False)"

definition app_in_flight :: "'k shell \<Rightarrow> bool" where
  "app_in_flight sh = (sending_view (sh_session sh) \<or> setup_running sh)"

definition listing :: "'k env \<Rightarrow> 'k turn \<Rightarrow> path \<Rightarrow> 'k device \<Rightarrow> 'k device \<times> profile_entry list" where
  "listing E t root d = (case list_profiles E (tn_nz t) root d of (d', r) \<Rightarrow> (d', case r of Inr l \<Rightarrow> l | Inl _ \<Rightarrow> []))"

definition rescan :: "'k env \<Rightarrow> 'k turn \<Rightarrow> 'k shell \<Rightarrow> 'k shell" where
  "rescan E t sh =
     (case sh_root sh of
        None \<Rightarrow> sh\<lparr>sh_profiles := []\<rparr>
      | Some root \<Rightarrow> (case listing E t root (sh_device sh) of (d, l) \<Rightarrow> sh\<lparr>sh_device := d, sh_profiles := l\<rparr>))"

text \<open>A profile written before the vault is sealed before anything reads it.\<close>

definition seal_old :: "'k env \<Rightarrow> 'k turn \<Rightarrow> path \<Rightarrow> 'k device \<Rightarrow> 'k device \<times> unit res" where
  "seal_old E t home d =
     (if \<not> file_exists (dv_disk d) (config_path home) then (d, Inr ())
      else case has_plaintext home (dv_disk d) of
             Inl e \<Rightarrow> (d, Inl e)
           | Inr False \<Rightarrow> (d, Inr ())
           | Inr True \<Rightarrow> (case seal_profile E (tn_seal t) home d of (d', Inl e) \<Rightarrow> (d', Inl e) | (d', Inr n) \<Rightarrow> (d', Inr ())))"

definition view_of :: "'k env \<Rightarrow> 'k turn \<Rightarrow> string \<Rightarrow> path \<Rightarrow> 'k device \<Rightarrow> 'k device \<times> profile_view" where
  "view_of E t name home d =
     (let (d1, keys) = load_home_keys E (tn_nz t) home d; (d2, pending) = pending_sends E (tn_nz t) home d1
      in (d2, \<lparr> pv_name = name, pv_home = home, pv_offer = False,
                pv_session = new_session (ok_opt (load_config E home (dv_disk d))) (ok_opt keys) (case pending of Inr l \<Rightarrow> l | Inl e \<Rightarrow> []) \<rparr>))"

definition open_session :: "'k env \<Rightarrow> 'k turn \<Rightarrow> string \<Rightarrow> path \<Rightarrow> 'k shell \<Rightarrow> 'k shell" where
  "open_session E t name home sh =
     (let (d1, sealed) = seal_old E t home (sh_device sh); (d2, v) = view_of E t name home d1
      in sh\<lparr>sh_device := d2, sh_session := Some v,
            sh_picker_error := (case sealed of Inl e \<Rightarrow> Some (Because (''sealing the files of '' @ name) e) | Inr _ \<Rightarrow> sh_picker_error sh)\<rparr>)"

section \<open>The launch\<close>

definition dir_suffix_name :: "path \<Rightarrow> string" where
  "dir_suffix_name dir =
     (let fname = (if dir = [] then ''profile'' else last dir)
      in case strip_prefix PROFILE_PREFIX fname of Some n \<Rightarrow> n | None \<Rightarrow> fname)"

definition home_name :: "'k env \<Rightarrow> 'k turn \<Rightarrow> path \<Rightarrow> 'k device \<Rightarrow> 'k device \<times> string" where
  "home_name E t dir d =
     (case cached_handle E (tn_nz t) dir d of
        (d', Inr (Some h)) \<Rightarrow> (d', h)
      | (d', _) \<Rightarrow> (d', dir_suffix_name dir))"

text \<open>Which profile \<^verbatim>\<open>--profile\<close>, or else \<^verbatim>\<open>current\<close>, names; the wrong name opens none.\<close>

definition choose_profile :: "path \<Rightarrow> path option \<Rightarrow> string option \<Rightarrow> disk \<Rightarrow> path option \<times> notice option" where
  "choose_profile root current named x =
     (case named of
        None \<Rightarrow> (current, None)
      | Some n \<Rightarrow> if is_file x (config_path (profile_path root n)) then (Some (profile_path root n), None)
                  else (None, Some (Note (''--profile '' @ n @ '': no such profile''))))"

definition launched :: "'k env \<Rightarrow> 'k turn \<Rightarrow> path \<Rightarrow> tor_state \<Rightarrow> 'k device \<Rightarrow> 'k shell" where
  "launched E t launch via d =
     (let (d1, r) = profile_root E (tn_nz t) launch d; root = (case r of Inr p \<Rightarrow> p | Inl e \<Rightarrow> launch);
          wanted = net_load (\<lambda>s. sd_json_parse (e_serde E) (str_bytes s)) (rbind (read_bytes (dv_disk d1) (root @ [SETTINGS_FILE])) (\<lambda>b. Inr (bytes_str b)))
      in \<lparr> sh_device = d1, sh_root = None, sh_classified = None, sh_profiles = [], sh_session = None, sh_picker_error = None,
           sh_initial = None, sh_migration = None, sh_wizard = None, sh_retire = None, sh_delete = None, sh_lock_root = root,
           sh_lock = Some (new_lock E t d1), sh_panic = None, sh_reopen = None, sh_tor = via, sh_tor_wanted = wanted,
           sh_last_input = tn_now t, sh_jobs = [] \<rparr>)"

definition classify_launch :: "'k env \<Rightarrow> 'k turn \<Rightarrow> path \<Rightarrow> string option \<Rightarrow> 'k shell \<Rightarrow> 'k shell" where
  "classify_launch E t launch named sh =
     (case classify_home E (tn_nz t) launch (sh_device sh) of
        (d, Inr (RootHome root current)) \<Rightarrow>
          (let (d1, l) = listing E t root d; (chosen, err) = choose_profile root current named (dv_disk d1)
           in sh\<lparr>sh_device := d1, sh_root := Some root, sh_classified := Some root, sh_profiles := l, sh_picker_error := err,
                sh_initial := map_option (\<lambda>dir. (dir_suffix_name dir, dir)) chosen\<rparr>)
      | (d, Inr (ProfileHome p)) \<Rightarrow> (case home_name E t p d of (d1, n) \<Rightarrow> sh\<lparr>sh_device := d1, sh_initial := Some (n, p)\<rparr>)
      | (d, Inr (EmptyHome p)) \<Rightarrow> (case home_name E t p d of (d1, n) \<Rightarrow> sh\<lparr>sh_device := d1, sh_initial := Some (n, p)\<rparr>)
      | (d, Inl e) \<Rightarrow> sh\<lparr>sh_device := d\<rparr>)"

definition offer_migration :: "'k env \<Rightarrow> 'k turn \<Rightarrow> path \<Rightarrow> bool \<Rightarrow> 'k shell \<Rightarrow> 'k shell" where
  "offer_migration E t launch default_home sh =
     (if \<not> default_home then sh
      else case detect_legacy E (tn_nz t) launch (sh_device sh) of
             (d, r) \<Rightarrow>
               (let found = (case r of Inr l \<Rightarrow> l | Inl e \<Rightarrow> [])
                in if found = [] then sh\<lparr>sh_device := d\<rparr>
                   else sh\<lparr>sh_device := d, sh_root := Some launch,
                           sh_migration := Some \<lparr> mg_sources = map (\<lambda>s. (s, ls_suggested_name s)) found, mg_error = None \<rparr>\<rparr>))"

definition new_shell :: "'k env \<Rightarrow> 'k turn \<Rightarrow> path \<Rightarrow> string option \<Rightarrow> bool \<Rightarrow> tor_state \<Rightarrow> 'k device \<Rightarrow> 'k shell" where
  "new_shell E t launch named default_home via d =
     offer_migration E t launch default_home (classify_launch E t launch named (launched E t launch via d))"

section \<open>Locking and wiping\<close>

definition lock_now :: "'k env \<Rightarrow> 'k turn \<Rightarrow> 'k shell \<Rightarrow> 'k shell" where
  "lock_now E t sh =
     (let d = lock_app (sh_device sh)
      in sh\<lparr>sh_device := d, sh_reopen := map_option (\<lambda>v. (pv_name v, pv_home v)) (sh_session sh), sh_session := None,
            sh_wizard := None, sh_retire := None, sh_delete := None, sh_lock := Some (new_lock E t d)\<rparr>)"

definition after_wipe :: "'k env \<Rightarrow> 'k turn \<Rightarrow> notice \<Rightarrow> 'k shell \<Rightarrow> 'k shell" where
  "after_wipe E t n sh =
     sh\<lparr>sh_session := None, sh_initial := None, sh_reopen := None, sh_profiles := [], sh_wizard := None, sh_retire := None,
        sh_delete := None, sh_migration := None, sh_lock := Some ((new_lock E t (sh_device sh))\<lparr>lk_message := Some n\<rparr>)\<rparr>"

definition update_panic :: "'k env \<Rightarrow> places \<Rightarrow> 'k turn \<Rightarrow> 'k shell \<Rightarrow> 'k shell" where
  "update_panic E P t sh =
     (case sh_panic sh of
        None \<Rightarrow> sh
      | Some pn0 \<Rightarrow>
          (case panic_update E P t (sh_lock_root sh) (sh_device sh) pn0 of
             (d, pn, PanicStays) \<Rightarrow> sh\<lparr>sh_device := d, sh_panic := Some pn\<rparr>
           | (d, pn, PanicCancelled) \<Rightarrow> sh\<lparr>sh_device := d, sh_panic := None\<rparr>
           | (d, pn, PanicDone r) \<Rightarrow>
               after_wipe E t (Note (if pr_errors r = [] then ''wiped '' @ dec_nat (pr_profiles r) @ '' profile(s)'' else ''wipe INCOMPLETE''))
                 (sh\<lparr>sh_device := d, sh_panic := None\<rparr>)))"

definition locked_frame :: "'k env \<Rightarrow> places \<Rightarrow> 'k turn \<Rightarrow> lock_ui \<Rightarrow> 'k shell \<Rightarrow> 'k shell" where
  "locked_frame E P t lk0 sh =
     (case lock_update E P t (sh_lock_root sh) (sh_device sh) lk0 of
        (d, lk, LockStays) \<Rightarrow> sh\<lparr>sh_device := d, sh_lock := Some lk\<rparr>
      | (d, lk, LockWantsPanic) \<Rightarrow> sh\<lparr>sh_device := d, sh_lock := Some lk, sh_panic := Some (new_panic E t d)\<rparr>
      | (d, lk, LockWiped errors) \<Rightarrow>
          after_wipe E t (Note (if errors = [] then ''too many wrong PINs: everything was wiped'' else ''too many wrong PINs: the wipe is INCOMPLETE''))
            (sh\<lparr>sh_device := d, sh_lock := None\<rparr>)
      | (d, lk, LockOpens) \<Rightarrow>
          (let sh1 = sh\<lparr>sh_device := d, sh_lock := None, sh_last_input := tn_now t\<rparr>;
               sh2 = (if sh_root sh1 = None then sh1 else rescan E t sh1)
           in case sh_reopen sh2 of
                Some r \<Rightarrow> sh2\<lparr>sh_reopen := None, sh_initial := Some r\<rparr>
              | None \<Rightarrow> sh2))"

section \<open>The migration screen\<close>

definition run_migration :: "'k env \<Rightarrow> 'k turn \<Rightarrow> migration_ui \<Rightarrow> 'k shell \<Rightarrow> 'k shell" where
  "run_migration E t m sh =
     (case sh_root sh of
        None \<Rightarrow> sh
      | Some root \<Rightarrow>
          (case on_disk (\<lambda>x. sbind (slift (plan_migration root (mg_sources m) x)) execute_migration x) (sh_device sh) of
             (d, Inl e) \<Rightarrow> sh\<lparr>sh_device := d, sh_migration := Some (m\<lparr>mg_error := Some e\<rparr>)\<rparr>
           | (d, Inr _) \<Rightarrow>
               (let sh1 = rescan E t (sh\<lparr>sh_device := d, sh_migration := None, sh_initial := None\<rparr>)
                in case mg_sources m of
                     [] \<Rightarrow> sh1
                   | (s, name) # rest \<Rightarrow>
                       (case on_disk (write_current root name) (sh_device sh1) of
                          (d2, r) \<Rightarrow> open_session E t name (profile_path root name)
                            (sh1\<lparr>sh_device := d2, sh_picker_error := (case r of Inl e \<Rightarrow> Some (Because ''failed to set current profile'' e) | Inr _ \<Rightarrow> sh_picker_error sh1)\<rparr>)))))"

definition rename_target :: "nat \<Rightarrow> string \<Rightarrow> migration_ui \<Rightarrow> migration_ui" where
  "rename_target i name m =
     (if i < length (mg_sources m) then m\<lparr>mg_sources := (mg_sources m)[i := (fst (mg_sources m ! i), name)]\<rparr> else m)"

definition update_migration :: "'k env \<Rightarrow> 'k turn \<Rightarrow> migration_ui \<Rightarrow> 'k shell \<Rightarrow> 'k shell" where
  "update_migration E t m sh =
     (case tn_input t of
        MigrateName i name \<Rightarrow> sh\<lparr>sh_migration := Some (rename_target i name m)\<rparr>
      | MigrateNotNow \<Rightarrow> sh\<lparr>sh_migration := None, sh_root := sh_classified sh\<rparr>
      | MigrateGo \<Rightarrow> run_migration E t m sh
      | _ \<Rightarrow> sh)"

section \<open>The profile picker\<close>

datatype picker_action =
    ActNone | ActSwitch string path | ActNew | ActNewBurner | ActResume path
  | ActArchive string | ActUnarchive string | ActDelete string bool

text \<open>\<open>payable\<close>: the active session has a configuration, so an account to pay from.\<close>

fun picker_choice :: "bool \<Rightarrow> string \<Rightarrow> profile_entry list \<Rightarrow> profile_entry list \<Rightarrow> pick \<Rightarrow> picker_action" where
  "picker_choice payable active live archived (PickEntry i) =
     (if length live \<le> i then ActNone
      else if pe_setup_incomplete (live ! i) then (if payable then ActResume (pe_dir (live ! i)) else ActNone)
      else if pe_name (live ! i) \<noteq> active then ActSwitch (pe_name (live ! i)) (pe_dir (live ! i)) else ActNone)"
| "picker_choice payable active live archived (PickArchive i) =
     (if i < length live \<and> \<not> pe_setup_incomplete (live ! i) then ActArchive (pe_name (live ! i)) else ActNone)"
| "picker_choice payable active live archived (PickDelete i) =
     (if i < length live \<and> \<not> pe_setup_incomplete (live ! i) then ActDelete (pe_name (live ! i)) False else ActNone)"
| "picker_choice payable active live archived PickNew = (if payable then ActNew else ActNone)"
| "picker_choice payable active live archived PickNewBurner = (if payable then ActNewBurner else ActNone)"
| "picker_choice payable active live archived (PickUnarchive i) =
     (if i < length archived then ActUnarchive (pe_name (archived ! i)) else ActNone)"
| "picker_choice payable active live archived (PickDeleteArchived i) =
     (if i < length archived then ActDelete (pe_name (archived ! i)) True else ActNone)"

text \<open>The list is read while the menu is down.\<close>

definition profile_picker :: "'k env \<Rightarrow> 'k turn \<Rightarrow> string \<Rightarrow> bool \<Rightarrow> bool \<Rightarrow> 'k shell \<Rightarrow> 'k shell \<times> picker_action" where
  "profile_picker E t active in_flight payable sh =
     (let (sh1, action) =
        (if in_flight \<or> \<not> tn_popup t then (sh, ActNone)
         else case sh_root sh of
                None \<Rightarrow> (rescan E t sh, ActNone)
              | Some root \<Rightarrow>
                  (let sh1 = rescan E t sh; (d, archived) = listing E t (root @ [ARCHIVE_DIR]) (sh_device sh1)
                   in (sh1\<lparr>sh_device := d\<rparr>,
                       case tn_input t of Pick p \<Rightarrow> picker_choice payable active (sh_profiles sh1) archived p | _ \<Rightarrow> ActNone)))
      in (if tn_input t = DismissError then sh1\<lparr>sh_picker_error := None\<rparr> else sh1, action))"

text \<open>\<^verbatim>\<open>current\<close> is written first; if it cannot be, the old session stays.\<close>

definition switch_profile :: "'k env \<Rightarrow> 'k turn \<Rightarrow> string \<Rightarrow> path \<Rightarrow> 'k shell \<Rightarrow> 'k shell" where
  "switch_profile E t name dir sh =
     (case sh_root sh of
        None \<Rightarrow> sh
      | Some root \<Rightarrow>
          (case on_disk (write_current root name) (sh_device sh) of
             (d, Inl e) \<Rightarrow> sh\<lparr>sh_device := d, sh_picker_error := Some (Because ''failed to switch profile'' e)\<rparr>
           | (d, Inr _) \<Rightarrow> open_session E t name dir (sh\<lparr>sh_device := d, sh_picker_error := None\<rparr>)))"

definition is_burner_profile :: "'k env \<Rightarrow> disk \<Rightarrow> profile_entry list \<Rightarrow> string \<Rightarrow> bool" where
  "is_burner_profile E x live name =
     (case List.find (\<lambda>p. pe_name p = name) live of
        None \<Rightarrow> False
      | Some p \<Rightarrow> (case load_config E (pe_dir p) x of Inr c \<Rightarrow> burner c | Inl e \<Rightarrow> False))"

definition new_retire :: "string \<Rightarrow> bool \<Rightarrow> retire_ui" where
  "new_retire name b = \<lparr> rt_name = name, rt_burner = b, rt_error = None, rt_busy = False \<rparr>"

text \<open>Tickets are kept by default when there is somewhere to put them.\<close>

definition new_delete :: "delete_plan \<Rightarrow> delete_ui" where
  "new_delete plan =
     \<lparr> dl_plan = plan,
       dl_target = (if 0 < dp_movable_tickets plan \<and> dp_ticket_targets plan \<noteq> [] then Some (hd (dp_ticket_targets plan)) else None),
       dl_keep = False, dl_typed = [], dl_error = None, dl_busy = False \<rparr>"

definition open_delete :: "'k env \<Rightarrow> places \<Rightarrow> 'k turn \<Rightarrow> string \<Rightarrow> bool \<Rightarrow> 'k shell \<Rightarrow> 'k shell" where
  "open_delete E P t name archived sh =
     (case sh_root sh of
        None \<Rightarrow> sh
      | Some root \<Rightarrow>
          (case plan_delete E P (tn_nz t) root name archived (sh_device sh) of
             (d, Inr plan) \<Rightarrow> sh\<lparr>sh_device := d, sh_picker_error := None, sh_delete := Some (new_delete plan)\<rparr>
           | (d, Inl e) \<Rightarrow> sh\<lparr>sh_device := d, sh_picker_error := Some (Because [] e)\<rparr>))"

definition unarchive :: "'k env \<Rightarrow> 'k turn \<Rightarrow> string \<Rightarrow> 'k shell \<Rightarrow> 'k shell" where
  "unarchive E t name sh =
     (case sh_root sh of
        None \<Rightarrow> sh
      | Some root \<Rightarrow>
          (case on_disk (unarchive_profile root name) (sh_device sh) of
             (d, Inr _) \<Rightarrow> rescan E t (sh\<lparr>sh_device := d, sh_picker_error := None\<rparr>)
           | (d, Inl e) \<Rightarrow> sh\<lparr>sh_device := d, sh_picker_error := Some (Because [] e)\<rparr>))"

fun apply_pick :: "'k env \<Rightarrow> places \<Rightarrow> 'k turn \<Rightarrow> picker_action \<Rightarrow> 'k shell \<Rightarrow> 'k shell" where
  "apply_pick E P t ActNone sh = sh"
| "apply_pick E P t (ActSwitch name dir) sh = switch_profile E t name dir sh"
| "apply_pick E P t ActNew sh = sh\<lparr>sh_picker_error := None, sh_wizard := Some new_profile\<rparr>"
| "apply_pick E P t ActNewBurner sh = sh\<lparr>sh_picker_error := None, sh_wizard := Some (new_burner (e_crates E) (tn_burner t))\<rparr>"
| "apply_pick E P t (ActResume dir) sh =
     (case resume_wizard dir (tn_loaded t) of
        Inr w \<Rightarrow> sh\<lparr>sh_picker_error := None, sh_wizard := Some w\<rparr>
      | Inl e \<Rightarrow> sh\<lparr>sh_picker_error := Some (Note e)\<rparr>)"
| "apply_pick E P t (ActArchive name) sh =
     sh\<lparr>sh_picker_error := None, sh_retire := Some (new_retire name (is_burner_profile E (dv_disk (sh_device sh)) (sh_profiles sh) name))\<rparr>"
| "apply_pick E P t (ActDelete name archived) sh = open_delete E P t name archived sh"
| "apply_pick E P t (ActUnarchive name) sh = unarchive E t name sh"

section \<open>The session in the window\<close>

fun is_message :: "ui \<Rightarrow> bool" where
  "is_message (StatusMsg m files) = True"
| "is_message ResolveMsg = True"
| "is_message (SendMsg m) = True"
| "is_message _ = False"

fun before_panel :: "ui \<Rightarrow> bool" where
  "before_panel (SelectTab t) = True"
| "before_panel (BannerResume i loaded) = True"
| "before_panel (Dismiss i) = True"
| "before_panel _ = False"

text \<open>What happens to the session in a frame: the tab or the banner, the panel, its controls.\<close>

definition session_events :: "input \<Rightarrow> ui list" where
  "session_events i =
     (case i of
        SessionInput u \<Rightarrow> (if is_message u \<or> u = DrawStatus then [DrawStatus] else if before_panel u then [u, DrawStatus] else [DrawStatus, u])
      | _ \<Rightarrow> [DrawStatus])"

definition on_session :: "'k env \<Rightarrow> 'k turn \<Rightarrow> bool \<Rightarrow> ui list \<Rightarrow> 'k shell \<Rightarrow> 'k shell" where
  "on_session E t locked us sh =
     (case sh_session sh of
        None \<Rightarrow> sh
      | Some v \<Rightarrow>
          (case session_run (e_crates E) (tn_directory t) (map (\<lambda>u. (locked, u)) us) (pv_session v) of
             (s, trace) \<Rightarrow> sh\<lparr>sh_session := Some (v\<lparr>pv_session := s\<rparr>),
                 sh_jobs := sh_jobs sh @ map SessionJob (concat (map snd trace))\<rparr>))"

definition poll_all :: "'k env \<Rightarrow> 'k turn \<Rightarrow> 'k shell \<Rightarrow> 'k shell" where
  "poll_all E t sh = on_session E t False (filter is_message (tn_msgs t)) sh"

text \<open>The button offered by a burner's published send.\<close>

definition click_offer :: "'k turn \<Rightarrow> 'k shell \<Rightarrow> 'k shell" where
  "click_offer t sh =
     (case sh_session sh of
        None \<Rightarrow> sh
      | Some v \<Rightarrow>
          if tn_input t = OfferArchive \<and> se_tab (pv_session v) = Compose
            \<and> (case se_send_flow (pv_session v) of Some f \<Rightarrow> sf_published f | None \<Rightarrow> False)
            \<and> (case se_config (pv_session v) of Some c \<Rightarrow> burner c | None \<Rightarrow> False)
          then sh\<lparr>sh_session := Some (v\<lparr>pv_offer := True\<rparr>)\<rparr> else sh)"

definition central_panel :: "'k env \<Rightarrow> 'k turn \<Rightarrow> 'k shell \<Rightarrow> 'k shell" where
  "central_panel E t sh =
     (case sh_session sh of
        Some v \<Rightarrow> click_offer t (on_session E t (setup_running sh) (session_events (tn_input t)) sh)
      | None \<Rightarrow>
          (case tn_input t of
             DismissError \<Rightarrow> sh\<lparr>sh_picker_error := None\<rparr>
           | PickOpen i \<Rightarrow>
               if i < length (sh_profiles sh) \<and> \<not> pe_setup_incomplete (sh_profiles sh ! i)
               then open_session E t (pe_name (sh_profiles sh ! i)) (pe_dir (sh_profiles sh ! i)) sh else sh
           | _ \<Rightarrow> sh))"

definition take_offer :: "'k shell \<Rightarrow> 'k shell" where
  "take_offer sh =
     (case sh_session sh of
        None \<Rightarrow> sh
      | Some v \<Rightarrow>
          if \<not> pv_offer v then sh
          else sh\<lparr>sh_session := Some (v\<lparr>pv_offer := False\<rparr>),
                  sh_retire := (if sh_retire sh = None \<and> sh_root sh \<noteq> None then Some (new_retire (pv_name v) True) else sh_retire sh)\<rparr>)"

section \<open>The wizard in the window\<close>

definition wizard_context :: "'k turn \<Rightarrow> 'k shell \<Rightarrow> path \<Rightarrow> config \<Rightarrow> wizard_ctx" where
  "wizard_context t sh root c =
     \<lparr> wx_root = root, wx_rpc = rpc_url c, wx_account = account c,
       wx_busy = (sending_view (sh_session sh) \<or> busy_view (sh_session sh)),
       wx_disk = dv_disk (sh_device sh), wx_loaded = tn_loaded t, wx_saved = tn_saved t \<rparr>"

definition update_wizard :: "'k env \<Rightarrow> 'k turn \<Rightarrow> 'k shell \<Rightarrow> 'k shell" where
  "update_wizard E t sh =
     (case (sh_wizard sh, sh_root sh, Option.bind (sh_session sh) (\<lambda>v. se_config (pv_session v))) of
        (Some w, Some root, Some c) \<Rightarrow>
          (let (out, w', js) = wizard_update (wizard_context t sh root c) (tn_strk t) (tn_setup t)
                 (case tn_input t of WizardInput i \<Rightarrow> Some i | _ \<Rightarrow> None) w;
               sh1 = sh\<lparr>sh_jobs := sh_jobs sh @ map SetupJob js\<rparr>
           in case out of
                WizardOpen \<Rightarrow> sh1\<lparr>sh_wizard := Some w'\<rparr>
              | WizardCancelled \<Rightarrow> sh1\<lparr>sh_wizard := None\<rparr>
              | WizardCompleted name dir \<Rightarrow>
                  (case on_disk (write_current root name) (sh_device sh1) of
                     (d, r) \<Rightarrow> open_session E t name dir (rescan E t (sh1\<lparr>sh_device := d, sh_wizard := None,
                        sh_picker_error := (case r of Inl e \<Rightarrow> Some (Because ''failed to set current profile'' e) | Inr _ \<Rightarrow> sh_picker_error sh1)\<rparr>))))
      | _ \<Rightarrow> sh\<lparr>sh_wizard := None\<rparr>)"

section \<open>The archive and delete dialogs\<close>

definition dialog_busy :: "'k shell \<Rightarrow> bool" where
  "dialog_busy sh = (app_in_flight sh \<or> busy_view (sh_session sh))"

definition close_if_named :: "string \<Rightarrow> 'k shell \<Rightarrow> 'k shell" where
  "close_if_named name sh =
     (case sh_session sh of Some v \<Rightarrow> if pv_name v = name then sh\<lparr>sh_session := None\<rparr> else sh | None \<Rightarrow> sh)"

definition update_retire :: "'k env \<Rightarrow> 'k turn \<Rightarrow> path \<Rightarrow> retire_ui \<Rightarrow> 'k shell \<Rightarrow> 'k shell" where
  "update_retire E t root rt sh =
     (let rt = rt\<lparr>rt_busy := dialog_busy sh\<rparr>
      in if tn_input t = RetireCancel then sh\<lparr>sh_retire := None\<rparr>
         else if tn_input t = RetireGo \<and> \<not> rt_busy rt then
           (case on_disk (archive_profile root (rt_name rt)) (sh_device sh) of
              (d, Inl e) \<Rightarrow> sh\<lparr>sh_device := d, sh_retire := Some (rt\<lparr>rt_error := Some e\<rparr>)\<rparr>
            | (d, Inr _) \<Rightarrow> rescan E t (close_if_named (rt_name rt) (sh\<lparr>sh_device := d, sh_retire := None\<rparr>)))
         else sh\<lparr>sh_retire := Some rt\<rparr>)"

definition edit_delete :: "input \<Rightarrow> delete_ui \<Rightarrow> delete_ui" where
  "edit_delete i dl =
     (case i of
        DeleteType s \<Rightarrow> dl\<lparr>dl_typed := s\<rparr>
      | DeleteTarget target \<Rightarrow>
          if 0 < dp_movable_tickets (dl_plan dl) \<and> (case target of None \<Rightarrow> True | Some n \<Rightarrow> n \<in> set (dp_ticket_targets (dl_plan dl)))
          then dl\<lparr>dl_target := target\<rparr> else dl
      | DeleteKeep b \<Rightarrow>
          if dp_account (dl_plan dl) \<noteq> None \<and> dp_account_address (dl_plan dl) \<noteq> None \<and> dp_account_shared_with (dl_plan dl) = []
          then dl\<lparr>dl_keep := b\<rparr> else dl
      | _ \<Rightarrow> dl)"

definition delete_ready :: "delete_ui \<Rightarrow> bool" where
  "delete_ready dl = (dl_typed dl = confirm_text (dl_plan dl) \<and> \<not> dl_busy dl)"

definition after_delete :: "'k env \<Rightarrow> 'k turn \<Rightarrow> path \<Rightarrow> delete_plan \<Rightarrow> string option option \<Rightarrow> 'k shell \<Rightarrow> 'k shell" where
  "after_delete E t root plan new_current sh0 =
     (let sh = rescan E t sh0
      in if dp_archived plan \<or> (case sh_session sh of Some v \<Rightarrow> pv_name v \<noteq> dp_name plan | None \<Rightarrow> True) then sh
         else case new_current of
                Some (Some other) \<Rightarrow> open_session E t other (profile_path root other) (sh\<lparr>sh_session := None\<rparr>)
              | _ \<Rightarrow> sh\<lparr>sh_session := None\<rparr>)"

definition update_delete :: "'k env \<Rightarrow> places \<Rightarrow> 'k turn \<Rightarrow> path \<Rightarrow> delete_ui \<Rightarrow> 'k shell \<Rightarrow> 'k shell" where
  "update_delete E P t root dl0 sh =
     (let dl = edit_delete (tn_input t) (dl0\<lparr>dl_busy := dialog_busy sh\<rparr>)
      in if tn_input t = DeleteCancel then sh\<lparr>sh_delete := None\<rparr>
         else if tn_input t = DeleteGo \<and> delete_ready dl then
           (case delete_profile E P (tn_nz t) (tn_draws t) root (dl_plan dl) (dl_typed dl) (dl_target dl) (\<not> dl_keep dl) (sh_device sh) of
              (d, Inl e) \<Rightarrow> sh\<lparr>sh_device := d, sh_delete := Some (dl\<lparr>dl_error := Some e\<rparr>)\<rparr>
            | (d, Inr (moved, report)) \<Rightarrow> after_delete E t root (dl_plan dl) (wr_new_current report) (sh\<lparr>sh_device := d, sh_delete := None\<rparr>))
         else sh\<lparr>sh_delete := Some dl\<rparr>)"

text \<open>Without a root a dialog is dropped and the rest of the frame with it.\<close>

definition dialogs :: "'k env \<Rightarrow> places \<Rightarrow> 'k turn \<Rightarrow> 'k shell \<Rightarrow> 'k shell" where
  "dialogs E P t sh =
     (case (sh_retire sh, sh_root sh) of
        (Some rt, None) \<Rightarrow> sh\<lparr>sh_retire := None\<rparr>
      | (retire, root) \<Rightarrow>
          (let sh1 = (case (retire, root) of (Some rt, Some r) \<Rightarrow> update_retire E t r rt sh | _ \<Rightarrow> sh)
           in case (sh_delete sh1, root) of
                (Some dl, None) \<Rightarrow> sh1\<lparr>sh_delete := None\<rparr>
              | (Some dl, Some r) \<Rightarrow> update_panic E P t (update_delete E P t r dl sh1)
              | (None, _) \<Rightarrow> update_panic E P t sh1))"

section \<open>A frame\<close>

definition save_tor :: "'k env \<Rightarrow> path \<Rightarrow> bool \<Rightarrow> (disk, unit) st" where
  "save_tor E root wanted =
     sbind (create_dir_all root) (\<lambda>_. write_bytes (root @ [SETTINGS_FILE]) (sd_json_print (e_serde E) (net_save wanted)))"

definition top_bar :: "'k env \<Rightarrow> 'k turn \<Rightarrow> 'k shell \<Rightarrow> 'k shell" where
  "top_bar E t sh =
     (case tn_input t of
        PanicButton \<Rightarrow> sh\<lparr>sh_panic := Some (new_panic E t (sh_device sh))\<rparr>
      | TorToggle \<Rightarrow>
          (case on_disk (save_tor E (sh_lock_root sh) (\<not> sh_tor_wanted sh)) (sh_device sh) of
             (d, Inr _) \<Rightarrow> sh\<lparr>sh_device := d, sh_tor_wanted := \<not> sh_tor_wanted sh\<rparr>
           | (d, Inl e) \<Rightarrow> sh\<lparr>sh_device := d\<rparr>)
      | _ \<Rightarrow> sh)"

definition open_initial :: "'k env \<Rightarrow> 'k turn \<Rightarrow> 'k shell \<Rightarrow> 'k shell" where
  "open_initial E t sh =
     (case sh_initial sh of None \<Rightarrow> sh | Some (name, home) \<Rightarrow> open_session E t name home (sh\<lparr>sh_initial := None\<rparr>))"

definition has_account :: "'k shell \<Rightarrow> bool" where
  "has_account sh = (case sh_session sh of Some v \<Rightarrow> se_config (pv_session v) \<noteq> None | None \<Rightarrow> False)"

definition pick_profile :: "'k env \<Rightarrow> places \<Rightarrow> 'k turn \<Rightarrow> 'k shell \<Rightarrow> 'k shell" where
  "pick_profile E P t sh =
     (case (sh_session sh, sh_root sh) of
        (Some v, Some root) \<Rightarrow>
          (case profile_picker E t (pv_name v) (app_in_flight sh) (has_account sh) sh of (sh', action) \<Rightarrow> apply_pick E P t action sh')
      | _ \<Rightarrow> sh)"

definition open_frame :: "'k env \<Rightarrow> places \<Rightarrow> 'k turn \<Rightarrow> 'k shell \<Rightarrow> 'k shell" where
  "open_frame E P t sh0 =
     (let sh = top_bar E t (poll_all E t (open_initial E t sh0))
      in if tn_input t = LockButton \<and> \<not> app_in_flight sh then lock_now E t sh
         else let sh1 = take_offer (central_panel E t (pick_profile E P t sh));
                  sh2 = (if sh_wizard sh1 = None then sh1 else update_wizard E t sh1)
              in dialogs E P t sh2)"

definition IDLE_LOCK :: nat where "IDLE_LOCK = 600000"

definition note_input :: "'k turn \<Rightarrow> 'k shell \<Rightarrow> 'k shell" where
  "note_input t sh = (if tn_input t \<noteq> NoInput \<or> tn_pointer t then sh\<lparr>sh_last_input := tn_now t\<rparr> else sh)"

definition unlocked_frame :: "'k env \<Rightarrow> places \<Rightarrow> 'k turn \<Rightarrow> 'k shell \<Rightarrow> 'k shell" where
  "unlocked_frame E P t sh0 =
     (let sh = note_input t sh0
      in if IDLE_LOCK < tn_now t - sh_last_input sh \<and> \<not> app_in_flight sh \<and> \<not> busy_view (sh_session sh) then lock_now E t sh
         else case sh_migration sh of
                Some m \<Rightarrow> update_migration E t m sh
              | None \<Rightarrow> open_frame E P t sh)"

definition arrive :: "'k turn \<Rightarrow> 'k shell \<Rightarrow> 'k shell" where
  "arrive t sh =
     sh\<lparr>sh_device := (sh_device sh)\<lparr>dv_chain := tn_chain t, dv_cache := tn_cache t, dv_wiped := tn_wiped t, dv_disk := tn_disk t\<rparr>, sh_jobs := []\<rparr>"

definition shell_frame :: "'k env \<Rightarrow> places \<Rightarrow> 'k turn \<Rightarrow> 'k shell \<Rightarrow> 'k shell" where
  "shell_frame E P t sh0 =
     (let sh = arrive t sh0
      in case sh_lock sh of
           Some lk \<Rightarrow> update_panic E P t (locked_frame E P t lk sh)
         | None \<Rightarrow> unlocked_frame E P t sh)"

definition shell_run :: "'k env \<Rightarrow> places \<Rightarrow> 'k turn list \<Rightarrow> 'k shell \<Rightarrow> 'k shell" where
  "shell_run E P ts sh = foldl (\<lambda>sh t. shell_frame E P t sh) sh ts"

section \<open>What each part leaves alone\<close>

lemma rescan_same [simp]:
  "sh_root (rescan E t sh) = sh_root sh" "sh_session (rescan E t sh) = sh_session sh" "sh_migration (rescan E t sh) = sh_migration sh"
  "sh_wizard (rescan E t sh) = sh_wizard sh" "sh_retire (rescan E t sh) = sh_retire sh" "sh_delete (rescan E t sh) = sh_delete sh"
  "sh_lock (rescan E t sh) = sh_lock sh" "sh_panic (rescan E t sh) = sh_panic sh" "sh_jobs (rescan E t sh) = sh_jobs sh"
  "sh_initial (rescan E t sh) = sh_initial sh" "sh_reopen (rescan E t sh) = sh_reopen sh" "sh_classified (rescan E t sh) = sh_classified sh"
  by (auto simp: rescan_def split: option.splits prod.splits)

lemma open_session_same [simp]:
  "sh_root (open_session E t n h sh) = sh_root sh" "sh_migration (open_session E t n h sh) = sh_migration sh"
  "sh_wizard (open_session E t n h sh) = sh_wizard sh" "sh_retire (open_session E t n h sh) = sh_retire sh"
  "sh_delete (open_session E t n h sh) = sh_delete sh" "sh_lock (open_session E t n h sh) = sh_lock sh"
  "sh_panic (open_session E t n h sh) = sh_panic sh" "sh_jobs (open_session E t n h sh) = sh_jobs sh"
  by (auto simp: open_session_def Let_def split: prod.splits)

lemma open_session_new:
  "\<exists>v cfg keys pending. sh_session (open_session E t n h sh) = Some v \<and> pv_session v = new_session cfg keys pending"
  by (auto simp: open_session_def view_of_def Let_def split: prod.splits)

lemma on_session_same [simp]:
  "sh_root (on_session E t l us sh) = sh_root sh" "sh_migration (on_session E t l us sh) = sh_migration sh"
  "sh_wizard (on_session E t l us sh) = sh_wizard sh" "sh_retire (on_session E t l us sh) = sh_retire sh"
  "sh_delete (on_session E t l us sh) = sh_delete sh" "sh_lock (on_session E t l us sh) = sh_lock sh" "sh_panic (on_session E t l us sh) = sh_panic sh"
  "(sh_session (on_session E t l us sh) = None) = (sh_session sh = None)" "sh_device (on_session E t l us sh) = sh_device sh"
  by (auto simp: on_session_def split: option.splits prod.splits)

lemma click_offer_same [simp]:
  "sh_root (click_offer t sh) = sh_root sh" "sh_migration (click_offer t sh) = sh_migration sh"
  "sh_wizard (click_offer t sh) = sh_wizard sh" "sh_retire (click_offer t sh) = sh_retire sh"
  "sh_delete (click_offer t sh) = sh_delete sh" "sh_lock (click_offer t sh) = sh_lock sh" "sh_panic (click_offer t sh) = sh_panic sh"
  "sh_jobs (click_offer t sh) = sh_jobs sh" "map_option pv_session (sh_session (click_offer t sh)) = map_option pv_session (sh_session sh)"
  by (auto simp: click_offer_def split: option.splits)

lemma take_offer_same [simp]:
  "sh_root (take_offer sh) = sh_root sh" "sh_migration (take_offer sh) = sh_migration sh" "sh_wizard (take_offer sh) = sh_wizard sh"
  "sh_delete (take_offer sh) = sh_delete sh" "sh_lock (take_offer sh) = sh_lock sh" "sh_panic (take_offer sh) = sh_panic sh"
  "sh_jobs (take_offer sh) = sh_jobs sh" "map_option pv_session (sh_session (take_offer sh)) = map_option pv_session (sh_session sh)"
  by (auto simp: take_offer_def split: option.splits)

lemma top_bar_same [simp]:
  "sh_root (top_bar E t sh) = sh_root sh" "sh_migration (top_bar E t sh) = sh_migration sh" "sh_wizard (top_bar E t sh) = sh_wizard sh"
  "sh_retire (top_bar E t sh) = sh_retire sh" "sh_delete (top_bar E t sh) = sh_delete sh" "sh_lock (top_bar E t sh) = sh_lock sh"
  "sh_session (top_bar E t sh) = sh_session sh" "sh_jobs (top_bar E t sh) = sh_jobs sh"
  by (auto simp: top_bar_def split: input.splits prod.splits sum.splits)

lemma close_if_named_same [simp]:
  "sh_root (close_if_named n sh) = sh_root sh" "sh_migration (close_if_named n sh) = sh_migration sh" "sh_wizard (close_if_named n sh) = sh_wizard sh"
  "sh_retire (close_if_named n sh) = sh_retire sh" "sh_delete (close_if_named n sh) = sh_delete sh" "sh_lock (close_if_named n sh) = sh_lock sh"
  "sh_jobs (close_if_named n sh) = sh_jobs sh"
  by (auto simp: close_if_named_def split: option.splits)

lemma arrive_same [simp]:
  "sh_root (arrive t sh) = sh_root sh" "sh_migration (arrive t sh) = sh_migration sh" "sh_wizard (arrive t sh) = sh_wizard sh"
  "sh_retire (arrive t sh) = sh_retire sh" "sh_delete (arrive t sh) = sh_delete sh" "sh_lock (arrive t sh) = sh_lock sh"
  "sh_session (arrive t sh) = sh_session sh" "sh_panic (arrive t sh) = sh_panic sh" "sh_jobs (arrive t sh) = []"
  "dv_master (sh_device (arrive t sh)) = dv_master (sh_device sh)"
  by (simp_all add: arrive_def)

lemma note_input_same [simp]:
  "sh_root (note_input t sh) = sh_root sh" "sh_migration (note_input t sh) = sh_migration sh" "sh_wizard (note_input t sh) = sh_wizard sh"
  "sh_retire (note_input t sh) = sh_retire sh" "sh_delete (note_input t sh) = sh_delete sh" "sh_lock (note_input t sh) = sh_lock sh"
  "sh_session (note_input t sh) = sh_session sh" "sh_jobs (note_input t sh) = sh_jobs sh" "sh_panic (note_input t sh) = sh_panic sh"
  by (simp_all add: note_input_def)

section \<open>One thing at a time in the window\<close>

definition quiet :: "'k shell \<Rightarrow> bool" where
  "quiet sh = (sh_session sh = None \<and> sh_wizard sh = None \<and> sh_retire sh = None \<and> sh_delete sh = None)"

definition wizard_ok :: "wizard \<Rightarrow> bool" where
  "wizard_ok w = ((wz_rx w \<longrightarrow> wz_flow w \<noteq> None) \<and> (wz_flow w \<noteq> None \<or> wz_confirm w \<longrightarrow> wz_dir w \<noteq> None))"

definition shell_ok :: "'k shell \<Rightarrow> bool" where
  "shell_ok sh =
     ((sh_lock sh \<noteq> None \<or> sh_migration sh \<noteq> None \<longrightarrow> quiet sh)
      \<and> (sh_migration sh \<noteq> None \<or> sh_wizard sh \<noteq> None \<or> sh_retire sh \<noteq> None \<or> sh_delete sh \<noteq> None \<longrightarrow> sh_root sh \<noteq> None)
      \<and> (\<forall>w. sh_wizard sh = Some w \<longrightarrow> wizard_ok w))"

lemma wizard_ok_start: "wizard_ok new_profile" "wizard_ok (new_burner C draw)" "resume_wizard dir loaded = Inr w \<Longrightarrow> wizard_ok w"
  by (auto simp: wizard_ok_def new_profile_def new_burner_def resume_wizard_def Let_def split: sum.splits)

lemma spawn_ok: "spawn x w = (w', js) \<Longrightarrow> wizard_ok w \<Longrightarrow> wizard_ok w'"
  by (auto simp: spawn_def wizard_ok_def split: if_splits option.splits sum.splits)

lemma resume_ok: "request_resume x w = (w', js) \<Longrightarrow> wizard_ok w \<Longrightarrow> wz_flow w \<noteq> None \<Longrightarrow> wizard_ok w'"
  by (auto simp: request_resume_def wizard_ok_def spawn_def split: if_splits option.splits sum.splits)

lemma polled_ok: "wizard_ok w \<Longrightarrow> wizard_ok (polled x strk m w)"
  by (auto simp: polled_def wizard_ok_def fetch_recommended_def poll_recommended_def poll_setup_def split: option.splits setup_msg.splits)

lemma form_ok: "render_form x i w = (out, w') \<Longrightarrow> wizard_ok w \<Longrightarrow> wizard_ok w'"
  by (induction x i w rule: render_form.induct) (auto simp: type_name_def wizard_ok_def split: if_splits)

lemma body_ok: "wizard_body x i w = (out, w', js) \<Longrightarrow> wizard_ok w \<Longrightarrow> wizard_ok w'"
  by (auto simp: wizard_body_def render_checklist_def dest: form_ok split: option.splits prod.splits if_splits)
    (metis option.distinct(1) resume_ok)+

lemma confirm_ok: "render_confirm x i w = (w', js) \<Longrightarrow> wizard_ok w \<Longrightarrow> wizard_ok w'"
  by (auto simp: render_confirm_def wizard_ok_def spawn_def split: if_splits option.splits sum.splits)

lemma wizard_update_ok: "wizard_update x strk m i w = (out, w', js) \<Longrightarrow> wizard_ok w \<Longrightarrow> wizard_ok w'"
  by (erule wizard_update_cases) (auto dest: polled_ok body_ok confirm_ok)

text \<open>Parts that change nothing the invariant reads, or only close things.\<close>

lemma shell_ok_cong:
  "shell_ok sh \<Longrightarrow> sh_root sh' = sh_root sh \<Longrightarrow> sh_migration sh' = sh_migration sh \<Longrightarrow> sh_wizard sh' = sh_wizard sh \<Longrightarrow> sh_retire sh' = sh_retire sh \<Longrightarrow>
     sh_delete sh' = sh_delete sh \<Longrightarrow> sh_lock sh' = sh_lock sh \<Longrightarrow> (sh_session sh = None \<Longrightarrow> sh_session sh' = None) \<Longrightarrow> shell_ok sh'"
  by (auto simp: shell_ok_def quiet_def)

lemma quiet_ok: "quiet sh \<Longrightarrow> (sh_migration sh \<noteq> None \<longrightarrow> sh_root sh \<noteq> None) \<Longrightarrow> shell_ok sh"
  by (simp add: shell_ok_def quiet_def)

lemma opened_ok: "shell_ok sh \<Longrightarrow> sh_lock sh = None \<Longrightarrow> sh_migration sh = None \<Longrightarrow> shell_ok (open_session E t n h sh)"
  by (simp add: shell_ok_def)

lemma lock_now_ok: "shell_ok sh \<Longrightarrow> shell_ok (lock_now E t sh)"
  by (auto simp: lock_now_def Let_def shell_ok_def quiet_def)

lemma after_wipe_ok: "shell_ok (after_wipe E t n sh)"
  by (auto simp: after_wipe_def shell_ok_def quiet_def)

lemma update_panic_ok:
  assumes "shell_ok sh"
  shows "shell_ok (update_panic E P t sh)"
proof (cases "sh_panic sh")
  case None
  with assms show ?thesis by (simp add: update_panic_def)
next
  case (Some pn0)
  obtain d pn out where u: "panic_update E P t (sh_lock_root sh) (sh_device sh) pn0 = (d, pn, out)" by (metis prod_cases3)
  have "shell_ok (sh\<lparr>sh_device := d, sh_panic := x\<rparr>)" for x using assms by (rule shell_ok_cong) simp_all
  with Some u show ?thesis by (cases out) (simp_all add: update_panic_def after_wipe_ok)
qed

lemma locked_frame_ok:
  assumes "shell_ok sh" and "sh_lock sh \<noteq> None"
  shows "shell_ok (locked_frame E P t lk sh)"
proof -
  obtain d lk' out where u: "lock_update E P t (sh_lock_root sh) (sh_device sh) lk = (d, lk', out)" by (metis prod_cases3)
  from assms have q: "quiet sh" "sh_migration sh \<noteq> None \<longrightarrow> sh_root sh \<noteq> None" by (auto simp: shell_ok_def)
  show ?thesis
  proof (cases out)
    case LockOpens
    with u q show ?thesis
      by (auto simp: locked_frame_def Let_def quiet_def split: option.split intro!: quiet_ok)
  qed (use u q in \<open>auto simp: locked_frame_def after_wipe_ok quiet_def intro!: quiet_ok\<close>)
qed

definition awake :: "'k shell \<Rightarrow> bool" where
  "awake sh = (shell_ok sh \<and> sh_lock sh = None \<and> sh_migration sh = None)"

lemma awake_ok: "awake sh \<Longrightarrow> shell_ok sh"
  by (simp add: awake_def)

lemma awake_iff:
  "awake sh \<longleftrightarrow> sh_lock sh = None \<and> sh_migration sh = None \<and> (sh_wizard sh \<noteq> None \<or> sh_retire sh \<noteq> None \<or> sh_delete sh \<noteq> None \<longrightarrow> sh_root sh \<noteq> None)
     \<and> (\<forall>w. sh_wizard sh = Some w \<longrightarrow> wizard_ok w)"
  by (auto simp: awake_def shell_ok_def)

lemma awake_cong:
  assumes "awake sh" and "sh_root sh' = sh_root sh" and "sh_migration sh' = sh_migration sh" and "sh_wizard sh' = sh_wizard sh \<or> sh_wizard sh' = None"
    and "sh_retire sh' = sh_retire sh \<or> sh_retire sh' = None \<or> sh_root sh \<noteq> None" and "sh_delete sh' = sh_delete sh \<or> sh_delete sh' = None \<or> sh_root sh \<noteq> None"
    and "sh_lock sh' = sh_lock sh"
  shows "awake sh'"
proof -
  have "\<forall>w. sh_wizard sh' = Some w \<longrightarrow> wizard_ok w" using assms(1,4) by (auto simp: awake_iff)
  moreover have "sh_root sh' \<noteq> None" if "sh_wizard sh' \<noteq> None \<or> sh_retire sh' \<noteq> None \<or> sh_delete sh' \<noteq> None"
    using assms that by (cases "sh_root sh = None") (auto simp: awake_iff)
  ultimately show ?thesis using assms(1,3,7) by (simp add: awake_iff)
qed

lemma open_awake: "awake sh \<Longrightarrow> awake (open_session E t n h sh)"
  by (erule awake_cong) simp_all

lemma rescan_awake: "awake sh \<Longrightarrow> awake (rescan E t sh)"
  by (erule awake_cong) simp_all

lemma on_session_awake: "awake sh \<Longrightarrow> awake (on_session E t l us sh)"
  by (erule awake_cong) simp_all

lemma open_initial_awake: "awake sh \<Longrightarrow> awake (open_initial E t sh)"
  by (auto simp: open_initial_def intro!: open_awake elim!: awake_cong split: option.split)

lemma top_bar_awake: "awake sh \<Longrightarrow> awake (top_bar E t sh)"
  by (erule awake_cong) simp_all

lemma picker_awake: "awake sh \<Longrightarrow> profile_picker E t n b f sh = (sh', a) \<Longrightarrow> awake sh' \<and> sh_root sh' = sh_root sh"
  by (auto simp: profile_picker_def Let_def split: if_splits option.splits prod.splits elim!: awake_cong)

lemma apply_pick_awake:
  assumes "awake sh" and "sh_root sh \<noteq> None"
  shows "awake (apply_pick E P t a sh)"
proof -
  have w: "awake (sh\<lparr>sh_picker_error := None, sh_wizard := Some w\<rparr>)" if "wizard_ok w" for w
    using assms that by (auto simp: awake_def shell_ok_def quiet_def)
  show ?thesis
  proof (cases a)
    case (ActSwitch n d)
    with assms show ?thesis
      by (auto simp: switch_profile_def intro!: open_awake elim!: awake_cong split: option.split prod.split sum.split)
  next
    case (ActResume dir)
    with assms(1) show ?thesis
      by (auto intro!: w wizard_ok_start elim!: awake_cong split: sum.split)
  next
    case (ActUnarchive n)
    with assms show ?thesis
      by (auto simp: unarchive_def intro!: rescan_awake elim!: awake_cong split: option.split prod.split sum.split)
  next
    case (ActDelete n b)
    with assms show ?thesis
      by (auto simp: open_delete_def elim!: awake_cong split: option.split prod.split sum.split)
  next
    case (ActArchive n)
    with assms show ?thesis by (auto elim!: awake_cong)
  qed (use assms(1) w wizard_ok_start in simp_all)
qed

lemma central_panel_awake: "awake sh \<Longrightarrow> awake (central_panel E t sh)"
  by (auto simp: central_panel_def intro!: open_awake on_session_awake elim!: awake_cong split: option.split input.split)

lemma take_offer_awake: "awake sh \<Longrightarrow> awake (take_offer sh)"
  by (erule awake_cong) (auto simp: take_offer_def split: option.split)

lemma pick_profile_awake: "awake sh \<Longrightarrow> awake (pick_profile E P t sh)"
  by (auto simp: pick_profile_def split: option.split prod.split dest: picker_awake intro!: apply_pick_awake)

lemma update_wizard_awake:
  assumes "awake sh" and "sh_wizard sh = Some w"
  shows "awake (update_wizard E t sh)"
proof (cases "sh_root sh = None \<or> Option.bind (sh_session sh) (\<lambda>v. se_config (pv_session v)) = None")
  case True
  have "awake (sh\<lparr>sh_wizard := None\<rparr>)" using assms(1) by (rule awake_cong) simp_all
  with True assms(2) show ?thesis by (auto simp: update_wizard_def split: option.split)
next
  case False
  then obtain root c where rc: "sh_root sh = Some root" "Option.bind (sh_session sh) (\<lambda>v. se_config (pv_session v)) = Some c" by auto
  obtain out w' js where u: "wizard_update (wizard_context t sh root c) (tn_strk t) (tn_setup t)
      (case tn_input t of WizardInput i \<Rightarrow> Some i | _ \<Rightarrow> None) w = (out, w', js)" by (metis prod_cases3)
  have w': "wizard_ok w'" using wizard_update_ok [OF u] assms by (simp add: awake_iff)
  show ?thesis
  proof (cases out)
    case WizardOpen
    have "awake (sh\<lparr>sh_jobs := sh_jobs sh @ map SetupJob js, sh_wizard := Some w'\<rparr>)" using assms(1) w' rc(1) by (simp add: awake_iff)
    with u assms(2) rc WizardOpen show ?thesis by (simp add: update_wizard_def)
  next
    case WizardCancelled
    have "awake (sh\<lparr>sh_jobs := sh_jobs sh @ map SetupJob js, sh_wizard := None\<rparr>)" using assms(1) by (rule awake_cong) simp_all
    with u assms(2) rc WizardCancelled show ?thesis by (simp add: update_wizard_def)
  next
    case (WizardCompleted name dir)
    have "awake (sh\<lparr>sh_jobs := sh_jobs sh @ map SetupJob js, sh_device := d, sh_wizard := None, sh_picker_error := e\<rparr>)" for d e
      using assms(1) by (rule awake_cong) simp_all
    with u assms(2) rc WizardCompleted show ?thesis
      by (simp add: update_wizard_def open_awake rescan_awake Let_def split: prod.split)
  qed
qed

lemma update_retire_awake: "awake sh \<Longrightarrow> sh_root sh = Some root \<Longrightarrow> awake (update_retire E t root rt sh)"
  by (auto simp: update_retire_def Let_def intro!: rescan_awake elim!: awake_cong split: prod.split sum.split)

lemma after_delete_awake:
  assumes "awake sh"
  shows "awake (after_delete E t root plan cur sh)"
proof -
  have r: "awake (rescan E t sh)" using assms by (rule rescan_awake)
  have "awake ((rescan E t sh)\<lparr>sh_session := None\<rparr>)" using r by (rule awake_cong) simp_all
  with r show ?thesis by (auto simp: after_delete_def Let_def intro: open_awake split: option.split)
qed

lemma update_delete_awake: "awake sh \<Longrightarrow> sh_root sh = Some root \<Longrightarrow> awake (update_delete E P t root dl sh)"
  by (auto simp: update_delete_def Let_def intro!: after_delete_awake elim!: awake_cong split: prod.split sum.split)

lemma update_retire_root: "sh_root (update_retire E t root rt sh) = sh_root sh"
  by (auto simp: update_retire_def Let_def split: prod.split sum.split)

lemma dialogs_ok:
  assumes "awake sh"
  shows "shell_ok (dialogs E P t sh)"
proof (cases "sh_root sh")
  case None
  then have "sh_retire sh = None" "sh_delete sh = None" using assms by (auto simp: awake_iff)
  with None assms show ?thesis by (simp add: dialogs_def update_panic_ok awake_ok)
next
  case (Some root)
  let ?sh1 = "case sh_retire sh of Some rt \<Rightarrow> update_retire E t root rt sh | None \<Rightarrow> sh"
  have 1: "awake ?sh1" "sh_root ?sh1 = Some root"
    using assms Some by (auto simp: update_retire_awake update_retire_root split: option.split)
  have "dialogs E P t sh = update_panic E P t (case sh_delete ?sh1 of None \<Rightarrow> ?sh1 | Some dl \<Rightarrow> update_delete E P t root dl ?sh1)"
    using Some by (auto simp: dialogs_def Let_def split: option.split)
  moreover have "awake (case sh_delete ?sh1 of None \<Rightarrow> ?sh1 | Some dl \<Rightarrow> update_delete E P t root dl ?sh1)"
    using 1 update_delete_awake by (auto split: option.split)
  ultimately show ?thesis by (simp add: update_panic_ok awake_ok)
qed

lemma open_frame_ok:
  assumes "awake sh0"
  shows "shell_ok (open_frame E P t sh0)"
proof -
  let ?sh = "top_bar E t (poll_all E t (open_initial E t sh0))"
  let ?sh1 = "take_offer (central_panel E t (pick_profile E P t ?sh))"
  have sh: "awake ?sh" unfolding poll_all_def by (intro top_bar_awake on_session_awake open_initial_awake assms)
  then have 1: "awake ?sh1" by (intro take_offer_awake central_panel_awake pick_profile_awake)
  then have "awake (if sh_wizard ?sh1 = None then ?sh1 else update_wizard E t ?sh1)" 
    using 1 update_wizard_awake [OF 1] by (cases "sh_wizard ?sh1") (simp_all del: take_offer_same)
  then show ?thesis using lock_now_ok [OF awake_ok [OF sh]] by (simp add: open_frame_def Let_def dialogs_ok)
qed

lemma update_migration_ok:
  assumes "shell_ok sh" and "sh_lock sh = None" and "sh_migration sh = Some m"
  shows "shell_ok (update_migration E t m sh)"
proof -
  have q: "quiet sh" "sh_root sh \<noteq> None" using assms by (auto simp: shell_ok_def)
  show ?thesis
    using assms(2) q
    by (auto simp: update_migration_def run_migration_def Let_def quiet_def shell_ok_def split: input.split option.split prod.split sum.split list.split)
qed

lemma shell_frame_ok:
  assumes "shell_ok sh0"
  shows "shell_ok (shell_frame E P t sh0)"
proof (cases "sh_lock sh0")
  case (Some lk)
  have "shell_ok (arrive t sh0)" using assms by (rule shell_ok_cong) simp_all
  with Some show ?thesis by (simp add: shell_frame_def Let_def update_panic_ok locked_frame_ok)
next
  case None
  let ?sh = "note_input t (arrive t sh0)"
  have ok: "shell_ok ?sh" using assms by (rule shell_ok_cong) simp_all
  have "shell_ok (open_frame E P t ?sh)" if "sh_migration sh0 = None"
    using that None ok by (simp add: open_frame_ok awake_def)
  moreover have "shell_ok (update_migration E t m ?sh)" if "sh_migration sh0 = Some m" for m
    using that None ok update_migration_ok [of ?sh m] by simp
  ultimately show ?thesis
    using None lock_now_ok [OF ok] by (auto simp: shell_frame_def unlocked_frame_def Let_def split: option.split)
qed

lemma new_shell_ok: "shell_ok (new_shell E t launch named default_home via d)"
proof -
  let ?s1 = "classify_launch E t launch named (launched E t launch via d)"
  have "quiet ?s1 \<and> sh_migration ?s1 = None"
    by (auto simp: classify_launch_def launched_def quiet_def Let_def split: prod.split sum.split home_kind.split)
  then show ?thesis
    by (auto simp: new_shell_def offer_migration_def quiet_def Let_def intro!: quiet_ok split: prod.split sum.split)
qed

section \<open>The lock\<close>

lemma keeps_master [keeps_intro]:
  "keeps dv_master (unwrap_key E n i b)" "keeps dv_master (key_get E n i)" "keeps dv_master (profile_key E n home)"
  "keeps dv_master (vault_read E n home p)" "keeps dv_master (rewrap E ns i)"
  by (auto simp: unwrap_key_def key_get_def profile_key_def vault_read_def rewrap_def stored_form_def key_put_def cache_key_def uncache_key_def Let_def intro!: keeps_intro split: option.split)

lemma keeps_listing [keeps_intro]:
  "keeps dv_master (list_each E nz dirs)" "keeps dv_master (list_profiles E nz root)" "keeps dv_master (wrap_each E dr dirs)"
proof -
  have h: "keeps dv_master (cached_handle E nz dir)" for dir
    by (auto simp: cached_handle_def load_home_keys_def intro!: keeps_intro)
  show l: "keeps dv_master (list_each E nz dirs)" for dirs
  proof (induction dirs)
    case Nil
    show ?case by (simp add: keeps_def stepwise_def)
  next
    case (Cons dir dirs)
    then show ?case by (auto simp: Let_def intro!: keeps_intro h)
  qed
  show "keeps dv_master (list_profiles E nz root)"
    by (auto simp: list_profiles_def intro!: keeps_intro l)
  show "keeps dv_master (wrap_each E dr dirs)"
  proof (induction dirs)
    case Nil
    show ?case by (simp add: keeps_def stepwise_def)
  next
    case (Cons dir dirs)
    then show ?case by (auto intro!: keeps_intro)
  qed
qed

lemma rescan_master [simp]: "dv_master (sh_device (rescan E t sh)) = dv_master (sh_device sh)"
proof -
  have "dv_master d' = dv_master d" if "list_profiles E nz root d = (d', r)" for nz root d d' r
    using keeps_step [OF keeps_listing(2) that] .
  then show ?thesis by (auto simp: rescan_def listing_def split: option.split prod.splits)
qed

lemma set_pin_master:
  assumes "set_pin E draws dr pin root d = (d', Inr n)"
  shows "validate_pin pin = Inr () \<and> dv_master d' = Some (fst draws) \<and> lock_load E d = (d, Inr None)"
proof -
  obtain mk salt nonce where draws: "draws = (mk, salt, nonce)" by (metis prod_cases3)
  from assms draws obtain d0 d1 where v: "validate_pin pin = Inr ()" and ld: "lock_load E d = (d0, Inr None)"
    and w: "wrap_profile_keys E dr root (clear_wiped (d1\<lparr>dv_master := Some mk\<rparr>)) = (d', Inr n)"
    by (auto simp: set_pin_def sbind_Inr ensure_eq_Inr)
  have "d0 = d" by (rule lock_load_state [OF ld])
  have "keeps dv_master (wrap_profile_keys E dr root)" by (auto simp: wrap_profile_keys_def intro!: keeps_intro)
  from keeps_step [OF this w] v draws ld \<open>d0 = d\<close> show ?thesis by (simp add: clear_wiped_def)
qed

definition pin_accepted :: "'k env \<Rightarrow> 'k turn \<Rightarrow> lock_ui \<Rightarrow> 'k device \<Rightarrow> 'k device \<Rightarrow> bool" where
  "pin_accepted E t lk d d' =
     (tn_input t = LockSubmit \<and> wait_left (tn_now t) lk = None
      \<and> (if lk_first lk then lk_again lk = lk_pin lk \<and> validate_pin (lk_pin lk) = Inr ()
             \<and> lock_load E d = (d, Inr None) \<and> dv_master d' = Some (fst (tn_pin t))
         else \<exists>b mk. lock_load E d = (d, Inr (Some b)) \<and> unwrap_master (e_crates E) (lk_pin lk) b = Inr (Some mk) \<and> dv_master d' = Some mk))"

lemma unlock_accepts:
  assumes "keychain (e_keys E)" and "unlock E serial now wipe pin d = (d', Inr Unlocked)"
  shows "\<exists>b mk. lock_load E d = (d, Inr (Some b)) \<and> unwrap_master (e_crates E) pin b = Inr (Some mk) \<and> dv_master d' = Some mk"
proof -
  obtain b where b: "lock_load E d = (d, Inr (Some b))"
    using assms(2) by (auto simp: unlock_def sbind_Inr of_opt_def dest: lock_load_state split: option.splits)
  from unlock_attempt [OF assms(1) b assms(2)] b show ?thesis by (auto simp: attempt_kept_def)
qed

lemma lock_opens:
  assumes "keychain (e_keys E)" and "lock_update E P t root d lk = (d', lk', LockOpens)"
  shows "pin_accepted E t lk d d'"
proof -
  from assms(2) have s: "tn_input t = LockSubmit" "wait_left (tn_now t) lk = None" "submit_pin E P t root d lk = (d', lk', LockOpens)"
    by (auto simp: lock_update_def Let_def split: input.splits if_splits)
  show ?thesis
  proof (cases "lk_first lk")
    case True
    obtain d1 r where u: "set_pin E (tn_pin t) (tn_wrap t) (lk_pin lk) root d = (d1, r)" by fastforce
    have v: "lk_again lk = lk_pin lk \<and> validate_pin (lk_pin lk) = Inr ()"
      using s(3) True by (cases "validate_pin (lk_pin lk)") (simp_all add: submit_pin_def Let_def split: if_split_asm)
    obtain n where pin: "set_pin E (tn_pin t) (tn_wrap t) (lk_pin lk) root d = (d', Inr n)"
      using s(3) True v u by (cases r) (simp_all add: submit_pin_def Let_def)
    from set_pin_master [OF pin] v s(1,2) True show ?thesis by (simp add: pin_accepted_def)
  next
    case False
    obtain d1 r where u: "unlock E (tn_serial t) (tn_clock t) (panic_errors E P root) (lk_pin lk) d = (d1, r)" by fastforce
    have "r = Inr Unlocked \<and> d1 = d'"
    proof (cases r)
      case (Inl e)
      with s(3) False u show ?thesis by (simp add: submit_pin_def Let_def)
    next
      case (Inr out)
      with s(3) False u show ?thesis by (cases out) (simp_all add: submit_pin_def Let_def)
    qed
    then have "unlock E (tn_serial t) (tn_clock t) (panic_errors E P root) (lk_pin lk) d = (d', Inr Unlocked)" using u by simp
    from unlock_accepts [OF assms(1) this] False s show ?thesis by (simp add: pin_accepted_def)
  qed
qed

text \<open>Frames that leave the panic dialog closed leave the lock as it was.\<close>

definition calm :: "'k shell \<Rightarrow> 'k shell \<Rightarrow> bool" where
  "calm sh sh' = (sh_panic sh' = sh_panic sh \<and> sh_lock sh' = sh_lock sh)"

lemma calm_open: "calm sh (open_initial E t sh)" "calm sh (poll_all E t sh)" "calm sh (take_offer sh)"
  by (auto simp: calm_def open_initial_def poll_all_def split: option.split)

lemma calm_panel: "calm sh (central_panel E t sh)"
  by (auto simp: calm_def central_panel_def split: option.split input.split)

lemma calm_bar: "tn_input t \<noteq> PanicButton \<Longrightarrow> calm sh (top_bar E t sh)"
  by (auto simp: calm_def top_bar_def split: prod.split sum.split input.split)

lemma calm_wizard: "calm sh (update_wizard E t sh)"
  by (auto simp: calm_def update_wizard_def Let_def split: option.split prod.split wizard_outcome.split)

lemma calm_close: "calm sh (close_if_named n sh)"
  by (auto simp: calm_def close_if_named_def split: option.split)

lemma calm_retire: "calm sh (update_retire E t root rt sh)"
  by (auto simp: calm_close [unfolded calm_def] calm_def update_retire_def Let_def split: prod.split sum.split)

lemma calm_deleted: "calm sh (after_delete E t root plan cur sh)"
  by (auto simp: calm_def after_delete_def Let_def split: option.split)

lemma calm_delete: "calm sh (update_delete E P t root dl sh)"
  by (auto simp: calm_deleted [unfolded calm_def] calm_def update_delete_def Let_def split: prod.split sum.split)

lemma calm_migration: "calm sh (update_migration E t m sh)"
  by (auto simp: calm_def update_migration_def run_migration_def Let_def split: option.split prod.split sum.split input.split list.split)

lemma calm_pick: "calm sh (pick_profile E P t sh)"
proof -
  have "calm sh' (apply_pick E P t a sh')" for a sh'
    by (cases a) (auto simp: calm_def switch_profile_def unarchive_def open_delete_def split: option.split prod.split sum.split)
  moreover have "profile_picker E t n b f sh = (sh', a) \<Longrightarrow> calm sh sh'" for n b f sh' a
    by (auto simp: calm_def profile_picker_def Let_def split: if_splits option.splits prod.splits)
  ultimately show ?thesis by (fastforce simp: pick_profile_def calm_def split: option.split prod.split)
qed

lemmas calm_same = calm_open [unfolded calm_def] calm_panel [unfolded calm_def] calm_bar [unfolded calm_def] calm_wizard [unfolded calm_def]
  calm_retire [unfolded calm_def] calm_delete [unfolded calm_def] calm_pick [unfolded calm_def] calm_migration [unfolded calm_def]

lemma dialogs_calm:
  assumes "sh_panic sh = None"
  shows "sh_lock (dialogs E P t sh) = sh_lock sh"
  using assms by (auto simp: dialogs_def Let_def update_panic_def calm_same split: option.split)

lemma open_frame_lock:
  assumes "sh_panic sh = None" and "tn_input t \<noteq> PanicButton" and "sh_lock sh = None" and "sh_lock (open_frame E P t sh) \<noteq> None"
  shows "\<exists>sh1. open_frame E P t sh = lock_now E t sh1"
proof (rule ccontr)
  let ?sh = "top_bar E t (poll_all E t (open_initial E t sh))"
  let ?sh1 = "take_offer (central_panel E t (pick_profile E P t ?sh))"
  let ?sh2 = "if sh_wizard ?sh1 = None then ?sh1 else update_wizard E t ?sh1"
  assume "\<nexists>sh1. open_frame E P t sh = lock_now E t sh1"
  then have "open_frame E P t sh = dialogs E P t ?sh2" by (auto simp: open_frame_def Let_def)
  moreover have "calm sh ?sh2"
    using assms(2) by (simp add: calm_def calm_same)
  ultimately show False using assms dialogs_calm [of ?sh2 E P t] by (simp add: calm_def)
qed

lemma lock_now_forgets: "dv_master (sh_device (lock_now E t sh)) = None \<and> dv_cache (sh_device (lock_now E t sh)) = Map.empty"
  by (simp add: lock_now_def lock_app_def forget_keys_def Let_def)


lemma locked_quiet:
  assumes "shell_ok sh" and "sh_lock sh = Some lk"
  shows "quiet (shell_frame E P t sh) \<and> sh_jobs (shell_frame E P t sh) = []"
proof -
  let ?l = "locked_frame E P t lk (arrive t sh)"
  have "quiet (arrive t sh)" using assms by (simp add: shell_ok_def quiet_def)
  then have "quiet ?l \<and> sh_jobs ?l = []"
    by (auto simp: locked_frame_def Let_def quiet_def after_wipe_def split: prod.split lock_outcome.split option.split)
  moreover have "quiet (update_panic E P t s) \<and> sh_jobs (update_panic E P t s) = []" if "quiet s" "sh_jobs s = []" for s
    using that by (auto simp: update_panic_def quiet_def after_wipe_def split: option.split prod.split panic_outcome.split)
  ultimately show ?thesis using assms(2) by (simp add: shell_frame_def Let_def)
qed


section \<open>Instances\<close>

definition demo_turn :: "input \<Rightarrow> memory turn" where
  "demo_turn i =
     \<lparr> tn_input = i, tn_pointer = False, tn_now = 1000, tn_chain = dv_chain (demo_device (demo_blob ''123456'' 2)), tn_cache = Map.empty,
       tn_wiped = False, tn_disk = empty_disk, tn_msgs = [], tn_directory = Inl, tn_strk = None, tn_setup = None, tn_loaded = Inl [],
       tn_saved = Inr (), tn_popup = False, tn_nz = (\<lambda>p. []), tn_seal = (\<lambda>n. (vault_draws, [])), tn_draws = (\<lambda>p. (vault_draws, [])), tn_pin = ([], [], []),
       tn_wrap = (\<lambda>p. ([], [])), tn_burner = [], tn_serial = Inr (), tn_clock = (100, 100) \<rparr>"

definition typed_pin :: "string \<Rightarrow> lock_ui" where
  "typed_pin pin = \<lparr> lk_first = False, lk_fails = 2, lk_wait = None, lk_pin = pin, lk_again = [], lk_message = None \<rparr>"

definition demo_shell :: "lock_ui option \<Rightarrow> memory shell" where
  "demo_shell lk =
     \<lparr> sh_device = demo_device (demo_blob ''123456'' 2), sh_root = None, sh_classified = None, sh_profiles = [], sh_session = None, sh_picker_error = None,
       sh_initial = None, sh_migration = None, sh_wizard = None, sh_retire = None, sh_delete = None, sh_lock_root = [''r''], sh_lock = lk,
       sh_panic = None, sh_reopen = None, sh_tor = TorOff, sh_tor_wanted = False, sh_last_input = 1000, sh_jobs = [] \<rparr>"

lemma demo_arrive: "sh_device (arrive (demo_turn i) (demo_shell lk)) = demo_device (demo_blob ''123456'' 2)"
  by (simp add: arrive_def demo_turn_def demo_shell_def demo_device_def)

lemma demo_right:
  "unlock demo_env (Inr ()) (100, 100) wipe ''123456'' (demo_device (demo_blob ''123456'' 2))
   = ((demo_device (demo_blob ''123456'' 0))\<lparr>dv_master := Some (replicate 32 7)\<rparr>, Inr Unlocked)"
proof -
  have r: "(demo_blob ''123456'' 0)\<lparr>lb_not_before := 0\<rparr> = demo_blob ''123456'' 0" by (simp add: demo_blob_def)
  show ?thesis
    by (simp add: demo_unwrap unlock_def sbind_def demo_load settle_attempt_def u64_add_def demo_save wait_after_def FREE_ATTEMPTS_def
        demo_counter r Let_def)
qed

lemma demo_unlocks:
  defines "sh' \<equiv> shell_frame demo_env demo_places (demo_turn LockSubmit) (demo_shell (Some (typed_pin ''123456'')))"
  shows "sh_lock sh' = None \<and> sh_device sh' = (demo_device (demo_blob ''123456'' 0))\<lparr>dv_master := Some (replicate 32 7)\<rparr>"
proof -
  let ?t = "demo_turn LockSubmit" let ?s = "arrive ?t (demo_shell (Some (typed_pin ''123456'')))"
  have t: "tn_input ?t = LockSubmit" "tn_serial ?t = Inr ()" "tn_clock ?t = (100, 100)" by (simp_all add: demo_turn_def)
  have s: "sh_lock ?s = Some (typed_pin ''123456'')" "sh_root ?s = None" "sh_reopen ?s = None" "sh_panic ?s = None"
    by (simp_all add: arrive_def demo_shell_def)
  have "\<exists>lk'. lock_update demo_env demo_places ?t r (demo_device (demo_blob ''123456'' 2)) (typed_pin ''123456'')
      = ((demo_device (demo_blob ''123456'' 0))\<lparr>dv_master := Some (replicate 32 7)\<rparr>, lk', LockOpens)" for r
    by (simp add: lock_update_def submit_pin_def t wait_left_def typed_pin_def demo_right Let_def)
  then obtain lk' where "lock_update demo_env demo_places ?t (sh_lock_root ?s) (sh_device ?s) (typed_pin ''123456'')
      = ((demo_device (demo_blob ''123456'' 0))\<lparr>dv_master := Some (replicate 32 7)\<rparr>, lk', LockOpens)" unfolding demo_arrive by blast
  then show ?thesis
    using s by (simp add: sh'_def shell_frame_def locked_frame_def update_panic_def Let_def)
qed

lemma demo_shell_ok: "shell_ok (demo_shell lk)"
  by (simp add: shell_ok_def quiet_def demo_shell_def)


end
