(* ===== verification/Shell_Spends.thy ===== *)
theory Shell_Spends
  imports Shell
begin

text \<open>
  The paid flows of the desktop application across frames: a send and a profile setup are both
  spends of the accounts the application holds, each on a thread of its own. The shell must not
  start one while the other, or another of its kind, is at work, whatever is opened and closed in
  between.
\<close>

section \<open>The flows at work\<close>

definition sends_started :: "'k shell \<Rightarrow> bool" where
  "sends_started sh = list_ex (\<lambda>j. case j of SessionJob (SpawnSend k) \<Rightarrow> True | _ \<Rightarrow> False) (sh_jobs sh)"

definition setups_started :: "'k shell \<Rightarrow> bool" where
  "setups_started sh = list_ex (\<lambda>j. case j of SetupJob (SpawnSetup rpc dir st) \<Rightarrow> True | _ \<Rightarrow> False) (sh_jobs sh)"

text \<open>A worker has done its work when it reports the end, or that everything is done.\<close>

fun setup_ended :: "setup_msg option \<Rightarrow> bool" where
  "setup_ended (Some (SetupEnded e)) = True"
| "setup_ended (Some (SetupProgress SetupCompleted)) = True"
| "setup_ended _ = False"

text \<open>A wipe ends the account: the identities the flows belong to are gone.\<close>

definition wiped_in :: "'k turn \<Rightarrow> 'k shell \<Rightarrow> 'k shell \<Rightarrow> bool" where
  "wiped_in t sh sh' = (sh_lock sh = None \<and> sh_lock sh' \<noteq> None \<and> tn_input t \<in> {PanicGo, PanicEnter})"

text \<open>\<open>a\<close>: whether a send is at work; \<open>b\<close>: whether a setup is. A session's part of a frame comes
  before the wizard's.\<close>

fun spends_apart :: "'k env \<Rightarrow> places \<Rightarrow> 'k turn list \<Rightarrow> 'k shell \<Rightarrow> bool \<Rightarrow> bool \<Rightarrow> bool" where
  "spends_apart E P [] sh a b = True"
| "spends_apart E P (t # ts) sh a b =
     (let sh' = shell_frame E P t sh;
          a1 = (a \<and> \<not> list_ex ends_send (tn_msgs t)); a2 = (a1 \<or> sends_started sh');
          b1 = (b \<and> \<not> setup_ended (tn_setup t)); b2 = (b1 \<or> setups_started sh')
      in \<not> (sends_started sh' \<and> (a1 \<or> b)) \<and> \<not> (setups_started sh' \<and> (a2 \<or> b1))
         \<and> spends_apart E P ts sh' (a2 \<and> \<not> wiped_in t sh sh') (b2 \<and> \<not> wiped_in t sh sh'))"

text \<open>What the environment keeps to: the checkpoints and plans resumed have a step to do, and a
  profile that has a configuration goes on having one.\<close>

fun keeps_config :: "ui \<Rightarrow> bool" where
  "keeps_config (StatusMsg m files) = (fst files \<noteq> None)"
| "keeps_config (ClickMigrate moved files) = (fst files \<noteq> None)"
| "keeps_config _ = True"

definition event_fair :: "ui \<Rightarrow> bool" where
  "event_fair u = (keeps_config u \<and> resumes_unfinished (False, u))"

definition turn_fair :: "'k turn \<Rightarrow> bool" where
  "turn_fair t =
     (list_all event_fair (tn_msgs t) \<and> (case tn_input t of SessionInput u \<Rightarrow> event_fair u | _ \<Rightarrow> True)
      \<and> (case tn_loaded t of Inr st \<Rightarrow> list_ex (\<lambda>s. \<not> ss_done s) (su_steps st) | Inl e \<Rightarrow> True))"

section \<open>A session's events\<close>

lemma fair_unfinished: "event_fair u \<Longrightarrow> resumes_unfinished (locked, u)"
  by (cases "(locked, u)" rule: resumes_unfinished.cases) (auto simp: event_fair_def)

text \<open>Locked, or delivering messages, a session starts no send.\<close>

lemma locked_starts_none: "session_step C dir True u s = (s', js) \<Longrightarrow> \<not> spawns_send js \<and> (se_send_rx s' \<longrightarrow> se_send_rx s)"
  by (cases u)
    (auto simp: session_ops click_confirm_def click_banner_resume_def banner_shown_def click_failed_resume_def click_back_def click_another_def
      reset_compose_def poll_send_worker_def Let_def split: if_splits option.splits sum.splits status_msg.splits send_msg.splits)

lemma message_starts_none: "is_message u \<Longrightarrow> session_step C dir locked u s = (s', js) \<Longrightarrow> js = [] \<and> (se_send_rx s' \<longrightarrow> se_send_rx s)"
  by (cases u) (auto simp: poll_worker_def poll_compose_worker_def poll_send_worker_def Let_def split: option.splits status_msg.splits send_msg.splits if_splits)

lemma step_config:
  assumes "session_step C dir locked u s = (s', js)" and "keeps_config u" and "se_config s \<noteq> None"
  shows "se_config s' \<noteq> None"
  using assms
  by (cases u)
    (auto simp: session_ops click_confirm_def start_send_def resume_send_def click_banner_resume_def click_failed_resume_def click_back_def
      click_another_def reset_compose_def poll_send_worker_def Let_def split: if_splits option.splits sum.splits status_msg.splits send_msg.splits)

lemma run_facts:
  assumes "session_run C dir (map (\<lambda>u. (locked, u)) us) s = (s', tr)" and "list_all event_fair us"
  shows "(se_config s \<noteq> None \<longrightarrow> se_config s' \<noteq> None)
    \<and> (locked \<longrightarrow> \<not> spawns_send (concat (map snd tr)) \<and> (se_send_rx s' \<longrightarrow> se_send_rx s))
    \<and> (list_all is_message us \<longrightarrow> concat (map snd tr) = [] \<and> (se_send_rx s' \<longrightarrow> se_send_rx s) \<and> (\<forall>a. send_ok s a \<longrightarrow> send_ok s' (a \<and> \<not> list_ex ends_send us)))
    \<and> (\<forall>a. send_ok s a \<and> \<not> list_ex ends_send us \<longrightarrow> \<not> (spawns_send (concat (map snd tr)) \<and> a) \<and> send_ok s' (spawns_send (concat (map snd tr)) \<or> a))"
  using assms
proof (induction us arbitrary: s tr)
  case Nil
  then show ?case by simp
next
  case (Cons u us)
  obtain s1 js where st: "session_step C dir locked u s = (s1, js)" by fastforce
  obtain tr1 where rest: "session_run C dir (map (\<lambda>u. (locked, u)) us) s1 = (s', tr1)" and tr: "tr = ((locked, u), js) # tr1"
    using Cons.prems(1) st by (auto split: prod.splits)
  have fair: "event_fair u" "list_all event_fair us" using Cons.prems(2) by simp_all
  have app: "spawns_send (js @ ks) = (spawns_send js \<or> spawns_send ks)" for ks by (simp add: spawns_send_def)
  note IH = Cons.IH [OF rest fair(2)]
  have ok: "\<not> (spawns_send js \<and> a) \<and> send_ok s1 (spawns_send js \<or> a \<and> \<not> (se_send_rx s \<and> ends_send u))" if "send_ok s a" for a
    using session_step_send_ok [OF st that fair_unfinished [OF fair(1)]] .
  have drop: "send_ok x False" for x by (simp add: send_ok_def)
  have cfg: "se_config s \<noteq> None \<longrightarrow> se_config s' \<noteq> None"
    using step_config [OF st] fair(1) IH by (auto simp: event_fair_def)
  have lk: "locked \<longrightarrow> \<not> spawns_send (concat (map snd tr)) \<and> (se_send_rx s' \<longrightarrow> se_send_rx s)"
    using IH st locked_starts_none [of C dir u s s1 js] tr app by auto
  have msg: "concat (map snd tr) = [] \<and> (se_send_rx s' \<longrightarrow> se_send_rx s) \<and> (\<forall>a. send_ok s a \<longrightarrow> send_ok s' (a \<and> \<not> list_ex ends_send (u # us)))" if "list_all is_message (u # us)"
  proof -
    have js: "js = []" "se_send_rx s1 \<longrightarrow> se_send_rx s" using that message_starts_none [OF _ st] by simp_all
    have "send_ok s' (a \<and> \<not> list_ex ends_send (u # us))" if a: "send_ok s a" for a
    proof (cases "a \<and> \<not> ends_send u")
      case True
      then have "send_ok s1 a" using ok [OF a] js by simp
      then show ?thesis using IH \<open>list_all is_message (u # us)\<close> True by auto
    next
      case False
      then show ?thesis using drop by (simp add: conj_disj_distribL) (metis (full_types) drop)
    qed
    then show ?thesis using js tr IH that by auto
  qed
  have gen: "\<not> (spawns_send (concat (map snd tr)) \<and> a) \<and> send_ok s' (spawns_send (concat (map snd tr)) \<or> a)"
    if a: "send_ok s a" "\<not> list_ex ends_send (u # us)" for a
  proof -
    have 1: "\<not> (spawns_send js \<and> a)" "send_ok s1 (spawns_send js \<or> a)" using ok [OF a(1)] a(2) by auto
    then have "\<not> (spawns_send (concat (map snd tr1)) \<and> (spawns_send js \<or> a)) \<and> send_ok s' (spawns_send (concat (map snd tr1)) \<or> (spawns_send js \<or> a))"
      using IH a(2) by auto
    then show ?thesis using 1 tr app by (auto simp: disj_ac)
  qed
  show ?case using cfg lk msg gen by blast
qed

section \<open>The wizard's part\<close>

definition starts_setup :: "wizard_job list \<Rightarrow> bool" where
  "starts_setup js = list_ex (\<lambda>j. case j of SpawnSetup rpc dir st \<Rightarrow> True | _ \<Rightarrow> False) js"

definition unfinished_flow :: "wizard \<Rightarrow> bool" where
  "unfinished_flow w = (\<forall>f. wz_flow w = Some f \<longrightarrow> \<not> fl_completed f)"

definition plan_fair :: "wizard_ctx \<Rightarrow> bool" where
  "plan_fair x = (case wx_loaded x of Inr st \<Rightarrow> list_ex (\<lambda>s. \<not> ss_done s) (su_steps st) | Inl e \<Rightarrow> True)"

lemma starts_setup_simps [simp]:
  "starts_setup [] = False" "starts_setup [SpawnSetup rpc dir st] = True" "starts_setup (js @ ks) = (starts_setup js \<or> starts_setup ks)"
  "starts_setup (snd (fetch_recommended x w)) = False"
  by (auto simp: starts_setup_def fetch_recommended_def)

lemma unfinished_from_state: "list_ex (\<lambda>s. \<not> ss_done s) (su_steps st) \<Longrightarrow> \<not> fl_completed (setup_from_state st)"
  by (auto simp: setup_from_state_def list_ex_iff list_all_iff)

lemma plan_unfinished: "plan_to_run x w = Inr st \<Longrightarrow> plan_fair x \<Longrightarrow> \<not> fl_completed (setup_from_state st)"
  by (auto simp: plan_to_run_def plan_fair_def planned_def new_plan_def new_plan_external_burner_def intro!: unfinished_from_state split: sum.splits option.splits)

text \<open>Starting: not when busy or running; then the setup runs on an unfinished plan.\<close>

definition start_ok :: "wizard_ctx \<Rightarrow> wizard \<Rightarrow> wizard \<times> wizard_job list \<Rightarrow> bool" where
  "start_ok x w = (\<lambda>(w', js).
     (starts_setup js \<longrightarrow> \<not> wx_busy x \<and> \<not> wz_rx w) \<and> wz_rx w' = (wz_rx w \<or> starts_setup js) \<and> (unfinished_flow w \<longrightarrow> unfinished_flow w'))"

lemma start_ok_spawn: "plan_fair x \<Longrightarrow> start_ok x w (spawn x w)"
  by (auto simp: start_ok_def spawn_def unfinished_flow_def dest: plan_unfinished split: option.split sum.split)

lemma start_ok_resume: "plan_fair x \<Longrightarrow> start_ok x w (request_resume x w)"
  using start_ok_spawn [of x w] by (auto simp: request_resume_def start_ok_def unfinished_flow_def)

lemma start_ok_confirm: "plan_fair x \<Longrightarrow> start_ok x w (render_confirm x i w)"
  using start_ok_spawn [of x "w\<lparr>wz_confirm := False\<rparr>"] by (auto simp: render_confirm_def start_ok_def unfinished_flow_def)

lemma start_ok_trans:
  "start_ok x w (w1, js1) \<Longrightarrow> start_ok x w1 (w2, js2) \<Longrightarrow> start_ok x w (w2, js1 @ js2)"
  by (auto simp: start_ok_def)

lemma body_start:
  assumes "wizard_body x i w = (out, w', js)" and "plan_fair x" and "wizard_ok w"
  shows "start_ok x w (w', js) \<and> (out = WizardCancelled \<longrightarrow> \<not> wz_rx w \<and> js = [] \<and> i \<noteq> Some ConfirmSetup) \<and> (\<forall>n d. out \<noteq> WizardCompleted n d)"
proof (cases "wz_flow w")
  case None
  then have rx: "\<not> wz_rx w" using assms(3) by (auto simp: wizard_ok_def)
  obtain w2 where f: "render_form x i w = (out, w2)" "w' = w2" "js = []" using assms(1) None by (auto simp: wizard_body_def split: prod.splits)
  have "wz_rx w2 = wz_rx w \<and> wz_flow w2 = wz_flow w \<and> (out = WizardCancelled \<longrightarrow> i = Some CancelForm) \<and> (\<forall>n d. out \<noteq> WizardCompleted n d)"
    using f(1) by (induction x i w rule: render_form.induct) (auto simp: type_name_def split: if_splits)
  then show ?thesis using f rx by (auto simp: start_ok_def unfinished_flow_def)
next
  case (Some f)
  then have c: "render_checklist x i f w = (out, w', js)" using assms(1) by (simp add: wizard_body_def)
  have "start_ok x w (w', js)"
    using c start_ok_resume [OF assms(2), of w] by (auto simp: render_checklist_def start_ok_def split: if_splits)
  then show ?thesis using c by (auto simp: render_checklist_def wizard_running_def split: if_splits)
qed

lemma apply_completed: "fl_completed (setup_apply f e) \<Longrightarrow> fl_completed f \<or> e = SetupCompleted"
  by (cases e) auto

lemma polled_flow:
  "unfinished_flow w \<Longrightarrow> unfinished_flow (polled x strk m w) \<or> wz_rx w \<and> setup_ended m"
  by (auto simp: polled_def poll_setup_def poll_recommended_def fetch_recommended_def unfinished_flow_def setup_fail_def
      dest!: apply_completed split: option.splits setup_msg.splits)

lemma polled_rx: "wz_rx (polled x strk m w) \<longrightarrow> wz_rx w" "wz_rx w \<Longrightarrow> \<not> setup_ended m \<Longrightarrow> wz_rx (polled x strk m w)"
  by (auto simp: polled_def poll_setup_def poll_recommended_def fetch_recommended_def split: option.splits setup_msg.splits)

lemma wizard_spend:
  assumes u: "wizard_update x strk m i w = (out, w', js)" and ok: "wizard_ok w" "unfinished_flow w" "plan_fair x"
  shows "(starts_setup js \<longrightarrow> \<not> wx_busy x \<and> \<not> wz_rx (polled x strk m w) \<and> out = WizardOpen)
    \<and> (out = WizardOpen \<longrightarrow> wz_rx w' = (wz_rx (polled x strk m w) \<or> starts_setup js) \<and> unfinished_flow w')
    \<and> (out \<noteq> WizardOpen \<longrightarrow> wz_rx w \<longrightarrow> setup_ended m)
    \<and> (\<forall>n d. out = WizardCompleted n d \<longrightarrow> wz_rx w)"
  using u
proof (cases rule: wizard_update_cases)
  case (completed name dir f)
  then have "\<not> unfinished_flow (polled x strk m w)" by (auto simp: unfinished_flow_def)
  with polled_flow [OF ok(2), of x strk m] completed show ?thesis by auto
next
  case (drawn w2 js2 js3)
  let ?p = "polled x strk m w"
  have p: "wizard_ok ?p" by (rule polled_ok [OF ok(1)])
  from body_start [OF drawn(1) ok(3) p] have b: "start_ok x ?p (w2, js2)" "out = WizardCancelled \<Longrightarrow> \<not> wz_rx ?p \<and> js2 = [] \<and> i \<noteq> Some ConfirmSetup"
    "out = WizardOpen \<or> out = WizardCancelled" by (auto intro: wizard_outcome.exhaust [of out])
  have c: "start_ok x w2 (w', js3)" using start_ok_confirm [OF ok(3), of w2 i] drawn(2) by simp
  have s: "start_ok x ?p (w', js2 @ js3)" by (rule start_ok_trans [OF b(1) c])
  have "starts_setup js = starts_setup (js2 @ js3)" using drawn(3) by simp
  moreover have "js3 = []" if "out = WizardCancelled" using b(2) [OF that] drawn(2) by (auto simp: render_confirm_def split: if_splits)
  moreover have "unfinished_flow ?p" if "out = WizardOpen"
    using drawn(4) p by (auto simp: unfinished_flow_def wizard_ok_def)
  ultimately show ?thesis
    using s b(2,3) polled_rx [where x = x and strk = strk and m = m and w = w] by (auto simp: start_ok_def)
qed

section \<open>The parts of a frame\<close>

text \<open>What holds between the parts of an unlocked frame: nothing is left to open, a session that sends
  and a wizard that runs exclude each other, and a flow at work is the one the window shows.\<close>

definition apart :: "'k shell \<Rightarrow> bool \<Rightarrow> bool \<Rightarrow> bool" where
  "apart sh a b =
     (sh_initial sh = None \<and> \<not> (sending_view (sh_session sh) \<and> setup_running sh)
      \<and> (\<forall>w. sh_wizard sh = Some w \<longrightarrow> unfinished_flow w)
      \<and> (a \<longrightarrow> (\<exists>v. sh_session sh = Some v \<and> send_ok (pv_session v) True))
      \<and> (b \<longrightarrow> setup_running sh \<and> has_account sh \<and> sh_root sh \<noteq> None))"

lemma apart_cong:
  assumes "apart sh a b" and "sh_initial sh' = sh_initial sh" and "map_option pv_session (sh_session sh') = map_option pv_session (sh_session sh)"
    and "sh_wizard sh' = sh_wizard sh" and "sh_root sh' = sh_root sh"
  shows "apart sh' a b"
proof -
  have v: "sending_view (sh_session sh') = sending_view (sh_session sh)" "has_account sh' = has_account sh"
    "(\<exists>v. sh_session sh' = Some v \<and> send_ok (pv_session v) True) = (\<exists>v. sh_session sh = Some v \<and> send_ok (pv_session v) True)"
    using assms(3) by (auto simp: sending_view_def has_account_def map_option_case split: option.splits)
  show ?thesis using assms(1,2,4,5) unfolding apart_def setup_running_def v by simp
qed

lemma sending: "send_ok (pv_session v) True \<Longrightarrow> sending_view (Some v)"
  by (simp add: sending_view_def work_in_flight_def send_ok_def)

lemma apart_flight: "apart sh a b \<Longrightarrow> a \<or> b \<Longrightarrow> app_in_flight sh"
  by (auto simp: apart_def app_in_flight_def sending)

text \<open>A new session sends nothing.\<close>

lemma open_not_sending [simp]: "sending_view (sh_session (open_session E t n h sh)) = False"
  using open_session_new [of E t n h sh] by (auto simp: sending_view_def work_in_flight_def new_session_def)

lemma still [simp]:
  "sh_initial (on_session E t l us sh) = sh_initial sh" "sh_initial (click_offer t sh) = sh_initial sh" "sh_initial (take_offer sh) = sh_initial sh"
  "sh_initial (top_bar E t sh) = sh_initial sh" "sh_initial (open_session E t n h sh) = sh_initial sh" "sh_initial (close_if_named n sh) = sh_initial sh"
  by (auto simp: on_session_def click_offer_def take_offer_def top_bar_def open_session_def close_if_named_def Let_def
      split: option.split prod.split sum.split input.split)

lemma apart_open:
  assumes "apart sh False b" and "\<not> b"
  shows "apart (open_session E t n h sh) False False"
  using assms by (simp add: apart_def setup_running_def)

text \<open>Before the panels.\<close>

definition waiting :: "'k shell \<Rightarrow> bool \<Rightarrow> bool \<Rightarrow> bool" where
  "waiting sh a b = ((sh_initial sh \<noteq> None \<longrightarrow> sh_session sh = None) \<and> apart (sh\<lparr>sh_initial := None\<rparr>) a b)"

lemma apart_initial:
  assumes "waiting sh a b"
  shows "apart (open_initial E t sh) a b"
proof (cases "sh_initial sh")
  case None
  have "apart (sh\<lparr>sh_initial := None\<rparr>) a b" using assms by (simp add: waiting_def)
  then have "apart sh a b" by (rule apart_cong) (simp_all add: None)
  then show ?thesis by (simp add: open_initial_def None)
next
  case (Some p)
  obtain n h where p: "p = (n, h)" by fastforce
  have off: "\<not> a" "\<not> b" using assms Some by (auto simp: waiting_def apart_def has_account_def)
  then have "apart (open_session E t n h (sh\<lparr>sh_initial := None\<rparr>)) False False"
    using assms by (intro apart_open [where b = False]) (simp_all add: waiting_def)
  then show ?thesis using Some p off by (simp add: open_initial_def)
qed

lemma ends_is_message: "ends_send u \<Longrightarrow> is_message u"
  by (induction u rule: ends_send.induct) auto

lemma ends_filter: "list_ex ends_send (filter is_message us) = list_ex ends_send us"
  using ends_is_message by (auto simp: list_ex_iff)

lemma apart_poll:
  assumes "apart sh a b" and "turn_fair t"
  shows "apart (poll_all E t sh) (a \<and> \<not> list_ex ends_send (tn_msgs t)) b \<and> sh_jobs (poll_all E t sh) = sh_jobs sh"
proof (cases "sh_session sh")
  case None
  with assms(1) show ?thesis by (simp add: poll_all_def on_session_def) (auto simp: apart_def)
next
  case (Some v)
  let ?us = "filter is_message (tn_msgs t)"
  obtain s tr where run: "session_run (e_crates E) (tn_directory t) (map (\<lambda>u. (False, u)) ?us) (pv_session v) = (s, tr)" by fastforce
  have fair: "list_all event_fair ?us" using assms(2) by (auto simp: turn_fair_def list_all_iff)
  have msgs: "list_all is_message ?us" by (simp add: list_all_iff)
  note R = run_facts [OF run fair]
  have facts: "concat (map snd tr) = []" "se_send_rx s \<longrightarrow> se_send_rx (pv_session v)" "se_config (pv_session v) \<noteq> None \<longrightarrow> se_config s \<noteq> None"
    "a \<longrightarrow> send_ok s (a \<and> \<not> list_ex ends_send (tn_msgs t))"
    using R msgs assms(1) Some by (auto simp: apart_def ends_filter)
  have p: "poll_all E t sh = sh\<lparr>sh_session := Some (v\<lparr>pv_session := s\<rparr>), sh_jobs := sh_jobs sh\<rparr>"
    using Some run facts(1) by (simp add: poll_all_def on_session_def)
  show ?thesis
    using assms(1) facts Some unfolding p
    by (auto simp: apart_def sending_view_def work_in_flight_def setup_running_def has_account_def)
qed

lemma apart_bar: "apart sh a b \<Longrightarrow> apart (top_bar E t sh) a b"
  by (erule apart_cong) simp_all

lemma resumed_unfinished: "resume_wizard dir loaded = Inr w \<Longrightarrow> (case loaded of Inr st \<Rightarrow> list_ex (\<lambda>s. \<not> ss_done s) (su_steps st) | Inl e \<Rightarrow> True) \<Longrightarrow>
    unfinished_flow w \<and> \<not> wz_rx w"
  by (auto simp: resume_wizard_def unfinished_flow_def dest: unfinished_from_state split: sum.splits)

lemma new_unfinished: "unfinished_flow new_profile \<and> \<not> wz_rx new_profile" "unfinished_flow (new_burner C draw) \<and> \<not> wz_rx (new_burner C draw)"
  by (simp_all add: unfinished_flow_def new_profile_def new_burner_def Let_def)

lemma apart_wizard_set:
  assumes "apart sh False False" and "unfinished_flow w" and "\<not> wz_rx w"
  shows "apart (sh\<lparr>sh_picker_error := e, sh_wizard := Some w\<rparr>) False False"
  using assms by (auto simp: apart_def setup_running_def wizard_running_def)

lemma apart_apply:
  assumes "apart sh False False" and "turn_fair t"
  shows "apart (apply_pick E P t act sh) False False \<and> sh_jobs (apply_pick E P t act sh) = sh_jobs sh"
proof -
  have same: "apart (sh\<lparr>sh_device := d, sh_picker_error := e\<rparr>) False False" "apart (sh\<lparr>sh_picker_error := e\<rparr>) False False" for d e
    using assms(1) by (auto elim!: apart_cong)
  show ?thesis
  proof (cases act)
    case (ActSwitch n d)
    then show ?thesis using assms(1) same by (auto simp: switch_profile_def intro!: apart_open split: option.split prod.split sum.split)
  next
    case (ActResume dir)
    then show ?thesis using assms same resumed_unfinished [of dir "tn_loaded t"]
      by (auto simp: turn_fair_def intro!: apart_wizard_set split: sum.split)
  next
    case (ActUnarchive n)
    then show ?thesis using assms(1)
      by (auto simp: unarchive_def elim!: apart_cong split: option.split prod.split sum.split)
  next
    case (ActDelete n d)
    then show ?thesis using assms(1) by (auto simp: open_delete_def elim!: apart_cong split: option.split prod.split sum.split)
  next
    case (ActArchive n)
    then show ?thesis using assms(1) by (auto elim!: apart_cong)
  qed (use assms(1) new_unfinished in \<open>auto intro!: apart_wizard_set\<close>)
qed

lemma apart_picker:
  assumes "apart sh a b" and "profile_picker E t n f p sh = (sh', act)"
  shows "apart sh' a b \<and> sh_jobs sh' = sh_jobs sh \<and> (f \<longrightarrow> act = ActNone)"
  using assms by (auto simp: profile_picker_def Let_def elim!: apart_cong split: if_splits option.splits prod.splits)

lemma apart_pick:
  assumes "apart sh a b" and "turn_fair t"
  shows "apart (pick_profile E P t sh) a b \<and> sh_jobs (pick_profile E P t sh) = sh_jobs sh"
proof (cases "sh_session sh = None \<or> sh_root sh = None")
  case True
  with assms(1) show ?thesis by (auto simp: pick_profile_def split: option.split)
next
  case False
  then obtain v root where v: "sh_session sh = Some v" "sh_root sh = Some root" by auto
  obtain sh' act where pk: "profile_picker E t (pv_name v) (app_in_flight sh) (has_account sh) sh = (sh', act)" by fastforce
  note P1 = apart_picker [OF assms(1) pk]
  have r: "pick_profile E P t sh = apply_pick E P t act sh'" using v pk by (simp add: pick_profile_def)
  show ?thesis
  proof (cases "a \<or> b")
    case True
    then have "act = ActNone" using P1 apart_flight [OF assms(1)] by simp
    then show ?thesis using P1 r by simp
  next
    case False
    then show ?thesis using P1 r apart_apply [of sh' t E P act] assms(2) by simp
  qed
qed

lemma sends_of_jobs: "list_ex (\<lambda>j. case j of SessionJob (SpawnSend k) \<Rightarrow> True | _ \<Rightarrow> False) (map SessionJob js) = spawns_send js"
  by (induction js) (auto simp: spawns_send_def split: job.splits)

lemma session_events_plain: "list_all event_fair (session_events i)" if "case i of SessionInput u \<Rightarrow> event_fair u | _ \<Rightarrow> True" for i
  using that by (auto simp: session_events_def event_fair_def split: input.splits)

lemma session_events_no_end: "\<not> list_ex ends_send (session_events i)"
  using ends_is_message by (auto simp: session_events_def split: input.split)

text \<open>The panels: a send starts only when neither a send nor a setup is at work.\<close>

lemma apart_panel:
  assumes "apart sh a b" and "turn_fair t" and "sh_jobs sh = []"
  shows "apart (central_panel E t sh) (a \<or> sends_started (central_panel E t sh)) b \<and> \<not> (sends_started (central_panel E t sh) \<and> (a \<or> b))
    \<and> \<not> setups_started (central_panel E t sh)"
proof (cases "sh_session sh")
  case None
  have off: "\<not> a" "\<not> b" using assms(1) None by (auto simp: apart_def has_account_def)
  have "sh_jobs (central_panel E t sh) = [] \<and> apart (central_panel E t sh) False False"
    using None assms(1,3) off by (auto simp: central_panel_def intro!: apart_open elim!: apart_cong split: input.split)
  then show ?thesis using off by (simp add: sends_started_def setups_started_def)
next
  case (Some v)
  let ?us = "session_events (tn_input t)"
  obtain s tr where run: "session_run (e_crates E) (tn_directory t) (map (\<lambda>u. (setup_running sh, u)) ?us) (pv_session v) = (s, tr)" by fastforce
  have fair: "list_all event_fair ?us" using assms(2) session_events_plain by (simp add: turn_fair_def)
  define sent where "sent = spawns_send (concat (map snd tr))"
  have v: "send_ok (pv_session v) a" using assms(1) Some by (auto simp: apart_def send_ok_def)
  have R: "se_config (pv_session v) \<noteq> None \<longrightarrow> se_config s \<noteq> None" "setup_running sh \<longrightarrow> \<not> sent \<and> (se_send_rx s \<longrightarrow> se_send_rx (pv_session v))"
    "\<not> (sent \<and> a) \<and> send_ok s (sent \<or> a)"
    using run_facts [OF run fair] v session_events_no_end by (auto simp: sent_def)
  let ?s1 = "sh\<lparr>sh_session := Some (v\<lparr>pv_session := s\<rparr>), sh_jobs := map SessionJob (concat (map snd tr))\<rparr>"
  have c: "central_panel E t sh = click_offer t ?s1"
    using Some run assms(3) by (simp add: central_panel_def on_session_def)
  have j: "sends_started (central_panel E t sh) = sent" "\<not> setups_started (central_panel E t sh)"
    unfolding c sends_started_def setups_started_def sent_def
    using sends_of_jobs [of "concat (map snd tr)"] by (simp_all add: list_ex_iff)
  have "apart ?s1 (a \<or> sent) b"
    using assms(1) R Some by (auto simp: apart_def sending_view_def work_in_flight_def setup_running_def has_account_def disj_commute)
  then have "apart (central_panel E t sh) (a \<or> sent) b" unfolding c by (rule apart_cong) simp_all
  moreover have "\<not> (sent \<and> (a \<or> b))" using R assms(1) by (auto simp: apart_def)
  ultimately show ?thesis using j by simp
qed

lemma apart_offer: "apart sh a b \<Longrightarrow> apart (take_offer sh) a b"
  by (erule apart_cong) simp_all

text \<open>The wizard: a setup starts only when neither is at work.\<close>

lemma setups_of_jobs: "list_ex (\<lambda>j. case j of SetupJob (SpawnSetup rpc dir st) \<Rightarrow> True | _ \<Rightarrow> False) (map SetupJob js) = starts_setup js"
  by (induction js) (auto simp: starts_setup_def split: wizard_job.splits)

lemma sends_of_setup: "\<not> list_ex (\<lambda>j. case j of SessionJob (SpawnSend k) \<Rightarrow> True | _ \<Rightarrow> False) (map SetupJob js)"
  by (auto simp: list_ex_iff)

lemma apart_wizard:
  fixes E :: "'k env" and t :: "'k turn" and sh :: "'k shell"
  assumes ap: "apart sh a b" and "awake sh" and w: "sh_wizard sh = Some w" and fair: "turn_fair t" and no: "\<not> setups_started sh"
  defines "sh' \<equiv> update_wizard E t sh" and "b1 \<equiv> b \<and> \<not> setup_ended (tn_setup t)"
  shows "apart sh' a (b1 \<or> setups_started sh') \<and> \<not> (setups_started sh' \<and> (a \<or> b1)) \<and> sends_started sh' = sends_started sh"
proof (cases "sh_root sh = None \<or> Option.bind (sh_session sh) (\<lambda>v. se_config (pv_session v)) = None")
  case True
  have "sh' = sh\<lparr>sh_wizard := None\<rparr>" using True w by (auto simp: sh'_def update_wizard_def split: option.split)
  moreover have "\<not> b" using ap True by (auto simp: apart_def has_account_def split: option.splits)
  ultimately show ?thesis using ap no by (simp add: b1_def apart_def setup_running_def setups_started_def sends_started_def)
next
  case False
  then obtain root c where rc: "sh_root sh = Some root" "Option.bind (sh_session sh) (\<lambda>v. se_config (pv_session v)) = Some c" by auto
  let ?x = "wizard_context t sh root c" let ?i = "case tn_input t of WizardInput i \<Rightarrow> Some i | _ \<Rightarrow> None"
  obtain out w' js where u: "wizard_update ?x (tn_strk t) (tn_setup t) ?i w = (out, w', js)" by (metis prod_cases3)
  have ok: "wizard_ok w" "unfinished_flow w" "plan_fair ?x"
    using assms(2) ap w fair by (auto simp: awake_iff apart_def plan_fair_def wizard_context_def turn_fair_def)
  let ?p = "polled ?x (tn_strk t) (tn_setup t) w"
  note W = wizard_spend [OF u ok]
  have busy: "wx_busy ?x = (sending_view (sh_session sh) \<or> busy_view (sh_session sh))" by (simp add: wizard_context_def)
  have run: "setup_running sh = wz_rx w" using w by (simp add: setup_running_def wizard_running_def)
  have m: "\<not> (sending_view (sh_session sh) \<and> wz_rx w)" using ap run by (simp add: apart_def)
  have as: "a \<longrightarrow> sending_view (sh_session sh)" using ap by (auto simp: apart_def sending)
  have b1: "b1 \<longrightarrow> wz_rx ?p" using ap run polled_rx(2) [of w "tn_setup t" ?x "tn_strk t"] by (auto simp: apart_def b1_def)
  have prx: "wz_rx ?p \<longrightarrow> wz_rx w" by (rule polled_rx(1))
  have acct: "has_account sh" using rc(2) by (cases "sh_session sh") (auto simp: has_account_def)
  let ?s1 = "sh\<lparr>sh_jobs := sh_jobs sh @ map SetupJob js\<rparr>"
  have jobs: "sh_jobs sh' = sh_jobs ?s1"
    using w rc u by (cases out) (auto simp: sh'_def update_wizard_def Let_def split: prod.split)
  have st: "setups_started sh' = starts_setup js" "sends_started sh' = sends_started sh"
    using no setups_of_jobs [of js] sends_of_setup [of js] unfolding setups_started_def sends_started_def jobs by simp_all
  show ?thesis
  proof (cases out)
    case WizardOpen
    then have s': "sh' = ?s1\<lparr>sh_wizard := Some w'\<rparr>" using w rc u by (simp add: sh'_def update_wizard_def)
    have w': "wz_rx w' = (wz_rx ?p \<or> starts_setup js)" "unfinished_flow w'" "starts_setup js \<longrightarrow> \<not> wx_busy ?x \<and> \<not> wz_rx ?p"
      using W WizardOpen by auto
    have "\<not> (sending_view (sh_session sh) \<and> wz_rx w')" using w' m prx busy by auto
    then have "apart sh' a (b1 \<or> starts_setup js)"
      using ap w' b1 acct rc(1) unfolding s' by (auto simp: apart_def setup_running_def wizard_running_def has_account_def)
    then show ?thesis using st w'(3) busy as b1 by auto
  next
    case WizardCancelled
    then have s': "sh' = ?s1\<lparr>sh_wizard := None\<rparr>" using w rc u by (simp add: sh'_def update_wizard_def)
    have "\<not> b1" "\<not> starts_setup js" using W WizardCancelled b1 prx by (auto simp: b1_def)
    then show ?thesis using ap st unfolding s' by (simp add: apart_def setup_running_def)
  next
    case (WizardCompleted n dir)
    have off: "\<not> b1" "\<not> starts_setup js" "\<not> a" using W WizardCompleted b1 prx m as by (auto simp: b1_def)
    have "sh_initial (rescan E t x) = sh_initial x" for x by simp
    then have "apart sh' False False"
      using w rc u WizardCompleted ap by (auto simp: sh'_def update_wizard_def Let_def apart_def setup_running_def split: prod.split)
    then show ?thesis using off st by simp
  qed
qed

text \<open>The dialogs.\<close>

lemma dialog_flight: "apart sh a b \<Longrightarrow> \<not> dialog_busy sh \<Longrightarrow> \<not> a \<and> \<not> b"
  using apart_flight [of sh a b] by (auto simp: dialog_busy_def)

lemma apart_close: "apart sh False False \<Longrightarrow> apart (sh\<lparr>sh_session := None\<rparr>) False False"
  by (simp add: apart_def sending_view_def)

lemma apart_retire:
  assumes "apart sh a b"
  shows "apart (update_retire E t root rt sh) a b \<and> sh_jobs (update_retire E t root rt sh) = sh_jobs sh"
proof (cases "tn_input t = RetireGo \<and> \<not> dialog_busy sh")
  case True
  then have off: "\<not> a" "\<not> b" using dialog_flight [OF assms] by auto
  have s: "apart (sh\<lparr>sh_device := d, sh_retire := r\<rparr>) False False" for r d using assms off by (auto elim!: apart_cong)
  have "apart (rescan E t (close_if_named n (sh\<lparr>sh_device := d, sh_retire := None\<rparr>))) False False" for n d
  proof -
    have "apart (close_if_named n (sh\<lparr>sh_device := d, sh_retire := None\<rparr>)) False False"
      using s [where d = d and r = None] apart_close [OF s [where d = d and r = None]] by (auto simp: close_if_named_def split: option.split)
    then show ?thesis by (rule apart_cong) simp_all
  qed
  then show ?thesis using True off s by (auto simp: update_retire_def Let_def split: prod.split sum.split)
next
  case False
  have "apart (sh\<lparr>sh_retire := r\<rparr>) a b" for r using assms by (rule apart_cong) simp_all
  with False show ?thesis by (auto simp: update_retire_def Let_def)
qed

lemma apart_after_delete:
  assumes "apart sh False False"
  shows "apart (after_delete E t root plan cur sh) False False \<and> sh_jobs (after_delete E t root plan cur sh) = sh_jobs sh"
proof -
  have r: "apart (rescan E t sh) False False" using assms by (rule apart_cong) simp_all
  then show ?thesis
    using apart_close [OF r] by (auto simp: after_delete_def Let_def intro!: apart_open split: option.split)
qed

lemma apart_delete:
  assumes "apart sh a b"
  shows "apart (update_delete E P t root dl sh) a b \<and> sh_jobs (update_delete E P t root dl sh) = sh_jobs sh"
proof (cases "tn_input t = DeleteGo \<and> \<not> dialog_busy sh")
  case True
  then have off: "\<not> a" "\<not> b" using dialog_flight [OF assms] by auto
  have s: "apart (sh\<lparr>sh_device := d, sh_delete := r\<rparr>) False False" for d r using assms off by (auto elim!: apart_cong)
  have s0: "apart (sh\<lparr>sh_delete := r\<rparr>) False False" for r using assms off by (auto elim!: apart_cong)
  show ?thesis using True off s s0 apart_after_delete [OF s] by (auto simp: update_delete_def Let_def split: prod.split sum.split)
next
  case False
  have "apart (sh\<lparr>sh_delete := r\<rparr>) a b" for r using assms by (rule apart_cong) simp_all
  moreover have "\<not> delete_ready (edit_delete DeleteGo (dl\<lparr>dl_busy := True\<rparr>))" by (simp add: delete_ready_def edit_delete_def)
  ultimately show ?thesis using False by (auto simp: update_delete_def Let_def)
qed

section \<open>A frame and a run\<close>

lemma apart_waiting: "apart sh a b \<Longrightarrow> waiting sh a b"
  by (auto simp: waiting_def apart_def sending_view_def setup_running_def has_account_def)

lemma quiet_waiting: "quiet sh \<Longrightarrow> waiting sh False False"
  by (simp add: waiting_def apart_def quiet_def sending_view_def)

lemma waiting_quiet: "waiting sh a b \<Longrightarrow> quiet sh \<Longrightarrow> \<not> a \<and> \<not> b"
  by (auto simp: waiting_def apart_def quiet_def setup_running_def)

lemma waiting_flight: "waiting sh a b \<Longrightarrow> \<not> app_in_flight sh \<Longrightarrow> \<not> a \<and> \<not> b"
  using apart_flight [of "sh\<lparr>sh_initial := None\<rparr>" a b] by (auto simp: waiting_def app_in_flight_def setup_running_def)

lemma waiting_cong:
  assumes "waiting sh a b" and "sh_initial sh' = sh_initial sh" and "sh_session sh' = sh_session sh" and "sh_wizard sh' = sh_wizard sh" and "sh_root sh' = sh_root sh"
  shows "waiting sh' a b"
  using assms unfolding waiting_def by (auto elim!: apart_cong)

text \<open>After the panic dialog: as before it, or wiped.\<close>

definition settled :: "'k turn \<Rightarrow> 'k shell \<Rightarrow> bool \<Rightarrow> bool \<Rightarrow> bool" where
  "settled t sh a b = (if sh_lock sh = None then waiting sh a b else quiet sh \<and> tn_input t \<in> {PanicGo, PanicEnter})"

lemma panic_settled:
  assumes "apart sh a b" and "sh_lock sh = None"
  shows "settled t (update_panic E P t sh) a b \<and> sh_jobs (update_panic E P t sh) = sh_jobs sh"
proof (cases "sh_panic sh")
  case None
  with assms show ?thesis by (simp add: update_panic_def settled_def apart_waiting)
next
  case (Some pn0)
  obtain d pn out where u: "panic_update E P t (sh_lock_root sh) (sh_device sh) pn0 = (d, pn, out)" by (metis prod_cases3)
  have "apart (sh\<lparr>sh_device := d, sh_panic := x\<rparr>) a b" for x using assms(1) by (rule apart_cong) simp_all
  moreover have "tn_input t \<in> {PanicGo, PanicEnter}" if "out = PanicDone r" for r
    using u that by (auto simp: panic_update_def split: input.splits if_splits)
  ultimately show ?thesis
    using Some u assms(2) by (cases out) (auto simp: update_panic_def settled_def after_wipe_def quiet_def intro: apart_waiting)
qed

lemma dialogs_settled:
  assumes "awake sh" and "apart sh a b"
  shows "settled t (dialogs E P t sh) a b \<and> sh_jobs (dialogs E P t sh) = sh_jobs sh"
proof (cases "sh_root sh")
  case None
  then have "sh_retire sh = None" "sh_delete sh = None" "sh_lock sh = None" using assms(1) by (auto simp: awake_iff)
  with None assms(2) show ?thesis by (simp add: dialogs_def panic_settled)
next
  case (Some root)
  let ?sh1 = "case sh_retire sh of Some rt \<Rightarrow> update_retire E t root rt sh | None \<Rightarrow> sh"
  let ?sh2 = "case sh_delete ?sh1 of None \<Rightarrow> ?sh1 | Some dl \<Rightarrow> update_delete E P t root dl ?sh1"
  have 1: "apart ?sh1 a b \<and> sh_jobs ?sh1 = sh_jobs sh \<and> sh_lock ?sh1 = None"
    using assms apart_retire [OF assms(2)] by (auto simp: calm_same awake_iff split: option.split)
  then have 2: "apart ?sh2 a b \<and> sh_jobs ?sh2 = sh_jobs sh \<and> sh_lock ?sh2 = None"
    using apart_delete [of ?sh1 a b] by (auto simp: calm_same split: option.split)
  have "dialogs E P t sh = update_panic E P t ?sh2"
    using Some by (auto simp: dialogs_def Let_def split: option.split)
  then show ?thesis using panic_settled [of ?sh2 a b t E P] 2 by simp
qed

text \<open>An unlocked frame over the panels.\<close>

lemma open_frame_apart:
  fixes E :: "'k env" and P :: places and t :: "'k turn" and sh0 :: "'k shell"
  assumes "awake sh0" and "waiting sh0 a b" and fair: "turn_fair t" and "sh_jobs sh0 = []"
  defines "sh' \<equiv> open_frame E P t sh0" and "a1 \<equiv> a \<and> \<not> list_ex ends_send (tn_msgs t)" and "b1 \<equiv> b \<and> \<not> setup_ended (tn_setup t)"
  shows "\<not> (sends_started sh' \<and> (a1 \<or> b)) \<and> \<not> (setups_started sh' \<and> (a1 \<or> sends_started sh' \<or> b1))
    \<and> (settled t sh' (a1 \<or> sends_started sh') (b1 \<or> setups_started sh') \<or> quiet sh' \<and> \<not> a1 \<and> \<not> b1 \<and> \<not> sends_started sh' \<and> \<not> setups_started sh')"
proof -
  let ?i = "open_initial E t sh0"
  let ?p = "poll_all E t ?i"
  let ?s = "top_bar E t ?p"
  let ?s1 = "take_offer (central_panel E t (pick_profile E P t ?s))"
  let ?s2 = "if sh_wizard ?s1 = None then ?s1 else update_wizard E t ?s1"
  have "sh_jobs ?i = []" using assms(4) by (simp add: open_initial_def split: option.split)
  then have s: "apart ?s a1 b" "sh_jobs ?s = []" "awake ?s"
    using apart_poll [OF apart_initial [OF assms(2)] fair, of E] assms(1)
    by (auto simp: a1_def poll_all_def intro!: apart_bar top_bar_awake on_session_awake open_initial_awake)
  show ?thesis
  proof (cases "tn_input t = LockButton \<and> \<not> app_in_flight ?s")
    case True
    then have "sh' = lock_now E t ?s" "\<not> a1 \<and> \<not> b" using apart_flight [OF s(1)] by (auto simp: sh'_def open_frame_def)
    then show ?thesis using s(2) by (auto simp: b1_def lock_now_def quiet_def Let_def sends_started_def setups_started_def)
  next
    case False
    then have s': "sh' = dialogs E P t ?s2" by (auto simp: sh'_def open_frame_def Let_def)
    define sent where "sent = sends_started ?s1"
    have pk: "apart (pick_profile E P t ?s) a1 b" "sh_jobs (pick_profile E P t ?s) = []" using apart_pick [OF s(1) fair] s(2) by simp_all
    from apart_panel [OF pk(1) fair pk(2), of E]
    have s1: "apart ?s1 (a1 \<or> sent) b" "\<not> (sent \<and> (a1 \<or> b))" "\<not> setups_started ?s1"
      by (auto simp: sent_def sends_started_def setups_started_def intro!: apart_offer)
    have aw1: "awake ?s1" by (intro take_offer_awake central_panel_awake pick_profile_awake s(3))
    have s2: "apart ?s2 (a1 \<or> sent) (b1 \<or> setups_started ?s2)" "\<not> (setups_started ?s2 \<and> (a1 \<or> sent \<or> b1))" "sends_started ?s2 = sent"
    proof -
      have "apart ?s2 (a1 \<or> sent) (b1 \<or> setups_started ?s2) \<and> \<not> (setups_started ?s2 \<and> (a1 \<or> sent \<or> b1)) \<and> sends_started ?s2 = sent"
      proof (cases "sh_wizard ?s1")
        case None
        then have "\<not> b" using s1(1) by (auto simp: apart_def setup_running_def)
        with None s1 show ?thesis by (simp add: b1_def sent_def del: take_offer_same)
      next
        case (Some w)
        from apart_wizard [OF s1(1) aw1 Some fair s1(3), of E] Some show ?thesis
          by (simp add: b1_def sent_def del: take_offer_same)
      qed
      then show "apart ?s2 (a1 \<or> sent) (b1 \<or> setups_started ?s2)" "\<not> (setups_started ?s2 \<and> (a1 \<or> sent \<or> b1))" "sends_started ?s2 = sent" by auto
    qed
    have "awake ?s2" using aw1 update_wizard_awake [OF aw1] by (cases "sh_wizard ?s1") (simp_all del: take_offer_same)
    from dialogs_settled [OF this s2(1), of t E P] s' have fin: "settled t sh' (a1 \<or> sent) (b1 \<or> setups_started ?s2)" "sh_jobs sh' = sh_jobs ?s2" by simp_all
    then have "sends_started sh' = sent" "setups_started sh' = setups_started ?s2" using s2(3) by (simp_all add: sends_started_def setups_started_def)
    then show ?thesis using fin(1) s1(2) s2(2) by auto
  qed
qed

text \<open>The migration screen shows alone; when it goes, nothing is at work.\<close>

lemma migration_waiting:
  assumes "quiet sh"
  shows "waiting (update_migration E t m sh) False False \<and> sh_jobs (update_migration E t m sh) = sh_jobs sh"
proof -
  have o: "waiting (open_session E t n h x) False False" if "quiet x \<and> sh_initial x = None" for n h x
    using that by (intro apart_waiting apart_open [where b = False]) (simp_all add: apart_def quiet_def sending_view_def)
  have q: "waiting (x\<lparr>sh_device := d\<rparr>) False False" if "quiet x" for x d
    using that by (intro quiet_waiting) (simp add: quiet_def)
  show ?thesis
    using assms
    by (auto simp: update_migration_def run_migration_def Let_def quiet_def intro!: quiet_waiting [unfolded quiet_def] o
        split: input.split option.split prod.split sum.split list.split)
qed

lemma nothing_started [simp]: "sh_jobs sh = [] \<Longrightarrow> \<not> sends_started sh" "sh_jobs sh = [] \<Longrightarrow> \<not> setups_started sh"
  by (simp_all add: sends_started_def setups_started_def)

lemma frame_apart:
  fixes E :: "'k env" and P :: places and t :: "'k turn" and sh :: "'k shell"
  assumes ok: "shell_ok sh" and wt: "waiting sh a b" and fair: "turn_fair t"
  defines "sh' \<equiv> shell_frame E P t sh" and "a1 \<equiv> a \<and> \<not> list_ex ends_send (tn_msgs t)" and "b1 \<equiv> b \<and> \<not> setup_ended (tn_setup t)"
  defines "a2 \<equiv> a1 \<or> sends_started sh'" and "b2 \<equiv> b1 \<or> setups_started sh'"
  shows "\<not> (sends_started sh' \<and> (a1 \<or> b)) \<and> \<not> (setups_started sh' \<and> (a2 \<or> b1))
    \<and> waiting sh' (a2 \<and> \<not> wiped_in t sh sh') (b2 \<and> \<not> wiped_in t sh sh')"
proof (cases "sh_lock sh")
  case (Some lk)
  have off: "\<not> a" "\<not> b" using waiting_quiet [OF wt] ok Some by (auto simp: shell_ok_def)
  have "quiet sh'" "sh_jobs sh' = []" using locked_quiet [OF ok Some] by (simp_all add: sh'_def)
  then show ?thesis using off by (simp add: a1_def a2_def b1_def b2_def quiet_waiting)
next
  case None
  let ?s = "note_input t (arrive t sh)"
  have s: "waiting ?s a b" by (rule waiting_cong [OF wt]) (simp_all add: note_input_def arrive_def)
  have s': "sh' = (if IDLE_LOCK < tn_now t - sh_last_input ?s \<and> \<not> app_in_flight ?s \<and> \<not> busy_view (sh_session ?s) then lock_now E t ?s
      else case sh_migration sh of Some m \<Rightarrow> update_migration E t m ?s | None \<Rightarrow> open_frame E P t ?s)"
    using None by (auto simp: sh'_def shell_frame_def unlocked_frame_def Let_def split: option.split)
  show ?thesis
  proof (cases "IDLE_LOCK < tn_now t - sh_last_input ?s \<and> \<not> app_in_flight ?s \<and> \<not> busy_view (sh_session ?s)")
    case True
    then have l: "sh' = lock_now E t ?s" "\<not> a \<and> \<not> b" using s' waiting_flight [OF s] by auto
    then have "quiet sh'" "sh_jobs sh' = []" by (simp_all add: lock_now_def quiet_def Let_def)
    then show ?thesis using l(2) by (simp add: a1_def a2_def b1_def b2_def quiet_waiting)
  next
    case False
    show ?thesis
    proof (cases "sh_migration sh")
      case (Some m)
      then have q: "quiet ?s" using ok by (auto simp: shell_ok_def quiet_def)
      have m: "sh' = update_migration E t m ?s" "\<not> a \<and> \<not> b" using s' False Some waiting_quiet [OF s q] by auto
      with migration_waiting [OF q, of E t m] have "waiting sh' False False" "sh_jobs sh' = []" by simp_all
      then show ?thesis using m(2) by (simp add: a1_def a2_def b1_def b2_def)
    next
      case no: None
      have aw: "awake ?s" using ok None no by (auto simp: awake_def elim!: shell_ok_cong)
      have e: "sh' = open_frame E P t ?s" using s' no unfolding if_not_P [OF False] by simp
      from open_frame_apart [OF aw s fair, of E P, folded e a1_def b1_def]
      have F: "\<not> (sends_started sh' \<and> (a1 \<or> b))" "\<not> (setups_started sh' \<and> (a2 \<or> b1))"
        "settled t sh' a2 b2 \<or> quiet sh' \<and> \<not> a2 \<and> \<not> b2" by (auto simp: a2_def b2_def)
      have "waiting sh' (a2 \<and> \<not> wiped_in t sh sh') (b2 \<and> \<not> wiped_in t sh sh')"
        using F(3) None by (auto simp: settled_def wiped_in_def quiet_waiting split: if_splits)
      then show ?thesis using F by simp
    qed
  qed
qed

lemma run_apart: "list_all turn_fair ts \<Longrightarrow> shell_ok sh \<Longrightarrow> waiting sh a b \<Longrightarrow> spends_apart E P ts sh a b"
proof (induction ts arbitrary: sh a b)
  case (Cons t ts)
  have fair: "turn_fair t" using Cons.prems(1) by simp
  from frame_apart [OF Cons.prems(2,3) fair, of E P] Cons.IH [OF _ shell_frame_ok [OF Cons.prems(2)]] Cons.prems(1)
  show ?case by (simp add: Let_def)
qed simp

text \<open>C30: From the launch on, however profiles, wizards and dialogs are opened and closed and whatever the
  workers report, the application starts no send while a send or a setup is at work, and no setup
  while a send or a setup is; a panic wipe, which destroys the accounts, ends the account of what is
  at work. The checkpoints and plans resumed have a step to do, and a configured profile stays
  configured.\<close>

theorem spends_stay_apart:
  assumes "list_all turn_fair ts"
  shows "spends_apart E P ts (new_shell E t launch named default_home via d) False False"
proof -
  let ?s1 = "classify_launch E t launch named (launched E t launch via d)"
  have "quiet ?s1"
    by (auto simp: classify_launch_def launched_def quiet_def Let_def split: prod.split sum.split home_kind.split)
  then have "quiet (new_shell E t launch named default_home via d)"
    by (auto simp: new_shell_def offer_migration_def quiet_def Let_def split: prod.split sum.split)
  then show ?thesis by (intro run_apart assms new_shell_ok quiet_waiting)
qed

theorem spends_stay_apart_witness:
  "spends_apart demo_env demo_places [demo_turn LockSubmit, demo_turn (SessionInput ClickConfirm), demo_turn PanicButton]
     (new_shell demo_env (demo_turn NoInput) [''r''] None False TorOff (demo_device (demo_blob ''123456'' 2))) False False"
  by (rule spends_stay_apart) (simp add: turn_fair_def event_fair_def demo_turn_def)

end
