(* ===== verification/Spec2Isabelle.thy ===== *)
theory Spec2Isabelle
  imports Prelude Crates Serde Tree TxPolicy Crypto Registry Config Tickets Json Chain Invoke
    Sequencer Send_State Virtual_Send Publish Send_Safety Keychain Disk App_Lock Vault
    Profiles Wipe Wipe_Safety Inbox App Setup Feeder Block_Index Net
    Spill Checklist Session Pack Decommit Calldata Bridge Wizard Shell Shell_Spends
begin

text \<open>
  A model of \<^verbatim>\<open>zkmsg\<close> (\<^verbatim>\<open>src/tools/zkmsg\<close>), the client of a private messaging pool on Starknet, and
  proofs of what makes it correct. A member registers a handle with a view key, an ML-KEM key and
  a commitment to a membership secret; buys tickets in advance; and sends by proving, off chain,
  that some member with an unspent ticket and a free quota slot of the epoch sends this content,
  then publishing the proof through a shared account that nobody owns. The code must never
  publish two transactions for one message, lose or reuse a ticket or a slot, or put anything on
  the wire that depends on the member.

  \<^bold>\<open>Parts and theories.\<close>

  \<^item> \<open>Prelude\<close>: \<^verbatim>\<open>anyhow::Result\<close> as \<open>err + 'a\<close> with the errors the code or a caller tells apart,
    bytes, field elements, and the lemmas shared by everything else.
  \<^item> \<open>Crates\<close>: the third-party code (Poseidon, Keccak, ML-KEM-768, HKDF, AES-GCM, curve arithmetic,
    Argon2, ECDSA, hex) as a record \<open>crates\<close> the definitions take as an argument; the laws used
    are named hypotheses (\<open>felt_hex_ok\<close>, \<open>ecdh_ok\<close>, \<open>kem_ok\<close>, \<open>hkdf_ok\<close>, \<open>gcm_ok\<close>), all
    satisfied by the concrete \<open>demo_crates\<close>.
  \<^item> \<open>Serde\<close> (\<^verbatim>\<open>chain.rs\<close>, \<^verbatim>\<open>crypto.rs\<close>): felts and Cairo ByteArrays, with codec locales.
  \<^item> \<open>Tree\<close> (\<^verbatim>\<open>tree.rs\<close>): the incremental Merkle tree against the full binary tree, as an
    interpretation of an accumulator locale the registry and the tickets rest on.
  \<^item> \<open>TxPolicy\<close> (\<^verbatim>\<open>txpolicy.rs\<close>): rounding, price bounds and the publish schedule.
  \<^item> \<open>Crypto\<close> (\<^verbatim>\<open>crypto.rs\<close>): commitments, hybrid encapsulation, sealing, padding.
  \<^item> \<open>Registry\<close> (\<^verbatim>\<open>registry.rs\<close>), \<open>Tickets\<close> (\<^verbatim>\<open>tickets.rs\<close>): the two trees rebuilt from events, the
    wallet of tickets and the quota log.
  \<^item> \<open>Config\<close> (\<^verbatim>\<open>config.rs\<close>): files (present or not, reads and writes may fail), the keys file and
    its guards.
  \<^item> \<open>Json\<close>, \<open>Chain\<close> (\<^verbatim>\<open>chain.rs\<close>): JSON values and text, argument lists, paging through events.
  \<^item> \<open>Invoke\<close> (\<^verbatim>\<open>invoke_v3.rs\<close>, parts of \<^verbatim>\<open>sequencer.rs\<close> and \<^verbatim>\<open>account_tx.rs\<close>): the transaction, its
    hash, its signature and its two spellings.
  \<^item> \<open>Sequencer\<close> (\<^verbatim>\<open>sequencer.rs\<close>): what replies and statuses mean; retries and waiting.
  \<^item> \<open>Send_State\<close> (\<^verbatim>\<open>state.rs\<close>, \<^verbatim>\<open>pipeline.rs\<close>): the persisted plan of a send, an interpretation of
    the locale \<open>checkpoints\<close>.
  \<^item> \<open>Virtual_Send\<close> (\<^verbatim>\<open>virtual_send.rs\<close>): the encodings shared with the contracts, the checks of a
    proof, and \<open>prepare\<close>, related to the statement the prover contract checks.
  \<^item> \<open>Publish\<close> (\<^verbatim>\<open>virtual_send.rs\<close>): proving, publishing and resuming as actions on the checkpoint and
    the files that leave a trace; a small calculus of weakest preconditions shows that every run
    keeps \<open>trace_ok\<close>. \<open>Send_Safety\<close> reads the properties off it, and shows with a second calculus,
    \<open>leads\<close>, that a publish the network lets through within its twelve attempts succeeds.
  \<^item> \<open>Keychain\<close> (\<^verbatim>\<open>keychain.rs\<close>): the key store contract as a locale, interpreted on the in-memory
    store; the command-line store over the answers of the \<^verbatim>\<open>security\<close> tool.
  \<^item> \<open>Disk\<close>: files by relative path, with the failures of each operation as an argument; what
    \<open>Profiles\<close> and \<open>Wipe\<close> move and remove. \<open>rename\<close> replaces a target like \<^verbatim>\<open>std::fs::rename\<close>, so that
    nothing is overwritten rests on the callers' guards.
  \<^item> \<open>App_Lock\<close> (\<^verbatim>\<open>applock.rs\<close>): the wrapped master key, the attempts counted before each guess, the
    waits and the final destruction, over any key store that saves an item or leaves it (the locale
    \<open>atomic_keychain\<close>, interpreted on the in-memory store). \<open>Vault\<close> (\<^verbatim>\<open>vault.rs\<close>): sealed files, one key per profile.
  \<^item> \<open>Profiles\<close> (\<^verbatim>\<open>profiles.rs\<close>): listing, migrating and archiving profiles. \<open>Wipe\<close>
    (\<^verbatim>\<open>wipe.rs\<close>): deleting one profile and the panic wipe; \<open>Wipe_Safety\<close> shows what they
    leave and what they never touch.
  \<^item> \<open>Inbox\<close> (\<^verbatim>\<open>inbox.rs\<close>): from events to the messages shown. \<open>App\<close> (\<^verbatim>\<open>app.rs\<close>): the actions of
    the front ends over the files of a profile, with a log of the transactions signed and of the
    files at that moment. \<open>Setup\<close> (\<^verbatim>\<open>setup.rs\<close>): the five steps that make an identity, a second
    interpretation of \<open>checkpoints\<close>.
  \<^item> \<open>Net\<close> (\<^verbatim>\<open>net.rs\<close>): the write-once routing of the process. \<open>Spill\<close> (\<^verbatim>\<open>spill_alloc.rs\<close> of the
    phone prover and the proof bridge): the allocator's calls and counters.
  \<^item> \<open>Feeder\<close>, \<open>Block_Index\<close> (\<^verbatim>\<open>gateway/src\<close>): reading the chain block by block from a feeder
    gateway, the cached index of events, the registry rebuilt from it.
  \<^item> \<open>Checklist\<close> (\<^verbatim>\<open>gui/src/send_flow.rs\<close>, \<^verbatim>\<open>setup_flow.rs\<close>): the reducers behind the progress
    views, the one of a setup shown to agree with the plan on disk after every run of \<open>Setup\<close>.
    \<open>Session\<close> (\<^verbatim>\<open>gui/src/session.rs\<close>, \<^verbatim>\<open>compose_view.rs\<close>): the controls of a profile as a state
    machine over the jobs they spawn.

  \<^item> \<open>Pack\<close>, \<open>Decommit\<close>, \<open>Calldata\<close> (\<^verbatim>\<open>privacy-prove-cairo-bridge/src/main.rs\<close>): how a proof reaches the
    verifier on the chain. \<open>Pack\<close> is the packing of felts into slots against the contract's reader
    and packer; \<open>Decommit\<close> the Merkle witness of a group of queries against the verifier that consumes
    it, over the committed tree; \<open>Calldata\<close> the two commands that cut a proof into files, with what
    the files hold after a run. \<open>Bridge\<close> (\<^verbatim>\<open>lib.rs\<close>, \<^verbatim>\<open>main.rs\<close>): the command line, the stages of
    proving and wrapping, the C entry points.

  \<^item> \<open>Wizard\<close> (\<^verbatim>\<open>gui/src/wizard_view.rs\<close>): the window that makes a profile, over runs with the plan on
    disk, which may turn out unreadable when the setup is started. \<open>Shell\<close> (\<^verbatim>\<open>gui/src/app.rs\<close>, \<^verbatim>\<open>lock_view.rs\<close>, \<^verbatim>\<open>retire_view.rs\<close>, \<^verbatim>\<open>delete_view.rs\<close>,
    \<^verbatim>\<open>migrate_view.rs\<close>): one frame of the desktop application as a step on the device and the window,
    which composes \<open>App_Lock\<close>, \<open>Profiles\<close>, \<open>Wipe\<close>, \<open>Session\<close> and \<open>Wizard\<close>; the invariant of the window
    and what can open the lock screen. \<open>Shell_Spends\<close> follows the flows at work over many frames: the
    sends a session starts and the setups the wizard starts never overlap.

  \<^bold>\<open>Conventions.\<close> A file is \<open>'a option\<close> holding the value its JSON stands for. The environment is
  an argument: \<open>io\<close> says which reads and writes fail, \<open>rpc\<close> answers requests, \<open>world\<close> holds what
  the gateway, the clock and the node answer to each attempt of a publish. A loop that waits for
  the outside world runs over the list of its successive answers and is \<open>None\<close> when the list ends
  first; a loop over a server's pages is a \<^verbatim>\<open>partial_function\<close>. That they return is proved where
  it is claimed (\<open>publish_gets_through\<close>, \<open>events_walks_every_page\<close>). A write puts the whole value or
  leaves the file as it was: a file cut short by a crash is not modelled. Integers keep their width: an
  overflow is the panic of the checked arithmetic, a saturating operation saturates.

  \<^bold>\<open>Not modelled.\<close> Processes (\<^verbatim>\<open>sncast\<close>, the prover), sockets and threads, the command line, the
  drawing of the desktop application and its threads, the Tor client, the C entry points of the phone
  prover, the provers and circuits behind the proof bridge, and the Cairo contracts beyond what reads
  the bridge's files; display
  strings (addresses grouped for reading, waiting times); secrets' randomness (the draws are
  arguments).
\<close>

end
